(* ===== verification/Sift_Prelude.thy ===== *)
theory Sift_Prelude
  imports Main
begin

text \<open>
  Shared vocabulary of the development: results of code that can throw, the JavaScript list and
  string operations the modelled code uses, and two small locales that every state machine of the
  development instantiates (an invariant kept by each step, a relation every step stays inside).

  Conventions. A TypeScript function that may throw returns a sum: \<open>Inl\<close> carries the
  error, \<open>Inr\<close> the value. A class with private fields is a record and each method is a
  function that returns the updated record. Text is a \<^typ>\<open>string\<close>: the code units of
  a JavaScript string, restricted to the first 256. Identifiers drawn with
  \<open>randomUUID()\<close> are drawn from a counter kept in the state, so that a fresh
  identifier is one that was never handed out.
\<close>

section \<open>Results of code that may throw\<close>

definition bind_result :: "'e + 'a \<Rightarrow> ('a \<Rightarrow> 'e + 'b) \<Rightarrow> 'e + 'b" where
  "bind_result r f = (case r of Inl e \<Rightarrow> Inl e | Inr a \<Rightarrow> f a)"

lemma bind_result_simps [simp]:
  "bind_result (Inl e) f = Inl e"
  "bind_result (Inr a) f = f a"
  by (simp_all add: bind_result_def)

lemma bind_result_Inr [simp]:
  "bind_result r f = Inr b \<longleftrightarrow> (\<exists>a. r = Inr a \<and> f a = Inr b)"
  by (cases r) simp_all

lemma bind_result_Inl:
  "bind_result r f = Inl e \<longleftrightarrow> r = Inl e \<or> (\<exists>a. r = Inr a \<and> f a = Inl e)"
  by (cases r) simp_all

definition is_ok :: "'e + 'a \<Rightarrow> bool" where
  "is_ok r = (case r of Inl _ \<Rightarrow> False | Inr _ \<Rightarrow> True)"

lemma is_ok_simps [simp]: "is_ok (Inr a)" "\<not> is_ok (Inl e)"
  by (simp_all add: is_ok_def)

lemma is_ok_projr: "is_ok r \<Longrightarrow> r = Inr (projr r)"
  by (cases r) simp_all

lemma is_ok_projr_pair: "is_ok r \<Longrightarrow> r = Inr (fst (projr r), snd (projr r))"
  by (cases r) simp_all

text \<open>A loop over an array whose body may throw: the first throw ends it.\<close>

fun each_ok :: "('a \<Rightarrow> 'e + unit) \<Rightarrow> 'a list \<Rightarrow> 'e + unit" where
  "each_ok f [] = Inr ()"
| "each_ok f (x # xs) = (case f x of Inl e \<Rightarrow> Inl e | Inr _ \<Rightarrow> each_ok f xs)"

lemma each_ok_iff: "each_ok f xs = Inr () \<longleftrightarrow> (\<forall>x \<in> set xs. f x = Inr ())"
  by (induction xs) (auto split: sum.splits)

text \<open>\<open>array.map\<close> with a body that may throw.\<close>

fun map_ok :: "('a \<Rightarrow> 'e + 'b) \<Rightarrow> 'a list \<Rightarrow> 'e + 'b list" where
  "map_ok f [] = Inr []"
| "map_ok f (x # xs) =
     (case f x of Inl e \<Rightarrow> Inl e
      | Inr y \<Rightarrow> (case map_ok f xs of Inl e \<Rightarrow> Inl e | Inr ys \<Rightarrow> Inr (y # ys)))"

lemma map_ok_Inr: "map_ok f xs = Inr ys \<longleftrightarrow> list_all2 (\<lambda>x y. f x = Inr y) xs ys"
proof (induction xs arbitrary: ys)
  case Nil
  then show ?case by auto
next
  case (Cons x xs)
  have "map_ok f (x # xs) = Inr ys \<longleftrightarrow> (\<exists>y zs. f x = Inr y \<and> map_ok f xs = Inr zs \<and> ys = y # zs)"
    by (auto split: sum.splits)
  then show ?case by (auto simp: Cons.IH list_all2_Cons1)
qed

section \<open>Lists\<close>

text \<open>\<open>array.findIndex\<close> followed by \<open>splice(index, 1)\<close>, or
  \<open>indexOf\<close> and \<open>splice\<close>: the first match is removed.\<close>

fun remove_first :: "('a \<Rightarrow> bool) \<Rightarrow> 'a list \<Rightarrow> 'a list" where
  "remove_first p [] = []"
| "remove_first p (x # xs) = (if p x then xs else x # remove_first p xs)"

lemma remove_first_subset: "set (remove_first p xs) \<subseteq> set xs"
  by (induction xs) auto

lemma remove_first_none [simp]: "\<forall>x \<in> set xs. \<not> p x \<Longrightarrow> remove_first p xs = xs"
  by (induction xs) auto

lemma remove_first_distinct: "distinct xs \<Longrightarrow> distinct (remove_first p xs)"
  by (induction xs) (use remove_first_subset in fastforce)+

lemma remove_first_eq_filter:
  "distinct xs \<Longrightarrow> remove_first (\<lambda>y. y = x) xs = filter (\<lambda>y. y \<noteq> x) xs"
  by (induction xs) (auto intro: filter_True [symmetric])

lemma set_remove_first_eq:
  "distinct xs \<Longrightarrow> set (remove_first (\<lambda>y. y = x) xs) = set xs - {x}"
  by (simp add: remove_first_eq_filter set_diff_eq)

lemma length_remove_first:
  "\<exists>x \<in> set xs. p x \<Longrightarrow> length xs = Suc (length (remove_first p xs))"
  by (induction xs) auto

text \<open>\<open>[...new Set(xs)]\<close>: the first occurrence of each element, in order.\<close>

fun js_dedupe :: "'a list \<Rightarrow> 'a list" where
  "js_dedupe [] = []"
| "js_dedupe (x # xs) = x # filter (\<lambda>y. y \<noteq> x) (js_dedupe xs)"

lemma set_js_dedupe [simp]: "set (js_dedupe xs) = set xs"
  by (induction xs) auto

lemma distinct_js_dedupe [simp]: "distinct (js_dedupe xs)"
  by (induction xs) auto

lemma js_dedupe_id: "distinct xs \<Longrightarrow> js_dedupe xs = xs"
  by (induction xs) (auto intro!: filter_True)

lemma map_if_map_fst:
  "(\<And>x. f x = f (g x)) \<Longrightarrow> map f (map (\<lambda>x. if p x then g x else x) xs) = map f xs"
  by (induction xs) auto

section \<open>JavaScript strings over the first 256 code units\<close>

text \<open>The characters \<open>String.prototype.trim\<close> and \<open>\\s\<close> treat as white
  space below code unit 256: tab, line feed, vertical tab, form feed, carriage return, space and
  no-break space.\<close>

definition js_space :: "char \<Rightarrow> bool" where
  "js_space c \<longleftrightarrow> (let n = (of_char c :: nat) in n \<in> {9, 10, 11, 12, 13, 32, 160})"

definition js_trim_start :: "string \<Rightarrow> string" where
  "js_trim_start s = dropWhile js_space s"

definition js_trim_end :: "string \<Rightarrow> string" where
  "js_trim_end s = rev (dropWhile js_space (rev s))"

definition js_trim :: "string \<Rightarrow> string" where
  "js_trim s = js_trim_end (js_trim_start s)"

text \<open>\<open>replace(/\\s+/gu, ' ')\<close>.\<close>

function collapse_space :: "string \<Rightarrow> string" where
  "collapse_space [] = []"
| "collapse_space (c # cs) =
     (if js_space c then CHR '' '' # collapse_space (dropWhile js_space cs) else c # collapse_space cs)"
  by pat_completeness auto
termination by (relation "measure length") (auto simp: le_imp_less_Suc length_dropWhile_le)

definition js_starts_with :: "string \<Rightarrow> string \<Rightarrow> bool" where
  "js_starts_with p s \<longleftrightarrow> take (length p) s = p"

fun js_join :: "string \<Rightarrow> string list \<Rightarrow> string" where
  "js_join sep [] = []"
| "js_join sep [x] = x"
| "js_join sep (x # y # xs) = x @ sep @ js_join sep (y # xs)"

text \<open>\<open>text.split(c)\<close> for a one-character separator: one piece more than separators.\<close>

fun js_split :: "char \<Rightarrow> string \<Rightarrow> string list" where
  "js_split c [] = [[]]"
| "js_split c (x # xs) =
     (case js_split c xs of
        [] \<Rightarrow> [[x]]
      | piece # pieces \<Rightarrow> if x = c then [] # piece # pieces else (x # piece) # pieces)"

lemma js_split_not_Nil [simp]: "js_split c s \<noteq> []"
  by (cases s) (auto split: list.splits)

lemma js_split_join: "js_join [c] (js_split c s) = s"
proof (induction s)
  case (Cons x s)
  then obtain p ps where p: "js_split c s = p # ps" by (cases "js_split c s") auto
  have "js_join [c] ((x # p) # ps) = x # js_join [c] (p # ps)" by (cases ps) auto
  then show ?case using Cons by (simp add: p)
qed simp

text \<open>\<open>toLowerCase\<close> below code unit 256.\<close>

definition js_lower_char :: "char \<Rightarrow> char" where
  "js_lower_char c =
     (let n = (of_char c :: nat)
      in if 65 \<le> n \<and> n \<le> 90 \<or> 192 \<le> n \<and> n \<le> 222 \<and> n \<noteq> 215 then char_of (n + 32) else c)"

definition js_lower :: "string \<Rightarrow> string" where
  "js_lower s = map js_lower_char s"

text \<open>A non-negative integer as template literals print it.\<close>

definition digit_char :: "nat \<Rightarrow> char" where
  "digit_char d = char_of (48 + d)"

fun show_nat :: "nat \<Rightarrow> string" where
  "show_nat n = (if n < 10 then [digit_char n] else show_nat (n div 10) @ [digit_char (n mod 10)])"

declare show_nat.simps [simp del]

lemma digit_char_inj: "d < 10 \<Longrightarrow> e < 10 \<Longrightarrow> digit_char d = digit_char e \<Longrightarrow> d = e"
  unfolding digit_char_def by (auto dest!: arg_cong [of _ _ "of_char :: char \<Rightarrow> nat"])

lemma show_nat_not_Nil [simp]: "show_nat n \<noteq> []"
  by (subst show_nat.simps) simp

lemma show_nat_inj: "show_nat m = show_nat n \<Longrightarrow> m = n"
proof (induction m arbitrary: n rule: show_nat.induct)
  case (1 m)
  show ?case
  proof (cases "m < 10")
    case True
    then have m: "show_nat m = [digit_char m]" by (subst show_nat.simps) simp
    have "n < 10"
    proof (rule ccontr)
      assume "\<not> n < 10"
      then have "show_nat n = show_nat (n div 10) @ [digit_char (n mod 10)]"
        by (subst show_nat.simps) simp
      with "1.prems" m show False by (cases "show_nat (n div 10)") auto
    qed
    then have "show_nat n = [digit_char n]" by (subst show_nat.simps) simp
    with "1.prems" m True \<open>n < 10\<close> show ?thesis by (auto intro: digit_char_inj)
  next
    case False
    then have m: "show_nat m = show_nat (m div 10) @ [digit_char (m mod 10)]"
      by (subst show_nat.simps) simp
    have "\<not> n < 10"
    proof
      assume "n < 10"
      then have "show_nat n = [digit_char n]" by (subst show_nat.simps) simp
      with "1.prems" m show False by (cases "show_nat (m div 10)") auto
    qed
    then have n: "show_nat n = show_nat (n div 10) @ [digit_char (n mod 10)]"
      by (subst show_nat.simps) simp
    from "1.prems" m n have eq: "show_nat (m div 10) = show_nat (n div 10)"
      "digit_char (m mod 10) = digit_char (n mod 10)" by auto
    have "m div 10 = n div 10" by (rule "1.IH" [OF False eq(1)])
    moreover have "m mod 10 = n mod 10" by (rule digit_char_inj [OF _ _ eq(2)]) auto
    ultimately show ?thesis by (metis div_mult_mod_eq)
  qed
qed

definition LF :: char where "LF = CHR 0x0A"
definition CR :: char where "CR = CHR 0x0D"

text \<open>\<open>split(/\\r?\\n/u)\<close>: the pieces between line feeds, each piece that ends at one losing one
  trailing carriage return.\<close>

definition drop_cr :: "string \<Rightarrow> string" where
  "drop_cr s = (if s \<noteq> [] \<and> last s = CR then butlast s else s)"

definition split_lines :: "string \<Rightarrow> string list" where
  "split_lines s = (let ps = js_split LF s in map drop_cr (butlast ps) @ [last ps])"

lemma js_trim_idem [simp]: "js_trim (js_trim s) = js_trim s"
proof -
  define t where "t = js_trim s"
  have start: "js_trim_start (js_trim_end x) = js_trim_end x" if "x = [] \<or> \<not> js_space (hd x)" for x
  proof (cases "js_trim_end x")
    case (Cons c cs)
    have "x = js_trim_end x @ rev (takeWhile js_space (rev x))"
      unfolding js_trim_end_def by (metis rev_append rev_rev_ident takeWhile_dropWhile_id)
    then have x: "x = c # cs @ rev (takeWhile js_space (rev x))" unfolding Cons by simp
    have "hd x = c" "x \<noteq> []" by (subst x, simp)+
    then show ?thesis using that Cons by (simp add: js_trim_start_def)
  qed (simp add: js_trim_start_def)
  have "js_trim_start s = [] \<or> \<not> js_space (hd (js_trim_start s))"
    unfolding js_trim_start_def using hd_dropWhile by blast
  then have "js_trim_start t = t" using start by (simp add: t_def js_trim_def)
  moreover have "js_trim_end t = t" by (simp add: t_def js_trim_def js_trim_end_def)
  ultimately show ?thesis by (simp add: t_def [symmetric]) (simp add: js_trim_def)
qed

section \<open>State machines\<close>

text \<open>A machine that consumes events: the run of a list of events.\<close>

definition run_events :: "('ev \<Rightarrow> 's \<Rightarrow> 's) \<Rightarrow> 'ev list \<Rightarrow> 's \<Rightarrow> 's" where
  "run_events step es s = fold step es s"

lemma run_events_simps [simp]:
  "run_events step [] s = s"
  "run_events step (e # es) s = run_events step es (step e s)"
  "run_events step (es @ fs) s = run_events step fs (run_events step es s)"
  by (simp_all add: run_events_def)

text \<open>An invariant each step keeps holds after every run.\<close>

locale invariant_machine =
  fixes step :: "'ev \<Rightarrow> 's \<Rightarrow> 's" and inv :: "'s \<Rightarrow> bool"
  assumes inv_step: "inv s \<Longrightarrow> inv (step e s)"
begin

lemma inv_run: "inv s \<Longrightarrow> inv (run_events step es s)"
  by (induction es arbitrary: s) (auto intro: inv_step)

end

text \<open>
  A transitive relation each step stays inside, from states that satisfy the invariant, relates the
  first and the last state of every run: monotone counters, final values that never change.
\<close>

locale monotone_machine = invariant_machine +
  fixes rel :: "'b \<Rightarrow> 'b \<Rightarrow> bool"
  assumes rel_refl: "inv s \<Longrightarrow> rel s s"
    and rel_trans: "rel s t \<Longrightarrow> rel t u \<Longrightarrow> rel s u"
    and rel_step: "inv s \<Longrightarrow> rel s (step e s)"
begin

lemma rel_run: "inv s \<Longrightarrow> rel s (run_events step es s)"
proof (induction es arbitrary: s)
  case Nil
  then show ?case by (simp add: rel_refl)
next
  case (Cons e es)
  then have "rel s (step e s)" and "inv (step e s)" by (simp_all add: rel_step inv_step)
  then show ?case using Cons.IH [of "step e s"] by (auto intro: rel_trans)
qed

end

end
