(* ===== verification/Read_Window.thy ===== *)
theory Read_Window
  imports Sift_Prelude
begin

text \<open>
  Read windows of the repository tools: which lines of which file have been returned to the model,
  and which lines the next \<open>read\<close> returns. Models
  \<open>src/repo-search/engine/read-overlap.ts\<close> (ranges, overlap, merging),
  \<open>src/repo-search/engine/read-window-governor.ts\<close> (the per-file counters),
  \<open>findContiguousUnreadRange\<close> of \<open>src/tool-output-fit.ts\<close>, and
  \<open>planRead\<close> with the range part of \<open>buildReadExecution\<close> of
  \<open>src/repo-search/engine/repo-tools.ts\<close>. Line numbers are integers, as every
  caller passes them.
\<close>

section \<open>Ranges\<close>

datatype read_range = ReadRange (rstart: int) (rend: int)

text \<open>The comparator of both sorts: by start, then by end.\<close>

instantiation read_range :: linorder
begin

definition less_eq_read_range :: "read_range \<Rightarrow> read_range \<Rightarrow> bool" where
  "less_eq_read_range a b \<longleftrightarrow> rstart a < rstart b \<or> rstart a = rstart b \<and> rend a \<le> rend b"

definition less_read_range :: "read_range \<Rightarrow> read_range \<Rightarrow> bool" where
  "less_read_range a b \<longleftrightarrow> rstart a < rstart b \<or> rstart a = rstart b \<and> rend a < rend b"

instance
  by standard (auto simp: less_eq_read_range_def less_read_range_def intro: read_range.expand)

end

lemma rstart_mono: "a \<le> b \<Longrightarrow> rstart a \<le> rstart b"
  by (auto simp: less_eq_read_range_def)

definition range_lines :: "read_range \<Rightarrow> int set" where
  "range_lines r = {rstart r ..< rend r}"

definition covered :: "read_range list \<Rightarrow> int set" where
  "covered rs = (\<Union>r \<in> set rs. range_lines r)"

lemma covered_simps [simp]:
  "covered [] = {}"
  "covered (r # rs) = range_lines r \<union> covered rs"
  "covered (rs @ qs) = covered rs \<union> covered qs"
  by (auto simp: covered_def)

lemma covered_sort [simp]: "covered (sort rs) = covered rs"
  by (simp add: covered_def)

lemma covered_rev [simp]: "covered (rev rs) = covered rs"
  by (simp add: covered_def)

lemma finite_covered [simp]: "finite (covered rs)"
  by (simp add: covered_def range_lines_def)

definition normalizeRange :: "read_range \<Rightarrow> read_range" where
  "normalizeRange r = (let s = max 0 (rstart r) in ReadRange s (max s (rend r)))"

definition intersectionLength :: "read_range \<Rightarrow> read_range \<Rightarrow> int" where
  "intersectionLength a b =
     (let na = normalizeRange a; nb = normalizeRange b;
          s = max (rstart na) (rstart nb); e = min (rend na) (rend nb)
      in if e > s then e - s else 0)"

definition overlapWithRanges :: "read_range list \<Rightarrow> read_range \<Rightarrow> int" where
  "overlapWithRanges ranges next =
     (let n = normalizeRange next
      in foldl (\<lambda>acc r. acc + intersectionLength r n) 0 ranges)"

text \<open>One turn of the merging loop; the list under construction is kept with its last range
  first.\<close>

fun merge_push :: "read_range list \<Rightarrow> read_range \<Rightarrow> read_range list" where
  "merge_push [] c = [c]"
| "merge_push (l # acc) c =
     (if rstart c > rend l then c # l # acc
      else if rend c > rend l then ReadRange (rstart l) (rend c) # acc
      else l # acc)"

definition mergeRange :: "read_range list \<Rightarrow> read_range \<Rightarrow> read_range list" where
  "mergeRange ranges next =
     (let n = normalizeRange next
      in if rend n \<le> rstart n then ranges
         else let sorted_ranges =
                sort (filter (\<lambda>r. rend r > rstart r) (map normalizeRange ranges @ [n]))
              in if sorted_ranges = [] then [] else rev (foldl merge_push [] sorted_ranges))"

text \<open>The shape every merged list has: non-empty ranges of non-negative lines, in order, with a
  gap between neighbours.\<close>

definition merged_ranges :: "read_range list \<Rightarrow> bool" where
  "merged_ranges rs \<longleftrightarrow>
     (\<forall>r \<in> set rs. 0 \<le> rstart r \<and> rstart r < rend r) \<and>
     sorted_wrt (\<lambda>a b. rend a < rstart b) rs"

lemma normalizeRange_id: "0 \<le> rstart r \<Longrightarrow> rstart r \<le> rend r \<Longrightarrow> normalizeRange r = r"
  by (cases r) (simp add: normalizeRange_def)

lemma normalizeRange_bounds [simp]:
  "0 \<le> rstart (normalizeRange r)" "rstart (normalizeRange r) \<le> rend (normalizeRange r)"
  by (simp_all add: normalizeRange_def Let_def)

lemma range_lines_normalize: "range_lines (normalizeRange r) = range_lines r \<inter> {0..}"
  by (auto simp: range_lines_def normalizeRange_def Let_def)

lemma intersectionLength_card:
  "intersectionLength a b = int (card (range_lines (normalizeRange a) \<inter> range_lines (normalizeRange b)))"
  using normalizeRange_bounds(2) [of a] normalizeRange_bounds(2) [of b]
  by (auto simp: intersectionLength_def range_lines_def Let_def max_def min_def)

lemma foldl_sum: "foldl (\<lambda>acc r. acc + f r) (c :: int) rs = c + sum_list (map f rs)"
  by (induction rs arbitrary: c) auto

subsection \<open>Merging keeps the shape and adds exactly the new lines\<close>

lemma merge_push_step:
  assumes "\<forall>r \<in> set acc. 0 \<le> rstart r \<and> rstart r < rend r"
    and "sorted_wrt (\<lambda>a b. rend b < rstart a) acc"
    and "0 \<le> rstart c" "rstart c < rend c" "\<forall>r \<in> set acc. rstart r \<le> rstart c"
  shows "(\<forall>r \<in> set (merge_push acc c). 0 \<le> rstart r \<and> rstart r < rend r) \<and>
     sorted_wrt (\<lambda>a b. rend b < rstart a) (merge_push acc c) \<and>
     (\<forall>r \<in> set (merge_push acc c). rstart r \<le> rstart c) \<and>
     covered (merge_push acc c) = covered acc \<union> range_lines c"
proof (cases acc)
  case Nil
  with assms show ?thesis by simp
next
  case (Cons l rest)
  have facts: "rstart l \<le> rstart c" "0 \<le> rstart l" "rstart l < rend l"
      "\<forall>b \<in> set rest. rend b < rstart l"
      "\<forall>b \<in> set rest. 0 \<le> rstart b \<and> rstart b < rend b"
      "sorted_wrt (\<lambda>a b. rend b < rstart a) rest"
      "\<forall>r \<in> set rest. rstart r \<le> rstart c"
    using assms Cons by auto
  consider "rend l < rstart c" | "rstart c \<le> rend l" "rend l < rend c"
    | "rstart c \<le> rend l" "rend c \<le> rend l" by linarith
  then show ?thesis
  proof cases
    case 1
    then show ?thesis using facts assms(3,4) Cons by (force simp: range_lines_def)
  next
    case 2
    then show ?thesis using facts assms(3,4) Cons by (auto simp: range_lines_def)
  next
    case 3
    then show ?thesis using facts assms(3,4) Cons by (auto simp: range_lines_def)
  qed
qed

lemma merge_fold:
  assumes "sorted cs" and "\<forall>c \<in> set cs. 0 \<le> rstart c \<and> rstart c < rend c"
    and "\<forall>r \<in> set acc. 0 \<le> rstart r \<and> rstart r < rend r"
    and "sorted_wrt (\<lambda>a b. rend b < rstart a) acc"
    and "\<forall>r \<in> set acc. \<forall>c \<in> set cs. rstart r \<le> rstart c"
  shows "(\<forall>r \<in> set (foldl merge_push acc cs). 0 \<le> rstart r \<and> rstart r < rend r) \<and>
     sorted_wrt (\<lambda>a b. rend b < rstart a) (foldl merge_push acc cs) \<and>
     covered (foldl merge_push acc cs) = covered acc \<union> covered cs"
  using assms
proof (induction cs arbitrary: acc)
  case Nil
  then show ?case by simp
next
  case (Cons c cs)
  from Cons.prems have c: "0 \<le> rstart c" "rstart c < rend c" by auto
  from Cons.prems(5) have "\<forall>r \<in> set acc. rstart r \<le> rstart c" by simp
  note push = merge_push_step [OF Cons.prems(3,4) c this]
  have later: "\<forall>d \<in> set cs. rstart c \<le> rstart d"
    using Cons.prems(1) by (auto intro: rstart_mono)
  have "\<forall>r \<in> set (merge_push acc c). \<forall>d \<in> set cs. rstart r \<le> rstart d"
    using push later by fastforce
  then show ?case
    using Cons.IH [of "merge_push acc c"] Cons.prems(1,2) push by auto
qed

lemma mergeRange_correct:
  assumes "merged_ranges rs"
  shows "merged_ranges (mergeRange rs r) \<and>
     covered (mergeRange rs r) = covered rs \<union> range_lines (normalizeRange r)"
proof (cases "rend (normalizeRange r) \<le> rstart (normalizeRange r)")
  case True
  with assms show ?thesis by (auto simp: mergeRange_def Let_def range_lines_def)
next
  case False
  let ?n = "normalizeRange r"
  let ?all = "filter (\<lambda>r. rend r > rstart r) (map normalizeRange rs @ [?n])"
  have rs: "map normalizeRange rs = rs"
    using assms by (intro map_idI) (auto simp: merged_ranges_def intro!: normalizeRange_id)
  have all: "?all = rs @ [?n]"
    unfolding rs using assms False by (auto simp: merged_ranges_def filter_True)
  have ne: "sort (rs @ [?n]) \<noteq> []"
    by (metis append_is_Nil_conv list.discI set_empty set_sort)
  have fold: "(\<forall>q \<in> set (foldl merge_push [] (sort (rs @ [?n]))). 0 \<le> rstart q \<and> rstart q < rend q) \<and>
     sorted_wrt (\<lambda>a b. rend b < rstart a) (foldl merge_push [] (sort (rs @ [?n]))) \<and>
     covered (foldl merge_push [] (sort (rs @ [?n]))) = covered [] \<union> covered (sort (rs @ [?n]))"
    using assms False by (intro merge_fold) (auto simp: merged_ranges_def)
  have "mergeRange rs r = rev (foldl merge_push [] (sort (rs @ [?n])))"
    unfolding mergeRange_def Let_def using False ne by (simp only: all if_False)
  with fold show ?thesis
    by (simp add: merged_ranges_def sorted_wrt_rev)
qed

lemma merged_ranges_disjoint:
  assumes "merged_ranges (r # rs)"
  shows "range_lines r \<inter> covered rs = {}"
  using assms by (fastforce simp: merged_ranges_def covered_def range_lines_def)

lemma merged_ranges_tl: "merged_ranges (r # rs) \<Longrightarrow> merged_ranges rs"
  by (simp add: merged_ranges_def)

lemma overlap_card:
  assumes "merged_ranges rs"
  shows "overlapWithRanges rs r = int (card (covered rs \<inter> range_lines (normalizeRange r)))"
proof -
  let ?n = "normalizeRange r"
  have nn: "normalizeRange ?n = ?n" by (simp add: normalizeRange_id)
  have "sum_list (map (\<lambda>q. intersectionLength q ?n) rs) = int (card (covered rs \<inter> range_lines ?n))"
    using assms
  proof (induction rs)
    case Nil
    then show ?case by simp
  next
    case (Cons q rs)
    then have IH: "sum_list (map (\<lambda>q. intersectionLength q ?n) rs) = int (card (covered rs \<inter> range_lines ?n))"
      by (blast dest: merged_ranges_tl)
    have q: "normalizeRange q = q"
      using Cons.prems by (auto simp: merged_ranges_def intro!: normalizeRange_id)
    have "card ((range_lines q \<union> covered rs) \<inter> range_lines ?n)
        = card (range_lines q \<inter> range_lines ?n) + card (covered rs \<inter> range_lines ?n)"
      using merged_ranges_disjoint [OF Cons.prems]
      by (subst card_Un_disjoint [symmetric]) (auto simp: range_lines_def intro!: arg_cong [of _ _ card])
    moreover have "intersectionLength q ?n = int (card (range_lines q \<inter> range_lines ?n))"
      by (simp add: intersectionLength_card q nn)
    ultimately show ?case by (simp add: IH)
  qed
  then show ?thesis by (simp add: overlapWithRanges_def Let_def foldl_sum)
qed

section \<open>What a store of returned ranges promises its clients\<close>

locale range_store =
  fixes merge :: "'s \<Rightarrow> read_range \<Rightarrow> 's"
    and overlap :: "'s \<Rightarrow> read_range \<Rightarrow> int"
    and lines_of :: "'s \<Rightarrow> int set"
    and wf_store :: "'s \<Rightarrow> bool"
  assumes wf_merge: "wf_store s \<Longrightarrow> wf_store (merge s r)"
    and lines_merge: "wf_store s \<Longrightarrow> lines_of (merge s r) = lines_of s \<union> range_lines (normalizeRange r)"
    and overlap_eq: "wf_store s \<Longrightarrow> overlap s r = int (card (lines_of s \<inter> range_lines (normalizeRange r)))"
    and finite_lines: "wf_store s \<Longrightarrow> finite (lines_of s)"
begin

lemma card_normalized: "int (card (range_lines (normalizeRange r))) \<le> max 0 (rend r - rstart r)"
  by (auto simp: range_lines_def normalizeRange_def Let_def)

lemma overlap_le:
  assumes "wf_store s" shows "overlap s r \<le> max 0 (rend r - rstart r)"
proof -
  have "card (lines_of s \<inter> range_lines (normalizeRange r)) \<le> card (range_lines (normalizeRange r))"
    by (rule card_mono) (auto simp: range_lines_def)
  then show ?thesis using card_normalized [of r] assms by (simp add: overlap_eq)
qed

lemma overlap_nonneg: "wf_store s \<Longrightarrow> 0 \<le> overlap s r"
  by (simp add: overlap_eq)

lemma overlap_zero:
  "wf_store s \<Longrightarrow> lines_of s \<inter> range_lines (normalizeRange r) = {} \<Longrightarrow> overlap s r = 0"
  by (simp add: overlap_eq)

lemma card_merge:
  assumes "wf_store s" and "0 \<le> rstart r"
  shows "int (card (lines_of (merge s r)))
       = int (card (lines_of s)) + (max 0 (rend r - rstart r) - overlap s r)"
proof -
  let ?n = "range_lines (normalizeRange r)"
  have fin: "finite ?n" by (simp add: range_lines_def)
  have n: "int (card ?n) = max 0 (rend r - rstart r)"
    using assms(2) by (auto simp: range_lines_def normalizeRange_def Let_def)
  have "card (lines_of s) + card ?n = card (lines_of s \<union> ?n) + card (lines_of s \<inter> ?n)"
    by (rule card_Un_Int) (use finite_lines assms fin in auto)
  then show ?thesis using assms by (simp add: lines_merge overlap_eq flip: n)
qed

end

interpretation returned: range_store mergeRange overlapWithRanges covered merged_ranges
  by unfold_locales (simp_all add: mergeRange_correct overlap_card)

section \<open>The governor: counters per file\<close>

record file_read_state =
  mergedReturnedRanges :: "read_range list"
  totalLinesRead :: int
  uniqueLinesRead :: int
  overlapLines :: int

type_synonym read_states = "string \<rightharpoonup> file_read_state"

record read_execution_metrics =
  metric_overlapLines :: int
  metric_newLinesCovered :: int
  metric_cumulativeUniqueLines :: int

definition fresh_file_read_state :: file_read_state where
  "fresh_file_read_state =
     \<lparr>mergedReturnedRanges = [], totalLinesRead = 0, uniqueLinesRead = 0, overlapLines = 0\<rparr>"

definition getOrCreateFileReadState :: "read_states \<Rightarrow> string \<Rightarrow> file_read_state \<times> read_states" where
  "getOrCreateFileReadState m key =
     (case m key of Some st \<Rightarrow> (st, m)
      | None \<Rightarrow> (fresh_file_read_state, m(key \<mapsto> fresh_file_read_state)))"

definition recordNativeRead ::
    "read_states \<Rightarrow> string \<Rightarrow> int \<Rightarrow> int \<Rightarrow> read_execution_metrics \<times> read_states" where
  "recordNativeRead m0 key returnedStart returnedEndExclusive =
     (let (st, m) = getOrCreateFileReadState m0 key;
          returnedRange = ReadRange returnedStart returnedEndExclusive;
          linesRead = max 0 (rend returnedRange - rstart returnedRange);
          overlap = overlapWithRanges (mergedReturnedRanges st) returnedRange;
          newLines = max 0 (linesRead - overlap);
          st' = st\<lparr>totalLinesRead := totalLinesRead st + linesRead,
                   overlapLines := overlapLines st + overlap,
                   uniqueLinesRead := uniqueLinesRead st + newLines,
                   mergedReturnedRanges := mergeRange (mergedReturnedRanges st) returnedRange\<rparr>
      in (\<lparr>metric_overlapLines = overlap, metric_newLinesCovered = newLines,
           metric_cumulativeUniqueLines = uniqueLinesRead st'\<rparr>, m(key \<mapsto> st')))"

definition invalidatePath :: "read_states \<Rightarrow> string \<Rightarrow> read_states" where
  "invalidatePath m key =
     (case m key of None \<Rightarrow> m | Some st \<Rightarrow> m(key \<mapsto> st\<lparr>mergedReturnedRanges := []\<rparr>))"

definition invalidateAll :: "read_states \<Rightarrow> read_states" where
  "invalidateAll m = (\<lambda>key. map_option (\<lambda>st. st\<lparr>mergedReturnedRanges := []\<rparr>) (m key))"

datatype read_event =
    RecordRead string int int
  | InvalidatePath string
  | InvalidateAll

fun read_step :: "read_event \<Rightarrow> read_states \<Rightarrow> read_states" where
  "read_step (RecordRead key s e) m = snd (recordNativeRead m key s e)"
| "read_step (InvalidatePath key) m = invalidatePath m key"
| "read_step InvalidateAll m = invalidateAll m"

text \<open>Every stored list of ranges is merged, and a file's total is the sum of its unique and
  its overlapping lines.\<close>

definition file_state_ok :: "file_read_state \<Rightarrow> bool" where
  "file_state_ok st \<longleftrightarrow>
     merged_ranges (mergedReturnedRanges st) \<and>
     totalLinesRead st = uniqueLinesRead st + overlapLines st \<and>
     int (card (covered (mergedReturnedRanges st))) \<le> uniqueLinesRead st \<and>
     0 \<le> overlapLines st"

definition read_states_ok :: "read_states \<Rightarrow> bool" where
  "read_states_ok m \<longleftrightarrow> (\<forall>key st. m key = Some st \<longrightarrow> file_state_ok st)"


lemma file_state_ok_fresh: "file_state_ok fresh_file_read_state"
  by (simp add: file_state_ok_def fresh_file_read_state_def merged_ranges_def)

lemma getOrCreate_ok:
  "read_states_ok m \<Longrightarrow> file_state_ok (fst (getOrCreateFileReadState m key))"
  by (auto simp: getOrCreateFileReadState_def read_states_ok_def file_state_ok_fresh split: option.splits)

lemma snd_getOrCreate_upd [simp]:
  "(snd (getOrCreateFileReadState m key))(key \<mapsto> st) = m(key \<mapsto> st)"
  by (auto simp: getOrCreateFileReadState_def split: option.splits)

text \<open>The state a recorded read stores.\<close>

definition recorded_state :: "file_read_state \<Rightarrow> int \<Rightarrow> int \<Rightarrow> file_read_state" where
  "recorded_state st s e =
     (let ov = overlapWithRanges (mergedReturnedRanges st) (ReadRange s e)
      in st\<lparr>totalLinesRead := totalLinesRead st + max 0 (e - s),
            overlapLines := overlapLines st + ov,
            uniqueLinesRead := uniqueLinesRead st + max 0 (max 0 (e - s) - ov),
            mergedReturnedRanges := mergeRange (mergedReturnedRanges st) (ReadRange s e)\<rparr>)"

lemma recordNativeRead_map:
  "snd (recordNativeRead m key s e)
     = m(key \<mapsto> recorded_state (fst (getOrCreateFileReadState m key)) s e)"
  by (simp add: recordNativeRead_def recorded_state_def Let_def case_prod_beta)

lemma recorded_state_ok:
  assumes "file_state_ok st" shows "file_state_ok (recorded_state st s e)"
proof -
  let ?rs = "mergedReturnedRanges st" let ?r = "ReadRange s e"
  have rs: "merged_ranges ?rs" using assms by (simp add: file_state_ok_def)
  have le: "overlapWithRanges ?rs ?r \<le> max 0 (e - s)"
    using returned.overlap_le [OF rs, of ?r] by simp
  have ge: "0 \<le> overlapWithRanges ?rs ?r"
    by (rule returned.overlap_nonneg [OF rs])
  have "int (card (covered (mergeRange ?rs ?r))) + overlapWithRanges ?rs ?r
      = int (card (covered ?rs)) + int (card (range_lines (normalizeRange ?r)))"
    unfolding returned.lines_merge [OF rs] returned.overlap_eq [OF rs]
    using card_Un_Int [of "covered ?rs" "range_lines (normalizeRange ?r)"]
    by (metis finite_atLeastLessThan_int finite_covered of_nat_add range_lines_def)
  then have "int (card (covered (mergeRange ?rs ?r)))
      \<le> int (card (covered ?rs)) + (max 0 (e - s) - overlapWithRanges ?rs ?r)"
    using returned.card_normalized [of ?r] by simp
  then show ?thesis
    using assms le ge returned.wf_merge [OF rs, of ?r]
    by (simp add: file_state_ok_def recorded_state_def Let_def)
qed

lemma cleared_state_ok: "file_state_ok st \<Longrightarrow> file_state_ok (st\<lparr>mergedReturnedRanges := []\<rparr>)"
  by (auto simp: file_state_ok_def merged_ranges_def)

lemma read_step_ok: "read_states_ok m \<Longrightarrow> read_states_ok (read_step ev m)"
proof (cases ev)
  case (RecordRead key s e)
  assume "read_states_ok m"
  then show ?thesis
    using recorded_state_ok [OF getOrCreate_ok]
    by (auto simp: RecordRead recordNativeRead_map read_states_ok_def)
qed (auto simp: invalidatePath_def invalidateAll_def read_states_ok_def cleared_state_ok
       split: option.splits)

interpretation governor: invariant_machine read_step read_states_ok
  by unfold_locales (rule read_step_ok)

lemma read_states_ok_empty: "read_states_ok Map.empty"
  by (simp add: read_states_ok_def)

text \<open>The lines a list of recorded reads returned of one file: the specification the
  counters are compared with.\<close>

fun lines_recorded :: "string \<Rightarrow> read_event list \<Rightarrow> int set" where
  "lines_recorded key [] = {}"
| "lines_recorded key (RecordRead k s e # es) =
     (if k = key then {s..<e} else {}) \<union> lines_recorded key es"
| "lines_recorded key (_ # es) = lines_recorded key es"

fun is_positive_read :: "read_event \<Rightarrow> bool" where
  "is_positive_read (RecordRead k s e) \<longleftrightarrow> 0 \<le> s"
| "is_positive_read _ \<longleftrightarrow> False"

lemma recorded_lines_gen:
  assumes "read_states_ok m" and "list_all is_positive_read es"
    and "case m key of None \<Rightarrow> L = {}
         | Some st \<Rightarrow> covered (mergedReturnedRanges st) = L \<and> uniqueLinesRead st = int (card L)"
  shows "case run_events read_step es m key of None \<Rightarrow> L \<union> lines_recorded key es = {}
         | Some st \<Rightarrow> covered (mergedReturnedRanges st) = L \<union> lines_recorded key es \<and>
             uniqueLinesRead st = int (card (L \<union> lines_recorded key es))"
  using assms
proof (induction es arbitrary: m L)
  case Nil
  then show ?case by (auto split: option.splits)
next
  case (Cons ev es)
  obtain k s e where ev: "ev = RecordRead k s e" and s: "0 \<le> s"
    using Cons.prems(2) by (cases ev) auto
  let ?st = "fst (getOrCreateFileReadState m k)"
  let ?m = "read_step ev m"
  have ok: "file_state_ok ?st" by (rule getOrCreate_ok [OF Cons.prems(1)])
  then have rs: "merged_ranges (mergedReturnedRanges ?st)" by (simp add: file_state_ok_def)
  have m': "?m = m(k \<mapsto> recorded_state ?st s e)"
    by (simp add: ev recordNativeRead_map)
  have lines: "range_lines (normalizeRange (ReadRange s e)) = {s..<e}"
    unfolding range_lines_normalize using s by (auto simp: range_lines_def)
  define L' where "L' = L \<union> (if k = key then {s..<e} else {})"
  have key_state: "covered (mergedReturnedRanges ?st) = L \<and> uniqueLinesRead ?st = int (card L)" if "k = key"
    using Cons.prems(3) that
    by (auto simp: getOrCreateFileReadState_def fresh_file_read_state_def split: option.splits)
  have "case ?m key of None \<Rightarrow> L' = {}
        | Some st \<Rightarrow> covered (mergedReturnedRanges st) = L' \<and> uniqueLinesRead st = int (card L')"
  proof (cases "k = key")
    case True
    have "int (card (covered (mergeRange (mergedReturnedRanges ?st) (ReadRange s e))))
        = int (card L) + (max 0 (e - s) - overlapWithRanges (mergedReturnedRanges ?st) (ReadRange s e))"
      using returned.card_merge [OF rs, of "ReadRange s e"] key_state [OF True] s by simp
    then show ?thesis
      using True key_state [OF True] returned.lines_merge [OF rs, of "ReadRange s e"]
        returned.overlap_le [OF rs, of "ReadRange s e"]
      by (simp add: m' recorded_state_def Let_def L'_def lines)
  next
    case False
    then show ?thesis using Cons.prems(3) by (auto simp: m' L'_def split: option.splits)
  qed
  then have "case run_events read_step es ?m key of None \<Rightarrow> L' \<union> lines_recorded key es = {}
         | Some st \<Rightarrow> covered (mergedReturnedRanges st) = L' \<union> lines_recorded key es \<and>
             uniqueLinesRead st = int (card (L' \<union> lines_recorded key es))"
    using Cons.prems by (intro Cons.IH read_step_ok) auto
  moreover have "L \<union> lines_recorded key (ev # es) = L' \<union> lines_recorded key es"
    by (auto simp: ev L'_def)
  ultimately show ?case by (simp only: ev run_events_simps)
qed


section \<open>The next unread lines\<close>

text \<open>\<open>findContiguousUnreadRange\<close>: the loop that advances past returned lines, and
  the range it finds.\<close>

record unread_range_result =
  hasUnread :: bool
  unread_start :: int
  unread_end :: int

fun advance_past_read :: "read_range list \<Rightarrow> int \<Rightarrow> int" where
  "advance_past_read [] start = start"
| "advance_past_read (r # rs) start =
     (if rend r \<le> start then advance_past_read rs start
      else if rstart r \<le> start \<and> start < rend r then advance_past_read rs (rend r)
      else start)"

definition clamp_returned :: "read_range list \<Rightarrow> read_range list" where
  "clamp_returned rs =
     sort (filter (\<lambda>r. rend r > rstart r)
       (map (\<lambda>r. ReadRange (max 1 (rstart r)) (max 1 (rend r))) rs))"

definition findContiguousUnreadRange :: "int \<Rightarrow> int \<Rightarrow> read_range list \<Rightarrow> unread_range_result" where
  "findContiguousUnreadRange requestedStart total_end returnedRanges =
     (let totalEnd = max 1 total_end;
          ranges = clamp_returned returnedRanges;
          start = advance_past_read ranges (max 1 requestedStart)
      in if start \<ge> totalEnd
         then \<lparr>hasUnread = False, unread_start = totalEnd, unread_end = totalEnd\<rparr>
         else let stop = (case find (\<lambda>r. rstart r > start) ranges of
                            None \<Rightarrow> totalEnd | Some r \<Rightarrow> rstart r);
                  e = min totalEnd stop
              in if e \<le> start then \<lparr>hasUnread = False, unread_start = start, unread_end = start\<rparr>
                 else \<lparr>hasUnread = True, unread_start = start, unread_end = e\<rparr>)"

lemma covered_clamp: "covered (clamp_returned rs) = covered rs \<inter> {1..}"
proof -
  have filter: "covered (filter (\<lambda>r. rend r > rstart r) qs) = covered qs" for qs
  proof (induction qs)
    case (Cons q qs)
    have "range_lines q = {}" if "\<not> rend q > rstart q" using that by (simp add: range_lines_def)
    then show ?case using Cons.IH by simp
  qed simp
  have clamp: "range_lines (ReadRange (max 1 (rstart r)) (max 1 (rend r))) = range_lines r \<inter> {1..}" for r
    by (cases r) (auto simp: range_lines_def)
  have "covered (map (\<lambda>r. ReadRange (max 1 (rstart r)) (max 1 (rend r))) rs) = covered rs \<inter> {1..}"
    by (induction rs) (simp_all only: list.map covered_simps clamp Int_Un_distrib2 Int_empty_left)
  then show ?thesis by (simp only: clamp_returned_def covered_sort filter)
qed

lemma sorted_clamp: "sorted (clamp_returned rs)"
  by (simp add: clamp_returned_def)

lemma advance_ge: "start \<le> advance_past_read rs start"
proof (induction rs arbitrary: start)
  case (Cons r rs)
  from Cons.IH [of start] Cons.IH [of "rend r"] show ?case by auto
qed simp

lemma advance_skips_read:
  "{start ..< advance_past_read rs start} \<subseteq> covered rs"
proof (induction rs arbitrary: start)
  case (Cons r rs)
  consider "rend r \<le> start" | "rstart r \<le> start" "start < rend r" | "start < rstart r" "start < rend r"
    by linarith
  then show ?case
  proof cases
    case 2
    have "{start ..< advance_past_read rs (rend r)}
        \<subseteq> {start ..< rend r} \<union> {rend r ..< advance_past_read rs (rend r)}" by auto
    then show ?thesis using 2 Cons.IH [of "rend r"] by (auto simp: range_lines_def)
  qed (use Cons.IH [of start] in auto)
qed simp

text \<open>Where the loop stops, every range either ends at or before the stop or starts after it.\<close>

lemma advance_stops:
  "sorted rs \<Longrightarrow> r \<in> set rs \<Longrightarrow>
     rend r \<le> advance_past_read rs start \<or> advance_past_read rs start < rstart r"
proof (induction rs arbitrary: start)
  case (Cons q rs)
  have later: "\<forall>x \<in> set rs. rstart q \<le> rstart x"
    using Cons.prems(1) by (auto intro: rstart_mono)
  consider "rend q \<le> start" | "rstart q \<le> start" "start < rend q" | "start < rstart q" "start < rend q"
    by linarith
  then show ?case
  proof cases
    case 1
    then show ?thesis using Cons advance_ge [of start rs] by auto
  next
    case 2
    then show ?thesis using Cons advance_ge [of "rend q" rs] by auto
  next
    case 3
    then show ?thesis using Cons.prems later by auto
  qed
qed simp

lemma find_sorted_least:
  assumes "sorted rs" and "find (\<lambda>r. rstart r > x) rs = Some q" and "r \<in> set rs" and "x < rstart r"
  shows "rstart q \<le> rstart r"
  using assms
proof (induction rs)
  case (Cons a rs)
  then show ?case
    by (cases "x < rstart a") (auto intro: rstart_mono)
qed simp

lemma unread_disjoint:
  assumes res: "findContiguousUnreadRange req tot rs = u" and has: "hasUnread u"
  shows "1 \<le> unread_start u" and "req \<le> unread_start u"
    and "unread_start u < unread_end u" and "unread_end u \<le> max 1 tot"
    and "{unread_start u ..< unread_end u} \<inter> covered rs = {}"
    and "{max 1 req ..< unread_start u} \<subseteq> covered rs"
proof -
  let ?rs = "clamp_returned rs" let ?s = "advance_past_read ?rs (max 1 req)"
  define stop where
    "stop = (case find (\<lambda>r. rstart r > ?s) ?rs of None \<Rightarrow> max 1 tot | Some r \<Rightarrow> rstart r)"
  have u: "unread_start u = ?s" "unread_end u = min (max 1 tot) stop" "?s < min (max 1 tot) stop"
    using res has
    by (auto simp: findContiguousUnreadRange_def Let_def stop_def split: if_splits)
  have s: "max 1 req \<le> ?s" by (rule advance_ge)
  show "1 \<le> unread_start u" "req \<le> unread_start u" "unread_start u < unread_end u"
    "unread_end u \<le> max 1 tot" using u s by auto
  show "{max 1 req ..< unread_start u} \<subseteq> covered rs"
    using advance_skips_read [of "max 1 req" ?rs] by (auto simp: u(1) covered_clamp)
  have "{?s ..< stop} \<inter> covered ?rs = {}"
  proof -
    have "r \<in> set ?rs \<Longrightarrow> {?s ..< stop} \<inter> range_lines r = {}" for r
      using advance_stops [OF sorted_clamp, of r rs "max 1 req"]
        find_sorted_least [OF sorted_clamp, of ?s rs _ r]
      by (fastforce simp: stop_def range_lines_def find_None_iff split: option.splits)
    then show ?thesis by (auto simp: covered_def)
  qed
  then show "{unread_start u ..< unread_end u} \<inter> covered rs = {}"
    using s by (auto simp: u covered_clamp)
qed

lemma no_unread_all_covered:
  assumes "\<not> hasUnread (findContiguousUnreadRange req tot rs)"
  shows "{max 1 req ..< max 1 tot} \<subseteq> covered rs"
proof -
  let ?rs = "clamp_returned rs" let ?s = "advance_past_read ?rs (max 1 req)"
  have "?s \<ge> max 1 tot"
    using assms by (auto simp: findContiguousUnreadRange_def Let_def not_le find_Some_iff
        split: if_splits option.splits)
  then show ?thesis
    using advance_skips_read [of "max 1 req" ?rs] by (fastforce simp: covered_clamp)
qed

section \<open>Planning a read\<close>

text \<open>
  A JSON argument as the planner sees it: absent, an integer, or anything else (a fraction, a
  string, an object). \<^verbatim>\<open>z.number().int()\<close> accepts safe integers only.
\<close>

datatype js_arg = ArgUndefined | ArgInt int | ArgOther

definition parsePositiveInteger :: "js_arg \<Rightarrow> int option" where
  "parsePositiveInteger v =
     (case v of ArgInt n \<Rightarrow> if 0 < n \<and> n \<le> 9007199254740991 then Some n else None | _ \<Rightarrow> None)"

datatype read_failure =
    InvalidOffset
  | InvalidLimit
  | OutsideRepository
  | IgnoredPath
  | NotAReadableFile
  | FileTooLarge nat
  | OffsetPastEnd int int

text \<open>\<^verbatim>\<open>resolvePositiveInteger\<close> and its optional form: an absent argument is the
  fallback, an unusable one the caller's reason.\<close>

definition resolvePositiveInteger :: "js_arg \<Rightarrow> int \<Rightarrow> read_failure \<Rightarrow> read_failure + int" where
  "resolvePositiveInteger v fallback reason =
     (if v = ArgUndefined then Inr fallback
      else case parsePositiveInteger v of Some n \<Rightarrow> Inr n | None \<Rightarrow> Inl reason)"

definition resolveOptionalPositiveInteger :: "js_arg \<Rightarrow> read_failure \<Rightarrow> read_failure + int option" where
  "resolveOptionalPositiveInteger v reason =
     (if v = ArgUndefined then Inr None
      else case parsePositiveInteger v of Some n \<Rightarrow> Inr (Some n) | None \<Rightarrow> Inl reason)"

definition buildReadPathKeyForCaseSensitivity :: "string \<Rightarrow> bool \<Rightarrow> string" where
  "buildReadPathKeyForCaseSensitivity relativePath caseInsensitivePaths =
     (if caseInsensitivePaths then js_lower relativePath else relativePath)"

definition splitSourceLines :: "string \<Rightarrow> string list" where
  "splitSourceLines text =
     (let lines = js_split LF text
      in if 1 < length lines \<and> last lines = [] then butlast lines else lines)"

definition READ_MAX_BYTES :: nat where "READ_MAX_BYTES = 2000000"

text \<open>What the file system and the path policy answer for the requested path: its
  repository-relative path (or none, when it leaves the repository), whether the policy ignores it,
  and what is there. The text is what \<^verbatim>\<open>readSourceText\<close> decodes.\<close>

datatype fs_entry = Missing | NotAFile | RegularFile nat string

record read_target =
  target_relativePath :: "string option"
  target_ignored :: bool
  target_entry :: fs_entry

record read_plan =
  requestedStartLine :: int
  requestedEndLine :: int
  effectiveStartLine :: int
  effectiveEndLineExclusive :: int
  totalEndLineExclusive :: int
  plan_pathKey :: string
  plan_displayPath :: string
  plan_lines :: "string list"
  plan_hasUnread :: bool

text \<open>The second half of \<^verbatim>\<open>planRead\<close>: the window over the lines of the file. The
  governor's states are absent when the caller keeps none.\<close>

definition plan_window ::
    "int \<Rightarrow> int option \<Rightarrow> string \<Rightarrow> string \<Rightarrow> string list \<Rightarrow> read_states option \<Rightarrow> bool
     \<Rightarrow> read_plan \<times> read_states option" where
  "plan_window offset limit key displayPath lines states expandReads =
     (let totalEnd = int (length lines) + 1;
          requestedEnd = (case limit of None \<Rightarrow> totalEnd
            | Some k \<Rightarrow> max (offset + 1) (min (offset + k) totalEnd));
          looked = map_option (\<lambda>m. getOrCreateFileReadState m key) states;
          returnedRanges = (case looked of None \<Rightarrow> [] | Some (st, _) \<Rightarrow> mergedReturnedRanges st);
          u = findContiguousUnreadRange offset
                (if expandReads \<and> returnedRanges \<noteq> [] then totalEnd else requestedEnd)
                returnedRanges
      in (\<lparr>requestedStartLine = offset, requestedEndLine = requestedEnd - 1,
           effectiveStartLine = unread_start u, effectiveEndLineExclusive = unread_end u,
           totalEndLineExclusive = totalEnd, plan_pathKey = key,
           plan_displayPath = displayPath, plan_lines = lines,
           plan_hasUnread = hasUnread u\<rparr>,
          map_option snd looked))"

definition planRead ::
    "js_arg \<Rightarrow> js_arg \<Rightarrow> read_target \<Rightarrow> bool \<Rightarrow> read_states option \<Rightarrow> bool
     \<Rightarrow> read_failure + read_plan \<times> read_states option" where
  "planRead offset_arg limit_arg target caseInsensitive states expandReads =
     bind_result (resolvePositiveInteger offset_arg 1 InvalidOffset) (\<lambda>offset.
     bind_result (resolveOptionalPositiveInteger limit_arg InvalidLimit) (\<lambda>limit.
     case target_relativePath target of
       None \<Rightarrow> Inl OutsideRepository
     | Some relativePath \<Rightarrow>
         if target_ignored target then Inl IgnoredPath
         else case target_entry target of
           Missing \<Rightarrow> Inl NotAReadableFile
         | NotAFile \<Rightarrow> Inl NotAReadableFile
         | RegularFile bytes text \<Rightarrow>
             if READ_MAX_BYTES < bytes then Inl (FileTooLarge bytes)
             else let lines = splitSourceLines text
                  in if offset > int (length lines) then Inl (OffsetPastEnd offset (int (length lines)))
                     else Inr (plan_window offset limit
                            (buildReadPathKeyForCaseSensitivity relativePath caseInsensitive)
                            relativePath lines states expandReads)))"

text \<open>The executed plan: the lines it selects, the text it shows and the line statistics.\<close>

record read_execution =
  exec_startLine :: int
  exec_endLineExclusive :: int
  exec_hasUnread :: bool
  exec_output :: "string option"
  exec_lineReadCalls :: int
  exec_lineReadLinesTotal :: int
  exec_lineReadTokensTotal :: int

definition formatNumberedTextBlock :: "string list \<Rightarrow> int \<Rightarrow> string" where
  "formatNumberedTextBlock lines startLine =
     js_join [LF] (map (\<lambda>(i, line). show_nat (nat (startLine + int i)) @ '': '' @ line) (enumerate 0 lines))"

definition selected_lines :: "read_plan \<Rightarrow> string list" where
  "selected_lines p = take (nat (effectiveEndLineExclusive p - effectiveStartLine p))
     (drop (nat (effectiveStartLine p - 1)) (plan_lines p))"

text \<open>\<^verbatim>\<open>estimateTokenCount(undefined, text)\<close>: four characters to a token, rounded up, at
  least one.\<close>

definition estimate_tokens_default :: "nat \<Rightarrow> int" where
  "estimate_tokens_default chars = max 1 (int ((chars + 3) div 4))"

definition buildReadExecution :: "read_plan \<Rightarrow> read_execution" where
  "buildReadExecution p =
     (if \<not> plan_hasUnread p
      then \<lparr>exec_startLine = effectiveStartLine p, exec_endLineExclusive = effectiveStartLine p,
            exec_hasUnread = False, exec_output = None,
            exec_lineReadCalls = 0, exec_lineReadLinesTotal = 0, exec_lineReadTokensTotal = 0\<rparr>
      else let selected = selected_lines p;
               numbered = js_trim (formatNumberedTextBlock selected (effectiveStartLine p));
               lineCount = totalEndLineExclusive p - 1
           in \<lparr>exec_startLine = effectiveStartLine p,
               exec_endLineExclusive = effectiveEndLineExclusive p,
               exec_hasUnread = True,
               exec_output = Some (if effectiveEndLineExclusive p = totalEndLineExclusive p
                 then numbered @ [LF] @ ''(end of file: '' @ show_nat (nat lineCount) @ '' line''
                      @ (if lineCount = 1 then [] else ''s'') @ '')''
                 else numbered),
               exec_lineReadCalls = 1,
               exec_lineReadLinesTotal = int (length selected),
               exec_lineReadTokensTotal = max 1 (estimate_tokens_default (length (js_join [LF] selected)))\<rparr>)"

lemma splitSourceLines_not_Nil: "splitSourceLines text \<noteq> []"
proof -
  have "butlast xs \<noteq> []" if "1 < length xs" for xs :: "string list"
    using that by (cases xs rule: rev_cases) auto
  then show ?thesis by (simp add: splitSourceLines_def Let_def)
qed

text \<open>A successful plan is a window over the file's lines, from an offset inside the file.\<close>

lemma resolvePositiveInteger_pos: "resolvePositiveInteger v 1 reason = Inr n \<Longrightarrow> 1 \<le> n"
  by (auto simp: resolvePositiveInteger_def parsePositiveInteger_def
      split: option.splits if_splits js_arg.splits)

lemma planRead_success:
  assumes "planRead off lim tgt ci states ex = Inr (p, states')"
  shows "\<exists>offset limit key rel lines.
    plan_window offset limit key rel lines states ex = (p, states') \<and>
    1 \<le> offset \<and> offset \<le> int (length lines) \<and> lines \<noteq> []"
proof -
  obtain offset limit where o: "1 \<le> offset"
    and body: "(case target_relativePath tgt of
       None \<Rightarrow> Inl OutsideRepository
     | Some relativePath \<Rightarrow>
         if target_ignored tgt then Inl IgnoredPath
         else case target_entry tgt of
           Missing \<Rightarrow> Inl NotAReadableFile
         | NotAFile \<Rightarrow> Inl NotAReadableFile
         | RegularFile bytes text \<Rightarrow>
             if READ_MAX_BYTES < bytes then Inl (FileTooLarge bytes)
             else let lines = splitSourceLines text
                  in if offset > int (length lines) then Inl (OffsetPastEnd offset (int (length lines)))
                     else Inr (plan_window offset limit
                            (buildReadPathKeyForCaseSensitivity relativePath ci)
                            relativePath lines states ex)) = Inr (p, states')"
    using assms
    unfolding planRead_def bind_result_Inr
    by (blast dest: resolvePositiveInteger_pos)
  obtain rel where rel: "target_relativePath tgt = Some rel" using body by (auto split: option.splits)
  obtain bytes src where entry: "target_entry tgt = RegularFile bytes src"
    using body by (auto split: option.splits if_splits fs_entry.splits)
  have "offset \<le> int (length (splitSourceLines src))"
    "plan_window offset limit (buildReadPathKeyForCaseSensitivity rel ci) rel
       (splitSourceLines src) states ex = (p, states')"
    using body by (auto simp: rel entry Let_def not_less split: if_splits)
  with o splitSourceLines_not_Nil show ?thesis by blast
qed

lemma plan_window_bounds:
  assumes w: "plan_window offset limit key rel lines states ex = (p, states')"
    and "1 \<le> offset" "offset \<le> int (length lines)" and has: "plan_hasUnread p"
  shows "offset \<le> effectiveStartLine p" "effectiveStartLine p < effectiveEndLineExclusive p"
    and "effectiveEndLineExclusive p \<le> int (length (plan_lines p)) + 1"
    and "case states of None \<Rightarrow> True
         | Some m \<Rightarrow> {effectiveStartLine p ..< effectiveEndLineExclusive p}
             \<inter> covered (mergedReturnedRanges (fst (getOrCreateFileReadState m (plan_pathKey p)))) = {}"
proof -
  let ?rs = "case states of None \<Rightarrow> [] | Some m \<Rightarrow> mergedReturnedRanges (fst (getOrCreateFileReadState m key))"
  define req where "req = (case limit of None \<Rightarrow> int (length lines) + 1
            | Some k \<Rightarrow> max (offset + 1) (min (offset + k) (int (length lines) + 1)))"
  define tot where "tot = (if ex \<and> ?rs \<noteq> [] then int (length lines) + 1 else req)"
  have rs: "(case map_option (\<lambda>m. getOrCreateFileReadState m key) states of
      None \<Rightarrow> [] | Some (st, _) \<Rightarrow> mergedReturnedRanges st) = ?rs"
    by (auto split: option.splits simp: case_prod_beta)
  have tot: "tot \<le> int (length lines) + 1"
    using assms(2,3) by (auto simp: tot_def req_def split: option.splits)
  have u: "hasUnread (findContiguousUnreadRange offset tot ?rs)"
    and p: "effectiveStartLine p = unread_start (findContiguousUnreadRange offset tot ?rs)"
      "effectiveEndLineExclusive p = unread_end (findContiguousUnreadRange offset tot ?rs)"
      "plan_lines p = lines" "plan_pathKey p = key"
    using w has
    unfolding plan_window_def Let_def rs tot_def req_def by (auto simp del: not_None_eq)
  note res = unread_disjoint [OF refl u]
  show "offset \<le> effectiveStartLine p" "effectiveStartLine p < effectiveEndLineExclusive p"
    using res(2,3) by (simp_all add: p)
  show "effectiveEndLineExclusive p \<le> int (length (plan_lines p)) + 1"
    using res(4) tot by (simp add: p)
  show "case states of None \<Rightarrow> True
         | Some m \<Rightarrow> {effectiveStartLine p ..< effectiveEndLineExclusive p}
             \<inter> covered (mergedReturnedRanges (fst (getOrCreateFileReadState m (plan_pathKey p)))) = {}"
    using res(5) by (auto simp: p split: option.splits)
qed

section \<open>Properties\<close>

text \<open>A read the planner accepts starts at or after the requested line, is not empty, ends
  inside the file, and returns exactly the lines of its window. Recording any prefix of it as
  returned (what is left after the output was fitted) never counts an overlapping line: the
  planner and the governor agree on what has been returned.\<close>

theorem planned_read_never_overlaps:
  assumes "planRead off lim tgt ci (Some m) ex = Inr (p, states')"
    and "plan_hasUnread p" and "read_states_ok m"
    and "0 \<le> k" "k \<le> effectiveEndLineExclusive p - effectiveStartLine p"
  shows "1 \<le> effectiveStartLine p \<and> effectiveStartLine p < effectiveEndLineExclusive p \<and>
     int (length (selected_lines p)) = effectiveEndLineExclusive p - effectiveStartLine p \<and>
     metric_overlapLines (fst (recordNativeRead m (plan_pathKey p)
       (effectiveStartLine p) (effectiveStartLine p + k))) = 0"
proof -
  obtain offset limit key rel lines where
    w: "plan_window offset limit key rel lines (Some m) ex = (p, states')"
    and off: "1 \<le> offset" "offset \<le> int (length lines)"
    using planRead_success [OF assms(1)] by blast
  note b = plan_window_bounds [OF w off assms(2)]
  let ?st = "fst (getOrCreateFileReadState m (plan_pathKey p))"
  let ?r = "ReadRange (effectiveStartLine p) (effectiveStartLine p + k)"
  have ok: "merged_ranges (mergedReturnedRanges ?st)"
    using getOrCreate_ok [OF assms(3)] by (simp add: file_state_ok_def)
  have "range_lines (normalizeRange ?r) \<subseteq> {effectiveStartLine p ..< effectiveEndLineExclusive p}"
    unfolding range_lines_normalize using assms(4,5) by (auto simp: range_lines_def)
  then have "covered (mergedReturnedRanges ?st) \<inter> range_lines (normalizeRange ?r) = {}"
    using b(4) by auto
  then have "overlapWithRanges (mergedReturnedRanges ?st) ?r = 0"
    by (rule returned.overlap_zero [OF ok])
  moreover have "int (length (selected_lines p)) = effectiveEndLineExclusive p - effectiveStartLine p"
    using b off by (simp add: selected_lines_def)
  ultimately show ?thesis
    using b off by (simp add: recordNativeRead_def Let_def case_prod_beta)
qed

text \<open>The governor's accounting. After any run of recorded reads and invalidations, every
  file's total is its unique plus its overlapping lines; and when nothing was invalidated, the
  unique count is the number of distinct lines returned of that file, so the overlap is exactly the
  number of lines returned more than once.\<close>

theorem read_accounting:
  assumes "run_events read_step es Map.empty key = Some st"
  shows "totalLinesRead st = uniqueLinesRead st + overlapLines st \<and>
     (list_all is_positive_read es \<longrightarrow>
        uniqueLinesRead st = int (card (lines_recorded key es)) \<and>
        covered (mergedReturnedRanges st) = lines_recorded key es)"
proof -
  have "read_states_ok (run_events read_step es Map.empty)"
    by (rule governor.inv_run [OF read_states_ok_empty])
  with assms have "file_state_ok st" by (simp add: read_states_ok_def)
  moreover have "uniqueLinesRead st = int (card (lines_recorded key es)) \<and>
      covered (mergedReturnedRanges st) = lines_recorded key es" if "list_all is_positive_read es"
    using recorded_lines_gen [OF read_states_ok_empty that, where key = key and L = "{}"] assms by simp
  ultimately show ?thesis by (simp add: file_state_ok_def)
qed

text \<open>A file the search reports as fully read is: when no unread range is found, every line
  from the requested one to the end of the window has been returned; otherwise every requested line
  before the range has been returned and none inside it has.\<close>

theorem unread_range_is_first_unread:
  "let u = findContiguousUnreadRange req tot rs
   in if hasUnread u
      then {max 1 req ..< unread_start u} \<subseteq> covered rs \<and>
           {unread_start u ..< unread_end u} \<inter> covered rs = {} \<and>
           unread_start u < unread_end u \<and> unread_end u \<le> max 1 tot
      else {max 1 req ..< max 1 tot} \<subseteq> covered rs"
  using unread_disjoint [OF refl, of req tot rs] no_unread_all_covered [of req tot rs]
  by (simp add: Let_def)

definition example_states :: read_states where
  "example_states = run_events read_step [RecordRead ''a'' 1 3] Map.empty"

definition example_target :: read_target where
  "example_target = \<lparr>target_relativePath = Some ''a'', target_ignored = False,
     target_entry = RegularFile 8 (''x'' @ [LF] @ ''y'' @ [LF] @ ''z'' @ [LF] @ ''w'' @ [LF])\<rparr>"

lemma example_states_ok: "read_states_ok example_states"
  unfolding example_states_def by (rule governor.inv_run [OF read_states_ok_empty])

lemma example_plan:
  "planRead ArgUndefined ArgUndefined example_target False (Some example_states) True =
     Inr (\<lparr>requestedStartLine = 1, requestedEndLine = 4, effectiveStartLine = 3,
       effectiveEndLineExclusive = 5, totalEndLineExclusive = 5, plan_pathKey = ''a'',
       plan_displayPath = ''a'', plan_lines = [''x'', ''y'', ''z'', ''w''], plan_hasUnread = True\<rparr>,
     Some example_states)"
  by (simp add: planRead_def plan_window_def resolvePositiveInteger_def resolveOptionalPositiveInteger_def
      example_target_def example_states_def READ_MAX_BYTES_def splitSourceLines_def LF_def
      recordNativeRead_def getOrCreateFileReadState_def fresh_file_read_state_def mergeRange_def
      normalizeRange_def findContiguousUnreadRange_def clamp_returned_def
      buildReadPathKeyForCaseSensitivity_def less_eq_read_range_def Let_def)

theorem planned_read_never_overlaps_witness:
  "metric_overlapLines (fst (recordNativeRead example_states ''a'' 3 4)) = 0 \<and>
   read_states_ok example_states"
  using planned_read_never_overlaps [OF example_plan _ example_states_ok, of 1] example_states_ok by simp

theorem read_accounting_witness:
  "totalLinesRead (the (run_events read_step [RecordRead ''a'' 1 4, RecordRead ''a'' 2 6] Map.empty ''a'')) = 7 \<and>
   overlapLines (the (run_events read_step [RecordRead ''a'' 1 4, RecordRead ''a'' 2 6] Map.empty ''a'')) = 2 \<and>
   card ({1..<4} \<union> {2..<6} :: int set) = 5"
proof -
  let ?es = "[RecordRead ''a'' 1 4, RecordRead ''a'' 2 6]"
  let ?st = "the (run_events read_step ?es Map.empty ''a'')"
  have some: "run_events read_step ?es Map.empty ''a'' = Some ?st"
    by (simp add: recordNativeRead_map)
  have v: "totalLinesRead ?st = 7" by code_simp
  have u: "{1..<4} \<union> {2..<6} = {1..<6::int}" by auto
  show ?thesis using read_accounting [OF some] v u by simp
qed

end
