(* ===== verification/Model_Config.thy ===== *)
theory Model_Config
  imports Sift_Prelude
begin

text \<open>
  Model presets and the model a request asks for (src/status-server/model-request-context.ts,
  applied-model-preset-state.ts, src/lib/model-request-intent.ts, src/preset-catalog.ts,
  src/config/getters.ts and the compare-and-set selection updates of
  src/status-server/config-store.ts).

  A preset keeps the fields the lifecycle code reads; every other setting of the profile is the
  opaque string of the last field, so that comparing two records is the comparison of the two
  serialized profiles that isApplied makes. The configuration row of the database is the
  configuration itself; a missing row is None.
\<close>

section \<open>Profiles, configuration and intents\<close>

datatype idle_action = IdleNone | IdleUnload
datatype preset_kind = SummaryKind | ChatKind | PlanKind | RepoSearchKind | RepoAgentKind | OrchestratorKind

record model_preset =
  mp_id :: string
  mp_Model :: "string option"
  mp_ParallelSlots :: int
  mp_ExternalServerEnabled :: bool
  mp_IdleAction :: idle_action
  mp_SleepIdleSeconds :: int
  mp_NumCtx :: int
  mp_settings :: string

record operation_preset =
  op_id :: string
  op_modelPresetId :: "string option"
  op_presetKind :: preset_kind
  op_allowedTools :: "string list"
  op_settings :: string

record sift_config =
  cfg_Presets :: "operation_preset list"
  cfg_ModelPresets :: "model_preset list"
  cfg_ActivePresetId :: string
  cfg_runtime_model :: "string option"
  cfg_external_server_enabled :: bool
  cfg_engine :: string

record model_request_intent =
  intent_presetId :: "string option"
  intent_model :: "string option"
  intent_modelPresetId :: "string option"

datatype target_error =
    OperationPresetMissing string
  | ModelPresetMissing string
  | ReferencedPresetMissing string string
  | ModelUnmatched string
  | ModelAmbiguous string
  | ModelPresetListEmpty
  | ActivePresetMissing string

abbreviation find_preset :: "string \<Rightarrow> model_preset list \<Rightarrow> model_preset option" where
  "find_preset i ps \<equiv> find (\<lambda>p. mp_id p = i) ps"

definition getActiveModelPreset :: "sift_config \<Rightarrow> target_error + model_preset" where
  "getActiveModelPreset c =
     (case find_preset (cfg_ActivePresetId c) (cfg_ModelPresets c) of
        Some p \<Rightarrow> Inr p
      | None \<Rightarrow> if cfg_ModelPresets c = [] then Inl ModelPresetListEmpty
                else Inl (ActivePresetMissing (cfg_ActivePresetId c)))"

definition requireById :: "operation_preset list \<Rightarrow> string \<Rightarrow> target_error + operation_preset" where
  "requireById ps i =
     (case find (\<lambda>p. op_id p = i) ps of None \<Rightarrow> Inl (OperationPresetMissing i) | Some p \<Rightarrow> Inr p)"

section \<open>Resolving an intent\<close>

record model_request_context =
  ctx_operationPreset :: "operation_preset option"
  ctx_modelPreset :: model_preset
  ctx_config :: sift_config

text \<open>The profile named by the intent, else by the operation preset, else the applied one.\<close>

definition intended_preset ::
  "sift_config \<Rightarrow> model_preset \<Rightarrow> string option \<Rightarrow> operation_preset option \<Rightarrow> target_error + model_preset" where
  "intended_preset c applied named op =
     (case named of
        Some i \<Rightarrow> (case find_preset i (cfg_ModelPresets c) of
            None \<Rightarrow> Inl (ModelPresetMissing i) | Some p \<Rightarrow> Inr p)
      | None \<Rightarrow>
         (case op of
            None \<Rightarrow> Inr applied
          | Some p \<Rightarrow>
             (case op_modelPresetId p of
                None \<Rightarrow> Inr applied
              | Some i \<Rightarrow> (case find_preset i (cfg_ModelPresets c) of
                  None \<Rightarrow> Inl (ReferencedPresetMissing (op_id p) i) | Some q \<Rightarrow> Inr q))))"

text \<open>A model name that is not the profile's own must match exactly one profile.\<close>

definition match_model :: "sift_config \<Rightarrow> string option \<Rightarrow> model_preset \<Rightarrow> target_error + model_preset" where
  "match_model c name p =
     (case name of
        None \<Rightarrow> Inr p
      | Some n \<Rightarrow>
          if mp_Model p = Some n then Inr p
          else (case filter (\<lambda>q. mp_Model q = Some n) (cfg_ModelPresets c) of
                  [] \<Rightarrow> Inl (ModelUnmatched n)
                | [q] \<Rightarrow> Inr q
                | _ \<Rightarrow> Inl (ModelAmbiguous n)))"

definition findIndex :: "('a \<Rightarrow> bool) \<Rightarrow> 'a list \<Rightarrow> nat option" where
  "findIndex P xs = (let i = length (takeWhile (\<lambda>x. \<not> P x) xs) in if i < length xs then Some i else None)"

definition resolveModelRequestContext ::
  "sift_config \<Rightarrow> model_preset \<Rightarrow> model_request_intent \<Rightarrow> target_error + model_request_context" where
  "resolveModelRequestContext c applied intent =
     bind_result (case intent_presetId intent of None \<Rightarrow> Inr None
                  | Some i \<Rightarrow> bind_result (requireById (cfg_Presets c) i) (\<lambda>p. Inr (Some p)))
     (\<lambda>op. bind_result (intended_preset c applied (intent_modelPresetId intent) op)
     (\<lambda>p. bind_result (match_model c (intent_model intent) p)
     (\<lambda>q. case findIndex (\<lambda>r. mp_id r = mp_id q) (cfg_ModelPresets c) of
            None \<Rightarrow> Inl (ModelPresetMissing (mp_id q))
          | Some i \<Rightarrow> Inr \<lparr>ctx_operationPreset = op, ctx_modelPreset = q,
              ctx_config = c\<lparr>cfg_ModelPresets := (cfg_ModelPresets c)[i := q],
                            cfg_ActivePresetId := mp_id q\<rparr>\<rparr>)))"

lemma findIndex_Some:
  assumes "findIndex P xs = Some i"
  shows "i < length xs" "P (xs ! i)" "\<And>j. j < i \<Longrightarrow> \<not> P (xs ! j)"
proof -
  have i: "i = length (takeWhile (\<lambda>x. \<not> P x) xs)" "i < length xs"
    using assms by (auto simp: findIndex_def Let_def split: if_splits)
  then show "i < length xs" by simp
  show "P (xs ! i)" using nth_length_takeWhile [of "\<lambda>x. \<not> P x" xs] i by simp
  show "\<not> P (xs ! j)" if "j < i" for j
    using that i set_takeWhileD [of "xs ! j" "\<lambda>x. \<not> P x" xs]
    by (metis nth_mem takeWhile_nth)
qed

lemma find_list_update:
  assumes "findIndex P xs = Some i" "P y"
  shows "find P (xs[i := y]) = Some y"
  using findIndex_Some [OF assms(1)] assms(2)
  by (auto simp: find_Some_iff nth_list_update intro!: exI [of _ i])

section \<open>The applied profile\<close>

definition isApplied :: "model_preset \<Rightarrow> model_preset \<Rightarrow> bool" where
  "isApplied applied p = (p = applied)"

section \<open>Compare-and-set selection updates\<close>

definition nullable_trimmed :: "string \<Rightarrow> string option" where
  "nullable_trimmed s = (if js_trim s = [] then None else Some (js_trim s))"

definition selectionUnchanged :: "sift_config \<Rightarrow> sift_config \<Rightarrow> string \<Rightarrow> bool" where
  "selectionUnchanged row expected i =
     (Some (cfg_ActivePresetId row) = nullable_trimmed (cfg_ActivePresetId expected) \<and>
      (case find_preset i (cfg_ModelPresets expected) of
         None \<Rightarrow> False
       | Some p \<Rightarrow> find_preset i (cfg_ModelPresets row) = Some p))"

definition updateActiveSelection :: "model_preset \<Rightarrow> sift_config \<Rightarrow> sift_config" where
  "updateActiveSelection p row = row\<lparr>cfg_ActivePresetId := mp_id p, cfg_runtime_model := mp_Model p,
     cfg_external_server_enabled := mp_ExternalServerEnabled p\<rparr>"

definition persistAppliedModelSelection ::
  "sift_config \<Rightarrow> model_preset \<Rightarrow> sift_config option \<Rightarrow> bool \<times> sift_config option" where
  "persistAppliedModelSelection expected applied db =
     (case db of
        None \<Rightarrow> (False, db)
      | Some row \<Rightarrow> if selectionUnchanged row expected (mp_id applied)
                    then (True, Some (updateActiveSelection applied row)) else (False, db))"

definition restorePreviousModelSelection ::
  "sift_config \<Rightarrow> model_preset \<Rightarrow> sift_config option \<Rightarrow> bool \<times> sift_config option" where
  "restorePreviousModelSelection expected previous db =
     (case db of
        None \<Rightarrow> (False, db)
      | Some row \<Rightarrow>
          if \<not> selectionUnchanged row expected (mp_id previous)
             \<or> \<not> selectionUnchanged row expected (cfg_ActivePresetId expected)
          then (False, db)
          else (True, Some (updateActiveSelection previous
                 (row\<lparr>cfg_ModelPresets := map (\<lambda>p. if mp_id p = mp_id previous then previous else p)
                        (cfg_ModelPresets row)\<rparr>))))"

lemma find_update_other:
  "i < length xs \<Longrightarrow> \<not> P (xs ! i) \<Longrightarrow> \<not> P y \<Longrightarrow> find P (xs[i := y]) = find P xs"
  by (induction xs arbitrary: i) (auto split: nat.splits)

lemma find_preset_id: "find_preset i ps = Some p \<Longrightarrow> mp_id p = i"
  by (auto simp: find_Some_iff)

lemma match_model_result:
  "match_model c name p = Inr q \<Longrightarrow>
     (\<forall>n. name = Some n \<longrightarrow> mp_Model q = Some n) \<and> (name = None \<longrightarrow> q = p)"
proof (cases name)
  case (Some n)
  assume m: "match_model c name p = Inr q"
  obtain fs where fs: "fs = filter (\<lambda>r. mp_Model r = Some n) (cfg_ModelPresets c)" by simp
  then have all: "\<forall>r\<in>set fs. mp_Model r = Some n" by simp
  have "(if mp_Model p = Some n then Inr p else case fs of [] \<Rightarrow> Inl (ModelUnmatched n)
      | [r] \<Rightarrow> Inr r | _ \<Rightarrow> Inl (ModelAmbiguous n)) = Inr q"
    using m unfolding match_model_def Some option.case fs .
  then have "mp_Model p = Some n \<and> q = p \<or> fs = [q]"
    by (auto split: if_splits list.splits)
  then show ?thesis using all Some by auto
qed (simp add: match_model_def)

lemma resolve_cases:
  assumes "resolveModelRequestContext c applied intent = Inr r"
  obtains op p i where
    "intended_preset c applied (intent_modelPresetId intent) op = Inr p"
    "match_model c (intent_model intent) p = Inr (ctx_modelPreset r)"
    "findIndex (\<lambda>q. mp_id q = mp_id (ctx_modelPreset r)) (cfg_ModelPresets c) = Some i"
    "ctx_config r = c\<lparr>cfg_ModelPresets := (cfg_ModelPresets c)[i := ctx_modelPreset r],
                      cfg_ActivePresetId := mp_id (ctx_modelPreset r)\<rparr>"
proof -
  from assms obtain op p q where
    1: "intended_preset c applied (intent_modelPresetId intent) op = Inr p"
    and 2: "match_model c (intent_model intent) p = Inr q"
    and 3: "(case findIndex (\<lambda>r. mp_id r = mp_id q) (cfg_ModelPresets c) of
            None \<Rightarrow> Inl (ModelPresetMissing (mp_id q))
          | Some i \<Rightarrow> Inr \<lparr>ctx_operationPreset = op, ctx_modelPreset = q,
              ctx_config = c\<lparr>cfg_ModelPresets := (cfg_ModelPresets c)[i := q],
                            cfg_ActivePresetId := mp_id q\<rparr>\<rparr>) = Inr r"
    unfolding resolveModelRequestContext_def bind_result_Inr by blast
  show thesis
  proof (cases "findIndex (\<lambda>r. mp_id r = mp_id q) (cfg_ModelPresets c)")
    case (Some i)
    with 3 have "ctx_modelPreset r = q" "ctx_config r = c\<lparr>cfg_ModelPresets := (cfg_ModelPresets c)[i := q],
                            cfg_ActivePresetId := mp_id q\<rparr>" by auto
    with that [of op p i] 1 2 Some show thesis by simp
  qed (use 3 in simp)
qed

lemma persist_keeps_profiles:
  "persistAppliedModelSelection e p db = (b, db') \<Longrightarrow>
     map_option cfg_ModelPresets db' = map_option cfg_ModelPresets db \<and> (db' = None \<longleftrightarrow> db = None)"
  by (auto simp: persistAppliedModelSelection_def updateActiveSelection_def split: option.splits if_splits)

lemma restore_shape:
  "restorePreviousModelSelection e p db = (b, db') \<Longrightarrow> (db' = None \<longleftrightarrow> db = None)"
  by (auto simp: restorePreviousModelSelection_def split: option.splits if_splits)

lemma find_map_same:
  "find_preset i ps \<noteq> None \<Longrightarrow> i = mp_id q \<Longrightarrow>
   find_preset i (map (\<lambda>p. if mp_id p = i then q else p) ps) = Some q"
  by (induction ps) auto

lemma restore_effect:
  assumes "restorePreviousModelSelection expected previous (Some row) = (b, db')"
  shows "(b \<longrightarrow> db' \<noteq> None \<and> getActiveModelPreset (the db') = Inr previous \<and>
        find_preset (mp_id previous) (cfg_ModelPresets row)
          = find_preset (mp_id previous) (cfg_ModelPresets expected) \<and>
        (\<forall>i. i \<noteq> mp_id previous \<longrightarrow>
           find_preset i (cfg_ModelPresets (the db')) = find_preset i (cfg_ModelPresets row))) \<and>
     (\<not> b \<longrightarrow> db' = Some row)"
proof -
  have other: "find_preset i (map (\<lambda>p. if mp_id p = mp_id q then q else p) ps) = find_preset i ps"
    if "i \<noteq> mp_id q" for i q and ps :: "model_preset list"
    using that by (induction ps) auto
  show ?thesis
  proof (cases "selectionUnchanged row expected (mp_id previous) \<and>
      selectionUnchanged row expected (cfg_ActivePresetId expected)")
    case True
    then have "find_preset (mp_id previous) (cfg_ModelPresets row)
        = find_preset (mp_id previous) (cfg_ModelPresets expected)"
      "find_preset (mp_id previous) (cfg_ModelPresets row) \<noteq> None"
      by (auto simp: selectionUnchanged_def split: option.splits)
    then show ?thesis
      using assms True other [where q = previous]
      by (auto simp: restorePreviousModelSelection_def updateActiveSelection_def
          getActiveModelPreset_def find_map_same)
  qed (use assms in \<open>auto simp: restorePreviousModelSelection_def\<close>)
qed

section \<open>Properties\<close>

text \<open>The execution snapshot frozen for a request is consistent: its active profile is the
  resolved one, every other profile of the configuration is untouched, and the profile honours the
  intent: a named profile unless a model name redirects it, and never a model of another name.\<close>

theorem resolved_context_is_consistent:
  assumes "resolveModelRequestContext c applied intent = Inr r"
  shows "getActiveModelPreset (ctx_config r) = Inr (ctx_modelPreset r) \<and>
     length (cfg_ModelPresets (ctx_config r)) = length (cfg_ModelPresets c) \<and>
     (\<forall>i. i \<noteq> mp_id (ctx_modelPreset r) \<longrightarrow>
        find_preset i (cfg_ModelPresets (ctx_config r)) = find_preset i (cfg_ModelPresets c)) \<and>
     (\<forall>n. intent_model intent = Some n \<longrightarrow> mp_Model (ctx_modelPreset r) = Some n) \<and>
     (\<forall>i. intent_modelPresetId intent = Some i \<and> intent_model intent = None \<longrightarrow>
        find_preset i (cfg_ModelPresets c) = Some (ctx_modelPreset r))"
proof -
  obtain op p i where ip: "intended_preset c applied (intent_modelPresetId intent) op = Inr p"
    and mm: "match_model c (intent_model intent) p = Inr (ctx_modelPreset r)"
    and ix: "findIndex (\<lambda>q. mp_id q = mp_id (ctx_modelPreset r)) (cfg_ModelPresets c) = Some i"
    and cfg: "ctx_config r = c\<lparr>cfg_ModelPresets := (cfg_ModelPresets c)[i := ctx_modelPreset r],
                      cfg_ActivePresetId := mp_id (ctx_modelPreset r)\<rparr>"
    using assms by (rule resolve_cases)
  note at = findIndex_Some [OF ix]
  have named: "find_preset j (cfg_ModelPresets c) = Some p" if "intent_modelPresetId intent = Some j" for j
    using ip that by (auto simp: intended_preset_def split: option.splits)
  have other: "find_preset j (cfg_ModelPresets (ctx_config r)) = find_preset j (cfg_ModelPresets c)"
    if "j \<noteq> mp_id (ctx_modelPreset r)" for j
    using at that by (simp add: cfg find_update_other)
  show ?thesis
    using match_model_result [OF mm] named other
    by (simp add: cfg getActiveModelPreset_def find_list_update [OF ix])
qed

text \<open>A rollback either leaves the database alone or selects the previous profile again, and
  it only acts when neither the selection nor the two profiles it names were edited meanwhile.\<close>

theorem restore_selects_previous:
  assumes "restorePreviousModelSelection expected previous (Some row) = (b, db')"
  shows "(b \<longrightarrow> db' \<noteq> None \<and> getActiveModelPreset (the db') = Inr previous \<and>
        find_preset (mp_id previous) (cfg_ModelPresets row)
          = find_preset (mp_id previous) (cfg_ModelPresets expected) \<and>
        (\<forall>i. i \<noteq> mp_id previous \<longrightarrow>
           find_preset i (cfg_ModelPresets (the db')) = find_preset i (cfg_ModelPresets row))) \<and>
     (\<not> b \<longrightarrow> db' = Some row)"
  using restore_effect [OF assms] .

section \<open>A concrete configuration\<close>

definition preset_a :: model_preset where
  "preset_a = \<lparr>mp_id = ''a'', mp_Model = Some ''m1'', mp_ParallelSlots = 1, mp_ExternalServerEnabled = False,
     mp_IdleAction = IdleUnload, mp_SleepIdleSeconds = 60, mp_NumCtx = 4096, mp_settings = []\<rparr>"

definition preset_b :: model_preset where
  "preset_b = preset_a\<lparr>mp_id := ''b'', mp_Model := Some ''m2''\<rparr>"

definition example_config :: sift_config where
  "example_config = \<lparr>cfg_Presets = [], cfg_ModelPresets = [preset_a, preset_b],
     cfg_ActivePresetId = ''a'', cfg_runtime_model = Some ''m1'', cfg_external_server_enabled = False,
     cfg_engine = []\<rparr>"

lemmas example_config_defs = preset_a_def preset_b_def example_config_def

theorem resolved_context_is_consistent_witness:
  "getActiveModelPreset (ctx_config (projr (resolveModelRequestContext example_config preset_a
     \<lparr>intent_presetId = None, intent_model = Some ''m2'', intent_modelPresetId = None\<rparr>))) = Inr preset_b"
proof -
  let ?i = "\<lparr>intent_presetId = None, intent_model = Some ''m2'', intent_modelPresetId = None\<rparr>"
  let ?r = "projr (resolveModelRequestContext example_config preset_a ?i)"
  have ok: "resolveModelRequestContext example_config preset_a ?i = Inr ?r" by code_simp
  have "ctx_modelPreset ?r = preset_b" by code_simp
  then show ?thesis using resolved_context_is_consistent [OF ok] by simp
qed

theorem restore_selects_previous_witness:
  "getActiveModelPreset (the (snd (restorePreviousModelSelection example_config preset_b (Some example_config))))
     = Inr preset_b"
proof -
  let ?r = "restorePreviousModelSelection example_config preset_b (Some example_config)"
  have ok: "?r = (True, snd ?r)" by code_simp
  show ?thesis using restore_selects_previous [OF ok] by simp
qed

end
