(* ===== verification/Model_Queue.thy ===== *)
theory Model_Queue
  imports Model_Config
begin

text \<open>
  Model request serialisation (src/status-server/server-ops.ts, model-request-selection.ts,
  model-idle-controller.ts and the record types of server-types.ts).

  The server runs one event at a time; a function that awaits is split where it awaits, and the
  part after the await is an event of its own. A waiter is an object shared by the queue, by its
  timer and by the drain that admits it, so waiters live in a store waiters under their
  token and the queue holds tokens. Tokens and lock identities are drawn from one counter.

  Environment: the runtime's loading identity of a profile and the two timeouts are the record
  queue_env; the preset coordinator is seen through what admission asks of it
  (coordinator: absent, or whether a request may be granted) and through the results of the
  three promises admission awaits. Its own model is the theory Runtime_Coordinator.
  Log lines are omitted.
\<close>

section \<open>Requests, locks and the server state\<close>

datatype residency_failure = MissingModelPath | InvalidIdentity string

record queue_env =
  env_residency :: "model_preset \<Rightarrow> residency_failure + string"
  env_queueTimeoutMs :: int
  env_inactivityTimeoutMs :: int
  env_idleSummaryDelayMs :: int

datatype queue_timeout = NoDeadline | Deadline int

record model_request_selection =
  sel_context :: model_request_context
  sel_residencyKey :: "string option"

record model_request_lock =
  lock_kind :: string
  lock_startedAt :: int
  lock_ownerRunId :: "string option"
  lock_context :: model_request_context
  lock_residencyKey :: "string option"
  lock_lastActivityAt :: int
  lock_inactivityTimer :: "int option"

datatype reject_reason =
    TargetInvalid target_error
  | IdentityInvalid residency_failure
  | ReadinessFailed string

datatype settlement = ResolvedLock "nat option" | RejectedLock reject_reason

record model_request_waiter =
  w_kind :: string
  w_ownerRunId :: "string option"
  w_enqueuedAt :: int
  w_intent :: model_request_intent
  w_resolution :: "model_request_selection option"
  w_cancelled :: bool
  w_grantedLock :: "nat option"
  w_timeoutHandle :: "int option"
  w_queueTimeout :: queue_timeout
  w_lastQueueIndex :: nat
  w_settled :: "settlement list"

text \<open>The drain is idle, about to test for a wake, about to examine the queue again, waiting for a
  coordinator transition, or waiting for a selected request's profile to become ready.\<close>

datatype drain_phase =
    DrainIdle
  | DrainOuter
  | DrainInner
  | DrainBlocked
  | DrainReadying nat model_request_selection

record flush_view =
  fv_active :: bool
  fv_queueLength :: nat
  fv_lastFinishedAt :: "int option"

record idle_controller =
  ic_timer :: "int option"
  ic_presetId :: "string option"
  ic_action :: "idle_action option"
  ic_deadline :: "int option"

record server =
  now :: int
  nextToken :: nat
  stored_config :: "sift_config option"
  applied_preset :: model_preset
  coordinator :: "bool option"
  waiters :: "nat \<rightharpoonup> model_request_waiter"
  queue :: "nat list"
  active :: "(nat \<times> model_request_lock) list"
  drain :: drain_phase
  drainRequested :: bool
  lastFinishedAt :: "int option"
  flush :: flush_view
  activeRuns :: bool
  summaryPending :: bool
  summaryTimer :: "int option"
  idle :: idle_controller
  idleActionsRunning :: nat
  transitions :: "int list"

definition upd_waiter :: "nat \<Rightarrow> (model_request_waiter \<Rightarrow> model_request_waiter) \<Rightarrow> server \<Rightarrow> server" where
  "upd_waiter t f s = s\<lparr>waiters := (\<lambda>u. if u = t then map_option f (waiters s u) else waiters s u)\<rparr>"

definition live_waiter :: "server \<Rightarrow> nat \<Rightarrow> bool" where
  "live_waiter s t = (case waiters s t of None \<Rightarrow> False
     | Some w \<Rightarrow> \<not> w_cancelled w \<and> w_grantedLock w = None)"

section \<open>Idle bookkeeping\<close>

definition isIdle :: "server \<Rightarrow> bool" where
  "isIdle s = (\<not> activeRuns s \<and> active s = [] \<and> queue s = [])"

definition clearIdleSummaryTimer :: "server \<Rightarrow> server" where
  "clearIdleSummaryTimer s = s\<lparr>summaryTimer := None\<rparr>"

definition scheduleIdleSummaryIfNeeded :: "queue_env \<Rightarrow> server \<Rightarrow> server" where
  "scheduleIdleSummaryIfNeeded env s =
     (if \<not> summaryPending s \<or> \<not> isIdle s then clearIdleSummaryTimer s
      else (clearIdleSummaryTimer s)\<lparr>summaryTimer := Some (now s + env_idleSummaryDelayMs env)\<rparr>)"

text \<open>The timer's callback: the pending summary is emitted and forgotten.\<close>

definition idleSummaryFires :: "server \<Rightarrow> server" where
  "idleSummaryFires s =
     (let s1 = s\<lparr>summaryTimer := None\<rparr> in
      if \<not> summaryPending s1 \<or> \<not> isIdle s1 then s1 else s1\<lparr>summaryPending := False\<rparr>)"

definition cleared_idle :: idle_controller where
  "cleared_idle = \<lparr>ic_timer = None, ic_presetId = None, ic_action = None, ic_deadline = None\<rparr>"

definition idle_clear :: "server \<Rightarrow> server" where
  "idle_clear s = s\<lparr>idle := cleared_idle\<rparr>"

definition armAfterRequest :: "model_preset \<Rightarrow> int \<Rightarrow> server \<Rightarrow> server" where
  "armAfterRequest p finishedAt s =
     (let s1 = idle_clear s in
      if mp_IdleAction p = IdleNone \<or> mp_SleepIdleSeconds p \<le> 0 then s1
      else let delay = mp_SleepIdleSeconds p * 1000 in
        s1\<lparr>idle := \<lparr>ic_timer = Some (now s1 + delay), ic_presetId = Some (mp_id p),
                    ic_action = Some (mp_IdleAction p), ic_deadline = Some (finishedAt + delay)\<rparr>\<rparr>)"

definition armActivePresetIdle :: "int \<Rightarrow> server \<Rightarrow> server" where
  "armActivePresetIdle finishedAt s =
     (if coordinator s = None then s
      else if queue s \<noteq> [] then s
      else armAfterRequest (applied_preset s) finishedAt s)"

definition syncInferenceRunFlushQueueModelState :: "int option \<Rightarrow> server \<Rightarrow> server" where
  "syncInferenceRunFlushQueueModelState finishedAt s =
     (let last = (case finishedAt of None \<Rightarrow> lastFinishedAt s | Some t \<Rightarrow> Some t) in
      s\<lparr>flush := \<lparr>fv_active = (active s \<noteq> []), fv_queueLength = length (queue s),
         fv_lastFinishedAt = (case last of None \<Rightarrow> fv_lastFinishedAt (flush s) | Some t \<Rightarrow> Some (max 0 t))\<rparr>\<rparr>)"

section \<open>The waiters' clocks\<close>

definition removeModelRequestWaiter :: "nat \<Rightarrow> server \<Rightarrow> server" where
  "removeModelRequestWaiter t s = s\<lparr>queue := remove_first (\<lambda>u. u = t) (queue s)\<rparr>"

definition clearModelRequestWaiterTimeout :: "nat \<Rightarrow> server \<Rightarrow> server" where
  "clearModelRequestWaiterTimeout t = upd_waiter t (\<lambda>w. w\<lparr>w_timeoutHandle := None\<rparr>)"

definition startModelRequestWaiterTimeout :: "nat \<Rightarrow> server \<Rightarrow> server" where
  "startModelRequestWaiterTimeout t s =
     upd_waiter t (\<lambda>w. w\<lparr>w_timeoutHandle :=
       (case w_queueTimeout w of NoDeadline \<Rightarrow> None | Deadline d \<Rightarrow> Some (now s + d))\<rparr>) s"

definition restartModelRequestWaiterTimeout :: "nat \<Rightarrow> server \<Rightarrow> server" where
  "restartModelRequestWaiterTimeout t s =
     (if live_waiter s t then startModelRequestWaiterTimeout t s else s)"

definition queue_index :: "server \<Rightarrow> nat \<Rightarrow> nat" where
  "queue_index s t = length (takeWhile (\<lambda>u. u \<noteq> t) (queue s))"

definition refresh_waiter :: "nat \<Rightarrow> server \<Rightarrow> server" where
  "refresh_waiter t s =
     (case waiters s t of
        None \<Rightarrow> s
      | Some w \<Rightarrow>
          if w_cancelled w \<or> w_grantedLock w \<noteq> None \<or> w_queueTimeout w = NoDeadline then s
          else let i = queue_index s t in
            if i < w_lastQueueIndex w
            then restartModelRequestWaiterTimeout t (upd_waiter t (\<lambda>w. w\<lparr>w_lastQueueIndex := i\<rparr>) s)
            else if i > w_lastQueueIndex w then upd_waiter t (\<lambda>w. w\<lparr>w_lastQueueIndex := i\<rparr>) s
            else s)"

definition refreshQueuedModelRequestTimeouts :: "server \<Rightarrow> server" where
  "refreshQueuedModelRequestTimeouts s = fold refresh_waiter (queue s) s"

section \<open>Waking the drain, and leaving the queue\<close>

definition requestModelRequestDrain :: "server \<Rightarrow> server" where
  "requestModelRequestDrain s =
     (if drain s \<noteq> DrainIdle then s\<lparr>drainRequested := True\<rparr>
      else if queue s = [] then s
      else s\<lparr>drainRequested := True, drain := DrainOuter\<rparr>)"

definition settle_waiter :: "nat \<Rightarrow> settlement \<Rightarrow> server \<Rightarrow> server" where
  "settle_waiter t r = upd_waiter t (\<lambda>w. w\<lparr>w_settled := w_settled w @ [r]\<rparr>)"

definition leave_queue :: "nat \<Rightarrow> server \<Rightarrow> server" where
  "leave_queue t s = removeModelRequestWaiter t (clearModelRequestWaiterTimeout t
     (upd_waiter t (\<lambda>w. w\<lparr>w_cancelled := True\<rparr>) s))"

definition cancelModelRequestWaiter :: "queue_env \<Rightarrow> nat \<Rightarrow> server \<Rightarrow> server" where
  "cancelModelRequestWaiter env t s =
     (if \<not> live_waiter s t then s
      else scheduleIdleSummaryIfNeeded env (syncInferenceRunFlushQueueModelState None
        (requestModelRequestDrain (refreshQueuedModelRequestTimeouts
          (settle_waiter t (ResolvedLock None) (leave_queue t s))))))"

definition rejectModelRequestWaiter :: "queue_env \<Rightarrow> nat \<Rightarrow> reject_reason \<Rightarrow> server \<Rightarrow> server" where
  "rejectModelRequestWaiter env t reason s =
     (if \<not> live_waiter s t then s
      else scheduleIdleSummaryIfNeeded env (refreshQueuedModelRequestTimeouts
        (syncInferenceRunFlushQueueModelState None
          (settle_waiter t (RejectedLock reason) (leave_queue t s)))))"

section \<open>Locks\<close>

definition upd_lock :: "nat \<Rightarrow> (model_request_lock \<Rightarrow> model_request_lock) \<Rightarrow> server \<Rightarrow> server" where
  "upd_lock l f s = s\<lparr>active := map (\<lambda>(k, v). if k = l then (k, f v) else (k, v)) (active s)\<rparr>"

definition armModelRequestInactivityTimeout :: "nat \<Rightarrow> int \<Rightarrow> server \<Rightarrow> server" where
  "armModelRequestInactivityTimeout l delay s =
     upd_lock l (\<lambda>k. k\<lparr>lock_inactivityTimer := Some (now s + delay)\<rparr>) s"

definition createModelRequestLock :: "string \<Rightarrow> string option \<Rightarrow> model_request_selection \<Rightarrow> server \<Rightarrow> model_request_lock" where
  "createModelRequestLock kind owner sel s =
     \<lparr>lock_kind = kind, lock_startedAt = now s, lock_ownerRunId = owner, lock_context = sel_context sel,
      lock_residencyKey = sel_residencyKey sel, lock_lastActivityAt = now s, lock_inactivityTimer = None\<rparr>"

definition registerActiveModelRequest :: "queue_env \<Rightarrow> nat \<Rightarrow> model_request_lock \<Rightarrow> server \<Rightarrow> server" where
  "registerActiveModelRequest env l k s =
     armModelRequestInactivityTimeout l (env_inactivityTimeoutMs env) (s\<lparr>active := active s @ [(l, k)]\<rparr>)"

definition grantModelRequestWaiter :: "queue_env \<Rightarrow> nat \<Rightarrow> model_request_selection \<Rightarrow> server \<Rightarrow> server" where
  "grantModelRequestWaiter env t sel s =
     (case waiters s t of
        None \<Rightarrow> s
      | Some w \<Rightarrow>
          let l = nextToken s;
              k = createModelRequestLock (w_kind w) (w_ownerRunId w) sel s;
              s1 = upd_waiter t (\<lambda>w. w\<lparr>w_grantedLock := Some l\<rparr>) (s\<lparr>nextToken := Suc l\<rparr>);
              s2 = registerActiveModelRequest env l k (removeModelRequestWaiter t s1);
              s3 = settle_waiter t (ResolvedLock (Some l)) (clearModelRequestWaiterTimeout t s2)
          in refreshQueuedModelRequestTimeouts (syncInferenceRunFlushQueueModelState None s3))"

definition renewModelRequestActivity :: "nat \<Rightarrow> server \<Rightarrow> bool \<times> server" where
  "renewModelRequestActivity l s =
     (case map_of (active s) l of
        None \<Rightarrow> (False, s)
      | Some _ \<Rightarrow> (True, upd_lock l (\<lambda>k. k\<lparr>lock_lastActivityAt := now s\<rparr>) s))"

definition releaseModelRequest :: "queue_env \<Rightarrow> nat \<Rightarrow> server \<Rightarrow> bool \<times> server" where
  "releaseModelRequest env l s =
     (case map_of (active s) l of
        None \<Rightarrow> (False, s)
      | Some _ \<Rightarrow>
          let s1 = syncInferenceRunFlushQueueModelState (Some (now s))
                (s\<lparr>active := filter (\<lambda>e. fst e \<noteq> l) (active s), lastFinishedAt := Some (now s)\<rparr>);
              s2 = (if coordinator s1 = Some False
                    then (fold restartModelRequestWaiterTimeout (queue s1) s1)
                           \<lparr>transitions := transitions s1 @ [now s]\<rparr>
                    else let s3 = requestModelRequestDrain s1
                         in if active s3 = [] then armActivePresetIdle (now s) s3 else s3)
          in (True, scheduleIdleSummaryIfNeeded env (syncInferenceRunFlushQueueModelState (Some (now s)) s2)))"

text \<open>The continuation of the released request's transition; a failed transition is only logged.\<close>

definition transitionSettled :: "queue_env \<Rightarrow> int \<Rightarrow> bool \<Rightarrow> server \<Rightarrow> server" where
  "transitionSettled env finishedAt succeeded s =
     (if finishedAt \<notin> set (transitions s) then s
      else let s0 = s\<lparr>transitions := remove1 finishedAt (transitions s)\<rparr> in
        if \<not> succeeded then s0
        else let s1 = requestModelRequestDrain s0;
                 s2 = (if active s1 = [] then armActivePresetIdle finishedAt s1 else s1)
             in scheduleIdleSummaryIfNeeded env (syncInferenceRunFlushQueueModelState (Some finishedAt) s2))"

definition inactivityTimerFires :: "queue_env \<Rightarrow> nat \<Rightarrow> server \<Rightarrow> server" where
  "inactivityTimerFires env l s =
     (case map_of (active s) l of
        None \<Rightarrow> s
      | Some k \<Rightarrow>
         (case lock_inactivityTimer k of
            None \<Rightarrow> s
          | Some due \<Rightarrow>
              if now s < due then s
              else let s1 = upd_lock l (\<lambda>k. k\<lparr>lock_inactivityTimer := None\<rparr>) s;
                       remaining = env_inactivityTimeoutMs env - (now s - lock_lastActivityAt k)
                   in if remaining > 0 then armModelRequestInactivityTimeout l remaining s1
                      else snd (releaseModelRequest env l s1)))"

section \<open>Selection\<close>

text \<open>The oldest resident candidate; with nothing resident and nothing active, the oldest one.\<close>

definition selectNextModelRequest :: "(nat \<times> bool) list \<Rightarrow> nat \<Rightarrow> nat option" where
  "selectNextModelRequest cands activeCount =
     (case find snd cands of
        Some c \<Rightarrow> Some (fst c)
      | None \<Rightarrow> if activeCount = 0 then (case cands of [] \<Rightarrow> None | c # _ \<Rightarrow> Some (fst c)) else None)"

definition getModelRequestCapacity :: "server \<Rightarrow> int" where
  "getModelRequestCapacity s = mp_ParallelSlots (applied_preset s)"

definition readAppliedResidencyKey :: "queue_env \<Rightarrow> server \<Rightarrow> reject_reason + string option" where
  "readAppliedResidencyKey env s =
     (case env_residency env (applied_preset s) of
        Inr k \<Rightarrow> Inr (Some k)
      | Inl MissingModelPath \<Rightarrow> Inr None
      | Inl e \<Rightarrow> Inl (IdentityInvalid e))"

definition isResidentSelection :: "server \<Rightarrow> model_request_selection \<Rightarrow> string option \<Rightarrow> bool" where
  "isResidentSelection s sel appliedKey =
     (isApplied (applied_preset s) (ctx_modelPreset (sel_context sel)) \<or>
      sel_residencyKey sel \<noteq> None \<and> sel_residencyKey sel = appliedKey)"

definition resolveModelRequestTarget ::
  "server \<Rightarrow> sift_config \<Rightarrow> model_request_intent \<Rightarrow> target_error + model_request_context" where
  "resolveModelRequestTarget s c intent =
     bind_result (if coordinator s \<noteq> None then getActiveModelPreset c else Inr (applied_preset s))
       (\<lambda>inherited. resolveModelRequestContext c inherited intent)"

definition resolveModelRequestSelection ::
  "queue_env \<Rightarrow> server \<Rightarrow> sift_config \<Rightarrow> string option \<Rightarrow> model_request_intent
     \<Rightarrow> reject_reason + model_request_selection" where
  "resolveModelRequestSelection env s c appliedKey intent =
     (case resolveModelRequestTarget s c intent of
        Inl e \<Rightarrow> Inl (TargetInvalid e)
      | Inr ctx \<Rightarrow>
          if isApplied (applied_preset s) (ctx_modelPreset ctx)
          then Inr \<lparr>sel_context = ctx, sel_residencyKey = appliedKey\<rparr>
          else (case env_residency env (ctx_modelPreset ctx) of
                  Inl e \<Rightarrow> Inl (IdentityInvalid e)
                | Inr k \<Rightarrow> Inr \<lparr>sel_context = ctx, sel_residencyKey = Some k\<rparr>))"

definition resolve_waiter ::
  "queue_env \<Rightarrow> server \<Rightarrow> sift_config \<Rightarrow> model_request_intent
     \<Rightarrow> reject_reason + (model_request_selection \<times> bool)" where
  "resolve_waiter env s c intent =
     bind_result (readAppliedResidencyKey env s)
     (\<lambda>key. bind_result (resolveModelRequestSelection env s c key intent)
     (\<lambda>sel. Inr (sel, isResidentSelection s sel key)))"

text \<open>The drain's pass over a copy of the queue: every waiter is resolved, or rejected.\<close>

fun examine :: "queue_env \<Rightarrow> sift_config \<Rightarrow> nat list \<Rightarrow> server \<Rightarrow> (nat \<times> bool) list \<times> server" where
  "examine env c [] s = ([], s)"
| "examine env c (t # ts) s =
     (case waiters s t of
        None \<Rightarrow> examine env c ts s
      | Some w \<Rightarrow>
          if w_cancelled w then examine env c ts s
          else (case resolve_waiter env s c (w_intent w) of
                  Inl e \<Rightarrow> examine env c ts (rejectModelRequestWaiter env t e s)
                | Inr (sel, resident) \<Rightarrow>
                    let (cands, s') = examine env c ts (upd_waiter t (\<lambda>w. w\<lparr>w_resolution := Some sel\<rparr>) s)
                    in ((t, resident) # cands, s')))"

text \<open>Without a coordinator only a target that shares the applied identity is admitted.\<close>

definition admitCompatibleProfileWithoutCoordinator ::
  "queue_env \<Rightarrow> sift_config \<Rightarrow> model_request_selection \<Rightarrow> server \<Rightarrow> reject_reason + server" where
  "admitCompatibleProfileWithoutCoordinator env c sel s =
     bind_result (readAppliedResidencyKey env s)
     (\<lambda>key. if \<not> isResidentSelection s sel key
            then Inl (ReadinessFailed (mp_id (ctx_modelPreset (sel_context sel))))
            else if isApplied (applied_preset s) (ctx_modelPreset (sel_context sel)) then Inr s
            else Inr (s\<lparr>applied_preset := ctx_modelPreset (sel_context sel),
                        stored_config := snd (persistAppliedModelSelection c
                          (ctx_modelPreset (sel_context sel)) (stored_config s))\<rparr>))"

section \<open>The drain\<close>

text \<open>The end of the drain, by exhaustion or by an exception: admission work suppressed the idle
  clock, so a drain that leaves nothing running arms it.\<close>

definition drain_finish :: "server \<Rightarrow> server" where
  "drain_finish s =
     (let s1 = s\<lparr>drain := DrainIdle\<rparr> in if active s1 = [] then armActivePresetIdle (now s1) s1 else s1)"

text \<open>The end of one pass, once the selected profile is ready.\<close>

definition admit_selected :: "queue_env \<Rightarrow> nat \<Rightarrow> model_request_selection \<Rightarrow> server \<Rightarrow> server" where
  "admit_selected env t sel s =
     (let s1 = s\<lparr>drain := DrainInner\<rparr> in
      if (case waiters s t of None \<Rightarrow> True | Some w \<Rightarrow> w_cancelled w) then s1
      else if int (length (active s)) \<ge> getModelRequestCapacity s then s1
      else if coordinator s = Some False then s1
      else grantModelRequestWaiter env t sel s1)"

definition advanceModelRequestDrain :: "queue_env \<Rightarrow> server \<Rightarrow> server" where
  "advanceModelRequestDrain env s =
     (if queue s = [] then s\<lparr>drain := DrainOuter\<rparr>
      else if coordinator s = Some False then s\<lparr>drain := DrainBlocked\<rparr>
      else (case stored_config s of
        None \<Rightarrow> drain_finish s
      | Some c \<Rightarrow>
         (let (cands, s1) = examine env c (queue s) s in
          if int (length (active s1)) \<ge> getModelRequestCapacity s1 then s1\<lparr>drain := DrainOuter\<rparr>
          else (case selectNextModelRequest cands (length (active s1)) of
            None \<Rightarrow> s1\<lparr>drain := DrainOuter\<rparr>
          | Some t \<Rightarrow>
             (case (if t \<in> set (queue s1) then Option.bind (waiters s1 t) w_resolution else None) of
                None \<Rightarrow> s1\<lparr>drain := DrainOuter\<rparr>
              | Some sel \<Rightarrow>
                  if coordinator s1 \<noteq> None then s1\<lparr>drain := DrainReadying t sel\<rparr>
                  else (case admitCompatibleProfileWithoutCoordinator env c sel s1 of
                          Inl e \<Rightarrow> (rejectModelRequestWaiter env t e s1)\<lparr>drain := DrainInner\<rparr>
                        | Inr s2 \<Rightarrow> admit_selected env t sel s2))))))"

text \<open>The drain resumes: at the top of its outer loop it stops unless it was woken meanwhile.\<close>

definition drain_step :: "queue_env \<Rightarrow> server \<Rightarrow> server" where
  "drain_step env s =
     (case drain s of
        DrainOuter \<Rightarrow> if drainRequested s then advanceModelRequestDrain env (s\<lparr>drainRequested := False\<rparr>)
                      else drain_finish s
      | DrainInner \<Rightarrow> advanceModelRequestDrain env s
      | _ \<Rightarrow> s)"

definition blocker_settled :: "server \<Rightarrow> server" where
  "blocker_settled s = (if drain s = DrainBlocked then s\<lparr>drain := DrainInner\<rparr> else s)"

definition readiness_settled :: "queue_env \<Rightarrow> string option \<Rightarrow> server \<Rightarrow> server" where
  "readiness_settled env failure s =
     (case drain s of
        DrainReadying t sel \<Rightarrow>
          (case failure of
             Some e \<Rightarrow> (rejectModelRequestWaiter env t (ReadinessFailed e) s)\<lparr>drain := DrainInner\<rparr>
           | None \<Rightarrow> admit_selected env t sel s)
      | _ \<Rightarrow> s)"

section \<open>Acquiring\<close>

definition resolveModelRequestQueueTimeout :: "queue_env \<Rightarrow> queue_timeout option \<Rightarrow> int + queue_timeout" where
  "resolveModelRequestQueueTimeout env requested =
     (case requested of
        None \<Rightarrow> Inr (Deadline (env_queueTimeoutMs env))
      | Some NoDeadline \<Rightarrow> Inr NoDeadline
      | Some (Deadline d) \<Rightarrow> if d > 0 then Inr (Deadline d) else Inl d)"

record acquire_options =
  ao_queueTimeout :: "queue_timeout option"
  ao_ownerRunId :: "string option"
  ao_intent :: model_request_intent
  ao_aborted :: bool
  ao_abortedMeanwhile :: bool
  ao_clientGone :: bool

definition fresh_waiter :: "string \<Rightarrow> acquire_options \<Rightarrow> queue_timeout \<Rightarrow> server \<Rightarrow> model_request_waiter" where
  "fresh_waiter kind opts timeout s =
     \<lparr>w_kind = kind, w_ownerRunId = ao_ownerRunId opts, w_enqueuedAt = now s, w_intent = ao_intent opts,
      w_resolution = None, w_cancelled = False, w_grantedLock = None, w_timeoutHandle = None,
      w_queueTimeout = timeout, w_lastQueueIndex = length (queue s), w_settled = []\<rparr>"

text \<open>Up to the await. The abort signal is read twice; a client may already be gone.\<close>

definition acquireModelRequestWithWait ::
  "queue_env \<Rightarrow> string \<Rightarrow> acquire_options \<Rightarrow> server \<Rightarrow> int + nat option \<times> server" where
  "acquireModelRequestWithWait env kind opts s =
     bind_result (resolveModelRequestQueueTimeout env (ao_queueTimeout opts))
     (\<lambda>timeout.
        if ao_aborted opts then Inr (None, s)
        else let s0 = clearIdleSummaryTimer (idle_clear s);
                 t = nextToken s0;
                 s1 = s0\<lparr>nextToken := Suc t, queue := queue s0 @ [t],
                         waiters := (waiters s0)(t \<mapsto> fresh_waiter kind opts timeout s0)\<rparr>;
                 s2 = startModelRequestWaiterTimeout t (syncInferenceRunFlushQueueModelState None s1);
                 s3 = (if ao_abortedMeanwhile opts then cancelModelRequestWaiter env t s2 else s2);
                 s4 = (if ao_clientGone opts then cancelModelRequestWaiter env t s3 else s3)
             in Inr (Some t, requestModelRequestDrain s4))"

text \<open>After the await: a lock granted to an operation aborted meanwhile is given back.\<close>

definition acquire_resumes :: "queue_env \<Rightarrow> nat \<Rightarrow> bool \<Rightarrow> bool \<Rightarrow> server \<Rightarrow> nat option \<times> server" where
  "acquire_resumes env t aborted gone s =
     (case waiters s t of
        Some w \<Rightarrow>
          (case w_settled w of
             [] \<Rightarrow> (None, s)
           | r # _ \<Rightarrow>
              let (res, s1) = (case r of
                     ResolvedLock (Some l) \<Rightarrow> if aborted then (None, snd (releaseModelRequest env l s)) else (Some l, s)
                   | _ \<Rightarrow> (None, s));
                  s2 = clearModelRequestWaiterTimeout t s1
              in (res, if gone then cancelModelRequestWaiter env t s2 else s2))
      | None \<Rightarrow> (None, s))"

section \<open>The server's events\<close>

datatype queue_event =
    Acquire string acquire_options
  | AcquireResumes nat bool bool
  | CancelWait nat
  | WaiterTimeout nat
  | Release nat
  | Renew nat
  | InactivityTimer nat
  | TransitionSettled int bool
  | DrainStep
  | BlockerSettled
  | ReadinessSettled "string option"
  | IdleTimer
  | IdleActionSettled
  | SummaryTimer
  | ResumeAdmission
  | CoordinatorIs bool
  | ProfilePublished model_preset
  | ConfigSaved "sift_config option"
  | RunsChanged bool bool
  | Tick nat

text \<open>The waiter's own timer cancels it when its window is over.\<close>

definition waiterTimeoutFires :: "queue_env \<Rightarrow> nat \<Rightarrow> server \<Rightarrow> server" where
  "waiterTimeoutFires env t s =
     (case Option.bind (waiters s t) w_timeoutHandle of
        None \<Rightarrow> s
      | Some due \<Rightarrow> if now s < due then s else cancelModelRequestWaiter env t s)"

text \<open>The idle clock expires: with work around it does nothing, else the residency action starts.\<close>

definition idleTimerFires :: "server \<Rightarrow> server" where
  "idleTimerFires s =
     (case ic_timer (idle s) of
        None \<Rightarrow> s
      | Some due \<Rightarrow>
          if now s < due then s
          else let s1 = s\<lparr>idle := (idle s)\<lparr>ic_timer := None, ic_deadline := None\<rparr>\<rparr> in
            if ic_presetId (idle s) = None \<or> ic_action (idle s) = None \<or> active s \<noteq> [] \<or> queue s \<noteq> []
               \<or> drain s \<noteq> DrainIdle then s1
            else s1\<lparr>idleActionsRunning := Suc (idleActionsRunning s)\<rparr>)"

definition idleActionSettles :: "server \<Rightarrow> server" where
  "idleActionSettles s =
     (case idleActionsRunning s of 0 \<Rightarrow> s
      | Suc n \<Rightarrow> requestModelRequestDrain (s\<lparr>idleActionsRunning := n\<rparr>))"

fun queue_step :: "queue_env \<Rightarrow> queue_event \<Rightarrow> server \<Rightarrow> server" where
  "queue_step env (Acquire kind opts) s =
     (case acquireModelRequestWithWait env kind opts s of Inl _ \<Rightarrow> s | Inr (_, s') \<Rightarrow> s')"
| "queue_step env (AcquireResumes t aborted gone) s = snd (acquire_resumes env t aborted gone s)"
| "queue_step env (CancelWait t) s = cancelModelRequestWaiter env t s"
| "queue_step env (WaiterTimeout t) s = waiterTimeoutFires env t s"
| "queue_step env (Release l) s = snd (releaseModelRequest env l s)"
| "queue_step env (Renew l) s = snd (renewModelRequestActivity l s)"
| "queue_step env (InactivityTimer l) s = inactivityTimerFires env l s"
| "queue_step env (TransitionSettled f ok) s = transitionSettled env f ok s"
| "queue_step env DrainStep s = drain_step env s"
| "queue_step env BlockerSettled s = blocker_settled s"
| "queue_step env (ReadinessSettled e) s = readiness_settled env e s"
| "queue_step env IdleTimer s = idleTimerFires s"
| "queue_step env IdleActionSettled s = idleActionSettles s"
| "queue_step env SummaryTimer s = (case summaryTimer s of None \<Rightarrow> s
     | Some due \<Rightarrow> if now s < due then s else idleSummaryFires s)"
| "queue_step env ResumeAdmission s = requestModelRequestDrain s"
| "queue_step env (CoordinatorIs g) s = (if coordinator s = None then s else s\<lparr>coordinator := Some g\<rparr>)"
| "queue_step env (ProfilePublished p) s = s\<lparr>applied_preset := p\<rparr>"
| "queue_step env (ConfigSaved c) s = s\<lparr>stored_config := c\<rparr>"
| "queue_step env (RunsChanged runs pending) s = s\<lparr>activeRuns := runs, summaryPending := pending\<rparr>"
| "queue_step env (Tick d) s = s\<lparr>now := now s + int d\<rparr>"

definition initial_server :: "sift_config \<Rightarrow> model_preset \<Rightarrow> bool option \<Rightarrow> server" where
  "initial_server c p co =
     \<lparr>now = 0, nextToken = 0, stored_config = Some c, applied_preset = p, coordinator = co,
      waiters = Map.empty, queue = [], active = [], drain = DrainIdle, drainRequested = False,
      lastFinishedAt = None, flush = \<lparr>fv_active = False, fv_queueLength = 0, fv_lastFinishedAt = None\<rparr>,
      activeRuns = False, summaryPending = False, summaryTimer = None, idle = cleared_idle,
      idleActionsRunning = 0, transitions = []\<rparr>"

section \<open>What the helpers leave alone\<close>

text \<open>The clock operations touch only the waiters, and of a waiter only its clock, its queue index
  and its latest resolution; a clock they restart belongs to a live waiter and follows its
  deadline.\<close>

definition same_waiter :: "model_request_waiter \<Rightarrow> model_request_waiter \<Rightarrow> bool" where
  "same_waiter w w' \<longleftrightarrow>
     w_kind w' = w_kind w \<and> w_ownerRunId w' = w_ownerRunId w \<and> w_intent w' = w_intent w \<and>
     w_cancelled w' = w_cancelled w \<and> w_grantedLock w' = w_grantedLock w \<and>
     w_queueTimeout w' = w_queueTimeout w \<and> w_settled w' = w_settled w \<and>
     (w_timeoutHandle w' = w_timeoutHandle w \<or>
      \<not> w_cancelled w \<and> w_grantedLock w = None \<and>
      (w_timeoutHandle w' = None \<longleftrightarrow> w_queueTimeout w = NoDeadline))"

definition clocks_only :: "server \<Rightarrow> server \<Rightarrow> bool" where
  "clocks_only s s' \<longleftrightarrow> s' = s\<lparr>waiters := waiters s'\<rparr> \<and>
     (\<forall>t. case waiters s t of None \<Rightarrow> waiters s' t = None
          | Some w \<Rightarrow> \<exists>w'. waiters s' t = Some w' \<and> same_waiter w w')"

lemma same_waiter_refl [simp]: "same_waiter w w"
  by (simp add: same_waiter_def)

lemma same_waiter_trans: "same_waiter a b \<Longrightarrow> same_waiter b c \<Longrightarrow> same_waiter a c"
  by (auto simp: same_waiter_def)

lemma clocks_only_refl [simp]: "clocks_only s s"
  by (auto simp: clocks_only_def split: option.splits)

lemma clocks_only_SomeD:
  "clocks_only s s' \<Longrightarrow> waiters s t = Some w \<Longrightarrow> \<exists>w'. waiters s' t = Some w' \<and> same_waiter w w'"
  by (auto simp: clocks_only_def dest!: spec [of _ t])

lemma clocks_only_NoneD: "clocks_only s s' \<Longrightarrow> waiters s t = None \<Longrightarrow> waiters s' t = None"
  by (auto simp: clocks_only_def dest!: spec [of _ t])

lemma clocks_only_fields:
  assumes "clocks_only s s'"
  shows "now s' = now s" "nextToken s' = nextToken s" "stored_config s' = stored_config s"
    "applied_preset s' = applied_preset s" "coordinator s' = coordinator s" "queue s' = queue s"
    "active s' = active s" "drain s' = drain s" "drainRequested s' = drainRequested s"
    "lastFinishedAt s' = lastFinishedAt s" "flush s' = flush s" "activeRuns s' = activeRuns s"
    "summaryPending s' = summaryPending s" "summaryTimer s' = summaryTimer s" "idle s' = idle s"
    "idleActionsRunning s' = idleActionsRunning s" "transitions s' = transitions s"
proof -
  have e: "s' = s\<lparr>waiters := waiters s'\<rparr>" using assms by (simp add: clocks_only_def)
  show "now s' = now s" "nextToken s' = nextToken s" "stored_config s' = stored_config s"
    "applied_preset s' = applied_preset s" "coordinator s' = coordinator s" "queue s' = queue s"
    "active s' = active s" "drain s' = drain s" "drainRequested s' = drainRequested s"
    "lastFinishedAt s' = lastFinishedAt s" "flush s' = flush s" "activeRuns s' = activeRuns s"
    "summaryPending s' = summaryPending s" "summaryTimer s' = summaryTimer s" "idle s' = idle s"
    "idleActionsRunning s' = idleActionsRunning s" "transitions s' = transitions s"
    by (subst e, simp)+
qed

lemma clocks_only_trans:
  assumes "clocks_only a b" "clocks_only b c"
  shows "clocks_only a c"
proof -
  have "c = a\<lparr>waiters := waiters c\<rparr>"
  proof -
    have "c = b\<lparr>waiters := waiters c\<rparr>" "b = a\<lparr>waiters := waiters b\<rparr>"
      using assms by (simp_all add: clocks_only_def)
    then show ?thesis by (metis server.surjective server.update_convs(6))
  qed
  moreover have "case waiters a t of None \<Rightarrow> waiters c t = None
          | Some w \<Rightarrow> \<exists>w'. waiters c t = Some w' \<and> same_waiter w w'" for t
    using clocks_only_NoneD [OF assms(1), of t] clocks_only_NoneD [OF assms(2), of t]
      clocks_only_SomeD [OF assms(1), of t] clocks_only_SomeD [OF assms(2), of t]
    by (auto split: option.splits) (erule (1) same_waiter_trans)
  ultimately show ?thesis by (simp add: clocks_only_def)
qed

lemma clocks_only_fold:
  assumes "\<And>t s. clocks_only s (f t s)"
  shows "clocks_only s (fold f ts s)"
  using assms by (induction ts arbitrary: s) (auto intro: clocks_only_trans)

lemma clocks_only_upd:
  assumes "\<And>w. waiters s t = Some w \<Longrightarrow> same_waiter w (f w)"
  shows "clocks_only s (upd_waiter t f s)"
  using assms by (auto simp: clocks_only_def upd_waiter_def split: option.splits)

lemma clocks_only_restart: "clocks_only s (restartModelRequestWaiterTimeout t s)"
  unfolding restartModelRequestWaiterTimeout_def startModelRequestWaiterTimeout_def
  by (auto intro!: clocks_only_upd simp: live_waiter_def same_waiter_def split: queue_timeout.splits)

lemma clocks_only_index: "clocks_only s (upd_waiter t (\<lambda>w. w\<lparr>w_lastQueueIndex := i\<rparr>) s)"
  by (rule clocks_only_upd) (simp add: same_waiter_def)

lemma clocks_only_resolution: "clocks_only s (upd_waiter t (\<lambda>w. w\<lparr>w_resolution := r\<rparr>) s)"
  by (rule clocks_only_upd) (simp add: same_waiter_def)

lemma clocks_only_refresh: "clocks_only s (refreshQueuedModelRequestTimeouts s)"
proof -
  have "clocks_only s (refresh_waiter t s)" for t s
    unfolding refresh_waiter_def Let_def
    by (auto split: option.splits
        intro: clocks_only_index clocks_only_trans [OF clocks_only_index clocks_only_restart])
  then show ?thesis unfolding refreshQueuedModelRequestTimeouts_def by (rule clocks_only_fold)
qed

lemmas refresh_fields [simp] = clocks_only_fields [OF clocks_only_refresh]

lemma upd_waiter_fields [simp]:
  "now (upd_waiter t f s) = now s" "nextToken (upd_waiter t f s) = nextToken s"
  "queue (upd_waiter t f s) = queue s" "active (upd_waiter t f s) = active s"
  "drain (upd_waiter t f s) = drain s" "flush (upd_waiter t f s) = flush s"
  "summaryTimer (upd_waiter t f s) = summaryTimer s" "idle (upd_waiter t f s) = idle s"
  "coordinator (upd_waiter t f s) = coordinator s" "transitions (upd_waiter t f s) = transitions s"
  "applied_preset (upd_waiter t f s) = applied_preset s"
  "stored_config (upd_waiter t f s) = stored_config s"
  "drainRequested (upd_waiter t f s) = drainRequested s"
  by (simp_all add: upd_waiter_def)

lemma sched_fields [simp]:
  "now (scheduleIdleSummaryIfNeeded env s) = now s"
  "nextToken (scheduleIdleSummaryIfNeeded env s) = nextToken s"
  "waiters (scheduleIdleSummaryIfNeeded env s) = waiters s"
  "queue (scheduleIdleSummaryIfNeeded env s) = queue s"
  "active (scheduleIdleSummaryIfNeeded env s) = active s"
  "drain (scheduleIdleSummaryIfNeeded env s) = drain s"
  "drainRequested (scheduleIdleSummaryIfNeeded env s) = drainRequested s"
  "flush (scheduleIdleSummaryIfNeeded env s) = flush s"
  "idle (scheduleIdleSummaryIfNeeded env s) = idle s"
  "coordinator (scheduleIdleSummaryIfNeeded env s) = coordinator s"
  "transitions (scheduleIdleSummaryIfNeeded env s) = transitions s"
  "applied_preset (scheduleIdleSummaryIfNeeded env s) = applied_preset s"
  "stored_config (scheduleIdleSummaryIfNeeded env s) = stored_config s"
  by (simp_all add: scheduleIdleSummaryIfNeeded_def clearIdleSummaryTimer_def)

lemma sync_fields [simp]:
  "now (syncInferenceRunFlushQueueModelState f s) = now s"
  "nextToken (syncInferenceRunFlushQueueModelState f s) = nextToken s"
  "waiters (syncInferenceRunFlushQueueModelState f s) = waiters s"
  "queue (syncInferenceRunFlushQueueModelState f s) = queue s"
  "active (syncInferenceRunFlushQueueModelState f s) = active s"
  "drain (syncInferenceRunFlushQueueModelState f s) = drain s"
  "drainRequested (syncInferenceRunFlushQueueModelState f s) = drainRequested s"
  "summaryTimer (syncInferenceRunFlushQueueModelState f s) = summaryTimer s"
  "idle (syncInferenceRunFlushQueueModelState f s) = idle s"
  "coordinator (syncInferenceRunFlushQueueModelState f s) = coordinator s"
  "transitions (syncInferenceRunFlushQueueModelState f s) = transitions s"
  "applied_preset (syncInferenceRunFlushQueueModelState f s) = applied_preset s"
  "stored_config (syncInferenceRunFlushQueueModelState f s) = stored_config s"
  by (simp_all add: syncInferenceRunFlushQueueModelState_def Let_def)

lemma request_fields [simp]:
  "now (requestModelRequestDrain s) = now s"
  "nextToken (requestModelRequestDrain s) = nextToken s"
  "waiters (requestModelRequestDrain s) = waiters s"
  "queue (requestModelRequestDrain s) = queue s"
  "active (requestModelRequestDrain s) = active s"
  "flush (requestModelRequestDrain s) = flush s"
  "summaryTimer (requestModelRequestDrain s) = summaryTimer s"
  "idle (requestModelRequestDrain s) = idle s"
  "coordinator (requestModelRequestDrain s) = coordinator s"
  "transitions (requestModelRequestDrain s) = transitions s"
  "applied_preset (requestModelRequestDrain s) = applied_preset s"
  "stored_config (requestModelRequestDrain s) = stored_config s"
  by (simp_all add: requestModelRequestDrain_def)

lemma arm_fields [simp]:
  "now (armActivePresetIdle f s) = now s" "nextToken (armActivePresetIdle f s) = nextToken s"
  "waiters (armActivePresetIdle f s) = waiters s" "queue (armActivePresetIdle f s) = queue s"
  "active (armActivePresetIdle f s) = active s" "drain (armActivePresetIdle f s) = drain s"
  "drainRequested (armActivePresetIdle f s) = drainRequested s"
  "flush (armActivePresetIdle f s) = flush s"
  "summaryTimer (armActivePresetIdle f s) = summaryTimer s"
  "coordinator (armActivePresetIdle f s) = coordinator s"
  "transitions (armActivePresetIdle f s) = transitions s"
  "applied_preset (armActivePresetIdle f s) = applied_preset s"
  "stored_config (armActivePresetIdle f s) = stored_config s"
  by (simp_all add: armActivePresetIdle_def armAfterRequest_def idle_clear_def Let_def)

end
