(* ===== verification/Queue_Invariants.thy ===== *)
theory Queue_Invariants
  imports Model_Queue
begin

text \<open>
  The invariant of the model request queue and its properties: every operation of
  Model_Queue keeps the queue, the locks, the published view and the clocks consistent.
  The parts of the invariant are stated over the fields they mention, so that an operation that
  leaves those fields alone keeps them by rewriting.
\<close>

section \<open>The invariant\<close>

text \<open>A waiter is queued exactly while it is unsettled; it has a clock exactly while it is queued
  and has a deadline; it is settled at most once, and a granted lock is what it was settled with.\<close>

definition waiter_ok :: "nat list \<Rightarrow> nat \<Rightarrow> nat \<Rightarrow> model_request_waiter \<Rightarrow> bool" where
  "waiter_ok q n t w \<longleftrightarrow> t < n \<and> length (w_settled w) \<le> 1 \<and>
     (t \<in> set q \<longleftrightarrow> w_settled w = []) \<and>
     (t \<in> set q \<longleftrightarrow> \<not> w_cancelled w \<and> w_grantedLock w = None) \<and>
     (w_timeoutHandle w \<noteq> None \<longleftrightarrow> t \<in> set q \<and> w_queueTimeout w \<noteq> NoDeadline) \<and>
     (\<forall>l. w_grantedLock w = Some l \<longleftrightarrow> w_settled w = [ResolvedLock (Some l)])"

definition queue_inv :: "nat list \<Rightarrow> (nat \<rightharpoonup> model_request_waiter) \<Rightarrow> nat \<Rightarrow> bool" where
  "queue_inv q ws n \<longleftrightarrow> sorted_wrt (<) q \<and> (\<forall>t\<in>set q. ws t \<noteq> None) \<and>
     (\<forall>t w. ws t = Some w \<longrightarrow> waiter_ok q n t w)"

definition active_inv :: "(nat \<times> model_request_lock) list \<Rightarrow> nat \<Rightarrow> bool" where
  "active_inv act n \<longleftrightarrow> distinct (map fst act) \<and>
     list_all (\<lambda>(l, k). l < n \<and> lock_inactivityTimer k \<noteq> None) act"

definition view_inv :: "flush_view \<Rightarrow> (nat \<times> model_request_lock) list \<Rightarrow> nat list \<Rightarrow> bool" where
  "view_inv f act q \<longleftrightarrow> fv_active f = (act \<noteq> []) \<and> fv_queueLength f = length q"

definition quiet :: "int option \<Rightarrow> (nat \<times> model_request_lock) list \<Rightarrow> nat list \<Rightarrow> bool" where
  "quiet timer act q \<longleftrightarrow> (timer = None \<or> act = [] \<and> q = [])"

definition readying_inv :: "drain_phase \<Rightarrow> (nat \<rightharpoonup> model_request_waiter) \<Rightarrow> bool" where
  "readying_inv d ws \<longleftrightarrow> (case d of
     DrainReadying t sel \<Rightarrow> (case ws t of None \<Rightarrow> False | Some w \<Rightarrow> w_grantedLock w = None)
   | _ \<Rightarrow> True)"

definition server_ok :: "server \<Rightarrow> bool" where
  "server_ok s \<longleftrightarrow> queue_inv (queue s) (waiters s) (nextToken s) \<and> active_inv (active s) (nextToken s) \<and>
     view_inv (flush s) (active s) (queue s) \<and> quiet (summaryTimer s) (active s) (queue s) \<and>
     quiet (ic_timer (idle s)) (active s) (queue s) \<and> readying_inv (drain s) (waiters s)"

lemma server_okI:
  "queue_inv (queue s) (waiters s) (nextToken s) \<Longrightarrow> active_inv (active s) (nextToken s) \<Longrightarrow>
   view_inv (flush s) (active s) (queue s) \<Longrightarrow> quiet (summaryTimer s) (active s) (queue s) \<Longrightarrow>
   quiet (ic_timer (idle s)) (active s) (queue s) \<Longrightarrow> readying_inv (drain s) (waiters s) \<Longrightarrow> server_ok s"
  by (simp add: server_ok_def)

lemma server_okD:
  assumes "server_ok s"
  shows "queue_inv (queue s) (waiters s) (nextToken s)" "active_inv (active s) (nextToken s)"
    "view_inv (flush s) (active s) (queue s)" "quiet (summaryTimer s) (active s) (queue s)"
    "quiet (ic_timer (idle s)) (active s) (queue s)" "readying_inv (drain s) (waiters s)"
  using assms by (simp_all add: server_ok_def)

section \<open>Clock operations\<close>

lemma waiter_ok_same: "same_waiter w w' \<Longrightarrow> waiter_ok q n t w \<Longrightarrow> waiter_ok q n t w'"
  unfolding same_waiter_def waiter_ok_def by auto

lemma queue_inv_clocks:
  assumes "clocks_only s s'" "queue_inv q (waiters s) n"
  shows "queue_inv q (waiters s') n"
proof -
  have "waiter_ok q n t w'" if "waiters s' t = Some w'" for t w'
  proof (cases "waiters s t")
    case None
    then show ?thesis using clocks_only_NoneD [OF assms(1)] that by simp
  next
    case (Some w)
    then have "same_waiter w w'" using clocks_only_SomeD [OF assms(1)] that by fastforce
    then show ?thesis using assms(2) Some waiter_ok_same by (simp add: queue_inv_def)
  qed
  moreover have "waiters s' t \<noteq> None" if "t \<in> set q" for t
    using that assms(2) clocks_only_SomeD [OF assms(1), of t] unfolding queue_inv_def by blast
  ultimately show ?thesis using assms(2) by (auto simp: queue_inv_def)
qed

lemma readying_inv_clocks:
  assumes "clocks_only s s'" "readying_inv d (waiters s)"
  shows "readying_inv d (waiters s')"
  using assms(2) clocks_only_SomeD [OF assms(1)]
  by (fastforce simp: readying_inv_def same_waiter_def split: drain_phase.splits option.splits)

lemma server_ok_clocks: "clocks_only s s' \<Longrightarrow> server_ok s \<Longrightarrow> server_ok s'"
  by (rule server_okI)
    (simp_all add: clocks_only_fields server_okD queue_inv_clocks readying_inv_clocks)

lemma queue_inv_refresh:
  "queue_inv q (waiters s) n \<Longrightarrow> queue_inv q (waiters (refreshQueuedModelRequestTimeouts s)) n"
  by (rule queue_inv_clocks [OF clocks_only_refresh])

lemma clocks_only_restarts: "clocks_only s (fold restartModelRequestWaiterTimeout ts s)"
  by (rule clocks_only_fold) (rule clocks_only_restart)

lemmas restarts_fields [simp] = clocks_only_fields [OF clocks_only_restarts]

lemma queue_inv_restarts:
  "queue_inv q (waiters s) n \<Longrightarrow> queue_inv q (waiters (fold restartModelRequestWaiterTimeout ts s)) n"
  by (rule queue_inv_clocks [OF clocks_only_restarts])

lemma readying_inv_restarts:
  "readying_inv d (waiters s) \<Longrightarrow> readying_inv d (waiters (fold restartModelRequestWaiterTimeout ts s))"
  by (rule readying_inv_clocks [OF clocks_only_restarts])

lemma readying_inv_refresh:
  "readying_inv d (waiters s) \<Longrightarrow> readying_inv d (waiters (refreshQueuedModelRequestTimeouts s))"
  by (rule readying_inv_clocks [OF clocks_only_refresh])

section \<open>Leaving the queue\<close>

lemma live_in_queue:
  "queue_inv (queue s) (waiters s) n \<Longrightarrow> live_waiter s t \<longleftrightarrow> t \<in> set (queue s)"
  by (fastforce simp: queue_inv_def live_waiter_def waiter_ok_def split: option.splits)

lemma sorted_distinct: "sorted_wrt (<) (q :: nat list) \<Longrightarrow> distinct q"
  by (induction q) auto

lemma remove_first_token:
  "distinct q \<Longrightarrow> remove_first (\<lambda>u. u = t) q = filter (\<lambda>u. u \<noteq> t) q"
  by (induction q) (auto simp: filter_id_conv intro: filter_True [symmetric])

lemma queue_inv_leave:
  assumes q: "queue_inv (queue s) (waiters s) n" and l: "live_waiter s t"
    and r: "\<forall>l. r \<noteq> ResolvedLock (Some l)"
  shows "queue_inv (queue (settle_waiter t r (leave_queue t s)))
           (waiters (settle_waiter t r (leave_queue t s))) n"
proof -
  have d: "distinct (queue s)" using q by (auto simp: queue_inv_def intro: sorted_distinct)
  have settled: "w_settled w = []" if "waiters s t = Some w" for w
    using q l that by (auto simp: queue_inv_def waiter_ok_def live_waiter_def)
  have qd: "sorted_wrt (<) (filter (\<lambda>u. u \<noteq> t) (queue s))"
    using q by (simp add: queue_inv_def sorted_wrt_filter)
  have "waiter_ok (filter (\<lambda>u. u \<noteq> t) (queue s)) n u w'"
    if "waiters (settle_waiter t r (leave_queue t s)) u = Some w'" for u w'
    using that q l r settled unfolding queue_inv_def live_waiter_def waiter_ok_def
    by (auto simp: settle_waiter_def leave_queue_def removeModelRequestWaiter_def
        clearModelRequestWaiterTimeout_def upd_waiter_def split: if_splits option.splits)
  moreover have "waiters (settle_waiter t r (leave_queue t s)) u \<noteq> None" if "u \<in> set (queue s)" for u
    using that q by (auto simp: queue_inv_def settle_waiter_def leave_queue_def
        removeModelRequestWaiter_def clearModelRequestWaiterTimeout_def upd_waiter_def)
  moreover have "queue (settle_waiter t r (leave_queue t s)) = filter (\<lambda>u. u \<noteq> t) (queue s)"
    by (simp add: settle_waiter_def leave_queue_def removeModelRequestWaiter_def remove_first_token
        clearModelRequestWaiterTimeout_def d)
  ultimately show ?thesis using qd by (auto simp: queue_inv_def)
qed

lemma leave_fields [simp]:
  "now (leave_queue t s) = now s" "nextToken (leave_queue t s) = nextToken s"
  "active (leave_queue t s) = active s" "drain (leave_queue t s) = drain s"
  "idle (leave_queue t s) = idle s" "summaryTimer (leave_queue t s) = summaryTimer s"
  "coordinator (leave_queue t s) = coordinator s" "transitions (leave_queue t s) = transitions s"
  "applied_preset (leave_queue t s) = applied_preset s"
  "stored_config (leave_queue t s) = stored_config s"
  "drainRequested (leave_queue t s) = drainRequested s"
  by (simp_all add: leave_queue_def removeModelRequestWaiter_def clearModelRequestWaiterTimeout_def)

lemma settle_fields [simp]:
  "now (settle_waiter t r s) = now s" "nextToken (settle_waiter t r s) = nextToken s"
  "queue (settle_waiter t r s) = queue s"
  "active (settle_waiter t r s) = active s" "drain (settle_waiter t r s) = drain s"
  "idle (settle_waiter t r s) = idle s" "summaryTimer (settle_waiter t r s) = summaryTimer s"
  "coordinator (settle_waiter t r s) = coordinator s" "transitions (settle_waiter t r s) = transitions s"
  "applied_preset (settle_waiter t r s) = applied_preset s"
  "stored_config (settle_waiter t r s) = stored_config s"
  "drainRequested (settle_waiter t r s) = drainRequested s"
  by (simp_all add: settle_waiter_def)

lemma readying_inv_leave:
  "readying_inv d (waiters s) \<Longrightarrow> readying_inv d (waiters (settle_waiter t r (leave_queue t s)))"
  by (auto simp: readying_inv_def settle_waiter_def leave_queue_def removeModelRequestWaiter_def
      clearModelRequestWaiterTimeout_def upd_waiter_def split: drain_phase.splits option.splits)

lemma view_inv_sync [simp]:
  "active s = act \<Longrightarrow> queue s = q \<Longrightarrow> view_inv (flush (syncInferenceRunFlushQueueModelState f s)) act q"
  by (simp add: view_inv_def syncInferenceRunFlushQueueModelState_def Let_def)

lemma quiet_sched [simp]:
  "active s = act \<Longrightarrow> queue s = q \<Longrightarrow> quiet (summaryTimer (scheduleIdleSummaryIfNeeded env s)) act q"
  by (auto simp: quiet_def scheduleIdleSummaryIfNeeded_def clearIdleSummaryTimer_def isIdle_def)

lemma quiet_busy: "quiet x act q \<Longrightarrow> q \<noteq> [] \<or> act \<noteq> [] \<Longrightarrow> quiet x act' q'"
  by (auto simp: quiet_def)

lemma readying_request [simp]:
  "readying_inv (drain (requestModelRequestDrain s)) ws \<longleftrightarrow> readying_inv (drain s) ws"
  by (auto simp: requestModelRequestDrain_def readying_inv_def)

lemma queue_leave_eq: "queue (leave_queue t s) = remove_first (\<lambda>u. u = t) (queue s)"
  by (simp add: leave_queue_def removeModelRequestWaiter_def clearModelRequestWaiterTimeout_def)

lemma cancel_ok:
  assumes "server_ok s"
  shows "server_ok (cancelModelRequestWaiter env t s)"
proof (cases "live_waiter s t")
  case True
  note ok = server_okD [OF assms]
  let ?s = "settle_waiter t (ResolvedLock None) (leave_queue t s)"
  have q: "queue_inv (queue ?s) (waiters ?s) (nextToken s)" by (rule queue_inv_leave [OF ok(1) True]) simp
  have "queue s \<noteq> []" using True live_in_queue [OF ok(1)] by auto
  then have b: "quiet (ic_timer (idle s)) act' q'" for act' q' using quiet_busy [OF ok(5)] by blast
  show ?thesis using True q ok(2) b readying_inv_leave [OF ok(6)]
    by (intro server_okI)
      (simp_all add: cancelModelRequestWaiter_def queue_inv_refresh readying_inv_refresh)
qed (simp add: cancelModelRequestWaiter_def assms)

lemma reject_ok:
  assumes "server_ok s"
  shows "server_ok (rejectModelRequestWaiter env t e s)"
proof (cases "live_waiter s t")
  case True
  note ok = server_okD [OF assms]
  let ?s = "settle_waiter t (RejectedLock e) (leave_queue t s)"
  have q: "queue_inv (queue ?s) (waiters ?s) (nextToken s)" by (rule queue_inv_leave [OF ok(1) True]) simp
  have "queue s \<noteq> []" using True live_in_queue [OF ok(1)] by auto
  then have b: "quiet (ic_timer (idle s)) act' q'" for act' q' using quiet_busy [OF ok(5)] by blast
  show ?thesis using True q ok(2) b readying_inv_leave [OF ok(6)]
    by (intro server_okI)
      (simp_all add: rejectModelRequestWaiter_def queue_inv_refresh readying_inv_refresh)
qed (simp add: rejectModelRequestWaiter_def assms)

section \<open>Locks\<close>

lemma upd_lock_fields [simp]:
  "now (upd_lock l f s) = now s" "nextToken (upd_lock l f s) = nextToken s"
  "waiters (upd_lock l f s) = waiters s" "queue (upd_lock l f s) = queue s"
  "drain (upd_lock l f s) = drain s" "flush (upd_lock l f s) = flush s" "idle (upd_lock l f s) = idle s"
  "summaryTimer (upd_lock l f s) = summaryTimer s" "coordinator (upd_lock l f s) = coordinator s"
  "transitions (upd_lock l f s) = transitions s" "applied_preset (upd_lock l f s) = applied_preset s"
  "stored_config (upd_lock l f s) = stored_config s" "drainRequested (upd_lock l f s) = drainRequested s"
  "map fst (active (upd_lock l f s)) = map fst (active s)"
  "active (upd_lock l f s) = [] \<longleftrightarrow> active s = []"
  by (auto simp: upd_lock_def)

lemma upd_lock_mem:
  "(a, b) \<in> set (active (upd_lock l f s)) \<Longrightarrow> \<exists>k. (a, k) \<in> set (active s) \<and> b = (if a = l then f k else k)"
  by (auto simp: upd_lock_def split: if_split_asm)

lemma active_inv_upd:
  assumes "active_inv (active s) n" and "\<And>k. lock_inactivityTimer k \<noteq> None \<Longrightarrow> lock_inactivityTimer (f k) \<noteq> None"
  shows "active_inv (active (upd_lock l f s)) n"
proof -
  have "l' < n \<and> lock_inactivityTimer k' \<noteq> None" if "(l', k') \<in> set (active (upd_lock l f s))" for l' k'
    using upd_lock_mem [OF that] assms by (auto simp: active_inv_def list_all_iff split: if_split_asm)
  then show ?thesis using assms(1) by (auto simp: active_inv_def list_all_iff)
qed

lemma active_inv_Nil [simp]: "active_inv [] n"
  by (simp add: active_inv_def)

lemma view_inv_upd [simp]: "view_inv v (active (upd_lock l f s)) q \<longleftrightarrow> view_inv v (active s) q"
  by (simp add: view_inv_def)

lemma quiet_upd [simp]: "quiet x (active (upd_lock l f s)) q \<longleftrightarrow> quiet x (active s) q"
  by (simp add: quiet_def)

lemma server_ok_upd_lock:
  "server_ok s \<Longrightarrow> (\<And>k. lock_inactivityTimer k \<noteq> None \<Longrightarrow> lock_inactivityTimer (f k) \<noteq> None) \<Longrightarrow>
   server_ok (upd_lock l f s)"
  using active_inv_upd [OF server_okD(2)] by (intro server_okI) (simp_all add: server_okD)

lemma renew_ok: "server_ok s \<Longrightarrow> server_ok (snd (renewModelRequestActivity l s))"
  by (auto simp: renewModelRequestActivity_def server_ok_upd_lock split: option.splits)

lemma queue_inv_grant:
  assumes q: "queue_inv (queue s) (waiters s) n" and w: "waiters s t = Some w" and l: "live_waiter s t"
    and ws: "ws = (waiters s)(t \<mapsto> w\<lparr>w_grantedLock := Some n, w_timeoutHandle := None,
      w_settled := w_settled w @ [ResolvedLock (Some n)]\<rparr>)"
  shows "queue_inv (remove_first (\<lambda>u. u = t) (queue s)) ws (Suc n)"
proof -
  have d: "distinct (queue s)" using q by (auto simp: queue_inv_def intro: sorted_distinct)
  have "w_settled w = []" using q w l by (auto simp: queue_inv_def waiter_ok_def live_waiter_def)
  then have "waiter_ok (filter (\<lambda>u. u \<noteq> t) (queue s)) (Suc n) u w'" if "ws u = Some w'" for u w'
    using that q w l unfolding queue_inv_def live_waiter_def waiter_ok_def ws
    by (auto split: if_splits simp: less_Suc_eq)
  moreover have "ws u \<noteq> None" if "u \<in> set (queue s)" for u
    using that q ws by (auto simp: queue_inv_def)
  ultimately show ?thesis using q by (auto simp: queue_inv_def remove_first_token [OF d] sorted_wrt_filter)
qed

lemma register_fields [simp]:
  "now (registerActiveModelRequest env l k s) = now s"
  "nextToken (registerActiveModelRequest env l k s) = nextToken s"
  "waiters (registerActiveModelRequest env l k s) = waiters s"
  "queue (registerActiveModelRequest env l k s) = queue s"
  "drain (registerActiveModelRequest env l k s) = drain s"
  "flush (registerActiveModelRequest env l k s) = flush s"
  "idle (registerActiveModelRequest env l k s) = idle s"
  "summaryTimer (registerActiveModelRequest env l k s) = summaryTimer s"
  "coordinator (registerActiveModelRequest env l k s) = coordinator s"
  "transitions (registerActiveModelRequest env l k s) = transitions s"
  "applied_preset (registerActiveModelRequest env l k s) = applied_preset s"
  "stored_config (registerActiveModelRequest env l k s) = stored_config s"
  "drainRequested (registerActiveModelRequest env l k s) = drainRequested s"
  "map fst (active (registerActiveModelRequest env l k s)) = map fst (active s) @ [l]"
  "length (active (registerActiveModelRequest env l k s)) = Suc (length (active s))"
  by (simp_all add: registerActiveModelRequest_def armModelRequestInactivityTimeout_def)
    (simp_all add: upd_lock_def)

lemma active_inv_register:
  assumes "active_inv (active s) n" "nextToken s = Suc n"
  shows "active_inv (active (registerActiveModelRequest env n k s)) (Suc n)"
proof -
  have "n \<notin> set (map fst (active s))" using assms by (auto simp: active_inv_def list_all_iff)
  moreover have "list_all (\<lambda>(l, k). l < Suc n \<and> lock_inactivityTimer k \<noteq> None) (active s)"
    using assms by (fastforce simp: active_inv_def list_all_iff)
  moreover from this have "list_all (\<lambda>(l, k). l < Suc n \<and> lock_inactivityTimer k \<noteq> None)
      (active (registerActiveModelRequest env n k s))"
    using assms(2) unfolding registerActiveModelRequest_def armModelRequestInactivityTimeout_def
    by (auto simp: list_all_iff upd_lock_def split: if_split_asm)
  ultimately show ?thesis using assms by (simp add: active_inv_def)
qed

lemma remove_waiter_fields [simp]:
  "now (removeModelRequestWaiter t s) = now s" "nextToken (removeModelRequestWaiter t s) = nextToken s"
  "waiters (removeModelRequestWaiter t s) = waiters s" "active (removeModelRequestWaiter t s) = active s"
  "drain (removeModelRequestWaiter t s) = drain s" "idle (removeModelRequestWaiter t s) = idle s"
  "flush (removeModelRequestWaiter t s) = flush s"
  "summaryTimer (removeModelRequestWaiter t s) = summaryTimer s"
  "coordinator (removeModelRequestWaiter t s) = coordinator s"
  "transitions (removeModelRequestWaiter t s) = transitions s"
  "applied_preset (removeModelRequestWaiter t s) = applied_preset s"
  "stored_config (removeModelRequestWaiter t s) = stored_config s"
  "drainRequested (removeModelRequestWaiter t s) = drainRequested s"
  "queue (removeModelRequestWaiter t s) = remove_first (\<lambda>u. u = t) (queue s)"
  by (simp_all add: removeModelRequestWaiter_def)

lemma clear_timeout_fields [simp]:
  "now (clearModelRequestWaiterTimeout t s) = now s"
  "nextToken (clearModelRequestWaiterTimeout t s) = nextToken s"
  "queue (clearModelRequestWaiterTimeout t s) = queue s"
  "active (clearModelRequestWaiterTimeout t s) = active s"
  "drain (clearModelRequestWaiterTimeout t s) = drain s"
  "flush (clearModelRequestWaiterTimeout t s) = flush s"
  "idle (clearModelRequestWaiterTimeout t s) = idle s"
  "summaryTimer (clearModelRequestWaiterTimeout t s) = summaryTimer s"
  "coordinator (clearModelRequestWaiterTimeout t s) = coordinator s"
  "transitions (clearModelRequestWaiterTimeout t s) = transitions s"
  "applied_preset (clearModelRequestWaiterTimeout t s) = applied_preset s"
  "stored_config (clearModelRequestWaiterTimeout t s) = stored_config s"
  "drainRequested (clearModelRequestWaiterTimeout t s) = drainRequested s"
  by (simp_all add: clearModelRequestWaiterTimeout_def)

lemma grant_ok:
  assumes "server_ok s" and l: "live_waiter s t" and d: "\<And>t' sel'. drain s \<noteq> DrainReadying t' sel'"
  shows "server_ok (grantModelRequestWaiter env t sel s)"
proof -
  note ok = server_okD [OF assms(1)]
  obtain w where w: "waiters s t = Some w" using l by (auto simp: live_waiter_def split: option.splits)
  have "queue s \<noteq> []" using l live_in_queue [OF ok(1)] by auto
  then have b: "quiet (ic_timer (idle s)) act' q'" "quiet (summaryTimer s) act' q'" for act' q'
    using quiet_busy [OF ok(5)] quiet_busy [OF ok(4)] by blast+
  let ?ws = "(waiters s)(t \<mapsto> w\<lparr>w_grantedLock := Some (nextToken s), w_timeoutHandle := None,
      w_settled := w_settled w @ [ResolvedLock (Some (nextToken s))]\<rparr>)"
  have r: "readying_inv (drain s) ws" for ws using d by (auto simp: readying_inv_def split: drain_phase.splits)
  have ws: "waiters (settle_waiter t (ResolvedLock (Some (nextToken s))) (clearModelRequestWaiterTimeout t
      (registerActiveModelRequest env (nextToken s) k (removeModelRequestWaiter t
        (upd_waiter t (\<lambda>w. w\<lparr>w_grantedLock := Some (nextToken s)\<rparr>) (s\<lparr>nextToken := Suc (nextToken s)\<rparr>)))))) = ?ws"
    for k
    using w by (auto simp: fun_eq_iff settle_waiter_def clearModelRequestWaiterTimeout_def
        upd_waiter_def)
  have q: "queue_inv (remove_first (\<lambda>u. u = t) (queue s)) ?ws (Suc (nextToken s))"
    by (rule queue_inv_grant [OF ok(1) w l refl])
  show ?thesis
    by (intro server_okI)
      (simp_all add: grantModelRequestWaiter_def w Let_def queue_inv_refresh readying_inv_refresh
        ws q r b active_inv_register ok(2))
qed

lemma quiet_arm:
  "quiet (ic_timer (idle s)) (active s) (queue s) \<Longrightarrow> active s = [] \<Longrightarrow> q = queue s \<Longrightarrow>
   quiet (ic_timer (idle (armActivePresetIdle f s))) [] q"
  by (auto simp: armActivePresetIdle_def armAfterRequest_def quiet_def)

lemma quiet_filter: "quiet x act q \<Longrightarrow> quiet x (filter P act) q"
  by (auto simp: quiet_def)

lemma active_inv_filter: "active_inv act n \<Longrightarrow> active_inv (filter P act) n"
  by (auto simp: active_inv_def list_all_iff distinct_map_filter)

lemma release_ok:
  assumes "server_ok s"
  shows "server_ok (snd (releaseModelRequest env l s))"
proof (cases "map_of (active s) l")
  case (Some k)
  note ok = server_okD [OF assms]
  let ?s1 = "syncInferenceRunFlushQueueModelState (Some (now s))
     (s\<lparr>active := filter (\<lambda>e. fst e \<noteq> l) (active s), lastFinishedAt := Some (now s)\<rparr>)"
  have s1: "queue_inv (queue ?s1) (waiters ?s1) (nextToken ?s1)" "readying_inv (drain ?s1) (waiters ?s1)"
      "quiet (ic_timer (idle ?s1)) (active ?s1) (queue ?s1)" "active_inv (active ?s1) (nextToken ?s1)"
    using ok by (simp_all add: quiet_filter active_inv_filter)
  have after: "server_ok (scheduleIdleSummaryIfNeeded env (syncInferenceRunFlushQueueModelState f s2))"
    if "queue_inv (queue s2) (waiters s2) (nextToken s2)" "readying_inv (drain s2) (waiters s2)"
      "quiet (ic_timer (idle s2)) (active s2) (queue s2)" "active_inv (active s2) (nextToken s2)"
    for s2 f using that by (intro server_okI) simp_all
  show ?thesis
  proof (cases "coordinator s = Some False")
    case True
    let ?s2 = "(fold restartModelRequestWaiterTimeout (queue ?s1) ?s1)
        \<lparr>transitions := transitions ?s1 @ [now s]\<rparr>"
    have "snd (releaseModelRequest env l s) = scheduleIdleSummaryIfNeeded env
        (syncInferenceRunFlushQueueModelState (Some (now s)) ?s2)"
      by (simp add: releaseModelRequest_def Some Let_def True)
    moreover have "queue_inv (queue ?s2) (waiters ?s2) (nextToken ?s2)" "readying_inv (drain ?s2) (waiters ?s2)"
      using queue_inv_restarts [OF s1(1)] readying_inv_restarts [OF s1(2)] by simp_all
    then have "server_ok (scheduleIdleSummaryIfNeeded env
        (syncInferenceRunFlushQueueModelState (Some (now s)) ?s2))"
      by (intro after) (use s1 in simp_all)
    ultimately show ?thesis by simp
  next
    case False
    let ?s2 = "let s3 = requestModelRequestDrain ?s1 in
         if active s3 = [] then armActivePresetIdle (now s) s3 else s3"
    have "snd (releaseModelRequest env l s) = scheduleIdleSummaryIfNeeded env
        (syncInferenceRunFlushQueueModelState (Some (now s)) ?s2)"
      by (simp add: releaseModelRequest_def Some Let_def False)
    moreover have "quiet (ic_timer (idle ?s2)) (active ?s2) (queue ?s2)"
      using s1(3) by (auto simp: Let_def intro!: quiet_arm)
    then have "server_ok (scheduleIdleSummaryIfNeeded env
        (syncInferenceRunFlushQueueModelState (Some (now s)) ?s2))"
      by (intro after) (use s1 in \<open>simp_all add: Let_def\<close>)
    ultimately show ?thesis by simp
  qed
qed (simp add: releaseModelRequest_def assms)

lemma transition_ok:
  assumes "server_ok s"
  shows "server_ok (transitionSettled env f b s)"
proof (cases "f \<in> set (transitions s) \<and> b")
  case True
  note ok = server_okD [OF assms]
  let ?s0 = "s\<lparr>transitions := remove1 f (transitions s)\<rparr>"
  let ?s2 = "let s1 = requestModelRequestDrain ?s0 in
       if active s1 = [] then armActivePresetIdle f s1 else s1"
  have "transitionSettled env f b s = scheduleIdleSummaryIfNeeded env
      (syncInferenceRunFlushQueueModelState (Some f) ?s2)"
    using True by (simp add: transitionSettled_def Let_def)
  moreover have "quiet (ic_timer (idle ?s2)) (active ?s2) (queue ?s2)"
    using ok(5) by (auto simp: Let_def intro!: quiet_arm)
  then have "server_ok (scheduleIdleSummaryIfNeeded env
      (syncInferenceRunFlushQueueModelState (Some f) ?s2))"
    by (intro server_okI) (use ok in \<open>simp_all add: Let_def\<close>)
  ultimately show ?thesis by simp
next
  case False
  then show ?thesis using server_okD [OF assms]
    by (auto simp: transitionSettled_def intro!: server_okI)
qed

lemma active_inv_rearm:
  assumes a: "active_inv (active s) n"
  shows "active_inv (active (armModelRequestInactivityTimeout l d (upd_lock l f s))) n"
proof -
  have "l' < n \<and> lock_inactivityTimer k' \<noteq> None"
    if m: "(l', k') \<in> set (active (armModelRequestInactivityTimeout l d (upd_lock l f s)))" for l' k'
  proof -
    obtain k1 where k1: "(l', k1) \<in> set (active (upd_lock l f s))"
        "k' = (if l' = l then k1\<lparr>lock_inactivityTimer := Some (now s + d)\<rparr> else k1)"
      using upd_lock_mem [OF m [unfolded armModelRequestInactivityTimeout_def]] by auto
    obtain k where "(l', k) \<in> set (active s)" "k1 = (if l' = l then f k else k)"
      using upd_lock_mem [OF k1(1)] by auto
    then show ?thesis using k1(2) a by (auto simp: active_inv_def list_all_iff)
  qed
  then have "list_all (\<lambda>(l, k). l < n \<and> lock_inactivityTimer k \<noteq> None)
      (active (armModelRequestInactivityTimeout l d (upd_lock l f s)))" by (auto simp: list_all_iff)
  moreover have "map fst (active (armModelRequestInactivityTimeout l d (upd_lock l f s))) = map fst (active s)"
    by (simp add: armModelRequestInactivityTimeout_def)
  ultimately show ?thesis using a by (simp add: active_inv_def)
qed

lemma arm_timeout_fields [simp]:
  "now (armModelRequestInactivityTimeout l d s) = now s"
  "nextToken (armModelRequestInactivityTimeout l d s) = nextToken s"
  "waiters (armModelRequestInactivityTimeout l d s) = waiters s"
  "queue (armModelRequestInactivityTimeout l d s) = queue s"
  "drain (armModelRequestInactivityTimeout l d s) = drain s"
  "drainRequested (armModelRequestInactivityTimeout l d s) = drainRequested s"
  "flush (armModelRequestInactivityTimeout l d s) = flush s"
  "idle (armModelRequestInactivityTimeout l d s) = idle s"
  "summaryTimer (armModelRequestInactivityTimeout l d s) = summaryTimer s"
  "coordinator (armModelRequestInactivityTimeout l d s) = coordinator s"
  "transitions (armModelRequestInactivityTimeout l d s) = transitions s"
  "applied_preset (armModelRequestInactivityTimeout l d s) = applied_preset s"
  "stored_config (armModelRequestInactivityTimeout l d s) = stored_config s"
  "active (armModelRequestInactivityTimeout l d s) = [] \<longleftrightarrow> active s = []"
  by (simp_all add: armModelRequestInactivityTimeout_def)

text \<open>The fired timer's lock is without a timer only until it is released or armed again.\<close>

lemma release_ignores_lock_timer:
  "map_of (active s) l \<noteq> None \<Longrightarrow> snd (releaseModelRequest env l (upd_lock l f s))
     = snd (releaseModelRequest env l s)"
proof -
  assume m: "map_of (active s) l \<noteq> None"
  have "map_of (active (upd_lock l f s)) l \<noteq> None"
    using m by (simp add: map_of_eq_None_iff flip: set_map)
  then obtain k' where k': "map_of (active (upd_lock l f s)) l = Some k'" by blast
  obtain k where k: "map_of (active s) l = Some k" using m by blast
  have "filter (\<lambda>e. fst e \<noteq> l) (map (\<lambda>(k, v). if k = l then (k, f v) else (k, v)) xs)
      = filter (\<lambda>e. fst e \<noteq> l) xs" for xs by (induction xs) (auto split: if_split_asm)
  then have f: "filter (\<lambda>e. fst e \<noteq> l) (active (upd_lock l f s)) = filter (\<lambda>e. fst e \<noteq> l) (active s)"
    by (simp add: upd_lock_def)
  have e: "(upd_lock l f s)\<lparr>active := x, lastFinishedAt := y\<rparr> = s\<lparr>active := x, lastFinishedAt := y\<rparr>" for x y
    by (simp add: upd_lock_def)
  show ?thesis
    unfolding releaseModelRequest_def k k' option.case f e upd_lock_fields(1) by (rule refl)
qed

lemma inactivity_ok:
  assumes "server_ok s"
  shows "server_ok (inactivityTimerFires env l s)"
proof -
  note ok = server_okD [OF assms]
  have "server_ok (armModelRequestInactivityTimeout l d (upd_lock l f s))" for d f
    using ok by (intro server_okI) (auto simp: active_inv_rearm view_inv_def quiet_def)
  then show ?thesis
    using assms release_ok [OF assms]
    by (auto simp: inactivityTimerFires_def Let_def release_ignores_lock_timer split: option.splits)
qed

section \<open>The drain\<close>

lemma reject_fields [simp]:
  "nextToken (rejectModelRequestWaiter env t e s) = nextToken s"
  "active (rejectModelRequestWaiter env t e s) = active s"
  "drain (rejectModelRequestWaiter env t e s) = drain s"
  "drainRequested (rejectModelRequestWaiter env t e s) = drainRequested s"
  "coordinator (rejectModelRequestWaiter env t e s) = coordinator s"
  "transitions (rejectModelRequestWaiter env t e s) = transitions s"
  "applied_preset (rejectModelRequestWaiter env t e s) = applied_preset s"
  "stored_config (rejectModelRequestWaiter env t e s) = stored_config s"
  by (simp_all add: rejectModelRequestWaiter_def)

lemma examine_fields [simp]:
  "nextToken (snd (examine env c ts s)) = nextToken s"
  "active (snd (examine env c ts s)) = active s"
  "drain (snd (examine env c ts s)) = drain s"
  "drainRequested (snd (examine env c ts s)) = drainRequested s"
  "coordinator (snd (examine env c ts s)) = coordinator s"
  "transitions (snd (examine env c ts s)) = transitions s"
  "applied_preset (snd (examine env c ts s)) = applied_preset s"
  "stored_config (snd (examine env c ts s)) = stored_config s"
  by (induction ts arbitrary: s) (simp_all add: case_prod_beta Let_def split: option.split sum.split)

lemma examine_ok: "server_ok s \<Longrightarrow> server_ok (snd (examine env c ts s))"
proof (induction ts arbitrary: s)
  case (Cons t ts)
  have "server_ok (upd_waiter t (\<lambda>w. w\<lparr>w_resolution := r\<rparr>) s)" for r
    by (rule server_ok_clocks [OF clocks_only_resolution Cons.prems])
  then show ?case using Cons.IH reject_ok [OF Cons.prems] Cons.prems
    by (simp add: case_prod_beta Let_def split: option.split sum.split)
qed simp

lemma server_ok_phase:
  "server_ok s \<Longrightarrow> readying_inv d (waiters s) \<Longrightarrow> server_ok (s\<lparr>drain := d\<rparr>)"
  by (rule server_okI) (simp_all add: server_okD)

lemma readying_trivial [simp]:
  "readying_inv DrainIdle ws" "readying_inv DrainOuter ws" "readying_inv DrainInner ws"
  "readying_inv DrainBlocked ws"
  by (simp_all add: readying_inv_def)

lemma drain_finish_ok:
  assumes "server_ok s"
  shows "server_ok (drain_finish s)"
proof -
  note ok = server_okD [OF assms]
  have "quiet (ic_timer (idle (drain_finish s))) (active s) (queue s)"
    using ok(5) by (auto simp: drain_finish_def Let_def intro!: quiet_arm)
  then show ?thesis
    using ok by (intro server_okI) (simp_all add: drain_finish_def Let_def split: if_splits)
qed

lemma admit_selected_ok:
  assumes "server_ok s" "readying_inv (DrainReadying t sel) (waiters s)"
  shows "server_ok (admit_selected env t sel s)"
proof -
  have p: "server_ok (s\<lparr>drain := DrainInner\<rparr>)" by (rule server_ok_phase [OF assms(1)]) simp
  have "live_waiter (s\<lparr>drain := DrainInner\<rparr>) t"
    if "waiters s t = Some w" "\<not> w_cancelled w" for w
    using that assms(2) by (simp add: live_waiter_def readying_inv_def)
  then show ?thesis
    using p by (auto simp: admit_selected_def Let_def intro!: grant_ok split: option.splits)
qed

text \<open>The selected candidate is a waiter the pass examined.\<close>

lemma select_in_candidates: "selectNextModelRequest cands n = Some t \<Longrightarrow> t \<in> fst ` set cands"
  by (auto simp: selectNextModelRequest_def find_Some_iff split: option.splits if_splits list.splits)

lemma queued_readying:
  "queue_inv q ws n \<Longrightarrow> t \<in> set q \<Longrightarrow> readying_inv (DrainReadying t sel) ws"
  by (auto simp: readying_inv_def queue_inv_def waiter_ok_def split: option.splits)

lemma admit_compatible_ok:
  assumes "server_ok s" "admitCompatibleProfileWithoutCoordinator env c sel s = Inr s2"
  shows "server_ok s2" "waiters s2 = waiters s" "active s2 = active s" "queue s2 = queue s"
    "drain s2 = drain s" "coordinator s2 = coordinator s" "nextToken s2 = nextToken s"
    "transitions s2 = transitions s" "drainRequested s2 = drainRequested s"
proof -
  have "server_ok (s\<lparr>applied_preset := p, stored_config := d\<rparr>)" for p d
    using assms(1) by (simp add: server_ok_def)
  then show "server_ok s2" "waiters s2 = waiters s" "active s2 = active s" "queue s2 = queue s"
    "drain s2 = drain s" "coordinator s2 = coordinator s" "nextToken s2 = nextToken s"
    "transitions s2 = transitions s" "drainRequested s2 = drainRequested s"
    using assms by (auto simp: admitCompatibleProfileWithoutCoordinator_def split: if_splits)
qed

lemma advance_ok:
  assumes "server_ok s"
  shows "server_ok (advanceModelRequestDrain env s)"
proof (cases "queue s = [] \<or> coordinator s = Some False \<or> stored_config s = None")
  case True
  then show ?thesis
    by (auto simp: advanceModelRequestDrain_def assms intro!: server_ok_phase drain_finish_ok split: option.split)
next
  case False
  then obtain c where c: "stored_config s = Some c" by auto
  obtain cands s1 where e: "examine env c (queue s) s = (cands, s1)" by force
  have s1: "server_ok s1" using examine_ok [OF assms, of env c "queue s"] e by simp
  note ph = server_ok_phase [OF s1]
  have rej: "server_ok ((rejectModelRequestWaiter env t e s1)\<lparr>drain := DrainInner\<rparr>)" for t e
    by (rule server_ok_phase [OF reject_ok [OF s1]]) simp
  have rd: "readying_inv (DrainReadying t sel) (waiters s1)" if "t \<in> set (queue s1)" for t sel
    using queued_readying [OF server_okD(1) [OF s1] that] .
  have adm: "server_ok (admit_selected env t sel s2)"
    if "t \<in> set (queue s1)" "admitCompatibleProfileWithoutCoordinator env c sel s1 = Inr s2" for t sel s2
    using admit_compatible_ok [OF s1 that(2)] rd [OF that(1)] by (auto intro: admit_selected_ok)
  show ?thesis
    using False c ph rej rd adm unfolding advanceModelRequestDrain_def
    by (auto simp: e split: option.split sum.split if_split)
qed

lemma drain_step_ok: "server_ok s \<Longrightarrow> server_ok (drain_step env s)"
proof -
  assume ok: "server_ok s"
  then have "server_ok (s\<lparr>drainRequested := False\<rparr>)" by (simp add: server_ok_def)
  then show ?thesis using ok
    by (auto simp: drain_step_def intro: advance_ok drain_finish_ok split: drain_phase.splits)
qed

lemma readiness_ok: "server_ok s \<Longrightarrow> server_ok (readiness_settled env e s)"
proof (cases "drain s")
  case (DrainReadying t sel)
  assume ok: "server_ok s"
  have "server_ok ((rejectModelRequestWaiter env t r s)\<lparr>drain := DrainInner\<rparr>)" for r
    by (rule server_ok_phase [OF reject_ok [OF ok]]) simp
  moreover have "server_ok (admit_selected env t sel s)"
    using server_okD(6) [OF ok] DrainReadying by (intro admit_selected_ok [OF ok]) simp
  ultimately show ?thesis by (simp add: readiness_settled_def DrainReadying split: option.split)
qed (simp_all add: readiness_settled_def)

section \<open>Arrival\<close>

lemma queue_inv_arrive:
  assumes q: "queue_inv q ws n" and w: "waiter_ok [n] (Suc n) n w" "w_settled w = []"
  shows "queue_inv (q @ [n]) (ws(n \<mapsto> w)) (Suc n)"
proof -
  have lt: "\<forall>t\<in>set q. t < n" using q by (auto simp: queue_inv_def waiter_ok_def)
  have "waiter_ok (q @ [n]) (Suc n) t v" if "(ws(n \<mapsto> w)) t = Some v" for t v
  proof (cases "t = n")
    case True
    then show ?thesis using that w by (auto simp: waiter_ok_def)
  next
    case False
    then have v: "waiter_ok q n t v" using that q by (simp add: queue_inv_def)
    then show ?thesis using False unfolding waiter_ok_def by (auto simp: less_Suc_eq)
  qed
  moreover have "(ws(n \<mapsto> w)) t \<noteq> None" if "t \<in> set (q @ [n])" for t
    using that q by (auto simp: queue_inv_def)
  ultimately show ?thesis using q lt by (auto simp: queue_inv_def sorted_wrt_append)
qed

lemma active_inv_mono: "active_inv act n \<Longrightarrow> n \<le> m \<Longrightarrow> active_inv act m"
  by (fastforce simp: active_inv_def list_all_iff)

lemma acquire_ok:
  assumes ok: "server_ok s" and a: "acquireModelRequestWithWait env kind opts s = Inr (res, s')"
  shows "server_ok s'"
proof -
  obtain d where d: "resolveModelRequestQueueTimeout env (ao_queueTimeout opts) = Inr d"
    and a: "(if ao_aborted opts then Inr (None, s)
        else let s0 = clearIdleSummaryTimer (idle_clear s);
                 t = nextToken s0;
                 s1 = s0\<lparr>nextToken := Suc t, queue := queue s0 @ [t],
                         waiters := (waiters s0)(t \<mapsto> fresh_waiter kind opts d s0)\<rparr>;
                 s2 = startModelRequestWaiterTimeout t (syncInferenceRunFlushQueueModelState None s1);
                 s3 = (if ao_abortedMeanwhile opts then cancelModelRequestWaiter env t s2 else s2);
                 s4 = (if ao_clientGone opts then cancelModelRequestWaiter env t s3 else s3)
             in Inr (Some t, requestModelRequestDrain s4)) = (Inr (res, s') :: int + nat option \<times> server)"
    using a by (auto simp: acquireModelRequestWithWait_def)
  let ?n = "nextToken s"
  let ?s1 = "(clearIdleSummaryTimer (idle_clear s))\<lparr>nextToken := Suc ?n, queue := queue s @ [?n],
      waiters := (waiters s)(?n \<mapsto> fresh_waiter kind opts d (clearIdleSummaryTimer (idle_clear s)))\<rparr>"
  let ?s2 = "startModelRequestWaiterTimeout ?n (syncInferenceRunFlushQueueModelState None ?s1)"
  have w: "waiters ?s2 = (waiters s)(?n \<mapsto> (fresh_waiter kind opts d (clearIdleSummaryTimer (idle_clear s)))
      \<lparr>w_timeoutHandle := (case d of NoDeadline \<Rightarrow> None | Deadline e \<Rightarrow> Some (now s + e))\<rparr>)"
    by (auto simp: startModelRequestWaiterTimeout_def upd_waiter_def fun_eq_iff fresh_waiter_def
        clearIdleSummaryTimer_def idle_clear_def split: queue_timeout.splits)
  have "queue_inv (queue s @ [?n]) (waiters ?s2) (Suc ?n)"
    unfolding w by (rule queue_inv_arrive [OF server_okD(1) [OF ok]])
      (auto simp: waiter_ok_def fresh_waiter_def split: queue_timeout.split)
  moreover have "readying_inv (drain s) (waiters ?s2)"
    using server_okD(6) [OF ok] unfolding w
    by (auto simp: readying_inv_def fresh_waiter_def split: drain_phase.splits)
  ultimately have s2: "server_ok ?s2"
    using active_inv_mono [OF server_okD(2) [OF ok], of "Suc ?n"]
    by (intro server_okI)
      (simp_all add: startModelRequestWaiterTimeout_def clearIdleSummaryTimer_def idle_clear_def
        cleared_idle_def quiet_def)
  have req: "server_ok (requestModelRequestDrain x)" if "server_ok x" for x
    using server_okD [OF that] by (intro server_okI) simp_all
  define s3 where "s3 = (if ao_abortedMeanwhile opts then cancelModelRequestWaiter env ?n ?s2 else ?s2)"
  define s4 where "s4 = (if ao_clientGone opts then cancelModelRequestWaiter env ?n s3 else s3)"
  have "server_ok s3" using s2 by (simp add: s3_def cancel_ok)
  then have "server_ok s4" by (simp add: s4_def cancel_ok)
  moreover have "s' = (if ao_aborted opts then s else requestModelRequestDrain s4)"
    using a unfolding s4_def s3_def
    by (simp add: Let_def clearIdleSummaryTimer_def idle_clear_def split: if_split_asm)
  ultimately show ?thesis using ok req by simp
qed

lemma clear_timeout_ok:
  assumes "server_ok s" "\<not> live_waiter s t"
  shows "server_ok (clearModelRequestWaiterTimeout t s)"
proof -
  have "same_waiter w (w\<lparr>w_timeoutHandle := None\<rparr>)" if w: "waiters s t = Some w" for w
  proof -
    have "t \<notin> set (queue s)" using assms live_in_queue [OF server_okD(1) [OF assms(1)]] by blast
    then have "w_timeoutHandle w = None"
      using server_okD(1) [OF assms(1)] w unfolding queue_inv_def waiter_ok_def by blast
    then show ?thesis by (simp add: same_waiter_def)
  qed
  then have "clocks_only s (clearModelRequestWaiterTimeout t s)"
    unfolding clearModelRequestWaiterTimeout_def by (rule clocks_only_upd)
  then show ?thesis using assms(1) by (rule server_ok_clocks)
qed

lemma live_waiter_clocks: "clocks_only s s' \<Longrightarrow> live_waiter s' t = live_waiter s t"
  using clocks_only_NoneD [of s s' t] clocks_only_SomeD [of s s' t]
  by (cases "waiters s t") (auto simp: live_waiter_def same_waiter_def)

lemma live_waiter_cong: "waiters s' t = waiters s t \<Longrightarrow> live_waiter s' t = live_waiter s t"
  by (simp add: live_waiter_def)

lemma live_release: "live_waiter (snd (releaseModelRequest env l s)) t = live_waiter s t"
proof (cases "map_of (active s) l")
  case (Some k)
  let ?s1 = "syncInferenceRunFlushQueueModelState (Some (now s))
     (s\<lparr>active := filter (\<lambda>e. fst e \<noteq> l) (active s), lastFinishedAt := Some (now s)\<rparr>)"
  have "live_waiter (fold restartModelRequestWaiterTimeout ts ?s1) t = live_waiter ?s1 t" for ts
    by (rule live_waiter_clocks [OF clocks_only_restarts])
  then show ?thesis by (simp add: releaseModelRequest_def Some Let_def live_waiter_def)
qed (simp add: releaseModelRequest_def)

lemma acquire_resumes_ok:
  assumes "server_ok s"
  shows "server_ok (snd (acquire_resumes env t aborted gone s))"
proof (cases "case waiters s t of None \<Rightarrow> True | Some w \<Rightarrow> w_settled w = []")
  case False
  then obtain w r rs where w: "waiters s t = Some w" "w_settled w = r # rs"
    by (auto split: option.splits simp: neq_Nil_conv)
  define s1 where "s1 = (case r of ResolvedLock (Some l) \<Rightarrow>
      if aborted then snd (releaseModelRequest env l s) else s | _ \<Rightarrow> s)"
  have "\<not> live_waiter s t"
    using w server_okD(1) [OF assms] live_in_queue [OF server_okD(1) [OF assms], of t]
    by (fastforce simp: queue_inv_def waiter_ok_def)
  then have "server_ok (clearModelRequestWaiterTimeout t s1)"
    using assms release_ok [OF assms]
    by (intro clear_timeout_ok) (auto simp: s1_def live_release split: settlement.split option.split)
  moreover have "snd (acquire_resumes env t aborted gone s) =
      (let s2 = clearModelRequestWaiterTimeout t s1 in if gone then cancelModelRequestWaiter env t s2 else s2)"
    using w by (auto simp: acquire_resumes_def s1_def Let_def split: settlement.split option.split)
  ultimately show ?thesis by (simp add: Let_def cancel_ok)
qed (auto simp: acquire_resumes_def assms split: option.splits)

section \<open>Every event\<close>

lemma server_ok_same:
  "server_ok s \<Longrightarrow> queue s' = queue s \<Longrightarrow> waiters s' = waiters s \<Longrightarrow> nextToken s' = nextToken s \<Longrightarrow>
   active s' = active s \<Longrightarrow> flush s' = flush s \<Longrightarrow> summaryTimer s' = summaryTimer s \<or> summaryTimer s' = None \<Longrightarrow>
   ic_timer (idle s') = ic_timer (idle s) \<or> ic_timer (idle s') = None \<Longrightarrow> drain s' = drain s \<or> drain s' = DrainInner \<or> drain s' = DrainOuter \<Longrightarrow>
   server_ok s'"
  by (auto simp: server_ok_def quiet_def)

lemma request_ok: "server_ok s \<Longrightarrow> server_ok (requestModelRequestDrain s)"
  by (erule server_ok_same) (auto simp: requestModelRequestDrain_def)

lemma queue_step_ok:
  assumes ok: "server_ok s"
  shows "server_ok (queue_step env e s)"
proof -
  note same = server_ok_same [OF ok]
  show ?thesis
  proof (cases e)
    case (Acquire kind opts)
    then show ?thesis using acquire_ok [OF ok] ok by (auto split: sum.splits)
  next
    case IdleActionSettled
    have "server_ok (s\<lparr>idleActionsRunning := n\<rparr>)" for n by (rule same) simp_all
    then show ?thesis using ok by (simp add: IdleActionSettled idleActionSettles_def request_ok split: nat.split)
  next
    case (WaiterTimeout t)
    then show ?thesis using ok cancel_ok [OF ok] by (simp add: waiterTimeoutFires_def split: option.split)
  next
    case BlockerSettled
    then show ?thesis
      by (intro same) (auto simp: blocker_settled_def idleTimerFires_def idleSummaryFires_def Let_def split: option.splits)
  next
    case IdleTimer
    then show ?thesis
      by (intro same) (auto simp: blocker_settled_def idleTimerFires_def idleSummaryFires_def Let_def split: option.splits)
  next
    case SummaryTimer
    then show ?thesis
      by (intro same) (auto simp: blocker_settled_def idleTimerFires_def idleSummaryFires_def Let_def split: option.splits)
  next
    case (CoordinatorIs g)
    then show ?thesis
      by (intro same) (auto simp: blocker_settled_def idleTimerFires_def idleSummaryFires_def Let_def split: option.splits)
  next
    case (ProfilePublished p)
    then show ?thesis
      by (intro same) (auto simp: blocker_settled_def idleTimerFires_def idleSummaryFires_def Let_def split: option.splits)
  next
    case (ConfigSaved c)
    then show ?thesis
      by (intro same) (auto simp: blocker_settled_def idleTimerFires_def idleSummaryFires_def Let_def split: option.splits)
  next
    case (RunsChanged r p)
    then show ?thesis
      by (intro same) (auto simp: blocker_settled_def idleTimerFires_def idleSummaryFires_def Let_def split: option.splits)
  next
    case (Tick d)
    then show ?thesis
      by (intro same) (auto simp: blocker_settled_def idleTimerFires_def idleSummaryFires_def Let_def split: option.splits)
  qed (simp_all add: ok cancel_ok release_ok renew_ok inactivity_ok transition_ok drain_step_ok readiness_ok
      acquire_resumes_ok request_ok)
qed

interpretation admission: invariant_machine "queue_step env" server_ok
  by unfold_locales (rule queue_step_ok)

lemma initial_ok: "server_ok (initial_server c p co)"
  by (simp add: server_ok_def initial_server_def queue_inv_def active_inv_def view_inv_def quiet_def cleared_idle_def)

end
