(* ===== verification/Queue_Progress.thy ===== *)
theory Queue_Progress
  imports Queue_Invariants
begin

text \<open>
  What the admission drain selects, and that a waiting request is never left without anything that
  would wake the drain for it, as long as backend transitions succeed. The last section runs the
  case in which one fails.
\<close>

section \<open>The candidates of a pass\<close>

definition resolution_of :: "server \<Rightarrow> nat \<Rightarrow> model_request_selection option" where
  "resolution_of s t = Option.bind (waiters s t) w_resolution"

definition intent_of :: "server \<Rightarrow> nat \<Rightarrow> model_request_intent option" where
  "intent_of s t = map_option w_intent (waiters s t)"

text \<open>What a pass decides of a queued request: its selection and whether it is resident.\<close>

definition verdict :: "queue_env \<Rightarrow> sift_config \<Rightarrow> server \<Rightarrow> nat \<Rightarrow> (model_request_selection \<times> bool) option" where
  "verdict env c s t =
     (case intent_of s t of
        None \<Rightarrow> None
      | Some i \<Rightarrow> (case resolve_waiter env s c i of Inl _ \<Rightarrow> None | Inr v \<Rightarrow> Some v))"

definition candidate :: "queue_env \<Rightarrow> sift_config \<Rightarrow> server \<Rightarrow> nat \<Rightarrow> (nat \<times> bool) option" where
  "candidate env c s t = map_option (\<lambda>v. (t, snd v)) (verdict env c s t)"

lemma set_map_filter: "set (List.map_filter f xs) = {y. \<exists>x\<in>set xs. f x = Some y}"
  by (induction xs) (auto split: option.splits)

lemma resolution_upd [simp]:
  "resolution_of (upd_waiter t f s) u =
     (if u = t then Option.bind (map_option f (waiters s t)) w_resolution else resolution_of s u)"
  by (simp add: resolution_of_def upd_waiter_def)

lemma resolution_upd_same:
  "(\<And>w. w_resolution (f w) = w_resolution w) \<Longrightarrow> resolution_of (upd_waiter t f s) u = resolution_of s u"
  by (cases "waiters s t") (auto simp: resolution_of_def upd_waiter_def)

lemma resolution_restart: "resolution_of (restartModelRequestWaiterTimeout t s) u = resolution_of s u"
  unfolding restartModelRequestWaiterTimeout_def startModelRequestWaiterTimeout_def
  by (simp add: resolution_upd_same del: resolution_upd)

lemma resolution_refresh: "resolution_of (refreshQueuedModelRequestTimeouts s) u = resolution_of s u"
proof -
  have "resolution_of (refresh_waiter t s) u = resolution_of s u" for t s
    by (simp add: refresh_waiter_def Let_def resolution_restart resolution_upd_same
        del: resolution_upd split: option.split)
  then have "resolution_of (fold refresh_waiter ts s) u = resolution_of s u" for ts
    by (induction ts arbitrary: s) simp_all
  then show ?thesis by (simp add: refreshQueuedModelRequestTimeouts_def)
qed

lemma resolution_same_waiters: "waiters s' = waiters s \<Longrightarrow> resolution_of s' u = resolution_of s u"
  by (simp add: resolution_of_def)

lemma resolution_reject: "u \<noteq> t \<Longrightarrow> resolution_of (rejectModelRequestWaiter env t e s) u = resolution_of s u"
  by (auto simp: rejectModelRequestWaiter_def resolution_same_waiters [OF sched_fields(3)] resolution_refresh
      resolution_same_waiters [OF sync_fields(3)] settle_waiter_def leave_queue_def
      clearModelRequestWaiterTimeout_def resolution_same_waiters [OF remove_waiter_fields(3)])

lemma intent_clocks: "clocks_only s s' \<Longrightarrow> intent_of s' t = intent_of s t"
  using clocks_only_NoneD [of s s' t] clocks_only_SomeD [of s s' t]
  by (cases "waiters s t") (auto simp: intent_of_def same_waiter_def)

lemma intent_upd: "(\<And>w. w_intent (f w) = w_intent w) \<Longrightarrow> intent_of (upd_waiter t f s) u = intent_of s u"
  by (cases "waiters s t") (auto simp: intent_of_def upd_waiter_def)

lemma intent_same_waiters: "waiters s' = waiters s \<Longrightarrow> intent_of s' u = intent_of s u"
  by (simp add: intent_of_def)

lemma intent_reject: "intent_of (rejectModelRequestWaiter env t e s) u = intent_of s u"
  by (auto simp: rejectModelRequestWaiter_def intent_same_waiters [OF sched_fields(3)]
      intent_clocks [OF clocks_only_refresh] intent_same_waiters [OF sync_fields(3)]
      settle_waiter_def leave_queue_def clearModelRequestWaiterTimeout_def intent_upd
      intent_same_waiters [OF remove_waiter_fields(3)])

lemma resolve_waiter_cong:
  assumes "coordinator s' = coordinator s" "applied_preset s' = applied_preset s"
  shows "resolve_waiter env s' c i = resolve_waiter env s c i"
  unfolding resolve_waiter_def readAppliedResidencyKey_def resolveModelRequestSelection_def
    resolveModelRequestTarget_def isResidentSelection_def assms by (rule refl)

lemma verdict_cong:
  assumes "coordinator s' = coordinator s" "applied_preset s' = applied_preset s"
    "intent_of s' t = intent_of s t"
  shows "verdict env c s' t = verdict env c s t"
  unfolding verdict_def assms(3) resolve_waiter_cong [OF assms(1,2)] by (rule refl)

lemma queue_reject:
  "server_ok s \<Longrightarrow> queue (rejectModelRequestWaiter env t e s) = filter (\<lambda>u. u \<noteq> t) (queue s)"
proof -
  assume ok: "server_ok s"
  have d: "distinct (queue s)" using server_okD(1) [OF ok] by (auto simp: queue_inv_def intro: sorted_distinct)
  show ?thesis
    using live_in_queue [OF server_okD(1) [OF ok], of t]
    by (cases "live_waiter s t")
      (auto simp: rejectModelRequestWaiter_def queue_leave_eq remove_first_token [OF d]
        intro!: filter_True [symmetric])
qed

lemma queued_waiter:
  "server_ok s \<Longrightarrow> t \<in> set (queue s) \<Longrightarrow> \<exists>w. waiters s t = Some w \<and> \<not> w_cancelled w \<and> w_grantedLock w = None"
  using server_okD(1) [of s] by (fastforce simp: queue_inv_def waiter_ok_def)

text \<open>A pass over the queue rejects exactly the waiters without a verdict, keeps the others in
  arrival order, and leaves each with the selection of its verdict.\<close>

lemma examine_spec:
  assumes "server_ok s" "queue s = pre @ ts"
  shows "fst (examine env c ts s) = List.map_filter (candidate env c s) ts \<and>
     queue (snd (examine env c ts s)) = pre @ map fst (fst (examine env c ts s)) \<and>
     (\<forall>u. u \<notin> set ts \<longrightarrow> resolution_of (snd (examine env c ts s)) u = resolution_of s u) \<and>
     (\<forall>u\<in>fst ` set (fst (examine env c ts s)).
        resolution_of (snd (examine env c ts s)) u = map_option fst (verdict env c s u))"
  using assms
proof (induction ts arbitrary: s pre)
  case (Cons t ts)
  have d: "distinct (queue s)"
    using server_okD(1) [OF Cons.prems(1)] by (auto simp: queue_inv_def intro: sorted_distinct)
  obtain w where w: "waiters s t = Some w" "\<not> w_cancelled w"
    using queued_waiter [OF Cons.prems(1), of t] Cons.prems(2) by auto
  then have i: "intent_of s t = Some (w_intent w)" by (simp add: intent_of_def)
  show ?case
  proof (cases "resolve_waiter env s c (w_intent w)")
    case (Inl e)
    let ?s = "rejectModelRequestWaiter env t e s"
    have v: "verdict env c ?s u = verdict env c s u" for u
      by (rule verdict_cong) (simp_all add: intent_reject)
    then have cd: "candidate env c ?s = candidate env c s" by (simp add: candidate_def fun_eq_iff)
    have "filter (\<lambda>u. u \<noteq> t) pre = pre" "filter (\<lambda>u. u \<noteq> t) ts = ts"
      using d Cons.prems(2) by (auto intro!: filter_True)
    then have q: "queue ?s = pre @ ts" by (simp add: queue_reject [OF Cons.prems(1)] Cons.prems(2))
    have "verdict env c s t = None" using Inl i by (simp add: verdict_def)
    then show ?thesis
      using Cons.IH [OF reject_ok [OF Cons.prems(1)] q] w Inl d Cons.prems(2)
      by (simp add: v cd resolution_reject map_filter_simps candidate_def [of _ _ _ t])
  next
    case (Inr vr)
    obtain sel r where vr: "vr = (sel, r)" by (cases vr)
    let ?s = "upd_waiter t (\<lambda>w. w\<lparr>w_resolution := Some sel\<rparr>) s"
    have v: "verdict env c ?s u = verdict env c s u" for u
      by (rule verdict_cong) (simp_all add: intent_upd)
    then have cd: "candidate env c ?s = candidate env c s" by (simp add: candidate_def fun_eq_iff)
    have vt: "verdict env c s t = Some (sel, r)" using Inr i vr by (simp add: verdict_def)
    have q: "queue ?s = (pre @ [t]) @ ts" by (simp add: Cons.prems(2))
    have ok: "server_ok ?s" by (rule server_ok_clocks [OF clocks_only_resolution Cons.prems(1)])
    have nt: "t \<notin> set ts" using d by (simp add: Cons.prems(2))
    have "resolution_of (snd (examine env c ts ?s)) t = Some sel"
      using Cons.IH [OF ok q] nt w by (simp add: resolution_of_def upd_waiter_def)
    then show ?thesis
      using Cons.IH [OF ok q] w Inr vr nt d Cons.prems(2) vt
      by (simp add: v cd case_prod_beta Let_def map_filter_simps candidate_def [of _ _ _ t])
  qed
qed (simp add: map_filter_simps)

lemma examine_queue:
  assumes ok: "server_ok s" and e: "examine env c (queue s) s = (cands, s1)"
  shows "cands = List.map_filter (candidate env c s) (queue s)"
    and "queue s1 = map fst cands"
    and "\<And>t. t \<in> set (queue s1) \<Longrightarrow> resolution_of s1 t = map_option fst (verdict env c s t)"
    and "\<And>t. t \<in> set (queue s1) \<longleftrightarrow> t \<in> set (queue s) \<and> verdict env c s t \<noteq> None"
proof -
  note sp = examine_spec [OF ok, of "[]" "queue s" env c, simplified e append_Nil fst_conv snd_conv, simplified]
  show c: "cands = List.map_filter (candidate env c s) (queue s)"
    using sp by simp
  show q: "queue s1 = map fst cands" using sp by blast
  show "resolution_of s1 t = map_option fst (verdict env c s t)" if "t \<in> set (queue s1)" for t
    using sp that unfolding q by (auto simp: image_iff)
  show "t \<in> set (queue s1) \<longleftrightarrow> t \<in> set (queue s) \<and> verdict env c s t \<noteq> None" for t
    unfolding q c by (auto simp: set_map_filter candidate_def image_iff)
qed

section \<open>The selection\<close>

lemma sorted_find_first:
  fixes cands :: "(nat \<times> bool) list"
  assumes "sorted_wrt (<) (map fst cands)" "find snd cands = Some (t, r)"
  shows "(t, True) \<in> set cands" "\<And>u. (u, True) \<in> set cands \<Longrightarrow> t \<le> u"
  using assms
proof (induction cands)
  case (Cons a cands)
  case 1
  then show ?case using Cons.IH by (cases a) (auto split: if_splits)
next
  case (Cons a cands)
  case (2 u)
  then show ?case using Cons.IH by (cases a) (auto split: if_splits)
qed simp_all

text \<open>The request a pass selects is the oldest resident one; only with none resident and nothing
  running is it the oldest one.\<close>

lemma selection_order:
  assumes "sorted_wrt (<) (map fst cands)" and sel: "selectNextModelRequest cands n = Some t"
  shows "\<exists>r. (t, r) \<in> set cands \<and>
     (if \<exists>u. (u, True) \<in> set cands
      then r \<and> (\<forall>u. (u, True) \<in> set cands \<longrightarrow> t \<le> u)
      else n = 0 \<and> (\<forall>u\<in>fst ` set cands. t \<le> u))"
proof (cases "find snd cands")
  case (Some c)
  then obtain r where c: "c = (t, r)" using sel by (cases c) (simp add: selectNextModelRequest_def)
  note f = sorted_find_first [OF assms(1) Some [unfolded c]]
  then show ?thesis by (auto intro!: exI [of _ True])
next
  case None
  then obtain r cs where c: "cands = (t, r) # cs" and n: "n = 0"
    using sel by (auto simp: selectNextModelRequest_def split: if_splits list.splits)
  moreover have "\<nexists>u. (u, True) \<in> set cands" using None by (fastforce simp: find_None_iff)
  ultimately show ?thesis using assms(1) by (auto intro!: exI [of _ r] less_imp_le)
qed

lemma selection_exists: "cands \<noteq> [] \<Longrightarrow> \<exists>t. selectNextModelRequest cands 0 = Some t"
  by (auto simp: selectNextModelRequest_def neq_Nil_conv split: option.split)

lemma selection_none: "selectNextModelRequest cands n = None \<Longrightarrow> cands = [] \<or> n > 0"
  by (auto simp: selectNextModelRequest_def split: option.splits if_splits list.splits)

section \<open>No lost wakeups\<close>

definition slots_ok :: "server \<Rightarrow> bool" where
  "slots_ok s \<longleftrightarrow> 0 < mp_ParallelSlots (applied_preset s) \<and>
     (case stored_config s of None \<Rightarrow> False
      | Some c \<Rightarrow> list_all (\<lambda>p. 0 < mp_ParallelSlots p) (cfg_ModelPresets c))"

definition awake :: "server \<Rightarrow> bool" where
  "awake s \<longleftrightarrow> drain s \<noteq> DrainIdle \<and> (drain s = DrainOuter \<longrightarrow> drainRequested s)"

definition wake_inv :: "server \<Rightarrow> bool" where
  "wake_inv s \<longleftrightarrow> queue s = [] \<or> active s \<noteq> [] \<or> awake s \<or> transitions s \<noteq> []"

lemma wake_request: "wake_inv (requestModelRequestDrain s)"
  by (auto simp: wake_inv_def awake_def requestModelRequestDrain_def)

lemma wake_cong:
  "wake_inv s \<Longrightarrow> queue s' = queue s \<Longrightarrow> active s' = active s \<or> active s' \<noteq> [] \<Longrightarrow> drain s' = drain s \<Longrightarrow>
   drainRequested s' = drainRequested s \<Longrightarrow> transitions s' = transitions s \<Longrightarrow> wake_inv s'"
  by (auto simp: wake_inv_def awake_def)

lemma wake_awake: "awake s \<Longrightarrow> wake_inv s"
  by (simp add: wake_inv_def)

text \<open>A profile resolved against a configuration whose profiles all have slots has slots.\<close>

lemma resolved_preset:
  assumes "resolveModelRequestContext c applied intent = Inr r"
  shows "ctx_modelPreset r = applied \<or> ctx_modelPreset r \<in> set (cfg_ModelPresets c)"
proof -
  obtain op p i where ip: "intended_preset c applied (intent_modelPresetId intent) op = Inr p"
    and mm: "match_model c (intent_model intent) p = Inr (ctx_modelPreset r)"
    using resolve_cases [OF assms] by metis
  have f: "find_preset i ps = Some q \<Longrightarrow> q \<in> set ps" for i q ps by (auto simp: find_Some_iff)
  have "p = applied \<or> p \<in> set (cfg_ModelPresets c)"
    using ip by (auto simp: intended_preset_def dest!: f split: option.splits)
  moreover have "ctx_modelPreset r = p \<or> ctx_modelPreset r \<in> set (cfg_ModelPresets c)"
  proof (cases "intent_model intent")
    case (Some n)
    obtain fs where fs: "fs = filter (\<lambda>r. mp_Model r = Some n) (cfg_ModelPresets c)" by simp
    have "(if mp_Model p = Some n then Inr p else case fs of [] \<Rightarrow> Inl (ModelUnmatched n)
        | [r] \<Rightarrow> Inr r | _ \<Rightarrow> Inl (ModelAmbiguous n)) = Inr (ctx_modelPreset r)"
      using mm unfolding match_model_def Some option.case fs .
    then have "ctx_modelPreset r = p \<or> fs = [ctx_modelPreset r]" by (auto split: if_splits list.splits)
    moreover have "set fs \<subseteq> set (cfg_ModelPresets c)" using fs by auto
    ultimately show ?thesis by auto
  qed (use mm in \<open>simp add: match_model_def\<close>)
  ultimately show ?thesis by auto
qed

lemma verdict_slots:
  assumes v: "verdict env c s t = Some (sel, r)" and ok: "slots_ok s" "stored_config s = Some c"
    and n: "coordinator s = None"
  shows "0 < mp_ParallelSlots (ctx_modelPreset (sel_context sel))"
proof -
  obtain i where i: "resolve_waiter env s c i = Inr (sel, r)"
    using v by (auto simp: verdict_def split: option.splits sum.splits)
  then obtain key where "resolveModelRequestSelection env s c key i = Inr sel"
    by (auto simp: resolve_waiter_def)
  then have "resolveModelRequestContext c (applied_preset s) i = Inr (sel_context sel)"
    using n by (auto simp: resolveModelRequestSelection_def resolveModelRequestTarget_def
        split: sum.splits if_splits)
  then show ?thesis
    using resolved_preset ok by (fastforce simp: slots_ok_def list_all_iff)
qed

lemma slots_cong:
  "applied_preset s' = applied_preset s \<Longrightarrow> stored_config s' = stored_config s \<Longrightarrow> slots_ok s' = slots_ok s"
  by (simp add: slots_ok_def)

lemma grant_fields [simp]:
  "drain (grantModelRequestWaiter env t sel s) = drain s"
  "applied_preset (grantModelRequestWaiter env t sel s) = applied_preset s"
  "stored_config (grantModelRequestWaiter env t sel s) = stored_config s"
  "coordinator (grantModelRequestWaiter env t sel s) = coordinator s"
  "transitions (grantModelRequestWaiter env t sel s) = transitions s"
  by (simp_all add: grantModelRequestWaiter_def Let_def split: option.split)

lemma admit_selected_fields [simp]:
  "drain (admit_selected env t sel s) = DrainInner"
  "applied_preset (admit_selected env t sel s) = applied_preset s"
  "stored_config (admit_selected env t sel s) = stored_config s"
  by (auto simp: admit_selected_def Let_def split: option.split)

lemma admit_compatible_slots:
  assumes "admitCompatibleProfileWithoutCoordinator env c sel s = Inr s2" "slots_ok s"
    "0 < mp_ParallelSlots (ctx_modelPreset (sel_context sel))"
  shows "slots_ok s2"
proof -
  have p: "slots_ok (s\<lparr>applied_preset := ctx_modelPreset (sel_context sel),
      stored_config := snd (persistAppliedModelSelection c (ctx_modelPreset (sel_context sel)) (stored_config s))\<rparr>)"
    using assms(2,3) persist_keeps_profiles [of c "ctx_modelPreset (sel_context sel)" "stored_config s"]
    by (cases "persistAppliedModelSelection c (ctx_modelPreset (sel_context sel)) (stored_config s)")
      (auto simp: slots_ok_def split: option.splits)
  show ?thesis
    using assms p by (auto simp: admitCompatibleProfileWithoutCoordinator_def split: if_splits)
qed

text \<open>One pass of the drain, with the selection read off the verdicts of the queue it found.\<close>

lemma advance_cases:
  assumes ok: "server_ok s" and q: "queue s \<noteq> []" "coordinator s \<noteq> Some False" and c: "stored_config s = Some c"
    and e: "examine env c (queue s) s = (cands, s1)"
  shows "int (length (active s)) \<ge> getModelRequestCapacity s \<or>
      selectNextModelRequest cands (length (active s)) = None \<Longrightarrow>
      advanceModelRequestDrain env s = s1\<lparr>drain := DrainOuter\<rparr>"
    and "int (length (active s)) < getModelRequestCapacity s \<Longrightarrow>
      selectNextModelRequest cands (length (active s)) = Some t \<Longrightarrow>
      \<exists>sel r. verdict env c s t = Some (sel, r) \<and> t \<in> set (queue s1) \<and>
        advanceModelRequestDrain env s =
          (if coordinator s \<noteq> None then s1\<lparr>drain := DrainReadying t sel\<rparr>
           else (case admitCompatibleProfileWithoutCoordinator env c sel s1 of
                   Inl e \<Rightarrow> (rejectModelRequestWaiter env t e s1)\<lparr>drain := DrainInner\<rparr>
                 | Inr s2 \<Rightarrow> admit_selected env t sel s2))"
proof -
  note ex = examine_queue [OF ok e]
  have f: "applied_preset s1 = applied_preset s" "active s1 = active s" "coordinator s1 = coordinator s"
    using examine_fields [of env c "queue s" s] e by simp_all
  have adv: "advanceModelRequestDrain env s =
      (if int (length (active s)) \<ge> getModelRequestCapacity s then s1\<lparr>drain := DrainOuter\<rparr>
       else (case selectNextModelRequest cands (length (active s)) of
            None \<Rightarrow> s1\<lparr>drain := DrainOuter\<rparr>
          | Some t \<Rightarrow>
             (case (if t \<in> set (queue s1) then resolution_of s1 t else None) of
                None \<Rightarrow> s1\<lparr>drain := DrainOuter\<rparr>
              | Some sel \<Rightarrow>
                  if coordinator s \<noteq> None then s1\<lparr>drain := DrainReadying t sel\<rparr>
                  else (case admitCompatibleProfileWithoutCoordinator env c sel s1 of
                          Inl e \<Rightarrow> (rejectModelRequestWaiter env t e s1)\<lparr>drain := DrainInner\<rparr>
                        | Inr s2 \<Rightarrow> admit_selected env t sel s2))))"
    using q c unfolding advanceModelRequestDrain_def resolution_of_def getModelRequestCapacity_def
      f [symmetric] by (simp add: e f del: not_None_eq)
  then show "advanceModelRequestDrain env s = s1\<lparr>drain := DrainOuter\<rparr>"
    if "int (length (active s)) \<ge> getModelRequestCapacity s \<or>
      selectNextModelRequest cands (length (active s)) = None" using that by auto
  show "\<exists>sel r. verdict env c s t = Some (sel, r) \<and> t \<in> set (queue s1) \<and>
        advanceModelRequestDrain env s =
          (if coordinator s \<noteq> None then s1\<lparr>drain := DrainReadying t sel\<rparr>
           else (case admitCompatibleProfileWithoutCoordinator env c sel s1 of
                   Inl e \<Rightarrow> (rejectModelRequestWaiter env t e s1)\<lparr>drain := DrainInner\<rparr>
                 | Inr s2 \<Rightarrow> admit_selected env t sel s2))"
    if room: "int (length (active s)) < getModelRequestCapacity s"
      and sel: "selectNextModelRequest cands (length (active s)) = Some t"
  proof -
    have t: "t \<in> set (queue s1)" using select_in_candidates [OF sel] ex(2) by simp
    then obtain sl r where v: "verdict env c s t = Some (sl, r)" using ex(4) by fastforce
    then have "resolution_of s1 t = Some sl" using ex(3) [OF t] by simp
    then show ?thesis using room sel t adv v by auto
  qed
qed

lemma advance_wake:
  assumes ok: "server_ok s" and sl: "slots_ok s"
  shows "wake_inv (advanceModelRequestDrain env s) \<and> slots_ok (advanceModelRequestDrain env s)"
proof (cases "queue s = [] \<or> coordinator s = Some False")
  case True
  then show ?thesis using sl
    by (auto simp: advanceModelRequestDrain_def wake_inv_def awake_def slots_ok_def)
next
  case False
  then have q: "queue s \<noteq> []" "coordinator s \<noteq> Some False" by auto
  obtain c where c: "stored_config s = Some c" using sl by (auto simp: slots_ok_def split: option.splits)
  obtain cands s1 where e: "examine env c (queue s) s = (cands, s1)" by force
  have f: "applied_preset s1 = applied_preset s" "stored_config s1 = stored_config s"
    "active s1 = active s" "coordinator s1 = coordinator s"
    using examine_fields [of env c "queue s" s] e by simp_all
  have sl1: "slots_ok s1" using slots_cong f(1,2) sl by blast
  have pos: "0 < getModelRequestCapacity s" using sl by (simp add: slots_ok_def getModelRequestCapacity_def)
  note adv = advance_cases [OF ok q c e]
  show ?thesis
  proof (cases "int (length (active s)) \<ge> getModelRequestCapacity s \<or>
      selectNextModelRequest cands (length (active s)) = None")
    case True
    then have "cands = [] \<or> active s1 \<noteq> []" using selection_none [of cands "length (active s)"] pos f(3) by auto
    then have "queue s1 = [] \<or> active s1 \<noteq> []" using examine_queue(2) [OF ok e] by auto
    then show ?thesis using adv(1) [OF True] sl1 by (auto simp: wake_inv_def slots_ok_def)
  next
    case False
    then obtain t where room: "int (length (active s)) < getModelRequestCapacity s"
      and sel: "selectNextModelRequest cands (length (active s)) = Some t" by auto
    obtain sl' r where v: "verdict env c s t = Some (sl', r)"
      and a: "advanceModelRequestDrain env s = (if coordinator s \<noteq> None then s1\<lparr>drain := DrainReadying t sl'\<rparr>
           else (case admitCompatibleProfileWithoutCoordinator env c sl' s1 of
                   Inl e \<Rightarrow> (rejectModelRequestWaiter env t e s1)\<lparr>drain := DrainInner\<rparr>
                 | Inr s2 \<Rightarrow> admit_selected env t sl' s2))"
      using adv(2) [OF room sel] by blast
    have s2: "slots_ok s2" if "coordinator s = None" "admitCompatibleProfileWithoutCoordinator env c sl' s1 = Inr s2" for s2
      using admit_compatible_slots [OF that(2) sl1] verdict_slots [OF v sl c] that(1) by simp
    have "slots_ok (advanceModelRequestDrain env s)" unfolding a using s2 sl1
      by (auto simp: slots_ok_def split: sum.splits)
    moreover have "awake (advanceModelRequestDrain env s)" unfolding a
      by (auto simp: awake_def split: sum.splits)
    ultimately show ?thesis by (simp add: wake_awake)
  qed
qed

lemma wake_sched [simp]: "wake_inv (scheduleIdleSummaryIfNeeded env s) = wake_inv s"
  by (simp add: wake_inv_def awake_def)

lemma wake_sync [simp]: "wake_inv (syncInferenceRunFlushQueueModelState f s) = wake_inv s"
  by (simp add: wake_inv_def awake_def)

lemma wake_arm [simp]: "wake_inv (armActivePresetIdle f s) = wake_inv s"
  by (simp add: wake_inv_def awake_def)

lemma wake_upd_lock [simp]: "wake_inv (upd_lock l f s) = wake_inv s"
  by (simp add: wake_inv_def awake_def)

lemma wake_arm_lock [simp]: "wake_inv (armModelRequestInactivityTimeout l d s) = wake_inv s"
  by (simp add: wake_inv_def awake_def)

lemma wake_clear [simp]: "wake_inv (clearModelRequestWaiterTimeout t s) = wake_inv s"
  by (simp add: wake_inv_def awake_def)

lemma wake_cancel: "wake_inv s \<Longrightarrow> wake_inv (cancelModelRequestWaiter env t s)"
  by (simp add: cancelModelRequestWaiter_def wake_request)

lemma wake_release: "wake_inv s \<Longrightarrow> wake_inv (snd (releaseModelRequest env l s))"
proof (cases "map_of (active s) l")
  case (Some k)
  let ?s1 = "syncInferenceRunFlushQueueModelState (Some (now s))
     (s\<lparr>active := filter (\<lambda>e. fst e \<noteq> l) (active s), lastFinishedAt := Some (now s)\<rparr>)"
  have "wake_inv (x\<lparr>transitions := ts @ [t]\<rparr>)" for x ts t by (simp add: wake_inv_def)
  moreover have "wake_inv (if active (requestModelRequestDrain ?s1) = []
      then armActivePresetIdle (now s) (requestModelRequestDrain ?s1) else requestModelRequestDrain ?s1)"
    by (simp add: wake_request)
  ultimately show ?thesis
    unfolding releaseModelRequest_def Some option.case Let_def snd_conv wake_sched wake_sync by simp
qed (simp add: releaseModelRequest_def)

lemma wake_finish: "drain s = DrainOuter \<Longrightarrow> \<not> drainRequested s \<Longrightarrow> wake_inv s \<Longrightarrow> wake_inv (drain_finish s)"
  by (auto simp: drain_finish_def Let_def wake_inv_def awake_def)

lemma cancel_presets [simp]:
  "applied_preset (cancelModelRequestWaiter env t s) = applied_preset s"
  "stored_config (cancelModelRequestWaiter env t s) = stored_config s"
  by (simp_all add: cancelModelRequestWaiter_def)

lemma release_presets [simp]:
  "applied_preset (snd (releaseModelRequest env l s)) = applied_preset s"
  "stored_config (snd (releaseModelRequest env l s)) = stored_config s"
  by (simp_all add: releaseModelRequest_def Let_def split: option.split)

lemma acquire_presets:
  assumes "acquireModelRequestWithWait env kind opts s = Inr (r, s')"
  shows "applied_preset s' = applied_preset s" "stored_config s' = stored_config s"
  using assms by (auto simp: acquireModelRequestWithWait_def Let_def clearIdleSummaryTimer_def
      idle_clear_def startModelRequestWaiterTimeout_def split: if_splits)

lemma acquire_wake:
  assumes "acquireModelRequestWithWait env kind opts s = Inr (r, s')" "wake_inv s"
  shows "wake_inv s'"
  using assms by (auto simp: acquireModelRequestWithWait_def Let_def wake_request split: if_splits)

text \<open>The environment's good behaviour: a transition a released request waited for succeeds, and
  the configuration stays readable, with profiles that have slots.\<close>

fun benign :: "queue_event \<Rightarrow> bool" where
  "benign (TransitionSettled _ ok) = ok"
| "benign (ConfigSaved c) = (case c of None \<Rightarrow> False
     | Some c \<Rightarrow> list_all (\<lambda>p. 0 < mp_ParallelSlots p) (cfg_ModelPresets c))"
| "benign (ProfilePublished p) = (0 < mp_ParallelSlots p)"
| "benign _ = True"

definition live_inv :: "server \<Rightarrow> bool" where
  "live_inv s \<longleftrightarrow> server_ok s \<and> slots_ok s \<and> wake_inv s"

lemma acquire_resumes_live:
  "wake_inv s \<Longrightarrow> wake_inv (snd (acquire_resumes env t aborted gone s))"
  "applied_preset (snd (acquire_resumes env t aborted gone s)) = applied_preset s"
  "stored_config (snd (acquire_resumes env t aborted gone s)) = stored_config s"
  by (auto simp: acquire_resumes_def Let_def wake_cancel wake_release
      split: option.split list.split settlement.split)

lemma drain_step_live:
  assumes "server_ok s" "slots_ok s" "wake_inv s"
  shows "wake_inv (drain_step env s) \<and> slots_ok (drain_step env s)"
proof -
  have r: "server_ok (s\<lparr>drainRequested := False\<rparr>)" "slots_ok (s\<lparr>drainRequested := False\<rparr>)"
    using assms by (simp_all add: server_ok_def slots_ok_def)
  have f: "slots_ok (drain_finish s)" using assms(2) by (simp add: drain_finish_def Let_def slots_ok_def)
  show ?thesis
    using assms advance_wake [OF r, of env] advance_wake [OF assms(1,2), of env] wake_finish f
    by (cases "drain s") (simp_all add: drain_step_def)
qed

lemma live_step:
  assumes "live_inv s" "benign e"
  shows "live_inv (queue_step env e s)"
proof -
  have ok: "server_ok s" and sl: "slots_ok s" and wk: "wake_inv s" using assms(1) by (simp_all add: live_inv_def)
  have sl': "slots_ok s'" if "applied_preset s' = applied_preset s" "stored_config s' = stored_config s" for s'
    using that sl by (simp add: slots_ok_def)
  have same: "wake_inv s' \<and> slots_ok s'"
    if "queue s' = queue s" "active s' = active s" "drain s' = drain s" "drainRequested s' = drainRequested s"
      "transitions s' = transitions s" "applied_preset s' = applied_preset s" "stored_config s' = stored_config s" for s'
    using that wk sl by (simp add: wake_inv_def awake_def slots_ok_def)
  have "wake_inv (queue_step env e s) \<and> slots_ok (queue_step env e s)"
  proof (cases e)
    case (Acquire kind opts)
    show ?thesis
    proof (cases "acquireModelRequestWithWait env kind opts s")
      case (Inr r)
      obtain x s' where r: "r = (x, s')" by (cases r)
      show ?thesis using acquire_wake [OF Inr [unfolded r] wk] acquire_presets [OF Inr [unfolded r]] sl
        by (simp add: Acquire Inr r sl')
    qed (simp add: Acquire wk sl)
  next
    case (AcquireResumes t a g)
    then show ?thesis using acquire_resumes_live wk sl by (simp add: sl')
  next
    case (CancelWait t)
    then show ?thesis using wk by (simp add: wake_cancel sl')
  next
    case (WaiterTimeout t)
    then show ?thesis using wk by (simp add: waiterTimeoutFires_def wake_cancel sl' split: option.split)
  next
    case (Release l)
    then show ?thesis using wk by (simp add: wake_release sl')
  next
    case (Renew l)
    then show ?thesis using wk by (simp add: renewModelRequestActivity_def sl' split: option.split)
  next
    case (InactivityTimer l)
    then show ?thesis using wk
      by (simp add: inactivityTimerFires_def Let_def wake_release sl' split: option.split)
  next
    case (TransitionSettled f b)
    then show ?thesis using wk sl assms(2)
      by (simp add: transitionSettled_def Let_def wake_request sl')
  next
    case DrainStep
    then show ?thesis using drain_step_live [OF ok sl wk] by simp
  next
    case BlockerSettled
    then show ?thesis using wk by (simp add: blocker_settled_def wake_awake awake_def sl')
  next
    case (ReadinessSettled f)
    then show ?thesis using wk
      by (auto simp: readiness_settled_def wake_awake awake_def sl' split: drain_phase.split option.split)
  next
    case IdleTimer
    show ?thesis unfolding IdleTimer
      by (rule same) (simp_all add: idleTimerFires_def Let_def split: option.split)
  next
    case IdleActionSettled
    then show ?thesis using wk by (simp add: idleActionSettles_def sl' wake_request split: nat.split)
  next
    case SummaryTimer
    show ?thesis unfolding SummaryTimer
      by (rule same) (simp_all add: idleSummaryFires_def Let_def split: option.split)
  next
    case ResumeAdmission
    then show ?thesis by (simp add: wake_request sl')
  next
    case (ConfigSaved c)
    then show ?thesis using wk sl assms(2) by (auto simp: slots_ok_def wake_inv_def awake_def split: option.splits)
  qed (use wk sl assms(2) in \<open>auto simp: slots_ok_def wake_inv_def awake_def wake_request\<close>)
  then show ?thesis using queue_step_ok [OF ok] by (simp add: live_inv_def)
qed

lemma live_run: "list_all benign es \<Longrightarrow> live_inv s \<Longrightarrow> live_inv (run_events (queue_step env) es s)"
  by (induction es arbitrary: s) (auto simp: live_step)

section \<open>Silent holders\<close>

text \<open>Every holder has a timer due no later than one inactivity window after its last activity.\<close>

definition due_inv :: "queue_env \<Rightarrow> server \<Rightarrow> bool" where
  "due_inv env s \<longleftrightarrow> list_all (\<lambda>(l, k). \<exists>d. lock_inactivityTimer k = Some d \<and>
     d \<le> lock_lastActivityAt k + env_inactivityTimeoutMs env \<and> lock_lastActivityAt k \<le> now s) (active s)"

lemma due_same: "due_inv env s \<Longrightarrow> active s' = active s \<Longrightarrow> now s' \<ge> now s \<Longrightarrow> due_inv env s'"
  by (fastforce simp: due_inv_def list_all_iff)

lemma due_cong [simp]:
  "due_inv env (scheduleIdleSummaryIfNeeded env' s) = due_inv env s"
  "due_inv env (syncInferenceRunFlushQueueModelState f s) = due_inv env s"
  "due_inv env (requestModelRequestDrain s) = due_inv env s"
  "due_inv env (armActivePresetIdle f' s) = due_inv env s"
  "due_inv env (refreshQueuedModelRequestTimeouts s) = due_inv env s"
  "due_inv env (clearModelRequestWaiterTimeout t s) = due_inv env s"
  "due_inv env (settle_waiter t r s) = due_inv env s"
  "due_inv env (removeModelRequestWaiter t s) = due_inv env s"
  "due_inv env (upd_waiter t g s) = due_inv env s"
  "due_inv env (leave_queue t s) = due_inv env s"
  "due_inv env (fold restartModelRequestWaiterTimeout ts s) = due_inv env s"
  "due_inv env (s\<lparr>transitions := x\<rparr>) = due_inv env s"
  "due_inv env (s\<lparr>drain := d\<rparr>) = due_inv env s"
  "due_inv env (s\<lparr>drainRequested := b\<rparr>) = due_inv env s"
  "due_inv env (s\<lparr>nextToken := n\<rparr>) = due_inv env s"
  by (simp_all add: due_inv_def)

lemma due_cancel [simp]: "due_inv env (cancelModelRequestWaiter env' t s) = due_inv env s"
  by (simp add: cancelModelRequestWaiter_def)

lemma due_reject [simp]: "due_inv env (rejectModelRequestWaiter env' t r s) = due_inv env s"
  by (simp add: rejectModelRequestWaiter_def)

lemma due_release: "due_inv env s \<Longrightarrow> due_inv env (snd (releaseModelRequest env' l s))"
proof -
  assume "due_inv env s"
  then have "due_inv env (s\<lparr>active := filter (\<lambda>e. fst e \<noteq> l) (active s), lastFinishedAt := x\<rparr>)" for x
    by (auto simp: due_inv_def list_all_iff)
  moreover have "due_inv env (s\<lparr>active := [], lastFinishedAt := x\<rparr>)" for x by (simp add: due_inv_def)
  ultimately show ?thesis using \<open>due_inv env s\<close>
    by (simp add: releaseModelRequest_def Let_def split: option.split)
qed

lemma due_grant:
  assumes "due_inv env s" "active_inv (active s) (nextToken s)"
  shows "due_inv env (grantModelRequestWaiter env t sel s)"
proof -
  have "due_inv env (registerActiveModelRequest env (nextToken s) (createModelRequestLock kind owner sel s) s')"
    if "active s' = active s" "now s' = now s" for s' kind owner
    using assms that
    by (fastforce simp: due_inv_def list_all_iff registerActiveModelRequest_def createModelRequestLock_def
        armModelRequestInactivityTimeout_def upd_lock_def active_inv_def split: if_split_asm)
  then show ?thesis using assms(1)
    by (simp add: grantModelRequestWaiter_def Let_def split: option.split)
qed

lemma due_examine: "due_inv env (snd (examine env' c ts s)) = due_inv env s"
  by (induction ts arbitrary: s) (simp_all add: case_prod_beta Let_def split: option.split sum.split)

lemma due_admit: "due_inv env s \<Longrightarrow> active_inv (active s) (nextToken s) \<Longrightarrow> due_inv env (admit_selected env t sel s)"
  using due_grant [of env "s\<lparr>drain := DrainInner\<rparr>" t sel]
  by (simp add: admit_selected_def Let_def split: option.split)

lemma due_finish: "due_inv env (drain_finish s) = due_inv env s"
  by (simp add: drain_finish_def Let_def)

lemma now_examine: "now (snd (examine env c ts s)) = now s"
  by (induction ts arbitrary: s)
    (simp_all add: case_prod_beta Let_def rejectModelRequestWaiter_def split: option.split sum.split)

lemma due_advance:
  assumes ok: "server_ok s" and d: "due_inv env s"
  shows "due_inv env (advanceModelRequestDrain env s)"
proof (cases "queue s = [] \<or> coordinator s = Some False \<or> stored_config s = None")
  case True
  then show ?thesis using d by (auto simp: advanceModelRequestDrain_def due_finish split: option.split)
next
  case False
  then have q: "queue s \<noteq> []" "coordinator s \<noteq> Some False" by auto
  from False obtain c where c: "stored_config s = Some c" by auto
  obtain cands s1 where e: "examine env c (queue s) s = (cands, s1)" by force
  have d1: "due_inv env s1" using due_examine [of env env c "queue s" s] d e by simp
  have ok1: "server_ok s1" using examine_ok [OF ok, of env c "queue s"] e by simp
  note adv = advance_cases [OF ok q c e]
  have s2: "due_inv env (admit_selected env t sel s2)"
    if "admitCompatibleProfileWithoutCoordinator env c sel s1 = Inr s2" for t sel s2
  proof (rule due_admit)
    have "now s2 = now s1" using that by (auto simp: admitCompatibleProfileWithoutCoordinator_def split: if_splits)
    then show "due_inv env s2" using due_same [OF d1] admit_compatible_ok(3) [OF ok1 that] by simp
    show "active_inv (active s2) (nextToken s2)"
      using server_okD(2) [OF admit_compatible_ok(1) [OF ok1 that]] .
  qed
  show ?thesis
  proof (cases "int (length (active s)) \<ge> getModelRequestCapacity s \<or>
      selectNextModelRequest cands (length (active s)) = None")
    case True
    then show ?thesis using adv(1) d1 by simp
  next
    case False
    then obtain t where "int (length (active s)) < getModelRequestCapacity s"
      and "selectNextModelRequest cands (length (active s)) = Some t" by auto
    from adv(2) [OF this] d1 s2 show ?thesis by (auto split: sum.split)
  qed
qed

lemma due_timer:
  assumes ok: "active_inv (active s) (nextToken s)" and d: "due_inv env s"
  shows "due_inv env (inactivityTimerFires env l s)"
proof (cases "map_of (active s) l")
  case (Some k)
  have mem: "(l, k) \<in> set (active s)" using Some by (rule map_of_SomeD)
  then have k: "\<exists>d. lock_inactivityTimer k = Some d \<and> d \<le> lock_lastActivityAt k + env_inactivityTimeoutMs env \<and>
      lock_lastActivityAt k \<le> now s"
    using d by (auto simp: due_inv_def list_all_iff)
  have uniq: "k' = k" if "(l, k') \<in> set (active s)" for k'
    using ok that mem by (auto simp: active_inv_def eq_key_imp_eq_value)
  have "due_inv env (armModelRequestInactivityTimeout l
      (env_inactivityTimeoutMs env - (now s - lock_lastActivityAt k)) (upd_lock l (\<lambda>k. k\<lparr>lock_inactivityTimer := None\<rparr>) s))"
    unfolding due_inv_def list_all_iff
  proof safe
    fix a b
    assume "(a, b) \<in> set (active (armModelRequestInactivityTimeout l
      (env_inactivityTimeoutMs env - (now s - lock_lastActivityAt k)) (upd_lock l (\<lambda>k. k\<lparr>lock_inactivityTimer := None\<rparr>) s)))"
    then obtain b1 where b1: "(a, b1) \<in> set (active (upd_lock l (\<lambda>k. k\<lparr>lock_inactivityTimer := None\<rparr>) s))"
        "b = (if a = l then b1\<lparr>lock_inactivityTimer :=
           Some (now s + (env_inactivityTimeoutMs env - (now s - lock_lastActivityAt k)))\<rparr> else b1)"
      using upd_lock_mem unfolding armModelRequestInactivityTimeout_def upd_lock_fields(1) by blast
    obtain b0 where b0: "(a, b0) \<in> set (active s)" "b1 = (if a = l then b0\<lparr>lock_inactivityTimer := None\<rparr> else b0)"
      using upd_lock_mem [OF b1(1)] by blast
    show "\<exists>d. lock_inactivityTimer b = Some d \<and> d \<le> lock_lastActivityAt b + env_inactivityTimeoutMs env \<and>
        lock_lastActivityAt b \<le> now (armModelRequestInactivityTimeout l
          (env_inactivityTimeoutMs env - (now s - lock_lastActivityAt k)) (upd_lock l (\<lambda>k. k\<lparr>lock_inactivityTimer := None\<rparr>) s))"
    proof (cases "a = l")
      case True
      then have "b0 = k" using uniq b0(1) by simp
      then show ?thesis using True b0(2) b1(2) k by auto
    next
      case False
      then show ?thesis using b0 b1(2) d by (auto simp: due_inv_def list_all_iff)
    qed
  qed
  then show ?thesis using Some d due_release [OF d]
    by (simp add: inactivityTimerFires_def Let_def release_ignores_lock_timer split: option.split)
qed (simp add: inactivityTimerFires_def d)

lemma due_renew: "due_inv env s \<Longrightarrow> due_inv env (snd (renewModelRequestActivity l s))"
proof -
  assume d: "due_inv env s"
  have "due_inv env (upd_lock l (\<lambda>k. k\<lparr>lock_lastActivityAt := now s\<rparr>) s)"
    unfolding due_inv_def list_all_iff
  proof safe
    fix a b assume "(a, b) \<in> set (active (upd_lock l (\<lambda>k. k\<lparr>lock_lastActivityAt := now s\<rparr>) s))"
    from upd_lock_mem [OF this] obtain k where "(a, k) \<in> set (active s)"
      "b = (if a = l then k\<lparr>lock_lastActivityAt := now s\<rparr> else k)" by blast
    then show "\<exists>da. lock_inactivityTimer b = Some da \<and> da \<le> lock_lastActivityAt b + env_inactivityTimeoutMs env \<and>
        lock_lastActivityAt b \<le> now (upd_lock l (\<lambda>k. k\<lparr>lock_lastActivityAt := now s\<rparr>) s)"
      using d by (fastforce simp: due_inv_def list_all_iff)
  qed
  then show ?thesis using d by (simp add: renewModelRequestActivity_def split: option.split)
qed

lemma due_acquire:
  assumes a: "acquireModelRequestWithWait env kind opts s = Inr (r, s')" and d: "due_inv env s"
  shows "due_inv env s'"
proof -
  have "active s' = active s" "now s' = now s"
    using a by (auto simp: acquireModelRequestWithWait_def Let_def startModelRequestWaiterTimeout_def
        clearIdleSummaryTimer_def idle_clear_def cancelModelRequestWaiter_def split: if_splits)
  then show ?thesis using due_same [OF d] by simp
qed

lemma due_resumes: "due_inv env s \<Longrightarrow> due_inv env (snd (acquire_resumes env t a g s))"
  by (simp add: acquire_resumes_def Let_def due_release split: option.split list.split settlement.split)

lemma due_step:
  assumes ok: "server_ok s" and d: "due_inv env s"
  shows "due_inv env (queue_step env e s)"
proof -
  have same: "due_inv env s'" if "active s' = active s" "now s' \<ge> now s" for s'
    using due_same [OF d that] .
  show ?thesis
  proof (cases e)
    case (Acquire kind opts)
    show ?thesis
    proof (cases "acquireModelRequestWithWait env kind opts s")
      case (Inr r)
      then show ?thesis using due_acquire [of env kind opts s] d Acquire by (cases r) simp
    qed (simp add: Acquire d)
  next
    case (InactivityTimer l)
    then show ?thesis using due_timer [OF server_okD(2) [OF ok] d] by simp
  next
    case DrainStep
    have "server_ok (s\<lparr>drainRequested := False\<rparr>)" using ok by (simp add: server_ok_def)
    then show ?thesis using d DrainStep due_advance [OF ok d] due_advance [of "s\<lparr>drainRequested := False\<rparr>" env]
      by (simp add: drain_step_def due_finish due_advance [OF ok d] split: drain_phase.split)
  next
    case (ReadinessSettled f)
    then show ?thesis using d server_okD(2) [OF ok]
      by (simp add: readiness_settled_def due_admit split: drain_phase.split option.split)
  next
    case IdleTimer
    show ?thesis unfolding IdleTimer
      by (rule same) (simp_all add: idleTimerFires_def Let_def split: option.split)
  next
    case SummaryTimer
    show ?thesis unfolding SummaryTimer
      by (rule same) (simp_all add: idleSummaryFires_def Let_def split: option.split)
  next
    case (TransitionSettled f b)
    then show ?thesis using d by (simp add: transitionSettled_def Let_def)
  next
    case (CoordinatorIs g)
    show ?thesis unfolding CoordinatorIs by (rule same) simp_all
  next
    case (ProfilePublished p)
    show ?thesis unfolding ProfilePublished by (rule same) simp_all
  next
    case (ConfigSaved c)
    show ?thesis unfolding ConfigSaved by (rule same) simp_all
  next
    case (RunsChanged r p)
    show ?thesis unfolding RunsChanged by (rule same) simp_all
  next
    case (Tick n)
    show ?thesis unfolding Tick by (rule same) simp_all
  next
    case IdleActionSettled
    have "due_inv env (s\<lparr>idleActionsRunning := n\<rparr>)" for n by (rule same) simp_all
    then show ?thesis using d by (simp add: IdleActionSettled idleActionSettles_def split: nat.split)
  qed (use d in \<open>simp_all add: due_release due_renew due_resumes waiterTimeoutFires_def blocker_settled_def
        split: option.split\<close>)
qed

interpretation holders: invariant_machine "queue_step env" "\<lambda>s. server_ok s \<and> due_inv env s"
  by unfold_locales (simp add: queue_step_ok due_step)

lemma initial_due: "due_inv env (initial_server c p co)"
  by (simp add: due_inv_def initial_server_def)

lemma timer_releases_silent:
  assumes inv: "server_ok s" "due_inv env s" and k: "map_of (active s) l = Some k"
    and silent: "now s \<ge> lock_lastActivityAt k + env_inactivityTimeoutMs env"
  shows "map_of (active (inactivityTimerFires env l s)) l = None"
proof -
  obtain d where d: "lock_inactivityTimer k = Some d" "d \<le> lock_lastActivityAt k + env_inactivityTimeoutMs env"
    using inv(2) map_of_SomeD [OF k] by (auto simp: due_inv_def list_all_iff)
  have "inactivityTimerFires env l s = snd (releaseModelRequest env l s)"
    using k d silent by (simp add: inactivityTimerFires_def Let_def release_ignores_lock_timer)
  moreover have "active (snd (releaseModelRequest env l s)) = filter (\<lambda>e. fst e \<noteq> l) (active s)"
    using k by (simp add: releaseModelRequest_def Let_def)
  ultimately show ?thesis by (auto simp: map_of_eq_None_iff)
qed

end
