(* ===== verification/Queue_Properties.thy ===== *)
theory Queue_Properties
  imports Queue_Progress
begin

text \<open>
  The properties of model request admission, and the run that shows what a failed backend
  transition does to a request queued before it.
\<close>

section \<open>Grants\<close>

lemma length_grant:
  "length (active (grantModelRequestWaiter env t sel s)) \<le> Suc (length (active s))"
  by (simp add: grantModelRequestWaiter_def Let_def split: option.split)

lemma active_finish [simp]: "active (drain_finish s) = active s"
  by (simp add: drain_finish_def Let_def)

lemma admit_grows:
  assumes "length (active (admit_selected env t sel s)) > length (active s)"
  shows "int (length (active s)) < getModelRequestCapacity s \<and> coordinator s \<noteq> Some False \<and>
     length (active (admit_selected env t sel s)) = Suc (length (active s)) \<and>
     (\<exists>w. waiters s t = Some w \<and> \<not> w_cancelled w)"
  using assms length_grant [of env t sel "s\<lparr>drain := DrainInner\<rparr>"]
  by (auto simp: admit_selected_def Let_def split: option.splits if_splits)

lemma advance_grows:
  assumes ok: "server_ok s" and g: "length (active (advanceModelRequestDrain env s)) > length (active s)"
  shows "int (length (active s)) < getModelRequestCapacity s \<and> coordinator s \<noteq> Some False \<and>
     length (active (advanceModelRequestDrain env s)) = Suc (length (active s))"
proof -
  have q: "queue s \<noteq> []" "coordinator s \<noteq> Some False"
    using g by (cases "queue s = []"; cases "coordinator s = Some False";
        simp add: advanceModelRequestDrain_def)+
  obtain c where c: "stored_config s = Some c"
    using g q by (cases "stored_config s") (simp_all add: advanceModelRequestDrain_def)
  obtain cands s1 where e: "examine env c (queue s) s = (cands, s1)" by force
  have f: "active s1 = active s" "applied_preset s1 = applied_preset s"
    using examine_fields [of env c "queue s" s] e by simp_all
  have ok1: "server_ok s1" using examine_ok [OF ok, of env c "queue s"] e by simp
  note adv = advance_cases [OF ok q c e]
  show ?thesis
  proof (cases "int (length (active s)) \<ge> getModelRequestCapacity s \<or>
      selectNextModelRequest cands (length (active s)) = None")
    case True
    then show ?thesis using adv(1) g f by simp
  next
    case False
    then obtain t where room: "int (length (active s)) < getModelRequestCapacity s"
      and sel: "selectNextModelRequest cands (length (active s)) = Some t" by auto
    obtain sl where a: "advanceModelRequestDrain env s = (if coordinator s \<noteq> None then s1\<lparr>drain := DrainReadying t sl\<rparr>
           else (case admitCompatibleProfileWithoutCoordinator env c sl s1 of
                   Inl e \<Rightarrow> (rejectModelRequestWaiter env t e s1)\<lparr>drain := DrainInner\<rparr>
                 | Inr s2 \<Rightarrow> admit_selected env t sl s2))"
      using adv(2) [OF room sel] by blast
    then obtain s2 where s2: "admitCompatibleProfileWithoutCoordinator env c sl s1 = Inr s2"
      and a2: "advanceModelRequestDrain env s = admit_selected env t sl s2"
      using g f by (auto split: if_splits sum.splits)
    then show ?thesis
      using admit_grows [of s2 env t sl] g admit_compatible_ok(3) [OF ok1 s2] f room q(2) by simp
  qed
qed

lemma active_sync_sched [simp]:
  "active (cancelModelRequestWaiter env t s) = active s"
  "active (snd (renewModelRequestActivity l s)) = [] \<longleftrightarrow> active s = []"
  by (simp_all add: cancelModelRequestWaiter_def renewModelRequestActivity_def split: option.split)

lemma length_upd_lock [simp]: "length (active (upd_lock l f s)) = length (active s)"
  by (simp add: upd_lock_def)

lemma length_release: "length (active (snd (releaseModelRequest env l s))) \<le> length (active s)"
  by (simp add: releaseModelRequest_def Let_def split: option.split)

lemma step_grows:
  assumes ok: "server_ok s" and g: "length (active (queue_step env e s)) > length (active s)"
  shows "(e = DrainStep \<or> e = ReadinessSettled None) \<and>
     int (length (active s)) < getModelRequestCapacity s \<and> coordinator s \<noteq> Some False \<and>
     length (active (queue_step env e s)) = Suc (length (active s))"
proof (cases e)
  case (Acquire kind opts)
  then show ?thesis using g
    by (auto simp: acquireModelRequestWithWait_def Let_def startModelRequestWaiterTimeout_def
        clearIdleSummaryTimer_def idle_clear_def split: sum.splits if_splits)
next
  case (AcquireResumes t a b)
  have "length (active (snd (acquire_resumes env t a b s))) \<le> length (active s)"
    by (simp add: acquire_resumes_def Let_def length_release split: option.split list.split settlement.split)
  then show ?thesis using g AcquireResumes by simp
next
  case (InactivityTimer l)
  have "length (active (inactivityTimerFires env l s)) \<le> length (active s)"
    by (simp add: inactivityTimerFires_def Let_def armModelRequestInactivityTimeout_def
        order_trans [OF length_release] split: option.split)
  then show ?thesis using g InactivityTimer by simp
next
  case DrainStep
  have "server_ok (s\<lparr>drainRequested := False\<rparr>)" using ok by (simp add: server_ok_def)
  then show ?thesis
    using g DrainStep advance_grows [OF ok, of env] advance_grows [of "s\<lparr>drainRequested := False\<rparr>" env]
    by (auto simp: drain_step_def getModelRequestCapacity_def split: drain_phase.splits if_splits)
next
  case (ReadinessSettled f)
  then show ?thesis using g admit_grows [of s env]
    by (auto simp: readiness_settled_def split: drain_phase.splits option.splits)
next
  case (Release l)
  then show ?thesis using g length_release [of env l s] by simp
next
  case (Renew l)
  then show ?thesis using g by (auto simp: renewModelRequestActivity_def split: option.splits)
next
  case (TransitionSettled f b)
  then show ?thesis using g by (auto simp: transitionSettled_def Let_def split: if_splits)
next
  case IdleTimer
  then show ?thesis using g by (auto simp: idleTimerFires_def Let_def split: option.splits if_splits)
next
  case SummaryTimer
  then show ?thesis using g by (auto simp: idleSummaryFires_def Let_def split: option.splits if_splits)
qed (use g in \<open>auto simp: waiterTimeoutFires_def blocker_settled_def idleActionSettles_def
      split: option.splits nat.splits if_splits\<close>)

section \<open>A stranded request\<close>

definition example_env :: queue_env where
  "example_env = \<lparr>env_residency = (\<lambda>p. Inr (mp_id p)), env_queueTimeoutMs = 900000,
     env_inactivityTimeoutMs = 3600000, env_idleSummaryDelayMs = 600000\<rparr>"

definition web_ui_request :: acquire_options where
  "web_ui_request = \<lparr>ao_queueTimeout = Some NoDeadline, ao_ownerRunId = None,
     ao_intent = \<lparr>intent_presetId = None, intent_model = None, intent_modelPresetId = None\<rparr>,
     ao_aborted = False, ao_abortedMeanwhile = False, ao_clientGone = False\<rparr>"

text \<open>A first request holds the only slot, a second one waits at full capacity and the drain settles;
  then a preset switch is queued, the first request is released, and the switch it starts fails.\<close>

definition failed_switch_run :: "queue_event list" where
  "failed_switch_run = [Acquire ''chat'' web_ui_request, DrainStep, ReadinessSettled None, DrainStep, DrainStep,
     Acquire ''chat'' web_ui_request, DrainStep, DrainStep,
     CoordinatorIs False, Release 1, CoordinatorIs True, TransitionSettled 0 False]"

definition stranded :: "server \<Rightarrow> nat \<Rightarrow> bool" where
  "stranded s t \<longleftrightarrow> queue s = [t] \<and> active s = [] \<and> drain s = DrainIdle \<and> transitions s = [] \<and>
     coordinator s = Some True \<and> idleActionsRunning s = 0 \<and> ic_timer (idle s) = None \<and>
     Option.bind (waiters s t) w_timeoutHandle = None \<and> live_waiter s t"

text \<open>The server's own events: every timer, every continuation, the drain itself, and releases.\<close>

fun internal_event :: "queue_event \<Rightarrow> bool" where
  "internal_event (Acquire _ _) = False"
| "internal_event (AcquireResumes _ _ _) = False"
| "internal_event (CancelWait _) = False"
| "internal_event ResumeAdmission = False"
| "internal_event (CoordinatorIs _) = False"
| "internal_event _ = True"

lemma stranded_cong:
  "stranded s t \<Longrightarrow> queue s' = queue s \<Longrightarrow> active s' = active s \<Longrightarrow> drain s' = drain s \<Longrightarrow>
   transitions s' = transitions s \<Longrightarrow> coordinator s' = coordinator s \<Longrightarrow>
   idleActionsRunning s' = idleActionsRunning s \<Longrightarrow> ic_timer (idle s') = ic_timer (idle s) \<Longrightarrow>
   waiters s' = waiters s \<Longrightarrow> stranded s' t"
  by (simp add: stranded_def live_waiter_def)

lemma stranded_step:
  assumes st: "stranded s t" and ok: "server_ok s" and e: "internal_event e"
  shows "stranded (queue_step env e s) t"
proof (cases e)
  case (WaiterTimeout u)
  have "waiterTimeoutFires env u s = s"
  proof (cases "Option.bind (waiters s u) w_timeoutHandle")
    case (Some d)
    then have "u \<in> set (queue s)"
      using server_okD(1) [OF ok] by (fastforce simp: queue_inv_def waiter_ok_def bind_eq_Some_conv)
    then show ?thesis using st Some by (simp add: stranded_def)
  qed (simp add: waiterTimeoutFires_def)
  then show ?thesis using st WaiterTimeout by simp
next
  case SummaryTimer
  show ?thesis unfolding SummaryTimer
    by (rule stranded_cong [OF st]) (simp_all add: idleSummaryFires_def Let_def split: option.split)
qed (use st e in \<open>auto simp: stranded_def live_waiter_def releaseModelRequest_def renewModelRequestActivity_def
      inactivityTimerFires_def transitionSettled_def drain_step_def blocker_settled_def readiness_settled_def
      idleTimerFires_def idleActionSettles_def\<close>)

lemma stranded_run:
  "list_all internal_event es \<Longrightarrow> stranded s t \<Longrightarrow> server_ok s \<Longrightarrow>
   stranded (run_events (queue_step env) es s) t"
  by (induction es arbitrary: s) (auto simp: stranded_step queue_step_ok)

lemma stranded_example:
  "stranded (run_events (queue_step example_env) failed_switch_run (initial_server example_config preset_a (Some True))) 2"
  by code_simp

lemma advance_readies:
  assumes ok: "server_ok s" and c: "stored_config s = Some c"
    and adv: "drain (advanceModelRequestDrain env s) = DrainReadying t sel"
  obtains cands r where "int (length (active s)) < getModelRequestCapacity s"
    "selectNextModelRequest cands (length (active s)) = Some t" "verdict env c s t = Some (sel, r)"
    "cands = List.map_filter (candidate env c s) (queue s)" "sorted_wrt (<) (map fst cands)"
proof -
  have q: "queue s \<noteq> []" "coordinator s \<noteq> Some False"
    using adv by (cases "queue s = []"; cases "coordinator s = Some False"; simp add: advanceModelRequestDrain_def)+
  obtain cands s1 where e: "examine env c (queue s) s = (cands, s1)" by force
  note ex = examine_queue [OF ok e] and cs = advance_cases [OF ok q c e]
  have "\<not> (int (length (active s)) \<ge> getModelRequestCapacity s \<or>
      selectNextModelRequest cands (length (active s)) = None)"
  proof
    assume "int (length (active s)) \<ge> getModelRequestCapacity s \<or>
      selectNextModelRequest cands (length (active s)) = None"
    from cs(1) [OF this] adv show False by simp
  qed
  then obtain t' where room: "int (length (active s)) < getModelRequestCapacity s"
    and sel: "selectNextModelRequest cands (length (active s)) = Some t'" by auto
  obtain sl r where v: "verdict env c s t' = Some (sl, r)" and
    a: "advanceModelRequestDrain env s = (if coordinator s \<noteq> None then s1\<lparr>drain := DrainReadying t' sl\<rparr>
           else (case admitCompatibleProfileWithoutCoordinator env c sl s1 of
                   Inl e \<Rightarrow> (rejectModelRequestWaiter env t' e s1)\<lparr>drain := DrainInner\<rparr>
                 | Inr s2 \<Rightarrow> admit_selected env t' sl s2))"
    using cs(2) [OF room sel] by blast
  have "coordinator s \<noteq> None" using adv unfolding a by (simp split: sum.splits if_splits)
  then have t: "t' = t" "sl = sel" using adv unfolding a by simp_all
  have "sorted_wrt (<) (map fst cands)"
    using server_okD(1) [OF examine_ok [OF ok, of env c "queue s"]] ex(2) e by (simp add: queue_inv_def)
  then show thesis using that room sel v ex(1) unfolding t by blast
qed

lemma candidate_mem:
  "(u, b) \<in> set (List.map_filter (candidate env c s) q) \<longleftrightarrow> u \<in> set q \<and> (\<exists>x. verdict env c s u = Some (x, b))"
proof -
  have "candidate env c s t = Some (u, b) \<longleftrightarrow> t = u \<and> (\<exists>x. verdict env c s t = Some (x, b))" for t
    by (auto simp: candidate_def)
  then show ?thesis by (auto simp: set_map_filter)
qed

lemma advance_order:
  assumes ok: "server_ok s" and c: "stored_config s = Some c"
    and adv: "drain (advanceModelRequestDrain env s) = DrainReadying t sel"
  shows "t \<in> set (queue s) \<and> int (length (active s)) < mp_ParallelSlots (applied_preset s) \<and>
     (\<exists>r. verdict env c s t = Some (sel, r) \<and>
       (if \<exists>u\<in>set (queue s). \<exists>x. verdict env c s u = Some (x, True)
        then r \<and> (\<forall>u\<in>set (queue s). (\<exists>x. verdict env c s u = Some (x, True)) \<longrightarrow> t \<le> u)
        else active s = [] \<and> (\<forall>u\<in>set (queue s). verdict env c s u \<noteq> None \<longrightarrow> t \<le> u)))"
proof -
  obtain cands r where room: "int (length (active s)) < getModelRequestCapacity s"
    and sel: "selectNextModelRequest cands (length (active s)) = Some t" and v: "verdict env c s t = Some (sel, r)"
    and cd: "cands = List.map_filter (candidate env c s) (queue s)" and srt: "sorted_wrt (<) (map fst cands)"
    by (rule advance_readies [OF ok c adv])
  note mem = candidate_mem [of _ _ env c s "queue s", folded cd]
  have dom: "u \<in> fst ` set cands" if uq: "u \<in> set (queue s)" and uv: "verdict env c s u \<noteq> None" for u
  proof -
    obtain x b where "verdict env c s u = Some (x, b)" using uv by auto
    then have "(u, b) \<in> set cands" using uq unfolding mem by blast
    then show ?thesis by (rule image_eqI [rotated]) simp
  qed
  obtain r' where r': "(t, r') \<in> set cands" and ord: "if \<exists>u. (u, True) \<in> set cands
      then r' \<and> (\<forall>u. (u, True) \<in> set cands \<longrightarrow> t \<le> u)
      else length (active s) = 0 \<and> (\<forall>u\<in>fst ` set cands. t \<le> u)"
    using selection_order [OF srt sel] by blast
  have tq: "t \<in> set (queue s)" and r: "r' = r" using r' v by (simp_all add: mem)
  have "if \<exists>u\<in>set (queue s). \<exists>x. verdict env c s u = Some (x, True)
        then r \<and> (\<forall>u\<in>set (queue s). (\<exists>x. verdict env c s u = Some (x, True)) \<longrightarrow> t \<le> u)
        else active s = [] \<and> (\<forall>u\<in>set (queue s). verdict env c s u \<noteq> None \<longrightarrow> t \<le> u)"
  proof (cases "\<exists>u. (u, True) \<in> set cands")
    case True
    then have h: "\<exists>u\<in>set (queue s). \<exists>x. verdict env c s u = Some (x, True)" unfolding mem by blast
    have "r' \<and> (\<forall>u. (u, True) \<in> set cands \<longrightarrow> t \<le> u)" using ord unfolding if_P [OF True] .
    then show ?thesis unfolding mem if_P [OF h] r by blast
  next
    case False
    then have h: "\<not> (\<exists>u\<in>set (queue s). \<exists>x. verdict env c s u = Some (x, True))" unfolding mem by blast
    have "length (active s) = 0 \<and> (\<forall>u\<in>fst ` set cands. t \<le> u)" using ord unfolding if_not_P [OF False] .
    then show ?thesis unfolding if_not_P [OF h] using dom by blast
  qed
  then show ?thesis using tq room v unfolding getModelRequestCapacity_def by blast
qed

section \<open>Properties\<close>

text \<open>C1. The admission queue is consistent after every history of requests, cancellations, timeouts,
  releases, transitions, saved configurations and clock ticks. Waiting requests stand in arrival
  order; a request is settled at most once, waits exactly until it is, and has a deadline clock
  exactly while it waits and has a deadline; every lock is distinct and watched by an inactivity
  timer; the flush queue's view of the server is current; and neither idle clock runs while a request
  waits or holds the model.\<close>

theorem admission_is_consistent:
  "let s = run_events (queue_step env) es (initial_server c p co) in
     sorted_wrt (<) (queue s) \<and> list_all (live_waiter s) (queue s) \<and>
     (\<forall>t. case waiters s t of None \<Rightarrow> t \<notin> set (queue s)
       | Some w \<Rightarrow> length (w_settled w) \<le> 1 \<and> (t \<in> set (queue s) \<longleftrightarrow> w_settled w = []) \<and>
           (w_timeoutHandle w \<noteq> None \<longleftrightarrow> t \<in> set (queue s) \<and> w_queueTimeout w \<noteq> NoDeadline)) \<and>
     distinct (map fst (active s)) \<and> list_all (\<lambda>(l, k). lock_inactivityTimer k \<noteq> None) (active s) \<and>
     fv_active (flush s) = (active s \<noteq> []) \<and> fv_queueLength (flush s) = length (queue s) \<and>
     (summaryTimer s = None \<and> ic_timer (idle s) = None \<or> active s = [] \<and> queue s = [])"
proof -
  define s where "s = run_events (queue_step env) es (initial_server c p co)"
  have ok: "server_ok s" unfolding s_def by (rule admission.inv_run [OF initial_ok])
  note i = server_okD [OF ok]
  have "case waiters s t of None \<Rightarrow> t \<notin> set (queue s)
       | Some w \<Rightarrow> length (w_settled w) \<le> 1 \<and> (t \<in> set (queue s) \<longleftrightarrow> w_settled w = []) \<and>
           (w_timeoutHandle w \<noteq> None \<longleftrightarrow> t \<in> set (queue s) \<and> w_queueTimeout w \<noteq> NoDeadline)" for t
  proof (cases "waiters s t")
    case None
    then show ?thesis using i(1) by (auto simp: queue_inv_def)
  next
    case (Some w)
    then have "waiter_ok (queue s) (nextToken s) t w" using i(1) by (simp add: queue_inv_def)
    then show ?thesis by (simp only: Some option.case waiter_ok_def simp_thms)
  qed
  moreover have "list_all (live_waiter s) (queue s)"
    using live_in_queue [OF i(1)] by (simp add: list_all_iff)
  moreover have "list_all (\<lambda>(l, k). lock_inactivityTimer k \<noteq> None) (active s)" "distinct (map fst (active s))"
    using i(2) by (auto simp: active_inv_def list_all_iff)
  moreover have "sorted_wrt (<) (queue s)" using i(1) by (simp add: queue_inv_def)
  moreover have "fv_active (flush s) = (active s \<noteq> [])" "fv_queueLength (flush s) = length (queue s)"
    using i(3) by (simp_all add: view_inv_def)
  moreover have "summaryTimer s = None \<and> ic_timer (idle s) = None \<or> active s = [] \<and> queue s = []"
    using i(4,5) by (auto simp: quiet_def)
  ultimately show ?thesis unfolding s_def [symmetric] Let_def by blast
qed

text \<open>C3. Only a drain pass and a settled readiness grant a lock, one at a time, and only while the
  applied profile has a free slot and no preset transition is pending or running.\<close>

theorem grants_respect_capacity:
  assumes "s = run_events (queue_step env) es (initial_server c p co)"
    and "length (active (queue_step env e s)) > length (active s)"
  shows "(e = DrainStep \<or> e = ReadinessSettled None) \<and>
     int (length (active s)) < mp_ParallelSlots (applied_preset s) \<and> coordinator s \<noteq> Some False \<and>
     length (active (queue_step env e s)) = Suc (length (active s))"
  using step_grows [OF _ assms(2)] admission.inv_run [OF initial_ok, of env es c p co] assms(1)
  by (simp add: getModelRequestCapacity_def)

text \<open>Resident-model selection. When a pass starts making a request's profile ready, the request is
  one whose target resolved, a slot was free, and it is the oldest waiting request that shares the
  resident model's identity; only when none does and nothing is running is it the oldest request
  whose target resolves.\<close>

theorem drain_selects_resident_first:
  assumes "s = run_events (queue_step env) es (initial_server c0 p co)"
    and "stored_config s = Some c" and "\<And>t' sel'. drain s \<noteq> DrainReadying t' sel'"
    and "drain (queue_step env DrainStep s) = DrainReadying t sel"
  shows "t \<in> set (queue s) \<and> int (length (active s)) < mp_ParallelSlots (applied_preset s) \<and>
     (\<exists>r. verdict env c s t = Some (sel, r) \<and>
       (if \<exists>u\<in>set (queue s). \<exists>x. verdict env c s u = Some (x, True)
        then r \<and> (\<forall>u\<in>set (queue s). (\<exists>x. verdict env c s u = Some (x, True)) \<longrightarrow> t \<le> u)
        else active s = [] \<and> (\<forall>u\<in>set (queue s). verdict env c s u \<noteq> None \<longrightarrow> t \<le> u)))"
proof -
  have ok: "server_ok s" unfolding assms(1) by (rule admission.inv_run [OF initial_ok])
  define s0 where "s0 = (if drain s = DrainOuter then s\<lparr>drainRequested := False\<rparr> else s)"
  have same: "queue s0 = queue s" "active s0 = active s" "applied_preset s0 = applied_preset s"
    "stored_config s0 = stored_config s" "verdict env c s0 u = verdict env c s u" for u
    by (auto simp: s0_def intro!: verdict_cong intent_same_waiters)
  have ok0: "server_ok s0" using ok by (simp add: s0_def server_ok_def)
  have adv: "drain (advanceModelRequestDrain env s0) = DrainReadying t sel"
    using assms(3,4) by (cases "drain s") (auto simp: drain_step_def s0_def drain_finish_def Let_def split: if_splits)
  have c: "stored_config s0 = Some c" using assms(2) by (simp add: same)
  show ?thesis using advance_order [OF ok0 c adv] unfolding same .
qed

text \<open>C2. No lost wakeups. As long as transitions that released requests wait for succeed, the stored
  configuration stays readable and every profile has a slot, a waiting request always has something
  that will examine the queue again: a lock holder that will release, a drain that is running, or a
  transition that is still to settle.\<close>

theorem no_lost_wakeup:
  assumes "list_all benign es" and "list_all (\<lambda>q. 0 < mp_ParallelSlots q) (p # cfg_ModelPresets c)"
    and "s = run_events (queue_step env) es (initial_server c p co)"
  shows "queue s = [] \<or> active s \<noteq> [] \<or> transitions s \<noteq> [] \<or>
     (case drain s of DrainIdle \<Rightarrow> False | DrainOuter \<Rightarrow> drainRequested s | _ \<Rightarrow> True)"
proof -
  have "live_inv (initial_server c p co)"
    using assms(2) initial_ok by (simp add: live_inv_def slots_ok_def wake_inv_def initial_server_def)
  then have "wake_inv s" unfolding assms(3) using live_run [OF assms(1)] by (simp add: live_inv_def)
  then show ?thesis by (auto simp: wake_inv_def awake_def split: drain_phase.splits)
qed

text \<open>C5. No holder keeps the model in silence: the timer of every lock is due at most one inactivity
  window after the holder's last activity, and from that moment on its firing takes the lock back.\<close>

theorem silent_holder_is_released:
  assumes "s = run_events (queue_step env) es (initial_server c p co)" and "map_of (active s) l = Some k"
  shows "(case lock_inactivityTimer k of None \<Rightarrow> False
      | Some d \<Rightarrow> d \<le> lock_lastActivityAt k + env_inactivityTimeoutMs env) \<and>
     (now s \<ge> lock_lastActivityAt k + env_inactivityTimeoutMs env \<longrightarrow>
        map_of (active (queue_step env (InactivityTimer l) s)) l = None)"
proof -
  have inv: "server_ok s" "due_inv env s"
    using holders.inv_run [of "initial_server c p co" env es] initial_ok initial_due assms(1) by blast+
  have "\<exists>d. lock_inactivityTimer k = Some d \<and> d \<le> lock_lastActivityAt k + env_inactivityTimeoutMs env"
    using inv(2) map_of_SomeD [OF assms(2)] by (auto simp: due_inv_def list_all_iff)
  then show ?thesis using timer_releases_silent [OF inv assms(2)] by auto
qed

text \<open>C9. A failed transition strands the requests queued before it. A request waits at full capacity, a
  preset switch is queued behind the holder, the holder releases and the switch fails: the release
  only logs the failure. Nothing holds the model, nothing is pending and requests could be granted,
  yet the waiting request stays queued through every timer, continuation and release of the server,
  until a client arrives, cancels or saves.\<close>

theorem failed_transition_strands_waiter:
  "stranded (run_events (queue_step example_env) (failed_switch_run @ filter internal_event es)
     (initial_server example_config preset_a (Some True))) 2"
proof -
  let ?s = "run_events (queue_step example_env) failed_switch_run (initial_server example_config preset_a (Some True))"
  have "server_ok ?s" by (rule admission.inv_run [OF initial_ok])
  then show ?thesis
    using stranded_run [OF _ stranded_example, of "filter internal_event es"] by (simp add: list_all_iff)
qed

section \<open>Concrete runs\<close>

definition admit_run :: "queue_event list" where
  "admit_run = [Acquire ''chat'' web_ui_request, DrainStep]"

lemma admit_run_granted:
  "let s = run_events (queue_step example_env) admit_run (initial_server example_config preset_a (Some True)) in
     length (active s) = 0 \<and> length (active (queue_step example_env (ReadinessSettled None) s)) = 1"
  by code_simp

theorem grants_respect_capacity_witness:
  "coordinator (run_events (queue_step example_env) admit_run (initial_server example_config preset_a (Some True)))
     \<noteq> Some False"
  using grants_respect_capacity [OF refl, of example_env admit_run example_config preset_a "Some True"
      "ReadinessSettled None"] admit_run_granted by (simp add: Let_def)

lemma one_waits:
  "let s = run_events (queue_step example_env) [Acquire ''chat'' web_ui_request]
       (initial_server example_config preset_a (Some True)) in
     stored_config s = Some example_config \<and> drain s = DrainOuter \<and> queue s = [0] \<and>
     (case drain (queue_step example_env DrainStep s) of DrainReadying t sel \<Rightarrow> t = 0 | _ \<Rightarrow> False)"
  by code_simp

theorem drain_selects_resident_first_witness:
  "\<exists>v. verdict example_env example_config (run_events (queue_step example_env)
     [Acquire ''chat'' web_ui_request] (initial_server example_config preset_a (Some True))) 0 = Some v"
proof -
  let ?s = "run_events (queue_step example_env) [Acquire ''chat'' web_ui_request]
       (initial_server example_config preset_a (Some True))"
  obtain sel where d: "drain (queue_step example_env DrainStep ?s) = DrainReadying 0 sel"
    using one_waits by (auto simp: Let_def split: drain_phase.splits)
  have "stored_config ?s = Some example_config" "drain ?s \<noteq> DrainReadying t' sel'" for t' sel'
    using one_waits by (simp_all add: Let_def)
  then show ?thesis using drain_selects_resident_first [OF refl _ _ d] by blast
qed

theorem no_lost_wakeup_witness:
  "(case drain (run_events (queue_step example_env) [Acquire ''chat'' web_ui_request]
      (initial_server example_config preset_a (Some True))) of
     DrainIdle \<Rightarrow> False | DrainOuter \<Rightarrow> True | _ \<Rightarrow> True) \<and> list_all benign [Acquire ''chat'' web_ui_request]"
proof -
  let ?s = "run_events (queue_step example_env) [Acquire ''chat'' web_ui_request]
      (initial_server example_config preset_a (Some True))"
  have "list_all (\<lambda>q. 0 < mp_ParallelSlots q) (preset_a # cfg_ModelPresets example_config)"
    by (simp add: example_config_defs)
  then have "queue ?s = [] \<or> active ?s \<noteq> [] \<or> transitions ?s \<noteq> [] \<or>
     (case drain ?s of DrainIdle \<Rightarrow> False | DrainOuter \<Rightarrow> drainRequested ?s | _ \<Rightarrow> True)"
    by (intro no_lost_wakeup [OF _ _ refl]) simp_all
  moreover have "queue ?s = [0]" "drain ?s = DrainOuter" using one_waits by (simp_all add: Let_def)
  ultimately show ?thesis by simp
qed

theorem silent_holder_is_released_witness:
  "\<exists>k. map_of (active (run_events (queue_step example_env) (admit_run @ [ReadinessSettled None])
       (initial_server example_config preset_a (Some True)))) 1 = Some k \<and>
     (case lock_inactivityTimer k of None \<Rightarrow> False | Some d \<Rightarrow> d \<le> lock_lastActivityAt k + env_inactivityTimeoutMs example_env)"
proof -
  let ?s = "run_events (queue_step example_env) (admit_run @ [ReadinessSettled None])
       (initial_server example_config preset_a (Some True))"
  have "map fst (active ?s) = [1]" by code_simp
  then obtain k where k: "map_of (active ?s) 1 = Some k" by (cases "active ?s") auto
  then show ?thesis using conjunct1 [OF silent_holder_is_released [OF refl k]] k by simp
qed

end
