(* ===== verification/Orchestrator_Data.thy ===== *)
theory Orchestrator_Data
  imports Model_Config
begin

text \<open>
  The data of the orchestrator (packages/contracts/src/orchestrator.ts): plans, tasks and checks,
  drift reviews, attempts, the stored run state and its events. The schemas' string formats (minimum
  lengths, UUIDs, time stamps) are not part of the types; identifiers are strings or numbers drawn by
  the store, times are left out.
\<close>

section \<open>Plans\<close>

definition ORCHESTRATOR_MAX_ATTEMPTS :: nat where
  "ORCHESTRATOR_MAX_ATTEMPTS = 2"

datatype child_purpose = Implementation | DriftFix

datatype orch_check =
    CommandCheck string string
  | EvidenceCheck string "string list"

definition expectedExitCode :: "orch_check \<Rightarrow> int" where
  "expectedExitCode c = 0"

record orch_step =
  step_instruction :: string
  step_expectedResult :: string

record orch_task =
  task_id :: string
  task_title :: string
  task_dependsOn :: "string list"
  task_workerPresetId :: string
  task_readPaths :: "string list"
  task_writePaths :: "string list"
  task_steps :: "orch_step list"
  task_verification :: "orch_check list"
  task_acceptance :: "string list"
  task_temporaryPaths :: "string list"

record orch_plan =
  plan_goal :: string
  plan_constraints :: "string list"
  plan_tasks :: "orch_task list"
  plan_finalVerification :: "orch_check list"

section \<open>Reviews\<close>

record code_evidence =
  ev_path :: string
  ev_line :: nat
  ev_snippet :: string

record drift_finding =
  df_id :: string
  df_title :: string
  df_evidence :: "code_evidence list"
  df_fix :: string
  df_affectedPaths :: "string list"
  df_verification :: "orch_check list"

datatype drift_status =
    NotRequired
  | DriftClean
  | DriftActionable "drift_finding list"

record drift_review =
  dr_taskId :: string
  dr_changeDigest :: string
  dr_scopePaths :: "string list"
  dr_resolutions :: "(string \<times> string) list"
  dr_status :: drift_status

definition review_findings :: "drift_review \<Rightarrow> drift_finding list" where
  "review_findings r = (case dr_status r of DriftActionable fs \<Rightarrow> fs | _ \<Rightarrow> [])"

record drift_work =
  dw_taskId :: string
  dw_objective :: string
  dw_changeDigest :: string
  dw_findings :: "drift_finding list"
  dw_allowedPaths :: "string list"
  dw_verification :: "orch_check list"

datatype child_work =
    ImplementationWork string string orch_task
  | DriftWork drift_work

definition work_kind :: "child_work \<Rightarrow> child_purpose" where
  "work_kind w = (case w of ImplementationWork _ _ _ \<Rightarrow> Implementation | DriftWork _ \<Rightarrow> DriftFix)"

datatype task_review =
    ReviewPass "code_evidence list"
  | ReviewFail "(string \<times> nat \<times> string) list"

section \<open>Runs\<close>

datatype orch_phase =
    PreparingPlan | ValidatingPlan | Executing | Verifying | Cleaning | ApprovalRequired
  | Completed | FailedPhase | AbortedPhase | InterruptedPhase

definition isOrchestratorTerminalPhase :: "orch_phase \<Rightarrow> bool" where
  "isOrchestratorTerminalPhase p = (p \<in> {Completed, FailedPhase, AbortedPhase, InterruptedPhase})"

datatype task_status =
    TaskPending | TaskRunning | TaskVerifying | TaskReviewingDrift | TaskCorrectingDrift | TaskRetryPending
  | TaskCompleted | TaskFailed | TaskAborted

definition isOrchestratorOpenTaskStatus :: "task_status \<Rightarrow> bool" where
  "isOrchestratorOpenTaskStatus s =
     (s \<in> {TaskRunning, TaskVerifying, TaskReviewingDrift, TaskCorrectingDrift, TaskRetryPending})"

record check_result =
  cr_check :: orch_check
  cr_executed :: bool
  cr_exitCode :: "int option"
  cr_timedOut :: bool
  cr_output :: string

datatype check_failure = NeverRan string | TimedOut string | WrongExit string "int option" int

text \<open>Why a command check failed; an evidence check is judged by the review.\<close>

definition orchestratorCheckFailure :: "check_result \<Rightarrow> check_failure option" where
  "orchestratorCheckFailure r =
     (case cr_check r of
        EvidenceCheck _ _ \<Rightarrow> None
      | CommandCheck command _ \<Rightarrow>
          if \<not> cr_executed r then Some (NeverRan command)
          else if cr_timedOut r then Some (TimedOut command)
          else if cr_exitCode r \<noteq> Some (expectedExitCode (cr_check r))
               then Some (WrongExit command (cr_exitCode r) (expectedExitCode (cr_check r)))
          else None)"

datatype worker_status = WorkerCompleted | WorkerFailed | WorkerAborted | WorkerApprovalTimeout

record attempt_result =
  ar_taskId :: string
  ar_purpose :: child_purpose
  ar_attempt :: nat
  ar_childRunId :: nat
  ar_workerStatus :: worker_status
  ar_passed :: bool
  ar_checks :: "check_result list"
  ar_changedPaths :: "string list"
  ar_scopeViolations :: "string list"
  ar_changeDigest :: "string option"

datatype attempt_status = AttemptReserved | AttemptRunning | AttemptSettled | AttemptAbandoned

record orch_attempt =
  at_taskId :: string
  at_purpose :: child_purpose
  at_attempt :: nat
  at_childRunId :: nat
  at_work :: child_work
  at_status :: attempt_status
  at_result :: "attempt_result option"

datatype pending_approval =
    ChildApproval nat nat string
  | CheckApproval nat "string option" string string

datatype failure_code =
    FAborted | FInterrupted | FInternalError | FInfrastructureFailed | FBlocked | FCleanupFailed
  | FPlanNotFound | FPlanBlocked | FPlanInvalid | FImplementationFailed | FTaskReviewInvalid
  | FDriftReviewInvalid | FDriftUnresolved | FApprovalDecisionInvalid | FFinalReviewInvalid
  | FFinalVerificationFailed

record orch_failure =
  fl_code :: failure_code
  fl_message :: string
  fl_taskId :: "string option"
  fl_purpose :: "child_purpose option"
  fl_findingIds :: "string list"

record orch_task_state =
  ts_taskId :: string
  ts_status :: task_status
  ts_driftReview :: "drift_review option"
  ts_reviewedDigests :: "string list"

record orch_request =
  rq_submissionId :: string
  rq_repoRoot :: string
  rq_presetId :: string
  rq_approval :: string
  rq_task :: "string option"
  rq_planPath :: "string option"

record orch_run_state =
  rs_runId :: nat
  rs_request :: orch_request
  rs_revision :: nat
  rs_phase :: orch_phase
  rs_planPath :: "string option"
  rs_planHash :: "string option"
  rs_plan :: "orch_plan option"
  rs_tasks :: "orch_task_state list"
  rs_attempts :: "orch_attempt list"
  rs_phaseRunIds :: "nat list"
  rs_approval :: "pending_approval option"
  rs_failure :: "orch_failure option"

record orch_event =
  oe_runId :: nat
  oe_sequence :: nat
  oe_phase :: orch_phase
  oe_message :: string
  oe_taskId :: "string option"
  oe_purpose :: "child_purpose option"
  oe_attempt :: "nat option"
  oe_childRunId :: "nat option"

section \<open>The schedule\<close>

record task_claim =
  tc_taskId :: string
  tc_modelId :: string
  tc_mutating :: bool
  tc_contextTokens :: int

record model_slots =
  ms_modelId :: string
  ms_slots :: int
  ms_used :: nat

datatype task_wait =
    WaitDependencies "string list"
  | WaitWriterSlot
  | WaitModelSlot string

record orch_schedule =
  sc_claims :: "task_claim list"
  sc_models :: "model_slots list"
  sc_writerUsed :: bool
  sc_waits :: "(string \<times> task_wait) list"

end
