(* ===== verification/Orchestrator_Store.thy ===== *)
theory Orchestrator_Store
  imports Orchestrator_Data
begin

text \<open>
  The durable store of orchestrator runs (src/orchestrator/run-store.ts). The three SQL tables are
  partitioned by run: a row per run with its state, the attempts of a run in rowid order, the events of
  a run in the order of their sequence numbers. A method is a transaction: it returns the new store, or an
  error and then the store is as it was. Run and child identifiers, which the code draws with
  randomUUID, come from a counter; the digest of a request is an argument.
\<close>

section \<open>State\<close>

record run_row =
  row_digest :: string
  row_state :: orch_run_state

record orch_store =
  st_runs :: "nat \<Rightarrow> run_row option"
  st_order :: "nat list"
  st_submissions :: "string \<Rightarrow> nat option"
  st_attempts :: "nat \<Rightarrow> orch_attempt list"
  st_events :: "nat \<Rightarrow> orch_event list"
  st_nextId :: nat

definition empty_store :: orch_store where
  "empty_store = \<lparr>st_runs = Map.empty, st_order = [], st_submissions = Map.empty,
     st_attempts = (\<lambda>_. []), st_events = (\<lambda>_. []), st_nextId = 0\<rparr>"

datatype store_error =
    SubmissionReused string
  | UnknownRun nat
  | StaleRevision nat nat
  | RunTerminal orch_phase
  | PlanDropsTask string
  | TaskNotPlanned string
  | AttemptLimit string child_purpose
  | UnknownChild nat
  | AlreadyStarted nat
  | AlreadySettled nat
  | ResultMismatch nat

text \<open>Fields a transition may change; a missing field is None.\<close>

record run_changes =
  ch_phase :: "orch_phase option"
  ch_tasks :: "orch_task_state list option"
  ch_approval :: "pending_approval option option"
  ch_failure :: "orch_failure option option"
  ch_phaseRunIds :: "nat list option"

record event_input =
  ei_message :: string
  ei_taskId :: "string option"
  ei_purpose :: "child_purpose option"
  ei_attempt :: "nat option"
  ei_childRunId :: "nat option"

definition message_only :: "string \<Rightarrow> event_input" where
  "message_only m = \<lparr>ei_message = m, ei_taskId = None, ei_purpose = None, ei_attempt = None, ei_childRunId = None\<rparr>"

section \<open>Reading and appending\<close>

definition read_run :: "orch_store \<Rightarrow> nat \<Rightarrow> store_error + orch_run_state" where
  "read_run s i = (case st_runs s i of
      None \<Rightarrow> Inl (UnknownRun i)
    | Some row \<Rightarrow> Inr ((row_state row)\<lparr>rs_attempts := st_attempts s i\<rparr>))"

definition listActive :: "orch_store \<Rightarrow> store_error + orch_run_state list" where
  "listActive s = map_ok (read_run s)
     (filter (\<lambda>i. case st_runs s i of None \<Rightarrow> False
        | Some row \<Rightarrow> \<not> isOrchestratorTerminalPhase (rs_phase (row_state row))) (st_order s))"

definition last_sequence :: "orch_event list \<Rightarrow> nat" where
  "last_sequence es = fold max (map oe_sequence es) 0"

definition appendEvent :: "orch_run_state \<Rightarrow> event_input \<Rightarrow> orch_store \<Rightarrow> orch_store" where
  "appendEvent r e s =
     (let i = rs_runId r in
      s\<lparr>st_events := (st_events s)(i := st_events s i @
        [\<lparr>oe_runId = i, oe_sequence = last_sequence (st_events s i) + 1, oe_phase = rs_phase r,
          oe_message = ei_message e, oe_taskId = ei_taskId e, oe_purpose = ei_purpose e,
          oe_attempt = ei_attempt e, oe_childRunId = ei_childRunId e\<rparr>])\<rparr>)"

definition readEvents :: "orch_store \<Rightarrow> nat \<Rightarrow> nat \<Rightarrow> orch_event list" where
  "readEvents s i afterSequence = filter (\<lambda>e. oe_sequence e > afterSequence) (st_events s i)"

definition put_row :: "nat \<Rightarrow> run_row \<Rightarrow> orch_store \<Rightarrow> orch_store" where
  "put_row i row s = s\<lparr>st_runs := (st_runs s)(i \<mapsto> row)\<rparr>"

definition create_run :: "(orch_request \<Rightarrow> string) \<Rightarrow> orch_request \<Rightarrow> orch_store \<Rightarrow> store_error + orch_run_state \<times> orch_store" where
  "create_run digest request s =
     (case st_submissions s (rq_submissionId request) of
        Some i \<Rightarrow>
          (case st_runs s i of
             None \<Rightarrow> Inl (UnknownRun i)
           | Some row \<Rightarrow>
               if row_digest row \<noteq> digest request then Inl (SubmissionReused (rq_submissionId request))
               else bind_result (read_run s i) (\<lambda>r. Inr (r, s)))
      | None \<Rightarrow>
          let i = st_nextId s;
              r = \<lparr>rs_runId = i, rs_request = request, rs_revision = 0, rs_phase = PreparingPlan,
                   rs_planPath = None, rs_planHash = None, rs_plan = None, rs_tasks = [], rs_attempts = [],
                   rs_phaseRunIds = [], rs_approval = None, rs_failure = None\<rparr>;
              s1 = put_row i \<lparr>row_digest = digest request, row_state = r\<rparr>
                (s\<lparr>st_nextId := Suc i, st_order := st_order s @ [i],
                   st_submissions := (st_submissions s)(rq_submissionId request \<mapsto> i)\<rparr>);
              s2 = appendEvent r (message_only ''Orchestrator run created.'') s1
          in bind_result (read_run s2 i) (\<lambda>r'. Inr (r', s2)))"

section \<open>Transitions\<close>

definition writeAttempt :: "nat \<Rightarrow> orch_attempt \<Rightarrow> orch_store \<Rightarrow> orch_store" where
  "writeAttempt i a s = s\<lparr>st_attempts := (st_attempts s)(i :=
     map (\<lambda>b. if at_childRunId b = at_childRunId a then a else b) (st_attempts s i))\<rparr>"

definition requireAttempt :: "orch_run_state \<Rightarrow> nat \<Rightarrow> store_error + orch_attempt" where
  "requireAttempt r child =
     (case find (\<lambda>a. at_childRunId a = child) (rs_attempts r) of
        None \<Rightarrow> Inl (UnknownChild child) | Some a \<Rightarrow> Inr a)"

text \<open>A stopped parent leaves nothing looking live: the loop of attempt writes and the task statuses.\<close>

definition abandon_attempts :: "nat \<Rightarrow> orch_attempt list \<Rightarrow> orch_store \<Rightarrow> orch_store" where
  "abandon_attempts i as s = fold (\<lambda>a s.
     if at_status a = AttemptReserved \<or> at_status a = AttemptRunning
     then writeAttempt i (a\<lparr>at_status := AttemptAbandoned\<rparr>) s else s) as s"

definition closeOpenWork :: "nat \<Rightarrow> orch_run_state \<Rightarrow> orch_store \<Rightarrow> orch_run_state \<times> orch_store" where
  "closeOpenWork i r s =
     (r\<lparr>rs_tasks := map (\<lambda>t. if isOrchestratorOpenTaskStatus (ts_status t) then t\<lparr>ts_status := TaskAborted\<rparr> else t)
          (rs_tasks r)\<rparr>,
      abandon_attempts i (rs_attempts r) s)"

type_synonym store_change = "orch_run_state \<Rightarrow> orch_store \<Rightarrow> store_error + orch_run_state \<times> event_input \<times> orch_store"

text \<open>mutate: the revision check, the terminal check, the change, the closing of open work, the new
  revision and the event, in one transaction.\<close>

definition mutate :: "nat \<Rightarrow> nat \<Rightarrow> store_change \<Rightarrow> orch_store \<Rightarrow> store_error + orch_run_state \<times> orch_store" where
  "mutate i revision change s =
     (case st_runs s i of
        None \<Rightarrow> Inl (UnknownRun i)
      | Some row \<Rightarrow>
          bind_result (read_run s i) (\<lambda>current.
            if rs_revision current \<noteq> revision then Inl (StaleRevision revision (rs_revision current))
            else if isOrchestratorTerminalPhase (rs_phase current) then Inl (RunTerminal (rs_phase current))
            else bind_result (change current s) (\<lambda>(stored, event, s1).
              let closing = isOrchestratorTerminalPhase (rs_phase stored) \<and> rs_phase stored \<noteq> Completed;
                  (fields, s2) = (if closing then closeOpenWork i stored s1 else (stored, s1));
                  next_state = fields\<lparr>rs_attempts := [], rs_revision := revision + 1\<rparr>;
                  s3 = appendEvent next_state event (put_row i (row\<lparr>row_state := next_state\<rparr>) s2)
              in bind_result (read_run s3 i) (\<lambda>r. Inr (r, s3)))))"

definition apply_changes :: "run_changes \<Rightarrow> orch_run_state \<Rightarrow> orch_run_state" where
  "apply_changes c r =
     r\<lparr>rs_phase := (case ch_phase c of None \<Rightarrow> rs_phase r | Some p \<Rightarrow> p),
       rs_tasks := (case ch_tasks c of None \<Rightarrow> rs_tasks r | Some t \<Rightarrow> t),
       rs_approval := (case ch_approval c of None \<Rightarrow> rs_approval r | Some a \<Rightarrow> a),
       rs_failure := (case ch_failure c of None \<Rightarrow> rs_failure r | Some f \<Rightarrow> f),
       rs_phaseRunIds := (case ch_phaseRunIds c of None \<Rightarrow> rs_phaseRunIds r | Some p \<Rightarrow> p)\<rparr>"

definition update_run :: "nat \<Rightarrow> nat \<Rightarrow> run_changes \<Rightarrow> event_input \<Rightarrow> orch_store \<Rightarrow> store_error + orch_run_state \<times> orch_store" where
  "update_run i revision changes event =
     mutate i revision (\<lambda>r s. Inr (apply_changes changes r, event, s))"

definition planned_tasks :: "orch_task_state list \<Rightarrow> orch_plan \<Rightarrow> orch_task_state list" where
  "planned_tasks previous plan = map (\<lambda>t. case find (\<lambda>p. ts_taskId p = task_id t) (rev previous) of
       Some p \<Rightarrow> p
     | None \<Rightarrow> \<lparr>ts_taskId = task_id t, ts_status = TaskPending, ts_driftReview = None, ts_reviewedDigests = []\<rparr>)
     (plan_tasks plan)"

definition savePlan ::
  "nat \<Rightarrow> nat \<Rightarrow> orch_plan \<Rightarrow> string \<Rightarrow> string \<Rightarrow> orch_store \<Rightarrow> store_error + orch_run_state \<times> orch_store" where
  "savePlan i revision plan planPath contentHash =
     mutate i revision (\<lambda>r s.
       case find (\<lambda>a. at_taskId a \<notin> task_id ` set (plan_tasks plan)) (rs_attempts r) of
         Some a \<Rightarrow> Inl (PlanDropsTask (at_taskId a))
       | None \<Rightarrow> Inr (r\<lparr>rs_plan := Some plan, rs_planPath := Some planPath, rs_planHash := Some contentHash,
             rs_tasks := planned_tasks (rs_tasks r) plan\<rparr>,
           message_only (''Plan saved: '' @ planPath @ ''.''), s))"

definition attempt_event :: "string \<Rightarrow> orch_attempt \<Rightarrow> event_input" where
  "attempt_event m a = \<lparr>ei_message = m, ei_taskId = Some (at_taskId a), ei_purpose = Some (at_purpose a),
     ei_attempt = Some (at_attempt a), ei_childRunId = Some (at_childRunId a)\<rparr>"

definition attempts_used :: "string \<Rightarrow> child_purpose \<Rightarrow> orch_attempt list \<Rightarrow> nat" where
  "attempts_used t p as = length (filter (\<lambda>a. at_taskId a = t \<and> at_purpose a = p) as)"

definition reserveAttempt ::
  "nat \<Rightarrow> nat \<Rightarrow> string \<Rightarrow> child_work \<Rightarrow> orch_store \<Rightarrow> store_error + orch_attempt \<times> orch_store" where
  "reserveAttempt i revision taskId work s =
     (let purpose = work_kind work; child = st_nextId s in
      bind_result (mutate i revision (\<lambda>r s.
        if \<not> list_ex (\<lambda>t. ts_taskId t = taskId) (rs_tasks r) then Inl (TaskNotPlanned taskId)
        else let used = attempts_used taskId purpose (rs_attempts r) in
          if used \<ge> ORCHESTRATOR_MAX_ATTEMPTS then Inl (AttemptLimit taskId purpose)
          else let a = \<lparr>at_taskId = taskId, at_purpose = purpose, at_attempt = used + 1, at_childRunId = child,
                        at_work = work, at_status = AttemptReserved, at_result = None\<rparr>
            in Inr (r, attempt_event ''Reserved.'' a,
                 s\<lparr>st_attempts := (st_attempts s)(i := st_attempts s i @ [a])\<rparr>))
        (s\<lparr>st_nextId := Suc child\<rparr>))
      (\<lambda>(r, s'). bind_result (requireAttempt r child) (\<lambda>a. Inr (a, s'))))"

definition markAttemptRunning :: "nat \<Rightarrow> nat \<Rightarrow> nat \<Rightarrow> orch_store \<Rightarrow> store_error + orch_run_state \<times> orch_store" where
  "markAttemptRunning i revision child =
     mutate i revision (\<lambda>r s. bind_result (requireAttempt r child) (\<lambda>a.
       if at_status a \<noteq> AttemptReserved then Inl (AlreadyStarted child)
       else Inr (r, attempt_event ''Started.'' a, writeAttempt i (a\<lparr>at_status := AttemptRunning\<rparr>) s)))"

definition recordAttemptResult :: "nat \<Rightarrow> nat \<Rightarrow> attempt_result \<Rightarrow> orch_store \<Rightarrow> store_error + orch_run_state \<times> orch_store" where
  "recordAttemptResult i revision result =
     mutate i revision (\<lambda>r s. bind_result (requireAttempt r (ar_childRunId result)) (\<lambda>a.
       if at_status a = AttemptSettled then Inl (AlreadySettled (ar_childRunId result))
       else if at_taskId a \<noteq> ar_taskId result \<or> at_purpose a \<noteq> ar_purpose result \<or> at_attempt a \<noteq> ar_attempt result
       then Inl (ResultMismatch (ar_childRunId result))
       else Inr (r, attempt_event (if ar_passed result then ''Settled: passed.'' else ''Settled: failed.'') a,
              writeAttempt i (a\<lparr>at_status := AttemptSettled, at_result := Some result\<rparr>) s)))"

definition no_changes :: run_changes where
  "no_changes = \<lparr>ch_phase = None, ch_tasks = None, ch_approval = None, ch_failure = None, ch_phaseRunIds = None\<rparr>"

definition markInterrupted :: "nat \<Rightarrow> nat \<Rightarrow> string \<Rightarrow> orch_store \<Rightarrow> store_error + orch_run_state \<times> orch_store" where
  "markInterrupted i revision reason =
     update_run i revision (no_changes\<lparr>ch_phase := Some InterruptedPhase, ch_approval := Some None,
       ch_failure := Some (Some \<lparr>fl_code = FInterrupted, fl_message = reason, fl_taskId = None,
         fl_purpose = None, fl_findingIds = []\<rparr>)\<rparr>) (message_only reason)"

section \<open>The machine\<close>

datatype store_event =
    SCreate orch_request
  | SSavePlan nat nat orch_plan string string
  | SUpdate nat nat run_changes event_input
  | SReserve nat nat string child_work
  | SMarkRunning nat nat nat
  | SRecord nat nat attempt_result
  | SInterrupt nat nat string

definition committed :: "orch_store \<Rightarrow> store_error + 'r \<times> orch_store \<Rightarrow> orch_store" where
  "committed s res = (case res of Inl _ \<Rightarrow> s | Inr (_, s') \<Rightarrow> s')"

fun store_step :: "(orch_request \<Rightarrow> string) \<Rightarrow> store_event \<Rightarrow> orch_store \<Rightarrow> orch_store" where
  "store_step digest (SCreate rq) s = committed s (create_run digest rq s)"
| "store_step digest (SSavePlan i v p path h) s = committed s (savePlan i v p path h s)"
| "store_step digest (SUpdate i v c e) s = committed s (update_run i v c e s)"
| "store_step digest (SReserve i v t w) s = committed s (reserveAttempt i v t w s)"
| "store_step digest (SMarkRunning i v c) s = committed s (markAttemptRunning i v c s)"
| "store_step digest (SRecord i v r) s = committed s (recordAttemptResult i v r s)"
| "store_step digest (SInterrupt i v m) s = committed s (markInterrupted i v m s)"

section \<open>Attempts\<close>

definition same_attempt :: "orch_attempt \<Rightarrow> orch_attempt \<Rightarrow> bool" where
  "same_attempt a b \<longleftrightarrow> at_childRunId a = at_childRunId b \<and> at_taskId a = at_taskId b \<and>
     at_purpose a = at_purpose b \<and> at_attempt a = at_attempt b"

definition settle_result :: "orch_attempt \<Rightarrow> bool" where
  "settle_result a \<longleftrightarrow> (at_status a = AttemptSettled) = (at_result a \<noteq> None)"

text \<open>The attempts of a task for one purpose are numbered from 1 and within the limit.\<close>

definition numbered :: "string \<Rightarrow> child_purpose \<Rightarrow> orch_attempt list \<Rightarrow> bool" where
  "numbered t p as \<longleftrightarrow>
     map at_attempt (filter (\<lambda>a. at_taskId a = t \<and> at_purpose a = p) as) = [1..<attempts_used t p as + 1] \<and>
     attempts_used t p as \<le> ORCHESTRATOR_MAX_ATTEMPTS"

definition attempts_ok :: "orch_attempt list \<Rightarrow> bool" where
  "attempts_ok as \<longleftrightarrow> distinct (map at_childRunId as) \<and> (\<forall>t p. numbered t p as) \<and> list_all settle_result as"

lemma attempts_ok_same:
  assumes "attempts_ok as" and "list_all2 same_attempt as bs" and "list_all settle_result bs"
  shows "attempts_ok bs"
proof -
  have child: "map at_childRunId bs = map at_childRunId as"
    using assms(2) by (induction rule: list_all2_induct) (auto simp: same_attempt_def)
  have "map at_attempt (filter (\<lambda>a. at_taskId a = t \<and> at_purpose a = p) bs) =
      map at_attempt (filter (\<lambda>a. at_taskId a = t \<and> at_purpose a = p) as) \<and>
      attempts_used t p bs = attempts_used t p as" for t p
    using assms(2) by (induction rule: list_all2_induct) (auto simp: same_attempt_def attempts_used_def)
  then have "numbered t p bs = numbered t p as" for t p by (simp only: numbered_def)
  then show ?thesis using assms(1,3) child by (simp add: attempts_ok_def)
qed

definition replace_attempt :: "orch_attempt \<Rightarrow> orch_attempt list \<Rightarrow> orch_attempt list" where
  "replace_attempt a as = map (\<lambda>b. if at_childRunId b = at_childRunId a then a else b) as"

lemma attempts_ok_replace:
  assumes ok: "attempts_ok as" and mem: "a \<in> set as" and same: "same_attempt a a'" and r: "settle_result a'"
  shows "attempts_ok (replace_attempt a' as)"
proof (rule attempts_ok_same [OF ok])
  have inj: "inj_on at_childRunId (set as)" using ok by (simp add: attempts_ok_def distinct_map)
  have "same_attempt b (if at_childRunId b = at_childRunId a' then a' else b)" if "b \<in> set as" for b
    using that mem same inj by (auto simp: same_attempt_def inj_on_def)
  then show "list_all2 same_attempt as (replace_attempt a' as)"
    by (simp add: replace_attempt_def list_all2_conv_all_nth)
  show "list_all settle_result (replace_attempt a' as)"
    using ok r by (auto simp: replace_attempt_def attempts_ok_def list_all_iff settle_result_def)
qed

lemma attempts_ok_snoc:
  assumes ok: "attempts_ok as" and new: "at_childRunId a \<notin> at_childRunId ` set as"
    and no: "at_attempt a = attempts_used (at_taskId a) (at_purpose a) as + 1"
      "attempts_used (at_taskId a) (at_purpose a) as < ORCHESTRATOR_MAX_ATTEMPTS" and r: "settle_result a"
  shows "attempts_ok (as @ [a])"
proof -
  have "numbered t p (as @ [a])" for t p
  proof (cases "at_taskId a = t \<and> at_purpose a = p")
    case True
    then have "attempts_used t p (as @ [a]) = Suc (attempts_used t p as)" by (simp add: attempts_used_def)
    then show ?thesis using True ok no unfolding attempts_ok_def numbered_def by simp
  next
    case False
    then have "attempts_used t p (as @ [a]) = attempts_used t p as" by (auto simp: attempts_used_def)
    then show ?thesis using False ok unfolding attempts_ok_def numbered_def by auto
  qed
  then show ?thesis using ok new r by (simp add: attempts_ok_def)
qed

definition close_attempt :: "orch_attempt \<Rightarrow> orch_attempt" where
  "close_attempt a = (if at_status a = AttemptReserved \<or> at_status a = AttemptRunning
     then a\<lparr>at_status := AttemptAbandoned\<rparr> else a)"

lemma close_attempt_id [simp]: "at_childRunId (close_attempt a) = at_childRunId a"
  by (simp add: close_attempt_def)

lemma writeAttempt_replace:
  "writeAttempt i a s = s\<lparr>st_attempts := (st_attempts s)(i := replace_attempt a (st_attempts s i))\<rparr>"
  by (simp add: writeAttempt_def replace_attempt_def)

lemma replace_absent: "at_childRunId a \<notin> at_childRunId ` set xs \<Longrightarrow> replace_attempt a xs = xs"
  by (induction xs) (auto simp: replace_attempt_def)

lemma replace_append: "replace_attempt a (xs @ ys) = replace_attempt a xs @ replace_attempt a ys"
  by (simp add: replace_attempt_def)

lemma replace_close:
  assumes "distinct (map at_childRunId (pre @ a # suf))"
  shows "replace_attempt (close_attempt a) (map close_attempt pre @ a # suf) =
    map close_attempt pre @ close_attempt a # suf"
proof -
  have "at_childRunId (close_attempt a) \<notin> at_childRunId ` set suf" using assms by simp
  then have "replace_attempt (close_attempt a) suf = suf" by (rule replace_absent)
  moreover have "at_childRunId (close_attempt a) \<notin> at_childRunId ` set (map close_attempt pre)"
    using assms by (auto simp: image_image)
  then have "replace_attempt (close_attempt a) (map close_attempt pre) = map close_attempt pre" by (rule replace_absent)
  moreover have "replace_attempt (close_attempt a) (a # suf) = close_attempt a # replace_attempt (close_attempt a) suf"
    by (simp add: replace_attempt_def)
  ultimately show ?thesis by (simp only: replace_append)
qed

lemma abandon_suffix:
  "st_attempts s i = map close_attempt pre @ suf \<Longrightarrow> distinct (map at_childRunId (pre @ suf)) \<Longrightarrow>
     abandon_attempts i suf s = s\<lparr>st_attempts := (st_attempts s)(i := map close_attempt (pre @ suf))\<rparr>"
proof (induction suf arbitrary: pre s)
  case Nil
  then have "(st_attempts s)(i := map close_attempt pre) = st_attempts s" by (simp add: fun_upd_idem)
  then show ?case by (simp add: abandon_attempts_def)
next
  case (Cons a suf)
  let ?s = "s\<lparr>st_attempts := (st_attempts s)(i := map close_attempt (pre @ [a]) @ suf)\<rparr>"
  have "(if at_status a = AttemptReserved \<or> at_status a = AttemptRunning
     then writeAttempt i (a\<lparr>at_status := AttemptAbandoned\<rparr>) s else s) = ?s"
  proof (cases "at_status a = AttemptReserved \<or> at_status a = AttemptRunning")
    case True
    then have "close_attempt a = a\<lparr>at_status := AttemptAbandoned\<rparr>" by (simp add: close_attempt_def)
    then show ?thesis
      using True replace_close [OF Cons.prems(2)] Cons.prems(1)
      by (simp add: writeAttempt_replace)
  next
    case False
    then have "close_attempt a = a" by (auto simp: close_attempt_def)
    then have "(st_attempts s)(i := map close_attempt (pre @ [a]) @ suf) = st_attempts s"
      using Cons.prems(1) by (simp add: fun_upd_idem)
    then show ?thesis using False by simp
  qed
  then have "abandon_attempts i (a # suf) s = abandon_attempts i suf ?s" by (simp add: abandon_attempts_def)
  also have "\<dots> = ?s\<lparr>st_attempts := (st_attempts ?s)(i := map close_attempt ((pre @ [a]) @ suf))\<rparr>" (is "_ = ?t")
  proof (rule Cons.IH)
    show "st_attempts ?s i = map close_attempt (pre @ [a]) @ suf" by simp
    show "distinct (map at_childRunId ((pre @ [a]) @ suf))" using Cons.prems(2) by simp
  qed
  also have "?t = s\<lparr>st_attempts := (st_attempts s)(i := map close_attempt (pre @ a # suf))\<rparr>"
    by (simp add: fun_upd_def cong: if_cong)
  finally show ?case .
qed

lemma abandon_all:
  "attempts_ok (st_attempts s i) \<Longrightarrow>
     abandon_attempts i (st_attempts s i) s =
       s\<lparr>st_attempts := (st_attempts s)(i := map close_attempt (st_attempts s i))\<rparr>"
  using abandon_suffix [of s i "[]" "st_attempts s i"] by (simp add: attempts_ok_def)

lemma attempts_ok_close:
  assumes "attempts_ok as"
  shows "attempts_ok (map close_attempt as)"
proof (rule attempts_ok_same [OF assms])
  show "list_all2 same_attempt as (map close_attempt as)"
    by (simp add: list_all2_conv_all_nth same_attempt_def close_attempt_def)
  show "list_all settle_result (map close_attempt as)"
    using assms by (auto simp: attempts_ok_def list_all_iff settle_result_def close_attempt_def)
qed

section \<open>The invariant of the store\<close>

definition nothing_open :: "orch_run_state \<Rightarrow> orch_attempt list \<Rightarrow> bool" where
  "nothing_open r as \<longleftrightarrow> list_all (\<lambda>t. \<not> isOrchestratorOpenTaskStatus (ts_status t)) (rs_tasks r) \<and>
     list_all (\<lambda>a. at_status a = AttemptSettled \<or> at_status a = AttemptAbandoned) as"

definition stopped :: "orch_phase \<Rightarrow> bool" where
  "stopped p \<longleftrightarrow> isOrchestratorTerminalPhase p \<and> p \<noteq> Completed"

text \<open>The log of a run: numbered from 1 without gaps, one event per revision and one for the creation,
  the last one carrying the phase the run is in.\<close>

definition log_ok :: "orch_run_state \<Rightarrow> orch_event list \<Rightarrow> bool" where
  "log_ok r es \<longleftrightarrow> map oe_sequence es = [1..<length es + 1] \<and> length es = rs_revision r + 1 \<and>
     oe_phase (last es) = rs_phase r \<and> list_all (\<lambda>e. oe_runId e = rs_runId r) es"

definition run_ok :: "nat \<Rightarrow> orch_run_state \<Rightarrow> orch_attempt list \<Rightarrow> orch_event list \<Rightarrow> bool" where
  "run_ok i r as es \<longleftrightarrow> rs_runId r = i \<and> rs_attempts r = [] \<and> log_ok r es \<and> attempts_ok as \<and>
     (stopped (rs_phase r) \<longrightarrow> nothing_open r as)"

definition store_ok :: "orch_store \<Rightarrow> bool" where
  "store_ok s \<longleftrightarrow>
     (\<forall>i row. st_runs s i = Some row \<longrightarrow> i < st_nextId s \<and>
        run_ok i (row_state row) (st_attempts s i) (st_events s i) \<and>
        st_submissions s (rq_submissionId (rs_request (row_state row))) = Some i) \<and>
     (\<forall>i. st_runs s i = None \<longrightarrow> st_attempts s i = [] \<and> st_events s i = []) \<and>
     (\<forall>i. \<forall>a \<in> set (st_attempts s i). at_childRunId a < st_nextId s) \<and>
     (\<forall>x i. st_submissions s x = Some i \<longrightarrow>
        (\<exists>row. st_runs s i = Some row \<and> rq_submissionId (rs_request (row_state row)) = x))"

lemma last_sequence_log: "map oe_sequence es = [1..<length es + 1] \<Longrightarrow> last_sequence es = length es"
proof -
  have "fold max [1..<n + 1] (0::nat) = n" for n
    by (induction n) simp_all
  then show "map oe_sequence es = [1..<length es + 1] \<Longrightarrow> last_sequence es = length es"
    by (simp add: last_sequence_def)
qed

lemma mutate_result:
  assumes "mutate i v ch s = Inr (r, s')"
  obtains row stored ev s1 flds s2 where
    "st_runs s i = Some row" "rs_revision (row_state row) = v"
    "\<not> isOrchestratorTerminalPhase (rs_phase (row_state row))"
    "ch ((row_state row)\<lparr>rs_attempts := st_attempts s i\<rparr>) s = Inr (stored, ev, s1)"
    "(if stopped (rs_phase stored) then closeOpenWork i stored s1 else (stored, s1)) = (flds, s2)"
    "s' = appendEvent (flds\<lparr>rs_attempts := [], rs_revision := v + 1\<rparr>) ev
       (put_row i (row\<lparr>row_state := flds\<lparr>rs_attempts := [], rs_revision := v + 1\<rparr>\<rparr>) s2)"
proof -
  from assms obtain row where row: "st_runs s i = Some row" by (auto simp: mutate_def split: option.splits)
  then have read: "read_run s i = Inr ((row_state row)\<lparr>rs_attempts := st_attempts s i\<rparr>)" by (simp add: read_run_def)
  from assms row read have ok: "rs_revision (row_state row) = v" "\<not> isOrchestratorTerminalPhase (rs_phase (row_state row))"
    by (auto simp: mutate_def split: if_splits)
  with assms row read obtain stored ev s1 where
    ch: "ch ((row_state row)\<lparr>rs_attempts := st_attempts s i\<rparr>) s = Inr (stored, ev, s1)"
    by (auto simp: mutate_def)
  obtain flds s2 where
    cl: "(if stopped (rs_phase stored) then closeOpenWork i stored s1 else (stored, s1)) = (flds, s2)"
    using prod.exhaust by metis
  have "s' = appendEvent (flds\<lparr>rs_attempts := [], rs_revision := v + 1\<rparr>) ev
       (put_row i (row\<lparr>row_state := flds\<lparr>rs_attempts := [], rs_revision := v + 1\<rparr>\<rparr>) s2)"
    using assms row read ok ch cl by (auto simp: mutate_def stopped_def Let_def)
  then show thesis using that row ok ch cl by blast
qed

text \<open>What a change function may do to the store: rewrite the attempts of its run.\<close>

definition change_keeps :: "nat \<Rightarrow> orch_run_state \<Rightarrow> orch_store \<Rightarrow> orch_run_state \<Rightarrow> orch_store \<Rightarrow> bool" where
  "change_keeps i cur s stored s1 \<longleftrightarrow>
     (\<exists>as. s1 = s\<lparr>st_attempts := (st_attempts s)(i := as)\<rparr> \<and> attempts_ok as \<and>
        list_all (\<lambda>a. at_childRunId a < st_nextId s) as \<and>
        (stopped (rs_phase stored) \<longrightarrow> rs_attempts stored = as)) \<and>
     rs_runId stored = rs_runId cur \<and> rs_request stored = rs_request cur"

lemma close_result:
  assumes "closeOpenWork i stored s1 = (flds, s2)" and "rs_attempts stored = st_attempts s1 i"
    and "attempts_ok (st_attempts s1 i)"
  shows "s2 = s1\<lparr>st_attempts := (st_attempts s1)(i := map close_attempt (st_attempts s1 i))\<rparr>"
    and "nothing_open flds (map close_attempt (st_attempts s1 i))"
    and "rs_runId flds = rs_runId stored" "rs_request flds = rs_request stored" "rs_phase flds = rs_phase stored"
proof -
  show "s2 = s1\<lparr>st_attempts := (st_attempts s1)(i := map close_attempt (st_attempts s1 i))\<rparr>"
    using assms abandon_all [of s1 i] by (simp add: closeOpenWork_def)
  have flds: "flds = stored\<lparr>rs_tasks := map (\<lambda>t. if isOrchestratorOpenTaskStatus (ts_status t)
      then t\<lparr>ts_status := TaskAborted\<rparr> else t) (rs_tasks stored)\<rparr>"
    using assms(1) by (simp add: closeOpenWork_def)
  have "at_status (close_attempt a) = AttemptSettled \<or> at_status (close_attempt a) = AttemptAbandoned" for a
    by (cases "at_status a") (simp_all add: close_attempt_def)
  then show "nothing_open flds (map close_attempt (st_attempts s1 i))"
    by (auto simp: flds nothing_open_def list_all_iff isOrchestratorOpenTaskStatus_def)
  show "rs_runId flds = rs_runId stored" "rs_request flds = rs_request stored" "rs_phase flds = rs_phase stored"
    by (simp_all add: flds)
qed

text \<open>The effect of a successful mutation: only its run changes, by one revision and one event.\<close>

definition commit_effect :: "nat \<Rightarrow> orch_store \<Rightarrow> orch_store \<Rightarrow> bool" where
  "commit_effect i s s' \<longleftrightarrow>
     (\<exists>row r as e. st_runs s i = Some row \<and> \<not> isOrchestratorTerminalPhase (rs_phase (row_state row)) \<and>
        st_runs s' = (st_runs s)(i \<mapsto> row\<lparr>row_state := r\<rparr>) \<and>
        st_attempts s' = (st_attempts s)(i := as) \<and>
        st_events s' = (st_events s)(i := st_events s i @ [e]) \<and>
        rs_revision r = Suc (rs_revision (row_state row)) \<and> rs_runId r = i \<and> rs_request r = rs_request (row_state row) \<and>
        rs_attempts r = [] \<and> attempts_ok as \<and> list_all (\<lambda>a. at_childRunId a < st_nextId s) as \<and>
        (stopped (rs_phase r) \<longrightarrow> nothing_open r as) \<and>
        oe_sequence e = last_sequence (st_events s i) + 1 \<and> oe_phase e = rs_phase r \<and> oe_runId e = i) \<and>
     st_order s' = st_order s \<and> st_submissions s' = st_submissions s \<and> st_nextId s' = st_nextId s"

lemma mutate_effect:
  assumes ok: "store_ok s" and m: "mutate i v ch s = Inr (r, s')"
    and keeps: "\<And>cur stored ev s1. st_runs s i \<noteq> None \<Longrightarrow> cur = (row_state (the (st_runs s i)))\<lparr>rs_attempts := st_attempts s i\<rparr> \<Longrightarrow>
      \<not> isOrchestratorTerminalPhase (rs_phase cur) \<Longrightarrow> ch cur s = Inr (stored, ev, s1) \<Longrightarrow> change_keeps i cur s stored s1"
  shows "commit_effect i s s'"
proof -
  obtain row stored ev s1 flds s2 where R:
    "st_runs s i = Some row" "rs_revision (row_state row) = v"
    "\<not> isOrchestratorTerminalPhase (rs_phase (row_state row))"
    "ch ((row_state row)\<lparr>rs_attempts := st_attempts s i\<rparr>) s = Inr (stored, ev, s1)"
    "(if stopped (rs_phase stored) then closeOpenWork i stored s1 else (stored, s1)) = (flds, s2)"
    "s' = appendEvent (flds\<lparr>rs_attempts := [], rs_revision := v + 1\<rparr>) ev
       (put_row i (row\<lparr>row_state := flds\<lparr>rs_attempts := [], rs_revision := v + 1\<rparr>\<rparr>) s2)"
    using mutate_result [OF m] by metis
  have id: "rs_runId (row_state row) = i" using ok R(1) by (simp add: store_ok_def run_ok_def)
  have "change_keeps i ((row_state row)\<lparr>rs_attempts := st_attempts s i\<rparr>) s stored s1"
    by (rule keeps) (use R in auto)
  then obtain as where as: "s1 = s\<lparr>st_attempts := (st_attempts s)(i := as)\<rparr>" "attempts_ok as"
    "list_all (\<lambda>a. at_childRunId a < st_nextId s) as" "stopped (rs_phase stored) \<longrightarrow> rs_attempts stored = as"
    and st: "rs_runId stored = i" "rs_request stored = rs_request (row_state row)"
    using id by (auto simp: change_keeps_def)
  have "\<exists>as'. s2 = s\<lparr>st_attempts := (st_attempts s)(i := as')\<rparr> \<and> attempts_ok as' \<and>
      list_all (\<lambda>a. at_childRunId a < st_nextId s) as' \<and> rs_runId flds = i \<and>
      rs_request flds = rs_request (row_state row) \<and> (stopped (rs_phase flds) \<longrightarrow> nothing_open flds as')"
  proof (cases "stopped (rs_phase stored)")
    case True
    have a1: "st_attempts s1 i = as" by (simp add: as(1))
    note C = close_result [of i stored s1 flds s2, unfolded a1]
    have "closeOpenWork i stored s1 = (flds, s2)" using R(5) True by simp
    note C = C [OF this _ as(2)]
    then show ?thesis using True as st
      by (intro exI [of _ "map close_attempt as"]) (auto simp: attempts_ok_close list_all_iff)
  next
    case False
    then show ?thesis using R(5) as st by auto
  qed
  then obtain as' where s2: "s2 = s\<lparr>st_attempts := (st_attempts s)(i := as')\<rparr>" "attempts_ok as'"
    "list_all (\<lambda>a. at_childRunId a < st_nextId s) as'" "rs_runId flds = i"
    "rs_request flds = rs_request (row_state row)" "stopped (rs_phase flds) \<longrightarrow> nothing_open flds as'" by blast
  let ?r = "flds\<lparr>rs_attempts := [], rs_revision := v + 1\<rparr>"
  let ?e = "\<lparr>oe_runId = i, oe_sequence = last_sequence (st_events s i) + 1, oe_phase = rs_phase flds,
    oe_message = ei_message ev, oe_taskId = ei_taskId ev, oe_purpose = ei_purpose ev,
    oe_attempt = ei_attempt ev, oe_childRunId = ei_childRunId ev\<rparr>"
  have s': "s' = s\<lparr>st_runs := (st_runs s)(i \<mapsto> row\<lparr>row_state := ?r\<rparr>), st_attempts := (st_attempts s)(i := as'),
      st_events := (st_events s)(i := st_events s i @ [?e])\<rparr>"
    using s2(1,4) by (simp add: R(6) appendEvent_def put_row_def Let_def)
  have "stopped (rs_phase ?r) \<longrightarrow> nothing_open ?r as'" using s2(6) by (simp add: nothing_open_def)
  then show ?thesis
    unfolding commit_effect_def using R(1-3) s2
    by (intro conjI exI [of _ row] exI [of _ ?r] exI [of _ as'] exI [of _ ?e]) (simp_all add: s')
qed

lemma store_ok_submission:
  "store_ok s \<Longrightarrow> st_submissions s x = Some i \<Longrightarrow>
     \<exists>row. st_runs s i = Some row \<and> rq_submissionId (rs_request (row_state row)) = x"
  by (simp add: store_ok_def)

lemma commit_ok:
  assumes ok: "store_ok s" and eff: "commit_effect i s s'"
  shows "store_ok s'"
proof -
  obtain row r as e where E: "st_runs s i = Some row" "st_runs s' = (st_runs s)(i \<mapsto> row\<lparr>row_state := r\<rparr>)"
    "st_attempts s' = (st_attempts s)(i := as)" "st_events s' = (st_events s)(i := st_events s i @ [e])"
    "rs_revision r = Suc (rs_revision (row_state row))" "rs_runId r = i" "rs_request r = rs_request (row_state row)"
    "rs_attempts r = []" "attempts_ok as" "list_all (\<lambda>a. at_childRunId a < st_nextId s) as"
    "stopped (rs_phase r) \<longrightarrow> nothing_open r as"
    "oe_sequence e = last_sequence (st_events s i) + 1" "oe_phase e = rs_phase r" "oe_runId e = i"
    and same: "st_submissions s' = st_submissions s" "st_nextId s' = st_nextId s"
    using eff unfolding commit_effect_def by blast
  have old: "i < st_nextId s" "log_ok (row_state row) (st_events s i)" "rs_runId (row_state row) = i"
    "st_submissions s (rq_submissionId (rs_request (row_state row))) = Some i"
    using ok E(1) by (auto simp: store_ok_def run_ok_def)
  have "log_ok r (st_events s i @ [e])"
    using old(2,3) E(5,6,12-14) last_sequence_log [of "st_events s i"] by (simp add: log_ok_def)
  then have new: "run_ok i r as (st_events s i @ [e])" using E(6,8,9,11) by (simp add: run_ok_def)
  have runs: "j < st_nextId s' \<and> run_ok j (row_state row') (st_attempts s' j) (st_events s' j) \<and>
      st_submissions s' (rq_submissionId (rs_request (row_state row'))) = Some j"
    if "st_runs s' j = Some row'" for j row'
  proof (cases "j = i")
    case True
    then show ?thesis using that new old E same by auto
  next
    case False
    then show ?thesis using that ok E same by (simp add: store_ok_def)
  qed
  have empty: "st_attempts s' j = [] \<and> st_events s' j = []" if "st_runs s' j = None" for j
    using that ok E by (auto simp: store_ok_def split: if_splits)
  have kids: "at_childRunId a < st_nextId s'" if "a \<in> set (st_attempts s' j)" for j a
    using that ok E(3,10) same by (auto simp: store_ok_def list_all_iff split: if_splits)
  have subs: "\<exists>row. st_runs s' j = Some row \<and> rq_submissionId (rs_request (row_state row)) = x"
    if "st_submissions s' x = Some j" for x j
  proof -
    have "st_submissions s x = Some j" using that same(1) by simp
    from store_ok_submission [OF ok this]
    obtain row' where "st_runs s j = Some row'" "rq_submissionId (rs_request (row_state row')) = x" by blast
    then show ?thesis using E(1,2,7) by (cases "j = i") auto
  qed
  show ?thesis unfolding store_ok_def using runs empty kids subs by blast
qed

section \<open>Every operation\<close>

lemma store_okD:
  assumes "store_ok s" and "st_runs s i \<noteq> None"
  shows "attempts_ok (st_attempts s i)" and "list_all (\<lambda>a. at_childRunId a < st_nextId s) (st_attempts s i)"
  using assms by (auto simp: store_ok_def run_ok_def list_all_iff)

lemma keeps_same:
  assumes "store_ok s" and "st_runs s i \<noteq> None" and "rs_runId stored = rs_runId cur"
    and "rs_request stored = rs_request cur" and "rs_attempts stored = st_attempts s i"
  shows "change_keeps i cur s stored s"
  using store_okD [OF assms(1,2)] assms(3-5) unfolding change_keeps_def
  by (intro conjI exI [of _ "st_attempts s i"]) simp_all

lemma requireAttempt_Inr:
  "requireAttempt r c = Inr a \<Longrightarrow> a \<in> set (rs_attempts r) \<and> at_childRunId a = c"
  by (auto simp: requireAttempt_def find_Some_iff split: option.splits)

lemma keeps_write:
  assumes ok: "store_ok s" and run: "st_runs s i \<noteq> None" and cur: "rs_attempts cur = st_attempts s i"
    and nt: "\<not> isOrchestratorTerminalPhase (rs_phase cur)" and a: "a \<in> set (rs_attempts cur)"
    and same: "same_attempt a a'" and r: "settle_result a'"
  shows "change_keeps i cur s cur (writeAttempt i a' s)"
proof -
  note D = store_okD [OF ok run]
  have "attempts_ok (replace_attempt a' (st_attempts s i))"
    by (rule attempts_ok_replace [OF D(1) _ same r]) (use a cur in simp)
  moreover have "list_all (\<lambda>a. at_childRunId a < st_nextId s) (replace_attempt a' (st_attempts s i))"
    using D(2) a same cur by (auto simp: replace_attempt_def list_all_iff same_attempt_def)
  ultimately show ?thesis
    unfolding change_keeps_def writeAttempt_replace using nt
    by (intro conjI exI [of _ "replace_attempt a' (st_attempts s i)"]) (simp_all add: stopped_def)
qed

lemma update_effect:
  assumes ok: "store_ok s" and m: "update_run i v c e s = Inr (r, s')"
  shows "commit_effect i s s'"
  by (rule mutate_effect [OF ok m [unfolded update_run_def]])
    (auto intro!: keeps_same [OF ok] simp: apply_changes_def)

lemma savePlan_effect:
  assumes ok: "store_ok s" and m: "savePlan i v p path h s = Inr (r, s')"
  shows "commit_effect i s s'"
  by (rule mutate_effect [OF ok m [unfolded savePlan_def]])
    (auto intro!: keeps_same [OF ok] split: option.splits)

lemma settle_of_unsettled:
  "store_ok s \<Longrightarrow> st_runs s i \<noteq> None \<Longrightarrow> a \<in> set (st_attempts s i) \<Longrightarrow> settle_result a"
  using store_okD(1) [of s i] by (auto simp: attempts_ok_def list_all_iff)

lemma markRunning_effect:
  assumes ok: "store_ok s" and m: "markAttemptRunning i v child s = Inr (r, s')"
  shows "commit_effect i s s'"
proof (rule mutate_effect [OF ok m [unfolded markAttemptRunning_def]])
  fix cur stored ev s1
  assume run: "st_runs s i \<noteq> None" and cur: "cur = row_state (the (st_runs s i))\<lparr>rs_attempts := st_attempts s i\<rparr>"
    and nt: "\<not> isOrchestratorTerminalPhase (rs_phase cur)"
    and ch: "bind_result (requireAttempt cur child) (\<lambda>a. if at_status a \<noteq> AttemptReserved then Inl (AlreadyStarted child)
       else Inr (cur, attempt_event ''Started.'' a, writeAttempt i (a\<lparr>at_status := AttemptRunning\<rparr>) s)) = Inr (stored, ev, s1)"
  then obtain a where req: "requireAttempt cur child = Inr a" and
    rest: "(if at_status a \<noteq> AttemptReserved then Inl (AlreadyStarted child)
       else Inr (cur, attempt_event ''Started.'' a, writeAttempt i (a\<lparr>at_status := AttemptRunning\<rparr>) s)) = Inr (stored, ev, s1)"
    unfolding bind_result_Inr by blast
  have a: "requireAttempt cur child = Inr a" "at_status a = AttemptReserved" "stored = cur"
    "s1 = writeAttempt i (a\<lparr>at_status := AttemptRunning\<rparr>) s"
    using req rest by (simp_all split: if_splits)
  have mem: "a \<in> set (rs_attempts cur)" using requireAttempt_Inr [OF a(1)] by simp
  then have "settle_result a" using settle_of_unsettled [OF ok run, of a] cur by simp
  then have "settle_result (a\<lparr>at_status := AttemptRunning\<rparr>)" using a(2) by (simp add: settle_result_def)
  then show "change_keeps i cur s stored s1"
    unfolding a(3,4) by (intro keeps_write [OF ok run _ nt mem]) (simp_all add: cur same_attempt_def)
qed

lemma record_effect:
  assumes ok: "store_ok s" and m: "recordAttemptResult i v result s = Inr (r, s')"
  shows "commit_effect i s s'"
proof (rule mutate_effect [OF ok m [unfolded recordAttemptResult_def]])
  fix cur stored ev s1
  let ?ev = "\<lambda>a. attempt_event (if ar_passed result then ''Settled: passed.'' else ''Settled: failed.'') a"
  assume run: "st_runs s i \<noteq> None" and cur: "cur = row_state (the (st_runs s i))\<lparr>rs_attempts := st_attempts s i\<rparr>"
    and nt: "\<not> isOrchestratorTerminalPhase (rs_phase cur)"
    and ch: "bind_result (requireAttempt cur (ar_childRunId result)) (\<lambda>a.
       if at_status a = AttemptSettled then Inl (AlreadySettled (ar_childRunId result))
       else if at_taskId a \<noteq> ar_taskId result \<or> at_purpose a \<noteq> ar_purpose result \<or> at_attempt a \<noteq> ar_attempt result
       then Inl (ResultMismatch (ar_childRunId result))
       else Inr (cur, ?ev a, writeAttempt i (a\<lparr>at_status := AttemptSettled, at_result := Some result\<rparr>) s)) = Inr (stored, ev, s1)"
  then obtain a where req: "requireAttempt cur (ar_childRunId result) = Inr a" and
    rest: "(if at_status a = AttemptSettled then Inl (AlreadySettled (ar_childRunId result))
       else if at_taskId a \<noteq> ar_taskId result \<or> at_purpose a \<noteq> ar_purpose result \<or> at_attempt a \<noteq> ar_attempt result
       then Inl (ResultMismatch (ar_childRunId result))
       else Inr (cur, ?ev a, writeAttempt i (a\<lparr>at_status := AttemptSettled, at_result := Some result\<rparr>) s)) = Inr (stored, ev, s1)"
    unfolding bind_result_Inr by blast
  have a: "requireAttempt cur (ar_childRunId result) = Inr a" "stored = cur"
    "s1 = writeAttempt i (a\<lparr>at_status := AttemptSettled, at_result := Some result\<rparr>) s"
    using req rest by (simp_all split: if_splits)
  have mem: "a \<in> set (rs_attempts cur)" using requireAttempt_Inr [OF a(1)] by simp
  show "change_keeps i cur s stored s1"
    unfolding a(2,3) by (intro keeps_write [OF ok run _ nt mem]) (simp_all add: cur same_attempt_def settle_result_def)
qed

lemma next_id_ok: "store_ok s \<Longrightarrow> store_ok (s\<lparr>st_nextId := Suc (st_nextId s)\<rparr>)"
  unfolding store_ok_def by (simp add: less_SucI)

lemma reserve_change:
  assumes ok: "store_ok s" and run: "st_runs s i \<noteq> None" and cur: "rs_attempts cur = st_attempts s i"
    and nt: "\<not> isOrchestratorTerminalPhase (rs_phase cur)" and fresh: "list_all (\<lambda>a. at_childRunId a < child) (st_attempts s i)"
    and lt: "child < st_nextId s" and u: "attempts_used t p (st_attempts s i) < ORCHESTRATOR_MAX_ATTEMPTS"
  shows "change_keeps i cur s cur (s\<lparr>st_attempts := (st_attempts s)(i := st_attempts s i @
     [\<lparr>at_taskId = t, at_purpose = p, at_attempt = attempts_used t p (st_attempts s i) + 1, at_childRunId = child,
       at_work = w, at_status = AttemptReserved, at_result = None\<rparr>])\<rparr>)" (is "change_keeps i cur s cur (s\<lparr>st_attempts := (st_attempts s)(i := _ @ [?a])\<rparr>)")
proof -
  note D = store_okD [OF ok run]
  have "attempts_ok (st_attempts s i @ [?a])"
    by (rule attempts_ok_snoc [OF D(1)]) (use fresh u in \<open>auto simp: list_all_iff settle_result_def\<close>)
  then show ?thesis
    unfolding change_keeps_def using nt D(2) lt
    by (intro conjI exI [of _ "st_attempts s i @ [?a]"]) (simp_all add: stopped_def)
qed

lemma reserve_effect:
  assumes ok: "store_ok s" and m: "reserveAttempt i v t w s = Inr (a, s')"
  shows "commit_effect i (s\<lparr>st_nextId := Suc (st_nextId s)\<rparr>) s'"
proof -
  let ?s = "s\<lparr>st_nextId := Suc (st_nextId s)\<rparr>"
  let ?p = "work_kind w"
  let ?a = "\<lambda>as. \<lparr>at_taskId = t, at_purpose = ?p, at_attempt = attempts_used t ?p as + 1,
    at_childRunId = st_nextId s, at_work = w, at_status = AttemptReserved, at_result = None\<rparr>"
  let ?ch = "\<lambda>r s. if \<not> list_ex (\<lambda>u. ts_taskId u = t) (rs_tasks r) then Inl (TaskNotPlanned t)
    else if attempts_used t ?p (rs_attempts r) \<ge> ORCHESTRATOR_MAX_ATTEMPTS then Inl (AttemptLimit t ?p)
    else Inr (r, attempt_event ''Reserved.'' (?a (rs_attempts r)),
      s\<lparr>st_attempts := (st_attempts s)(i := st_attempts s i @ [?a (rs_attempts r)])\<rparr>)"
  obtain r where m': "mutate i v ?ch ?s = Inr (r, s')"
    using m unfolding reserveAttempt_def Let_def by (auto split: prod.splits)
  have fresh: "list_all (\<lambda>a. at_childRunId a < st_nextId s) (st_attempts ?s i)"
    using ok by (simp add: store_ok_def list_all_iff)
  show ?thesis
  proof (rule mutate_effect [OF next_id_ok [OF ok] m'])
    fix cur stored ev s1
    assume run: "st_runs ?s i \<noteq> None" and cur: "cur = row_state (the (st_runs ?s i))\<lparr>rs_attempts := st_attempts ?s i\<rparr>"
      and nt: "\<not> isOrchestratorTerminalPhase (rs_phase cur)" and ch: "?ch cur ?s = Inr (stored, ev, s1)"
    have at: "rs_attempts cur = st_attempts ?s i" by (simp add: cur)
    from ch have u: "attempts_used t ?p (st_attempts ?s i) < ORCHESTRATOR_MAX_ATTEMPTS" and st: "stored = cur"
      and s1: "s1 = ?s\<lparr>st_attempts := (st_attempts ?s)(i := st_attempts ?s i @ [?a (st_attempts ?s i)])\<rparr>"
      unfolding at by (simp_all split: if_splits)
    show "change_keeps i cur ?s stored s1"
      unfolding st s1 by (rule reserve_change [OF next_id_ok [OF ok] run at nt fresh _ u]) simp
  qed
qed

lemma create_result:
  assumes ok: "store_ok s" and m: "create_run digest rq s = Inr (r, s')"
  shows "s' = s \<and> st_submissions s (rq_submissionId rq) = Some (rs_runId r) \<or>
    st_submissions s (rq_submissionId rq) = None \<and> st_runs s (st_nextId s) = None \<and>
    (\<exists>row e. row_digest row = digest rq \<and> st_runs s' = (st_runs s)(st_nextId s \<mapsto> row) \<and> st_attempts s' = st_attempts s \<and>
      st_events s' = (st_events s)(st_nextId s := [e]) \<and> st_nextId s' = Suc (st_nextId s) \<and>
      st_submissions s' = (st_submissions s)(rq_submissionId rq \<mapsto> st_nextId s) \<and>
      rs_runId r = st_nextId s \<and> rs_runId (row_state row) = st_nextId s \<and> rs_request (row_state row) = rq \<and>
      rs_revision (row_state row) = 0 \<and> rs_phase (row_state row) = PreparingPlan \<and> rs_attempts (row_state row) = [] \<and>
      oe_sequence e = 1 \<and> oe_phase e = PreparingPlan \<and> oe_runId e = st_nextId s)"
proof (cases "st_submissions s (rq_submissionId rq)")
  case (Some i)
  then obtain row where row: "st_runs s i = Some row" using store_ok_submission [OF ok Some] by blast
  then have "rs_runId (row_state row) = i" using ok by (simp add: store_ok_def run_ok_def)
  then show ?thesis using m Some row by (auto simp: create_run_def read_run_def split: if_splits)
next
  case None
  have free: "st_runs s (st_nextId s) = None" using ok by (cases "st_runs s (st_nextId s)") (auto simp: store_ok_def)
  then have "st_attempts s (st_nextId s) = []" "st_events s (st_nextId s) = []" using ok by (simp_all add: store_ok_def)
  then show ?thesis
    using m None free
    by (intro disjI2 conjI exI [of _ "the (st_runs s' (st_nextId s))"] exI [of _ "hd (st_events s' (st_nextId s))"])
      (auto simp: create_run_def Let_def appendEvent_def put_row_def read_run_def last_sequence_def message_only_def)
qed

lemma create_ok:
  assumes ok: "store_ok s" and m: "create_run digest rq s = Inr (r, s')"
  shows "store_ok s'"
  using create_result [OF ok m]
proof (elim disjE conjE exE)
  fix row e
  let ?i = "st_nextId s"
  assume none: "st_submissions s (rq_submissionId rq) = None" "st_runs s ?i = None" and
    E: "st_runs s' = (st_runs s)(?i \<mapsto> row)" "st_attempts s' = st_attempts s"
      "st_events s' = (st_events s)(?i := [e])" "st_nextId s' = Suc ?i"
      "st_submissions s' = (st_submissions s)(rq_submissionId rq \<mapsto> ?i)"
      "rs_runId (row_state row) = ?i" "rs_request (row_state row) = rq"
      "rs_revision (row_state row) = 0" "rs_phase (row_state row) = PreparingPlan" "rs_attempts (row_state row) = []"
      "oe_sequence e = 1" "oe_phase e = PreparingPlan" "oe_runId e = ?i"
  have at: "st_attempts s ?i = []" using ok none(2) by (simp add: store_ok_def)
  have new: "run_ok ?i (row_state row) [] [e]"
    using E by (simp add: run_ok_def log_ok_def attempts_ok_def numbered_def attempts_used_def
        stopped_def isOrchestratorTerminalPhase_def)
  have old: "j < Suc ?i \<and> run_ok j (row_state row') (st_attempts s j) (st_events s j) \<and>
      st_submissions s' (rq_submissionId (rs_request (row_state row'))) = Some j \<and> j \<noteq> ?i"
    if "st_runs s j = Some row'" for j row'
  proof -
    have "j < ?i \<and> run_ok j (row_state row') (st_attempts s j) (st_events s j) \<and>
      st_submissions s (rq_submissionId (rs_request (row_state row'))) = Some j" using ok that by (simp add: store_ok_def)
    then show ?thesis using none(1) E(5) by auto
  qed
  have runs: "j < st_nextId s' \<and> run_ok j (row_state row') (st_attempts s' j) (st_events s' j) \<and>
      st_submissions s' (rq_submissionId (rs_request (row_state row'))) = Some j"
    if "st_runs s' j = Some row'" for j row'
    using that old [of j row'] new at E by (auto split: if_splits)
  have "st_attempts s' j = [] \<and> st_events s' j = []" if "st_runs s' j = None" for j
    using that ok E by (auto simp: store_ok_def split: if_splits)
  moreover have "at_childRunId a < st_nextId s'" if "a \<in> set (st_attempts s' j)" for j a
    using that ok E(2,4) by (auto simp: store_ok_def less_SucI)
  moreover have "\<exists>row. st_runs s' j = Some row \<and> rq_submissionId (rs_request (row_state row)) = x"
    if "st_submissions s' x = Some j" for x j
    using that store_ok_submission [OF ok, of x j] none E by (auto split: if_splits)
  ultimately show ?thesis unfolding store_ok_def using runs by blast
qed (use ok in simp)

lemma committed_cases:
  "P (committed s res)" if "P s" "\<And>r s'. res = Inr (r, s') \<Longrightarrow> P s'"
  using that by (auto simp: committed_def split: sum.splits)

lemma store_step_cases:
  assumes ok: "store_ok s"
  obtains "store_step digest ev s = s"
  | rq r where "create_run digest rq s = Inr (r, store_step digest ev s)"
  | i where "commit_effect i s (store_step digest ev s)"
  | i where "commit_effect i (s\<lparr>st_nextId := Suc (st_nextId s)\<rparr>) (store_step digest ev s)"
proof (cases ev)
  case (SCreate rq)
  then show thesis using that(1,2) by (cases "create_run digest rq s") (auto simp: committed_def)
next
  case (SSavePlan i v p path h)
  then show thesis using that(1,3) savePlan_effect [OF ok, of i v p path h]
    by (cases "savePlan i v p path h s") (auto simp: committed_def)
next
  case (SUpdate i v c e)
  then show thesis using that(1,3) update_effect [OF ok, of i v c e]
    by (cases "update_run i v c e s") (auto simp: committed_def)
next
  case (SReserve i v t w)
  then show thesis using that(1,4) reserve_effect [OF ok, of i v t w]
    by (cases "reserveAttempt i v t w s") (auto simp: committed_def)
next
  case (SMarkRunning i v c)
  then show thesis using that(1,3) markRunning_effect [OF ok, of i v c]
    by (cases "markAttemptRunning i v c s") (auto simp: committed_def)
next
  case (SRecord i v res)
  then show thesis using that(1,3) record_effect [OF ok, of i v res]
    by (cases "recordAttemptResult i v res s") (auto simp: committed_def)
next
  case (SInterrupt i v m)
  then show thesis using that(1,3)
    by (cases "markInterrupted i v m s")
      (auto simp: committed_def markInterrupted_def dest!: update_effect [OF ok])
qed

lemma store_step_ok: "store_ok s \<Longrightarrow> store_ok (store_step digest ev s)"
  by (rule store_step_cases [of s digest ev]) (auto intro: create_ok commit_ok next_id_ok)

lemma empty_store_ok: "store_ok empty_store"
  by (simp add: store_ok_def empty_store_def)

section \<open>What the store promises\<close>

text \<open>Runs only move forward, and a run in a terminal phase does not move at all.\<close>

definition run_grows :: "orch_store \<Rightarrow> orch_store \<Rightarrow> nat \<Rightarrow> run_row \<Rightarrow> bool" where
  "run_grows s s' i row \<longleftrightarrow> (\<exists>row' es. st_runs s' i = Some row' \<and> row_digest row' = row_digest row \<and>
     rs_request (row_state row') = rs_request (row_state row) \<and>
     rs_revision (row_state row) \<le> rs_revision (row_state row') \<and>
     st_events s' i = st_events s i @ es \<and>
     (isOrchestratorTerminalPhase (rs_phase (row_state row)) \<longrightarrow>
        row' = row \<and> es = [] \<and> st_attempts s' i = st_attempts s i))"

definition store_grows :: "orch_store \<Rightarrow> orch_store \<Rightarrow> bool" where
  "store_grows s s' \<longleftrightarrow> (\<forall>i row. st_runs s i = Some row \<longrightarrow> run_grows s s' i row) \<and>
     (\<forall>x i. st_submissions s x = Some i \<longrightarrow> st_submissions s' x = Some i)"

lemma run_grows_same:
  "st_runs s' i = Some row \<Longrightarrow> st_attempts s' i = st_attempts s i \<Longrightarrow> st_events s' i = st_events s i \<Longrightarrow>
     run_grows s s' i row"
  by (simp add: run_grows_def)

lemma store_grows_refl: "store_grows s s"
  by (simp add: store_grows_def run_grows_same)

lemma store_grows_trans:
  assumes "store_grows s t" and "store_grows t u"
  shows "store_grows s u"
  unfolding store_grows_def
proof (intro conjI allI impI)
  fix x i assume "st_submissions s x = Some i"
  then show "st_submissions u x = Some i" using assms by (simp add: store_grows_def)
next
  fix i row assume "st_runs s i = Some row"
  then have "run_grows s t i row" using assms(1) by (simp add: store_grows_def)
  then obtain row1 es1 where 1: "st_runs t i = Some row1" "row_digest row1 = row_digest row"
    "rs_request (row_state row1) = rs_request (row_state row)"
    "rs_revision (row_state row) \<le> rs_revision (row_state row1)" "st_events t i = st_events s i @ es1"
    "isOrchestratorTerminalPhase (rs_phase (row_state row)) \<longrightarrow> row1 = row \<and> es1 = [] \<and> st_attempts t i = st_attempts s i"
    unfolding run_grows_def by blast
  have "run_grows t u i row1" using assms(2) 1(1) by (simp add: store_grows_def)
  then obtain row2 es2 where 2: "st_runs u i = Some row2" "row_digest row2 = row_digest row1"
    "rs_request (row_state row2) = rs_request (row_state row1)"
    "rs_revision (row_state row1) \<le> rs_revision (row_state row2)" "st_events u i = st_events t i @ es2"
    "isOrchestratorTerminalPhase (rs_phase (row_state row1)) \<longrightarrow> row2 = row1 \<and> es2 = [] \<and> st_attempts u i = st_attempts t i"
    unfolding run_grows_def by blast
  show "run_grows s u i row"
    unfolding run_grows_def using 1 2 by (intro exI [of _ row2] exI [of _ "es1 @ es2"]) auto
qed

lemma commit_grows:
  assumes "commit_effect i s s'"
  shows "store_grows s s'"
proof -
  obtain row r as e where E: "st_runs s i = Some row" "\<not> isOrchestratorTerminalPhase (rs_phase (row_state row))"
    "st_runs s' = (st_runs s)(i \<mapsto> row\<lparr>row_state := r\<rparr>)"
    "st_attempts s' = (st_attempts s)(i := as)" "st_events s' = (st_events s)(i := st_events s i @ [e])"
    "rs_revision r = Suc (rs_revision (row_state row))" "rs_request r = rs_request (row_state row)"
    "st_submissions s' = st_submissions s"
    using assms unfolding commit_effect_def by blast
  have "run_grows s s' j row'" if "st_runs s j = Some row'" for j row'
  proof (cases "j = i")
    case True
    then show ?thesis using that E unfolding run_grows_def
      by (intro exI [of _ "row\<lparr>row_state := r\<rparr>"] exI [of _ "[e]"]) simp
  next
    case False
    then show ?thesis using that E by (simp add: run_grows_same)
  qed
  then show ?thesis using E(8) by (simp add: store_grows_def)
qed

lemma store_step_grows:
  assumes ok: "store_ok s"
  shows "store_grows s (store_step digest ev s)"
proof (rule store_step_cases [OF ok, of digest ev])
  assume "store_step digest ev s = s"
  then show ?thesis by (simp add: store_grows_refl)
next
  fix rq r assume "create_run digest rq s = Inr (r, store_step digest ev s)"
  from create_result [OF ok this] show ?thesis
  proof (elim disjE conjE exE)
    let ?n = "st_nextId s"
    fix row e assume new: "st_runs s ?n = None" "st_submissions s (rq_submissionId rq) = None"
      "st_runs (store_step digest ev s) = (st_runs s)(?n \<mapsto> row)"
      "st_attempts (store_step digest ev s) = st_attempts s"
      "st_events (store_step digest ev s) = (st_events s)(?n := [e])"
      "st_submissions (store_step digest ev s) = (st_submissions s)(rq_submissionId rq \<mapsto> ?n)"
    have "run_grows s (store_step digest ev s) i row'" if "st_runs s i = Some row'" for i row'
      using that new(1,3-5) by (cases "i = ?n") (simp_all add: run_grows_same)
    then show ?thesis using new(2,6) by (auto simp: store_grows_def)
  qed (simp add: store_grows_refl)
next
  fix i assume "commit_effect i s (store_step digest ev s)"
  then show ?thesis by (rule commit_grows)
next
  fix i assume "commit_effect i (s\<lparr>st_nextId := Suc (st_nextId s)\<rparr>) (store_step digest ev s)"
  from commit_grows [OF this] show ?thesis by (simp add: store_grows_def run_grows_def)
qed

interpretation run_store: monotone_machine "store_step digest" store_ok store_grows
  for digest
  by unfold_locales (auto intro: store_step_ok store_grows_refl store_grows_trans store_step_grows)

lemma reachable_store_ok: "store_ok (run_events (store_step digest) es empty_store)"
  by (rule run_store.inv_run [OF empty_store_ok])

text \<open>The abstract contract: a run is the history of its phases, which a step may begin, extend while
  the last phase is not terminal, or leave alone.\<close>

definition run_history :: "orch_store \<Rightarrow> nat \<Rightarrow> orch_phase list" where
  "run_history s i = map oe_phase (st_events s i)"

inductive history_step :: "(nat \<Rightarrow> orch_phase list) \<Rightarrow> (nat \<Rightarrow> orch_phase list) \<Rightarrow> bool" where
  stay: "history_step h h"
| begin_run: "h i = [] \<Longrightarrow> history_step h (h(i := [PreparingPlan]))"
| extend: "h i \<noteq> [] \<Longrightarrow> \<not> isOrchestratorTerminalPhase (last (h i)) \<Longrightarrow> history_step h (h(i := h i @ [p]))"

lemma store_history_step:
  assumes ok: "store_ok s"
  shows "history_step (run_history s) (run_history (store_step digest ev s))"
proof -
  have commit: "history_step (run_history s) (run_history s')"
    if eff: "commit_effect i t s'" and t: "st_runs t = st_runs s" "st_events t = st_events s" for i t s'
  proof -
    from eff t obtain row e where row: "st_runs s i = Some row" "\<not> isOrchestratorTerminalPhase (rs_phase (row_state row))"
      "st_events s' = (st_events s)(i := st_events s i @ [e])" unfolding commit_effect_def by force
    then have log: "log_ok (row_state row) (st_events s i)" using ok by (simp add: store_ok_def run_ok_def)
    then have "st_events s i \<noteq> []" by (auto simp: log_ok_def)
    then have "run_history s i \<noteq> []" "last (run_history s i) = rs_phase (row_state row)"
      using log by (simp_all add: run_history_def last_map log_ok_def)
    moreover have "run_history s' = (run_history s)(i := run_history s i @ [oe_phase e])"
      using row(3) by (auto simp: run_history_def)
    ultimately show ?thesis using row(2) history_step.extend [of "run_history s" i] by simp
  qed
  show ?thesis
  proof (rule store_step_cases [OF ok, of digest ev])
    assume "store_step digest ev s = s"
    then show ?thesis by (simp add: history_step.stay)
  next
    fix rq r assume "create_run digest rq s = Inr (r, store_step digest ev s)"
    from create_result [OF ok this] show ?thesis
    proof (elim disjE conjE exE)
      fix row e assume "st_runs s (st_nextId s) = None" "oe_phase e = PreparingPlan"
        "st_events (store_step digest ev s) = (st_events s)(st_nextId s := [e])"
      then have "run_history s (st_nextId s) = []"
        "run_history (store_step digest ev s) = (run_history s)(st_nextId s := [PreparingPlan])"
        using ok by (auto simp: run_history_def store_ok_def)
      then show ?thesis using history_step.begin_run by simp
    qed (simp add: history_step.stay)
  qed (auto intro: commit)
qed

lemma mutate_stale:
  assumes "st_runs s i = Some row" and "rs_revision (row_state row) \<noteq> v"
  shows "mutate i v ch s = Inl (StaleRevision v (rs_revision (row_state row)))"
  using assms by (simp add: mutate_def read_run_def)

lemma commit_revision:
  assumes "commit_effect i s s'" and "read_run s i = Inr cur"
  obtains row where "st_runs s' i = Some row" "rs_revision (row_state row) = Suc (rs_revision cur)"
  using assms unfolding commit_effect_def by (force simp: read_run_def)

text \<open>C8. A run's record is consistent. After any sequence of calls, for every run that exists: its
  events are numbered from 1 without gaps, one for each revision and one for its creation, and the last
  one carries the phase the run is in; the attempts of each task for each purpose are numbered from 1
  and never later than the limit, child identifiers are distinct, and an attempt has a result exactly when
  it is settled; and a run that failed, was aborted or was interrupted has no open task and no attempt
  still reserved or running. A run that does not exist has no attempts and no events.\<close>

theorem run_record_consistent:
  "let s = run_events (store_step digest) es empty_store in
     (case st_runs s i of
        None \<Rightarrow> st_attempts s i = [] \<and> st_events s i = []
      | Some row \<Rightarrow> log_ok (row_state row) (st_events s i) \<and> attempts_ok (st_attempts s i) \<and>
          (if stopped (rs_phase (row_state row)) then nothing_open (row_state row) (st_attempts s i) else True))"
  using reachable_store_ok [of digest es] unfolding Let_def
  by (cases "st_runs (run_events (store_step digest) es empty_store) i") (auto simp: store_ok_def run_ok_def)

text \<open>A finished run is final. Once a run is in a terminal phase no later sequence of calls changes its
  state, its attempts or its events.\<close>

theorem terminal_runs_frozen:
  assumes "read_run (run_events (store_step digest) es empty_store) i = Inr r"
    and "isOrchestratorTerminalPhase (rs_phase r)"
  shows "read_run (run_events (store_step digest) (es @ later) empty_store) i = Inr r \<and>
    readEvents (run_events (store_step digest) (es @ later) empty_store) i n =
      readEvents (run_events (store_step digest) es empty_store) i n"
proof -
  let ?s = "run_events (store_step digest) es empty_store"
  have "store_grows ?s (run_events (store_step digest) later ?s)"
    by (rule run_store.rel_run [OF reachable_store_ok])
  moreover obtain row where row: "st_runs ?s i = Some row" and r: "r = row_state row\<lparr>rs_attempts := st_attempts ?s i\<rparr>"
    using assms(1) by (auto simp: read_run_def split: option.splits)
  ultimately have "run_grows ?s (run_events (store_step digest) later ?s) i row" by (simp add: store_grows_def)
  then show ?thesis using assms(2) row r by (auto simp: run_grows_def read_run_def readEvents_def)
qed

text \<open>Work is never reserved twice. When a caller has reserved an attempt at a revision, every other
  call made with that revision (another reservation, a start, a result, a plan, a transition) is
  refused as stale, whatever it asks for.\<close>

theorem stale_caller_refused:
  assumes "reserveAttempt i v t w (run_events (store_step digest) es empty_store) = Inr (a, s1)"
  shows "reserveAttempt i v t' w' s1 = Inl (StaleRevision v (v + 1)) \<and>
    markAttemptRunning i v child s1 = Inl (StaleRevision v (v + 1)) \<and>
    recordAttemptResult i v result s1 = Inl (StaleRevision v (v + 1)) \<and>
    savePlan i v plan path hash s1 = Inl (StaleRevision v (v + 1)) \<and>
    update_run i v changes event s1 = Inl (StaleRevision v (v + 1))"
proof -
  let ?s = "run_events (store_step digest) es empty_store"
  have eff: "commit_effect i (?s\<lparr>st_nextId := Suc (st_nextId ?s)\<rparr>) s1"
    by (rule reserve_effect [OF reachable_store_ok assms])
  obtain r s2 ch where "mutate i v ch (?s\<lparr>st_nextId := Suc (st_nextId ?s)\<rparr>) = Inr (r, s2)"
    using assms unfolding reserveAttempt_def Let_def by (auto split: prod.splits)
  then obtain row where "st_runs ?s i = Some row" "rs_revision (row_state row) = v"
    by (rule mutate_result) simp
  then obtain row1 where row1: "st_runs s1 i = Some row1" "rs_revision (row_state row1) = v + 1"
    using eff unfolding commit_effect_def by force
  then have "mutate i v ch s1 = Inl (StaleRevision v (v + 1))"
    "mutate i v ch (s1\<lparr>st_nextId := m\<rparr>) = Inl (StaleRevision v (v + 1))" for ch m
    using mutate_stale [of s1 i row1] mutate_stale [of "s1\<lparr>st_nextId := m\<rparr>" i row1] by simp_all
  then show ?thesis
    by (simp add: reserveAttempt_def markAttemptRunning_def recordAttemptResult_def savePlan_def update_run_def Let_def)
qed

text \<open>A submission is one run. Whatever happened since a request was stored, submitting it again
  returns the same run and changes nothing, and submitting a request with the same submission but
  another digest is refused.\<close>

theorem submission_is_one_run:
  assumes "create_run digest rq (run_events (store_step digest) es empty_store) = Inr (r, s1)"
  shows "let s2 = run_events (store_step digest) later s1 in
    (\<exists>r'. create_run digest rq s2 = Inr (r', s2) \<and> rs_runId r' = rs_runId r) \<and>
    (digest rq' \<noteq> digest rq \<and> rq_submissionId rq' = rq_submissionId rq \<longrightarrow>
       create_run digest rq' s2 = Inl (SubmissionReused (rq_submissionId rq)))"
proof -
  let ?s = "run_events (store_step digest) es empty_store"
  let ?s2 = "run_events (store_step digest) later s1"
  have ok1: "store_ok s1" by (rule create_ok [OF reachable_store_ok assms])
  have ok2: "store_ok ?s2" by (rule run_store.inv_run [OF ok1])
  have grows: "store_grows s1 ?s2" by (rule run_store.rel_run [OF ok1])
  have sub1: "st_submissions s1 (rq_submissionId rq) = Some (rs_runId r)"
    and dig1: "row_digest (the (st_runs s1 (rs_runId r))) = digest rq"
    using create_result [OF reachable_store_ok assms] assms
    by (auto simp: create_run_def split: option.splits if_splits)
  obtain row1 where row1: "st_runs s1 (rs_runId r) = Some row1" using store_ok_submission [OF ok1 sub1] by blast
  have "run_grows s1 ?s2 (rs_runId r) row1" using grows row1 by (simp add: store_grows_def)
  then obtain row2 where row2: "st_runs ?s2 (rs_runId r) = Some row2" "row_digest row2 = digest rq"
    using row1 dig1 by (auto simp: run_grows_def)
  have sub2: "st_submissions ?s2 (rq_submissionId rq) = Some (rs_runId r)" using grows sub1 by (simp add: store_grows_def)
  have "rs_runId (row_state row2) = rs_runId r" using ok2 row2(1) by (simp add: store_ok_def run_ok_def)
  then show ?thesis unfolding Let_def using row2 sub2 by (auto simp: create_run_def read_run_def)
qed

text \<open>C28. The store refines the history of phases. Every call, successful or refused, is a step of the
  abstract contract on the histories that the event log holds: it begins one run with the planning phase,
  extends the history of one run that is not finished, or leaves all histories alone.\<close>

theorem store_refines_history:
  "let s = run_events (store_step digest) es empty_store in
     history_step (run_history s) (run_history (store_step digest ev s))"
  unfolding Let_def by (rule store_history_step [OF reachable_store_ok])

section \<open>A run\<close>

definition example_digest :: "orch_request \<Rightarrow> string" where
  "example_digest rq = rq_repoRoot rq"

definition example_request :: "string \<Rightarrow> orch_request" where
  "example_request root = \<lparr>rq_submissionId = ''s'', rq_repoRoot = root, rq_presetId = ''o'', rq_approval = ''off'',
     rq_task = Some ''t'', rq_planPath = None\<rparr>"

definition example_task1 :: orch_task where
  "example_task1 = \<lparr>task_id = ''a'', task_title = ''A'', task_dependsOn = [], task_workerPresetId = ''w'',
     task_readPaths = [], task_writePaths = [], task_steps = [], task_verification = [], task_acceptance = [],
     task_temporaryPaths = []\<rparr>"

definition example_run_events :: "store_event list" where
  "example_run_events = [SCreate (example_request ''r''),
     SSavePlan 0 0 \<lparr>plan_goal = ''g'', plan_constraints = [], plan_tasks = [example_task1], plan_finalVerification = []\<rparr>
       ''p'' ''h'',
     SReserve 0 1 ''a'' (ImplementationWork ''p'' ''h'' example_task1), SInterrupt 0 2 ''stop'']"

lemma example_interrupted:
  "is_ok (read_run (run_events (store_step example_digest) example_run_events empty_store) 0) \<and>
   rs_phase (projr (read_run (run_events (store_step example_digest) example_run_events empty_store) 0)) = InterruptedPhase \<and>
   rs_revision (projr (read_run (run_events (store_step example_digest) example_run_events empty_store) 0)) = 3 \<and>
   map at_status (rs_attempts (projr (read_run (run_events (store_step example_digest) example_run_events empty_store) 0))) = [AttemptAbandoned]"
  by code_simp

theorem terminal_runs_frozen_witness:
  "let s = run_events (store_step example_digest) (example_run_events @ [SInterrupt 0 3 ''again'']) empty_store in
     is_ok (read_run s 0) \<and> rs_revision (projr (read_run s 0)) = 3"
proof -
  let ?s = "run_events (store_step example_digest) example_run_events empty_store"
  have r: "read_run ?s 0 = Inr (projr (read_run ?s 0))" using example_interrupted by (blast intro: is_ok_projr)
  have "isOrchestratorTerminalPhase (rs_phase (projr (read_run ?s 0)))"
    using example_interrupted by (simp add: isOrchestratorTerminalPhase_def)
  from terminal_runs_frozen [OF r this, of "[SInterrupt 0 3 ''again'']" 0] example_interrupted
  show ?thesis unfolding Let_def by (simp del: run_events_simps)
qed

theorem stale_caller_refused_witness:
  "let s = run_events (store_step example_digest) (take 2 example_run_events) empty_store;
       s1 = snd (projr (reserveAttempt 0 1 ''a'' (ImplementationWork ''p'' ''h'' example_task1) s)) in
     at_attempt (fst (projr (reserveAttempt 0 1 ''a'' (ImplementationWork ''p'' ''h'' example_task1) s))) = 1 \<and>
     reserveAttempt 0 1 ''a'' (ImplementationWork ''p'' ''h'' example_task1) s1 = Inl (StaleRevision 1 (1 + 1))"
proof -
  let ?w = "ImplementationWork ''p'' ''h'' example_task1"
  let ?r = "reserveAttempt 0 1 ''a'' ?w (run_events (store_step example_digest) (take 2 example_run_events) empty_store)"
  have "is_ok ?r \<and> at_attempt (fst (projr ?r)) = 1" by code_simp
  moreover from this have "?r = Inr (fst (projr ?r), snd (projr ?r))" using is_ok_projr_pair by blast
  ultimately show ?thesis unfolding Let_def using stale_caller_refused by blast
qed

theorem submission_is_one_run_witness:
  "let s1 = snd (projr (create_run example_digest (example_request ''r'') empty_store));
       s2 = run_events (store_step example_digest) (tl example_run_events) s1 in
     (\<exists>r'. create_run example_digest (example_request ''r'') s2 = Inr (r', s2) \<and> rs_runId r' = 0) \<and>
     create_run example_digest (example_request ''q'') s2 = Inl (SubmissionReused ''s'')"
proof -
  let ?r = "create_run example_digest (example_request ''r'') (run_events (store_step example_digest) [] empty_store)"
  have ok: "is_ok ?r \<and> rs_runId (fst (projr ?r)) = 0" by code_simp
  then have r: "?r = Inr (fst (projr ?r), snd (projr ?r))" using is_ok_projr_pair by blast
  have "example_digest (example_request ''q'') \<noteq> example_digest (example_request ''r'')"
    "rq_submissionId (example_request ''q'') = rq_submissionId (example_request ''r'')"
    "rq_submissionId (example_request ''r'') = ''s''"
    by (simp_all add: example_digest_def example_request_def)
  then show ?thesis
    using submission_is_one_run [OF r, of "tl example_run_events" "example_request ''q''"] ok
    by (simp add: Let_def)
qed

end
