(* ===== verification/Repo_Paths.thy ===== *)
theory Repo_Paths
  imports Sift_Prelude
begin

text \<open>
  Repository-scoped paths (src/repo-search/engine/repo-paths.ts) over POSIX path semantics of Node's
  path module: the containment check every path that a model or a plan names goes through, and the
  ignore policy.

  An absolute path is the list of its segments. The file system is seen through what the code asks
  it: does a path exist, and what is its real path (None when realpathSync throws).
\<close>

section \<open>POSIX paths\<close>

definition path_segments :: "string \<Rightarrow> string list" where
  "path_segments s = filter (\<lambda>x. x \<noteq> [] \<and> x \<noteq> ''.'') (js_split (CHR ''/'') s)"

definition isAbsolute :: "string \<Rightarrow> bool" where
  "isAbsolute s = js_starts_with ''/'' s"

text \<open>One segment of a path being resolved: \<open>..\<close> drops the last segment, at the root nothing.\<close>

definition push_segment :: "string \<Rightarrow> string list \<Rightarrow> string list" where
  "push_segment x acc = (if x = ''..'' then butlast acc else acc @ [x])"

definition resolve_path :: "string list \<Rightarrow> string \<Rightarrow> string list" where
  "resolve_path base p =
     (if isAbsolute p then fold push_segment (path_segments p) []
      else fold push_segment (path_segments p) base)"

fun common_prefix :: "'a list \<Rightarrow> 'a list \<Rightarrow> nat" where
  "common_prefix (x # xs) (y # ys) = (if x = y then Suc (common_prefix xs ys) else 0)"
| "common_prefix _ _ = 0"

definition relative_path :: "string list \<Rightarrow> string list \<Rightarrow> string" where
  "relative_path base target =
     (let n = common_prefix base target
      in js_join ''/'' (replicate (length base - n) ''..'' @ drop n target))"

section \<open>The containment check\<close>

record file_system =
  fs_exists :: "string list \<Rightarrow> bool"
  fs_realpath :: "string list \<Rightarrow> string list option"

text \<open>\<open>replace(/\\/gu, '/')\<close>.\<close>

definition toPosixPath :: "string \<Rightarrow> string" where
  "toPosixPath s = map (\<lambda>c. if c = CHR 0x5C then CHR ''/'' else c) s"

text \<open>\<open>dirname\<close> of the root is the root itself, which ends the loop.\<close>

function firstExistingAncestor :: "file_system \<Rightarrow> string list \<Rightarrow> string list" where
  "firstExistingAncestor fs p =
     (if fs_exists fs p then p else if p = [] then p else firstExistingAncestor fs (butlast p))"
  by pat_completeness auto
termination by (relation "measure (\<lambda>(fs, p). length p)") auto

declare firstExistingAncestor.simps [simp del]

datatype path_error = RealpathFailed "string list"

definition real_path :: "file_system \<Rightarrow> string list \<Rightarrow> path_error + string list" where
  "real_path fs p = (case fs_realpath fs p of None \<Rightarrow> Inl (RealpathFailed p) | Some q \<Rightarrow> Inr q)"

definition leaves :: "string \<Rightarrow> bool" where
  "leaves relative = (js_starts_with ''..'' relative \<or> isAbsolute relative)"

definition escapesRepoRootViaSymlink :: "file_system \<Rightarrow> string list \<Rightarrow> string list \<Rightarrow> path_error + bool" where
  "escapesRepoRootViaSymlink fs root p =
     bind_result (real_path fs root) (\<lambda>realRoot.
     bind_result (real_path fs (firstExistingAncestor fs p)) (\<lambda>realTarget.
       Inr (leaves (relative_path realRoot realTarget))))"

record scoped_path =
  sp_absolute :: "string list"
  sp_relative :: string

text \<open>A path that is not a string is the argument None.\<close>

definition resolveRepoScopedPath ::
  "file_system \<Rightarrow> string list \<Rightarrow> string option \<Rightarrow> path_error + scoped_path option" where
  "resolveRepoScopedPath fs root raw =
     (let pathText = (case raw of None \<Rightarrow> [] | Some t \<Rightarrow> js_trim t) in
      if pathText = [] \<or> isAbsolute pathText then Inr None
      else let absolute = resolve_path root pathText; relative = relative_path root absolute in
        if leaves relative then Inr None
        else bind_result (escapesRepoRootViaSymlink fs root absolute) (\<lambda>escapes.
          Inr (if escapes then None
               else Some \<lparr>sp_absolute = absolute, sp_relative = toPosixPath relative\<rparr>)))"

section \<open>The ignore policy\<close>

record ignore_policy =
  ip_namesLower :: "string list"
  ip_paths :: "string list"

text \<open>\<open>replace(/^\\.\\/+/u, '')\<close>: a leading dot followed by at least one slash, with those slashes.\<close>

definition strip_dot_slash :: "string \<Rightarrow> string" where
  "strip_dot_slash s = (if js_starts_with ''./'' s then dropWhile (\<lambda>c. c = CHR ''/'') (tl s) else s)"

definition isRepoRelativePathIgnored :: "string \<Rightarrow> ignore_policy \<Rightarrow> bool" where
  "isRepoRelativePathIgnored p policy =
     (let normalized = strip_dot_slash (toPosixPath p) in
      if normalized = [] then False
      else if list_ex (\<lambda>x. js_lower x \<in> set (ip_namesLower policy))
              (filter (\<lambda>x. x \<noteq> []) (js_split (CHR ''/'') normalized)) then True
      else list_ex (\<lambda>i. normalized = i \<or> js_starts_with (i @ ''/'') normalized) (ip_paths policy))"

section \<open>Containment\<close>

lemma starts_with_append: "js_starts_with p (p @ s)"
  by (simp add: js_starts_with_def)

lemma starts_with_join: "js_starts_with p x \<Longrightarrow> js_starts_with p (js_join sep (x # xs))"
proof -
  assume p: "js_starts_with p x"
  obtain s where "js_join sep (x # xs) = x @ s" by (cases xs) auto
  then show ?thesis using p unfolding js_starts_with_def by (metis append_take_drop_id append.assoc append_eq_conv_conj)
qed

lemma common_prefix_prefix: "common_prefix xs ys = length xs \<Longrightarrow> ys = xs @ drop (length xs) ys"
  by (induction xs ys rule: common_prefix.induct) (auto split: if_splits)

lemma common_prefix_le: "common_prefix xs ys \<le> length xs"
  by (induction xs ys rule: common_prefix.induct) auto

lemma common_prefix_append [simp]: "common_prefix xs (xs @ ys) = length xs"
  by (induction xs) auto

lemma relative_inside:
  assumes "\<not> leaves (relative_path base target)"
  obtains rest where "target = base @ rest" "relative_path base target = js_join ''/'' rest"
proof -
  let ?n = "common_prefix base target"
  have n: "?n = length base"
  proof (rule ccontr)
    assume "?n \<noteq> length base"
    then have "length base - ?n \<noteq> 0" using common_prefix_le [of base target] by simp
    then obtain k where "length base - ?n = Suc k" using not0_implies_Suc by blast
    then have "relative_path base target = js_join ''/'' (''..'' # replicate k ''..'' @ drop ?n target)"
      by (simp add: relative_path_def Let_def)
    then have "js_starts_with ''..'' (relative_path base target)"
      by (metis starts_with_join starts_with_append append_Nil2)
    then show False using assms by (simp add: leaves_def)
  qed
  show thesis
    by (rule that [of "drop (length base) target"])
      (use n common_prefix_prefix [OF n] in \<open>simp_all add: relative_path_def Let_def\<close>)
qed

lemma push_fold_dots: "''..'' \<notin> set acc \<Longrightarrow> ''..'' \<notin> set (fold push_segment xs acc)"
proof (induction xs arbitrary: acc)
  case (Cons x xs)
  have "''..'' \<notin> set (push_segment x acc)"
    using Cons.prems by (auto simp: push_segment_def dest: in_set_butlastD)
  then show ?case using Cons.IH by simp
qed simp

lemma resolve_path_dots: "''..'' \<notin> set base \<Longrightarrow> ''..'' \<notin> set (resolve_path base p)"
  by (simp add: resolve_path_def push_fold_dots)

lemma ancestor_prefix:
  obtains n where "firstExistingAncestor fs p = take n p" "n \<le> length p"
    "n = 0 \<or> fs_exists fs (take n p)" "\<And>m. n < m \<Longrightarrow> m \<le> length p \<Longrightarrow> \<not> fs_exists fs (take m p)"
proof -
  have "\<exists>n \<le> length p. firstExistingAncestor fs p = take n p \<and> (n = 0 \<or> fs_exists fs (take n p)) \<and>
      (\<forall>m. n < m \<and> m \<le> length p \<longrightarrow> \<not> fs_exists fs (take m p))"
  proof (induction fs p rule: firstExistingAncestor.induct)
    case (1 fs p)
    show ?case
    proof (cases "fs_exists fs p \<or> p = []")
      case True
      then show ?thesis by (intro exI [of _ "length p"]) (auto simp: firstExistingAncestor.simps)
    next
      case False
      then obtain n where n: "n \<le> length p - 1" "firstExistingAncestor fs (butlast p) = take n (butlast p)"
        "n = 0 \<or> fs_exists fs (take n (butlast p))"
        "\<forall>m. n < m \<and> m \<le> length p - 1 \<longrightarrow> \<not> fs_exists fs (take m (butlast p))"
        using "1.IH" by auto
      have tk: "take m (butlast p) = take m p" if "m \<le> length p - 1" for m
        using that by (simp add: butlast_conv_take min_def)
      have "\<not> fs_exists fs (take m p)" if "n < m" "m \<le> length p" for m
        using that n(4) tk False by (cases "m = length p") auto
      then show ?thesis
        using n(1-3) tk False by (intro exI [of _ n]) (auto simp: firstExistingAncestor.simps [of fs p])
    qed
  qed
  then show thesis using that by blast
qed

lemma resolve_success:
  assumes "resolveRepoScopedPath fs root (Some raw) = Inr (Some sp)"
  shows "sp_absolute sp = resolve_path root (js_trim raw)"
    and "\<not> leaves (relative_path root (sp_absolute sp))"
    and "sp_relative sp = toPosixPath (relative_path root (sp_absolute sp))"
    and "\<exists>realRoot realTarget. fs_realpath fs root = Some realRoot \<and>
      fs_realpath fs (firstExistingAncestor fs (sp_absolute sp)) = Some realTarget \<and>
      \<not> leaves (relative_path realRoot realTarget)"
  using assms
  by (auto simp: resolveRepoScopedPath_def Let_def escapesRepoRootViaSymlink_def real_path_def
      split: if_splits option.splits)

text \<open>C20. Repository containment. A path that the check accepts resolves, with no parent segment left,
  to a path under the repository root, its relative form names it from the root, and the deepest part
  of it that exists (the rest would be created there) has its real path, with every symbolic link
  followed, under the real path of the root.\<close>

theorem scoped_path_contained:
  assumes "resolveRepoScopedPath fs root (Some raw) = Inr (Some sp)" and "''..'' \<notin> set root"
  shows "\<exists>rest n realRoot inner. sp_absolute sp = root @ rest \<and> ''..'' \<notin> set rest \<and>
    sp_relative sp = toPosixPath (js_join ''/'' rest) \<and>
    (n = 0 \<or> fs_exists fs (take n (sp_absolute sp))) \<and>
    (\<forall>m. n < m \<and> m \<le> length (sp_absolute sp) \<longrightarrow> \<not> fs_exists fs (take m (sp_absolute sp))) \<and>
    fs_realpath fs root = Some realRoot \<and>
    fs_realpath fs (take n (sp_absolute sp)) = Some (realRoot @ inner)"
proof -
  note S = resolve_success [OF assms(1)]
  obtain rest where rest: "sp_absolute sp = root @ rest" "relative_path root (sp_absolute sp) = js_join ''/'' rest"
    using relative_inside [OF S(2)] by blast
  have "''..'' \<notin> set (root @ rest)"
    using resolve_path_dots [OF assms(2), of "js_trim raw"] S(1) rest(1) by metis
  then have "''..'' \<notin> set rest" by simp
  moreover obtain realRoot realTarget where real: "fs_realpath fs root = Some realRoot"
    "fs_realpath fs (firstExistingAncestor fs (sp_absolute sp)) = Some realTarget"
    "\<not> leaves (relative_path realRoot realTarget)" using S(4) by blast
  moreover obtain inner where "realTarget = realRoot @ inner" using relative_inside [OF real(3)] by blast
  moreover obtain n where "firstExistingAncestor fs (sp_absolute sp) = take n (sp_absolute sp)"
    "n = 0 \<or> fs_exists fs (take n (sp_absolute sp))"
    "\<forall>m. n < m \<and> m \<le> length (sp_absolute sp) \<longrightarrow> \<not> fs_exists fs (take m (sp_absolute sp))"
    using ancestor_prefix [of fs "sp_absolute sp"] by metis
  ultimately show ?thesis using rest S(3) by (intro exI [of _ rest] exI [of _ n] exI [of _ realRoot] exI [of _ inner]) simp
qed

text \<open>A tree with a directory src and a link out of the repository.\<close>

definition example_fs :: file_system where
  "example_fs = \<lparr>fs_exists = (\<lambda>p. p \<in> {[], [''r''], [''r'', ''src''], [''r'', ''out'']}),
     fs_realpath = (\<lambda>p. if p = [''r'', ''out''] then Some [''etc''] else if p \<in> {[], [''r''], [''r'', ''src'']} then Some p else None)\<rparr>"

theorem scoped_path_contained_witness:
  "resolveRepoScopedPath example_fs [''r''] (Some '' src/./a/../b '') =
     Inr (Some \<lparr>sp_absolute = [''r'', ''src'', ''b''], sp_relative = ''src/b''\<rparr>) \<and>
   resolveRepoScopedPath example_fs [''r''] (Some ''src/../../etc'') = Inr None \<and>
   resolveRepoScopedPath example_fs [''r''] (Some ''out/b'') = Inr None \<and>
   (\<exists>rest. [''r'', ''src'', ''b''] = [''r''] @ rest \<and> ''..'' \<notin> set rest)"
proof -
  have run: "resolveRepoScopedPath example_fs [''r''] (Some '' src/./a/../b '') =
     Inr (Some \<lparr>sp_absolute = [''r'', ''src'', ''b''], sp_relative = ''src/b''\<rparr>)" by code_simp
  moreover have "resolveRepoScopedPath example_fs [''r''] (Some ''src/../../etc'') = Inr None" by code_simp
  moreover have "resolveRepoScopedPath example_fs [''r''] (Some ''out/b'') = Inr None" by code_simp
  moreover have "\<exists>rest. [''r'', ''src'', ''b''] = [''r''] @ rest \<and> ''..'' \<notin> set rest"
    using scoped_path_contained [OF run] by auto
  ultimately show ?thesis by blast
qed

text \<open>The check is stricter than containment: it tests whether the relative path begins with
  two dots and not whether its first segment is the parent segment, so an entry of the root whose name only begins with
  two dots is refused in every repository, although the path resolves to a child of the root.\<close>

theorem dotted_names_refused:
  "resolveRepoScopedPath fs root (Some ''..cache'') = Inr None \<and>
   resolve_path root ''..cache'' = root @ [''..cache'']"
proof -
  have t: "js_trim ''..cache'' = ''..cache''" "isAbsolute ''..cache'' = False"
    "path_segments ''..cache'' = [''..cache'']" by code_simp+
  have r: "resolve_path root ''..cache'' = root @ [''..cache'']"
    by (simp add: resolve_path_def t push_segment_def)
  have "relative_path root (root @ [''..cache'']) = ''..cache''" by (simp add: relative_path_def)
  moreover have "leaves ''..cache''" by code_simp
  ultimately show ?thesis by (simp add: resolveRepoScopedPath_def Let_def t r)
qed

end
