(* ===== verification/Orchestrator_Plan.thy ===== *)
theory Orchestrator_Plan
  imports Orchestrator_Data Repo_Paths
begin

text \<open>
  Plan validation (src/orchestrator/plan.ts): the workers a plan may use, the dependency graph and the
  repository scope of every path. The error messages are constructors with the values they print. The
  Markdown form of a plan is in Orchestrator_Workspace.
\<close>

section \<open>Workers\<close>

datatype plan_error =
    DuplicatePresetIds
  | PresetNotFound target_error
  | WorkerKind string string preset_kind
  | ReadOnlyWorkerMutates string "string list"
  | PathEscapes string string
  | PathUnresolvable path_error
  | DuplicateTask string
  | DependsOnItself string
  | DependencyMissing string string
  | DependencyCycle "string list"
  | ReadOnlyWorkerWrites string string

definition MUTATING_TOOLS :: "string list" where
  "MUTATING_TOOLS = [''write'', ''edit'', ''run'']"

definition workerCanMutate :: "operation_preset \<Rightarrow> bool" where
  "workerCanMutate p = list_ex (\<lambda>t. t \<in> set (op_allowedTools p)) MUTATING_TOOLS"

text \<open>\<open>PresetCatalog.fromPresets\<close> parses the collection, which refuses a repeated id. (The schema also
  asks for one summary preset, a field this model does not carry.)\<close>

definition fromPresets :: "operation_preset list \<Rightarrow> plan_error + operation_preset list" where
  "fromPresets ps = (if distinct (map op_id ps) then Inr ps else Inl DuplicatePresetIds)"

definition requireOrchestratorWorkerPreset :: "sift_config \<Rightarrow> orch_task \<Rightarrow> plan_error + operation_preset" where
  "requireOrchestratorWorkerPreset c t =
     bind_result (fromPresets (cfg_Presets c)) (\<lambda>ps.
       (case requireById ps (task_workerPresetId t) of
          Inl e \<Rightarrow> Inl (PresetNotFound e)
        | Inr p \<Rightarrow>
            if op_presetKind p \<noteq> RepoAgentKind \<and> op_presetKind p \<noteq> RepoSearchKind
            then Inl (WorkerKind (task_id t) (op_id p) (op_presetKind p))
            else if op_presetKind p = RepoSearchKind \<and> filter (\<lambda>x. x \<in> set (op_allowedTools p)) MUTATING_TOOLS \<noteq> []
            then Inl (ReadOnlyWorkerMutates (op_id p) (filter (\<lambda>x. x \<in> set (op_allowedTools p)) MUTATING_TOOLS))
            else Inr p))"

section \<open>Paths\<close>

definition scopePath :: "file_system \<Rightarrow> string list \<Rightarrow> string \<Rightarrow> string \<Rightarrow> plan_error + string" where
  "scopePath fs root owner raw =
     (case resolveRepoScopedPath fs root (Some raw) of
        Inl e \<Rightarrow> Inl (PathUnresolvable e)
      | Inr None \<Rightarrow> Inl (PathEscapes owner (toPosixPath raw))
      | Inr (Some sp) \<Rightarrow> Inr (if sp_relative sp = [] then ''.'' else sp_relative sp))"

definition scopeCheck :: "file_system \<Rightarrow> string list \<Rightarrow> string \<Rightarrow> orch_check \<Rightarrow> plan_error + orch_check" where
  "scopeCheck fs root owner check =
     (case check of
        CommandCheck command cwd \<Rightarrow> bind_result (scopePath fs root owner cwd) (\<lambda>p. Inr (CommandCheck command p))
      | EvidenceCheck instruction paths \<Rightarrow>
          bind_result (map_ok (scopePath fs root owner) paths) (\<lambda>ps. Inr (EvidenceCheck instruction ps)))"

definition scopeChecks :: "file_system \<Rightarrow> string list \<Rightarrow> string \<Rightarrow> orch_check list \<Rightarrow> plan_error + orch_check list" where
  "scopeChecks fs root owner checks = map_ok (scopeCheck fs root owner) checks"

section \<open>The dependency graph\<close>

text \<open>The map by identifier is built before it is read, from tasks with distinct identifiers.\<close>

definition task_by_id :: "orch_task list \<Rightarrow> string \<Rightarrow> orch_task option" where
  "task_by_id tasks i = find (\<lambda>t. task_id t = i) tasks"

fun check_duplicates :: "string list \<Rightarrow> orch_task list \<Rightarrow> plan_error + unit" where
  "check_duplicates seen [] = Inr ()"
| "check_duplicates seen (t # ts) =
     (if task_id t \<in> set seen then Inl (DuplicateTask (task_id t))
      else check_duplicates (task_id t # seen) ts)"

definition check_dependency :: "orch_task list \<Rightarrow> orch_task \<Rightarrow> string \<Rightarrow> plan_error + unit" where
  "check_dependency tasks t d =
     (if d = task_id t then Inl (DependsOnItself (task_id t))
      else if task_by_id tasks d = None then Inl (DependencyMissing (task_id t) d)
      else Inr ())"

lemma task_by_id_mem: "task_by_id tasks i = Some t \<Longrightarrow> i \<in> task_id ` set tasks \<and> t \<in> set tasks \<and> task_id t = i"
  by (auto simp: task_by_id_def find_Some_iff)

text \<open>
  The depth-first search: visit, called on each task that the identifiers name in turn. finished is
  the set of the closure, trail the path to the task.
\<close>

function visit_all :: "orch_task list \<Rightarrow> string list \<Rightarrow> string list \<Rightarrow> string list \<Rightarrow> plan_error + string list" where
  "visit_all tasks trail [] finished = Inr finished"
| "visit_all tasks trail (i # is) finished =
     (case task_by_id tasks i of
        None \<Rightarrow> visit_all tasks trail is finished
      | Some t \<Rightarrow>
          if i \<in> set finished then visit_all tasks trail is finished
          else if i \<in> set trail then Inl (DependencyCycle (dropWhile (\<lambda>j. j \<noteq> i) trail @ [i]))
          else (case visit_all tasks (trail @ [i]) (task_dependsOn t) finished of
                  Inl e \<Rightarrow> Inl e
                | Inr finished' \<Rightarrow> visit_all tasks trail is (finished' @ [i])))"
  by pat_completeness auto

termination
proof (relation "measures [\<lambda>(tasks, trail, is, fin). card (task_id ` set tasks - set trail), \<lambda>(tasks, trail, is, fin). length is]")
  fix tasks trail i "is" finished t
  assume "task_by_id tasks i = Some t" and "i \<notin> set trail"
  then have "task_id ` set tasks - set (trail @ [i]) \<subset> task_id ` set tasks - set trail"
    using task_by_id_mem [of tasks i t] by auto
  then show "((tasks, trail @ [i], task_dependsOn t, finished), tasks, trail, i # is, finished) \<in>
      measures [\<lambda>(tasks, trail, is, fin). card (task_id ` set tasks - set trail), \<lambda>(tasks, trail, is, fin). length is]"
    by (simp add: psubset_card_mono)
qed auto

definition assertDependencies :: "orch_task list \<Rightarrow> plan_error + unit" where
  "assertDependencies tasks =
     bind_result (check_duplicates [] tasks) (\<lambda>_.
     bind_result (each_ok (\<lambda>t. each_ok (check_dependency tasks t) (task_dependsOn t)) tasks) (\<lambda>_.
     bind_result (visit_all tasks [] (map task_id tasks) []) (\<lambda>_. Inr ())))"

section \<open>Validation\<close>

definition scope_task :: "sift_config \<Rightarrow> file_system \<Rightarrow> string list \<Rightarrow> orch_task \<Rightarrow> plan_error + orch_task" where
  "scope_task c fs root t =
     bind_result (requireOrchestratorWorkerPreset c t) (\<lambda>w.
       if op_presetKind w = RepoSearchKind \<and> task_writePaths t \<noteq> []
       then Inl (ReadOnlyWorkerWrites (task_id t) (op_id w))
       else let owner = ''Task '' @ task_id t; scope = map_ok (scopePath fs root owner) in
         bind_result (scope (task_readPaths t)) (\<lambda>reads.
         bind_result (scope (task_writePaths t)) (\<lambda>writes.
         bind_result (scope (task_temporaryPaths t)) (\<lambda>temps.
         bind_result (scopeChecks fs root owner (task_verification t)) (\<lambda>checks.
           Inr (t\<lparr>task_readPaths := reads, task_writePaths := writes, task_temporaryPaths := temps,
                  task_verification := checks\<rparr>))))))"

definition validateOrchestratorPlan ::
  "orch_plan \<Rightarrow> sift_config \<Rightarrow> file_system \<Rightarrow> string list \<Rightarrow> plan_error + orch_plan" where
  "validateOrchestratorPlan plan c fs root =
     bind_result (assertDependencies (plan_tasks plan)) (\<lambda>_.
     bind_result (map_ok (scope_task c fs root) (plan_tasks plan)) (\<lambda>tasks.
     bind_result (scopeChecks fs root ''Final verification'' (plan_finalVerification plan)) (\<lambda>final.
       Inr (plan\<lparr>plan_tasks := tasks, plan_finalVerification := final\<rparr>))))"

section \<open>The dependency check is exact\<close>

definition dep_rel :: "orch_task list \<Rightarrow> (string \<times> string) set" where
  "dep_rel tasks = {(d, task_id t) | d t. t \<in> set tasks \<and> d \<in> set (task_dependsOn t)}"

lemma task_by_id_None: "task_by_id tasks i = None \<longleftrightarrow> i \<notin> task_id ` set tasks"
  by (auto simp: task_by_id_def find_None_iff)

lemma dep_relI:
  assumes "task_by_id tasks i = Some t" and "d \<in> set (task_dependsOn t)"
  shows "(d, i) \<in> dep_rel tasks"
proof -
  have "t \<in> set tasks" "i = task_id t" using task_by_id_mem [OF assms(1)] by simp_all
  then show ?thesis using assms(2) unfolding dep_rel_def by simp blast
qed

lemma dep_relD:
  assumes "distinct (map task_id tasks)" and "(d, i) \<in> dep_rel tasks"
  obtains t where "task_by_id tasks i = Some t" "d \<in> set (task_dependsOn t)"
proof -
  from assms(2) obtain u where u: "u \<in> set tasks" "task_id u = i" "d \<in> set (task_dependsOn u)"
    by (auto simp: dep_rel_def)
  then obtain t where t: "task_by_id tasks i = Some t" by (cases "task_by_id tasks i") (auto simp: task_by_id_None)
  have "t = u" using assms(1) task_by_id_mem [OF t] u(1,2) by (auto simp: distinct_map inj_on_def)
  then show thesis using that t u(3) by blast
qed

lemma check_duplicates_iff:
  "check_duplicates seen ts = Inr () \<longleftrightarrow> distinct (map task_id ts) \<and> task_id ` set ts \<inter> set seen = {}"
  by (induction ts arbitrary: seen) auto

lemma check_dependency_iff:
  "check_dependency tasks t d = Inr () \<longleftrightarrow> d \<noteq> task_id t \<and> d \<in> task_id ` set tasks"
  by (auto simp: check_dependency_def task_by_id_None)

text \<open>A finished list in which every task stands after its dependencies.\<close>

definition topo :: "orch_task list \<Rightarrow> string list \<Rightarrow> bool" where
  "topo tasks fin \<longleftrightarrow> (\<forall>pre i post. fin = pre @ i # post \<longrightarrow> (\<forall>d. (d, i) \<in> dep_rel tasks \<longrightarrow> d \<in> set pre))"

lemma topo_Nil [simp]: "topo tasks []"
  by (simp add: topo_def)

lemma topo_snoc: "topo tasks fin \<Longrightarrow> (\<And>d. (d, i) \<in> dep_rel tasks \<Longrightarrow> d \<in> set fin) \<Longrightarrow> topo tasks (fin @ [i])"
  unfolding topo_def
proof (intro allI impI)
  fix pre j post d
  assume t: "\<forall>pre i post. fin = pre @ i # post \<longrightarrow> (\<forall>d. (d, i) \<in> dep_rel tasks \<longrightarrow> d \<in> set pre)"
    and i: "\<And>d. (d, i) \<in> dep_rel tasks \<Longrightarrow> d \<in> set fin"
    and eq: "fin @ [i] = pre @ j # post" and d: "(d, j) \<in> dep_rel tasks"
  show "d \<in> set pre"
  proof (cases post rule: rev_cases)
    case Nil
    then show ?thesis using eq i d by simp
  next
    case (snoc post' x)
    then have "fin = pre @ j # post'" using eq by simp
    then show ?thesis using t d by blast
  qed
qed

lemma visit_sound:
  assumes "visit_all tasks trail is fin = Inr fin'" and "topo tasks fin" and "distinct (map task_id tasks)"
    and "Domain (dep_rel tasks) \<subseteq> task_id ` set tasks"
  shows "topo tasks fin' \<and> set fin \<subseteq> set fin' \<and> set is \<inter> task_id ` set tasks \<subseteq> set fin'"
  using assms
proof (induction tasks trail "is" fin arbitrary: fin' rule: visit_all.induct)
  case (1 tasks trail finished)
  then show ?case by simp
next
  case (2 tasks trail i "is" finished)
  show ?case
  proof (cases "task_by_id tasks i")
    case None
    then have "i \<notin> task_id ` set tasks" by (simp add: task_by_id_None)
    then show ?thesis using "2.IH"(1) [OF None] "2.prems" None by auto
  next
    case (Some t)
    show ?thesis
    proof (cases "i \<in> set finished")
      case True
      then show ?thesis using "2.IH"(2) [OF Some True] "2.prems" Some by auto
    next
      case False
      with "2.prems"(1) Some have nt: "i \<notin> set trail" by (auto split: if_splits)
      obtain fin1 where v1: "visit_all tasks (trail @ [i]) (task_dependsOn t) finished = Inr fin1"
        and v2: "visit_all tasks trail is (fin1 @ [i]) = Inr fin'"
        using "2.prems"(1) Some False nt by (auto split: sum.splits)
      note S1 = "2.IH"(3) [OF Some False nt v1 "2.prems"(2-4)]
      have "d \<in> set fin1" if di: "(d, i) \<in> dep_rel tasks" for d
      proof -
        obtain u where u: "task_by_id tasks i = Some u" "d \<in> set (task_dependsOn u)"
          using dep_relD [OF "2.prems"(3) di] by blast
        then have "d \<in> set (task_dependsOn t)" using Some by simp
        moreover have "d \<in> task_id ` set tasks" using di "2.prems"(4) by blast
        ultimately show ?thesis using S1 by blast
      qed
      then have "topo tasks (fin1 @ [i])" using S1 topo_snoc by blast
      note S2 = "2.IH"(4) [OF Some False nt v1 v2 this "2.prems"(3,4)]
      then show ?thesis using S1 by auto
    qed
  qed
qed

lemma topo_acyclic:
  assumes "topo tasks fin" and "task_id ` set tasks \<subseteq> set fin"
  shows "acyclic (dep_rel tasks)"
proof (rule acyclicI_order)
  fix d i assume di: "(d, i) \<in> dep_rel tasks"
  then have "i \<in> set fin" using assms(2) by (auto simp: dep_rel_def)
  then obtain pre post where s: "fin = pre @ i # post" "i \<notin> set pre" by (meson split_list_first)
  then have d: "d \<in> set pre" using assms(1) di by (simp add: topo_def)
  have "length (takeWhile (\<lambda>j. j \<noteq> d) fin) < length pre"
  proof -
    obtain pre1 pre2 where "pre = pre1 @ d # pre2" "d \<notin> set pre1" using d by (meson split_list_first)
    then show ?thesis using s(1) by (auto simp: takeWhile_append)
  qed
  moreover have "length (takeWhile (\<lambda>j. j \<noteq> i) fin) = length pre"
    using s by (simp add: takeWhile_append takeWhile_eq_all_conv)
  ultimately show "- int (length (takeWhile (\<lambda>j. j \<noteq> i) fin)) < - int (length (takeWhile (\<lambda>j. j \<noteq> d) fin))"
    by simp
qed

lemma visit_complete:
  assumes "acyclic (dep_rel tasks)" and "\<forall>i \<in> set is. \<forall>x \<in> set trail. (i, x) \<in> (dep_rel tasks)\<^sup>+"
  shows "\<exists>fin'. visit_all tasks trail is fin = Inr fin'"
  using assms
proof (induction tasks trail "is" fin rule: visit_all.induct)
  case (1 tasks trail finished)
  then show ?case by simp
next
  case (2 tasks trail i "is" finished)
  show ?case
  proof (cases "task_by_id tasks i")
    case None
    then show ?thesis using "2.IH"(1) "2.prems" by auto
  next
    case (Some t)
    show ?thesis
    proof (cases "i \<in> set finished")
      case True
      then show ?thesis using "2.IH"(2) [OF Some True] "2.prems" Some by auto
    next
      case False
      have nt: "i \<notin> set trail" using "2.prems" by (auto simp: acyclic_def)
      have "(d, x) \<in> (dep_rel tasks)\<^sup>+" if "d \<in> set (task_dependsOn t)" "x \<in> set (trail @ [i])" for d x
        using that dep_relI [OF Some that(1)] "2.prems"(2) by (auto intro: trancl_into_trancl2)
      then obtain fin1 where v1: "visit_all tasks (trail @ [i]) (task_dependsOn t) finished = Inr fin1"
        using "2.IH"(3) [OF Some False nt "2.prems"(1)] by blast
      obtain fin' where "visit_all tasks trail is (fin1 @ [i]) = Inr fin'"
        using "2.IH"(4) [OF Some False nt v1 "2.prems"(1)] "2.prems"(2) by auto
      then show ?thesis using Some False nt v1 by simp
    qed
  qed
qed

lemma assertDependencies_iff:
  "assertDependencies tasks = Inr () \<longleftrightarrow>
     distinct (map task_id tasks) \<and> Domain (dep_rel tasks) \<subseteq> task_id ` set tasks \<and> acyclic (dep_rel tasks)"
    (is "?L \<longleftrightarrow> ?R")
proof -
  have chk: "each_ok (\<lambda>t. each_ok (check_dependency tasks t) (task_dependsOn t)) tasks = Inr () \<longleftrightarrow>
      Domain (dep_rel tasks) \<subseteq> task_id ` set tasks \<and> (\<forall>t \<in> set tasks. task_id t \<notin> set (task_dependsOn t))"
    unfolding each_ok_iff check_dependency_iff by (fastforce simp: dep_rel_def)
  have irr: "task_id t \<notin> set (task_dependsOn t)" if "t \<in> set tasks" "acyclic (dep_rel tasks)" for t
    using that by (auto simp: acyclic_def dep_rel_def)
  have "\<exists>fin. visit_all tasks [] (map task_id tasks) [] = Inr fin" if "acyclic (dep_rel tasks)"
    using visit_complete [OF that, of "map task_id tasks" "[]"] by simp
  moreover have "acyclic (dep_rel tasks)" if "visit_all tasks [] (map task_id tasks) [] = Inr fin"
    "distinct (map task_id tasks)" "Domain (dep_rel tasks) \<subseteq> task_id ` set tasks" for fin
    using visit_sound [OF that(1) topo_Nil that(2,3)] topo_acyclic [of tasks fin] by auto
  ultimately show ?thesis
    unfolding assertDependencies_def using chk check_duplicates_iff [of "[]" tasks] irr by auto
qed

section \<open>What a validated plan guarantees\<close>

definition path_scoped :: "file_system \<Rightarrow> string list \<Rightarrow> string \<Rightarrow> bool" where
  "path_scoped fs root p \<longleftrightarrow> (\<exists>raw sp. resolveRepoScopedPath fs root (Some raw) = Inr (Some sp) \<and>
     p = (if sp_relative sp = [] then ''.'' else sp_relative sp))"

definition check_paths :: "orch_check \<Rightarrow> string list" where
  "check_paths check = (case check of CommandCheck _ cwd \<Rightarrow> [cwd] | EvidenceCheck _ paths \<Rightarrow> paths)"

definition task_paths :: "orch_task \<Rightarrow> string list" where
  "task_paths t = task_readPaths t @ task_writePaths t @ task_temporaryPaths t
     @ concat (map check_paths (task_verification t))"

definition worker_ok :: "sift_config \<Rightarrow> orch_task \<Rightarrow> bool" where
  "worker_ok c t \<longleftrightarrow> (\<exists>w. requireById (cfg_Presets c) (task_workerPresetId t) = Inr w \<and>
     (op_presetKind w = RepoAgentKind \<or>
      op_presetKind w = RepoSearchKind \<and> \<not> workerCanMutate w \<and> task_writePaths t = []))"

lemma scopePath_scoped: "scopePath fs root owner raw = Inr p \<Longrightarrow> path_scoped fs root p"
proof -
  assume "scopePath fs root owner raw = Inr p"
  then obtain sp where "resolveRepoScopedPath fs root (Some raw) = Inr (Some sp)"
    "p = (if sp_relative sp = [] then ''.'' else sp_relative sp)"
    by (auto simp: scopePath_def split: sum.splits option.splits)
  then show ?thesis unfolding path_scoped_def by blast
qed

lemma map_scopePath: "map_ok (scopePath fs root owner) raws = Inr ps \<Longrightarrow> list_all (path_scoped fs root) ps"
  unfolding map_ok_Inr by (induction rule: list_all2_induct) (auto dest: scopePath_scoped)

lemma scopeCheck_scoped: "scopeCheck fs root owner check = Inr check' \<Longrightarrow> list_all (path_scoped fs root) (check_paths check')"
  by (auto simp: scopeCheck_def check_paths_def dest: scopePath_scoped map_scopePath split: orch_check.splits)

lemma scopeChecks_scoped:
  "scopeChecks fs root owner checks = Inr checks' \<Longrightarrow> list_all (path_scoped fs root) (concat (map check_paths checks'))"
  unfolding scopeChecks_def map_ok_Inr
  by (induction rule: list_all2_induct) (auto dest: scopeCheck_scoped)

lemma worker_preset_spec:
  "requireOrchestratorWorkerPreset c t = Inr w \<Longrightarrow>
     requireById (cfg_Presets c) (task_workerPresetId t) = Inr w \<and>
     (op_presetKind w = RepoAgentKind \<or> op_presetKind w = RepoSearchKind \<and> \<not> workerCanMutate w)"
  by (auto simp: requireOrchestratorWorkerPreset_def fromPresets_def workerCanMutate_def
      list_ex_iff filter_empty_conv split: if_splits sum.splits)

lemma scope_task_spec:
  assumes "scope_task c fs root t = Inr t'"
  shows "task_id t' = task_id t" and "task_dependsOn t' = task_dependsOn t"
    and "task_workerPresetId t' = task_workerPresetId t" and "worker_ok c t'"
    and "list_all (path_scoped fs root) (task_paths t')"
proof -
  from assms obtain w reads writes temps checks where
    w: "requireOrchestratorWorkerPreset c t = Inr w"
      "\<not> (op_presetKind w = RepoSearchKind \<and> task_writePaths t \<noteq> [])" and
    p: "map_ok (scopePath fs root (''Task '' @ task_id t)) (task_readPaths t) = Inr reads"
      "map_ok (scopePath fs root (''Task '' @ task_id t)) (task_writePaths t) = Inr writes"
      "map_ok (scopePath fs root (''Task '' @ task_id t)) (task_temporaryPaths t) = Inr temps"
      "scopeChecks fs root (''Task '' @ task_id t) (task_verification t) = Inr checks" and
    t': "t' = t\<lparr>task_readPaths := reads, task_writePaths := writes, task_temporaryPaths := temps,
      task_verification := checks\<rparr>"
    by (auto simp: scope_task_def Let_def split: if_splits)
  show "task_id t' = task_id t" "task_dependsOn t' = task_dependsOn t"
    "task_workerPresetId t' = task_workerPresetId t" by (simp_all add: t')
  have "task_writePaths t = [] \<Longrightarrow> writes = []" using p(2) by simp
  then show "worker_ok c t'" using worker_preset_spec [OF w(1)] w(2) by (auto simp: worker_ok_def t')
  show "list_all (path_scoped fs root) (task_paths t')"
    using p by (simp add: task_paths_def t' map_scopePath scopeChecks_scoped)
qed

lemma dep_rel_simps [simp]:
  "dep_rel [] = {}"
  "dep_rel (t # ts) = (\<lambda>d. (d, task_id t)) ` set (task_dependsOn t) \<union> dep_rel ts"
  by (auto simp: dep_rel_def)

lemma dep_rel_cong:
  assumes "list_all2 (\<lambda>t t'. task_id t' = task_id t \<and> task_dependsOn t' = task_dependsOn t) ts ts'"
  shows "dep_rel ts' = dep_rel ts" and "map task_id ts' = map task_id ts"
  using assms by (induction rule: list_all2_induct) simp_all

text \<open>C22. The dependency check accepts exactly the plans whose task identifiers are distinct, whose
  dependencies all name tasks of the plan and whose dependency graph has no cycle; the depth-first
  search with its finished set and trail terminates on every plan.\<close>

theorem dependency_check_exact:
  "(assertDependencies tasks = Inr ()) =
     (distinct (map task_id tasks) \<and> Domain (dep_rel tasks) \<subseteq> task_id ` set tasks \<and> acyclic (dep_rel tasks))"
  by (rule assertDependencies_iff)

text \<open>C37. What validation guarantees. A plan that validates keeps the tasks and dependencies it had; in the
  plan that is returned the identifiers are distinct and the dependencies complete and acyclic, every
  worker is a repo-agent preset, or a repo-search preset that grants no mutating tool and whose task
  writes nothing, and every path, those of the checks included, is the repository-relative form of a
  path that passed the containment check.\<close>

theorem validated_plan_sound:
  assumes "validateOrchestratorPlan plan c fs root = Inr p"
  shows "map task_id (plan_tasks p) = map task_id (plan_tasks plan) \<and>
    dep_rel (plan_tasks p) = dep_rel (plan_tasks plan) \<and>
    assertDependencies (plan_tasks p) = Inr () \<and>
    list_all (\<lambda>t. worker_ok c t \<and> list_all (path_scoped fs root) (task_paths t)) (plan_tasks p) \<and>
    list_all (path_scoped fs root) (concat (map check_paths (plan_finalVerification p)))"
proof -
  obtain tasks final where a: "assertDependencies (plan_tasks plan) = Inr ()"
    and m: "list_all2 (\<lambda>t t'. scope_task c fs root t = Inr t') (plan_tasks plan) tasks"
    and f: "scopeChecks fs root ''Final verification'' (plan_finalVerification plan) = Inr final"
    and p: "p = plan\<lparr>plan_tasks := tasks, plan_finalVerification := final\<rparr>"
    using assms by (auto simp: validateOrchestratorPlan_def map_ok_Inr)
  have same: "dep_rel tasks = dep_rel (plan_tasks plan)" "map task_id tasks = map task_id (plan_tasks plan)"
    by (rule dep_rel_cong, rule list_all2_mono [OF m], simp add: scope_task_spec(1,2))+
  then have "task_id ` set tasks = task_id ` set (plan_tasks plan)" by (metis set_map)
  then have "assertDependencies tasks = Inr ()" using a same by (simp add: assertDependencies_iff)
  moreover have "list_all (\<lambda>t. worker_ok c t \<and> list_all (path_scoped fs root) (task_paths t)) tasks"
    using m by (induction rule: list_all2_induct) (auto dest: scope_task_spec(4,5))
  ultimately show ?thesis using same scopeChecks_scoped [OF f] by (simp add: p)
qed

text \<open>A plan of two tasks, the second reading what the first wrote.\<close>

definition example_workers :: sift_config where
  "example_workers = \<lparr>cfg_Presets = [
       \<lparr>op_id = ''agent'', op_modelPresetId = None, op_presetKind = RepoAgentKind,
        op_allowedTools = [''read'', ''write''], op_settings = []\<rparr>,
       \<lparr>op_id = ''search'', op_modelPresetId = None, op_presetKind = RepoSearchKind,
        op_allowedTools = [''read''], op_settings = []\<rparr>],
     cfg_ModelPresets = [preset_a], cfg_ActivePresetId = mp_id preset_a, cfg_runtime_model = None,
     cfg_external_server_enabled = False, cfg_engine = []\<rparr>"

definition example_task :: "string \<Rightarrow> string list \<Rightarrow> string \<Rightarrow> string list \<Rightarrow> orch_task" where
  "example_task i deps worker writes = \<lparr>task_id = i, task_title = i, task_dependsOn = deps,
     task_workerPresetId = worker, task_readPaths = [''./src''], task_writePaths = writes, task_steps = [],
     task_verification = [CommandCheck ''npm test'' ''src/..''], task_acceptance = [], task_temporaryPaths = []\<rparr>"

definition example_orch_plan :: orch_plan where
  "example_orch_plan = \<lparr>plan_goal = ''g'', plan_constraints = [],
     plan_tasks = [example_task ''look'' [''make''] ''search'' [], example_task ''make'' [] ''agent'' [''src/x'']],
     plan_finalVerification = [EvidenceCheck ''look'' [''src/x'']]\<rparr>"

definition validated_example :: orch_plan where
  "validated_example = projr (validateOrchestratorPlan example_orch_plan example_workers example_fs [''r''])"

theorem validated_plan_sound_witness:
  "is_ok (validateOrchestratorPlan example_orch_plan example_workers example_fs [''r'']) \<and>
   map task_readPaths (plan_tasks validated_example) = [[''src''], [''src'']] \<and>
   map task_verification (plan_tasks validated_example) = [[CommandCheck ''npm test'' ''.''], [CommandCheck ''npm test'' ''.'']] \<and>
   list_all (worker_ok example_workers) (plan_tasks validated_example) \<and>
   \<not> is_ok (assertDependencies [example_task ''a'' [''b''] ''agent'' [], example_task ''b'' [''a''] ''agent'' []])"
proof -
  have ok: "is_ok (validateOrchestratorPlan example_orch_plan example_workers example_fs [''r''])" by code_simp
  then have run: "validateOrchestratorPlan example_orch_plan example_workers example_fs [''r''] = Inr validated_example"
    unfolding validated_example_def by (rule is_ok_projr)
  have "map task_readPaths (plan_tasks validated_example) = [[''src''], [''src'']]" by code_simp
  moreover have "map task_verification (plan_tasks validated_example) =
      [[CommandCheck ''npm test'' ''.''], [CommandCheck ''npm test'' ''.'']]" by code_simp
  moreover have "\<not> is_ok (assertDependencies [example_task ''a'' [''b''] ''agent'' [], example_task ''b'' [''a''] ''agent'' []])"
    by code_simp
  ultimately show ?thesis using ok validated_plan_sound [OF run] by (auto simp: list_all_iff)
qed

end
