(* ===== verification/Orchestrator_Scheduler.thy ===== *)
theory Orchestrator_Scheduler
  imports Orchestrator_Plan
begin

text \<open>
  The scheduler of an orchestrator run (src/orchestrator/scheduler.ts): one pass over the plan decides
  which pending tasks start, which slots they take, and why each other pending task waits.
\<close>

section \<open>Claims\<close>

datatype schedule_error =
    ScheduleWorker plan_error
  | ScheduleModel target_error

definition require_worker :: "sift_config \<Rightarrow> orch_task \<Rightarrow> schedule_error + operation_preset" where
  "require_worker c t =
     (case requireOrchestratorWorkerPreset c t of Inl e \<Rightarrow> Inl (ScheduleWorker e) | Inr w \<Rightarrow> Inr w)"

definition isMutatingTask :: "sift_config \<Rightarrow> orch_task \<Rightarrow> schedule_error + bool" where
  "isMutatingTask c t = bind_result (require_worker c t) (\<lambda>w. Inr (workerCanMutate w))"

definition workerModelPreset :: "sift_config \<Rightarrow> operation_preset \<Rightarrow> schedule_error + model_preset" where
  "workerModelPreset c worker =
     (case bind_result (getActiveModelPreset c) (\<lambda>active.
             resolveModelRequestContext c active
               \<lparr>intent_presetId = Some (op_id worker), intent_model = None, intent_modelPresetId = None\<rparr>) of
        Inl e \<Rightarrow> Inl (ScheduleModel e)
      | Inr ctx \<Rightarrow> Inr (ctx_modelPreset ctx))"

record held_claim = task_claim +
  tc_slots :: int

definition taskClaim :: "sift_config \<Rightarrow> orch_task \<Rightarrow> schedule_error + held_claim" where
  "taskClaim c t =
     bind_result (require_worker c t) (\<lambda>worker.
     bind_result (workerModelPreset c worker) (\<lambda>model.
       Inr \<lparr>tc_taskId = task_id t, tc_modelId = mp_id model, tc_mutating = workerCanMutate worker,
            tc_contextTokens = mp_NumCtx model, tc_slots = mp_ParallelSlots model\<rparr>))"

section \<open>One pass\<close>

text \<open>\<open>new Map(pairs)\<close>: for a repeated key the last value, at the place of the first.\<close>

definition js_lookup :: "('k \<times> 'v) list \<Rightarrow> 'k \<Rightarrow> 'v option" where
  "js_lookup kvs k = map_of (rev kvs) k"

definition js_map_entries :: "('k \<times> 'v) list \<Rightarrow> ('k \<times> 'v) list" where
  "js_map_entries kvs = map (\<lambda>k. (k, the (js_lookup kvs k))) (js_dedupe (map fst kvs))"

definition task_statuses :: "orch_task_state list \<Rightarrow> string \<Rightarrow> task_status option" where
  "task_statuses states = js_lookup (map (\<lambda>s. (ts_taskId s, ts_status s)) states)"

definition taskWait ::
  "orch_task \<Rightarrow> held_claim \<Rightarrow> (string \<Rightarrow> task_status option) \<Rightarrow> held_claim list \<Rightarrow> task_wait option" where
  "taskWait t claim status held =
     (let unmet = filter (\<lambda>d. status d \<noteq> Some TaskCompleted) (task_dependsOn t) in
      if unmet \<noteq> [] then Some (WaitDependencies unmet)
      else if tc_mutating claim \<and> list_ex tc_mutating held then Some WaitWriterSlot
      else if int (length (filter (\<lambda>h. tc_modelId h = tc_modelId claim) held)) \<ge> tc_slots claim
      then Some (WaitModelSlot (tc_modelId claim))
      else None)"

record schedule_pass =
  sp_start :: "orch_task list"
  sp_schedule :: orch_schedule

text \<open>The loop over the plan's tasks; the accumulator is (held, start, waits).\<close>

fun schedule_loop ::
  "sift_config \<Rightarrow> (string \<Rightarrow> task_status option) \<Rightarrow> string list \<Rightarrow> orch_task list
   \<Rightarrow> held_claim list \<Rightarrow> orch_task list \<Rightarrow> (string \<times> task_wait) list
   \<Rightarrow> schedule_error + held_claim list \<times> orch_task list \<times> (string \<times> task_wait) list" where
  "schedule_loop c status activeIds [] held start waits = Inr (held, start, waits)"
| "schedule_loop c status activeIds (t # ts) held start waits =
     (if status (task_id t) \<noteq> Some TaskPending \<or> task_id t \<in> set activeIds
      then schedule_loop c status activeIds ts held start waits
      else bind_result (taskClaim c t) (\<lambda>claim.
        case taskWait t claim status held of
          Some w \<Rightarrow> schedule_loop c status activeIds ts held start (waits @ [(task_id t, w)])
        | None \<Rightarrow> schedule_loop c status activeIds ts (held @ [claim]) (start @ [t]) waits))"

definition schedulePass ::
  "sift_config \<Rightarrow> orch_plan \<Rightarrow> orch_task_state list \<Rightarrow> orch_task list \<Rightarrow> schedule_error + schedule_pass" where
  "schedulePass c plan states active =
     (let status = task_statuses states; activeIds = map task_id active in
      bind_result (map_ok (taskClaim c) active) (\<lambda>held0.
      bind_result (schedule_loop c status activeIds (plan_tasks plan) held0 [] []) (\<lambda>(held, start, waits).
      bind_result (map_ok (taskClaim c) (plan_tasks plan)) (\<lambda>claims.
        Inr \<lparr>sp_start = start,
             sp_schedule = \<lparr>sc_claims = map task_claim.truncate claims,
               sc_models = map (\<lambda>(m, slots). \<lparr>ms_modelId = m, ms_slots = slots,
                    ms_used = length (filter (\<lambda>h. tc_modelId h = m) held)\<rparr>)
                 (js_map_entries (map (\<lambda>h. (tc_modelId h, tc_slots h)) claims)),
               sc_writerUsed = list_ex tc_mutating held,
               sc_waits = waits\<rparr>\<rparr>))))"

section \<open>Claims and the configuration\<close>

definition slots_of :: "sift_config \<Rightarrow> string \<Rightarrow> int" where
  "slots_of c m = (case find_preset m (cfg_ModelPresets c) of None \<Rightarrow> 0 | Some p \<Rightarrow> mp_ParallelSlots p)"

lemma model_found:
  assumes "workerModelPreset c w = Inr p"
  shows "find_preset (mp_id p) (cfg_ModelPresets c) = Some p"
proof -
  obtain active ctx where a: "getActiveModelPreset c = Inr active"
    and r: "resolveModelRequestContext c active
      \<lparr>intent_presetId = Some (op_id w), intent_model = None, intent_modelPresetId = None\<rparr> = Inr ctx"
    and p: "p = ctx_modelPreset ctx"
    using assms by (auto simp: workerModelPreset_def split: sum.splits)
  from r obtain op where ip: "intended_preset c active None op = Inr p"
    by (rule resolve_cases) (auto simp: p match_model_def)
  have by_id: "find_preset (mp_id q) (cfg_ModelPresets c) = Some q" if "find_preset i (cfg_ModelPresets c) = Some q" for i q
    using find_preset_id [OF that] that by simp
  have act: "find_preset (mp_id active) (cfg_ModelPresets c) = Some active"
    using a by_id unfolding getActiveModelPreset_def by (simp split: option.splits if_splits)
  show ?thesis
    using ip act by_id unfolding intended_preset_def by (simp split: option.splits)
qed

lemma taskClaim_spec:
  assumes "taskClaim c t = Inr claim"
  shows "tc_taskId claim = task_id t" and "tc_slots claim = slots_of c (tc_modelId claim)"
    and "isMutatingTask c t = Inr (tc_mutating claim)"
    and "\<exists>p \<in> set (cfg_ModelPresets c). tc_slots claim = mp_ParallelSlots p"
proof -
  obtain w p where w: "require_worker c t = Inr w" "workerModelPreset c w = Inr p"
    and claim: "claim = \<lparr>tc_taskId = task_id t, tc_modelId = mp_id p, tc_mutating = workerCanMutate w,
      tc_contextTokens = mp_NumCtx p, tc_slots = mp_ParallelSlots p\<rparr>"
    using assms by (auto simp: taskClaim_def)
  note found = model_found [OF w(2)]
  show "tc_taskId claim = task_id t" "tc_slots claim = slots_of c (tc_modelId claim)"
    "isMutatingTask c t = Inr (tc_mutating claim)"
    by (simp_all add: claim slots_of_def found isMutatingTask_def w(1))
  have "p \<in> set (cfg_ModelPresets c)" using found by (auto simp: find_Some_iff)
  then show "\<exists>p \<in> set (cfg_ModelPresets c). tc_slots claim = mp_ParallelSlots p" by (auto simp: claim)
qed

definition model_count :: "string \<Rightarrow> held_claim list \<Rightarrow> nat" where
  "model_count m held = length (filter (\<lambda>h. tc_modelId h = m) held)"

definition writer_count :: "held_claim list \<Rightarrow> nat" where
  "writer_count held = length (filter tc_mutating held)"

definition startable :: "(string \<Rightarrow> task_status option) \<Rightarrow> string list \<Rightarrow> orch_task \<Rightarrow> bool" where
  "startable status activeIds t \<longleftrightarrow> status (task_id t) = Some TaskPending \<and> task_id t \<notin> set activeIds"

definition deps_done :: "(string \<Rightarrow> task_status option) \<Rightarrow> orch_task \<Rightarrow> bool" where
  "deps_done status t \<longleftrightarrow> list_all (\<lambda>d. status d = Some TaskCompleted) (task_dependsOn t)"

text \<open>The slots in use never grow past what the claims allow, unless they already were.\<close>

definition slots_ok :: "sift_config \<Rightarrow> held_claim list \<Rightarrow> held_claim list \<Rightarrow> bool" where
  "slots_ok c held held' \<longleftrightarrow>
     writer_count held' \<le> max 1 (writer_count held) \<and>
     (\<forall>m. int (model_count m held') \<le> max (slots_of c m) (int (model_count m held)))"

lemma slots_ok_refl: "slots_ok c held held"
  by (simp add: slots_ok_def)

lemma bounded_trans: "(x :: 'a :: linorder) \<le> max k y \<Longrightarrow> y \<le> max k z \<Longrightarrow> x \<le> max k z"
  by (auto simp: max_def split: if_splits)

lemma slots_ok_trans: "slots_ok c h1 h2 \<Longrightarrow> slots_ok c h2 h3 \<Longrightarrow> slots_ok c h1 h3"
proof -
  assume a: "slots_ok c h1 h2" "slots_ok c h2 h3"
  have "int (model_count m h3) \<le> max (slots_of c m) (int (model_count m h1))" for m
    using a unfolding slots_ok_def by (blast intro: bounded_trans)
  moreover have "writer_count h3 \<le> max 1 (writer_count h1)"
    using a unfolding slots_ok_def by (blast intro: bounded_trans)
  ultimately show ?thesis by (simp add: slots_ok_def)
qed

lemma list_ex_writer: "list_ex tc_mutating held \<longleftrightarrow> writer_count held \<noteq> 0"
  by (induction held) (auto simp: writer_count_def)

lemma start_slots_ok:
  assumes "taskWait t claim status held = None" and "tc_slots claim = slots_of c (tc_modelId claim)"
  shows "slots_ok c held (held @ [claim])" and "deps_done status t"
proof -
  have d: "filter (\<lambda>d. status d \<noteq> Some TaskCompleted) (task_dependsOn t) = []"
    and w: "tc_mutating claim \<Longrightarrow> writer_count held = 0"
    and m: "int (model_count (tc_modelId claim) held) < slots_of c (tc_modelId claim)"
    using assms by (auto simp: taskWait_def Let_def list_ex_writer model_count_def split: if_splits)
  show "deps_done status t" using d by (auto simp: deps_done_def list_all_iff filter_empty_conv)
  show "slots_ok c held (held @ [claim])"
    using w m by (auto simp: slots_ok_def writer_count_def model_count_def)
qed

lemma schedule_loop_spec:
  "schedule_loop c status activeIds ts held start waits = Inr (held', start', waits') \<Longrightarrow>
     (\<exists>new. start' = start @ new \<and> set new \<subseteq> set ts \<and> list_all (\<lambda>t. startable status activeIds t \<and> deps_done status t) new \<and>
        (\<exists>cls. map_ok (taskClaim c) new = Inr cls \<and> held' = held @ cls)) \<and>
     slots_ok c held held' \<and>
     (task_id ` set start' \<union> fst ` set waits' =
        task_id ` set start \<union> fst ` set waits \<union> {task_id t | t. t \<in> set ts \<and> startable status activeIds t})"
proof (induction ts arbitrary: held start waits)
  case Nil
  then show ?case by (simp add: slots_ok_refl)
next
  case (Cons t ts)
  show ?case
  proof (cases "startable status activeIds t")
    case False
    then have "schedule_loop c status activeIds ts held start waits = Inr (held', start', waits')"
      using Cons.prems by (auto simp: startable_def)
    from Cons.IH [OF this] False show ?thesis by auto
  next
    case True
    then obtain claim where claim: "taskClaim c t = Inr claim"
      and rest: "(case taskWait t claim status held of
          Some w \<Rightarrow> schedule_loop c status activeIds ts held start (waits @ [(task_id t, w)])
        | None \<Rightarrow> schedule_loop c status activeIds ts (held @ [claim]) (start @ [t]) waits) = Inr (held', start', waits')"
      using Cons.prems by (auto simp: startable_def)
    note spec = taskClaim_spec [OF claim]
    show ?thesis
    proof (cases "taskWait t claim status held")
      case (Some w)
      from Cons.IH [of held start "waits @ [(task_id t, w)]"] rest Some True show ?thesis by auto
    next
      case None
      note st = start_slots_ok [OF None spec(2)]
      from rest None have "schedule_loop c status activeIds ts (held @ [claim]) (start @ [t]) waits = Inr (held', start', waits')"
        by simp
      note IH = Cons.IH [OF this]
      then obtain new where new: "start' = (start @ [t]) @ new" "set new \<subseteq> set ts"
        "list_all (\<lambda>t. startable status activeIds t \<and> deps_done status t) new"
        "\<exists>cls. map_ok (taskClaim c) new = Inr cls \<and> held' = (held @ [claim]) @ cls" by blast
      have "slots_ok c held held'" using IH slots_ok_trans [OF st(1)] by blast
      moreover have "\<exists>new. start' = start @ new \<and> set new \<subseteq> set (t # ts) \<and>
          list_all (\<lambda>t. startable status activeIds t \<and> deps_done status t) new \<and>
          (\<exists>cls. map_ok (taskClaim c) new = Inr cls \<and> held' = held @ cls)"
        by (rule exI [of _ "t # new"]) (use new True st(2) claim in auto)
      moreover have "task_id ` set start' \<union> fst ` set waits' =
          task_id ` set start \<union> fst ` set waits \<union> {task_id u | u. u \<in> set (t # ts) \<and> startable status activeIds u}"
        using IH True by auto
      ultimately show ?thesis by blast
    qed
  qed
qed

lemma schedulePass_spec:
  assumes "schedulePass c plan states active = Inr pass"
  obtains held0 held waits where "map_ok (taskClaim c) active = Inr held0"
    "schedule_loop c (task_statuses states) (map task_id active) (plan_tasks plan) held0 [] [] =
       Inr (held, sp_start pass, waits)"
    "sc_waits (sp_schedule pass) = waits" "sc_writerUsed (sp_schedule pass) = list_ex tc_mutating held"
proof -
  from assms obtain held0 held start waits claims where
    1: "map_ok (taskClaim c) active = Inr held0" and
    2: "schedule_loop c (task_statuses states) (map task_id active) (plan_tasks plan) held0 [] [] = Inr (held, start, waits)" and
    3: "map_ok (taskClaim c) (plan_tasks plan) = Inr claims" and
    4: "sp_start pass = start" "sc_waits (sp_schedule pass) = waits"
      "sc_writerUsed (sp_schedule pass) = list_ex tc_mutating held"
    unfolding schedulePass_def Let_def by (auto split: prod.splits)
  then show thesis using that by blast
qed

lemma map_ok_append: "map_ok f xs = Inr as \<Longrightarrow> map_ok f ys = Inr bs \<Longrightarrow> map_ok f (xs @ ys) = Inr (as @ bs)"
  by (simp add: map_ok_Inr list_all2_appendI)

lemma schedule_loop_starts:
  assumes "schedule_loop c status activeIds ts [] [] waits = Inr (held', start', waits')"
    and "\<exists>t \<in> set ts. startable status activeIds t \<and> deps_done status t"
    and "\<forall>p \<in> set (cfg_ModelPresets c). 0 < mp_ParallelSlots p"
  shows "start' \<noteq> []"
  using assms
proof (induction ts arbitrary: waits)
  case (Cons t ts)
  show ?case
  proof (cases "startable status activeIds t")
    case False
    then show ?thesis using Cons by (auto simp: startable_def)
  next
    case True
    then obtain claim where claim: "taskClaim c t = Inr claim"
      and rest: "(case taskWait t claim status [] of
          Some w \<Rightarrow> schedule_loop c status activeIds ts [] [] (waits @ [(task_id t, w)])
        | None \<Rightarrow> schedule_loop c status activeIds ts ([] @ [claim]) ([] @ [t]) waits) = Inr (held', start', waits')"
      using Cons.prems(1) by (auto simp: startable_def)
    show ?thesis
    proof (cases "taskWait t claim status []")
      case None
      then show ?thesis using rest schedule_loop_spec [of c status activeIds ts "[claim]" "[t]" waits] by auto
    next
      case (Some w)
      have "0 < tc_slots claim" using taskClaim_spec(4) [OF claim] Cons.prems(3) by auto
      then have "\<not> deps_done status t"
        using Some by (auto simp: taskWait_def Let_def deps_done_def list_all_iff filter_empty_conv split: if_splits)
      then show ?thesis using Cons.IH rest Some Cons.prems(2,3) by auto
    qed
  qed
qed simp

text \<open>Among unfinished tasks of an acyclic plan one has no unfinished dependency.\<close>

lemma first_unfinished:
  assumes "acyclic (dep_rel tasks)" and "Domain (dep_rel tasks) \<subseteq> task_id ` set tasks"
    and "\<exists>t \<in> set tasks. status (task_id t) \<noteq> Some TaskCompleted"
  shows "\<exists>t \<in> set tasks. status (task_id t) \<noteq> Some TaskCompleted \<and> deps_done status t"
proof -
  let ?P = "{task_id t | t. t \<in> set tasks \<and> status (task_id t) \<noteq> Some TaskCompleted}"
  have "dep_rel tasks = (\<Union>t \<in> set tasks. (\<lambda>d. (d, task_id t)) ` set (task_dependsOn t))"
    by (auto simp: dep_rel_def)
  then have "finite (dep_rel tasks)" by simp
  then have wf: "wf (dep_rel tasks)" using assms(1) by (rule finite_acyclic_wf)
  obtain i where i: "i \<in> ?P" "\<And>d. (d, i) \<in> dep_rel tasks \<Longrightarrow> d \<notin> ?P"
    using wfE_min [OF wf, of _ ?P] assms(3) by blast
  then obtain t where t: "t \<in> set tasks" "i = task_id t" "status (task_id t) \<noteq> Some TaskCompleted" by blast
  have "status d = Some TaskCompleted" if "d \<in> set (task_dependsOn t)" for d
  proof -
    have di: "(d, i) \<in> dep_rel tasks" using that t by (auto simp: dep_rel_def)
    then have "d \<in> task_id ` set tasks" using assms(2) by blast
    then show ?thesis using i(2) [OF di] by auto
  qed
  then show ?thesis using t by (auto simp: deps_done_def list_all_iff)
qed

text \<open>C26. What one scheduling pass may start. The tasks a pass starts are pending tasks of the plan that
  are not active and whose every dependency completed; with them, of all claims held (those of the
  active tasks and of the started ones) at most one mutates, and each model's slots hold at most its
  number of parallel slots, unless the active tasks alone already exceeded that; and every pending
  task that is not active is either started or given a reason to wait.\<close>

theorem schedule_pass_safe:
  assumes "schedulePass c plan states active = Inr pass"
  shows "\<exists>held0 held. map_ok (taskClaim c) active = Inr held0 \<and>
    map_ok (taskClaim c) (active @ sp_start pass) = Inr held \<and>
    writer_count held \<le> max 1 (writer_count held0) \<and>
    (\<forall>m. int (model_count m held) \<le> max (slots_of c m) (int (model_count m held0))) \<and>
    list_all (\<lambda>t. t \<in> set (plan_tasks plan) \<and> startable (task_statuses states) (map task_id active) t \<and>
      deps_done (task_statuses states) t) (sp_start pass) \<and>
    task_id ` set (sp_start pass) \<union> fst ` set (sc_waits (sp_schedule pass)) =
      {task_id t | t. t \<in> set (plan_tasks plan) \<and> startable (task_statuses states) (map task_id active) t}"
proof -
  obtain held0 held waits where h0: "map_ok (taskClaim c) active = Inr held0"
    and l: "schedule_loop c (task_statuses states) (map task_id active) (plan_tasks plan) held0 [] [] =
       Inr (held, sp_start pass, waits)" and w: "sc_waits (sp_schedule pass) = waits"
    by (rule schedulePass_spec [OF assms]) blast
  note S = schedule_loop_spec [OF l]
  then have "map_ok (taskClaim c) (active @ sp_start pass) = Inr held" using map_ok_append [OF h0] by auto
  moreover have "list_all (\<lambda>t. t \<in> set (plan_tasks plan) \<and> startable (task_statuses states) (map task_id active) t \<and>
      deps_done (task_statuses states) t) (sp_start pass)" using S by (auto simp: list_all_iff)
  ultimately show ?thesis using h0 S w by (simp add: slots_ok_def)
qed

text \<open>Scheduling makes progress. When the plan's dependencies were validated, nothing is active, every
  task is pending or completed with some task left, and every model has a slot, the pass starts a
  task: a run never stops as blocked while all its finished tasks succeeded.\<close>

theorem schedule_pass_progress:
  assumes "schedulePass c plan states [] = Inr pass"
    and "assertDependencies (plan_tasks plan) = Inr ()"
    and "\<forall>t \<in> set (plan_tasks plan). task_statuses states (task_id t) \<in> {Some TaskPending, Some TaskCompleted}"
    and "\<exists>t \<in> set (plan_tasks plan). task_statuses states (task_id t) \<noteq> Some TaskCompleted"
    and "\<forall>p \<in> set (cfg_ModelPresets c). 0 < mp_ParallelSlots p"
  shows "sp_start pass \<noteq> []"
proof -
  obtain held0 held waits where h0: "map_ok (taskClaim c) [] = Inr held0"
    and l: "schedule_loop c (task_statuses states) (map task_id ([] :: orch_task list)) (plan_tasks plan) held0 [] [] =
       Inr (held, sp_start pass, waits)"
    by (rule schedulePass_spec [OF assms(1)]) (rule that)
  have "acyclic (dep_rel (plan_tasks plan))" "Domain (dep_rel (plan_tasks plan)) \<subseteq> task_id ` set (plan_tasks plan)"
    using assms(2) by (simp_all add: assertDependencies_iff)
  from first_unfinished [OF this assms(4)] assms(3)
  have "\<exists>t \<in> set (plan_tasks plan). startable (task_statuses states) [] t \<and> deps_done (task_statuses states) t"
    by (force simp: startable_def)
  then show ?thesis using schedule_loop_starts l h0 assms(5) by auto
qed

definition example_states_pending :: "orch_task_state list" where
  "example_states_pending = map (\<lambda>t. \<lparr>ts_taskId = task_id t, ts_status = TaskPending, ts_driftReview = None,
     ts_reviewedDigests = []\<rparr>) (plan_tasks example_orch_plan)"

definition example_pass :: schedule_pass where
  "example_pass = projr (schedulePass example_workers example_orch_plan example_states_pending [])"

lemma example_pass_ok: "schedulePass example_workers example_orch_plan example_states_pending [] = Inr example_pass"
  unfolding example_pass_def by (rule is_ok_projr) code_simp

theorem schedule_pass_safe_witness:
  "map task_id (sp_start example_pass) = [''make''] \<and>
   sc_waits (sp_schedule example_pass) = [(''look'', WaitDependencies [''make''])] \<and>
   (\<exists>held. map_ok (taskClaim example_workers) (sp_start example_pass) = Inr held)"
proof -
  have "map task_id (sp_start example_pass) = [''make''] \<and>
      sc_waits (sp_schedule example_pass) = [(''look'', WaitDependencies [''make''])]" by code_simp
  then show ?thesis using schedule_pass_safe [OF example_pass_ok] by auto
qed

theorem schedule_pass_progress_witness: "sp_start example_pass \<noteq> []"
proof (rule schedule_pass_progress [OF example_pass_ok])
  show "assertDependencies (plan_tasks example_orch_plan) = Inr ()" by code_simp
  have st: "list_all (\<lambda>t. task_statuses example_states_pending (task_id t) = Some TaskPending) (plan_tasks example_orch_plan)"
    by code_simp
  then show "\<forall>t \<in> set (plan_tasks example_orch_plan). task_statuses example_states_pending (task_id t) \<in>
      {Some TaskPending, Some TaskCompleted}" by (simp add: list_all_iff)
  show "\<exists>t \<in> set (plan_tasks example_orch_plan). task_statuses example_states_pending (task_id t) \<noteq> Some TaskCompleted"
    using st by (simp add: list_all_iff example_orch_plan_def)
  show "\<forall>p \<in> set (cfg_ModelPresets example_workers). 0 < mp_ParallelSlots p"
    by (simp add: example_workers_def preset_a_def)
qed

end
