(* ===== verification/Orchestrator_Review.thy ===== *)
theory Orchestrator_Review
  imports Orchestrator_Data Repo_Paths
begin

text \<open>
  Independent verification of a child's work (src/orchestrator/verification.ts) and the drift reports
  that gate code changes (src/orchestrator/drift-review.ts). Running a check command is not modelled;
  its recorded result is. Findings and problems are constructors with the values their messages print.
\<close>

section \<open>Text\<close>

definition normalizeCode :: "string \<Rightarrow> string" where
  "normalizeCode s = js_trim (collapse_space s)"

fun js_includes :: "string \<Rightarrow> string \<Rightarrow> bool" where
  "js_includes [] t = (t = [])"
| "js_includes (c # s) t = (js_starts_with t (c # s) \<or> js_includes s t)"

section \<open>Evidence\<close>

record source_files = file_system +
  sf_text :: "string list \<Rightarrow> string option"

datatype evidence_problem =
    EvidencePathMissing string
  | EvidencePastEnd string nat
  | EvidenceNotThere string nat

text \<open>What the file system calls throw: the resolution of a real path, and the read of what is not a
  readable file (a directory exists, but its read throws).\<close>

datatype evidence_error =
    ResolveThrew path_error
  | ReadThrew "string list"

definition SNIPPET_LINE_TOLERANCE :: nat where
  "SNIPPET_LINE_TOLERANCE = 2"

definition evidence_window :: "string list \<Rightarrow> nat \<Rightarrow> string" where
  "evidence_window lines line =
     js_join [LF] (drop (line - 1 - SNIPPET_LINE_TOLERANCE) (take (line + SNIPPET_LINE_TOLERANCE) lines))"

definition findEvidenceProblem ::
  "source_files \<Rightarrow> string list \<Rightarrow> code_evidence \<Rightarrow> evidence_error + evidence_problem option" where
  "findEvidenceProblem fs root e =
     (case resolveRepoScopedPath (file_system.truncate fs) root (Some (ev_path e)) of
        Inl err \<Rightarrow> Inl (ResolveThrew err)
      | Inr None \<Rightarrow> Inr (Some (EvidencePathMissing (ev_path e)))
      | Inr (Some sp) \<Rightarrow>
          if \<not> fs_exists fs (sp_absolute sp) then Inr (Some (EvidencePathMissing (ev_path e)))
          else (case sf_text fs (sp_absolute sp) of
              None \<Rightarrow> Inl (ReadThrew (sp_absolute sp))
            | Some text \<Rightarrow>
                let lines = split_lines text in
                if ev_line e > length lines then Inr (Some (EvidencePastEnd (ev_path e) (ev_line e)))
                else if js_includes (normalizeCode (evidence_window lines (ev_line e))) (normalizeCode (ev_snippet e))
                then Inr None else Inr (Some (EvidenceNotThere (ev_path e) (ev_line e)))))"

text \<open>The problems of a list of citations, tagged; the first exception ends the walk.\<close>

definition citation_problems ::
  "source_files \<Rightarrow> string list \<Rightarrow> (evidence_problem \<Rightarrow> 'p) \<Rightarrow> code_evidence list \<Rightarrow> evidence_error + 'p list" where
  "citation_problems fs root tag es =
     bind_result (map_ok (findEvidenceProblem fs root) es) (\<lambda>ps.
       Inr (concat (map (\<lambda>p. case p of None \<Rightarrow> [] | Some q \<Rightarrow> [tag q]) ps)))"

definition findReviewEvidenceProblems ::
  "source_files \<Rightarrow> string list \<Rightarrow> (evidence_problem \<Rightarrow> 'p) \<Rightarrow> task_review \<Rightarrow> evidence_error + 'p list" where
  "findReviewEvidenceProblems fs root tag review =
     (case review of ReviewFail _ \<Rightarrow> Inr [] | ReviewPass evidence \<Rightarrow> citation_problems fs root tag evidence)"

section \<open>Evaluating an attempt\<close>

datatype attempt_finding =
    WorkerEnded worker_status
  | CheckFailed check_failure
  | OutsideScope string
  | EvidenceNotReviewed
  | ReviewIssue string nat string
  | ReviewEvidence evidence_problem

definition is_evidence_check :: "orch_check \<Rightarrow> bool" where
  "is_evidence_check c = (case c of EvidenceCheck _ _ \<Rightarrow> True | CommandCheck _ _ \<Rightarrow> False)"

definition unexecutedCheck :: "orch_check \<Rightarrow> string \<Rightarrow> check_result" where
  "unexecutedCheck c out = \<lparr>cr_check = c, cr_executed = False, cr_exitCode = None, cr_timedOut = False, cr_output = out\<rparr>"

definition check_findings :: "check_result list \<Rightarrow> attempt_finding list" where
  "check_findings checks =
     concat (map (\<lambda>r. case orchestratorCheckFailure r of None \<Rightarrow> [] | Some f \<Rightarrow> [CheckFailed f]) checks)"

definition evaluateAttempt ::
  "source_files \<Rightarrow> string list \<Rightarrow> worker_status \<Rightarrow> check_result list \<Rightarrow> string list \<Rightarrow> task_review option
   \<Rightarrow> evidence_error + bool \<times> attempt_finding list" where
  "evaluateAttempt fs root status checks violations review =
     bind_result (case review of None \<Rightarrow> Inr [] | Some r \<Rightarrow> findReviewEvidenceProblems fs root ReviewEvidence r) (\<lambda>cited.
       let findings =
          (if status \<noteq> WorkerCompleted then [WorkerEnded status] else [])
          @ check_findings checks
          @ map OutsideScope violations
          @ (if list_ex (\<lambda>r. is_evidence_check (cr_check r)) checks \<and> review = None then [EvidenceNotReviewed] else [])
          @ (case review of Some (ReviewFail fs) \<Rightarrow> map (\<lambda>(p, l, i). ReviewIssue p l i) fs | _ \<Rightarrow> [])
          @ cited
       in Inr (findings = [], findings))"

section \<open>Drift reports\<close>

datatype drift_problem =
    WrongStep string
  | WrongDigest
  | HostOnlyStatus
  | ReportedTwice string
  | FindingEvidence string evidence_problem
  | NoChangedCode string
  | PriorUnaccounted string

fun finding_problems ::
  "source_files \<Rightarrow> string list \<Rightarrow> string list \<Rightarrow> string list \<Rightarrow> drift_finding list
   \<Rightarrow> evidence_error + drift_problem list" where
  "finding_problems fs root changedPaths reported [] = Inr []"
| "finding_problems fs root changedPaths reported (f # fs') =
     bind_result (citation_problems fs root (FindingEvidence (df_id f)) (df_evidence f)) (\<lambda>cited.
     bind_result (finding_problems fs root changedPaths (df_id f # reported) fs') (\<lambda>rest.
       Inr ((if df_id f \<in> set reported then [ReportedTwice (df_id f)] else [])
         @ cited
         @ (if \<not> list_ex (\<lambda>e. ev_path e \<in> set changedPaths) (df_evidence f) then [NoChangedCode (df_id f)] else [])
         @ rest)))"

definition validateDriftReview ::
  "source_files \<Rightarrow> string list \<Rightarrow> drift_review \<Rightarrow> string \<Rightarrow> string \<Rightarrow> string list \<Rightarrow> drift_finding list
   \<Rightarrow> evidence_error + drift_problem list" where
  "validateDriftReview fs root review taskId digest changedPaths openFindings =
     (let problems = (if dr_taskId review \<noteq> taskId then [WrongStep (dr_taskId review)] else [])
          @ (if dr_changeDigest review \<noteq> digest then [WrongDigest] else []) in
      if dr_status review = NotRequired then Inr (problems @ [HostOnlyStatus])
      else let resolved = map fst (dr_resolutions review); findings = review_findings review in
        bind_result (finding_problems fs root changedPaths [] findings) (\<lambda>found.
          Inr (problems @ found
            @ concat (map (\<lambda>f. if df_id f \<notin> set resolved \<and> df_id f \<notin> df_id ` set findings
                               then [PriorUnaccounted (df_id f)] else []) openFindings))))"

text \<open>\<open>dedupeChecks\<close>: two checks are the same when their stable JSON is, which is when they are equal.\<close>

definition dedupeChecks :: "orch_check list \<Rightarrow> orch_check list" where
  "dedupeChecks checks = js_dedupe checks"

definition buildDriftCorrectionWork :: "orch_task \<Rightarrow> string \<Rightarrow> drift_finding list \<Rightarrow> drift_work" where
  "buildDriftCorrectionWork t digest findings =
     \<lparr>dw_taskId = task_id t,
      dw_objective = task_title t @ ''. Acceptance: '' @ js_join '' '' (task_acceptance t),
      dw_changeDigest = digest,
      dw_findings = findings,
      dw_allowedPaths = js_dedupe (task_writePaths t @ concat (map df_affectedPaths findings)),
      dw_verification = dedupeChecks (task_verification t @ concat (map df_verification findings))\<rparr>"

section \<open>When an attempt passes\<close>

definition command_passed :: "check_result \<Rightarrow> bool" where
  "command_passed r \<longleftrightarrow> is_evidence_check (cr_check r) \<or>
     cr_executed r \<and> \<not> cr_timedOut r \<and> cr_exitCode r = Some 0"

lemma check_failure_iff: "orchestratorCheckFailure r = None \<longleftrightarrow> command_passed r"
  by (cases "cr_check r")
    (auto simp: orchestratorCheckFailure_def command_passed_def is_evidence_check_def expectedExitCode_def)

lemma citations_hold:
  "citation_problems fs root tag es = Inr [] \<longleftrightarrow> list_all (\<lambda>e. findEvidenceProblem fs root e = Inr None) es"
proof (induction es)
  case (Cons e es)
  show ?case
  proof (cases "findEvidenceProblem fs root e")
    case (Inr p)
    then show ?thesis using Cons by (cases p) (auto simp: citation_problems_def split: sum.splits)
  qed (simp add: citation_problems_def)
qed (simp add: citation_problems_def)

lemma failed_checks_Nil:
  "check_findings checks = [] \<longleftrightarrow> list_all command_passed checks"
proof (induction checks)
  case (Cons r checks)
  then show ?case using check_failure_iff [of r]
    by (cases "orchestratorCheckFailure r") (simp_all add: check_findings_def)
qed (simp add: check_findings_def)

text \<open>When an attempt passes: exactly when the worker completed, every command check was executed,
  did not time out and exited 0, nothing outside the write scope changed, and, of the review: there is
  one if any check asks for evidence, it is not a failure that names issues, and every citation of a
  passing review holds in the repository.\<close>

theorem attempt_passes_exactly:
  "(\<exists>fs'. evaluateAttempt fs root status checks violations review = Inr (True, fs')) =
     (status = WorkerCompleted \<and> list_all command_passed checks \<and> violations = [] \<and>
      (case review of
         None \<Rightarrow> \<not> list_ex (\<lambda>r. is_evidence_check (cr_check r)) checks
       | Some (ReviewFail issues) \<Rightarrow> issues = []
       | Some (ReviewPass es) \<Rightarrow> list_all (\<lambda>e. findEvidenceProblem fs root e = Inr None) es))"
proof (cases review)
  case None
  then show ?thesis by (auto simp: evaluateAttempt_def Let_def failed_checks_Nil)
next
  case (Some r)
  show ?thesis
  proof (cases r)
    case (ReviewFail issues)
    then show ?thesis using Some
      by (auto simp: evaluateAttempt_def findReviewEvidenceProblems_def Let_def failed_checks_Nil)
  next
    case (ReviewPass es)
    then show ?thesis using Some citations_hold [of fs root ReviewEvidence es]
      by (auto simp: evaluateAttempt_def findReviewEvidenceProblems_def Let_def failed_checks_Nil)
  qed
qed

section \<open>When a drift report is usable\<close>

lemma finding_problems_Nil:
  "finding_problems fs root changed reported findings = Inr [] \<longleftrightarrow>
     distinct (map df_id findings) \<and> df_id ` set findings \<inter> set reported = {} \<and>
     list_all (\<lambda>f. list_all (\<lambda>e. findEvidenceProblem fs root e = Inr None) (df_evidence f) \<and>
       list_ex (\<lambda>e. ev_path e \<in> set changed) (df_evidence f)) findings"
proof (induction findings arbitrary: reported)
  case (Cons f findings)
  have "finding_problems fs root changed reported (f # findings) = Inr [] \<longleftrightarrow>
      citation_problems fs root (FindingEvidence (df_id f)) (df_evidence f) = Inr [] \<and>
      finding_problems fs root changed (df_id f # reported) findings = Inr [] \<and>
      df_id f \<notin> set reported \<and> list_ex (\<lambda>e. ev_path e \<in> set changed) (df_evidence f)"
    by auto
  then show ?case using Cons.IH [of "df_id f # reported"] citations_hold [of fs root "FindingEvidence (df_id f)"] by auto
qed simp

lemma unaccounted_Nil:
  "concat (map (\<lambda>f. if P f then [g f] else []) fs) = [] \<longleftrightarrow> list_all (\<lambda>f. \<not> P f) fs"
  by (induction fs) auto

text \<open>When a drift report is usable: exactly when it names the step and the current change digest, does
  not claim that no review was required, reports no finding twice, every finding cites code this step
  changed and only evidence that holds, and every prior finding is resolved or reported again.\<close>

theorem drift_report_usable_exactly:
  "(validateDriftReview fs root review taskId digest changed open_findings = Inr []) =
     (dr_taskId review = taskId \<and> dr_changeDigest review = digest \<and> dr_status review \<noteq> NotRequired \<and>
      distinct (map df_id (review_findings review)) \<and>
      list_all (\<lambda>f. list_all (\<lambda>e. findEvidenceProblem fs root e = Inr None) (df_evidence f) \<and>
        list_ex (\<lambda>e. ev_path e \<in> set changed) (df_evidence f)) (review_findings review) \<and>
      list_all (\<lambda>f. df_id f \<in> fst ` set (dr_resolutions review) \<union> df_id ` set (review_findings review)) open_findings)"
proof -
  have acc: "concat (map (\<lambda>f. if df_id f \<notin> set (map fst (dr_resolutions review)) \<and> df_id f \<notin> df_id ` set (review_findings review)
      then [PriorUnaccounted (df_id f)] else []) open_findings) = [] \<longleftrightarrow>
      list_all (\<lambda>f. df_id f \<in> fst ` set (dr_resolutions review) \<union> df_id ` set (review_findings review)) open_findings"
    unfolding unaccounted_Nil by (simp add: list_all_iff)
  have fp: "finding_problems fs root changed [] (review_findings review) = Inr [] \<longleftrightarrow>
      distinct (map df_id (review_findings review)) \<and>
      list_all (\<lambda>f. list_all (\<lambda>e. findEvidenceProblem fs root e = Inr None) (df_evidence f) \<and>
        list_ex (\<lambda>e. ev_path e \<in> set changed) (df_evidence f)) (review_findings review)"
    by (simp add: finding_problems_Nil)
  show ?thesis
  proof (cases "dr_status review = NotRequired")
    case True
    then show ?thesis by (simp add: validateDriftReview_def)
  next
    case False
    have "validateDriftReview fs root review taskId digest changed open_findings = Inr [] \<longleftrightarrow>
        dr_taskId review = taskId \<and> dr_changeDigest review = digest \<and>
        finding_problems fs root changed [] (review_findings review) = Inr [] \<and>
        concat (map (\<lambda>f. if df_id f \<notin> set (map fst (dr_resolutions review)) \<and> df_id f \<notin> df_id ` set (review_findings review)
          then [PriorUnaccounted (df_id f)] else []) open_findings) = []"
      using False unfolding validateDriftReview_def Let_def bind_result_Inr by (auto split: if_splits)
    then show ?thesis unfolding acc fp using False by auto
  qed
qed

section \<open>Citations that quote the file\<close>

lemma dropWhile_append_stop: "x \<noteq> [] \<Longrightarrow> \<not> P (hd x) \<Longrightarrow> dropWhile P (p @ x) = dropWhile P p @ x"
  by (induction p) (auto simp: neq_Nil_conv)

lemma collapse_append_left:
  "x \<noteq> [] \<Longrightarrow> \<not> js_space (hd x) \<Longrightarrow> collapse_space (p @ x) = collapse_space p @ collapse_space x"
proof (induction p rule: collapse_space.induct)
  case (2 c cs)
  then show ?case by (simp add: dropWhile_append_stop)
qed simp

lemma collapse_append_right:
  "x \<noteq> [] \<Longrightarrow> \<not> js_space (last x) \<Longrightarrow> collapse_space (x @ q) = collapse_space x @ collapse_space q"
proof (induction x rule: collapse_space.induct)
  case (2 c cs)
  show ?case
  proof (cases "cs = []")
    case True
    then show ?thesis using 2 by simp
  next
    case False
    then have last: "\<not> js_space (last cs)" using "2.prems" by simp
    then have ex: "\<exists>y \<in> set cs. \<not> js_space y" using False last_in_set by blast
    have dw: "dropWhile js_space (cs @ q) = dropWhile js_space cs @ q" using ex by (induction cs) auto
    have ne: "dropWhile js_space cs \<noteq> []" using ex by (simp add: dropWhile_eq_Nil_conv)
    have "last (dropWhile js_space cs) = last cs"
      using ne by (metis last_append takeWhile_dropWhile_id)
    then show ?thesis using "2.IH" False last dw ne by simp
  qed
qed simp

lemma collapse_ends:
  "x \<noteq> [] \<Longrightarrow> collapse_space x \<noteq> [] \<and>
     (\<not> js_space (hd x) \<longrightarrow> \<not> js_space (hd (collapse_space x))) \<and>
     (\<not> js_space (last x) \<longrightarrow> \<not> js_space (last (collapse_space x)))"
proof (intro conjI impI)
  assume ne: "x \<noteq> []"
  then show "collapse_space x \<noteq> []" by (cases x) auto
  show "\<not> js_space (hd (collapse_space x))" if "\<not> js_space (hd x)" using ne that by (cases x) auto
  show "\<not> js_space (last (collapse_space x))" if l: "\<not> js_space (last x)"
  proof -
    have "collapse_space (butlast x @ [last x]) = collapse_space (butlast x) @ collapse_space [last x]"
      by (rule collapse_append_left) (use l in auto)
    then show ?thesis using ne l by simp
  qed
qed

lemma js_trim_around:
  assumes "x \<noteq> []" and "\<not> js_space (hd x)" and "\<not> js_space (last x)"
  shows "\<exists>a b. js_trim (p @ x @ q) = a @ x @ b" and "js_trim x = x"
proof -
  have e: "js_trim_end (a @ x @ q) = a @ x @ rev (dropWhile js_space (rev q))" for a q
  proof -
    have "rev (a @ x @ q) = rev q @ rev (a @ x)" by simp
    moreover have "dropWhile js_space (rev q @ rev (a @ x)) = dropWhile js_space (rev q) @ rev (a @ x)"
      by (rule dropWhile_append_stop) (use assms in \<open>simp_all add: hd_rev hd_append\<close>)
    ultimately show ?thesis by (simp add: js_trim_end_def)
  qed
  have s: "js_trim_start (p @ x @ q) = dropWhile js_space p @ x @ q" for p q
    unfolding js_trim_start_def by (rule dropWhile_append_stop) (use assms in simp_all)
  show "\<exists>a b. js_trim (p @ x @ q) = a @ x @ b" by (simp add: js_trim_def s e) blast
  show "js_trim x = x" using s [of "[]" "[]"] e [of "[]" "[]"] by (simp add: js_trim_def)
qed

lemma js_includes_start: "js_starts_with t s \<Longrightarrow> js_includes s t"
  by (cases s) (auto simp: js_starts_with_def)

lemma js_includes_append: "js_includes (a @ x @ b) x"
proof (induction a)
  case Nil
  have "js_starts_with x (x @ b)" by (simp add: js_starts_with_def)
  then show ?case by (simp add: js_includes_start)
qed simp

lemma js_trim_fixed:
  assumes "js_trim x = x" and "x \<noteq> []"
  shows "\<not> js_space (hd x)" and "\<not> js_space (last x)"
proof -
  have len: "length (js_trim_end s) \<le> length s" "length (js_trim_start s) \<le> length s" for s
    by (simp_all add: js_trim_end_def js_trim_start_def) (metis length_dropWhile_le length_rev)+
  have "length (js_trim_start x) = length x" using len(1) [of "js_trim_start x"] len(2) [of x] assms(1) by (simp add: js_trim_def)
  then have st: "js_trim_start x = x"
    unfolding js_trim_start_def by (metis append_eq_append_conv append_self_conv2 takeWhile_dropWhile_id)
  then show "\<not> js_space (hd x)" using assms(2) unfolding js_trim_start_def by (metis hd_dropWhile)
  have "rev (dropWhile js_space (rev x)) = x" using assms(1) st by (simp add: js_trim_def js_trim_end_def)
  then have "dropWhile js_space (rev x) = rev x" by (metis rev_rev_ident)
  then show "\<not> js_space (last x)" using assms(2) by (metis hd_dropWhile hd_rev rev_is_Nil_conv)
qed

lemma quote_found:
  assumes "js_trim x = x" and "x \<noteq> []"
  shows "js_includes (normalizeCode (p @ x @ q)) (normalizeCode x)"
proof -
  note x = js_trim_fixed [OF assms]
  have "collapse_space (p @ x @ q) = collapse_space p @ collapse_space x @ collapse_space q"
    using assms(2) x by (simp add: collapse_append_left collapse_append_right)
  moreover note ends = collapse_ends [OF assms(2)]
  ultimately obtain a b where "normalizeCode (p @ x @ q) = a @ collapse_space x @ b"
    using js_trim_around(1) [of "collapse_space x"] x unfolding normalizeCode_def by metis
  moreover have "normalizeCode x = collapse_space x"
    using ends x js_trim_around(2) [of "collapse_space x"] by (simp add: normalizeCode_def)
  ultimately show ?thesis by (simp add: js_includes_append)
qed

text \<open>A faithful citation is never rejected. If the cited path is a readable file of the repository, the
  line is not past its end, and the trimmed snippet occurs literally in the lines around it (two before
  to two after), the check finds no problem, whatever white space the snippet and the file hold.\<close>

theorem faithful_citation_accepted:
  assumes "resolveRepoScopedPath (file_system.truncate fs) root (Some (ev_path e)) = Inr (Some sp)"
    and "fs_exists fs (sp_absolute sp)" and "sf_text fs (sp_absolute sp) = Some text"
    and "ev_line e \<le> length (split_lines text)"
    and "evidence_window (split_lines text) (ev_line e) = p @ ev_snippet e @ q"
    and "js_trim (ev_snippet e) = ev_snippet e" and "ev_snippet e \<noteq> []"
  shows "findEvidenceProblem fs root e = Inr None"
  using assms quote_found [OF assms(6,7), of p q] by (simp add: findEvidenceProblem_def Let_def)

text \<open>A citation of a directory is not a bad citation but a crash. If the cited path exists in the
  repository and is not a readable file, the evaluation of the attempt throws: the parent is not asked
  again, and the run ends as an internal error.\<close>

theorem directory_citation_throws:
  assumes "resolveRepoScopedPath (file_system.truncate fs) root (Some (ev_path e)) = Inr (Some sp)"
    and "fs_exists fs (sp_absolute sp)" and "sf_text fs (sp_absolute sp) = None"
  shows "evaluateAttempt fs root status checks violations (Some (ReviewPass (e # es))) = Inl (ReadThrew (sp_absolute sp))"
  using assms
  by (simp add: evaluateAttempt_def findReviewEvidenceProblems_def citation_problems_def findEvidenceProblem_def)

text \<open>A repository with a file of three lines and a directory.\<close>

definition example_sources :: source_files where
  "example_sources = \<lparr>fs_exists = (\<lambda>p. p \<in> {[], [''r''], [''r'', ''src''], [''r'', ''f'']}),
     fs_realpath = (\<lambda>p. if p \<in> {[], [''r''], [''r'', ''src''], [''r'', ''f'']} then Some p else None),
     sf_text = (\<lambda>p. if p = [''r'', ''f''] then Some (''one'' @ [CR, LF] @ ''two  =  2;'' @ [LF] @ ''three'') else None)\<rparr>"

definition quoting :: "string \<Rightarrow> string \<Rightarrow> code_evidence" where
  "quoting path snippet = \<lparr>ev_path = path, ev_line = 2, ev_snippet = snippet\<rparr>"

theorem faithful_citation_accepted_witness:
  "findEvidenceProblem example_sources [''r''] (quoting ''f'' ''two  =  2;'') = Inr None \<and>
   findEvidenceProblem example_sources [''r''] (quoting ''f'' ''four'') = Inr (Some (EvidenceNotThere ''f'' 2))"
proof
  show "findEvidenceProblem example_sources [''r''] (quoting ''f'' ''two  =  2;'') = Inr None"
  proof (rule faithful_citation_accepted)
    show "resolveRepoScopedPath (file_system.truncate example_sources) [''r''] (Some (ev_path (quoting ''f'' ''two  =  2;''))) =
      Inr (Some \<lparr>sp_absolute = [''r'', ''f''], sp_relative = ''f''\<rparr>)" by code_simp
    show "fs_exists example_sources (sp_absolute \<lparr>sp_absolute = [''r'', ''f''], sp_relative = ''f''\<rparr>)" by code_simp
    show "sf_text example_sources (sp_absolute \<lparr>sp_absolute = [''r'', ''f''], sp_relative = ''f''\<rparr>) =
      Some (''one'' @ [CR, LF] @ ''two  =  2;'' @ [LF] @ ''three'')" by (simp add: example_sources_def)
    show "ev_line (quoting ''f'' ''two  =  2;'') \<le>
      length (split_lines (''one'' @ [CR, LF] @ ''two  =  2;'' @ [LF] @ ''three''))" by code_simp
    show "evidence_window (split_lines (''one'' @ [CR, LF] @ ''two  =  2;'' @ [LF] @ ''three''))
      (ev_line (quoting ''f'' ''two  =  2;'')) = (''one'' @ [LF]) @ ev_snippet (quoting ''f'' ''two  =  2;'') @ ([LF] @ ''three'')"
      by code_simp
    show "js_trim (ev_snippet (quoting ''f'' ''two  =  2;'')) = ev_snippet (quoting ''f'' ''two  =  2;'')" by code_simp
    show "ev_snippet (quoting ''f'' ''two  =  2;'') \<noteq> []" by (simp add: quoting_def)
  qed
  show "findEvidenceProblem example_sources [''r''] (quoting ''f'' ''four'') = Inr (Some (EvidenceNotThere ''f'' 2))"
    by code_simp
qed

theorem directory_citation_throws_witness:
  "evaluateAttempt example_sources [''r''] WorkerCompleted [] [] (Some (ReviewPass [quoting ''src'' ''x''])) =
     Inl (ReadThrew [''r'', ''src''])"
proof -
  have "resolveRepoScopedPath (file_system.truncate example_sources) [''r''] (Some (ev_path (quoting ''src'' ''x''))) =
      Inr (Some \<lparr>sp_absolute = [''r'', ''src''], sp_relative = ''src''\<rparr>)" by code_simp
  from directory_citation_throws [OF this] show ?thesis by (simp add: example_sources_def)
qed

end
