(* ===== verification/Orchestrator_Workspace.thy ===== *)
theory Orchestrator_Workspace
  imports Orchestrator_Data Repo_Paths "HOL-Library.Char_ord" "HOL-Library.List_Lexorder"
begin

text \<open>
  What an orchestrator run reads of and does to its checkout (src/orchestrator/workspace.ts): the
  baseline of a task, the changes since it, the scope rules and the deletion of run-owned files; and the
  Markdown form of a plan (src/orchestrator/plan.ts). The checkout is its \<open>git status\<close> text, the
  content of each path and the content of each path at HEAD; the hash function is an argument. The array
  order of \<open>sort()\<close> is the lexicographic order of code units.
\<close>

section \<open>Run artifacts\<close>

definition ORCHESTRATOR_ARTIFACT_ROOT :: string where
  "ORCHESTRATOR_ARTIFACT_ROOT = ''.siftkit/orchestrator/''"

definition orchestratorArtifactDir :: "nat \<Rightarrow> string" where
  "orchestratorArtifactDir runId = ORCHESTRATOR_ARTIFACT_ROOT @ show_nat runId"

definition orchestratorScratchDir :: "nat \<Rightarrow> string" where
  "orchestratorScratchDir runId = orchestratorArtifactDir runId @ ''/scratch''"

definition is_artifact :: "string \<Rightarrow> bool" where
  "is_artifact p = js_starts_with ORCHESTRATOR_ARTIFACT_ROOT p"

section \<open>The checkout\<close>

record work_tree =
  wt_status :: string
  wt_content :: "string \<Rightarrow> string option"
  wt_head :: "string \<Rightarrow> string option"

text \<open>The loop over the NUL-separated fields of \<open>git status -z\<close>: a rename or copy takes the next
  field as its source.\<close>

fun dirty_fields :: "string list \<Rightarrow> string list" where
  "dirty_fields [] = []"
| "dirty_fields (f # fs) =
     (if length f < 4 then dirty_fields fs
      else if hd f = CHR ''R'' \<or> hd f = CHR ''C''
      then drop 3 f # (case fs of [] \<Rightarrow> [] | src # rest \<Rightarrow> (if src = [] then [] else [src]) @ dirty_fields rest)
      else drop 3 f # dirty_fields fs)"

definition listDirtyPaths :: "work_tree \<Rightarrow> string list" where
  "listDirtyPaths wt = sort (filter (\<lambda>p. \<not> is_artifact p) (js_dedupe (dirty_fields (js_split (CHR 0x00) (wt_status wt)))))"

text \<open>A snapshot is a map from dirty paths to their content, None for a deleted file.\<close>

type_synonym workspace_snapshot = "(string \<times> string option) list"

definition captureWorkspace :: "work_tree \<Rightarrow> workspace_snapshot" where
  "captureWorkspace wt = map (\<lambda>p. (p, wt_content wt p)) (listDirtyPaths wt)"

definition contentHash :: "(string \<Rightarrow> string) \<Rightarrow> string option \<Rightarrow> string" where
  "contentHash sha c = (case c of None \<Rightarrow> ''deleted'' | Some b \<Rightarrow> sha b)"

definition content_before :: "work_tree \<Rightarrow> workspace_snapshot \<Rightarrow> string \<Rightarrow> string option" where
  "content_before wt baseline p = (case map_of baseline p of Some c \<Rightarrow> c | None \<Rightarrow> wt_head wt p)"

record workspace_changes =
  wc_paths :: "string list"
  wc_digest :: "string option"

definition diffWorkspace ::
  "(string \<Rightarrow> string) \<Rightarrow> work_tree \<Rightarrow> workspace_snapshot \<Rightarrow> string list \<Rightarrow> workspace_changes" where
  "diffWorkspace sha wt baseline excluded =
     (let candidates = sort (js_dedupe (map fst baseline @ listDirtyPaths wt));
          changed = filter (\<lambda>p. p \<notin> set excluded \<and>
            contentHash sha (content_before wt baseline p) \<noteq> contentHash sha (wt_content wt p)) candidates
      in \<lparr>wc_paths = changed,
          wc_digest = (if changed = [] then None
            else Some (sha (concat (map (\<lambda>p. p @ [CHR 0x00] @ contentHash sha (wt_content wt p) @ [LF]) changed))))\<rparr>)"

section \<open>Scope\<close>

text \<open>\<open>replace(/\\/$/u, '')\<close>: one trailing slash is dropped.\<close>

definition drop_trailing_slash :: "string \<Rightarrow> string" where
  "drop_trailing_slash s = (if s \<noteq> [] \<and> last s = CHR ''/'' then butlast s else s)"

definition findScopeViolations :: "string list \<Rightarrow> string list \<Rightarrow> string list" where
  "findScopeViolations changedPaths writePaths =
     filter (\<lambda>p. \<not> is_artifact p \<and>
       \<not> list_ex (\<lambda>a. a = ''.'' \<or> p = a \<or> js_starts_with (drop_trailing_slash a @ ''/'') p) writePaths) changedPaths"

definition PROSE_EXTENSIONS :: "string list" where
  "PROSE_EXTENSIONS = [''.md'', ''.mdx'', ''.txt'', ''.rst'', ''.log'']"

definition js_ends_with :: "string \<Rightarrow> string \<Rightarrow> bool" where
  "js_ends_with e s \<longleftrightarrow> length e \<le> length s \<and> drop (length s - length e) s = e"

definition changesNeedDriftReview :: "string list \<Rightarrow> bool" where
  "changesNeedDriftReview changedPaths =
     list_ex (\<lambda>p. \<not> is_artifact p \<and> \<not> list_ex (\<lambda>e. js_ends_with e (js_lower p)) PROSE_EXTENSIONS) changedPaths"

section \<open>Deleting run-owned files\<close>

record scratch_files = file_system +
  sf_symlink :: "string list \<Rightarrow> bool"
  sf_entries :: "string list \<Rightarrow> string list"

datatype cleanup_error =
    NotInScratch string
  | OutsideScratch string
  | CleanupResolve path_error

definition isWithin :: "string list \<Rightarrow> string list \<Rightarrow> bool" where
  "isWithin root candidate = (let offset = relative_path root candidate in offset \<noteq> [] \<and> \<not> leaves offset)"

definition cleanup_real :: "scratch_files \<Rightarrow> string list \<Rightarrow> cleanup_error + string list" where
  "cleanup_real fs p = (case real_path (file_system.truncate fs) p of Inl e \<Rightarrow> Inl (CleanupResolve e) | Inr q \<Rightarrow> Inr q)"

text \<open>Whether \<open>candidate\<close> may be deleted: the target and whether the deletion is recursive, None
  when there is nothing to delete. The scratch root was created before; when that failed, its real path
  cannot be taken.\<close>

definition removeOwnedTemporaryPath ::
  "scratch_files \<Rightarrow> string list \<Rightarrow> string \<Rightarrow> string \<Rightarrow> cleanup_error + (string list \<times> bool) option" where
  "removeOwnedTemporaryPath fs repoRoot scratchDir candidate =
     (let scratchRoot = resolve_path repoRoot scratchDir in
      bind_result (cleanup_real fs scratchRoot) (\<lambda>realScratch.
        let target = resolve_path repoRoot candidate in
        if \<not> isWithin scratchRoot target then Inl (NotInScratch candidate)
        else if \<not> fs_exists fs target \<and> \<not> sf_symlink fs target then Inr None
        else bind_result (cleanup_real fs (butlast target)) (\<lambda>realParent.
          if realParent \<noteq> realScratch \<and> \<not> isWithin realScratch realParent then Inl (OutsideScratch candidate)
          else Inr (Some (target, \<not> sf_symlink fs target)))))"

text \<open>The deletion itself is the file system's: \<open>rm target recursive\<close> returns what it throws, if
  anything, and the files after it.\<close>

type_synonym file_remover = "string list \<Rightarrow> bool \<Rightarrow> scratch_files \<Rightarrow> string option \<times> scratch_files"

datatype cleanup_failure =
    Refused cleanup_error
  | RemoveThrew string
  | NotDeleted string

definition remove_temporary ::
  "file_remover \<Rightarrow> string list \<Rightarrow> string \<Rightarrow> string \<Rightarrow> scratch_files \<Rightarrow> cleanup_failure option \<times> scratch_files" where
  "remove_temporary rm repoRoot scratchDir candidate fs =
     (case removeOwnedTemporaryPath fs repoRoot scratchDir candidate of
        Inl e \<Rightarrow> (Some (Refused e), fs)
      | Inr None \<Rightarrow> (None, fs)
      | Inr (Some (target, recursive)) \<Rightarrow>
          (case rm target recursive fs of (None, fs') \<Rightarrow> (None, fs') | (Some e, fs') \<Rightarrow> (Some (RemoveThrew e), fs')))"

fun cleanup_entries ::
  "file_remover \<Rightarrow> string list \<Rightarrow> string \<Rightarrow> string list \<Rightarrow> scratch_files \<Rightarrow> cleanup_failure list \<times> scratch_files" where
  "cleanup_entries rm repoRoot scratchDir [] fs = ([], fs)"
| "cleanup_entries rm repoRoot scratchDir (entry # entries) fs =
     (let (e, fs1) = remove_temporary rm repoRoot scratchDir (scratchDir @ ''/'' @ entry) fs;
          left = resolve_path repoRoot scratchDir @ [entry];
          here = (case e of None \<Rightarrow> [] | Some x \<Rightarrow> [x]) @
            (if fs_exists fs1 left \<or> sf_symlink fs1 left then [NotDeleted (scratchDir @ ''/'' @ entry)] else []);
          (rest, fs2) = cleanup_entries rm repoRoot scratchDir entries fs1
      in (here @ rest, fs2))"

definition cleanupScratch ::
  "file_remover \<Rightarrow> string list \<Rightarrow> string \<Rightarrow> scratch_files \<Rightarrow> cleanup_failure list \<times> scratch_files" where
  "cleanupScratch rm repoRoot scratchDir fs =
     (let scratchRoot = resolve_path repoRoot scratchDir in
      if \<not> fs_exists fs scratchRoot then ([], fs)
      else cleanup_entries rm repoRoot scratchDir (sf_entries fs scratchRoot) fs)"

section \<open>The Markdown form of a plan\<close>

definition back_quoted :: "string \<Rightarrow> string" where
  "back_quoted s = [CHR 0x60] @ s @ [CHR 0x60]"

definition quoted_list :: "string \<Rightarrow> string list \<Rightarrow> string" where
  "quoted_list none xs = (if xs = [] then none else js_join '', '' (map back_quoted xs))"

definition renderCheck :: "orch_check \<Rightarrow> string" where
  "renderCheck c = (case c of
      CommandCheck command cwd \<Rightarrow> ''- Run '' @ back_quoted command @ '' in '' @ back_quoted cwd @
        ''; expected exit '' @ show_nat (nat (expectedExitCode c)) @ ''.''
    | EvidenceCheck instruction paths \<Rightarrow> ''- '' @ instruction @ '' (evidence: '' @
        js_join '', '' (map back_quoted paths) @ '')'')"

definition renderList :: "string list \<Rightarrow> string \<Rightarrow> string list" where
  "renderList values absent = (if values = [] then [''- '' @ absent] else map (\<lambda>v. ''- '' @ v) values)"

definition render_steps :: "orch_step list \<Rightarrow> string list" where
  "render_steps steps = concat (map (\<lambda>(n, st). [show_nat n @ ''. '' @ step_instruction st,
     ''   Expected: '' @ step_expectedResult st]) (zip [1..<length steps + 1] steps))"

definition render_task :: "orch_task \<Rightarrow> string list" where
  "render_task t =
     [''## Task '' @ task_id t @ '': '' @ task_title t, [],
      ''- Worker: '' @ back_quoted (task_workerPresetId t),
      ''- Depends on: '' @ quoted_list ''none'' (task_dependsOn t),
      ''- Reads: '' @ quoted_list ''none'' (task_readPaths t),
      ''- Writes: '' @ quoted_list ''none (read-only)'' (task_writePaths t),
      ''- Temporary: '' @ quoted_list ''none'' (task_temporaryPaths t), [],
      ''### Steps'', []] @ render_steps (task_steps t) @ [[]] @
     [''### Verification'', []] @ map renderCheck (task_verification t) @ [[]] @
     [''### Acceptance'', []] @ renderList (task_acceptance t) ''None.'' @ [[]]"

definition renderOrchestratorPlan :: "orch_plan \<Rightarrow> string" where
  "renderOrchestratorPlan plan = js_join [LF]
     ([''# '' @ plan_goal plan, [], ''## Constraints''] @ renderList (plan_constraints plan) ''None.'' @ [[]] @
      concat (map render_task (plan_tasks plan)) @
      [''## Final verification'', []] @ map renderCheck (plan_finalVerification plan) @ [[]])"

section \<open>Changes are the edits\<close>

text \<open>What \<open>git status\<close> promises: it lists every path whose content is not the one at HEAD.\<close>

definition status_complete :: "work_tree \<Rightarrow> bool" where
  "status_complete wt \<longleftrightarrow>
     (\<forall>p. wt_content wt p \<noteq> wt_head wt p \<longrightarrow> p \<in> set (dirty_fields (js_split (CHR 0x00) (wt_status wt))))"

definition hash_separates :: "(string \<Rightarrow> string) \<Rightarrow> bool" where
  "hash_separates sha \<longleftrightarrow> (\<forall>a b. contentHash sha a = contentHash sha b \<longrightarrow> a = b)"

lemma set_dirty: "set (listDirtyPaths wt) = {p \<in> set (dirty_fields (js_split (CHR 0x00) (wt_status wt))). \<not> is_artifact p}"
  by (auto simp: listDirtyPaths_def)

lemma map_of_capture: "map_of (captureWorkspace wt) p = (if p \<in> set (listDirtyPaths wt) then Some (wt_content wt p) else None)"
  by (simp add: captureWorkspace_def map_of_map_restrict restrict_map_def)

lemma keys_capture: "map fst (captureWorkspace wt) = listDirtyPaths wt"
  by (simp add: captureWorkspace_def comp_def)

lemma before_is_content:
  assumes "status_complete wt0" and "wt_head wt = wt_head wt0" and "\<not> is_artifact p"
  shows "content_before wt (captureWorkspace wt0) p = wt_content wt0 p"
proof (cases "p \<in> set (listDirtyPaths wt0)")
  case False
  then have "wt_content wt0 p = wt_head wt0 p" using assms(1,3) by (auto simp: set_dirty status_complete_def)
  then show ?thesis using False assms(2) by (simp add: content_before_def map_of_capture)
qed (simp add: content_before_def map_of_capture)

lemma changed_paths_iff:
  assumes "hash_separates sha"
  shows "p \<in> set (wc_paths (diffWorkspace sha wt baseline excluded)) \<longleftrightarrow>
    (p \<in> fst ` set baseline \<or> p \<in> set (listDirtyPaths wt)) \<and> p \<notin> set excluded \<and>
    content_before wt baseline p \<noteq> wt_content wt p"
  using assms by (auto simp: diffWorkspace_def Let_def hash_separates_def)

text \<open>The changes of a task are its edits. As long as HEAD stays where it was, the paths found changed
  since a baseline are, sorted and without repetition, exactly the paths outside the run's artifacts, and not
  excluded, whose content differs from what it was when the baseline was taken: an edit made before the
  baseline and left alone is not charged, an edit undone is not charged, and no edit is missed.\<close>

theorem changes_are_the_edits:
  assumes "status_complete wt0" and "status_complete wt" and "wt_head wt = wt_head wt0" and "hash_separates sha"
  shows "set (wc_paths (diffWorkspace sha wt (captureWorkspace wt0) excluded)) =
      {p. \<not> is_artifact p \<and> p \<notin> set excluded \<and> wt_content wt p \<noteq> wt_content wt0 p} \<and>
    sorted (wc_paths (diffWorkspace sha wt (captureWorkspace wt0) excluded)) \<and>
    distinct (wc_paths (diffWorkspace sha wt (captureWorkspace wt0) excluded))"
proof (intro conjI)
  have keys: "fst ` set (captureWorkspace wt0) = set (listDirtyPaths wt0)"
    by (metis keys_capture list.set_map)
  show "set (wc_paths (diffWorkspace sha wt (captureWorkspace wt0) excluded)) =
      {p. \<not> is_artifact p \<and> p \<notin> set excluded \<and> wt_content wt p \<noteq> wt_content wt0 p}" (is "?l = ?r")
  proof (rule set_eqI)
    fix p
    have known: "p \<in> set (listDirtyPaths wt0) \<or> p \<in> set (listDirtyPaths wt)"
      if "\<not> is_artifact p" "wt_content wt p \<noteq> wt_content wt0 p"
    proof (rule ccontr)
      assume "\<not> ?thesis"
      then have "wt_content wt0 p = wt_head wt0 p" "wt_content wt p = wt_head wt p"
        using that(1) assms(1,2) by (auto simp: set_dirty status_complete_def)
      then show False using that(2) assms(3) by simp
    qed
    have "\<not> is_artifact p" if "p \<in> set (listDirtyPaths wt0) \<or> p \<in> set (listDirtyPaths wt)"
      using that by (auto simp: set_dirty)
    then show "p \<in> ?l \<longleftrightarrow> p \<in> ?r"
      unfolding changed_paths_iff [OF assms(4)] keys mem_Collect_eq
      using known before_is_content [OF assms(1,3), of p] by metis
  qed
  show "sorted (wc_paths (diffWorkspace sha wt (captureWorkspace wt0) excluded))"
    by (simp add: diffWorkspace_def Let_def sorted_wrt_filter)
  show "distinct (wc_paths (diffWorkspace sha wt (captureWorkspace wt0) excluded))"
    by (simp add: diffWorkspace_def Let_def)
qed

text \<open>A digest stands for its changes: there is none exactly when nothing changed.\<close>

lemma digest_iff: "wc_digest (diffWorkspace sha wt baseline excluded) = None \<longleftrightarrow>
    wc_paths (diffWorkspace sha wt baseline excluded) = []"
  by (simp add: diffWorkspace_def Let_def)

section \<open>Only scratch files are deleted\<close>

lemma isWithin_inside:
  assumes "isWithin root p"
  obtains rest where "p = root @ rest" "rest \<noteq> []"
proof -
  have "\<not> leaves (relative_path root p)" "relative_path root p \<noteq> []"
    using assms by (simp_all add: isWithin_def Let_def)
  then show thesis using relative_inside [of root p] that by (metis js_join.simps(1))
qed

text \<open>C32. Only files of the run's scratch directory are deleted. A target the check lets through lies strictly
  inside the scratch root, the real path of its directory, with every link followed, is the real scratch
  directory or inside it, and a symbolic link is removed as the link itself, never followed.\<close>

theorem only_scratch_is_deleted:
  assumes "removeOwnedTemporaryPath fs repoRoot scratchDir candidate = Inr (Some (target, recursive))"
  shows "\<exists>rest realScratch inner. rest \<noteq> [] \<and> target = resolve_path repoRoot scratchDir @ rest \<and>
    target = resolve_path repoRoot candidate \<and>
    fs_realpath fs (resolve_path repoRoot scratchDir) = Some realScratch \<and>
    fs_realpath fs (butlast target) = Some (realScratch @ inner) \<and> recursive = (\<not> sf_symlink fs target)"
proof -
  let ?root = "resolve_path repoRoot scratchDir"
  from assms obtain realScratch realParent where
    R: "fs_realpath fs ?root = Some realScratch" "fs_realpath fs (butlast target) = Some realParent"
      "target = resolve_path repoRoot candidate" "isWithin ?root target"
      "realParent = realScratch \<or> isWithin realScratch realParent" "recursive = (\<not> sf_symlink fs target)"
    by (auto simp: removeOwnedTemporaryPath_def Let_def cleanup_real_def real_path_def file_system.defs
        split: if_splits option.splits)
  obtain rest where "target = ?root @ rest" "rest \<noteq> []" using isWithin_inside [OF R(4)] by blast
  moreover obtain inner where "realParent = realScratch @ inner" using R(5) isWithin_inside by (metis append_Nil2)
  ultimately show ?thesis using R by blast
qed

section \<open>A checkout\<close>

definition example_tree :: "string \<Rightarrow> work_tree" where
  "example_tree edited = \<lparr>wt_status = '' M a.ts'' @ [CHR 0x00] @ '' M b.md'' @ [CHR 0x00],
     wt_content = (\<lambda>p. if p = ''a.ts'' then Some edited else if p = ''b.md'' then Some ''mine'' else None),
     wt_head = (\<lambda>p. if p = ''a.ts'' then Some ''old'' else if p = ''b.md'' then Some ''theirs'' else None)\<rparr>"

definition example_hash :: "string \<Rightarrow> string" where
  "example_hash s = CHR ''#'' # s"

lemma example_tree_complete: "status_complete (example_tree x)"
proof -
  have "dirty_fields (js_split (CHR 0x00) (wt_status (example_tree x))) = [''a.ts'', ''b.md'']"
    by (simp add: example_tree_def)
  then show ?thesis by (auto simp: status_complete_def) (auto simp: example_tree_def split: if_splits)
qed

lemma example_hash_separates: "hash_separates example_hash"
  by (auto simp: hash_separates_def contentHash_def example_hash_def split: option.splits)

theorem changes_are_the_edits_witness:
  "set (wc_paths (diffWorkspace example_hash (example_tree ''new'') (captureWorkspace (example_tree ''older'')) [])) = {''a.ts''}"
proof -
  have "{p. \<not> is_artifact p \<and> p \<notin> set [] \<and> wt_content (example_tree ''new'') p \<noteq> wt_content (example_tree ''older'') p} = {''a.ts''}"
    by (auto simp: example_tree_def is_artifact_def js_starts_with_def ORCHESTRATOR_ARTIFACT_ROOT_def)
  then show ?thesis
    using changes_are_the_edits [OF example_tree_complete example_tree_complete _ example_hash_separates, of "''new''" "''older''" "[]"]
    by (simp add: example_tree_def)
qed

definition example_scratch :: scratch_files where
  "example_scratch = \<lparr>fs_exists = (\<lambda>p. p \<noteq> [] \<and> hd p = ''r''),
     fs_realpath = (\<lambda>p. if p \<noteq> [] \<and> last p = ''out'' then Some [''etc''] else Some p),
     sf_symlink = (\<lambda>p. p \<noteq> [] \<and> last p = ''out''), sf_entries = (\<lambda>_. [''out''])\<rparr>"

theorem only_scratch_is_deleted_witness:
  "removeOwnedTemporaryPath example_scratch [''r''] ''s'' ''s/out/x'' = Inl (OutsideScratch ''s/out/x'') \<and>
   removeOwnedTemporaryPath example_scratch [''r''] ''s'' ''s/../a'' = Inl (NotInScratch ''s/../a'') \<and>
   removeOwnedTemporaryPath example_scratch [''r''] ''s'' ''s/out'' = Inr (Some ([''r'', ''s'', ''out''], False)) \<and>
   (\<exists>rest. rest \<noteq> [] \<and> [''r'', ''s'', ''out''] = resolve_path [''r''] ''s'' @ rest)"
proof -
  have run: "removeOwnedTemporaryPath example_scratch [''r''] ''s'' ''s/out'' = Inr (Some ([''r'', ''s'', ''out''], False))"
    by code_simp
  moreover have "removeOwnedTemporaryPath example_scratch [''r''] ''s'' ''s/out/x'' = Inl (OutsideScratch ''s/out/x'')" by code_simp
  moreover have "removeOwnedTemporaryPath example_scratch [''r''] ''s'' ''s/../a'' = Inl (NotInScratch ''s/../a'')" by code_simp
  ultimately show ?thesis using only_scratch_is_deleted [OF run] by blast
qed

end
