(* ===== verification/Repo_Gate.thy ===== *)
theory Repo_Gate
  imports Sift_Prelude
begin

text \<open>
  Repository ownership (class RepositoryGate of src/status-server/orchestrator-runs.ts): shared and
  exclusive leases on a repository, granted in queue order.

  An entry of the gate is an object that closures of acquire and of the lease keep a reference to,
  so entries live in a heap (gate_heap, a list indexed by reference) and the gate's map holds
  references: an entry that was deleted from the map is still the entry those closures change. A
  claim is known by the number drawn when acquire ran, which stands for its object identity. The
  canonical key of a repository (realpath, lower case on Windows) is computed outside and is an
  argument.
\<close>

section \<open>State\<close>

datatype repo_access = Shared | Exclusive

record repo_claim =
  cl_id :: nat
  cl_access :: repo_access
  cl_owner :: "string option"

record repo_entry =
  re_key :: string
  re_holders :: "repo_claim list"
  re_waiters :: "repo_claim list"

text \<open>What acquire's promise has come to: not settled yet, the lease, or the abort error.\<close>

datatype lease_promise = LeasePending | LeaseHeld | LeaseReleased | LeaseRejected

record repo_gate =
  gate_heap :: "repo_entry list"
  gate_entries :: "string \<Rightarrow> nat option"
  gate_next :: nat
  gate_ref :: "nat \<Rightarrow> nat option"
  gate_promise :: "nat \<Rightarrow> lease_promise option"

definition empty_repo_gate :: repo_gate where
  "empty_repo_gate = \<lparr>gate_heap = [], gate_entries = Map.empty, gate_next = 0,
     gate_ref = Map.empty, gate_promise = Map.empty\<rparr>"

section \<open>Compatibility of claims\<close>

definition sameOwner :: "repo_claim \<Rightarrow> repo_claim \<Rightarrow> bool" where
  "sameOwner l r = (cl_owner l \<noteq> None \<and> cl_owner l = cl_owner r)"

definition isCompatible :: "repo_claim \<Rightarrow> repo_claim list \<Rightarrow> bool" where
  "isCompatible n holders =
     (if length holders = 0 then True
      else if cl_access n = Shared
      then list_all (\<lambda>h. cl_access h = Shared \<or> sameOwner h n) holders
      else list_all (\<lambda>h. cl_access h = Shared \<and> sameOwner h n) holders)"

section \<open>Operations\<close>

text \<open>\<open>list.splice(list.indexOf(c), 1)\<close>: a claim that is not found has index -1, and
  then the last element goes.\<close>

definition splice_out :: "nat \<Rightarrow> repo_claim list \<Rightarrow> repo_claim list" where
  "splice_out i cs = (if i \<in> cl_id ` set cs then remove_first (\<lambda>c. cl_id c = i) cs else butlast cs)"

definition put_entry :: "nat \<Rightarrow> repo_entry \<Rightarrow> repo_gate \<Rightarrow> repo_gate" where
  "put_entry r e g = g\<lparr>gate_heap := (gate_heap g)[r := e]\<rparr>"

definition settle :: "nat \<Rightarrow> lease_promise \<Rightarrow> repo_gate \<Rightarrow> repo_gate" where
  "settle i p g = g\<lparr>gate_promise := (gate_promise g)(i \<mapsto> p)\<rparr>"

text \<open>The loop of drain: it grants the head waiter while that is compatible with the holders.\<close>

fun grant_waiters :: "repo_claim list \<Rightarrow> repo_claim list \<Rightarrow> nat list \<times> repo_claim list \<times> repo_claim list" where
  "grant_waiters holders [] = ([], holders, [])"
| "grant_waiters holders (n # ws) =
     (if \<not> isCompatible n holders then ([], holders, n # ws)
      else let (granted, hs, rest) = grant_waiters (holders @ [n]) ws in (cl_id n # granted, hs, rest))"

definition drain :: "nat \<Rightarrow> repo_gate \<Rightarrow> repo_gate" where
  "drain r g =
     (let e = gate_heap g ! r;
          (granted, hs, ws) = grant_waiters (re_holders e) (re_waiters e);
          g1 = fold (\<lambda>i. settle i LeaseHeld) granted
                 (put_entry r (e\<lparr>re_holders := hs, re_waiters := ws\<rparr>) g)
      in if hs = [] \<and> ws = [] then g1\<lparr>gate_entries := (gate_entries g1)(re_key e := None)\<rparr> else g1)"

text \<open>\<open>this.entries.get(key) ?? fresh entry\<close>, stored back under the key.\<close>

definition entry_for :: "string \<Rightarrow> repo_gate \<Rightarrow> nat \<times> repo_gate" where
  "entry_for key g =
     (case gate_entries g key of
        Some r \<Rightarrow> (r, g)
      | None \<Rightarrow> (length (gate_heap g),
          g\<lparr>gate_heap := gate_heap g @ [\<lparr>re_key = key, re_holders = [], re_waiters = []\<rparr>],
            gate_entries := (gate_entries g)(key \<mapsto> length (gate_heap g))\<rparr>))"

definition acquire :: "string \<Rightarrow> repo_access \<Rightarrow> string option \<Rightarrow> bool \<Rightarrow> repo_gate \<Rightarrow> repo_gate" where
  "acquire key access owner aborted g =
     (let i = gate_next g; g0 = g\<lparr>gate_next := Suc i\<rparr> in
      if aborted then settle i LeaseRejected g0
      else let (r, g1) = entry_for key g0;
               e = gate_heap g1 ! r;
               c = \<lparr>cl_id = i, cl_access = access, cl_owner = owner\<rparr>
           in drain r (settle i LeasePending
                (put_entry r (e\<lparr>re_waiters := re_waiters e @ [c]\<rparr>)
                  (g1\<lparr>gate_ref := (gate_ref g1)(i \<mapsto> r)\<rparr>))))"

text \<open>The lease's release: the flag \<open>released\<close> of its closure makes it idempotent.\<close>

definition release_lease :: "nat \<Rightarrow> repo_gate \<Rightarrow> repo_gate" where
  "release_lease i g =
     (case (gate_promise g i, gate_ref g i) of
        (Some LeaseHeld, Some r) \<Rightarrow>
          let e = gate_heap g ! r in
          drain r (settle i LeaseReleased (put_entry r (e\<lparr>re_holders := splice_out i (re_holders e)\<rparr>) g))
      | _ \<Rightarrow> g)"

text \<open>The abort signal fires: the listener is there only while the claim waits (grant removes it).\<close>

definition abort_claim :: "nat \<Rightarrow> repo_gate \<Rightarrow> repo_gate" where
  "abort_claim i g =
     (case (gate_promise g i, gate_ref g i) of
        (Some LeasePending, Some r) \<Rightarrow>
          let e = gate_heap g ! r in
          settle i LeaseRejected (drain r (put_entry r (e\<lparr>re_waiters := splice_out i (re_waiters e)\<rparr>) g))
      | _ \<Rightarrow> g)"

datatype gate_event =
    Acquire string repo_access "string option" bool
  | Release nat
  | Abort nat

fun gate_step :: "gate_event \<Rightarrow> repo_gate \<Rightarrow> repo_gate" where
  "gate_step (Acquire key access owner aborted) g = acquire key access owner aborted g"
| "gate_step (Release i) g = release_lease i g"
| "gate_step (Abort i) g = abort_claim i g"

section \<open>Entries\<close>

text \<open>Two holders may overlap when both read, or when they have the same owner and one of them reads.\<close>

definition overlap_ok :: "repo_claim \<Rightarrow> repo_claim \<Rightarrow> bool" where
  "overlap_ok a b \<longleftrightarrow>
     cl_access a = Shared \<and> cl_access b = Shared \<or>
     sameOwner a b \<and> (cl_access a = Shared \<or> cl_access b = Shared)"

lemma sameOwner_sym: "sameOwner a b = sameOwner b a"
  unfolding sameOwner_def by metis

lemma overlap_ok_sym: "overlap_ok a b = overlap_ok b a"
  by (auto simp: overlap_ok_def sameOwner_sym)

lemma compatible_iff: "isCompatible n hs \<longleftrightarrow> (\<forall>h \<in> set hs. overlap_ok h n)"
  using repo_access.exhaust [of "cl_access n"]
  by (auto simp: isCompatible_def overlap_ok_def list_all_iff)

definition blocked :: "repo_claim list \<Rightarrow> repo_claim list \<Rightarrow> bool" where
  "blocked hs ws \<longleftrightarrow> ws = [] \<or> \<not> isCompatible (hd ws) hs"

text \<open>The claims of an entry in the order they were made: all holders before all waiters.\<close>

definition entry_ok :: "repo_claim list \<Rightarrow> repo_claim list \<Rightarrow> bool" where
  "entry_ok hs ws \<longleftrightarrow>
     sorted_wrt (<) (map cl_id (hs @ ws)) \<and> sorted_wrt overlap_ok hs"

lemma sorted_wrt_remove_first: "sorted_wrt P xs \<Longrightarrow> sorted_wrt P (remove_first q xs)"
  by (induction xs) (use remove_first_subset in fastforce)+

lemma map_remove_id:
  "map cl_id (remove_first (\<lambda>c. cl_id c = i) xs) = remove_first (\<lambda>x. x = i) (map cl_id xs)"
  by (induction xs) auto

lemma remove_first_append:
  "remove_first p (xs @ ys) = (if \<exists>x \<in> set xs. p x then remove_first p xs @ ys else xs @ remove_first p ys)"
  by (induction xs) auto

lemma grant_waiters_spec:
  "grant_waiters hs ws = (granted, hs', ws') \<Longrightarrow>
     (\<exists>gs. hs' = hs @ gs \<and> ws = gs @ ws' \<and> granted = map cl_id gs) \<and> blocked hs' ws'"
proof (induction hs ws arbitrary: granted rule: grant_waiters.induct)
  case (1 holders)
  then show ?case by (auto simp: blocked_def)
next
  case (2 holders n ws)
  show ?case
  proof (cases "isCompatible n holders")
    case False
    then show ?thesis using "2.prems" by (auto simp: blocked_def)
  next
    case True
    obtain gr h w where rec: "grant_waiters (holders @ [n]) ws = (gr, h, w)"
      by (cases "grant_waiters (holders @ [n]) ws") auto
    have eq: "granted = cl_id n # gr" "hs' = h" "ws' = w" using "2.prems" True rec by auto
    from "2.IH" [OF _ rec [unfolded eq [symmetric]]] True eq show ?thesis by auto
  qed
qed

lemma grant_waiters_ok:
  "entry_ok hs ws \<Longrightarrow> grant_waiters hs ws = (granted, hs', ws') \<Longrightarrow> entry_ok hs' ws'"
proof (induction hs ws arbitrary: granted rule: grant_waiters.induct)
  case (1 holders)
  then show ?case by auto
next
  case (2 holders n ws)
  show ?case
  proof (cases "isCompatible n holders")
    case False
    then show ?thesis using "2.prems" by auto
  next
    case True
    obtain gr h w where rec: "grant_waiters (holders @ [n]) ws = (gr, h, w)"
      by (cases "grant_waiters (holders @ [n]) ws") auto
    have eq: "hs' = h" "ws' = w" using "2.prems" True rec by auto
    have "entry_ok (holders @ [n]) ws"
      using "2.prems"(1) True by (auto simp: entry_ok_def sorted_wrt_append compatible_iff)
    from "2.IH" [OF _ this rec [unfolded eq [symmetric]]] True show ?thesis by simp
  qed
qed

lemma splice_out_present: "i \<in> cl_id ` set cs \<Longrightarrow> splice_out i cs = remove_first (\<lambda>c. cl_id c = i) cs"
  by (simp add: splice_out_def)

lemma splice_ok_holders:
  assumes ok: "entry_ok hs ws" and i: "i \<in> cl_id ` set hs"
  shows "entry_ok (splice_out i hs) ws"
proof -
  have "map cl_id (splice_out i hs @ ws) = map cl_id (remove_first (\<lambda>c. cl_id c = i) (hs @ ws))"
    using i by (auto simp: splice_out_present remove_first_append)
  also have "\<dots> = remove_first (\<lambda>x. x = i) (map cl_id (hs @ ws))" by (rule map_remove_id)
  finally show ?thesis
    using ok i sorted_wrt_remove_first [of "(<)" "map cl_id (hs @ ws)" "\<lambda>x. x = i"]
      sorted_wrt_remove_first [of overlap_ok hs "\<lambda>c. cl_id c = i"]
    by (simp only: entry_ok_def splice_out_present)
qed

lemma splice_ok_waiters:
  assumes ok: "entry_ok hs ws" and i: "i \<in> cl_id ` set ws"
  shows "entry_ok hs (splice_out i ws)"
proof -
  have "\<forall>c \<in> set hs. cl_id c \<noteq> i" using ok i by (fastforce simp: entry_ok_def sorted_wrt_append)
  then have "map cl_id (hs @ splice_out i ws) = map cl_id (remove_first (\<lambda>c. cl_id c = i) (hs @ ws))"
    using i by (auto simp: splice_out_present remove_first_append)
  also have "\<dots> = remove_first (\<lambda>x. x = i) (map cl_id (hs @ ws))" by (rule map_remove_id)
  finally show ?thesis
    using ok sorted_wrt_remove_first [of "(<)" "map cl_id (hs @ ws)" "\<lambda>x. x = i"]
    by (simp only: entry_ok_def)
qed

lemma set_splice:
  "entry_ok hs ws \<Longrightarrow> i \<in> cl_id ` set hs \<Longrightarrow> cl_id ` set (splice_out i hs) = cl_id ` set hs - {i}"
  "entry_ok hs ws \<Longrightarrow> i \<in> cl_id ` set ws \<Longrightarrow> cl_id ` set (splice_out i ws) = cl_id ` set ws - {i}"
proof -
  have gen: "cl_id ` set (splice_out i cs) = cl_id ` set cs - {i}"
    if "sorted_wrt (<) (map cl_id cs)" "i \<in> cl_id ` set cs" for cs
  proof -
    have d: "distinct (map cl_id cs)" using that(1) by (simp add: strict_sorted_iff)
    have "set (map cl_id (splice_out i cs)) = set (map cl_id cs) - {i}"
      by (simp only: splice_out_present [OF that(2)] map_remove_id set_remove_first_eq [OF d])
    then show ?thesis by simp
  qed
  show "entry_ok hs ws \<Longrightarrow> i \<in> cl_id ` set hs \<Longrightarrow> cl_id ` set (splice_out i hs) = cl_id ` set hs - {i}"
    by (rule gen) (auto simp: entry_ok_def sorted_wrt_append)
  show "entry_ok hs ws \<Longrightarrow> i \<in> cl_id ` set ws \<Longrightarrow> cl_id ` set (splice_out i ws) = cl_id ` set ws - {i}"
    by (rule gen) (auto simp: entry_ok_def sorted_wrt_append)
qed

section \<open>The invariant of the gate\<close>

text \<open>
  The entry of each claim whose promise is pending or held is the one its closures refer to, and an
  entry in use is the one the map holds for its key: no two live entries serve one repository.
\<close>

definition refs_ok :: "repo_gate \<Rightarrow> bool" where
  "refs_ok g \<longleftrightarrow> (\<forall>i r. gate_ref g i = Some r \<longrightarrow> r < length (gate_heap g))"

definition holders_match :: "repo_gate \<Rightarrow> bool" where
  "holders_match g \<longleftrightarrow> (\<forall>r i. r < length (gate_heap g) \<longrightarrow>
     (i \<in> cl_id ` set (re_holders (gate_heap g ! r)) \<longleftrightarrow>
        gate_promise g i = Some LeaseHeld \<and> gate_ref g i = Some r))"

definition waiters_match :: "repo_gate \<Rightarrow> bool" where
  "waiters_match g \<longleftrightarrow> (\<forall>r i. r < length (gate_heap g) \<longrightarrow>
     (i \<in> cl_id ` set (re_waiters (gate_heap g ! r)) \<longleftrightarrow>
        gate_promise g i = Some LeasePending \<and> gate_ref g i = Some r))"

definition promises_ok :: "repo_gate \<Rightarrow> bool" where
  "promises_ok g \<longleftrightarrow>
     (\<forall>i. gate_promise g i = Some LeaseHeld \<or> gate_promise g i = Some LeasePending \<longrightarrow> gate_ref g i \<noteq> None)"

definition numbers_ok :: "repo_gate \<Rightarrow> bool" where
  "numbers_ok g \<longleftrightarrow> (\<forall>i. gate_promise g i \<noteq> None \<longleftrightarrow> i < gate_next g)"

definition claims_ok :: "repo_gate \<Rightarrow> bool" where
  "claims_ok g \<longleftrightarrow> refs_ok g \<and> holders_match g \<and> waiters_match g \<and> promises_ok g \<and> numbers_ok g"

lemma claims_okI:
  assumes "\<And>i r. gate_ref g i = Some r \<Longrightarrow> r < length (gate_heap g)"
    and "\<And>r i. r < length (gate_heap g) \<Longrightarrow> i \<in> cl_id ` set (re_holders (gate_heap g ! r)) \<longleftrightarrow>
       gate_promise g i = Some LeaseHeld \<and> gate_ref g i = Some r"
    and "\<And>r i. r < length (gate_heap g) \<Longrightarrow> i \<in> cl_id ` set (re_waiters (gate_heap g ! r)) \<longleftrightarrow>
       gate_promise g i = Some LeasePending \<and> gate_ref g i = Some r"
    and "\<And>i. gate_promise g i = Some LeaseHeld \<or> gate_promise g i = Some LeasePending \<Longrightarrow> gate_ref g i \<noteq> None"
    and "\<And>i. gate_promise g i \<noteq> None \<longleftrightarrow> i < gate_next g"
  shows "claims_ok g"
proof -
  have "refs_ok g" unfolding refs_ok_def using assms(1) by blast
  moreover have "holders_match g" unfolding holders_match_def using assms(2) by simp
  moreover have "waiters_match g" unfolding waiters_match_def using assms(3) by simp
  moreover have "promises_ok g" unfolding promises_ok_def using assms(4) by blast
  moreover have "numbers_ok g" unfolding numbers_ok_def using assms(5) by simp
  ultimately show ?thesis by (simp add: claims_ok_def)
qed

lemma claims_okD:
  assumes "claims_ok g"
  shows "gate_ref g i = Some r \<Longrightarrow> r < length (gate_heap g)"
    and "r < length (gate_heap g) \<Longrightarrow> i \<in> cl_id ` set (re_holders (gate_heap g ! r)) \<longleftrightarrow>
       gate_promise g i = Some LeaseHeld \<and> gate_ref g i = Some r"
    and "r < length (gate_heap g) \<Longrightarrow> i \<in> cl_id ` set (re_waiters (gate_heap g ! r)) \<longleftrightarrow>
       gate_promise g i = Some LeasePending \<and> gate_ref g i = Some r"
    and "gate_promise g i = Some LeaseHeld \<or> gate_promise g i = Some LeasePending \<Longrightarrow> gate_ref g i \<noteq> None"
    and "gate_promise g i \<noteq> None \<longleftrightarrow> i < gate_next g"
proof -
  have c: "refs_ok g" "holders_match g" "waiters_match g" "promises_ok g" "numbers_ok g"
    using assms by (simp_all add: claims_ok_def)
  show "gate_ref g i = Some r \<Longrightarrow> r < length (gate_heap g)"
    using c(1) unfolding refs_ok_def by simp
  show "r < length (gate_heap g) \<Longrightarrow> i \<in> cl_id ` set (re_holders (gate_heap g ! r)) \<longleftrightarrow>
       gate_promise g i = Some LeaseHeld \<and> gate_ref g i = Some r"
    using c(2) unfolding holders_match_def by simp
  show "r < length (gate_heap g) \<Longrightarrow> i \<in> cl_id ` set (re_waiters (gate_heap g ! r)) \<longleftrightarrow>
       gate_promise g i = Some LeasePending \<and> gate_ref g i = Some r"
    using c(3) unfolding waiters_match_def by simp
  show "gate_promise g i = Some LeaseHeld \<or> gate_promise g i = Some LeasePending \<Longrightarrow> gate_ref g i \<noteq> None"
    using c(4) unfolding promises_ok_def by blast
  show "gate_promise g i \<noteq> None \<longleftrightarrow> i < gate_next g"
    using c(5) unfolding numbers_ok_def by simp
qed

definition in_use :: "repo_entry \<Rightarrow> bool" where
  "in_use e \<longleftrightarrow> re_holders e \<noteq> [] \<or> re_waiters e \<noteq> []"

definition entries_ok :: "repo_gate \<Rightarrow> bool" where
  "entries_ok g \<longleftrightarrow>
     (\<forall>r < length (gate_heap g).
        entry_ok (re_holders (gate_heap g ! r)) (re_waiters (gate_heap g ! r)) \<and>
        (in_use (gate_heap g ! r) \<longleftrightarrow> gate_entries g (re_key (gate_heap g ! r)) = Some r)) \<and>
     (\<forall>k r. gate_entries g k = Some r \<longrightarrow> r < length (gate_heap g) \<and> re_key (gate_heap g ! r) = k)"

definition unblocked_free :: "repo_gate \<Rightarrow> bool" where
  "unblocked_free g \<longleftrightarrow>
     (\<forall>r < length (gate_heap g). blocked (re_holders (gate_heap g ! r)) (re_waiters (gate_heap g ! r)))"

definition gate_ok :: "repo_gate \<Rightarrow> bool" where
  "gate_ok g \<longleftrightarrow> claims_ok g \<and> entries_ok g \<and> unblocked_free g"

section \<open>Every operation keeps the invariant\<close>

lemma gate_settle_fields [simp]:
  "gate_heap (settle i p g) = gate_heap g" "gate_entries (settle i p g) = gate_entries g"
  "gate_next (settle i p g) = gate_next g" "gate_ref (settle i p g) = gate_ref g"
  "gate_promise (settle i p g) = (gate_promise g)(i \<mapsto> p)"
  by (simp_all add: settle_def)

lemma put_entry_fields [simp]:
  "gate_heap (put_entry r e g) = (gate_heap g)[r := e]" "gate_entries (put_entry r e g) = gate_entries g"
  "gate_next (put_entry r e g) = gate_next g" "gate_ref (put_entry r e g) = gate_ref g"
  "gate_promise (put_entry r e g) = gate_promise g"
  by (simp_all add: put_entry_def)

lemma settle_all_fields [simp]:
  "gate_heap (fold (\<lambda>i. settle i p) is g) = gate_heap g"
  "gate_entries (fold (\<lambda>i. settle i p) is g) = gate_entries g"
  "gate_next (fold (\<lambda>i. settle i p) is g) = gate_next g"
  "gate_ref (fold (\<lambda>i. settle i p) is g) = gate_ref g"
  "gate_promise (fold (\<lambda>i. settle i p) is g) = (\<lambda>j. if j \<in> set is then Some p else gate_promise g j)"
  by (induction "is" arbitrary: g) auto

text \<open>drain: what it leaves in the entry it drains and around it.\<close>

lemma drain_fields:
  assumes "r < length (gate_heap g)"
    and "grant_waiters (re_holders (gate_heap g ! r)) (re_waiters (gate_heap g ! r)) = (granted, hs, ws)"
  shows "gate_heap (drain r g) = (gate_heap g)[r := (gate_heap g ! r)\<lparr>re_holders := hs, re_waiters := ws\<rparr>]"
    and "gate_ref (drain r g) = gate_ref g" and "gate_next (drain r g) = gate_next g"
    and "gate_promise (drain r g) = (\<lambda>j. if j \<in> set granted then Some LeaseHeld else gate_promise g j)"
    and "gate_entries (drain r g) =
      (if hs = [] \<and> ws = [] then (gate_entries g)(re_key (gate_heap g ! r) := None) else gate_entries g)"
  using assms by (auto simp: drain_def Let_def fun_eq_iff)

text \<open>An entry that is in the map but may be empty or unblocked: the state drain starts in.\<close>

definition drainable :: "nat \<Rightarrow> repo_gate \<Rightarrow> bool" where
  "drainable r g \<longleftrightarrow>
     claims_ok g \<and> r < length (gate_heap g) \<and>
     entry_ok (re_holders (gate_heap g ! r)) (re_waiters (gate_heap g ! r)) \<and>
     gate_entries g (re_key (gate_heap g ! r)) = Some r \<and>
     (\<forall>q < length (gate_heap g). q \<noteq> r \<longrightarrow>
        entry_ok (re_holders (gate_heap g ! q)) (re_waiters (gate_heap g ! q)) \<and>
        (in_use (gate_heap g ! q) \<longleftrightarrow> gate_entries g (re_key (gate_heap g ! q)) = Some q) \<and>
        blocked (re_holders (gate_heap g ! q)) (re_waiters (gate_heap g ! q))) \<and>
     (\<forall>k q. gate_entries g k = Some q \<longrightarrow> q < length (gate_heap g) \<and> re_key (gate_heap g ! q) = k)"

lemma drain_claims:
  assumes c: "claims_ok g" and r: "r < length (gate_heap g)"
    and ok: "entry_ok (re_holders (gate_heap g ! r)) (re_waiters (gate_heap g ! r))"
  shows "claims_ok (drain r g)"
proof -
  let ?e = "gate_heap g ! r"
  obtain granted hs ws where gw: "grant_waiters (re_holders ?e) (re_waiters ?e) = (granted, hs, ws)"
    using prod_cases3 by blast
  note F = drain_fields [OF r gw]
  from grant_waiters_spec [OF gw] obtain gs where
    gs: "hs = re_holders ?e @ gs" "re_waiters ?e = gs @ ws" "granted = map cl_id gs" by blast
  have pend: "gate_promise g i = Some LeasePending \<and> gate_ref g i = Some r" if "i \<in> set granted" for i
  proof -
    have "i \<in> cl_id ` set (re_waiters ?e)" using that gs by auto
    then show ?thesis using claims_okD(3) [OF c r] by blast
  qed
  have dj: "set granted \<inter> cl_id ` set ws = {}"
    using ok gs by (fastforce simp: entry_ok_def sorted_wrt_append)
  have pr: "gate_promise (drain r g) i = (if i \<in> set granted then Some LeaseHeld else gate_promise g i)" for i
    by (simp add: F)
  have len: "length (gate_heap (drain r g)) = length (gate_heap g)" by (simp add: F)
  have hd: "(gate_heap (drain r g) ! q) =
      (if q = r then (gate_heap g ! r)\<lparr>re_holders := hs, re_waiters := ws\<rparr> else gate_heap g ! q)"
    if "q < length (gate_heap g)" for q using that by (simp add: F)
  show ?thesis
  proof (rule claims_okI, unfold len F(2) F(3))
    fix q i
    assume q: "q < length (gate_heap g)"
    have "i \<in> cl_id ` set (re_holders (gate_heap (drain r g) ! q)) \<longleftrightarrow>
        i \<in> cl_id ` set (re_holders (gate_heap g ! q)) \<or> q = r \<and> i \<in> set granted"
      unfolding hd [OF q] using gs by auto
    then show "i \<in> cl_id ` set (re_holders (gate_heap (drain r g) ! q)) \<longleftrightarrow>
        gate_promise (drain r g) i = Some LeaseHeld \<and> gate_ref g i = Some q"
      using claims_okD(2) [OF c q, of i] pend [of i] unfolding pr by auto
    have "i \<in> cl_id ` set (re_waiters (gate_heap g ! r)) \<longleftrightarrow> i \<in> set granted \<or> i \<in> cl_id ` set ws"
      using gs by auto
    then have "i \<in> cl_id ` set (re_waiters (gate_heap (drain r g) ! q)) \<longleftrightarrow>
        i \<in> cl_id ` set (re_waiters (gate_heap g ! q)) \<and> \<not> (q = r \<and> i \<in> set granted)"
      unfolding hd [OF q] using dj by (cases "q = r") auto
    then show "i \<in> cl_id ` set (re_waiters (gate_heap (drain r g) ! q)) \<longleftrightarrow>
        gate_promise (drain r g) i = Some LeasePending \<and> gate_ref g i = Some q"
      using claims_okD(3) [OF c q, of i] pend [of i] unfolding pr by auto
  next
    fix i
    show "gate_promise (drain r g) i \<noteq> None \<longleftrightarrow> i < gate_next g"
      using claims_okD(5) [OF c, of i] pend [of i] unfolding pr by auto
    show "gate_ref g i \<noteq> None"
      if "gate_promise (drain r g) i = Some LeaseHeld \<or> gate_promise (drain r g) i = Some LeasePending"
      using that claims_okD(4) [OF c, of i] pend [of i] unfolding pr by (cases "i \<in> set granted") auto
  qed (rule claims_okD(1) [OF c])
qed

lemma drain_ok:
  assumes d: "drainable r g"
  shows "gate_ok (drain r g)"
proof -
  let ?e = "gate_heap g ! r"
  obtain granted hs ws where gw: "grant_waiters (re_holders ?e) (re_waiters ?e) = (granted, hs, ws)"
    using prod_cases3 by blast
  have r: "r < length (gate_heap g)" and c: "claims_ok g"
    and eok: "entry_ok (re_holders ?e) (re_waiters ?e)" and me: "gate_entries g (re_key ?e) = Some r"
    and kk: "\<And>k q. gate_entries g k = Some q \<Longrightarrow> q < length (gate_heap g) \<and> re_key (gate_heap g ! q) = k"
    using d unfolding drainable_def by blast+
  have others: "entry_ok (re_holders (gate_heap g ! q)) (re_waiters (gate_heap g ! q)) \<and>
      (in_use (gate_heap g ! q) \<longleftrightarrow> gate_entries g (re_key (gate_heap g ! q)) = Some q) \<and>
      blocked (re_holders (gate_heap g ! q)) (re_waiters (gate_heap g ! q))"
    if "q < length (gate_heap g)" "q \<noteq> r" for q using d that unfolding drainable_def by blast
  note F = drain_fields [OF r gw]
  have len: "length (gate_heap (drain r g)) = length (gate_heap g)" by (simp add: F)
  have hd: "(gate_heap (drain r g) ! q) =
      (if q = r then ?e\<lparr>re_holders := hs, re_waiters := ws\<rparr> else gate_heap g ! q)"
    if "q < length (gate_heap g)" for q using that by (simp add: F)
  have new: "entry_ok hs ws \<and> blocked hs ws"
    using grant_waiters_ok [OF eok gw] grant_waiters_spec [OF gw] by blast
  have ent: "gate_entries (drain r g) k =
      (if hs = [] \<and> ws = [] \<and> k = re_key ?e then None else gate_entries g k)" for k
    by (simp add: F)
  have "entries_ok (drain r g)"
    unfolding entries_ok_def len
  proof (intro conjI allI impI)
    fix q assume q: "q < length (gate_heap g)"
    show "entry_ok (re_holders (gate_heap (drain r g) ! q)) (re_waiters (gate_heap (drain r g) ! q))"
      unfolding hd [OF q] using new others [OF q] by simp
    show "in_use (gate_heap (drain r g) ! q) = (gate_entries (drain r g) (re_key (gate_heap (drain r g) ! q)) = Some q)"
      unfolding hd [OF q] ent using me others [OF q] by (cases "q = r") (auto simp: in_use_def)
  next
    fix k q assume "gate_entries (drain r g) k = Some q"
    then have "gate_entries g k = Some q" by (auto simp: ent split: if_splits)
    from kk [OF this] show "q < length (gate_heap g)" and "re_key (gate_heap (drain r g) ! q) = k"
      using hd by auto
  qed
  moreover have "unblocked_free (drain r g)"
    unfolding unblocked_free_def len using hd new others by auto
  ultimately show ?thesis
    using drain_claims [OF c r eok] by (simp add: gate_ok_def)
qed

lemma gate_okD:
  assumes "gate_ok g"
  shows "claims_ok g"
    and "r < length (gate_heap g) \<Longrightarrow> entry_ok (re_holders (gate_heap g ! r)) (re_waiters (gate_heap g ! r))"
    and "r < length (gate_heap g) \<Longrightarrow>
      in_use (gate_heap g ! r) \<longleftrightarrow> gate_entries g (re_key (gate_heap g ! r)) = Some r"
    and "r < length (gate_heap g) \<Longrightarrow> blocked (re_holders (gate_heap g ! r)) (re_waiters (gate_heap g ! r))"
    and "gate_entries g k = Some r \<Longrightarrow> r < length (gate_heap g) \<and> re_key (gate_heap g ! r) = k"
  using assms unfolding gate_ok_def entries_ok_def unblocked_free_def by blast+

text \<open>Changing one entry in use, keeping its key, leaves a state to drain.\<close>

lemma drainable_put:
  assumes g: "gate_ok g" and r: "r < length (gate_heap g)"
    and u: "gate_entries g (re_key (gate_heap g ! r)) = Some r" and k: "re_key e = re_key (gate_heap g ! r)"
    and e: "entry_ok (re_holders e) (re_waiters e)"
    and h: "gate_heap g' = (gate_heap g)[r := e]" and en: "gate_entries g' = gate_entries g"
    and c: "claims_ok g'"
  shows "drainable r g'"
proof -
  have at: "gate_heap g' ! q = (if q = r then e else gate_heap g ! q)" if "q < length (gate_heap g)" for q
    using that h by simp
  have len: "length (gate_heap g') = length (gate_heap g)" using h by simp
  have others: "entry_ok (re_holders (gate_heap g' ! q)) (re_waiters (gate_heap g' ! q)) \<and>
      (in_use (gate_heap g' ! q) \<longleftrightarrow> gate_entries g' (re_key (gate_heap g' ! q)) = Some q) \<and>
      blocked (re_holders (gate_heap g' ! q)) (re_waiters (gate_heap g' ! q))"
    if q: "q < length (gate_heap g)" and n: "q \<noteq> r" for q
  proof -
    have "gate_heap g' ! q = gate_heap g ! q" using at [OF q] n by simp
    then show ?thesis using gate_okD(2-4) [OF g q] en by simp
  qed
  have keys: "q < length (gate_heap g) \<and> re_key (gate_heap g' ! q) = k" if "gate_entries g' k = Some q" for k q
    using gate_okD(5) [OF g that [unfolded en]] at [of q] \<open>re_key e = _\<close> by auto
  have "gate_heap g' ! r = e" using at [OF r] by simp
  then show ?thesis
    unfolding drainable_def len using c r e u k en others keys by simp
qed

lemma drain_settle:
  assumes "r < length (gate_heap g)" and "i \<notin> cl_id ` set (re_waiters (gate_heap g ! r))"
  shows "settle i p (drain r g) = drain r (settle i p g)"
proof -
  obtain granted hs ws where
    gw: "grant_waiters (re_holders (gate_heap g ! r)) (re_waiters (gate_heap g ! r)) = (granted, hs, ws)"
    using prod_cases3 by blast
  then have i: "i \<notin> set granted" using grant_waiters_spec [OF gw] assms(2) by auto
  have gw': "grant_waiters (re_holders (gate_heap (settle i p g) ! r)) (re_waiters (gate_heap (settle i p g) ! r))
      = (granted, hs, ws)" using gw by simp
  have r': "r < length (gate_heap (settle i p g))" using assms(1) by simp
  show ?thesis
    by (rule repo_gate.equality)
      (use i in \<open>auto simp: drain_fields [OF assms(1) gw] drain_fields [OF r' gw'] fun_eq_iff\<close>)
qed

lemma gate_ref_live:
  assumes g: "gate_ok g" and p: "gate_promise g i = Some LeaseHeld \<or> gate_promise g i = Some LeasePending"
    and ref: "gate_ref g i = Some r"
  shows "r < length (gate_heap g)" and "gate_entries g (re_key (gate_heap g ! r)) = Some r"
proof -
  show r: "r < length (gate_heap g)" using claims_okD(1) [OF gate_okD(1) [OF g] ref] .
  have "i \<in> cl_id ` set (re_holders (gate_heap g ! r)) \<or> i \<in> cl_id ` set (re_waiters (gate_heap g ! r))"
    using claims_okD(2,3) [OF gate_okD(1) [OF g] r, of i] p ref by blast
  then have "in_use (gate_heap g ! r)" by (auto simp: in_use_def)
  then show "gate_entries g (re_key (gate_heap g ! r)) = Some r" using gate_okD(3) [OF g r] by blast
qed

text \<open>A held or pending claim leaves its list and its promise moves on.\<close>

lemma leave_claims:
  assumes g: "gate_ok g" and ref: "gate_ref g i = Some r" and r: "r < length (gate_heap g)"
    and lists: "cl_id ` set (re_holders e) = cl_id ` set (re_holders (gate_heap g ! r)) - {i}"
      "cl_id ` set (re_waiters e) = cl_id ` set (re_waiters (gate_heap g ! r)) - {i}"
    and p: "p = LeaseReleased \<or> p = LeaseRejected" and old: "gate_promise g i \<noteq> None"
  shows "claims_ok (settle i p (put_entry r e g))"
proof (rule claims_okI)
  note c = gate_okD(1) [OF g]
  fix q j
  show "gate_ref (settle i p (put_entry r e g)) j = Some q \<Longrightarrow> q < length (gate_heap (settle i p (put_entry r e g)))"
    using claims_okD(1) [OF c] by simp
  show "gate_promise (settle i p (put_entry r e g)) j \<noteq> None \<longleftrightarrow> j < gate_next (settle i p (put_entry r e g))"
    using claims_okD(5) [OF c, of j] old by auto
  show "gate_ref (settle i p (put_entry r e g)) j \<noteq> None"
    if "gate_promise (settle i p (put_entry r e g)) j = Some LeaseHeld \<or>
        gate_promise (settle i p (put_entry r e g)) j = Some LeasePending"
    using that claims_okD(4) [OF c, of j] p by (auto split: if_splits)
  assume "q < length (gate_heap (settle i p (put_entry r e g)))"
  then have q: "q < length (gate_heap g)" by simp
  show "j \<in> cl_id ` set (re_holders (gate_heap (settle i p (put_entry r e g)) ! q)) \<longleftrightarrow>
      gate_promise (settle i p (put_entry r e g)) j = Some LeaseHeld \<and>
      gate_ref (settle i p (put_entry r e g)) j = Some q"
    using claims_okD(2) [OF c q, of j] q r p ref lists by (cases "q = r") auto
  show "j \<in> cl_id ` set (re_waiters (gate_heap (settle i p (put_entry r e g)) ! q)) \<longleftrightarrow>
      gate_promise (settle i p (put_entry r e g)) j = Some LeasePending \<and>
      gate_ref (settle i p (put_entry r e g)) j = Some q"
    using claims_okD(3) [OF c q, of j] q r p ref lists by (cases "q = r") auto
qed

lemma gate_release_ok: "gate_ok g \<Longrightarrow> gate_ok (release_lease i g)"
proof -
  assume g: "gate_ok g"
  show ?thesis
  proof (cases "gate_promise g i = Some LeaseHeld \<and> gate_ref g i \<noteq> None")
    case False
    then have "release_lease i g = g"
      by (auto simp: release_lease_def split: option.splits lease_promise.splits)
    then show ?thesis using g by simp
  next
    case True
    then obtain r where p: "gate_promise g i = Some LeaseHeld" and ref: "gate_ref g i = Some r" by blast
    let ?e = "gate_heap g ! r"
    let ?e' = "?e\<lparr>re_holders := splice_out i (re_holders ?e)\<rparr>"
    note live = gate_ref_live [OF g disjI1 [OF p] ref]
    note ok = gate_okD(2) [OF g live(1)]
    have i: "i \<in> cl_id ` set (re_holders ?e)" "i \<notin> cl_id ` set (re_waiters ?e)"
      using claims_okD(2,3) [OF gate_okD(1) [OF g] live(1), of i] p ref by simp_all
    have "claims_ok (settle i LeaseReleased (put_entry r ?e' g))"
      by (rule leave_claims [OF g ref live(1)]) (use p i set_splice(1) [OF ok i(1)] in auto)
    then have "drainable r (settle i LeaseReleased (put_entry r ?e' g))"
      by (intro drainable_put [OF g live, of ?e']) (use splice_ok_holders [OF ok i(1)] in auto)
    then show ?thesis using drain_ok p ref by (simp add: release_lease_def Let_def)
  qed
qed

lemma abort_ok: "gate_ok g \<Longrightarrow> gate_ok (abort_claim i g)"
proof -
  assume g: "gate_ok g"
  show ?thesis
  proof (cases "gate_promise g i = Some LeasePending \<and> gate_ref g i \<noteq> None")
    case False
    then have "abort_claim i g = g"
      by (auto simp: abort_claim_def split: option.splits lease_promise.splits)
    then show ?thesis using g by simp
  next
    case True
    then obtain r where p: "gate_promise g i = Some LeasePending" and ref: "gate_ref g i = Some r" by blast
    let ?e = "gate_heap g ! r"
    let ?e' = "?e\<lparr>re_waiters := splice_out i (re_waiters ?e)\<rparr>"
    note live = gate_ref_live [OF g disjI2 [OF p] ref]
    note ok = gate_okD(2) [OF g live(1)]
    have i: "i \<in> cl_id ` set (re_waiters ?e)" "i \<notin> cl_id ` set (re_holders ?e)"
      using claims_okD(2,3) [OF gate_okD(1) [OF g] live(1), of i] p ref by simp_all
    have "claims_ok (settle i LeaseRejected (put_entry r ?e' g))"
      by (rule leave_claims [OF g ref live(1)]) (use p i set_splice(2) [OF ok i(1)] in auto)
    then have d: "drainable r (settle i LeaseRejected (put_entry r ?e' g))"
      by (intro drainable_put [OF g live, of ?e']) (use splice_ok_waiters [OF ok i(1)] in auto)
    have "abort_claim i g = drain r (settle i LeaseRejected (put_entry r ?e' g))"
      using p ref live(1) set_splice(2) [OF ok i(1)]
      by (simp add: abort_claim_def Let_def drain_settle)
    then show ?thesis using drain_ok [OF d] by simp
  qed
qed

text \<open>A fresh entry for a key the map does not hold is in the map before it is in use.\<close>

lemma entry_for_spec:
  assumes g: "gate_ok g" and ent: "entry_for key (g\<lparr>gate_next := n\<rparr>) = (r, g1)"
  shows "gate_promise g1 = gate_promise g" "gate_ref g1 = gate_ref g" "gate_next g1 = n"
    "gate_entries g1 = (gate_entries g)(key \<mapsto> r)" "r < length (gate_heap g1)"
    "re_key (gate_heap g1 ! r) = key"
    "q < length (gate_heap g1) \<Longrightarrow> gate_heap g1 ! q = (if q < length (gate_heap g) then gate_heap g ! q
      else \<lparr>re_key = key, re_holders = [], re_waiters = []\<rparr>)"
    "q < length (gate_heap g1) \<Longrightarrow> q < length (gate_heap g) \<or> q = r"
  using ent gate_okD(5) [OF g, of key r]
  by (auto simp: entry_for_def nth_append fun_upd_idem split: option.splits)

lemma entry_for_matches:
  assumes g: "gate_ok g" and ent: "entry_for key (g\<lparr>gate_next := n\<rparr>) = (r, g1)"
    and q: "q < length (gate_heap g1)"
  shows "j \<in> cl_id ` set (re_holders (gate_heap g1 ! q)) \<longleftrightarrow>
      gate_promise g j = Some LeaseHeld \<and> gate_ref g j = Some q"
    and "j \<in> cl_id ` set (re_waiters (gate_heap g1 ! q)) \<longleftrightarrow>
      gate_promise g j = Some LeasePending \<and> gate_ref g j = Some q"
  using claims_okD(1-3) [OF gate_okD(1) [OF g], of j q] claims_okD(2,3) [OF gate_okD(1) [OF g], of q j]
    entry_for_spec(7) [OF g ent q] by auto

lemma acquire_claims:
  assumes g: "gate_ok g" and ent: "entry_for key (g\<lparr>gate_next := Suc (gate_next g)\<rparr>) = (r, g1)"
    and c: "cl_id c = gate_next g"
    and g': "g' = settle (gate_next g) LeasePending (put_entry r
      ((gate_heap g1 ! r)\<lparr>re_waiters := re_waiters (gate_heap g1 ! r) @ [c]\<rparr>)
      (g1\<lparr>gate_ref := (gate_ref g1)(gate_next g \<mapsto> r)\<rparr>))"
  shows "claims_ok g'"
proof (rule claims_okI)
  note C = gate_okD(1) [OF g]
  note G = entry_for_spec [OF g ent]
  have fresh: "gate_promise g (gate_next g) = None" using claims_okD(5) [OF C, of "gate_next g"] by simp
  fix q j
  show "gate_ref g' j = Some q \<Longrightarrow> q < length (gate_heap g')"
    using G(2,5) claims_okD(1) [OF C, of j q] ent
    by (auto simp: g' entry_for_def split: if_splits option.splits)
  show "gate_promise g' j \<noteq> None \<longleftrightarrow> j < gate_next g'"
    using G(1,3) claims_okD(5) [OF C, of j] by (auto simp: g')
  show "gate_promise g' j = Some LeaseHeld \<or> gate_promise g' j = Some LeasePending \<Longrightarrow> gate_ref g' j \<noteq> None"
    using G(1,2) claims_okD(4) [OF C, of j] by (auto simp: g' split: if_splits)
  assume "q < length (gate_heap g')"
  then have q: "q < length (gate_heap g1)" by (simp add: g')
  show "j \<in> cl_id ` set (re_holders (gate_heap g' ! q)) \<longleftrightarrow>
      gate_promise g' j = Some LeaseHeld \<and> gate_ref g' j = Some q"
    using entry_for_matches(1) [OF g ent q, of j] G(1,2) q fresh by (cases "q = r") (auto simp: g')
  show "j \<in> cl_id ` set (re_waiters (gate_heap g' ! q)) \<longleftrightarrow>
      gate_promise g' j = Some LeasePending \<and> gate_ref g' j = Some q"
    using entry_for_matches(2) [OF g ent q, of j] G(1,2) q fresh c by (cases "q = r") (auto simp: g')
qed

lemma acquire_drainable:
  assumes g: "gate_ok g" and ent: "entry_for key (g\<lparr>gate_next := Suc (gate_next g)\<rparr>) = (r, g1)"
    and c: "cl_id c = gate_next g"
    and g': "g' = settle (gate_next g) LeasePending (put_entry r
      ((gate_heap g1 ! r)\<lparr>re_waiters := re_waiters (gate_heap g1 ! r) @ [c]\<rparr>)
      (g1\<lparr>gate_ref := (gate_ref g1)(gate_next g \<mapsto> r)\<rparr>))"
  shows "drainable r g'"
proof -
  note G = entry_for_spec [OF g ent]
  let ?e = "gate_heap g1 ! r"
  have lt: "j < gate_next g" if "j \<in> cl_id ` set (re_holders ?e) \<or> j \<in> cl_id ` set (re_waiters ?e)" for j
    using that entry_for_matches [OF g ent G(5), of j] claims_okD(5) [OF gate_okD(1) [OF g], of j] by auto
  have "entry_ok (re_holders ?e) (re_waiters ?e)"
    using gate_okD(2) [OF g, of r] G(7) [OF G(5)] by (auto simp: entry_ok_def)
  then have eok: "entry_ok (re_holders (gate_heap g' ! r)) (re_waiters (gate_heap g' ! r))"
    using lt c G(5) by (auto simp: g' entry_ok_def sorted_wrt_append)
  have others: "entry_ok (re_holders (gate_heap g' ! q)) (re_waiters (gate_heap g' ! q)) \<and>
      (in_use (gate_heap g' ! q) \<longleftrightarrow> gate_entries g' (re_key (gate_heap g' ! q)) = Some q) \<and>
      blocked (re_holders (gate_heap g' ! q)) (re_waiters (gate_heap g' ! q))"
    if q: "q < length (gate_heap g1)" and n: "q \<noteq> r" for q
  proof -
    have l: "q < length (gate_heap g)" using G(8) [OF q] n by blast
    have "gate_heap g' ! q = gate_heap g ! q" using G(7) [OF q] l n by (simp add: g')
    moreover have "gate_entries g (re_key (gate_heap g ! q)) = Some q \<longleftrightarrow>
        gate_entries g' (re_key (gate_heap g ! q)) = Some q"
      using G(4) ent n by (auto simp: g' entry_for_def split: option.splits)
    ultimately show ?thesis using gate_okD(2-4) [OF g l] by simp
  qed
  have keys: "q < length (gate_heap g1) \<and> re_key (gate_heap g' ! q) = k" if "gate_entries g' k = Some q" for k q
  proof (cases "k = key")
    case True
    then show ?thesis using that G(4,5,6) by (auto simp: g')
  next
    case False
    then have k: "gate_entries g k = Some q" using that G(4) by (simp add: g')
    from gate_okD(5) [OF g k] have l: "q < length (gate_heap g)" "re_key (gate_heap g ! q) = k" by auto
    have l1: "q < length (gate_heap g1)" using l(1) ent by (auto simp: entry_for_def split: option.splits)
    have "q \<noteq> r" using False l G(6) G(7) [OF l1] by auto
    then show ?thesis using l l1 G(7) [OF l1] by (simp add: g')
  qed
  have len: "length (gate_heap g') = length (gate_heap g1)" by (simp add: g')
  have "re_key (gate_heap g' ! r) = key" "gate_entries g' key = Some r" using G(4-6) by (simp_all add: g')
  then show ?thesis
    unfolding drainable_def len using acquire_claims [OF g ent c g'] G(5) eok others keys by simp
qed

lemma gate_acquire_ok: "gate_ok g \<Longrightarrow> gate_ok (acquire key access owner aborted g)"
proof -
  assume g: "gate_ok g"
  show ?thesis
  proof (cases aborted)
    case True
    note C = claims_okD [OF gate_okD(1) [OF g]]
    have fresh: "gate_promise g (gate_next g) = None" using C(5) [of "gate_next g"] by simp
    have "claims_ok (settle (gate_next g) LeaseRejected (g\<lparr>gate_next := Suc (gate_next g)\<rparr>))"
    proof (rule claims_okI)
      fix i
      show "gate_promise (settle (gate_next g) LeaseRejected (g\<lparr>gate_next := Suc (gate_next g)\<rparr>)) i \<noteq> None \<longleftrightarrow>
          i < gate_next (settle (gate_next g) LeaseRejected (g\<lparr>gate_next := Suc (gate_next g)\<rparr>))"
        using C(5) [of i] by (auto simp: less_Suc_eq)
    qed (use C(1-4) fresh in \<open>auto split: if_splits\<close>)
    then show ?thesis using g True
      by (simp add: acquire_def gate_ok_def entries_ok_def unblocked_free_def Let_def)
  next
    case False
    obtain r g1 where ent: "entry_for key (g\<lparr>gate_next := Suc (gate_next g)\<rparr>) = (r, g1)"
      by (cases "entry_for key (g\<lparr>gate_next := Suc (gate_next g)\<rparr>)")
    show ?thesis
      using drain_ok [OF acquire_drainable [OF g ent _ refl,
          of "\<lparr>cl_id = gate_next g, cl_access = access, cl_owner = owner\<rparr>"]] False ent
      by (simp add: acquire_def Let_def)
  qed
qed

lemma gate_step_ok: "gate_ok g \<Longrightarrow> gate_ok (gate_step ev g)"
  by (cases ev) (simp_all add: gate_acquire_ok gate_release_ok abort_ok)

lemma empty_gate_ok: "gate_ok empty_repo_gate"
proof -
  have "claims_ok empty_repo_gate" by (rule claims_okI) (simp_all add: empty_repo_gate_def)
  then show ?thesis by (simp add: gate_ok_def entries_ok_def unblocked_free_def empty_repo_gate_def)
qed

interpretation repo_gate_machine: invariant_machine gate_step gate_ok
  by unfold_locales (rule gate_step_ok)

section \<open>What the gate promises\<close>

text \<open>The claims that hold, or wait for, a repository: those of every entry object made for its key.\<close>

definition repo_holders :: "string \<Rightarrow> repo_gate \<Rightarrow> repo_claim list" where
  "repo_holders k g = concat (map (\<lambda>e. if re_key e = k then re_holders e else []) (gate_heap g))"

definition repo_waiters :: "string \<Rightarrow> repo_gate \<Rightarrow> repo_claim list" where
  "repo_waiters k g = concat (map (\<lambda>e. if re_key e = k then re_waiters e else []) (gate_heap g))"

definition lease_key :: "repo_gate \<Rightarrow> nat \<Rightarrow> string option" where
  "lease_key g i = map_option (\<lambda>r. re_key (gate_heap g ! r)) (gate_ref g i)"

lemma concat_single:
  assumes "r < length xs" and "\<And>q. q < length xs \<Longrightarrow> q \<noteq> r \<Longrightarrow> f (xs ! q) = []"
  shows "concat (map f xs) = f (xs ! r)"
proof -
  have 1: "\<forall>x \<in> set (take r xs). f x = []"
  proof
    fix x assume "x \<in> set (take r xs)"
    then obtain q where "q < r" "x = xs ! q" using assms(1) by (auto simp: in_set_conv_nth)
    then show "f x = []" using assms by simp
  qed
  have 2: "\<forall>x \<in> set (drop (Suc r) xs). f x = []"
  proof
    fix x assume "x \<in> set (drop (Suc r) xs)"
    then obtain q where q: "q < length xs - Suc r" "x = drop (Suc r) xs ! q" by (auto simp: in_set_conv_nth)
    then have "x = xs ! (Suc r + q)" and "Suc r + q < length xs" using assms(1) by auto
    then show "f x = []" using assms(2) [of "Suc r + q"] by simp
  qed
  have "concat (map f xs) = concat (map f (take r xs @ xs ! r # drop (Suc r) xs))"
    using id_take_nth_drop [OF assms(1)] by simp
  moreover have "concat (map f (take r xs)) = []" using 1 by simp
  moreover have "concat (map f (drop (Suc r) xs)) = []" using 2 by simp
  ultimately show ?thesis by simp
qed

lemma repo_lists:
  assumes g: "gate_ok g"
  shows "gate_entries g k = Some r \<Longrightarrow> repo_holders k g = re_holders (gate_heap g ! r) \<and>
      repo_waiters k g = re_waiters (gate_heap g ! r) \<and> r < length (gate_heap g)"
    and "gate_entries g k = None \<Longrightarrow> repo_holders k g = [] \<and> repo_waiters k g = []"
proof -
  have unused: "re_holders (gate_heap g ! q) = [] \<and> re_waiters (gate_heap g ! q) = []"
    if "q < length (gate_heap g)" "re_key (gate_heap g ! q) = k" "gate_entries g k \<noteq> Some q" for q
    using gate_okD(3) [OF g that(1)] that by (auto simp: in_use_def)
  show "repo_holders k g = [] \<and> repo_waiters k g = []" if "gate_entries g k = None"
    using unused that unfolding repo_holders_def repo_waiters_def
    by (auto simp: in_set_conv_nth)
  show "repo_holders k g = re_holders (gate_heap g ! r) \<and> repo_waiters k g = re_waiters (gate_heap g ! r) \<and>
      r < length (gate_heap g)" if e: "gate_entries g k = Some r"
    using gate_okD(5) [OF g e] unused e unfolding repo_holders_def repo_waiters_def
    by (subst (1 2) concat_single [of r]) auto
qed

lemma repo_lists_ok:
  assumes g: "gate_ok g"
  shows "entry_ok (repo_holders k g) (repo_waiters k g)" and "blocked (repo_holders k g) (repo_waiters k g)"
  using repo_lists [OF g, of k] gate_okD(2,4) [OF g]
  by (cases "gate_entries g k"; auto simp: entry_ok_def blocked_def)+

lemma repo_holders_set:
  assumes g: "gate_ok g"
  shows "cl_id ` set (repo_holders k g) = {i. gate_promise g i = Some LeaseHeld \<and> lease_key g i = Some k}"
    and "cl_id ` set (repo_waiters k g) = {i. gate_promise g i = Some LeasePending \<and> lease_key g i = Some k}"
proof -
  note C = claims_okD [OF gate_okD(1) [OF g]]
  have "i \<in> cl_id ` set (repo_holders k g) \<longleftrightarrow>
      (\<exists>r < length (gate_heap g). re_key (gate_heap g ! r) = k \<and> i \<in> cl_id ` set (re_holders (gate_heap g ! r)))" for i
    unfolding repo_holders_def by (fastforce simp: in_set_conv_nth split: if_splits)
  then have "i \<in> cl_id ` set (repo_holders k g) \<longleftrightarrow> (\<exists>r < length (gate_heap g). re_key (gate_heap g ! r) = k \<and>
      gate_promise g i = Some LeaseHeld \<and> gate_ref g i = Some r)" for i
    by (simp only: C(2) cong: conj_cong)
  then have "i \<in> cl_id ` set (repo_holders k g) \<longleftrightarrow> gate_promise g i = Some LeaseHeld \<and> lease_key g i = Some k" for i
    using C(1) [of i] by (auto simp: lease_key_def)
  then show "cl_id ` set (repo_holders k g) = {i. gate_promise g i = Some LeaseHeld \<and> lease_key g i = Some k}"
    by blast
  have "i \<in> cl_id ` set (repo_waiters k g) \<longleftrightarrow>
      (\<exists>r < length (gate_heap g). re_key (gate_heap g ! r) = k \<and> i \<in> cl_id ` set (re_waiters (gate_heap g ! r)))" for i
    unfolding repo_waiters_def by (fastforce simp: in_set_conv_nth split: if_splits)
  then have "i \<in> cl_id ` set (repo_waiters k g) \<longleftrightarrow> (\<exists>r < length (gate_heap g). re_key (gate_heap g ! r) = k \<and>
      gate_promise g i = Some LeasePending \<and> gate_ref g i = Some r)" for i
    by (simp only: C(3) cong: conj_cong)
  then have "i \<in> cl_id ` set (repo_waiters k g) \<longleftrightarrow> gate_promise g i = Some LeasePending \<and> lease_key g i = Some k" for i
    using C(1) [of i] by (auto simp: lease_key_def)
  then show "cl_id ` set (repo_waiters k g) = {i. gate_promise g i = Some LeasePending \<and> lease_key g i = Some k}"
    by blast
qed

text \<open>The clients of one repository hand their leases back, the oldest first.\<close>

fun hand_back :: "nat \<Rightarrow> string \<Rightarrow> repo_gate \<Rightarrow> repo_gate" where
  "hand_back 0 k g = g"
| "hand_back (Suc n) k g =
     (case repo_holders k g of [] \<Rightarrow> g | c # _ \<Rightarrow> hand_back n k (gate_step (Release (cl_id c)) g))"

definition open_claim :: "repo_gate \<Rightarrow> nat \<Rightarrow> bool" where
  "open_claim g i \<longleftrightarrow> gate_promise g i = Some LeaseHeld \<or> gate_promise g i = Some LeasePending"

lemma release_effect:
  assumes g: "gate_ok g" and p: "gate_promise g c = Some LeaseHeld"
  shows "lease_key (release_lease c g) i = lease_key g i"
    and "gate_promise (release_lease c g) c = Some LeaseReleased"
    and "open_claim (release_lease c g) i \<longleftrightarrow> open_claim g i \<and> i \<noteq> c"
    and "\<not> open_claim g i \<Longrightarrow> gate_promise (release_lease c g) i = gate_promise g i"
proof -
  obtain r where ref: "gate_ref g c = Some r" using claims_okD(4) [OF gate_okD(1) [OF g]] p by blast
  note live = gate_ref_live [OF g disjI1 [OF p] ref]
  let ?e = "gate_heap g ! r"
  define g1 where "g1 = settle c LeaseReleased (put_entry r (?e\<lparr>re_holders := splice_out c (re_holders ?e)\<rparr>) g)"
  have r: "r < length (gate_heap g1)" using live(1) by (simp add: g1_def)
  obtain granted hs ws where
    gw: "grant_waiters (re_holders (gate_heap g1 ! r)) (re_waiters (gate_heap g1 ! r)) = (granted, hs, ws)"
    using prod_cases3 by blast
  have eq: "release_lease c g = drain r g1"
    using p ref by (simp add: release_lease_def g1_def Let_def)
  have w: "re_waiters (gate_heap g1 ! r) = re_waiters ?e" using live(1) by (simp add: g1_def)
  have pend: "gate_promise g j = Some LeasePending" if "j \<in> set granted" for j
  proof -
    have "j \<in> cl_id ` set (re_waiters ?e)" using that grant_waiters_spec [OF gw] w by auto
    then show ?thesis using claims_okD(3) [OF gate_okD(1) [OF g] live(1)] by blast
  qed
  note F = drain_fields [OF r gw]
  have pr: "gate_promise (drain r g1) j = (if j \<in> set granted then Some LeaseHeld
      else if j = c then Some LeaseReleased else gate_promise g j)" for j
    by (simp add: F) (simp add: g1_def)
  have nc: "c \<notin> set granted" using pend p by auto
  show "lease_key (release_lease c g) i = lease_key g i"
    unfolding eq lease_key_def F using live(1) r
    by (cases "gate_ref g i"; simp add: g1_def nth_list_update)
  show "gate_promise (release_lease c g) c = Some LeaseReleased" unfolding eq pr using nc by simp
  show "open_claim (release_lease c g) i \<longleftrightarrow> open_claim g i \<and> i \<noteq> c"
    unfolding open_claim_def eq pr using nc pend [of i] by auto
  show "gate_promise (release_lease c g) i = gate_promise g i" if "\<not> open_claim g i"
    using that pend [of i] p unfolding open_claim_def eq pr by auto
qed

lemma open_claims:
  assumes "gate_ok g"
  shows "cl_id ` set (repo_holders k g @ repo_waiters k g) = {i. open_claim g i \<and> lease_key g i = Some k}"
  using repo_holders_set [OF assms, of k] by (auto simp: open_claim_def image_Un)

lemma open_count:
  assumes "gate_ok g"
  shows "length (repo_holders k g) + length (repo_waiters k g) = card {i. open_claim g i \<and> lease_key g i = Some k}"
proof -
  have "distinct (map cl_id (repo_holders k g @ repo_waiters k g))"
    using repo_lists_ok(1) [OF assms, of k] by (auto simp: entry_ok_def strict_sorted_iff)
  then show ?thesis
    using distinct_card [of "map cl_id (repo_holders k g @ repo_waiters k g)"]
    by (simp add: open_claims [OF assms, symmetric] image_Un)
qed

lemma hand_back_serves:
  assumes "gate_ok g" and "length (repo_holders k g) + length (repo_waiters k g) = n"
  shows "gate_ok (hand_back n k g) \<and> repo_holders k (hand_back n k g) = [] \<and> repo_waiters k (hand_back n k g) = [] \<and>
    (\<forall>i. open_claim g i \<and> lease_key g i = Some k \<longrightarrow> gate_promise (hand_back n k g) i = Some LeaseReleased) \<and>
    (\<forall>i. \<not> open_claim g i \<longrightarrow> gate_promise (hand_back n k g) i = gate_promise g i)"
  using assms
proof (induction n arbitrary: g)
  case 0
  then show ?case using open_claims [OF 0(1), of k] by auto
next
  case (Suc n)
  note g = Suc.prems(1)
  have "repo_holders k g \<noteq> []"
    using repo_lists_ok(2) [OF g, of k] Suc.prems(2) by (auto simp: blocked_def isCompatible_def)
  then obtain c hs where h: "repo_holders k g = c # hs" by (cases "repo_holders k g") auto
  have "cl_id c \<in> cl_id ` set (repo_holders k g)" using h by simp
  then have p: "gate_promise g (cl_id c) = Some LeaseHeld" "lease_key g (cl_id c) = Some k"
    using repo_holders_set(1) [OF g, of k] by auto
  let ?g = "release_lease (cl_id c) g"
  note E = release_effect [OF g p(1)]
  have ok: "gate_ok ?g" by (rule gate_release_ok [OF g])
  have "{i. open_claim ?g i \<and> lease_key ?g i = Some k} = {i. open_claim g i \<and> lease_key g i = Some k} - {cl_id c}"
    using E by auto
  moreover have "cl_id c \<in> {i. open_claim g i \<and> lease_key g i = Some k}" using p by (simp add: open_claim_def)
  ultimately have "length (repo_holders k ?g) + length (repo_waiters k ?g) = n"
    using open_count [OF g, of k] open_count [OF ok, of k] Suc.prems(2) by simp
  note IH = Suc.IH [OF ok this]
  have closed: "\<not> open_claim ?g (cl_id c)" using E(3) by blast
  show ?case using IH E closed h by (metis gate_step.simps(2) hand_back.simps(2) list.simps(5))
qed

lemma gate_run_ok: "gate_ok (run_events gate_step es empty_repo_gate)"
  by (rule repo_gate_machine.inv_run [OF empty_gate_ok])

text \<open>C17. Repository ownership is exclusive. After any sequence of acquires, releases and aborts, the
  leases held on one repository (of every entry object ever made for its key) overlap pairwise only
  when both read, or when they belong to the same non-null owner and one of them reads; and they are
  exactly the leases whose promise has resolved and that were not released.\<close>

theorem repository_leases_exclusive:
  "let g = run_events gate_step es empty_repo_gate in
     sorted_wrt overlap_ok (repo_holders k g) \<and>
     cl_id ` set (repo_holders k g) = {i. gate_promise g i = Some LeaseHeld \<and> lease_key g i = Some k}"
  unfolding Let_def
  using repo_lists_ok(1) [OF gate_run_ok] repo_holders_set(1) [OF gate_run_ok] by (auto simp: entry_ok_def)

text \<open>No request starts ahead of one queued. After any sequence of events the claims that hold a
  repository were all made before those that wait for it, both in the order they were made, and the
  first waiter is one the present holders exclude: the queue is never left standing while its head could run.\<close>

theorem repository_queue_fifo:
  "let g = run_events gate_step es empty_repo_gate in
     sorted_wrt (<) (map cl_id (repo_holders k g @ repo_waiters k g)) \<and>
     \<not> (repo_waiters k g \<noteq> [] \<and> isCompatible (hd (repo_waiters k g)) (repo_holders k g))"
  unfolding Let_def
  using repo_lists_ok [OF gate_run_ok, where k = k] by (auto simp: entry_ok_def blocked_def)

text \<open>Every waiter is served. From any reachable gate, when the holders of a repository hand their
  leases back one at a time (as many hand-backs as there are holders and waiters), every claim that
  held it or waited for it has been granted and released, and the gate has forgotten the repository.\<close>

theorem repository_waiters_served:
  "let g = run_events gate_step es empty_repo_gate;
       h = hand_back (length (repo_holders k g) + length (repo_waiters k g)) k g in
     {i. open_claim g i \<and> lease_key g i = Some k} \<subseteq> {i. gate_promise h i = Some LeaseReleased} \<and>
     gate_entries h k = None"
proof -
  let ?g = "run_events gate_step es empty_repo_gate"
  let ?h = "hand_back (length (repo_holders k ?g) + length (repo_waiters k ?g)) k ?g"
  note S = hand_back_serves [OF gate_run_ok [of es], of k, OF refl]
  have "gate_entries ?h k = None"
  proof (cases "gate_entries ?h k")
    case (Some r)
    have ok: "gate_ok ?h" using S by blast
    have "\<not> in_use (gate_heap ?h ! r)" using repo_lists(1) [OF ok Some] S by (simp add: in_use_def)
    then show ?thesis using gate_okD(3,5) [OF ok] Some by auto
  qed simp
  then show ?thesis unfolding Let_def using S by blast
qed

end
