(* ===== verification/Orchestrator_Effects.thy ===== *)
theory Orchestrator_Effects
  imports Orchestrator_Store Orchestrator_Scheduler Orchestrator_Review Orchestrator_Workspace Repo_Gate
begin

text \<open>
  How a live orchestrator run (src/orchestrator/run.ts) is modelled: its state, what it waits for, and
  the control constructs its methods are written with.

  A method is a function from the state of the live run to an outcome and the state after it. What it
  awaits is in the script: an entry holds what happens meanwhile (other writers of the store, tasks of
  the same run running beside this one, edits of the checkout, an abort) and how the promise settles. A
  method whose script ends is still waiting. The script is arbitrary, so a theorem about a method holds
  for every behaviour of the model, the children, the person and the file system, and for every
  interleaving with the other tasks of the run.
\<close>

section \<open>The state of a live run\<close>

datatype phase_label =
    PlanPreparationPhase | TaskReviewPhase | DriftReviewPhase | FinalVerificationPhase | ApprovalDecisionPhase

datatype run_error =
    RunFailure orch_failure
  | InfrastructureError string
  | AbortReason string
  | OtherError string

text \<open>Problems whose text ends up in a message or in the next prompt.\<close>

datatype run_problem =
    PlanRefused plan_error
  | ScheduleRefused schedule_error
  | EvidenceThrew evidence_error
  | CitationBad evidence_problem
  | DriftBad drift_problem
  | AttemptBad attempt_finding
  | StoreSaid store_error
  | CleanupBad cleanup_failure
  | PathThrew path_error

datatype agent_decision = Approve | Deny string | AbortDecision

datatype approval_answer = ApproveAnswer string | DenyAnswer string

datatype plan_preparation =
    PlanReady orch_plan
  | PlanGenerated orch_plan "string list"
  | PlanBlocked string

datatype child_boundary =
    ChildAsks nat string
  | ChildEnded worker_status

record running_task =
  rt_task :: orch_task
  rt_mutating :: bool
  rt_baseline :: workspace_snapshot
  rt_writerPaths :: "string list"

record run_disk =
  dk_files :: source_files
  dk_scratch :: scratch_files
  dk_tree :: work_tree

text \<open>How an awaited promise settles; the checkout itself is read from the state.\<close>

datatype run_reply =
    Granted
  | ModelAnswered string
  | GitFinished
  | AtBoundary child_boundary
  | CommandExited int string
  | Preflight "string list"
  | UserDecided nat agent_decision
  | DiffRendered string
  | TaskSettled string
  | Continued
  | Rejected run_error

datatype meanwhile =
    OtherWrite store_event
  | SiblingWrite store_event
  | SiblingStarts running_task
  | SiblingEnds string
  | SiblingWrote "string list"
  | DiskChanges run_disk
  | AbortSignal string

record awaited =
  aw_meanwhile :: "meanwhile list"
  aw_reply :: run_reply

text \<open>What the run does to the world outside its store, in order.\<close>

datatype run_action =
    AskedParent phase_label
  | StartedChild nat
  | AnsweredChild nat agent_decision
  | AbortedChild nat
  | Decided pending_approval agent_decision
  | RanCommand string string
  | CommandEnded string string int
  | WrotePlan string string
  | Leased repo_access
  | Released repo_access

record live_run =
  lv_runId :: nat
  lv_store :: orch_store
  lv_state :: orch_run_state
  lv_abort :: "string option"
  lv_dirty :: "string list option"
  lv_running :: "running_task list"
  lv_children :: "nat list"
  lv_pending :: "nat option"
  lv_leases :: "repo_access list"
  lv_schedule :: "orch_schedule option"
  lv_disk :: run_disk
  lv_trace :: "run_action list"
  lv_script :: "awaited list"

text \<open>What the run is given: its configuration and repository, and the code outside the model: the
  hashes, the schema parsers of the parent's answers, the texts of messages, the deletion of files.\<close>

record run_env =
  en_config :: sift_config
  en_root :: "string list"
  en_digest :: "orch_request \<Rightarrow> string"
  en_sha :: "string \<Rightarrow> string"
  en_message :: "run_problem \<Rightarrow> string"
  en_remove :: file_remover
  en_context :: "string option"
  en_parsePlan :: "string \<Rightarrow> string + plan_preparation"
  en_parseReview :: "string \<Rightarrow> string + task_review"
  en_parseDrift :: "string \<Rightarrow> string + drift_review"
  en_parseDecision :: "string \<Rightarrow> string + approval_answer"

section \<open>Methods\<close>

datatype 'a outcome = Returned 'a | Thrown run_error | Waiting

type_synonym 'a run = "live_run \<Rightarrow> 'a outcome \<times> live_run"

definition run_return :: "'a \<Rightarrow> 'a run" where
  "run_return x s = (Returned x, s)"

definition run_throw :: "run_error \<Rightarrow> 'a run" where
  "run_throw e s = (Thrown e, s)"

definition run_waiting :: "'a run" where
  "run_waiting s = (Waiting, s)"

definition run_get :: "(live_run \<Rightarrow> 'a) \<Rightarrow> 'a run" where
  "run_get f s = (Returned (f s), s)"

definition run_modify :: "(live_run \<Rightarrow> live_run) \<Rightarrow> unit run" where
  "run_modify f s = (Returned (), f s)"

text \<open>\<open>try m\<close>, then one continuation for its value and one for its error. Sequencing and catching are
  instances; \<open>finally\<close> runs a synchronous clean-up.\<close>

definition run_try :: "'a run \<Rightarrow> ('a \<Rightarrow> 'b run) \<Rightarrow> (run_error \<Rightarrow> 'b run) \<Rightarrow> 'b run" where
  "run_try m f h s = (case m s of
      (Returned x, s') \<Rightarrow> f x s'
    | (Thrown e, s') \<Rightarrow> h e s'
    | (Waiting, s') \<Rightarrow> (Waiting, s'))"

definition run_bind :: "'a run \<Rightarrow> ('a \<Rightarrow> 'b run) \<Rightarrow> 'b run" where
  "run_bind m f = run_try m f run_throw"

definition run_catch :: "'a run \<Rightarrow> (run_error \<Rightarrow> 'a run) \<Rightarrow> 'a run" where
  "run_catch m h = run_try m run_return h"

definition run_finally :: "'a run \<Rightarrow> (live_run \<Rightarrow> live_run) \<Rightarrow> 'a run" where
  "run_finally m cleanup = run_try m
     (\<lambda>x. run_bind (run_modify cleanup) (\<lambda>_. run_return x))
     (\<lambda>e. run_bind (run_modify cleanup) (\<lambda>_. run_throw e))"

definition run_lift :: "(run_problem \<Rightarrow> string) \<Rightarrow> ('e \<Rightarrow> run_problem) \<Rightarrow> 'e + 'a \<Rightarrow> 'a run" where
  "run_lift message tag r = (case r of Inl e \<Rightarrow> run_throw (OtherError (message (tag e))) | Inr x \<Rightarrow> run_return x)"

definition run_act :: "run_action \<Rightarrow> unit run" where
  "run_act a = run_modify (\<lambda>s. s\<lparr>lv_trace := lv_trace s @ [a]\<rparr>)"

text \<open>\<open>signal.throwIfAborted()\<close>\<close>

definition throwIfAborted :: "unit run" where
  "throwIfAborted s = (case lv_abort s of Some r \<Rightarrow> (Thrown (AbortReason r), s) | None \<Rightarrow> (Returned (), s))"

section \<open>Waiting\<close>

fun happen :: "run_env \<Rightarrow> meanwhile \<Rightarrow> live_run \<Rightarrow> live_run" where
  "happen en (OtherWrite ev) s = s\<lparr>lv_store := store_step (en_digest en) ev (lv_store s)\<rparr>"
| "happen en (SiblingWrite ev) s =
     (let st = store_step (en_digest en) ev (lv_store s) in
      s\<lparr>lv_store := st, lv_state := (case read_run st (lv_runId s) of Inr r \<Rightarrow> r | Inl _ \<Rightarrow> lv_state s)\<rparr>)"
| "happen en (SiblingStarts rt) s = s\<lparr>lv_running := lv_running s @ [rt]\<rparr>"
| "happen en (SiblingEnds i) s = s\<lparr>lv_running := filter (\<lambda>rt. task_id (rt_task rt) \<noteq> i) (lv_running s)\<rparr>"
| "happen en (SiblingWrote paths) s =
     s\<lparr>lv_running := map (\<lambda>rt. if rt_mutating rt then rt else rt\<lparr>rt_writerPaths := js_dedupe (rt_writerPaths rt @ paths)\<rparr>)
       (lv_running s)\<rparr>"
| "happen en (DiskChanges d) s = s\<lparr>lv_disk := d\<rparr>"
| "happen en (AbortSignal r) s = s\<lparr>lv_abort := (case lv_abort s of None \<Rightarrow> Some r | Some r' \<Rightarrow> Some r')\<rparr>"

text \<open>\<open>pick\<close> takes from the reply the value the awaited promise is fulfilled with; a reply that is not
  one of this promise leaves it pending.\<close>

definition run_await :: "run_env \<Rightarrow> (run_reply \<Rightarrow> 'a option) \<Rightarrow> 'a run" where
  "run_await en pick s = (case lv_script s of
      [] \<Rightarrow> (Waiting, s)
    | a # rest \<Rightarrow>
        let s' = fold (happen en) (aw_meanwhile a) (s\<lparr>lv_script := rest\<rparr>) in
        (case aw_reply a of
           Rejected e \<Rightarrow> (Thrown e, s')
         | r \<Rightarrow> (case pick r of None \<Rightarrow> (Waiting, s') | Some x \<Rightarrow> (Returned x, s'))))"

text \<open>\<open>await Promise.allSettled(...)\<close>, and promises whose outcome is ignored: any reply ends the wait.\<close>

definition await_settled :: "run_env \<Rightarrow> unit run" where
  "await_settled en = run_catch (run_await en (\<lambda>_. Some ())) (\<lambda>_. run_return ())"

definition await_git :: "run_env \<Rightarrow> unit run" where
  "await_git en = run_await en (\<lambda>r. if r = GitFinished then Some () else None)"

text \<open>\<open>for (;;)\<close>: a round ends the loop with a value (\<open>Inl\<close>) or says how the next one begins. The fuel
  given is one more than the waits left in the script; every round that goes on has waited.\<close>

fun run_loop :: "nat \<Rightarrow> ('a \<Rightarrow> ('b + 'a) run) \<Rightarrow> 'a \<Rightarrow> 'b run" where
  "run_loop 0 body a = run_waiting"
| "run_loop (Suc n) body a = run_bind (body a) (\<lambda>r. case r of Inl b \<Rightarrow> run_return b | Inr a' \<Rightarrow> run_loop n body a')"

definition script_fuel :: "live_run \<Rightarrow> nat" where
  "script_fuel s = Suc (length (lv_script s))"

definition run_forever :: "('a \<Rightarrow> ('b + 'a) run) \<Rightarrow> 'a \<Rightarrow> 'b run" where
  "run_forever body a = run_bind (run_get script_fuel) (\<lambda>n. run_loop n body a)"

section \<open>The store\<close>

text \<open>A call of the store at the revision the run knows; a committed state is published and kept.\<close>

definition store_call ::
  "run_env \<Rightarrow> (nat \<Rightarrow> nat \<Rightarrow> orch_store \<Rightarrow> store_error + orch_run_state \<times> orch_store) \<Rightarrow> unit run" where
  "store_call en call s =
     (case call (lv_runId s) (rs_revision (lv_state s)) (lv_store s) of
        Inl e \<Rightarrow> (Thrown (OtherError (en_message en (StoreSaid e))), s)
      | Inr (r, st) \<Rightarrow> (Returned (), s\<lparr>lv_store := st, lv_state := r\<rparr>))"

definition run_commit :: "run_env \<Rightarrow> (orch_run_state \<Rightarrow> run_changes) \<Rightarrow> event_input \<Rightarrow> unit run" where
  "run_commit en changes ev s = store_call en (\<lambda>i v. update_run i v (changes (lv_state s)) ev) s"

definition commit_phase :: "run_env \<Rightarrow> orch_phase \<Rightarrow> string \<Rightarrow> unit run" where
  "commit_phase en p m = run_commit en (\<lambda>_. no_changes\<lparr>ch_phase := Some p\<rparr>) (message_only m)"

definition setTask :: "run_env \<Rightarrow> string \<Rightarrow> (orch_task_state \<Rightarrow> orch_task_state) \<Rightarrow> string \<Rightarrow> unit run" where
  "setTask en taskId change m = run_commit en
     (\<lambda>r. no_changes\<lparr>ch_tasks := Some (map (\<lambda>t. if ts_taskId t = taskId then change t else t) (rs_tasks r))\<rparr>)
     ((message_only m)\<lparr>ei_taskId := Some taskId\<rparr>)"

definition status_text :: "task_status \<Rightarrow> string" where
  "status_text st = (case st of
      TaskPending \<Rightarrow> ''pending'' | TaskRunning \<Rightarrow> ''running'' | TaskVerifying \<Rightarrow> ''verifying''
    | TaskReviewingDrift \<Rightarrow> ''reviewing drift'' | TaskCorrectingDrift \<Rightarrow> ''correcting drift''
    | TaskRetryPending \<Rightarrow> ''retry pending'' | TaskCompleted \<Rightarrow> ''completed'' | TaskFailed \<Rightarrow> ''failed''
    | TaskAborted \<Rightarrow> ''aborted'')"

definition setTaskStatus :: "run_env \<Rightarrow> string \<Rightarrow> task_status \<Rightarrow> unit run" where
  "setTaskStatus en taskId st =
     setTask en taskId (\<lambda>t. t\<lparr>ts_status := st\<rparr>) (''Task '' @ taskId @ '': '' @ status_text st @ ''.'')"

definition reserve :: "run_env \<Rightarrow> string \<Rightarrow> child_work \<Rightarrow> orch_attempt run" where
  "reserve en taskId work s =
     (case reserveAttempt (lv_runId s) (rs_revision (lv_state s)) taskId work (lv_store s) of
        Inl e \<Rightarrow> (Thrown (OtherError (en_message en (StoreSaid e))), s)
      | Inr (a, st) \<Rightarrow>
          (case read_run st (lv_runId s) of
             Inl e \<Rightarrow> (Thrown (OtherError (en_message en (StoreSaid e))), s\<lparr>lv_store := st\<rparr>)
           | Inr r \<Rightarrow> (Returned a, s\<lparr>lv_store := st, lv_state := r\<rparr>)))"

text \<open>\<open>randomUUID()\<close>: an identifier no one was handed before.\<close>

definition fresh_id :: "nat run" where
  "fresh_id s = (Returned (st_nextId (lv_store s)),
     s\<lparr>lv_store := (lv_store s)\<lparr>st_nextId := Suc (st_nextId (lv_store s))\<rparr>\<rparr>)"

section \<open>Repository leases\<close>

definition acquireRepository :: "run_env \<Rightarrow> repo_access \<Rightarrow> unit run" where
  "acquireRepository en access =
     run_bind throwIfAborted (\<lambda>_.
     run_bind (run_await en (\<lambda>r. if r = Granted then Some () else None)) (\<lambda>_.
       run_modify (\<lambda>s. s\<lparr>lv_leases := access # lv_leases s, lv_trace := lv_trace s @ [Leased access]\<rparr>)))"

definition give_back :: "repo_access \<Rightarrow> live_run \<Rightarrow> live_run" where
  "give_back access s = s\<lparr>lv_leases := tl (lv_leases s), lv_trace := lv_trace s @ [Released access]\<rparr>"

text \<open>\<open>const lease = await acquire(...); try { ... } finally { lease.release(); }\<close>\<close>

definition with_lease :: "run_env \<Rightarrow> repo_access \<Rightarrow> 'a run \<Rightarrow> 'a run" where
  "with_lease en access m = run_bind (acquireRepository en access) (\<lambda>_. run_finally m (give_back access))"

section \<open>Failures\<close>

definition failure :: "failure_code \<Rightarrow> string \<Rightarrow> orch_failure" where
  "failure code m = \<lparr>fl_code = code, fl_message = m, fl_taskId = None, fl_purpose = None, fl_findingIds = []\<rparr>"

definition error_text :: "run_error \<Rightarrow> string" where
  "error_text e = (case e of RunFailure f \<Rightarrow> fl_message f | InfrastructureError m \<Rightarrow> m
    | AbortReason m \<Rightarrow> m | OtherError m \<Rightarrow> m)"

text \<open>A name in single quotes, as messages give it.\<close>

definition quoted :: "string \<Rightarrow> string" where
  "quoted s = [CHR 0x27] @ s @ [CHR 0x27]"

definition joined :: "string list \<Rightarrow> string" where
  "joined xs = js_join '' '' xs"

end
