(* ===== verification/Orchestrator_Run.thy ===== *)
theory Orchestrator_Run
  imports Orchestrator_Effects
begin

text \<open>
  The work of a live orchestrator run (src/orchestrator/run.ts): questions to the parent model,
  approvals, the checks of a task, one child attempt, the drift gate and the attempts of a task. Prompt
  texts are not modelled; the parent's answers are parsed by the schema parsers of the environment.
\<close>

definition PARENT_PHASE_ATTEMPTS :: nat where
  "PARENT_PHASE_ATTEMPTS = 2"

definition fail :: "failure_code \<Rightarrow> string \<Rightarrow> 'a run" where
  "fail code m = run_throw (RunFailure (failure code m))"

definition fail_task :: "failure_code \<Rightarrow> string \<Rightarrow> string \<Rightarrow> child_purpose option \<Rightarrow> string list \<Rightarrow> 'a run" where
  "fail_task code m taskId purpose findingIds = run_throw (RunFailure
     ((failure code m)\<lparr>fl_taskId := Some taskId, fl_purpose := purpose, fl_findingIds := findingIds\<rparr>))"

section \<open>The parent model\<close>

definition label_text :: "phase_label \<Rightarrow> string" where
  "label_text l = (case l of PlanPreparationPhase \<Rightarrow> ''plan preparation'' | TaskReviewPhase \<Rightarrow> ''task review''
    | DriftReviewPhase \<Rightarrow> ''drift review'' | FinalVerificationPhase \<Rightarrow> ''final verification''
    | ApprovalDecisionPhase \<Rightarrow> ''approval decision'')"

text \<open>What every parent prompt needs: the captured start and, after plan preparation, the saved plan.\<close>

definition runContext :: "phase_label \<Rightarrow> unit run" where
  "runContext label s =
     (if (rs_plan (lv_state s) = None \<or> rs_planPath (lv_state s) = None \<or> rs_planHash (lv_state s) = None)
         \<and> label \<noteq> PlanPreparationPhase
      then (Thrown (OtherError (''The plan must be saved before the '' @ label_text label @ '' phase.'')), s)
      else if lv_dirty s = None
      then (Thrown (OtherError ''The run start must be captured before any parent phase.''), s)
      else (Returned (), s))"

definition phase_message :: "phase_label \<Rightarrow> string option \<Rightarrow> string" where
  "phase_message label retry = ''Parent phase started: '' @ label_text label @
     (case retry of None \<Rightarrow> ''.'' | Some r \<Rightarrow> ''; retrying after: '' @ r)"

definition parse_reply :: "(string \<Rightarrow> string + 'a) \<Rightarrow> string \<Rightarrow> string list + 'a" where
  "parse_reply parse text = (case parse text of Inl problem \<Rightarrow> Inl [problem] | Inr a \<Rightarrow> Inr a)"

text \<open>The tries of one question: the number left, why the last was retried and its error.\<close>

fun ask_loop ::
  "run_env \<Rightarrow> phase_label \<Rightarrow> (string \<Rightarrow> string + 'a) \<Rightarrow> nat \<Rightarrow> string option \<Rightarrow> string \<Rightarrow> (string list + 'a) run" where
  "ask_loop en label parse 0 retry err = run_throw (InfrastructureError
     (''Orchestrator '' @ label_text label @ '' phase failed '' @ show_nat PARENT_PHASE_ATTEMPTS @ '' times: '' @ err))"
| "ask_loop en label parse (Suc n) retry err =
     run_bind fresh_id (\<lambda>phaseRunId.
     run_bind (run_commit en (\<lambda>r. no_changes\<lparr>ch_phaseRunIds := Some (rs_phaseRunIds r @ [phaseRunId])\<rparr>)
       (message_only (phase_message label retry))) (\<lambda>_.
     run_bind (run_act (AskedParent label)) (\<lambda>_.
     run_try (run_await en (\<lambda>r. case r of ModelAnswered t \<Rightarrow> Some t | _ \<Rightarrow> None))
       (\<lambda>t. run_return (parse_reply parse t))
       (\<lambda>e. run_bind throwIfAborted (\<lambda>_.
          case e of
            InfrastructureError m \<Rightarrow> ask_loop en label parse n (Some (''infrastructure failure: '' @ m)) m
          | _ \<Rightarrow> run_return (Inl [error_text e]))))))"

definition askParent ::
  "run_env \<Rightarrow> phase_label \<Rightarrow> (string \<Rightarrow> string + 'a) \<Rightarrow> string list \<Rightarrow> (string list + 'a) run" where
  "askParent en label parse rejected =
     run_bind (runContext label) (\<lambda>_.
       ask_loop en label parse PARENT_PHASE_ATTEMPTS (if rejected = [] then None else Some (joined rejected)) [])"

section \<open>Approvals\<close>

fun decide_loop :: "run_env \<Rightarrow> nat \<Rightarrow> string list \<Rightarrow> agent_decision run" where
  "decide_loop en 0 rejected = fail FApprovalDecisionInvalid
     (''The orchestrator gave no usable approval decision: '' @ joined rejected)"
| "decide_loop en (Suc n) rejected =
     run_bind (askParent en ApprovalDecisionPhase (en_parseDecision en) rejected) (\<lambda>reply.
       case reply of
         Inr (ApproveAnswer _) \<Rightarrow> run_return Approve
       | Inr (DenyAnswer reason) \<Rightarrow> run_return (Deny (''orchestrator: '' @ reason))
       | Inl problems \<Rightarrow> decide_loop en n problems)"

definition decideOnParentModel :: "run_env \<Rightarrow> agent_decision run" where
  "decideOnParentModel en = decide_loop en PARENT_PHASE_ATTEMPTS []"

text \<open>A decision for another approval than the pending one is not delivered.\<close>

definition waitForUserDecision :: "run_env \<Rightarrow> nat \<Rightarrow> agent_decision run" where
  "waitForUserDecision en approvalId =
     run_bind (commit_phase en ApprovalRequired ''Waiting for your approval decision.'') (\<lambda>_.
     run_bind (run_modify (\<lambda>s. s\<lparr>lv_pending := Some approvalId\<rparr>)) (\<lambda>_.
     run_finally
       (run_bind throwIfAborted (\<lambda>_.
         run_await en (\<lambda>r. case r of UserDecided i d \<Rightarrow> if i = approvalId then Some d else None | _ \<Rightarrow> None)))
       (\<lambda>s. s\<lparr>lv_pending := None\<rparr>)))"

definition approval_id :: "pending_approval \<Rightarrow> nat" where
  "approval_id p = (case p of ChildApproval i _ _ \<Rightarrow> i | CheckApproval i _ _ _ \<Rightarrow> i)"

definition approval_task :: "pending_approval \<Rightarrow> string option" where
  "approval_task p = (case p of ChildApproval _ _ t \<Rightarrow> Some t | CheckApproval _ t _ _ \<Rightarrow> t)"

definition describeApprovalDecision :: "agent_decision \<Rightarrow> string" where
  "describeApprovalDecision d = (case d of
      Deny reason \<Rightarrow> ''Approval resolved: deny ('' @ reason @ '').''
    | Approve \<Rightarrow> ''Approval resolved: approve.'' | AbortDecision \<Rightarrow> ''Approval resolved: abort.'')"

definition commit_approval :: "run_env \<Rightarrow> pending_approval option \<Rightarrow> orch_phase option \<Rightarrow> event_input \<Rightarrow> unit run" where
  "commit_approval en p phase ev = run_commit en (\<lambda>_. no_changes\<lparr>ch_approval := Some p, ch_phase := phase\<rparr>) ev"

text \<open>Clearing the approval and restoring the phase, unless the run is stopping.\<close>

definition clear_approval :: "run_env \<Rightarrow> orch_phase \<Rightarrow> string \<Rightarrow> unit run" where
  "clear_approval en resumePhase m = run_bind (run_get lv_abort) (\<lambda>a.
     if a = None then commit_approval en None (Some resumePhase) (message_only m) else run_return ())"

definition abort_run :: "string \<Rightarrow> unit run" where
  "abort_run reason = run_bind (run_get lv_abort) (\<lambda>a.
     if a \<noteq> None then run_return ()
     else run_modify (\<lambda>s. s\<lparr>lv_abort := Some reason, lv_trace := lv_trace s @ map AbortedChild (lv_children s)\<rparr>))"

definition resolveApproval :: "run_env \<Rightarrow> pending_approval \<Rightarrow> string \<Rightarrow> agent_decision run" where
  "resolveApproval en p action =
     run_bind throwIfAborted (\<lambda>_.
     run_bind (run_get (\<lambda>s. rs_phase (lv_state s))) (\<lambda>resumePhase.
     run_bind (commit_approval en (Some p) None
       ((message_only (''Approval requested: '' @ action))\<lparr>ei_taskId := approval_task p\<rparr>)) (\<lambda>_.
     run_bind (run_get (\<lambda>s. rq_approval (rs_request (lv_state s)))) (\<lambda>mode.
     run_try (if mode = ''interactive'' then waitForUserDecision en (approval_id p) else decideOnParentModel en)
       (\<lambda>decision.
         run_bind (clear_approval en resumePhase (describeApprovalDecision decision)) (\<lambda>_.
         run_bind (run_act (Decided p decision)) (\<lambda>_.
         if decision = AbortDecision
         then run_bind (abort_run ''Aborted by user.'') (\<lambda>_. run_bind throwIfAborted (\<lambda>_. run_waiting))
         else run_return decision)))
       (\<lambda>e. run_bind (clear_approval en resumePhase ''Approval could not be resolved.'') (\<lambda>_. run_throw e))))))"

text \<open>Approvals of parallel tasks take turns: each waits until the one before is answered.\<close>

definition answerApproval :: "run_env \<Rightarrow> pending_approval \<Rightarrow> string \<Rightarrow> agent_decision run" where
  "answerApproval en p action = run_bind (await_settled en) (\<lambda>_. resolveApproval en p action)"

section \<open>Checks\<close>

definition TIMEOUT_EXIT_CODE :: int where
  "TIMEOUT_EXIT_CODE = 124"

definition CHECK_OUTPUT_MAX_CHARS :: nat where
  "CHECK_OUTPUT_MAX_CHARS = 20000"

definition take_last :: "nat \<Rightarrow> string \<Rightarrow> string" where
  "take_last n s = drop (length s - n) s"

definition runVerificationCheck :: "run_env \<Rightarrow> string \<Rightarrow> string \<Rightarrow> check_result run" where
  "runVerificationCheck en command cwd =
     run_bind (run_get (\<lambda>s. resolveRepoScopedPath (file_system.truncate (dk_files (lv_disk s))) (en_root en) (Some cwd))) (\<lambda>found.
     run_bind (run_lift (en_message en) PathThrew found) (\<lambda>scoped.
     case scoped of
       None \<Rightarrow> run_throw (OtherError (''Verification cwd '' @ quoted cwd @ '' escapes the repository.''))
     | Some _ \<Rightarrow>
         run_bind (run_act (RanCommand command cwd)) (\<lambda>_.
         run_bind (run_await en (\<lambda>r. case r of CommandExited c out \<Rightarrow> Some (c, out) | _ \<Rightarrow> None)) (\<lambda>(code, out).
         run_bind (run_act (CommandEnded command cwd code)) (\<lambda>_.
         run_bind throwIfAborted (\<lambda>_.
           run_return \<lparr>cr_check = CommandCheck command cwd, cr_executed = True, cr_exitCode = Some code,
             cr_timedOut = (code = TIMEOUT_EXIT_CODE), cr_output = take_last CHECK_OUTPUT_MAX_CHARS out\<rparr>))))))"

definition checkDenial :: "run_env \<Rightarrow> string \<Rightarrow> string \<Rightarrow> string option \<Rightarrow> string option run" where
  "checkDenial en command cwd taskId =
     run_bind (run_get (\<lambda>s. rq_approval (rs_request (lv_state s)))) (\<lambda>mode.
     if mode = ''off'' then run_return None
     else run_bind fresh_id (\<lambda>approvalId.
       run_bind (answerApproval en (CheckApproval approvalId taskId command cwd) (''run '' @ command)) (\<lambda>decision.
         run_return (case decision of Deny reason \<Rightarrow> Some reason | _ \<Rightarrow> None))))"

text \<open>A command check: approved, then run, or recorded as not run.\<close>

definition run_check :: "run_env \<Rightarrow> string option \<Rightarrow> orch_check \<Rightarrow> check_result run" where
  "run_check en taskId c = (case c of
      EvidenceCheck _ _ \<Rightarrow> run_return (unexecutedCheck c [])
    | CommandCheck command cwd \<Rightarrow>
        run_bind (checkDenial en command cwd taskId) (\<lambda>denial.
          case denial of
            None \<Rightarrow> runVerificationCheck en command cwd
          | Some reason \<Rightarrow> run_return (unexecutedCheck c (''Not run: '' @ reason))))"

fun runChecks :: "run_env \<Rightarrow> string option \<Rightarrow> orch_check list \<Rightarrow> check_result list run" where
  "runChecks en taskId [] = run_return []"
| "runChecks en taskId (c # cs) =
     run_bind (run_check en taskId c) (\<lambda>r. run_bind (runChecks en taskId cs) (\<lambda>rs. run_return (r # rs)))"

definition findUnrunnableChecks :: "run_env \<Rightarrow> orch_check list \<Rightarrow> string list run" where
  "findUnrunnableChecks en checks =
     (if list_all is_evidence_check checks then run_return []
      else run_bind (run_await en (\<lambda>r. case r of Preflight ps \<Rightarrow> Some ps | _ \<Rightarrow> None)) (\<lambda>ps.
        run_bind throwIfAborted (\<lambda>_. run_return ps)))"

section \<open>Evidence reviews\<close>

text \<open>A review of a task's attempt, or of the final verification (None).\<close>

fun review_loop :: "run_env \<Rightarrow> string option \<Rightarrow> nat \<Rightarrow> string list \<Rightarrow> task_review run" where
  "review_loop en taskId 0 rejected = (case taskId of
      Some t \<Rightarrow> fail_task FTaskReviewInvalid (''Task '' @ quoted t @ '' evidence review was unusable: '' @ joined rejected) t None []
    | None \<Rightarrow> fail FFinalReviewInvalid (''The final evidence review was unusable: '' @ joined rejected))"
| "review_loop en taskId (Suc n) rejected =
     run_bind (askParent en (if taskId = None then FinalVerificationPhase else TaskReviewPhase) (en_parseReview en) rejected)
       (\<lambda>reply. case reply of
          Inl problems \<Rightarrow> review_loop en taskId n problems
        | Inr review \<Rightarrow>
            run_bind (run_get (\<lambda>s. findReviewEvidenceProblems (dk_files (lv_disk s)) (en_root en) (\<lambda>p. p) review)) (\<lambda>found.
            run_bind (run_lift (en_message en) EvidenceThrew found) (\<lambda>problems.
              if problems = [] then run_return review
              else review_loop en taskId n (map (\<lambda>p. en_message en (CitationBad p)) problems))))"

definition askEvidenceReview :: "run_env \<Rightarrow> string option \<Rightarrow> task_review run" where
  "askEvidenceReview en taskId = review_loop en taskId PARENT_PHASE_ATTEMPTS []"

definition review_if_needed :: "run_env \<Rightarrow> string option \<Rightarrow> check_result list \<Rightarrow> task_review option run" where
  "review_if_needed en taskId checks =
     (if list_ex (\<lambda>r. is_evidence_check (cr_check r)) checks
      then run_bind (askEvidenceReview en taskId) (\<lambda>review. run_return (Some review))
      else run_return None)"

definition run_evaluate ::
  "run_env \<Rightarrow> worker_status \<Rightarrow> check_result list \<Rightarrow> string list \<Rightarrow> task_review option \<Rightarrow> (bool \<times> attempt_finding list) run" where
  "run_evaluate en status checks violations review =
     run_bind (run_get (\<lambda>s. evaluateAttempt (dk_files (lv_disk s)) (en_root en) status checks violations review))
       (run_lift (en_message en) EvidenceThrew)"

end
