(* ===== verification/Orchestrator_Tasks.thy ===== *)
theory Orchestrator_Tasks
  imports Orchestrator_Run
begin

text \<open>
  A task of a live orchestrator run (src/orchestrator/run.ts, src/orchestrator/workers.ts): the changes
  charged to it, one supervised child attempt, the drift gate and the attempts until the task is done.
\<close>

section \<open>Changes\<close>

text \<open>A writer's changes are passed to every reader running beside it; a reader is charged with neither
  those nor the live writer's.\<close>

definition add_writer_paths :: "string list \<Rightarrow> live_run \<Rightarrow> live_run" where
  "add_writer_paths paths s = s\<lparr>lv_running := map (\<lambda>r. if rt_mutating r then r
     else r\<lparr>rt_writerPaths := js_dedupe (rt_writerPaths r @ paths)\<rparr>) (lv_running s)\<rparr>"

definition diff_now :: "run_env \<Rightarrow> workspace_snapshot \<Rightarrow> string list \<Rightarrow> workspace_changes run" where
  "diff_now en baseline excluded =
     run_bind (await_git en) (\<lambda>_. run_get (\<lambda>s. diffWorkspace (en_sha en) (dk_tree (lv_disk s)) baseline excluded))"

definition writer_paths_of :: "running_task \<Rightarrow> live_run \<Rightarrow> string list" where
  "writer_paths_of rt s =
     (case find (\<lambda>r. task_id (rt_task r) = task_id (rt_task rt)) (lv_running s) of
        Some r \<Rightarrow> rt_writerPaths r | None \<Rightarrow> rt_writerPaths rt)"

definition taskChanges :: "run_env \<Rightarrow> running_task \<Rightarrow> workspace_changes run" where
  "taskChanges en rt =
     (if rt_mutating rt
      then run_bind (diff_now en (rt_baseline rt) []) (\<lambda>changes.
        run_bind (run_modify (add_writer_paths (wc_paths changes))) (\<lambda>_. run_return changes))
      else run_bind (run_get (\<lambda>s. find rt_mutating (lv_running s))) (\<lambda>writer.
        run_bind (case writer of None \<Rightarrow> run_return []
            | Some w \<Rightarrow> run_bind (diff_now en (rt_baseline w) []) (\<lambda>c. run_return (wc_paths c))) (\<lambda>livePaths.
        run_bind (run_get (writer_paths_of rt)) (\<lambda>own.
          diff_now en (rt_baseline rt) (own @ livePaths)))))"

section \<open>One child\<close>

definition startOrchestratorChild :: "run_env \<Rightarrow> orch_task \<Rightarrow> orch_attempt \<Rightarrow> unit run" where
  "startOrchestratorChild en t a =
     run_bind (run_lift (en_message en) PlanRefused (requireOrchestratorWorkerPreset (en_config en) t)) (\<lambda>worker.
     if work_kind (at_work a) = DriftFix \<and> op_presetKind worker \<noteq> RepoAgentKind
     then run_throw (OtherError (''Drift corrections run on a repo-agent worker, not '' @ quoted (op_id worker) @ ''.''))
     else run_bind (run_act (StartedChild (at_childRunId a))) (\<lambda>_.
       run_modify (\<lambda>s. s\<lparr>lv_children := lv_children s @ [at_childRunId a]\<rparr>)))"

text \<open>One boundary of the child: its end, or an approval that is answered.\<close>

definition supervise_round :: "run_env \<Rightarrow> orch_task \<Rightarrow> orch_attempt \<Rightarrow> unit \<Rightarrow> (worker_status + unit) run" where
  "supervise_round en t a _ =
     run_bind (run_await en (\<lambda>r. case r of AtBoundary b \<Rightarrow> Some b | _ \<Rightarrow> None)) (\<lambda>boundary.
       case boundary of
         ChildEnded st \<Rightarrow> run_return (Inl st)
       | ChildAsks approvalId action \<Rightarrow>
           run_bind (answerApproval en (ChildApproval approvalId (at_childRunId a) (task_id t)) action) (\<lambda>decision.
           run_bind (run_act (AnsweredChild (at_childRunId a) decision)) (\<lambda>_. run_return (Inr ()))))"

definition abort_child :: "run_env \<Rightarrow> nat \<Rightarrow> run_error \<Rightarrow> 'a run" where
  "abort_child en child e = run_bind (run_act (AbortedChild child)) (\<lambda>_.
     run_bind (await_settled en) (\<lambda>_. run_throw e))"

definition superviseChild :: "run_env \<Rightarrow> orch_task \<Rightarrow> orch_attempt \<Rightarrow> worker_status run" where
  "superviseChild en t a =
     run_bind throwIfAborted (\<lambda>_.
     run_bind (startOrchestratorChild en t a) (\<lambda>_.
     run_bind (store_call en (\<lambda>i v. markAttemptRunning i v (at_childRunId a))) (\<lambda>_.
     run_finally
       (run_catch (run_forever (supervise_round en t a) ()) (abort_child en (at_childRunId a)))
       (\<lambda>s. s\<lparr>lv_children := filter (\<lambda>c. c \<noteq> at_childRunId a) (lv_children s)\<rparr>))))"

section \<open>One attempt\<close>

definition runAttempt ::
  "run_env \<Rightarrow> running_task \<Rightarrow> orch_task \<Rightarrow> string list \<Rightarrow> orch_attempt \<Rightarrow> (attempt_result \<times> attempt_finding list) run" where
  "runAttempt en rt t writePaths a =
     run_bind (superviseChild en t a) (\<lambda>status.
     run_bind (setTaskStatus en (task_id t) TaskVerifying) (\<lambda>_.
     run_bind (runChecks en (Some (task_id t)) (task_verification t)) (\<lambda>checks.
     run_bind (taskChanges en rt) (\<lambda>changes.
     let violations = findScopeViolations (wc_paths changes) writePaths in
     run_bind (review_if_needed en (Some (task_id t)) checks) (\<lambda>review.
     run_bind (run_evaluate en status checks violations review) (\<lambda>(passed, findings).
     let result = \<lparr>ar_taskId = task_id t, ar_purpose = at_purpose a, ar_attempt = at_attempt a,
           ar_childRunId = at_childRunId a, ar_workerStatus = status, ar_passed = passed, ar_checks = checks,
           ar_changedPaths = wc_paths changes, ar_scopeViolations = violations, ar_changeDigest = wc_digest changes\<rparr> in
     run_bind (store_call en (\<lambda>i v. recordAttemptResult i v result)) (\<lambda>_.
       run_return (result, findings))))))))"

definition finding_text :: "run_env \<Rightarrow> string \<Rightarrow> attempt_finding list \<Rightarrow> string" where
  "finding_text en sep fs = js_join sep (map (\<lambda>f. en_message en (AttemptBad f)) fs)"

section \<open>The drift gate\<close>

definition renderDiff :: "run_env \<Rightarrow> string run" where
  "renderDiff en = run_await en (\<lambda>r. case r of DiffRendered d \<Rightarrow> Some d | _ \<Rightarrow> None)"

fun drift_review_loop ::
  "run_env \<Rightarrow> orch_task \<Rightarrow> string \<Rightarrow> string list \<Rightarrow> drift_finding list \<Rightarrow> nat \<Rightarrow> string list \<Rightarrow> drift_review run" where
  "drift_review_loop en t digest paths openFindings 0 rejected =
     fail_task FDriftReviewInvalid (''Task '' @ quoted (task_id t) @ '' drift review was unusable: '' @ joined rejected) (task_id t)
       None (map df_id openFindings)"
| "drift_review_loop en t digest paths openFindings (Suc n) rejected =
     run_bind (askParent en DriftReviewPhase (en_parseDrift en) rejected) (\<lambda>reply.
       case reply of
         Inl problems \<Rightarrow> drift_review_loop en t digest paths openFindings n problems
       | Inr review \<Rightarrow>
           run_bind (run_get (\<lambda>s. validateDriftReview (dk_files (lv_disk s)) (en_root en) review (task_id t) digest paths
             openFindings)) (\<lambda>found.
           run_bind (run_lift (en_message en) EvidenceThrew found) (\<lambda>problems.
           run_bind (if problems = [] \<and> review_findings review \<noteq> []
               then findUnrunnableChecks en (concat (map df_verification (review_findings review)))
               else run_return (map (\<lambda>p. en_message en (DriftBad p)) problems)) (\<lambda>rejected'.
             if rejected' = [] then run_return review
             else drift_review_loop en t digest paths openFindings n rejected'))))"

definition reviewDrift ::
  "run_env \<Rightarrow> orch_task \<Rightarrow> string \<Rightarrow> string list \<Rightarrow> drift_finding list \<Rightarrow> drift_review run" where
  "reviewDrift en t digest paths openFindings =
     run_bind (renderDiff en) (\<lambda>_. drift_review_loop en t digest paths openFindings PARENT_PHASE_ATTEMPTS [])"

definition not_required :: "orch_task \<Rightarrow> workspace_changes \<Rightarrow> drift_review" where
  "not_required t changes = \<lparr>dr_taskId = task_id t,
     dr_changeDigest = (case wc_digest changes of None \<Rightarrow> ''none'' | Some d \<Rightarrow> d),
     dr_scopePaths = wc_paths changes, dr_resolutions = [], dr_status = NotRequired\<rparr>"

text \<open>Stores a review with its digest; the findings to correct, or None when the gate is passed.\<close>

definition record_review :: "run_env \<Rightarrow> orch_task \<Rightarrow> string \<Rightarrow> drift_review \<Rightarrow> drift_finding list option run" where
  "record_review en t digest review =
     run_bind (run_get (\<lambda>s. case find (\<lambda>e. ts_taskId e = task_id t) (rs_tasks (lv_state s)) of
         Some e \<Rightarrow> ts_reviewedDigests e | None \<Rightarrow> [])) (\<lambda>known.
     run_bind (setTask en (task_id t)
       (\<lambda>e. e\<lparr>ts_driftReview := Some review, ts_reviewedDigests := js_dedupe (known @ [digest])\<rparr>)
       (case dr_status review of
          DriftActionable fs \<Rightarrow> ''Task '' @ task_id t @ '': '' @ show_nat (length fs) @ '' drift finding(s).''
        | _ \<Rightarrow> ''Task '' @ task_id t @ '': no actionable drift.'')) (\<lambda>_.
     run_return (case dr_status review of DriftActionable fs \<Rightarrow> Some fs | _ \<Rightarrow> None)))"

definition drift_findings ::
  "run_env \<Rightarrow> orch_task \<Rightarrow> string \<Rightarrow> string list \<Rightarrow> drift_finding list \<Rightarrow> drift_finding list option run" where
  "drift_findings en t digest paths openFindings =
     run_bind (setTaskStatus en (task_id t) TaskReviewingDrift) (\<lambda>_.
     run_bind (reviewDrift en t digest paths openFindings) (record_review en t digest))"

definition drift_unresolved :: "orch_task \<Rightarrow> string \<Rightarrow> string list \<Rightarrow> 'a run" where
  "drift_unresolved t m ids = fail_task FDriftUnresolved (''Task '' @ quoted (task_id t) @ m) (task_id t) (Some DriftFix) ids"

definition correct_drift ::
  "run_env \<Rightarrow> running_task \<Rightarrow> string \<Rightarrow> drift_finding list \<Rightarrow> (attempt_result \<times> attempt_finding list) run" where
  "correct_drift en rt digest openFindings =
     (let t = rt_task rt in
      run_bind (run_get (\<lambda>s. attempts_used (task_id t) DriftFix (rs_attempts (lv_state s)))) (\<lambda>used.
      if used \<ge> ORCHESTRATOR_MAX_ATTEMPTS
      then drift_unresolved t '' still has unresolved drift after 2 corrections.'' (map df_id openFindings)
      else run_bind (setTaskStatus en (task_id t) TaskCorrectingDrift) (\<lambda>_.
        let work = buildDriftCorrectionWork t digest openFindings in
        run_bind (reserve en (task_id t) (DriftWork work)) (\<lambda>a.
          runAttempt en rt (t\<lparr>task_verification := dw_verification work\<rparr>) (dw_allowedPaths work) a))))"

text \<open>Nothing that needs a review: recorded, and the gate is passed unless a correction just failed.\<close>

definition drift_not_required :: "run_env \<Rightarrow> running_task \<Rightarrow> workspace_changes \<Rightarrow> string option \<Rightarrow> unit run" where
  "drift_not_required en rt changes retryEvidence =
     (let t = rt_task rt in
      run_bind (setTask en (task_id t) (\<lambda>e. e\<lparr>ts_driftReview := Some (not_required t changes)\<rparr>)
        (''Task '' @ task_id t @ '': no code changes to review.'')) (\<lambda>_.
      case retryEvidence of
        None \<Rightarrow> run_return ()
      | Some evidence \<Rightarrow> drift_unresolved t ('' drift correction failed: '' @ evidence) []))"

text \<open>One round of the loop of driftGate; it is given the open findings and the text of a failed
  correction.\<close>

definition drift_round ::
  "run_env \<Rightarrow> running_task \<Rightarrow> drift_finding list \<times> string option \<Rightarrow> (unit + drift_finding list \<times> string option) run" where
  "drift_round en rt = (\<lambda>(openFindings, retryEvidence).
     run_bind (taskChanges en rt) (\<lambda>changes.
     case (if changesNeedDriftReview (wc_paths changes) then wc_digest changes else None) of
       None \<Rightarrow> run_bind (drift_not_required en rt changes retryEvidence) (\<lambda>_. run_return (Inl ()))
     | Some digest \<Rightarrow>
         run_bind (case retryEvidence of
             Some _ \<Rightarrow> run_return (Some openFindings)
           | None \<Rightarrow> drift_findings en (rt_task rt) digest (wc_paths changes) openFindings) (\<lambda>next_findings.
         case next_findings of
           None \<Rightarrow> run_return (Inl ())
         | Some fs \<Rightarrow> run_bind (correct_drift en rt digest fs) (\<lambda>(result, findings).
             run_return (Inr (fs, if ar_passed result then None else Some (finding_text en [LF] findings)))))))"

definition driftGate :: "run_env \<Rightarrow> running_task \<Rightarrow> unit run" where
  "driftGate en rt = run_forever (drift_round en rt) ([], None)"

section \<open>A task\<close>

text \<open>One implementation attempt: its result when it passed.\<close>

definition implement_round :: "run_env \<Rightarrow> running_task \<Rightarrow> string \<Rightarrow> string \<Rightarrow> unit \<Rightarrow> (attempt_result + unit) run" where
  "implement_round en rt planPath planHash _ =
     (let t = rt_task rt in
      run_bind (reserve en (task_id t) (ImplementationWork planPath planHash t)) (\<lambda>a.
      run_bind (runAttempt en rt t (task_writePaths t) a) (\<lambda>(result, findings).
      if ar_passed result then run_return (Inl result)
      else if at_attempt a \<ge> ORCHESTRATOR_MAX_ATTEMPTS
      then run_bind (setTaskStatus en (task_id t) TaskFailed) (\<lambda>_.
        fail_task FImplementationFailed (''Task '' @ quoted (task_id t) @ '' failed all 2 implementation attempts: '' @
          finding_text en '' '' findings) (task_id t) (Some Implementation) [])
      else run_bind (setTaskStatus en (task_id t) TaskRetryPending) (\<lambda>_.
        run_bind (renderDiff en) (\<lambda>_. run_return (Inr ()))))))"

text \<open>A file deletion of this run; the error it ends in, if any.\<close>

fun remove_all :: "run_env \<Rightarrow> string \<Rightarrow> string list \<Rightarrow> cleanup_failure option run" where
  "remove_all en scratch [] = run_return None"
| "remove_all en scratch (p # ps) =
     run_bind (\<lambda>s. case remove_temporary (en_remove en) (en_root en) scratch p (dk_scratch (lv_disk s)) of
         (e, fs) \<Rightarrow> (Returned e, s\<lparr>lv_disk := (lv_disk s)\<lparr>dk_scratch := fs\<rparr>\<rparr>)) (\<lambda>e.
       case e of None \<Rightarrow> remove_all en scratch ps | Some x \<Rightarrow> run_return (Some x))"

definition cleanupTaskTemporaries :: "run_env \<Rightarrow> orch_task \<Rightarrow> unit run" where
  "cleanupTaskTemporaries en t =
     run_bind (run_get lv_runId) (\<lambda>i.
     run_bind (remove_all en (orchestratorScratchDir i) (task_temporaryPaths t)) (\<lambda>e.
       case e of None \<Rightarrow> run_return ()
       | Some x \<Rightarrow> fail_task FCleanupFailed (en_message en (CleanupBad x)) (task_id t) None []))"

definition implementTask :: "run_env \<Rightarrow> running_task \<Rightarrow> string \<Rightarrow> string \<Rightarrow> unit run" where
  "implementTask en rt planPath planHash =
     run_bind (run_forever (implement_round en rt planPath planHash) ()) (\<lambda>_.
     run_bind (driftGate en rt) (\<lambda>_.
     run_bind (cleanupTaskTemporaries en (rt_task rt)) (\<lambda>_.
       setTaskStatus en (task_id (rt_task rt)) TaskCompleted)))"

definition runTask :: "run_env \<Rightarrow> orch_task \<Rightarrow> string \<Rightarrow> string \<Rightarrow> unit run" where
  "runTask en t planPath planHash =
     run_bind (run_lift (en_message en) ScheduleRefused (isMutatingTask (en_config en) t)) (\<lambda>mutating.
     with_lease en (if mutating then Exclusive else Shared)
       (run_bind (await_git en) (\<lambda>_.
        run_bind (run_get (\<lambda>s. captureWorkspace (dk_tree (lv_disk s)))) (\<lambda>baseline.
        let rt = \<lparr>rt_task = t, rt_mutating = mutating, rt_baseline = baseline, rt_writerPaths = []\<rparr> in
        run_bind (run_modify (\<lambda>s. s\<lparr>lv_running := lv_running s @ [rt]\<rparr>)) (\<lambda>_.
        run_finally (implementTask en rt planPath planHash)
          (\<lambda>s. s\<lparr>lv_running := filter (\<lambda>r. task_id (rt_task r) \<noteq> task_id t) (lv_running s)\<rparr>))))))"

end
