(* ===== verification/Orchestrator_Lifecycle.thy ===== *)
theory Orchestrator_Lifecycle
  imports Orchestrator_Tasks
begin

text \<open>
  The life of an orchestrator run (src/orchestrator/run.ts): the plan, the scheduling of its tasks, the
  final verification and how the run settles. The tasks a run starts proceed beside it: what they do to
  the store, the checkout and the list of running tasks is what happens while the run waits for the next
  of them to settle; what one of them does is runTask of Orchestrator_Tasks.
\<close>

section \<open>The plan\<close>

record saved_plan =
  sv_path :: string
  sv_markdown :: string

definition readSuppliedPlan :: "run_env \<Rightarrow> string \<Rightarrow> saved_plan run" where
  "readSuppliedPlan en planPath =
     run_bind (run_get (\<lambda>s. dk_files (lv_disk s))) (\<lambda>files.
     run_bind (run_lift (en_message en) PathThrew (resolveRepoScopedPath (file_system.truncate files) (en_root en) (Some planPath)))
       (\<lambda>found. case found of
          None \<Rightarrow> fail FPlanNotFound (''Plan '' @ quoted planPath @ '' is not a file inside the repository.'')
        | Some sp \<Rightarrow>
            if \<not> fs_exists files (sp_absolute sp)
            then fail FPlanNotFound (''Plan '' @ quoted planPath @ '' is not a file inside the repository.'')
            else (case sf_text files (sp_absolute sp) of
                None \<Rightarrow> fail FPlanNotFound (''Plan '' @ quoted planPath @ '' is not a file inside the repository.'')
              | Some text \<Rightarrow> run_return \<lparr>sv_path = sp_relative sp, sv_markdown = text\<rparr>)))"

definition supplied_plan :: "run_env \<Rightarrow> saved_plan option run" where
  "supplied_plan en = run_bind (run_get (\<lambda>s. rq_planPath (rs_request (lv_state s)))) (\<lambda>p.
     case p of None \<Rightarrow> run_return None
     | Some planPath \<Rightarrow> run_bind (readSuppliedPlan en planPath) (\<lambda>sp. run_return (Some sp)))"

definition writeGeneratedPlan :: "run_env \<Rightarrow> orch_plan \<Rightarrow> saved_plan run" where
  "writeGeneratedPlan en plan =
     run_bind (run_get (\<lambda>s. orchestratorArtifactDir (lv_runId s) @ ''/plan.md'')) (\<lambda>path.
     let markdown = renderOrchestratorPlan plan in
     run_bind (with_lease en Exclusive (run_act (WrotePlan path markdown))) (\<lambda>_.
       run_return \<lparr>sv_path = path, sv_markdown = markdown\<rparr>))"

definition save_plan :: "run_env \<Rightarrow> saved_plan option \<Rightarrow> plan_preparation \<Rightarrow> orch_plan \<Rightarrow> unit run" where
  "save_plan en supplied preparation plan =
     run_bind (case (preparation, supplied) of
         (PlanReady _, Some sp) \<Rightarrow> run_return sp
       | _ \<Rightarrow> writeGeneratedPlan en plan) (\<lambda>saved.
     run_bind (store_call en (\<lambda>i v. savePlan i v plan (sv_path saved) (en_sha en (sv_markdown saved)))) (\<lambda>_.
       commit_phase en Executing ''Executing the plan.''))"

definition plan_checks :: "orch_plan \<Rightarrow> orch_check list" where
  "plan_checks plan = concat (map task_verification (plan_tasks plan)) @ plan_finalVerification plan"

text \<open>One answer: a plan that was saved, or the problems of one that cannot be used.\<close>

definition accept_plan :: "run_env \<Rightarrow> saved_plan option \<Rightarrow> plan_preparation \<Rightarrow> orch_plan \<Rightarrow> (string list + orch_plan) run" where
  "accept_plan en supplied preparation proposed =
     run_bind (commit_phase en ValidatingPlan ''Validating the plan.'') (\<lambda>_.
     run_bind (run_get (\<lambda>s. validateOrchestratorPlan proposed (en_config en) (file_system.truncate (dk_files (lv_disk s)))
       (en_root en))) (\<lambda>checked.
     case checked of
       Inl e \<Rightarrow> let m = en_message en (PlanRefused e) in
         run_bind (commit_phase en PreparingPlan (''Plan rejected: '' @ m)) (\<lambda>_. run_return (Inl [m]))
     | Inr plan \<Rightarrow>
         run_bind (findUnrunnableChecks en (plan_checks plan)) (\<lambda>unrunnable.
         if unrunnable \<noteq> []
         then run_bind (commit_phase en PreparingPlan (''Plan rejected: '' @ hd unrunnable)) (\<lambda>_. run_return (Inl unrunnable))
         else run_bind (save_plan en supplied preparation plan) (\<lambda>_. run_return (Inr plan)))))"

fun plan_loop :: "run_env \<Rightarrow> saved_plan option \<Rightarrow> nat \<Rightarrow> string list \<Rightarrow> orch_plan run" where
  "plan_loop en supplied 0 rejected = fail FPlanInvalid (''No valid plan after 2 attempts: '' @ joined rejected)"
| "plan_loop en supplied (Suc n) rejected =
     run_bind (with_lease en Shared (askParent en PlanPreparationPhase (en_parsePlan en) rejected)) (\<lambda>reply.
     case reply of
       Inl problems \<Rightarrow> plan_loop en supplied n problems
     | Inr (PlanBlocked reason) \<Rightarrow> fail FPlanBlocked (''The plan could not be prepared: '' @ reason)
     | Inr (PlanReady p) \<Rightarrow> run_bind (accept_plan en supplied (PlanReady p) p) (\<lambda>r.
         case r of Inl problems \<Rightarrow> plan_loop en supplied n problems | Inr plan \<Rightarrow> run_return plan)
     | Inr (PlanGenerated p issues) \<Rightarrow> run_bind (accept_plan en supplied (PlanGenerated p issues) p) (\<lambda>r.
         case r of Inl problems \<Rightarrow> plan_loop en supplied n problems | Inr plan \<Rightarrow> run_return plan))"

definition preparePlan :: "run_env \<Rightarrow> orch_plan run" where
  "preparePlan en = run_bind (supplied_plan en) (\<lambda>supplied. plan_loop en supplied PARENT_PHASE_ATTEMPTS [])"

section \<open>Scheduling\<close>

fun start_tasks :: "run_env \<Rightarrow> orch_task list \<Rightarrow> unit run" where
  "start_tasks en [] = run_return ()"
| "start_tasks en (t # ts) = run_bind (setTaskStatus en (task_id t) TaskRunning) (\<lambda>_. start_tasks en ts)"

definition abort_children :: "unit run" where
  "abort_children = run_modify (\<lambda>s. s\<lparr>lv_trace := lv_trace s @ map AbortedChild (lv_children s)\<rparr>)"

definition unfinished :: "orch_run_state \<Rightarrow> string list" where
  "unfinished r = map ts_taskId (filter (\<lambda>t. ts_status t \<noteq> TaskCompleted) (rs_tasks r))"

text \<open>One scheduling pass; \<open>active\<close> are the tasks whose promise is pending. A failure of one stops the
  children, waits for the others and is thrown.\<close>

definition schedule_round :: "run_env \<Rightarrow> orch_plan \<Rightarrow> orch_task list \<Rightarrow> (unit + orch_task list) run" where
  "schedule_round en plan active =
     run_bind throwIfAborted (\<lambda>_.
     run_bind (run_get (\<lambda>s. schedulePass (en_config en) plan (rs_tasks (lv_state s)) active)) (\<lambda>found.
     run_bind (run_lift (en_message en) ScheduleRefused found) (\<lambda>pass.
     run_bind (start_tasks en (sp_start pass)) (\<lambda>_.
     run_bind (run_modify (\<lambda>s. s\<lparr>lv_schedule := Some (sp_schedule pass)\<rparr>)) (\<lambda>_.
     let active' = active @ sp_start pass in
     if active' = []
     then run_bind (run_get (\<lambda>s. unfinished (lv_state s))) (\<lambda>left.
       if left = [] then run_return (Inl ())
       else fail FBlocked (''Tasks cannot start: '' @ js_join '', '' left @ ''.''))
     else run_try (run_await en (\<lambda>r. case r of TaskSettled i \<Rightarrow> if i \<in> task_id ` set active' then Some i else None | _ \<Rightarrow> None))
       (\<lambda>i. run_return (Inr (filter (\<lambda>t. task_id t \<noteq> i) active')))
       (\<lambda>e. run_bind abort_children (\<lambda>_. run_bind (await_settled en) (\<lambda>_. run_throw e))))))))"

definition executeTasks :: "run_env \<Rightarrow> orch_plan \<Rightarrow> unit run" where
  "executeTasks en plan =
     run_bind (run_get (\<lambda>s. rs_planPath (lv_state s) = None \<or> rs_planHash (lv_state s) = None)) (\<lambda>missing.
     if missing then run_throw (OtherError ''Tasks cannot start before the plan is saved.'')
     else run_forever (schedule_round en plan) [])"

section \<open>The final verification\<close>

definition verifyFinal :: "run_env \<Rightarrow> orch_plan \<Rightarrow> unit run" where
  "verifyFinal en plan =
     run_bind (commit_phase en Verifying ''Running final verification.'') (\<lambda>_.
     with_lease en Exclusive
       (run_bind (runChecks en None (plan_finalVerification plan)) (\<lambda>checks.
        run_bind (review_if_needed en None checks) (\<lambda>review.
        run_bind (run_evaluate en WorkerCompleted checks [] review) (\<lambda>(passed, findings).
          if passed then run_return ()
          else fail FFinalVerificationFailed (''Final verification failed: '' @ finding_text en '' '' findings))))))"

section \<open>How a run settles\<close>

definition cleanupRunScratch :: "run_env \<Rightarrow> string option run" where
  "cleanupRunScratch en =
     run_bind (run_get lv_runId) (\<lambda>i.
     (\<lambda>s. case cleanupScratch (en_remove en) (en_root en) (orchestratorScratchDir i) (dk_scratch (lv_disk s)) of
        (failures, fs) \<Rightarrow>
          (Returned (if failures = [] then None
             else Some (''Scratch cleanup failed: '' @ joined (js_dedupe (map (\<lambda>f. en_message en (CleanupBad f)) failures)))),
           s\<lparr>lv_disk := (lv_disk s)\<lparr>dk_scratch := fs\<rparr>\<rparr>)))"

definition with_cleanup :: "string \<Rightarrow> string option \<Rightarrow> string" where
  "with_cleanup m problem = (case problem of None \<Rightarrow> m | Some p \<Rightarrow> m @ '' '' @ p)"

definition stored_failure :: "run_error \<Rightarrow> orch_failure" where
  "stored_failure e = (case e of
      RunFailure f \<Rightarrow> f
    | InfrastructureError m \<Rightarrow> failure FInfrastructureFailed m
    | AbortReason m \<Rightarrow> failure FInternalError m
    | OtherError m \<Rightarrow> failure FInternalError m)"

definition commit_outcome :: "run_env \<Rightarrow> orch_phase \<Rightarrow> orch_failure \<Rightarrow> unit run" where
  "commit_outcome en phase f = run_commit en
     (\<lambda>_. no_changes\<lparr>ch_phase := Some phase, ch_approval := Some None, ch_failure := Some (Some f)\<rparr>) (message_only (fl_message f))"

definition settleFailure :: "run_env \<Rightarrow> run_error \<Rightarrow> string option \<Rightarrow> unit run" where
  "settleFailure en e problem =
     run_bind (run_get (\<lambda>s. read_run (lv_store s) (lv_runId s))) (\<lambda>found.
     run_bind (run_lift (en_message en) StoreSaid found) (\<lambda>current.
     run_bind (run_modify (\<lambda>s. s\<lparr>lv_state := current\<rparr>)) (\<lambda>_.
     if isOrchestratorTerminalPhase (rs_phase current) then run_return ()
     else run_bind (run_get lv_abort) (\<lambda>aborted.
       case aborted of
         Some reason \<Rightarrow> commit_outcome en AbortedPhase (failure FAborted (with_cleanup reason problem))
       | None \<Rightarrow> commit_outcome en FailedPhase
           ((stored_failure e)\<lparr>fl_message := with_cleanup (fl_message (stored_failure e)) problem\<rparr>)))))"

definition captureStart :: "run_env \<Rightarrow> unit run" where
  "captureStart en = (case en_context en of
      Some m \<Rightarrow> run_throw (OtherError m)
    | None \<Rightarrow> run_bind (await_git en) (\<lambda>_.
        run_modify (\<lambda>s. s\<lparr>lv_dirty := Some (map fst (captureWorkspace (dk_tree (lv_disk s))))\<rparr>)))"

text \<open>The body of execute, up to the phase completed.\<close>

definition execute_work :: "run_env \<Rightarrow> unit run" where
  "execute_work en =
     run_bind (captureStart en) (\<lambda>_.
     run_bind (preparePlan en) (\<lambda>plan.
     run_bind (executeTasks en plan) (\<lambda>_.
     run_bind (verifyFinal en plan) (\<lambda>_.
     run_bind (commit_phase en Cleaning ''Cleaning run scratch files.'') (\<lambda>_.
     run_bind (cleanupRunScratch en) (\<lambda>problem.
     case problem of
       Some m \<Rightarrow> fail FCleanupFailed m
     | None \<Rightarrow> run_commit en (\<lambda>_. no_changes\<lparr>ch_phase := Some Completed, ch_failure := Some None\<rparr>)
         (message_only ''Run completed.'')))))))"

text \<open>Every child is stopped and has settled before the outcome is recorded.\<close>

definition stop_children :: "run_env \<Rightarrow> unit run" where
  "stop_children en =
     run_bind (run_modify (\<lambda>s. s\<lparr>lv_pending := None\<rparr>)) (\<lambda>_.
     run_bind abort_children (\<lambda>_. await_settled en))"

definition execute :: "run_env \<Rightarrow> unit run" where
  "execute en = run_try (execute_work en)
     (\<lambda>_. stop_children en)
     (\<lambda>e. run_bind (stop_children en) (\<lambda>_.
        run_bind (cleanupRunScratch en) (\<lambda>problem.
          settleFailure en e (case problem of None \<Rightarrow> None
            | Some p \<Rightarrow> Some (''Scratch cleanup also failed: '' @ p)))))"

text \<open>A run that was just created, with what the run will wait for.\<close>

definition new_live_run :: "nat \<Rightarrow> orch_store \<Rightarrow> orch_run_state \<Rightarrow> run_disk \<Rightarrow> awaited list \<Rightarrow> live_run" where
  "new_live_run i st r d script = \<lparr>lv_runId = i, lv_store = st, lv_state = r, lv_abort = None, lv_dirty = None,
     lv_running = [], lv_children = [], lv_pending = None, lv_leases = [], lv_schedule = None, lv_disk = d,
     lv_trace = [], lv_script = script\<rparr>"

end
