(* ===== verification/Orchestrator_Relations.thy ===== *)
theory Orchestrator_Relations
  imports Orchestrator_Lifecycle
begin

text \<open>
  What holds between the state a method of a live run starts in and the state it leaves: a locale for
  relations that the elementary steps of a run stay inside, with the proof, once for all of them, that
  every method does. With \<open>W\<close> the relation also holds while a method is still waiting.
\<close>

definition is_command :: "run_action \<Rightarrow> bool" where
  "is_command a = (case a of RanCommand _ _ \<Rightarrow> True | _ \<Rightarrow> False)"

definition take_lease :: "repo_access \<Rightarrow> live_run \<Rightarrow> live_run" where
  "take_lease access s = s\<lparr>lv_leases := access # lv_leases s, lv_trace := lv_trace s @ [Leased access]\<rparr>"

text \<open>The parts of the state a relation may look at; the others may change freely.\<close>

definition same_core :: "live_run \<Rightarrow> live_run \<Rightarrow> bool" where
  "same_core s s' \<longleftrightarrow> lv_runId s' = lv_runId s \<and> lv_store s' = lv_store s \<and> lv_state s' = lv_state s \<and>
     lv_leases s' = lv_leases s \<and> lv_trace s' = lv_trace s \<and> lv_script s' = lv_script s"

lemma mutate_read: "mutate i v ch s = Inr (r, s') \<Longrightarrow> read_run s' i = Inr r"
  by (auto simp: mutate_def Let_def split: option.splits if_splits prod.splits)

lemma store_calls_read:
  "update_run i v c e s = Inr (r, s') \<Longrightarrow> read_run s' i = Inr r"
  "savePlan i v p path h s = Inr (r, s') \<Longrightarrow> read_run s' i = Inr r"
  "markAttemptRunning i v k s = Inr (r, s') \<Longrightarrow> read_run s' i = Inr r"
  "recordAttemptResult i v res s = Inr (r, s') \<Longrightarrow> read_run s' i = Inr r"
  unfolding update_run_def savePlan_def markAttemptRunning_def recordAttemptResult_def
  by (erule mutate_read)+

lemma store_calls_step:
  "update_run i v c e s = Inr (r, s') \<Longrightarrow> s' = store_step digest (SUpdate i v c e) s"
  "savePlan i v p path h s = Inr (r, s') \<Longrightarrow> s' = store_step digest (SSavePlan i v p path h) s"
  "markAttemptRunning i v k s = Inr (r, s') \<Longrightarrow> s' = store_step digest (SMarkRunning i v k) s"
  "recordAttemptResult i v res s = Inr (r, s') \<Longrightarrow> s' = store_step digest (SRecord i v res) s"
  "reserveAttempt i v t w s = Inr (a, s') \<Longrightarrow> s' = store_step digest (SReserve i v t w) s"
  by (simp_all add: committed_def)

lemma run_bind_result:
  "m s = (o1, s1) \<Longrightarrow> run_bind m f s =
     (case o1 of Returned x \<Rightarrow> f x s1 | Thrown e \<Rightarrow> (Thrown e, s1) | Waiting \<Rightarrow> (Waiting, s1))"
  by (simp add: run_bind_def run_try_def run_throw_def split: outcome.split)

locale run_steps =
  fixes en :: run_env and W :: bool and R :: "live_run \<Rightarrow> live_run \<Rightarrow> bool"
  assumes R_trans: "R s t \<Longrightarrow> R t u \<Longrightarrow> R s u"
    and R_core: "same_core s t \<Longrightarrow> R s t"
    and R_script: "R s (s\<lparr>lv_script := tl (lv_script s)\<rparr>)"
    and R_happen: "R s (happen en m s)"
    and R_act: "\<not> is_command a \<Longrightarrow> R s (s\<lparr>lv_trace := lv_trace s @ [a]\<rparr>)"
    and R_fresh: "R s (s\<lparr>lv_store := (lv_store s)\<lparr>st_nextId := Suc (st_nextId (lv_store s))\<rparr>\<rparr>)"
    and R_write: "st = store_step (en_digest en) ev (lv_store s) \<Longrightarrow> read_run st (lv_runId s) = Inr r \<Longrightarrow>
      R s (s\<lparr>lv_store := st, lv_state := r\<rparr>)"
    and R_reread: "read_run (lv_store s) (lv_runId s) = Inr r \<Longrightarrow> R s (s\<lparr>lv_state := r\<rparr>)"
    and R_lease: "R (take_lease access s) t \<Longrightarrow> R s (give_back access t)"
    and R_leased: "W \<Longrightarrow> R s (take_lease access s)"
begin

definition keeps :: "'a run \<Rightarrow> bool" where
  "keeps m \<longleftrightarrow> (\<forall>s. W \<or> fst (m s) \<noteq> Waiting \<longrightarrow> R s (snd (m s)))"

lemma R_refl: "R s s"
  by (rule R_core) (simp add: same_core_def)

lemma keepsI: "(\<And>s. W \<or> fst (m s) \<noteq> Waiting \<Longrightarrow> R s (snd (m s))) \<Longrightarrow> keeps m"
  by (simp add: keeps_def)

lemma keepsD: "keeps m \<Longrightarrow> m s = (o', s') \<Longrightarrow> W \<or> o' \<noteq> Waiting \<Longrightarrow> R s s'"
  unfolding keeps_def by (metis fst_conv snd_conv)

lemma keepsE: "keeps m \<Longrightarrow> W \<or> fst (m s) \<noteq> Waiting \<Longrightarrow> R s (snd (m s))"
  unfolding keeps_def by blast

lemma keep_simple: "keeps (run_return x)" "keeps (run_throw e)" "keeps run_waiting" "keeps (run_get f)" "keeps throwIfAborted"
  by (simp_all add: keeps_def run_return_def run_throw_def run_waiting_def run_get_def throwIfAborted_def R_refl
      split: option.split)

lemma keep_try:
  assumes m: "keeps m" and f: "\<And>x. keeps (f x)" and h: "\<And>e. keeps (h e)"
  shows "keeps (run_try m f h)"
proof (rule keepsI)
  fix s assume w: "W \<or> fst (run_try m f h s) \<noteq> Waiting"
  obtain o1 s1 where ms: "m s = (o1, s1)" by (cases "m s")
  show "R s (snd (run_try m f h s))"
  proof (cases o1)
    case (Returned x)
    then have "R s1 (snd (f x s1))" "R s s1"
      using w keepsE [OF f, of x s1] keepsD [OF m ms] by (simp_all add: run_try_def ms)
    then show ?thesis using Returned by (simp add: run_try_def ms R_trans [of s s1])
  next
    case (Thrown e)
    then have "R s1 (snd (h e s1))" "R s s1"
      using w keepsE [OF h, of e s1] keepsD [OF m ms] by (simp_all add: run_try_def ms)
    then show ?thesis using Thrown by (simp add: run_try_def ms R_trans [of s s1])
  next
    case Waiting
    then show ?thesis using w keepsD [OF m ms] by (simp add: run_try_def ms)
  qed
qed

lemma keep_bind: "keeps m \<Longrightarrow> (\<And>x. keeps (f x)) \<Longrightarrow> keeps (run_bind m f)"
  unfolding run_bind_def by (intro keep_try keep_simple) auto

lemma keep_catch: "keeps m \<Longrightarrow> (\<And>e. keeps (h e)) \<Longrightarrow> keeps (run_catch m h)"
  unfolding run_catch_def by (intro keep_try keep_simple) auto

lemma keep_modify: "(\<And>s. R s (f s)) \<Longrightarrow> keeps (run_modify f)"
  by (simp add: keeps_def run_modify_def)

lemma keep_core: "(\<And>s. same_core s (f s)) \<Longrightarrow> keeps (run_modify f)"
  by (rule keep_modify) (rule R_core)

lemma keep_finally: "keeps m \<Longrightarrow> (\<And>s. R s (f s)) \<Longrightarrow> keeps (run_finally m f)"
  unfolding run_finally_def by (intro keep_try keep_bind keep_modify keep_simple) auto

lemma keep_forever: "(\<And>a. keeps (body a)) \<Longrightarrow> keeps (run_forever body a)"
proof -
  assume body: "\<And>a. keeps (body a)"
  have "keeps (run_loop n body a)" for n a
    by (induction n arbitrary: a) (auto intro!: keep_bind keep_simple body split: sum.split)
  then show ?thesis unfolding run_forever_def by (intro keep_bind keep_simple)
qed

lemma keep_lift: "keeps (run_lift msg tag r)"
  unfolding run_lift_def by (cases r) (simp_all add: keep_simple)

lemma keep_act: "\<not> is_command a \<Longrightarrow> keeps (run_act a)"
  unfolding run_act_def by (rule keep_modify) (rule R_act)

lemma R_acts: "list_all (\<lambda>a. \<not> is_command a) as \<Longrightarrow> R s (s\<lparr>lv_trace := lv_trace s @ as\<rparr>)"
proof (induction as arbitrary: s)
  case (Cons a as)
  then have "R s (s\<lparr>lv_trace := lv_trace s @ [a]\<rparr>)" by (simp add: R_act)
  moreover have "R (s\<lparr>lv_trace := lv_trace s @ [a]\<rparr>)
      (s\<lparr>lv_trace := lv_trace s @ [a]\<rparr>\<lparr>lv_trace := lv_trace (s\<lparr>lv_trace := lv_trace s @ [a]\<rparr>) @ as\<rparr>)"
    by (rule Cons.IH) (use Cons.prems in simp)
  ultimately show ?case using R_trans by fastforce
qed (simp add: R_refl)

lemma R_happens: "R s (fold (happen en) ms s)"
proof (induction ms arbitrary: s)
  case (Cons m ms)
  show ?case using R_trans [OF R_happen Cons.IH] by simp
qed (simp add: R_refl)

lemma keep_await: "keeps (run_await en pick)"
proof (rule keepsI)
  fix s
  show "R s (snd (run_await en pick s))"
  proof (cases "lv_script s")
    case (Cons a rest)
    have "R s (fold (happen en) (aw_meanwhile a) (s\<lparr>lv_script := rest\<rparr>))"
      using R_trans [OF R_script R_happens, of s "aw_meanwhile a"] Cons by simp
    then show ?thesis
      by (simp add: run_await_def Cons Let_def split: run_reply.split option.split)
  qed (simp add: run_await_def R_refl)
qed

lemma keep_settled: "keeps (await_settled en)"
  unfolding await_settled_def by (intro keep_catch keep_await keep_simple)

lemma keep_git: "keeps (await_git en)"
  unfolding await_git_def by (rule keep_await)

lemma keep_fresh: "keeps fresh_id"
  by (simp add: keeps_def fresh_id_def R_fresh)

lemma keep_store_call:
  assumes "\<And>i v st r st'. call i v st = Inr (r, st') \<Longrightarrow>
    (\<exists>ev. st' = store_step (en_digest en) ev st) \<and> read_run st' i = Inr r"
  shows "keeps (store_call en call)"
proof (rule keepsI)
  fix s
  show "R s (snd (store_call en call s))"
  proof (cases "call (lv_runId s) (rs_revision (lv_state s)) (lv_store s)")
    case (Inr p)
    then obtain r st' where p: "call (lv_runId s) (rs_revision (lv_state s)) (lv_store s) = Inr (r, st')" by (cases p) auto
    then show ?thesis using assms [OF p] R_write [of st' _ s r] by (auto simp: store_call_def)
  qed (simp add: store_call_def R_refl)
qed

lemma keep_commit: "keeps (run_commit en changes ev)"
proof (rule keepsI)
  fix s :: live_run
  have "keeps (store_call en (\<lambda>i v. update_run i v (changes (lv_state s)) ev))"
    by (rule keep_store_call) (blast intro: store_calls_read store_calls_step)
  then show "W \<or> fst (run_commit en changes ev s) \<noteq> Waiting \<Longrightarrow> R s (snd (run_commit en changes ev s))"
    unfolding run_commit_def by (rule keepsE)
qed

lemma keep_store_calls:
  "keeps (store_call en (\<lambda>i v. savePlan i v p path h))"
  "keeps (store_call en (\<lambda>i v. markAttemptRunning i v k))"
  "keeps (store_call en (\<lambda>i v. recordAttemptResult i v res))"
  by (rule keep_store_call; blast intro: store_calls_read store_calls_step)+

lemma keep_reserve: "keeps (reserve en taskId work)"
proof (rule keepsI)
  fix s
  show "R s (snd (reserve en taskId work s))"
  proof (cases "reserveAttempt (lv_runId s) (rs_revision (lv_state s)) taskId work (lv_store s)")
    case (Inr p)
    then obtain a st where p: "reserveAttempt (lv_runId s) (rs_revision (lv_state s)) taskId work (lv_store s) = Inr (a, st)"
      by (cases p) auto
    let ?ev = "SReserve (lv_runId s) (rs_revision (lv_state s)) taskId work"
    have st: "st = store_step (en_digest en) ?ev (lv_store s)" by (rule store_calls_step(5) [OF p])
    then have "R s (s\<lparr>lv_store := st\<rparr>)" using R_happen [of s "OtherWrite ?ev"] by simp
    then show ?thesis using p R_write [OF st] by (auto simp: reserve_def split: sum.split)
  qed (simp add: reserve_def R_refl)
qed

lemma keep_lease:
  assumes m: "keeps m"
  shows "keeps (with_lease en access m)"
proof (rule keepsI)
  fix s assume w: "W \<or> fst (with_lease en access m s) \<noteq> Waiting"
  let ?acq = "run_bind throwIfAborted (\<lambda>_. run_await en (\<lambda>r. if r = Granted then Some () else None))"
  have acq: "keeps ?acq" by (intro keep_bind keep_simple keep_await)
  obtain o1 s1 where ms: "?acq s = (o1, s1)" by (cases "?acq s")
  have eq: "with_lease en access m s = (case o1 of Returned x \<Rightarrow> run_finally m (give_back access) (take_lease access s1)
      | Thrown e \<Rightarrow> (Thrown e, s1) | Waiting \<Rightarrow> (Waiting, s1))"
  proof -
    have "with_lease en access m = run_bind ?acq (\<lambda>_ t. run_finally m (give_back access) (take_lease access t))"
      unfolding with_lease_def acquireRepository_def run_bind_def run_try_def run_modify_def take_lease_def run_throw_def
      by (rule ext) (auto split: prod.splits outcome.splits)
    then show ?thesis by (simp only: run_bind_result [where m = ?acq and s = s, OF ms])
  qed
  show "R s (snd (with_lease en access m s))"
  proof (cases "o1 = Returned ()")
    case True
    let ?t = "take_lease access s1"
    obtain o2 s2 where mt: "m ?t = (o2, s2)" by (cases "m ?t")
    have fin: "run_finally m (give_back access) ?t = (if o2 = Waiting then (Waiting, s2) else (o2, give_back access s2))"
      by (cases o2) (simp_all add: run_finally_def run_try_def mt run_bind_def run_modify_def run_return_def run_throw_def)
    have s1: "R s s1" using keepsD [OF acq ms] True by simp
    show ?thesis
    proof (cases "o2 = Waiting")
      case wait: True
      then have W using w True by (simp add: eq fin)
      then have "R s1 s2" using R_leased R_trans keepsD [OF m mt] by blast
      then show ?thesis using R_trans [OF s1] wait True by (simp add: eq fin)
    next
      case False
      then have "R ?t s2" using keepsD [OF m mt] by blast
      then have "R s1 (give_back access s2)" by (rule R_lease)
      then show ?thesis using R_trans [OF s1] False True by (simp add: eq fin)
    qed
  next
    case False
    then show ?thesis using w keepsD [OF acq ms] by (cases o1) (simp_all add: eq)
  qed
qed

lemmas keep_rules = keep_simple keep_try keep_bind keep_catch keep_finally keep_lift keep_await keep_settled keep_git
  keep_fresh keep_commit keep_store_calls keep_reserve keep_lease

lemma keep_phases:
  "keeps (commit_phase en p msg)" "keeps (setTask en taskId change msg)" "keeps (setTaskStatus en taskId st)"
  "keeps (commit_approval en pa ph ev)" "keeps (commit_outcome en p f)" "keeps (runContext label)"
  "keeps (fail code msg)" "keeps (fail_task code msg taskId purpose ids)"
  by (simp_all add: commit_phase_def setTask_def setTaskStatus_def commit_approval_def commit_outcome_def keep_commit
      fail_def fail_task_def keep_simple) (simp add: keeps_def runContext_def R_refl)

lemma keep_ask_loop: "keeps (ask_loop en label parse n retry err)"
  by (induction n arbitrary: retry err)
    (auto intro!: keep_rules keep_act simp: is_command_def split: run_error.split)

lemma keep_ask: "keeps (askParent en label parse rejected)"
  unfolding askParent_def by (intro keep_bind keep_phases keep_ask_loop)

lemma keep_decide: "keeps (decideOnParentModel en)"
proof -
  have "keeps (decide_loop en n rejected)" for n rejected
    by (induction n arbitrary: rejected)
      (auto intro!: keep_rules keep_ask keep_phases split: sum.split approval_answer.split)
  then show ?thesis by (simp add: decideOnParentModel_def)
qed

lemma keep_user: "keeps (waitForUserDecision en i)"
  unfolding waitForUserDecision_def
  by (intro keep_bind keep_phases keep_finally keep_rules keep_core R_core) (simp_all add: same_core_def)

lemma keep_clear: "keeps (clear_approval en ph msg)"
  unfolding clear_approval_def by (auto intro!: keep_rules keep_phases)

lemma keep_abort_acts: "keeps (run_modify (\<lambda>s. s\<lparr>lv_abort := Some reason, lv_trace := lv_trace s @ map AbortedChild (lv_children s)\<rparr>))"
proof (rule keep_modify)
  fix s :: live_run
  let ?t = "s\<lparr>lv_trace := lv_trace s @ map AbortedChild (lv_children s)\<rparr>"
  have "R s ?t" by (rule R_acts) (simp add: list_all_iff is_command_def)
  moreover have "R ?t (s\<lparr>lv_abort := Some reason, lv_trace := lv_trace s @ map AbortedChild (lv_children s)\<rparr>)"
    by (rule R_core) (simp add: same_core_def)
  ultimately show "R s (s\<lparr>lv_abort := Some reason, lv_trace := lv_trace s @ map AbortedChild (lv_children s)\<rparr>)"
    by (rule R_trans)
qed

lemma keep_abort_children: "keeps abort_children"
  unfolding abort_children_def by (rule keep_modify, rule R_acts) (simp add: list_all_iff is_command_def)

lemma keep_resolve: "keeps (resolveApproval en p action)"
  unfolding resolveApproval_def abort_run_def
  by (intro keep_bind keep_try keep_clear keep_phases keep_simple keep_act)
    (auto intro!: keep_bind keep_simple keep_user keep_decide keep_clear keep_act keep_abort_acts simp: is_command_def)

lemma keep_answer: "keeps (answerApproval en p action)"
  unfolding answerApproval_def by (intro keep_bind keep_settled keep_resolve)

lemma keep_denial: "keeps (checkDenial en command cwd taskId)"
  unfolding checkDenial_def by (auto intro!: keep_bind keep_simple keep_fresh keep_answer)

text \<open>A relation that every action stays inside holds of the checks too.\<close>

lemma keep_any_verification:
  assumes "\<And>s a. R s (s\<lparr>lv_trace := lv_trace s @ [a]\<rparr>)"
  shows "keeps (runVerificationCheck en command cwd)"
proof -
  have "keeps (run_act a)" for a unfolding run_act_def by (rule keep_modify) (rule assms)
  then show ?thesis unfolding runVerificationCheck_def
    by (auto intro!: keep_bind keep_simple keep_lift keep_await split: option.split)
qed

lemma keep_any_check:
  assumes "\<And>s a. R s (s\<lparr>lv_trace := lv_trace s @ [a]\<rparr>)"
  shows "keeps (run_check en taskId c)"
  unfolding run_check_def
  by (auto intro!: keep_bind keep_simple keep_denial keep_any_verification [OF assms] split: orch_check.split option.split)

end

text \<open>The checks of a task run commands: a relation that restricts commands has to be shown for them.\<close>

locale run_relation = run_steps +
  assumes R_check: "W \<or> fst (run_check en taskId c s) \<noteq> Waiting \<Longrightarrow> R s (snd (run_check en taskId c s))"
begin

lemma keep_check: "keeps (run_check en taskId c)"
  by (rule keepsI) (rule R_check)

lemma keep_checks: "keeps (runChecks en taskId cs)"
  by (induction cs) (auto intro!: keep_bind keep_simple keep_check)

lemma keep_unrunnable: "keeps (findUnrunnableChecks en cs)"
  unfolding findUnrunnableChecks_def by (auto intro!: keep_rules)

lemma keep_review: "keeps (askEvidenceReview en taskId)"
proof -
  have "keeps (review_loop en taskId n rejected)" for n rejected
  proof (induction n arbitrary: rejected)
    case 0
    show ?case by (cases taskId) (simp_all add: keep_phases)
  next
    case (Suc n)
    then show ?case by (auto intro!: keep_bind keep_simple keep_lift keep_ask split: sum.split)
  qed
  then show ?thesis by (simp add: askEvidenceReview_def)
qed

lemma keep_reviewed: "keeps (review_if_needed en taskId checks)"
  unfolding review_if_needed_def by (auto intro!: keep_bind keep_simple keep_review)

lemma keep_evaluate: "keeps (run_evaluate en st checks vs review)"
  unfolding run_evaluate_def by (intro keep_bind keep_simple keep_lift)

section \<open>Tasks\<close>

lemma keep_diff: "keeps (diff_now en b ex)"
  unfolding diff_now_def by (intro keep_bind keep_git keep_simple)

lemma keep_changes: "keeps (taskChanges en rt)"
  unfolding taskChanges_def
  by (auto intro!: keep_bind keep_diff keep_simple keep_core simp: same_core_def add_writer_paths_def split: option.split)

lemma keep_start_child: "keeps (startOrchestratorChild en t a)"
  unfolding startOrchestratorChild_def
  by (auto intro!: keep_bind keep_lift keep_simple keep_act keep_core simp: same_core_def is_command_def)

lemma keep_supervise_round: "keeps (supervise_round en t a u)"
  unfolding supervise_round_def
  by (auto intro!: keep_bind keep_simple keep_await keep_answer keep_act simp: is_command_def split: child_boundary.split)

lemma keep_supervise: "keeps (superviseChild en t a)"
  unfolding superviseChild_def abort_child_def
  by (intro keep_bind keep_finally keep_catch keep_store_calls keep_start_child keep_simple keep_forever keep_supervise_round
      keep_act keep_settled R_core) (simp_all add: same_core_def is_command_def)

lemma keep_attempt: "keeps (runAttempt en rt t wp a)"
  unfolding runAttempt_def Let_def
  by (auto intro!: keep_bind keep_simple keep_supervise keep_phases keep_checks keep_changes keep_reviewed keep_evaluate
      keep_store_calls)

lemma keep_diff_text: "keeps (renderDiff en)"
  unfolding renderDiff_def by (rule keep_await)

lemma keep_drift_review: "keeps (reviewDrift en t d ps fs)"
proof -
  have "keeps (drift_review_loop en t d ps fs n rejected)" for n rejected
    by (induction n arbitrary: rejected)
      (auto intro!: keep_bind keep_simple keep_lift keep_ask keep_unrunnable keep_phases split: sum.split)
  then show ?thesis unfolding reviewDrift_def by (intro keep_bind keep_diff_text) 
qed

lemma keep_findings: "keeps (drift_findings en t d ps fs)"
  unfolding drift_findings_def record_review_def by (intro keep_bind keep_phases keep_simple keep_drift_review)

lemma keep_correct: "keeps (correct_drift en rt d fs)"
  unfolding correct_drift_def drift_unresolved_def Let_def
  by (auto intro!: keep_bind keep_simple keep_phases keep_reserve keep_attempt)

lemma keep_not_required: "keeps (drift_not_required en rt c ev)"
  unfolding drift_not_required_def drift_unresolved_def Let_def
  by (auto intro!: keep_bind keep_simple keep_phases split: option.split)

lemma keep_drift_round: "keeps (drift_round en rt a)"
  unfolding drift_round_def
  by (cases a) (auto intro!: keep_bind keep_simple keep_changes keep_not_required keep_findings keep_correct split: option.split)

lemma keep_gate: "keeps (driftGate en rt)"
  unfolding driftGate_def by (intro keep_forever keep_drift_round)

lemma keep_implement_round: "keeps (implement_round en rt pp ph u)"
  unfolding implement_round_def Let_def
  by (auto intro!: keep_bind keep_simple keep_reserve keep_attempt keep_phases keep_diff_text)

lemma keep_remove_all: "keeps (remove_all en scratch ps)"
proof (induction ps)
  case (Cons p ps)
  have "keeps (\<lambda>s. case remove_temporary (en_remove en) (en_root en) scratch p (dk_scratch (lv_disk s)) of
         (e, fs) \<Rightarrow> (Returned e, s\<lparr>lv_disk := (lv_disk s)\<lparr>dk_scratch := fs\<rparr>\<rparr>))"
    by (rule keepsI) (auto intro!: R_core simp: same_core_def split: prod.split)
  then show ?case using Cons by (auto intro!: keep_bind keep_simple split: option.split)
qed (simp add: keep_simple)

lemma keep_implement: "keeps (implementTask en rt pp ph)"
  unfolding implementTask_def cleanupTaskTemporaries_def
  by (auto intro!: keep_bind keep_simple keep_forever keep_implement_round keep_gate keep_remove_all keep_phases split: option.split)

lemma keep_task: "keeps (runTask en t pp ph)"
  unfolding runTask_def Let_def
  by (intro keep_bind keep_lift keep_lease keep_git keep_simple keep_core keep_finally keep_implement R_core)
    (simp_all add: same_core_def)

section \<open>The run\<close>

lemma keep_supplied: "keeps (supplied_plan en)"
  unfolding supplied_plan_def readSuppliedPlan_def
  by (auto intro!: keep_bind keep_simple keep_lift keep_phases split: option.split)

lemma keep_save: "keeps (save_plan en supplied preparation plan)"
  unfolding save_plan_def writeGeneratedPlan_def Let_def
  by (intro keep_bind keep_store_calls keep_phases)
    (auto intro!: keep_bind keep_simple keep_lease keep_act simp: is_command_def split: plan_preparation.split option.split)

lemma keep_accept: "keeps (accept_plan en supplied preparation plan)"
  unfolding accept_plan_def Let_def
  by (auto intro!: keep_bind keep_simple keep_phases keep_unrunnable keep_save split: sum.split)

lemma keep_prepare: "keeps (preparePlan en)"
proof -
  have "keeps (plan_loop en supplied n rejected)" for supplied n rejected
    by (induction n arbitrary: rejected)
      (auto intro!: keep_bind keep_simple keep_phases keep_lease keep_ask keep_accept split: sum.split plan_preparation.split)
  then show ?thesis unfolding preparePlan_def by (intro keep_bind keep_supplied)
qed

lemma keep_start_tasks: "keeps (start_tasks en ts)"
  by (induction ts) (auto intro!: keep_bind keep_simple keep_phases)

lemma keep_schedule_round: "keeps (schedule_round en plan active)"
proof -
  have m: "keeps (run_modify (\<lambda>s. s\<lparr>lv_schedule := x\<rparr>))" for x by (rule keep_core) (simp add: same_core_def)
  show ?thesis unfolding schedule_round_def Let_def
    by (intro keep_bind keep_lift keep_simple keep_start_tasks m)
      (auto intro!: keep_bind keep_try keep_simple keep_await keep_phases keep_abort_children keep_settled)
qed

lemma keep_execute_tasks: "keeps (executeTasks en plan)"
  unfolding executeTasks_def by (auto intro!: keep_bind keep_simple keep_forever keep_schedule_round)

lemma keep_final: "keeps (verifyFinal en plan)"
  unfolding verifyFinal_def
  by (auto intro!: keep_bind keep_phases keep_lease keep_checks keep_reviewed keep_evaluate keep_simple)

lemma keep_cleanup: "keeps (cleanupRunScratch en)"
  unfolding cleanupRunScratch_def
  by (intro keep_bind keep_simple, rule keepsI) (auto intro!: R_core simp: same_core_def split: prod.split)

lemma keep_work: "keeps (execute_work en)"
  unfolding execute_work_def captureStart_def
  by (intro keep_bind keep_prepare keep_execute_tasks keep_final keep_phases keep_cleanup)
    (auto intro!: keep_bind keep_simple keep_git keep_core keep_phases keep_commit simp: same_core_def split: option.split)

lemma keep_stop: "keeps (stop_children en)"
  unfolding stop_children_def
  by (intro keep_bind keep_core keep_abort_children keep_settled) (simp add: same_core_def)

lemma keep_settle: "keeps (settleFailure en e problem)"
proof (rule keepsI)
  fix s assume w: "W \<or> fst (settleFailure en e problem s) \<noteq> Waiting"
  show "R s (snd (settleFailure en e problem s))"
  proof (cases "read_run (lv_store s) (lv_runId s)")
    case (Inl x)
    then show ?thesis
      by (simp add: settleFailure_def run_bind_def run_try_def run_get_def run_lift_def run_throw_def R_refl)
  next
    case (Inr r)
    let ?s = "s\<lparr>lv_state := r\<rparr>"
    let ?rest = "if isOrchestratorTerminalPhase (rs_phase r) then run_return ()
     else run_bind (run_get lv_abort) (\<lambda>aborted.
       case aborted of
         Some reason \<Rightarrow> commit_outcome en AbortedPhase (failure FAborted (with_cleanup reason problem))
       | None \<Rightarrow> commit_outcome en FailedPhase
           ((stored_failure e)\<lparr>fl_message := with_cleanup (fl_message (stored_failure e)) problem\<rparr>))"
    have eq: "settleFailure en e problem s = ?rest ?s"
      by (simp add: settleFailure_def run_bind_def run_try_def run_get_def run_lift_def run_return_def run_modify_def Inr)
    have "keeps ?rest" by (auto intro!: keep_bind keep_simple keep_phases split: option.split)
    then have "R ?s (snd (?rest ?s))" using w unfolding eq by (rule keepsE)
    with R_reread [OF Inr] show ?thesis unfolding eq by (rule R_trans)
  qed
qed

lemma keep_execute: "keeps (execute en)"
  unfolding execute_def by (intro keep_try keep_bind keep_work keep_stop keep_cleanup keep_settle)

end

end
