(* ===== verification/Attempt_Records.thy ===== *)
theory Attempt_Records
  imports Orchestrator_Store
begin

text \<open>
  The results on record: a settled attempt of a run is never changed or removed by a later call of the
  store, and recording a result settles the attempt it names.
\<close>

section \<open>Settled attempts stay\<close>

text \<open>An attempt that has its result keeps it: no later call changes or removes it.\<close>

definition attempts_persist :: "orch_store \<Rightarrow> orch_store \<Rightarrow> bool" where
  "attempts_persist s s' \<longleftrightarrow>
     (\<forall>i. \<forall>a \<in> set (st_attempts s i). at_status a = AttemptSettled \<longrightarrow> a \<in> set (st_attempts s' i))"

lemma persist_refl: "attempts_persist s s"
  by (simp add: attempts_persist_def)

lemma persist_trans: "attempts_persist s t \<Longrightarrow> attempts_persist t u \<Longrightarrow> attempts_persist s u"
  by (auto simp: attempts_persist_def)

definition settled_kept :: "orch_attempt list \<Rightarrow> orch_attempt list \<Rightarrow> bool" where
  "settled_kept as bs \<longleftrightarrow> (\<forall>a \<in> set as. at_status a = AttemptSettled \<longrightarrow> a \<in> set bs)"

lemma kept_close: "settled_kept as bs \<Longrightarrow> settled_kept as (map close_attempt bs)"
  by (force simp: settled_kept_def close_attempt_def)

lemma kept_replace:
  assumes "attempts_ok as" and "a \<in> set as" and "at_status a \<noteq> AttemptSettled" and "at_childRunId a' = at_childRunId a"
  shows "settled_kept as (replace_attempt a' as)"
proof -
  have inj: "inj_on at_childRunId (set as)" using assms(1) by (simp add: attempts_ok_def distinct_map)
  show ?thesis unfolding settled_kept_def
  proof (intro ballI impI)
    fix b assume b: "b \<in> set as" "at_status b = AttemptSettled"
    then have "at_childRunId b \<noteq> at_childRunId a'" using assms inj by (auto dest: inj_onD)
    then show "b \<in> set (replace_attempt a' as)" using b(1) by (force simp: replace_attempt_def)
  qed
qed

lemma mutate_persist:
  assumes ok: "store_ok s" and m: "mutate i v ch s = Inr (r, s')"
    and keeps: "\<And>cur stored ev s1. st_runs s i \<noteq> None \<Longrightarrow> cur = (row_state (the (st_runs s i)))\<lparr>rs_attempts := st_attempts s i\<rparr> \<Longrightarrow>
      \<not> isOrchestratorTerminalPhase (rs_phase cur) \<Longrightarrow> ch cur s = Inr (stored, ev, s1) \<Longrightarrow>
      change_keeps i cur s stored s1 \<and> settled_kept (st_attempts s i) (st_attempts s1 i)"
  shows "attempts_persist s s'"
proof -
  obtain row stored ev s1 flds s2 where R:
    "st_runs s i = Some row" "\<not> isOrchestratorTerminalPhase (rs_phase (row_state row))"
    "ch ((row_state row)\<lparr>rs_attempts := st_attempts s i\<rparr>) s = Inr (stored, ev, s1)"
    "(if stopped (rs_phase stored) then closeOpenWork i stored s1 else (stored, s1)) = (flds, s2)"
    "s' = appendEvent (flds\<lparr>rs_attempts := [], rs_revision := v + 1\<rparr>) ev
       (put_row i (row\<lparr>row_state := flds\<lparr>rs_attempts := [], rs_revision := v + 1\<rparr>\<rparr>) s2)"
    using mutate_result [OF m] by metis
  let ?cur = "(row_state row)\<lparr>rs_attempts := st_attempts s i\<rparr>"
  have k: "change_keeps i ?cur s stored s1 \<and> settled_kept (st_attempts s i) (st_attempts s1 i)"
    by (rule keeps) (use R in auto)
  then obtain as where as: "s1 = s\<lparr>st_attempts := (st_attempts s)(i := as)\<rparr>" "attempts_ok as"
    "stopped (rs_phase stored) \<longrightarrow> rs_attempts stored = as" by (auto simp: change_keeps_def)
  have s': "st_attempts s' = st_attempts s2" by (simp add: R(5) appendEvent_def put_row_def Let_def)
  have "settled_kept (st_attempts s i) (st_attempts s' i) \<and> (\<forall>j. j \<noteq> i \<longrightarrow> st_attempts s' j = st_attempts s j)"
  proof (cases "stopped (rs_phase stored)")
    case True
    have "closeOpenWork i stored s1 = (flds, s2)" using R(4) True by simp
    then have "s2 = s1\<lparr>st_attempts := (st_attempts s1)(i := map close_attempt (st_attempts s1 i))\<rparr>"
      using close_result(1) [of i stored s1 flds s2] as True by simp
    then show ?thesis using k kept_close s' as(1) by simp
  next
    case False
    then show ?thesis using R(4) k s' as(1) by auto
  qed
  then show ?thesis unfolding attempts_persist_def settled_kept_def by metis
qed

lemma store_calls_persist:
  assumes ok: "store_ok s"
  shows "update_run i v c e s = Inr (r, s') \<Longrightarrow> attempts_persist s s'"
    and "savePlan i v p path h s = Inr (r, s') \<Longrightarrow> attempts_persist s s'"
proof -
  show "attempts_persist s s'" if "update_run i v c e s = Inr (r, s')"
    by (rule mutate_persist [OF ok that [unfolded update_run_def]])
      (auto intro!: keeps_same [OF ok] simp: apply_changes_def settled_kept_def)
  show "attempts_persist s s'" if "savePlan i v p path h s = Inr (r, s')"
    by (rule mutate_persist [OF ok that [unfolded savePlan_def]])
      (auto intro!: keeps_same [OF ok] simp: settled_kept_def split: option.splits)
qed

lemma markRunning_persist:
  assumes ok: "store_ok s" and m: "markAttemptRunning i v child s = Inr (r, s')"
  shows "attempts_persist s s'"
proof (rule mutate_persist [OF ok m [unfolded markAttemptRunning_def]])
  fix cur stored ev s1
  assume run: "st_runs s i \<noteq> None" and cur: "cur = row_state (the (st_runs s i))\<lparr>rs_attempts := st_attempts s i\<rparr>"
    and nt: "\<not> isOrchestratorTerminalPhase (rs_phase cur)"
    and ch: "bind_result (requireAttempt cur child) (\<lambda>a. if at_status a \<noteq> AttemptReserved then Inl (AlreadyStarted child)
       else Inr (cur, attempt_event ''Started.'' a, writeAttempt i (a\<lparr>at_status := AttemptRunning\<rparr>) s)) = Inr (stored, ev, s1)"
  then obtain a where req: "requireAttempt cur child = Inr a" and
    rest: "(if at_status a \<noteq> AttemptReserved then Inl (AlreadyStarted child)
       else Inr (cur, attempt_event ''Started.'' a, writeAttempt i (a\<lparr>at_status := AttemptRunning\<rparr>) s)) = Inr (stored, ev, s1)"
    unfolding bind_result_Inr by blast
  have a: "at_status a = AttemptReserved" "stored = cur" "s1 = writeAttempt i (a\<lparr>at_status := AttemptRunning\<rparr>) s"
    using rest by (simp_all split: if_splits)
  have mem: "a \<in> set (rs_attempts cur)" using requireAttempt_Inr [OF req] by simp
  then have "settle_result a" using settle_of_unsettled [OF ok run, of a] cur by simp
  then have sr: "settle_result (a\<lparr>at_status := AttemptRunning\<rparr>)" using a(1) by (simp add: settle_result_def)
  have "change_keeps i cur s stored s1"
    unfolding a(2,3) by (intro keeps_write [OF ok run _ nt mem]) (simp_all add: cur same_attempt_def sr)
  moreover have "settled_kept (st_attempts s i) (st_attempts s1 i)"
    using kept_replace [OF store_okD(1) [OF ok run], of a "a\<lparr>at_status := AttemptRunning\<rparr>"] mem a(1) cur
    by (simp add: a(3) writeAttempt_replace)
  ultimately show "change_keeps i cur s stored s1 \<and> settled_kept (st_attempts s i) (st_attempts s1 i)" ..
qed

text \<open>What recording a result leaves on record.\<close>

lemma record_recorded:
  assumes ok: "store_ok s" and m: "recordAttemptResult i v result s = Inr (r, s')"
  shows "attempts_persist s s' \<and> (\<exists>a \<in> set (st_attempts s' i). at_status a = AttemptSettled \<and> at_result a = Some result \<and>
    at_taskId a = ar_taskId result \<and> at_purpose a = ar_purpose result \<and> at_attempt a = ar_attempt result)"
proof -
  let ?ev = "\<lambda>a. attempt_event (if ar_passed result then ''Settled: passed.'' else ''Settled: failed.'') a"
  let ?ch = "\<lambda>r s. bind_result (requireAttempt r (ar_childRunId result)) (\<lambda>a.
       if at_status a = AttemptSettled then Inl (AlreadySettled (ar_childRunId result))
       else if at_taskId a \<noteq> ar_taskId result \<or> at_purpose a \<noteq> ar_purpose result \<or> at_attempt a \<noteq> ar_attempt result
       then Inl (ResultMismatch (ar_childRunId result))
       else Inr (r, ?ev a, writeAttempt i (a\<lparr>at_status := AttemptSettled, at_result := Some result\<rparr>) s))"
  have m': "mutate i v ?ch s = Inr (r, s')" using m by (simp add: recordAttemptResult_def)
  have ch: "\<exists>a \<in> set (rs_attempts cur). at_status a \<noteq> AttemptSettled \<and> at_taskId a = ar_taskId result \<and>
      at_purpose a = ar_purpose result \<and> at_attempt a = ar_attempt result \<and> stored = cur \<and>
      s1 = writeAttempt i (a\<lparr>at_status := AttemptSettled, at_result := Some result\<rparr>) s"
    if "?ch cur s = Inr (stored, ev, s1)" for cur stored ev s1
  proof -
    from that obtain a where req: "requireAttempt cur (ar_childRunId result) = Inr a" and
      rest: "(if at_status a = AttemptSettled then Inl (AlreadySettled (ar_childRunId result))
       else if at_taskId a \<noteq> ar_taskId result \<or> at_purpose a \<noteq> ar_purpose result \<or> at_attempt a \<noteq> ar_attempt result
       then Inl (ResultMismatch (ar_childRunId result))
       else Inr (cur, ?ev a, writeAttempt i (a\<lparr>at_status := AttemptSettled, at_result := Some result\<rparr>) s)) = Inr (stored, ev, s1)"
      unfolding bind_result_Inr by blast
    then show ?thesis using requireAttempt_Inr [OF req] by (intro bexI [of _ a]) (simp_all split: if_splits)
  qed
  have "attempts_persist s s'"
  proof (rule mutate_persist [OF ok m'])
    fix cur stored ev s1
    assume run: "st_runs s i \<noteq> None" and cur: "cur = row_state (the (st_runs s i))\<lparr>rs_attempts := st_attempts s i\<rparr>"
      and nt: "\<not> isOrchestratorTerminalPhase (rs_phase cur)" and c: "?ch cur s = Inr (stored, ev, s1)"
    obtain a where a: "a \<in> set (rs_attempts cur)" "at_status a \<noteq> AttemptSettled" "stored = cur"
      "s1 = writeAttempt i (a\<lparr>at_status := AttemptSettled, at_result := Some result\<rparr>) s" using ch [OF c] by blast
    have "change_keeps i cur s stored s1"
      unfolding a(3,4) by (intro keeps_write [OF ok run _ nt a(1)]) (simp_all add: cur same_attempt_def settle_result_def)
    moreover have "settled_kept (st_attempts s i) (st_attempts s1 i)"
      using kept_replace [OF store_okD(1) [OF ok run], of a "a\<lparr>at_status := AttemptSettled, at_result := Some result\<rparr>"] a cur
      by (simp add: a(4) writeAttempt_replace)
    ultimately show "change_keeps i cur s stored s1 \<and> settled_kept (st_attempts s i) (st_attempts s1 i)" ..
  qed
  moreover obtain row stored ev s1 flds s2 where R: "st_runs s i = Some row"
    "?ch ((row_state row)\<lparr>rs_attempts := st_attempts s i\<rparr>) s = Inr (stored, ev, s1)"
    "\<not> isOrchestratorTerminalPhase (rs_phase (row_state row))"
    "(if stopped (rs_phase stored) then closeOpenWork i stored s1 else (stored, s1)) = (flds, s2)"
    "s' = appendEvent (flds\<lparr>rs_attempts := [], rs_revision := v + 1\<rparr>) ev
       (put_row i (row\<lparr>row_state := flds\<lparr>rs_attempts := [], rs_revision := v + 1\<rparr>\<rparr>) s2)"
    by (rule mutate_result [OF m'])
  moreover obtain a where a: "a \<in> set (st_attempts s i)" "at_taskId a = ar_taskId result"
    "at_purpose a = ar_purpose result" "at_attempt a = ar_attempt result" "stored = (row_state row)\<lparr>rs_attempts := st_attempts s i\<rparr>"
    "s1 = writeAttempt i (a\<lparr>at_status := AttemptSettled, at_result := Some result\<rparr>) s"
    using ch [OF R(2)] by auto
  let ?a = "a\<lparr>at_status := AttemptSettled, at_result := Some result\<rparr>"
  have "st_attempts s' i = replace_attempt ?a (st_attempts s i)"
    using R(3-5) a(5,6) by (auto simp: stopped_def writeAttempt_replace appendEvent_def put_row_def Let_def)
  then have "?a \<in> set (st_attempts s' i)" using a(1) by (force simp: replace_attempt_def)
  ultimately show ?thesis using a by (intro conjI bexI [of _ ?a]) simp_all
qed

lemma reserve_persist:
  assumes ok: "store_ok s" and m: "reserveAttempt i v t w s = Inr (a, s')"
  shows "attempts_persist s s'" and "at_purpose a = work_kind w"
proof -
  let ?s = "s\<lparr>st_nextId := Suc (st_nextId s)\<rparr>"
  let ?p = "work_kind w"
  let ?a = "\<lambda>as. \<lparr>at_taskId = t, at_purpose = ?p, at_attempt = attempts_used t ?p as + 1,
    at_childRunId = st_nextId s, at_work = w, at_status = AttemptReserved, at_result = None\<rparr>"
  let ?ch = "\<lambda>r s. if \<not> list_ex (\<lambda>u. ts_taskId u = t) (rs_tasks r) then Inl (TaskNotPlanned t)
    else if attempts_used t ?p (rs_attempts r) \<ge> ORCHESTRATOR_MAX_ATTEMPTS then Inl (AttemptLimit t ?p)
    else Inr (r, attempt_event ''Reserved.'' (?a (rs_attempts r)),
      s\<lparr>st_attempts := (st_attempts s)(i := st_attempts s i @ [?a (rs_attempts r)])\<rparr>)"
  obtain r where m': "mutate i v ?ch ?s = Inr (r, s')" and req: "requireAttempt r (st_nextId s) = Inr a"
    using m unfolding reserveAttempt_def Let_def by (auto split: prod.splits)
  have fresh: "list_all (\<lambda>a. at_childRunId a < st_nextId s) (st_attempts ?s i)"
    using ok by (simp add: store_ok_def list_all_iff)
  have "attempts_persist ?s s'"
  proof (rule mutate_persist [OF next_id_ok [OF ok] m'])
    fix cur stored ev s1
    assume run: "st_runs ?s i \<noteq> None" and cur: "cur = row_state (the (st_runs ?s i))\<lparr>rs_attempts := st_attempts ?s i\<rparr>"
      and nt: "\<not> isOrchestratorTerminalPhase (rs_phase cur)" and ch: "?ch cur ?s = Inr (stored, ev, s1)"
    have at: "rs_attempts cur = st_attempts ?s i" by (simp add: cur)
    from ch have u: "attempts_used t ?p (st_attempts ?s i) < ORCHESTRATOR_MAX_ATTEMPTS" and st: "stored = cur"
      and s1: "s1 = ?s\<lparr>st_attempts := (st_attempts ?s)(i := st_attempts ?s i @ [?a (st_attempts ?s i)])\<rparr>"
      unfolding at by (simp_all split: if_splits)
    have "change_keeps i cur ?s stored s1"
      unfolding st s1 by (rule reserve_change [OF next_id_ok [OF ok] run at nt fresh _ u]) simp
    then show "change_keeps i cur ?s stored s1 \<and> settled_kept (st_attempts ?s i) (st_attempts s1 i)"
      by (simp add: s1 settled_kept_def)
  qed
  then show "attempts_persist s s'" by (simp add: attempts_persist_def)
  obtain row stored ev s1 flds s2 where R: "st_runs ?s i = Some row"
    "?ch ((row_state row)\<lparr>rs_attempts := st_attempts ?s i\<rparr>) ?s = Inr (stored, ev, s1)"
    "\<not> isOrchestratorTerminalPhase (rs_phase (row_state row))"
    "(if stopped (rs_phase stored) then closeOpenWork i stored s1 else (stored, s1)) = (flds, s2)"
    "s' = appendEvent (flds\<lparr>rs_attempts := [], rs_revision := v + 1\<rparr>) ev
       (put_row i (row\<lparr>row_state := flds\<lparr>rs_attempts := [], rs_revision := v + 1\<rparr>\<rparr>) s2)"
    by (rule mutate_result [OF m'])
  have s1: "stored = (row_state row)\<lparr>rs_attempts := st_attempts ?s i\<rparr>"
    "s1 = ?s\<lparr>st_attempts := (st_attempts ?s)(i := st_attempts ?s i @ [?a (st_attempts ?s i)])\<rparr>"
    using R(2) by (simp_all split: if_splits)
  then have "st_attempts s' i = st_attempts s i @ [?a (st_attempts s i)]"
    using R(3-5) by (auto simp: stopped_def appendEvent_def put_row_def Let_def)
  moreover have "rs_attempts r = st_attempts s' i"
    using m' by (auto simp: mutate_def Let_def read_run_def split: option.splits if_splits prod.splits)
  ultimately have "a \<in> set (st_attempts s i @ [?a (st_attempts s i)])" "at_childRunId a = st_nextId s"
    using requireAttempt_Inr [OF req] by simp_all
  then show "at_purpose a = work_kind w" using fresh by (auto simp: list_all_iff)
qed

lemma store_step_persist:
  assumes ok: "store_ok s"
  shows "attempts_persist s (store_step digest ev s)"
proof (cases ev)
  case (SCreate rq)
  then show ?thesis using create_result [OF ok, of digest rq]
    by (cases "create_run digest rq s") (auto simp: committed_def attempts_persist_def split: prod.splits)
next
  case (SInterrupt i v m)
  then show ?thesis
    by (cases "markInterrupted i v m s")
      (auto simp: committed_def persist_refl markInterrupted_def dest!: store_calls_persist(1) [OF ok])
qed (auto simp: committed_def persist_refl split: sum.split
    intro: store_calls_persist [OF ok] markRunning_persist [OF ok] record_recorded [OF ok, THEN conjunct1] reserve_persist(1) [OF ok])

end
