(* ===== verification/Orchestrator_Run_Properties.thy ===== *)
theory Orchestrator_Run_Properties
  imports Orchestrator_Relations Attempt_Records
begin

text \<open>
  What a live orchestrator run guarantees, for every behaviour of the model, the children, the person and
  the checkout: how it settles, what was verified before it completes, that no command runs unapproved,
  that the leases it takes are returned, that the drift gate lets only clean work through.
\<close>

section \<open>Results of composed methods\<close>

lemma run_try_Returned:
  "run_try m f h s = (Returned x, t) \<longleftrightarrow>
     (\<exists>y u. m s = (Returned y, u) \<and> f y u = (Returned x, t)) \<or> (\<exists>e u. m s = (Thrown e, u) \<and> h e u = (Returned x, t))"
  by (cases "m s"; cases "fst (m s)") (auto simp: run_try_def)

lemma run_bind_Returned [simp]:
  "run_bind m f s = (Returned x, t) \<longleftrightarrow> (\<exists>y u. m s = (Returned y, u) \<and> f y u = (Returned x, t))"
  by (auto simp: run_bind_def run_try_Returned run_throw_def)

lemma run_simple_Returned [simp]:
  "run_return x s = (Returned y, t) \<longleftrightarrow> y = x \<and> t = s"
  "run_throw e s = (Returned y, t) \<longleftrightarrow> False"
  "run_waiting s = (Returned y, t) \<longleftrightarrow> False"
  "run_get f s = (Returned z, t) \<longleftrightarrow> z = f s \<and> t = s"
  "run_modify g s = (Returned u, t) \<longleftrightarrow> t = g s"
  "run_act a s = (Returned u, t) \<longleftrightarrow> t = s\<lparr>lv_trace := lv_trace s @ [a]\<rparr>"
  "throwIfAborted s = (Returned u, t) \<longleftrightarrow> lv_abort s = None \<and> t = s"
  by (auto simp: run_return_def run_throw_def run_waiting_def run_get_def run_modify_def run_act_def throwIfAborted_def
      split: option.splits)

lemma run_fail_Returned [simp]:
  "fail code m s = (Returned y, t) \<longleftrightarrow> False" "fail_task code m i p ids s = (Returned y, t) \<longleftrightarrow> False"
  "drift_unresolved tk m ids s = (Returned y, t) \<longleftrightarrow> False"
  by (simp_all add: fail_def fail_task_def drift_unresolved_def)

lemma run_lift_Returned [simp]: "run_lift msg tag r s = (Returned x, t) \<longleftrightarrow> r = Inr x \<and> t = s"
  by (cases r) (auto simp: run_lift_def)

lemma run_finally_Returned [simp]:
  "run_finally m g s = (Returned x, t) \<longleftrightarrow> (\<exists>u. m s = (Returned x, u) \<and> t = g u)"
  by (auto simp: run_finally_def run_try_Returned)

lemma with_lease_Returned:
  "with_lease en access m s = (Returned x, t) \<longleftrightarrow>
     (\<exists>u v. acquireRepository en access s = (Returned (), u) \<and> m u = (Returned x, v) \<and> t = give_back access v)"
  by (auto simp: with_lease_def)

text \<open>A loop that ends: an invariant of its rounds holds before the one that ended it.\<close>

lemma run_loop_ended:
  assumes "I a s" and "\<And>a s a' t. I a s \<Longrightarrow> body a s = (Returned (Inr a'), t) \<Longrightarrow> I a' t"
    and "run_loop n body a s = (Returned b, t)"
  shows "\<exists>a' u. I a' u \<and> body a' u = (Returned (Inl b), t)"
  using assms(1,3)
proof (induction n arbitrary: a s)
  case (Suc n)
  then obtain r u where r: "body a s = (Returned r, u)"
    "(case r of Inl b \<Rightarrow> run_return b | Inr a' \<Rightarrow> run_loop n body a') u = (Returned b, t)"
    unfolding run_loop.simps run_bind_Returned by blast
  show ?case
  proof (cases r)
    case (Inl b')
    then have "body a s = (Returned (Inl b), t)" using r by auto
    then show ?thesis using Suc.prems(1) by blast
  next
    case (Inr a')
    then have "I a' u" "run_loop n body a' u = (Returned b, t)" using assms(2) [OF Suc.prems(1)] r by simp_all
    then show ?thesis by (rule Suc.IH)
  qed
qed simp

lemma run_forever_ended:
  assumes "run_forever body a s = (Returned b, t)" and "I a s"
    and "\<And>a s a' t. I a s \<Longrightarrow> body a s = (Returned (Inr a'), t) \<Longrightarrow> I a' t"
  shows "\<exists>a' u. I a' u \<and> body a' u = (Returned (Inl b), t)"
  using run_loop_ended [of I a s body _ b t, OF assms(2,3)] assms(1) by (auto simp: run_forever_def)

section \<open>The trace and the script\<close>

definition advances :: "live_run \<Rightarrow> live_run \<Rightarrow> bool" where
  "advances s t \<longleftrightarrow> (\<exists>seg. lv_trace t = lv_trace s @ seg) \<and> length (lv_script t) \<le> length (lv_script s)"

lemma advances_trans: "advances s t \<Longrightarrow> advances t u \<Longrightarrow> advances s u"
  by (auto simp: advances_def)

lemma happen_trace [simp]: "lv_trace (happen en m s) = lv_trace s" "lv_script (happen en m s) = lv_script s"
  "lv_leases (happen en m s) = lv_leases s" "lv_runId (happen en m s) = lv_runId s"
  by (cases m; simp add: Let_def)+

interpretation advance_steps: run_steps en True advances
  for en
  by unfold_locales
    (auto simp: advances_def same_core_def take_lease_def give_back_def intro: advances_trans)

interpretation advance: run_relation en True advances
  for en
  by unfold_locales (rule advance_steps.keepsE, rule advance_steps.keep_any_check, auto simp: advances_def)

text \<open>What a method did: the actions it added to the trace.\<close>

definition new_actions :: "live_run \<Rightarrow> live_run \<Rightarrow> run_action list" where
  "new_actions s t = drop (length (lv_trace s)) (lv_trace t)"

lemma new_actions_mono:
  assumes "advances s u" and "advances u v" and "advances v t"
  shows "set (new_actions u v) \<subseteq> set (new_actions s t)"
  using assms by (auto simp: advances_def new_actions_def)

lemma advances_refl: "advances s s"
  by (simp add: advances_def)

section \<open>Leases\<close>

definition leases_kept :: "live_run \<Rightarrow> live_run \<Rightarrow> bool" where
  "leases_kept s t \<longleftrightarrow> lv_leases t = lv_leases s"

interpretation lease_steps: run_steps en False leases_kept
  for en
  by unfold_locales (auto simp: leases_kept_def same_core_def take_lease_def give_back_def)

interpretation leases: run_relation en False leases_kept
  for en
  by unfold_locales (rule lease_steps.keepsE, rule lease_steps.keep_any_check, auto simp: leases_kept_def)

lemma settled_case:
  "(fst p \<noteq> Waiting \<Longrightarrow> Q (snd p)) \<Longrightarrow> (case p of (Waiting, t) \<Rightarrow> True | (_, t) \<Rightarrow> Q t)"
  by (cases p; cases "fst p") simp_all

text \<open>C16. Every lease is given back. However a run or one of its tasks ends, by a value, an error or an
  abort, it holds the repository leases it held when it began: those it acquired are released, also on
  the error paths.\<close>

theorem leases_are_returned:
  "(case execute en s of (Waiting, t) \<Rightarrow> True | (_, t) \<Rightarrow> lv_leases t = lv_leases s) \<and>
   (case runTask en tk path hash s of (Waiting, t) \<Rightarrow> True | (_, t) \<Rightarrow> lv_leases t = lv_leases s)"
  by (intro conjI settled_case lease_steps.keepsE [OF leases.keep_execute, unfolded leases_kept_def]
      lease_steps.keepsE [OF leases.keep_task, unfolded leases_kept_def]) simp_all

section \<open>What completion means\<close>

definition command_check :: "check_result \<Rightarrow> (string \<times> string) option" where
  "command_check r = (case cr_check r of CommandCheck c d \<Rightarrow> Some (c, d) | EvidenceCheck _ _ \<Rightarrow> None)"

text \<open>The results of checks are those of the commands the trace shows.\<close>

definition result_seen :: "run_action list \<Rightarrow> check_result \<Rightarrow> bool" where
  "result_seen tr r = (case cr_check r of
      EvidenceCheck _ _ \<Rightarrow> True
    | CommandCheck c d \<Rightarrow> cr_executed r \<longrightarrow> (\<exists>code. cr_exitCode r = Some code \<and> CommandEnded c d code \<in> set tr))"

lemma result_seen_mono: "result_seen tr r \<Longrightarrow> set tr \<subseteq> set tr' \<Longrightarrow> result_seen tr' r"
  by (auto simp: result_seen_def split: orch_check.splits)

lemma verification_result:
  "runVerificationCheck en command cwd s = (Returned r, t) \<Longrightarrow> cr_check r = CommandCheck command cwd \<and> result_seen (new_actions s t) r"
proof -
  assume "runVerificationCheck en command cwd s = (Returned r, t)"
  then obtain u code out where
    u: "run_await en (\<lambda>r. case r of CommandExited c out \<Rightarrow> Some (c, out) | _ \<Rightarrow> None)
        (s\<lparr>lv_trace := lv_trace s @ [RanCommand command cwd]\<rparr>) = (Returned (code, out), u)" and
    r: "t = u\<lparr>lv_trace := lv_trace u @ [CommandEnded command cwd code]\<rparr>"
      "cr_check r = CommandCheck command cwd" "cr_exitCode r = Some code"
    by (auto simp: runVerificationCheck_def split: option.splits prod.splits)
  have "advances s u"
    using advance_steps.keepsD [OF advance_steps.keep_await u] by (auto simp: advances_def)
  then have "CommandEnded command cwd code \<in> set (new_actions s t)" using r(1) by (auto simp: advances_def new_actions_def)
  then show ?thesis using r by (simp add: result_seen_def)
qed

lemma check_result_of:
  "run_check en taskId c s = (Returned r, t) \<Longrightarrow> cr_check r = c \<and> result_seen (new_actions s t) r"
proof (cases c)
  case (CommandCheck command cwd)
  assume "run_check en taskId c s = (Returned r, t)"
  then obtain denial u where d: "checkDenial en command cwd taskId s = (Returned denial, u)" and "(case denial of None \<Rightarrow> runVerificationCheck en command cwd
      | Some reason \<Rightarrow> run_return (unexecutedCheck c (''Not run: '' @ reason))) u = (Returned r, t)"
    unfolding run_check_def CommandCheck orch_check.case run_bind_Returned by blast
  moreover have "result_seen (new_actions s t) r" if v: "runVerificationCheck en command cwd u = (Returned r, t)"
  proof -
    have "advances u t" by (rule advance_steps.keepsD [OF advance_steps.keep_any_verification v]) (simp_all add: advances_def)
    moreover have "advances s u" using advance_steps.keepsD [OF advance_steps.keep_denial d] by simp
    ultimately show ?thesis using result_seen_mono verification_result [OF v] new_actions_mono advances_refl by blast
  qed
  ultimately show ?thesis
    using verification_result [of en command cwd u r t]
    by (cases denial) (auto simp: CommandCheck unexecutedCheck_def result_seen_def)
qed (simp add: run_check_def unexecutedCheck_def result_seen_def)

lemma checks_results:
  "runChecks en taskId cs s = (Returned rs, t) \<Longrightarrow> map cr_check rs = cs \<and> list_all (result_seen (new_actions s t)) rs"
proof (induction cs arbitrary: s rs t)
  case (Cons c cs)
  then obtain r u rs' where r: "run_check en taskId c s = (Returned r, u)" "runChecks en taskId cs u = (Returned rs', t)" "rs = r # rs'"
    by auto
  have "advances s u" "advances u t"
    using advance_steps.keepsD [OF advance.keep_check r(1)] advance_steps.keepsD [OF advance.keep_checks r(2)] by simp_all
  then have "set (new_actions s u) \<subseteq> set (new_actions s t)" "set (new_actions u t) \<subseteq> set (new_actions s t)"
    using new_actions_mono advances_refl by blast+
  then have "result_seen (new_actions s t) r" "list_all (result_seen (new_actions s t)) rs'"
    using check_result_of [OF r(1)] Cons.IH [OF r(2)] result_seen_mono by (auto simp: list_all_iff)
  then show ?case using check_result_of [OF r(1)] Cons.IH [OF r(2)] r(3) by simp
qed simp

lemma evaluate_passed:
  assumes "run_evaluate en st checks vs review s = (Returned (True, fs), t)"
  shows "list_all command_passed checks" and "st = WorkerCompleted"
proof -
  from assms have "evaluateAttempt (dk_files (lv_disk s)) (en_root en) st checks vs review = Inr (True, fs)"
    by (simp add: run_evaluate_def)
  then have "check_findings checks = []" "st = WorkerCompleted"
    by (auto simp: evaluateAttempt_def Let_def split: if_splits option.splits)
  then show "list_all command_passed checks" "st = WorkerCompleted" by (simp_all add: failed_checks_Nil)
qed

lemma passed_command_seen:
  assumes "result_seen tr r" and "command_passed r" and "cr_check r = CommandCheck c d"
  shows "CommandEnded c d 0 \<in> set tr"
  using assms by (auto simp: result_seen_def command_passed_def is_evidence_check_def)

definition commands_succeeded :: "orch_check list \<Rightarrow> run_action list \<Rightarrow> bool" where
  "commands_succeeded checks tr =
     list_all (\<lambda>c. case c of EvidenceCheck _ _ \<Rightarrow> True | CommandCheck command cwd \<Rightarrow> CommandEnded command cwd 0 \<in> set tr) checks"

lemma commands_succeeded_mono:
  "commands_succeeded checks tr \<Longrightarrow> set tr \<subseteq> set tr' \<Longrightarrow> commands_succeeded checks tr'"
  by (auto simp: commands_succeeded_def list_all_iff split: orch_check.splits)

lemma results_succeeded:
  assumes "list_all (result_seen tr) rs" and "list_all command_passed rs"
  shows "commands_succeeded (map cr_check rs) tr"
  using assms passed_command_seen by (auto simp: commands_succeeded_def list_all_iff split: orch_check.split)

lemma final_verified:
  assumes "verifyFinal en plan s = (Returned (), t)"
  shows "commands_succeeded (plan_finalVerification plan) (new_actions s t)"
proof -
  from assms obtain u1 u2 checks u3 review u4 fs v where R:
    "commit_phase en Verifying ''Running final verification.'' s = (Returned (), u1)"
    "acquireRepository en Exclusive u1 = (Returned (), u2)"
    "runChecks en None (plan_finalVerification plan) u2 = (Returned checks, u3)"
    "review_if_needed en None checks u3 = (Returned review, u4)"
    "run_evaluate en WorkerCompleted checks [] review u4 = (Returned (True, fs), v)" "t = give_back Exclusive v"
    by (auto simp: verifyFinal_def with_lease_Returned split: if_splits prod.splits)
  have acq: "advance_steps.keeps (acquireRepository en Exclusive)"
    unfolding acquireRepository_def
    by (intro advance_steps.keep_bind advance_steps.keep_simple advance_steps.keep_await advance_steps.keep_modify)
      (simp add: advances_def)
  have "advances s u1" "advances u1 u2" "advances u2 u3" "advances u3 u4" "advances u4 v" "advances v t"
    using advance_steps.keepsD [OF advance_steps.keep_phases(1) R(1)] advance_steps.keepsD [OF acq R(2)]
      advance_steps.keepsD [OF advance.keep_checks R(3)] advance_steps.keepsD [OF advance.keep_reviewed R(4)]
      advance_steps.keepsD [OF advance.keep_evaluate R(5)] by (simp_all add: R(6) advances_def give_back_def)
  then have "set (new_actions u2 u3) \<subseteq> set (new_actions s t)" using new_actions_mono advances_trans by metis
  moreover have "commands_succeeded (plan_finalVerification plan) (new_actions u2 u3)"
    using checks_results [OF R(3)] evaluate_passed(1) [OF R(5)] results_succeeded by metis
  ultimately show ?thesis using commands_succeeded_mono by blast
qed

text \<open>A plan that is executed was validated against the checkout as it was then.\<close>

lemma accepted_plan:
  assumes "accept_plan en supplied preparation p s = (Returned (Inr plan), t)"
  shows "\<exists>files. validateOrchestratorPlan p (en_config en) files (en_root en) = Inr plan"
proof -
  from assms obtain u where "(case validateOrchestratorPlan p (en_config en) (file_system.truncate (dk_files (lv_disk u))) (en_root en) of
       Inl e \<Rightarrow> let m = en_message en (PlanRefused e) in
         run_bind (commit_phase en PreparingPlan (''Plan rejected: '' @ m)) (\<lambda>_. run_return (Inl [m]))
     | Inr plan \<Rightarrow>
         run_bind (findUnrunnableChecks en (plan_checks plan)) (\<lambda>unrunnable.
         if unrunnable \<noteq> []
         then run_bind (commit_phase en PreparingPlan (''Plan rejected: '' @ hd unrunnable)) (\<lambda>_. run_return (Inl unrunnable))
         else run_bind (save_plan en supplied preparation plan) (\<lambda>_. run_return (Inr plan)))) u = (Returned (Inr plan), t)"
    unfolding accept_plan_def run_bind_Returned run_simple_Returned by blast
  then show ?thesis
    by (cases "validateOrchestratorPlan p (en_config en) (file_system.truncate (dk_files (lv_disk u))) (en_root en)")
      (auto simp: Let_def split: if_splits)
qed

lemma plan_loop_validated:
  "plan_loop en supplied n rejected s = (Returned plan, t) \<Longrightarrow>
     \<exists>p files. validateOrchestratorPlan p (en_config en) files (en_root en) = Inr plan"
proof (induction n arbitrary: rejected s)
  case (Suc n)
  have accept: ?case if "run_bind (accept_plan en supplied pr p) (\<lambda>r. case r of
      Inl problems \<Rightarrow> plan_loop en supplied n problems | Inr plan \<Rightarrow> run_return plan) u = (Returned plan, t)" for pr p u
  proof -
    from that obtain r v where r: "accept_plan en supplied pr p u = (Returned r, v)"
      "(case r of Inl problems \<Rightarrow> plan_loop en supplied n problems | Inr plan \<Rightarrow> run_return plan) v = (Returned plan, t)"
      unfolding run_bind_Returned by blast
    show ?thesis
    proof (cases r)
      case (Inl problems)
      then show ?thesis using r(2) Suc.IH by simp
    next
      case (Inr plan')
      then have "accept_plan en supplied pr p u = (Returned (Inr plan), v)" using r by simp
      then show ?thesis using accepted_plan by blast
    qed
  qed
  from Suc.prems obtain reply u where u: "(case reply of
       Inl problems \<Rightarrow> plan_loop en supplied n problems
     | Inr (PlanBlocked reason) \<Rightarrow> fail FPlanBlocked (''The plan could not be prepared: '' @ reason)
     | Inr (PlanReady p) \<Rightarrow> run_bind (accept_plan en supplied (PlanReady p) p) (\<lambda>r.
         case r of Inl problems \<Rightarrow> plan_loop en supplied n problems | Inr plan \<Rightarrow> run_return plan)
     | Inr (PlanGenerated p issues) \<Rightarrow> run_bind (accept_plan en supplied (PlanGenerated p issues) p) (\<lambda>r.
         case r of Inl problems \<Rightarrow> plan_loop en supplied n problems | Inr plan \<Rightarrow> run_return plan)) u = (Returned plan, t)"
    unfolding plan_loop.simps run_bind_Returned by blast
  show ?case
  proof (cases reply)
    case (Inl problems)
    then show ?thesis using u Suc.IH by simp
  next
    case (Inr prep)
    then show ?thesis using u accept by (cases prep) (simp_all del: run_bind_Returned)
  qed
qed simp

lemma prepared_plan_validated:
  "preparePlan en s = (Returned plan, t) \<Longrightarrow>
     \<exists>p files. validateOrchestratorPlan p (en_config en) files (en_root en) = Inr plan"
  by (auto simp: preparePlan_def dest: plan_loop_validated)

lemma executed_tasks_finished: "executeTasks en plan s = (Returned (), t) \<Longrightarrow> unfinished (lv_state t) = []"
proof -
  assume "executeTasks en plan s = (Returned (), t)"
  then have "run_forever (schedule_round en plan) [] s = (Returned (), t)" by (auto simp: executeTasks_def split: if_splits)
  then obtain a u where "schedule_round en plan a u = (Returned (Inl ()), t)"
    using run_forever_ended [of "schedule_round en plan" "[]" s "()" t "\<lambda>_ _. True"] by auto
  then show ?thesis by (auto simp: schedule_round_def Let_def run_try_Returned split: if_splits)
qed


section \<open>Store and approvals\<close>

text \<open>The run is stored, and its request is the one it was started with.\<close>

definition live_ok :: "live_run \<Rightarrow> bool" where
  "live_ok s \<longleftrightarrow> store_ok (lv_store s) \<and>
     (\<exists>row. st_runs (lv_store s) (lv_runId s) = Some row \<and> rs_request (row_state row) = rs_request (lv_state s))"

definition approved_by :: "run_action option \<Rightarrow> string \<Rightarrow> string \<Rightarrow> bool" where
  "approved_by prev command cwd \<longleftrightarrow> (case prev of
      Some (Decided (CheckApproval _ _ c d) Approve) \<Rightarrow> c = command \<and> d = cwd | _ \<Rightarrow> False)"

text \<open>Every command is run right after the approval of that command in that directory.\<close>

fun commands_approved :: "run_action option \<Rightarrow> run_action list \<Rightarrow> bool" where
  "commands_approved prev [] = True"
| "commands_approved prev (a # as) =
     ((case a of RanCommand c d \<Rightarrow> approved_by prev c d | _ \<Rightarrow> True) \<and> commands_approved (Some a) as)"

lemma commands_approved_weaken: "commands_approved None as \<Longrightarrow> commands_approved prev as"
  by (cases as) (auto simp: approved_by_def split: run_action.splits)

lemma commands_approved_append:
  "commands_approved prev as \<Longrightarrow> commands_approved None bs \<Longrightarrow> commands_approved prev (as @ bs)"
  by (induction as arbitrary: prev) (auto intro: commands_approved_weaken)

lemma commands_approved_command:
  "commands_approved prev as \<Longrightarrow> as \<noteq> [] \<Longrightarrow> approved_by (Some (last as)) c d \<Longrightarrow> commands_approved None bs \<Longrightarrow>
     commands_approved prev (as @ RanCommand c d # bs)"
proof (induction as arbitrary: prev)
  case (Cons a as)
  then show ?case by (cases "as = []") (auto intro: commands_approved_weaken)
qed simp

lemma no_command_approved: "list_all (\<lambda>a. \<not> is_command a) as \<Longrightarrow> commands_approved prev as"
  by (induction as arbitrary: prev) (auto simp: is_command_def split: run_action.splits)

definition run_rel :: "live_run \<Rightarrow> live_run \<Rightarrow> bool" where
  "run_rel s t \<longleftrightarrow> (live_ok s \<longrightarrow> live_ok t \<and> lv_runId t = lv_runId s \<and> rs_request (lv_state t) = rs_request (lv_state s) \<and>
     store_grows (lv_store s) (lv_store t) \<and> attempts_persist (lv_store s) (lv_store t) \<and>
     (\<exists>seg. lv_trace t = lv_trace s @ seg \<and> (rq_approval (rs_request (lv_state s)) \<noteq> ''off'' \<longrightarrow> commands_approved None seg)))"

lemma run_rel_trans:
  assumes "run_rel s t" and "run_rel t u"
  shows "run_rel s u"
  unfolding run_rel_def
proof (intro impI)
  assume ok: "live_ok s"
  from assms(1) ok obtain seg1 where 1: "live_ok t" "lv_runId t = lv_runId s" "rs_request (lv_state t) = rs_request (lv_state s)"
    "store_grows (lv_store s) (lv_store t)" "attempts_persist (lv_store s) (lv_store t)" "lv_trace t = lv_trace s @ seg1"
    "rq_approval (rs_request (lv_state s)) \<noteq> ''off'' \<longrightarrow> commands_approved None seg1" unfolding run_rel_def by blast
  from assms(2) 1(1) obtain seg2 where 2: "live_ok u" "lv_runId u = lv_runId t" "rs_request (lv_state u) = rs_request (lv_state t)"
    "store_grows (lv_store t) (lv_store u)" "attempts_persist (lv_store t) (lv_store u)" "lv_trace u = lv_trace t @ seg2"
    "rq_approval (rs_request (lv_state t)) \<noteq> ''off'' \<longrightarrow> commands_approved None seg2" unfolding run_rel_def by blast
  have "store_grows (lv_store s) (lv_store u)" using 1(4) 2(4) by (rule store_grows_trans)
  moreover have "attempts_persist (lv_store s) (lv_store u)" using 1(5) 2(5) by (rule persist_trans)
  ultimately show "live_ok u \<and> lv_runId u = lv_runId s \<and> rs_request (lv_state u) = rs_request (lv_state s) \<and>
     store_grows (lv_store s) (lv_store u) \<and> attempts_persist (lv_store s) (lv_store u) \<and>
     (\<exists>seg. lv_trace u = lv_trace s @ seg \<and> (rq_approval (rs_request (lv_state s)) \<noteq> ''off'' \<longrightarrow> commands_approved None seg))"
    using 1 2 by (intro conjI exI [of _ "seg1 @ seg2"]) (auto intro: commands_approved_append)
qed

lemma run_rel_trace:
  "lv_store t = lv_store s \<Longrightarrow> lv_state t = lv_state s \<Longrightarrow> lv_runId t = lv_runId s \<Longrightarrow>
     lv_trace t = lv_trace s @ seg \<Longrightarrow> list_all (\<lambda>a. \<not> is_command a) seg \<Longrightarrow> run_rel s t"
  by (auto simp: run_rel_def live_ok_def store_grows_refl persist_refl intro: no_command_approved)

lemma run_rel_store:
  assumes "store_ok (lv_store s) \<Longrightarrow> store_ok st \<and> store_grows (lv_store s) st \<and> attempts_persist (lv_store s) st"
    and "r = lv_state s \<or> read_run st (lv_runId s) = Inr r"
  shows "run_rel s (s\<lparr>lv_store := st, lv_state := r\<rparr>)"
  unfolding run_rel_def
proof (intro impI)
  assume ok: "live_ok s"
  then obtain row where row: "st_runs (lv_store s) (lv_runId s) = Some row" "rs_request (row_state row) = rs_request (lv_state s)"
    by (auto simp: live_ok_def)
  have st: "store_ok st" "store_grows (lv_store s) st" "attempts_persist (lv_store s) st" using assms(1) ok by (auto simp: live_ok_def)
  then have "run_grows (lv_store s) st (lv_runId s) row" using row(1) by (simp add: store_grows_def)
  then obtain row' where row': "st_runs st (lv_runId s) = Some row'" "rs_request (row_state row') = rs_request (row_state row)"
    by (auto simp: run_grows_def)
  then have "rs_request r = rs_request (lv_state s)"
    using assms(2) row(2) by (auto simp: read_run_def)
  then show "live_ok (s\<lparr>lv_store := st, lv_state := r\<rparr>) \<and> lv_runId (s\<lparr>lv_store := st, lv_state := r\<rparr>) = lv_runId s \<and>
      rs_request (lv_state (s\<lparr>lv_store := st, lv_state := r\<rparr>)) = rs_request (lv_state s) \<and>
      store_grows (lv_store s) (lv_store (s\<lparr>lv_store := st, lv_state := r\<rparr>)) \<and>
      attempts_persist (lv_store s) (lv_store (s\<lparr>lv_store := st, lv_state := r\<rparr>)) \<and>
      (\<exists>seg. lv_trace (s\<lparr>lv_store := st, lv_state := r\<rparr>) = lv_trace s @ seg \<and>
         (rq_approval (rs_request (lv_state s)) \<noteq> ''off'' \<longrightarrow> commands_approved None seg))"
    using st row row' by (simp add: live_ok_def)
qed

lemma run_rel_step:
  "st = store_step d ev (lv_store s) \<Longrightarrow> r = lv_state s \<or> read_run st (lv_runId s) = Inr r \<Longrightarrow>
     run_rel s (s\<lparr>lv_store := st, lv_state := r\<rparr>)"
  by (rule run_rel_store) (simp_all add: store_step_ok store_step_grows store_step_persist)

lemma run_rel_happen: "run_rel s (happen en m s)"
proof (cases m)
  case (OtherWrite ev)
  then show ?thesis using run_rel_step [OF refl, where s = s and r = "lv_state s" and d = "en_digest en" and ev = ev] by simp
next
  case (SiblingWrite ev)
  let ?st = "store_step (en_digest en) ev (lv_store s)"
  show ?thesis
    using run_rel_step [OF refl, where s = s and d = "en_digest en" and ev = ev] SiblingWrite
    by (cases "read_run ?st (lv_runId s)") (simp_all add: Let_def)
qed (auto intro!: run_rel_trace [of _ _ "[]"])

lemma run_rel_fresh: "run_rel s (s\<lparr>lv_store := (lv_store s)\<lparr>st_nextId := Suc (st_nextId (lv_store s))\<rparr>\<rparr>)"
  using run_rel_store [of s "(lv_store s)\<lparr>st_nextId := Suc (st_nextId (lv_store s))\<rparr>" "lv_state s"]
  by (simp add: next_id_ok store_grows_def run_grows_def attempts_persist_def)

lemma run_rel_reread: "read_run (lv_store s) (lv_runId s) = Inr r \<Longrightarrow> run_rel s (s\<lparr>lv_state := r\<rparr>)"
  using run_rel_store [of s "lv_store s" r] by (simp add: store_grows_refl persist_refl)

interpretation safe_steps: run_steps en True run_rel
  for en
proof unfold_locales
  fix s t u :: live_run and access and m and a
  show "run_rel s t \<Longrightarrow> run_rel t u \<Longrightarrow> run_rel s u" by (rule run_rel_trans)
  show "same_core s t \<Longrightarrow> run_rel s t" by (rule run_rel_trace [of _ _ "[]"]) (simp_all add: same_core_def)
  show "run_rel s (s\<lparr>lv_script := tl (lv_script s)\<rparr>)" by (rule run_rel_trace [of _ _ "[]"]) simp_all
  show "run_rel s (happen en m s)" by (rule run_rel_happen)
  show "\<not> is_command a \<Longrightarrow> run_rel s (s\<lparr>lv_trace := lv_trace s @ [a]\<rparr>)" by (rule run_rel_trace [of _ _ "[a]"]) simp_all
  show "run_rel s (s\<lparr>lv_store := (lv_store s)\<lparr>st_nextId := Suc (st_nextId (lv_store s))\<rparr>\<rparr>)" by (rule run_rel_fresh)
  show "run_rel s (s\<lparr>lv_store := st, lv_state := r\<rparr>)"
    if "st = store_step (en_digest en) ev (lv_store s)" "read_run st (lv_runId s) = Inr r" for st ev r
    using that by (auto intro: run_rel_step)
  show "run_rel s (s\<lparr>lv_state := r\<rparr>)" if "read_run (lv_store s) (lv_runId s) = Inr r" for r
    using that by (rule run_rel_reread)
  have take: "run_rel s (take_lease access s)"
    by (rule run_rel_trace [of _ _ "[Leased access]"]) (simp_all add: take_lease_def is_command_def)
  then show "run_rel s (take_lease access s)" .
  have give: "run_rel t (give_back access t)"
    by (rule run_rel_trace [of _ _ "[Released access]"]) (simp_all add: give_back_def is_command_def)
  show "run_rel s (give_back access t)" if "run_rel (take_lease access s) t"
    using run_rel_trans [OF take run_rel_trans [OF that give]] .
qed

lemma resolve_decided:
  assumes "resolveApproval en p action s = (Returned d, t)"
  shows "\<exists>u. run_rel s u \<and> t = u\<lparr>lv_trace := lv_trace u @ [Decided p d]\<rparr>"
proof -
  let ?mode = "rq_approval (rs_request (lv_state s))"
  from assms obtain u1 d' u2 u3 where R:
    "commit_approval en (Some p) None ((message_only (''Approval requested: '' @ action))\<lparr>ei_taskId := approval_task p\<rparr>) s
       = (Returned (), u1)"
    "(if rq_approval (rs_request (lv_state u1)) = ''interactive'' then waitForUserDecision en (approval_id p)
       else decideOnParentModel en) u1 = (Returned d', u2)"
    "clear_approval en (rs_phase (lv_state s)) (describeApprovalDecision d') u2 = (Returned (), u3)"
    "(if d' = AbortDecision then run_bind (abort_run ''Aborted by user.'') (\<lambda>_. run_bind throwIfAborted (\<lambda>_. run_waiting))
       else run_return d') (u3\<lparr>lv_trace := lv_trace u3 @ [Decided p d']\<rparr>) = (Returned d, t)"
    by (auto simp: resolveApproval_def run_try_Returned split del: if_split)
  have "d' = d" "t = u3\<lparr>lv_trace := lv_trace u3 @ [Decided p d]\<rparr>" using R(4) by (auto split: if_splits)
  moreover have "run_rel s u1" using safe_steps.keepsD [OF safe_steps.keep_phases(4) R(1)] by simp
  moreover have "run_rel u1 u2"
    using R(2) safe_steps.keepsD [OF safe_steps.keep_user] safe_steps.keepsD [OF safe_steps.keep_decide] by (auto split: if_splits)
  moreover have "run_rel u2 u3" using safe_steps.keepsD [OF safe_steps.keep_clear R(3)] by simp
  ultimately show ?thesis using run_rel_trans by blast
qed

lemma denial_approved:
  assumes "checkDenial en command cwd taskId s = (Returned None, t)"
  shows "rq_approval (rs_request (lv_state s)) = ''off'' \<and> t = s \<or>
    (\<exists>u i. run_rel s u \<and> t = u\<lparr>lv_trace := lv_trace u @ [Decided (CheckApproval i taskId command cwd) Approve]\<rparr>)"
proof (cases "rq_approval (rs_request (lv_state s)) = ''off''")
  case True
  then show ?thesis using assms by (simp add: checkDenial_def)
next
  case False
  with assms obtain i u1 u2 d where R: "fresh_id s = (Returned i, u1)" "await_settled en u1 = (Returned (), u2)"
    "resolveApproval en (CheckApproval i taskId command cwd) (''run '' @ command) u2 = (Returned d, t)"
    "(case d of Deny reason \<Rightarrow> Some reason | _ \<Rightarrow> None) = None"
    by (auto simp: checkDenial_def answerApproval_def)
  obtain u where u: "run_rel u2 u" "t = u\<lparr>lv_trace := lv_trace u @ [Decided (CheckApproval i taskId command cwd) d]\<rparr>"
    using resolve_decided [OF R(3)] by blast
  have "d = Approve"
  proof (cases d)
    case AbortDecision
    have "resolveApproval en (CheckApproval i taskId command cwd) (''run '' @ command) u2 \<noteq> (Returned AbortDecision, t)"
      unfolding resolveApproval_def run_bind_Returned run_try_Returned run_simple_Returned by (auto split: if_splits)
    then show ?thesis using R(3) AbortDecision by simp
  qed (use R(4) in simp_all)
  moreover have "run_rel s u1" using safe_steps.keepsD [OF safe_steps.keep_fresh R(1)] by simp
  moreover have "run_rel u1 u2" using safe_steps.keepsD [OF safe_steps.keep_settled R(2)] by simp
  ultimately show ?thesis using u run_rel_trans by blast
qed

text \<open>The command of an approved check: one command, then actions that are no commands.\<close>

lemma verification_trace:
  "\<exists>seg. lv_trace (snd (runVerificationCheck en command cwd s)) = lv_trace s @ seg \<and>
     (seg = [] \<or> (\<exists>rest. seg = RanCommand command cwd # rest \<and> list_all (\<lambda>a. \<not> is_command a) rest))"
proof -
  have awaited: "lv_trace (snd (run_await en pick u)) = lv_trace u" for pick :: "run_reply \<Rightarrow> (int \<times> string) option" and u
  proof -
    have "lv_trace (fold (happen en) ms v) = lv_trace v" for ms v
      by (induction ms arbitrary: v) simp_all
    then show ?thesis
      by (auto simp: run_await_def Let_def split: list.split run_reply.split option.split)
  qed
  obtain o1 u where a: "run_await en (\<lambda>r. case r of CommandExited c out \<Rightarrow> Some (c, out) | _ \<Rightarrow> None)
      (s\<lparr>lv_trace := lv_trace s @ [RanCommand command cwd]\<rparr>) = (o1, u)" by fastforce
  have "lv_trace u = lv_trace s @ [RanCommand command cwd]" using awaited a by (metis (no_types, lifting) snd_conv live_run.simps(12) live_run.select_convs(12) live_run.surjective live_run.update_convs(12))
  then show ?thesis
    using a
    by (cases "resolveRepoScopedPath (file_system.truncate (dk_files (lv_disk s))) (en_root en) (Some cwd)"; cases o1)
      (auto simp: runVerificationCheck_def run_bind_def run_try_def run_get_def run_lift_def run_throw_def run_return_def
        run_act_def run_modify_def throwIfAborted_def is_command_def split: option.splits prod.splits)
qed

text \<open>The part of the relation that does not look at the trace.\<close>

definition core_rel :: "live_run \<Rightarrow> live_run \<Rightarrow> bool" where
  "core_rel s t \<longleftrightarrow> (live_ok s \<longrightarrow> live_ok t \<and> lv_runId t = lv_runId s \<and> rs_request (lv_state t) = rs_request (lv_state s) \<and>
     store_grows (lv_store s) (lv_store t) \<and> attempts_persist (lv_store s) (lv_store t))"

lemma core_of_run: "run_rel s t \<Longrightarrow> core_rel s t"
  by (auto simp: run_rel_def core_rel_def)

lemma core_trans: "core_rel s t \<Longrightarrow> core_rel t u \<Longrightarrow> core_rel s u"
  by (auto simp: core_rel_def intro: store_grows_trans persist_trans)

lemma core_trace: "core_rel s (s\<lparr>lv_trace := tr\<rparr>)"
  by (simp add: core_rel_def live_ok_def store_grows_refl persist_refl)

interpretation core_steps: run_steps en True core_rel
  for en
proof unfold_locales
  fix s t u :: live_run and access and m and a
  note S = safe_steps.R_core safe_steps.R_script safe_steps.R_happen safe_steps.R_fresh safe_steps.R_write safe_steps.R_reread
  show "core_rel s t \<Longrightarrow> core_rel t u \<Longrightarrow> core_rel s u" by (rule core_trans)
  show "same_core s t \<Longrightarrow> core_rel s t" by (intro core_of_run S(1))
  show "core_rel s (s\<lparr>lv_script := tl (lv_script s)\<rparr>)" by (intro core_of_run S(2))
  show "core_rel s (happen en m s)" by (intro core_of_run S(3))
  show "core_rel s (s\<lparr>lv_trace := lv_trace s @ [a]\<rparr>)" by (rule core_trace)
  show "core_rel s (s\<lparr>lv_store := (lv_store s)\<lparr>st_nextId := Suc (st_nextId (lv_store s))\<rparr>\<rparr>)" by (intro core_of_run S(4))
  show "core_rel s (s\<lparr>lv_store := st, lv_state := r\<rparr>)"
    if "st = store_step (en_digest en) ev (lv_store s)" "read_run st (lv_runId s) = Inr r" for st ev r
    using that by (intro core_of_run S(5))
  show "core_rel s (s\<lparr>lv_state := r\<rparr>)" if "read_run (lv_store s) (lv_runId s) = Inr r" for r
    using that by (intro core_of_run S(6))
  show take: "core_rel s (take_lease access s)" by (intro core_of_run safe_steps.R_leased) simp
  show "core_rel s (give_back access t)" if "core_rel (take_lease access s) t"
    using core_trans [OF take core_trans [OF that]] by (auto simp: core_rel_def live_ok_def give_back_def store_grows_refl persist_refl)
qed

lemma run_rel_from_core:
  "core_rel s t \<Longrightarrow> lv_trace t = lv_trace s @ seg \<Longrightarrow> rq_approval (rs_request (lv_state s)) \<noteq> ''off'' \<longrightarrow> commands_approved None seg \<Longrightarrow>
     run_rel s t"
  by (auto simp: run_rel_def core_rel_def)

lemma check_safe: "run_rel s (snd (run_check en taskId c s))"
proof (cases c)
  case (EvidenceCheck x y)
  then show ?thesis by (simp add: run_check_def run_return_def safe_steps.R_refl)
next
  case (CommandCheck command cwd)
  obtain o1 s1 where d: "checkDenial en command cwd taskId s = (o1, s1)" by (cases "checkDenial en command cwd taskId s")
  have s1: "run_rel s s1" using safe_steps.keepsD [OF safe_steps.keep_denial d] by simp
  have eq: "run_check en taskId c s = (case o1 of
      Returned denial \<Rightarrow> (case denial of None \<Rightarrow> runVerificationCheck en command cwd
        | Some reason \<Rightarrow> run_return (unexecutedCheck c (''Not run: '' @ reason))) s1
    | Thrown e \<Rightarrow> (Thrown e, s1) | Waiting \<Rightarrow> (Waiting, s1))"
    by (simp only: run_check_def CommandCheck orch_check.case run_bind_result [where m = "checkDenial en command cwd taskId" and s = s, OF d])
  show ?thesis
  proof (cases "o1 = Returned None")
    case False
    then show ?thesis using s1 by (cases o1) (auto simp: eq run_return_def split: option.splits)
  next
    case True
    let ?t = "snd (runVerificationCheck en command cwd s1)"
    have core: "core_rel s1 ?t"
      by (rule core_steps.keepsE [OF core_steps.keep_any_verification [OF core_trace]]) simp
    obtain seg where seg: "lv_trace ?t = lv_trace s1 @ seg"
      "seg = [] \<or> (\<exists>rest. seg = RanCommand command cwd # rest \<and> list_all (\<lambda>a. \<not> is_command a) rest)"
      using verification_trace [of en command cwd s1] by blast
    have res: "snd (run_check en taskId c s) = ?t" by (simp add: eq True)
    from denial_approved [OF d [unfolded True]] show ?thesis
    proof (elim disjE exE conjE)
      assume "rq_approval (rs_request (lv_state s)) = ''off''" "s1 = s"
      then show ?thesis unfolding res using core seg(1) by (intro run_rel_from_core) auto
    next
      fix u i assume u: "run_rel s u" "s1 = u\<lparr>lv_trace := lv_trace u @ [Decided (CheckApproval i taskId command cwd) Approve]\<rparr>"
      let ?d = "Decided (CheckApproval i taskId command cwd) Approve"
      have "commands_approved None (?d # seg)"
        using seg(2) by (auto simp: approved_by_def intro: no_command_approved)
      moreover have "core_rel u ?t" using core_trans [OF core_trace core [unfolded u(2)]] unfolding u(2) .
      moreover have "lv_trace ?t = lv_trace u @ (?d # seg)" using seg(1) u(2) by simp
      ultimately have "run_rel u ?t" by (intro run_rel_from_core) auto
      then show ?thesis unfolding res by (rule run_rel_trans [OF u(1)])
    qed
  qed
qed

interpretation safe: run_relation en True run_rel
  for en
  by unfold_locales (rule check_safe)


section \<open>How a run settles\<close>

lemma mutate_fresh:
  assumes "read_run s i = Inr cur" and "\<not> isOrchestratorTerminalPhase (rs_phase cur)"
  shows "\<exists>r s'. update_run i (rs_revision cur) c e s = Inr (r, s') \<and>
    rs_phase r = rs_phase (apply_changes c cur) \<and> rs_failure r = rs_failure (apply_changes c cur) \<and>
    rs_approval r = rs_approval (apply_changes c cur) \<and>
    (stopped (rs_phase r) \<or> rs_tasks r = rs_tasks (apply_changes c cur))"
proof -
  obtain row where row: "st_runs s i = Some row" using assms(1) by (auto simp: read_run_def split: option.splits)
  have runs: "st_runs (abandon_attempts i as s') = st_runs s'" for as s'
    by (induction as arbitrary: s') (auto simp: abandon_attempts_def writeAttempt_def)
  show ?thesis
    using assms row
    by (auto simp: update_run_def mutate_def Let_def read_run_def appendEvent_def put_row_def closeOpenWork_def runs stopped_def)
qed

lemma update_phase:
  assumes "update_run i v c e s = Inr (r, s')" and "ch_phase c = Some p"
  shows "rs_phase r = p"
proof -
  obtain cur where cur: "read_run s i = Inr cur" "rs_revision cur = v" "\<not> isOrchestratorTerminalPhase (rs_phase cur)"
    using assms(1) by (auto simp: update_run_def mutate_def split: option.splits if_splits)
  then show ?thesis using mutate_fresh [OF cur(1,3), of c e] assms by (auto simp: apply_changes_def)
qed

lemma commit_outcome_result:
  assumes "read_run (lv_store s) (lv_runId s) = Inr (lv_state s)" and "\<not> isOrchestratorTerminalPhase (rs_phase (lv_state s))"
  shows "\<exists>r t. commit_outcome en p f s = (Returned (), t) \<and> lv_runId t = lv_runId s \<and>
    read_run (lv_store t) (lv_runId s) = Inr r \<and> rs_phase r = p \<and> rs_failure r = Some f \<and> rs_approval r = None"
proof -
  let ?c = "no_changes\<lparr>ch_phase := Some p, ch_approval := Some None, ch_failure := Some (Some f)\<rparr>"
  obtain r st where "update_run (lv_runId s) (rs_revision (lv_state s)) ?c (message_only (fl_message f)) (lv_store s) = Inr (r, st)"
    "rs_phase r = p" "rs_failure r = Some f" "rs_approval r = None"
    using mutate_fresh [OF assms, of ?c "message_only (fl_message f)"] by (auto simp: apply_changes_def)
  then show ?thesis
    using store_calls_read(1) by (fastforce simp: commit_outcome_def run_commit_def store_call_def)
qed

text \<open>What settling stores, given the run as it was read.\<close>

definition settled_as :: "string option \<Rightarrow> run_error \<Rightarrow> string option \<Rightarrow> orch_run_state \<Rightarrow> orch_run_state \<Rightarrow> bool" where
  "settled_as aborted e problem before after \<longleftrightarrow>
     (if isOrchestratorTerminalPhase (rs_phase before) then after = before
      else rs_approval after = None \<and>
        (case aborted of
           Some reason \<Rightarrow> rs_phase after = AbortedPhase \<and> rs_failure after = Some (failure FAborted (with_cleanup reason problem))
         | None \<Rightarrow> rs_phase after = FailedPhase \<and> rs_failure after = Some ((stored_failure e)
             \<lparr>fl_message := with_cleanup (fl_message (stored_failure e)) problem\<rparr>)))"

lemma settle_result:
  assumes "read_run (lv_store s) (lv_runId s) = Inr cur"
  shows "\<exists>t r. settleFailure en e problem s = (Returned (), t) \<and> lv_runId t = lv_runId s \<and>
    read_run (lv_store t) (lv_runId s) = Inr r \<and> settled_as (lv_abort s) e problem cur r"
proof (cases "isOrchestratorTerminalPhase (rs_phase cur)")
  case True
  then show ?thesis
    using assms by (simp add: settleFailure_def run_bind_def run_try_def run_get_def run_lift_def run_return_def
        run_modify_def settled_as_def)
next
  case False
  let ?s = "s\<lparr>lv_state := cur\<rparr>"
  let ?commit = "case lv_abort s of
      Some reason \<Rightarrow> commit_outcome en AbortedPhase (failure FAborted (with_cleanup reason problem))
    | None \<Rightarrow> commit_outcome en FailedPhase
        ((stored_failure e)\<lparr>fl_message := with_cleanup (fl_message (stored_failure e)) problem\<rparr>)"
  have eq: "settleFailure en e problem s = ?commit ?s"
    using assms False by (simp add: settleFailure_def run_bind_def run_try_def run_get_def run_lift_def run_return_def run_modify_def
        run_throw_def split: option.split outcome.split prod.split)
  have at: "read_run (lv_store ?s) (lv_runId ?s) = Inr (lv_state ?s)" "\<not> isOrchestratorTerminalPhase (rs_phase (lv_state ?s))"
    using assms False by simp_all
  show ?thesis
    using commit_outcome_result [OF at, of en] False
    by (cases "lv_abort s") (fastforce simp: eq settled_as_def)+
qed

text \<open>Every failure is recorded with its reason. When the work of a stored run ends in an error, settling
  it never fails: a run that is already in a terminal phase stays as it is; otherwise its approval is
  cleared and, if the run was aborted, it ends aborted with the abort's reason whatever the error was, and if
  not it ends failed, with the failure the code raised, or with the code for infrastructure or for an
  internal error, and a failed clean-up is appended to the message.\<close>

theorem failure_is_recorded:
  assumes "live_ok s"
  shows "\<exists>before t after. read_run (lv_store s) (lv_runId s) = Inr before \<and>
    settleFailure en e problem s = (Returned (), t) \<and> read_run (lv_store t) (lv_runId s) = Inr after \<and>
    settled_as (lv_abort s) e problem before after"
proof -
  obtain cur where cur: "read_run (lv_store s) (lv_runId s) = Inr cur" using assms by (auto simp: live_ok_def read_run_def)
  then show ?thesis using settle_result [OF cur, of en e problem] by blast
qed

lemma stored_terminal:
  assumes "store_grows st st'" and "read_run st i = Inr r" and "isOrchestratorTerminalPhase (rs_phase r)"
  shows "read_run st' i = Inr r"
proof -
  obtain row where row: "st_runs st i = Some row" "r = (row_state row)\<lparr>rs_attempts := st_attempts st i\<rparr>"
    using assms(2) by (auto simp: read_run_def split: option.splits)
  then have "run_grows st st' i row" using assms(1) by (simp add: store_grows_def)
  then show ?thesis using row assms(3) by (auto simp: run_grows_def read_run_def)
qed

lemma work_completed:
  assumes "execute_work en s = (Returned (), t)"
  shows "\<exists>r. read_run (lv_store t) (lv_runId t) = Inr r \<and> rs_phase r = Completed"
proof -
  from assms obtain u where "run_commit en (\<lambda>_. no_changes\<lparr>ch_phase := Some Completed, ch_failure := Some None\<rparr>)
      (message_only ''Run completed.'') u = (Returned (), t)"
    by (auto simp: execute_work_def split: option.splits)
  then obtain r where r: "update_run (lv_runId u) (rs_revision (lv_state u)) (no_changes\<lparr>ch_phase := Some Completed, ch_failure := Some None\<rparr>)
      (message_only ''Run completed.'') (lv_store u) = Inr (r, lv_store t)" "lv_runId t = lv_runId u"
    by (auto simp: run_commit_def store_call_def split: sum.splits)
  then show ?thesis using store_calls_read(1) [OF r(1)] update_phase [OF r(1)] by simp
qed

text \<open>Stopping never throws, and waits only when nothing more is answered.\<close>

lemma stop_result:
  assumes "stop_children en s = (out, t)"
  shows "out = Returned () \<or> out = Waiting \<and> lv_script s = []"
proof -
  have settled: "fst (await_settled en u) = Returned () \<or> fst (await_settled en u) = Waiting \<and> lv_script u = []" for u
    by (auto simp: await_settled_def run_catch_def run_try_def run_await_def run_return_def Let_def
        split: list.splits run_reply.splits prod.splits outcome.splits)
  let ?s = "s\<lparr>lv_pending := None, lv_trace := lv_trace s @ map AbortedChild (lv_children s)\<rparr>"
  have "stop_children en s = await_settled en ?s"
    by (simp add: stop_children_def abort_children_def run_bind_def run_try_def run_modify_def)
  then have "out = fst (await_settled en ?s)" using assms by (metis fst_conv)
  then show ?thesis using settled [of ?s] by auto
qed

lemma cleanup_result: "\<exists>p t. cleanupRunScratch en s = (Returned p, t)"
  by (simp add: cleanupRunScratch_def run_bind_def run_try_def run_get_def split: prod.split)

text \<open>C13. A run settles in a terminal phase. Whatever it meets, the run never ends in an error. It waits for ever
  only when its work does, or when the children it stopped never settle; otherwise it returns, and the stored run is
  completed, failed, aborted or interrupted, and completed if its work was carried out to the end.\<close>

theorem run_settles_terminal:
  assumes "live_ok s"
  shows "case execute en s of
      (Waiting, t) \<Rightarrow> fst (execute_work en s) = Waiting \<or> lv_script (snd (execute_work en s)) = []
    | (Thrown e, t) \<Rightarrow> False
    | (Returned _, t) \<Rightarrow> \<exists>r. read_run (lv_store t) (lv_runId s) = Inr r \<and> isOrchestratorTerminalPhase (rs_phase r) \<and>
        (fst (execute_work en s) = Returned () \<longrightarrow> rs_phase r = Completed)"
proof -
  obtain o1 s1 where w: "execute_work en s = (o1, s1)" by (cases "execute_work en s")
  obtain o2 s2 where st: "stop_children en s1 = (o2, s2)" by (cases "stop_children en s1")
  have ok: "run_rel s s1" "run_rel s1 s2"
    using safe_steps.keepsD [OF safe.keep_work w] safe_steps.keepsD [OF safe.keep_stop st] by simp_all
  have o2: "o2 = Returned () \<or> o2 = Waiting \<and> lv_script s1 = []" using stop_result [OF st] .
  have id: "live_ok s1" "live_ok s2" "lv_runId s1 = lv_runId s" "lv_runId s2 = lv_runId s" "store_grows (lv_store s1) (lv_store s2)"
    using ok assms by (auto simp: run_rel_def)
  show ?thesis
  proof (cases o1)
    case (Returned x)
    then have "execute en s = (o2, s2)" by (simp add: execute_def run_try_def w st)
    moreover obtain r where "read_run (lv_store s1) (lv_runId s) = Inr r" "rs_phase r = Completed"
      using work_completed [of en s s1] w Returned id(3) by auto
    moreover from this have "read_run (lv_store s2) (lv_runId s) = Inr r"
      using stored_terminal [OF id(5)] by (simp add: isOrchestratorTerminalPhase_def)
    ultimately show ?thesis using o2 w by (auto simp: isOrchestratorTerminalPhase_def)
  next
    case (Thrown e)
    show ?thesis
    proof (cases "o2 = Returned ()")
      case True
      obtain p s3 where c: "cleanupRunScratch en s2 = (Returned p, s3)" using cleanup_result by blast
      let ?p = "case p of None \<Rightarrow> None | Some m \<Rightarrow> Some (''Scratch cleanup also failed: '' @ m)"
      have eq: "execute en s = settleFailure en e ?p s3"
        by (simp add: execute_def run_try_def run_bind_def w Thrown st True c)
      have s3: "live_ok s3" "lv_runId s3 = lv_runId s"
        using safe_steps.keepsD [OF safe.keep_cleanup c] id(2,4) by (auto simp: run_rel_def)
      obtain cur where "read_run (lv_store s3) (lv_runId s3) = Inr cur" using s3(1) by (auto simp: live_ok_def read_run_def)
      from settle_result [OF this, of en e ?p] obtain t r where "settleFailure en e ?p s3 = (Returned (), t)"
        "read_run (lv_store t) (lv_runId s) = Inr r" "settled_as (lv_abort s3) e ?p cur r" using s3(2) by auto
      then show ?thesis using w Thrown
        by (auto simp: eq settled_as_def isOrchestratorTerminalPhase_def split: if_splits option.splits)
    next
      case False
      then show ?thesis using o2 Thrown by (simp add: execute_def run_try_def run_bind_def w st)
    qed
  next
    case Waiting
    then show ?thesis by (simp add: execute_def run_try_def w)
  qed
qed

section \<open>A task is done\<close>

lemma setTask_result:
  assumes "setTask en i change m s = (Returned (), t)"
  shows "rs_tasks (lv_state t) = map (\<lambda>e. if ts_taskId e = i then change e else e) (rs_tasks (lv_state s))"
    and "read_run (lv_store t) (lv_runId t) = Inr (lv_state t)" "lv_runId t = lv_runId s"
proof -
  let ?c = "no_changes\<lparr>ch_tasks := Some (map (\<lambda>e. if ts_taskId e = i then change e else e) (rs_tasks (lv_state s)))\<rparr>"
  let ?ev = "(message_only m)\<lparr>ei_taskId := Some i\<rparr>"
  from assms obtain r st where r: "update_run (lv_runId s) (rs_revision (lv_state s)) ?c ?ev (lv_store s) = Inr (r, st)"
    "t = s\<lparr>lv_store := st, lv_state := r\<rparr>"
    by (auto simp: setTask_def run_commit_def store_call_def split: sum.splits)
  obtain cur where cur: "read_run (lv_store s) (lv_runId s) = Inr cur" "rs_revision cur = rs_revision (lv_state s)"
    "\<not> isOrchestratorTerminalPhase (rs_phase cur)"
    using r(1) by (auto simp: update_run_def mutate_def split: option.splits if_splits)
  show "rs_tasks (lv_state t) = map (\<lambda>e. if ts_taskId e = i then change e else e) (rs_tasks (lv_state s))"
    using mutate_fresh [OF cur(1,3), of ?c ?ev] r cur
    by (auto simp: apply_changes_def no_changes_def stopped_def)
  show "read_run (lv_store t) (lv_runId t) = Inr (lv_state t)" "lv_runId t = lv_runId s"
    using store_calls_read(1) [OF r(1)] r(2) by simp_all
qed

definition drift_cleared :: "string \<Rightarrow> orch_task_state list \<Rightarrow> bool" where
  "drift_cleared i ts \<longleftrightarrow>
     list_all (\<lambda>e. ts_taskId e = i \<longrightarrow> (\<exists>r. ts_driftReview e = Some r \<and> review_findings r = [])) ts"

lemma set_review_clears:
  assumes "setTask en i change m s = (Returned (), t)" and "\<And>e. ts_driftReview (change e) = Some r" and "review_findings r = []"
  shows "drift_cleared i (rs_tasks (lv_state t))"
  using assms(2,3) by (auto simp: drift_cleared_def list_all_iff setTask_result(1) [OF assms(1)])

lemma not_required_findings: "review_findings (not_required tk changes) = []"
  unfolding review_findings_def not_required_def drift_review.select_convs by simp

lemma not_required_clears:
  assumes "drift_not_required en rt changes ev s = (Returned (), t)"
  shows "drift_cleared (task_id (rt_task rt)) (rs_tasks (lv_state t))"
proof -
  from assms obtain m where "setTask en (task_id (rt_task rt))
      (\<lambda>e. e\<lparr>ts_driftReview := Some (not_required (rt_task rt) changes)\<rparr>) m s = (Returned (), t)"
    by (auto simp: drift_not_required_def Let_def split: option.splits)
  then show ?thesis by (rule set_review_clears) (simp, rule not_required_findings)
qed

lemma no_actionable_findings:
  "(case dr_status r of DriftActionable fs \<Rightarrow> Some fs | _ \<Rightarrow> None) = None \<Longrightarrow> review_findings r = []"
  by (cases "dr_status r") (simp_all add: review_findings_def)

lemma findings_clear:
  assumes "drift_findings en tk digest paths fs s = (Returned None, t)"
  shows "drift_cleared (task_id tk) (rs_tasks (lv_state t))"
proof -
  from assms obtain r known m u where
    set: "setTask en (task_id tk) (\<lambda>e. e\<lparr>ts_driftReview := Some r, ts_reviewedDigests := js_dedupe (known @ [digest])\<rparr>) m u = (Returned (), t)"
    and "(case dr_status r of DriftActionable fs \<Rightarrow> Some fs | _ \<Rightarrow> None) = None"
    unfolding drift_findings_def record_review_def run_bind_Returned run_simple_Returned
    by auto
  then show ?thesis by (intro set_review_clears [OF set]) (simp, erule no_actionable_findings)
qed

lemma drift_gate_clears:
  assumes "driftGate en rt s = (Returned (), t)"
  shows "drift_cleared (task_id (rt_task rt)) (rs_tasks (lv_state t))"
proof -
  obtain a u where "drift_round en rt a u = (Returned (Inl ()), t)"
    using run_forever_ended [OF assms [unfolded driftGate_def], of "\<lambda>_ _. True"] by blast
  moreover obtain fs ev where "a = (fs, ev)" by (cases a)
  ultimately obtain changes v where body: "(case (if changesNeedDriftReview (wc_paths changes) then wc_digest changes else None) of
       None \<Rightarrow> run_bind (drift_not_required en rt changes ev) (\<lambda>_. run_return (Inl ()))
     | Some digest \<Rightarrow>
         run_bind (case ev of
             Some _ \<Rightarrow> run_return (Some fs)
           | None \<Rightarrow> drift_findings en (rt_task rt) digest (wc_paths changes) fs) (\<lambda>next_findings.
         case next_findings of
           None \<Rightarrow> run_return (Inl ())
         | Some fs \<Rightarrow> run_bind (correct_drift en rt digest fs) (\<lambda>(result, findings).
             run_return (Inr (fs, if ar_passed result then None else Some (finding_text en [LF] findings)))))) v
       = (Returned (Inl ()), t)"
    unfolding drift_round_def prod.case run_bind_Returned by auto
  show ?thesis
  proof (cases "if changesNeedDriftReview (wc_paths changes) then wc_digest changes else None")
    case None
    then show ?thesis using body not_required_clears by auto
  next
    case (Some digest)
    obtain found w where f: "(case ev of Some _ \<Rightarrow> run_return (Some fs)
        | None \<Rightarrow> drift_findings en (rt_task rt) digest (wc_paths changes) fs) v = (Returned found, w)"
      "(case found of None \<Rightarrow> run_return (Inl ())
        | Some fs \<Rightarrow> run_bind (correct_drift en rt digest fs) (\<lambda>(result, findings).
            run_return (Inr (fs, if ar_passed result then None else Some (finding_text en [LF] findings))))) w
         = (Returned (Inl ()), t)"
      using body unfolding Some option.case run_bind_Returned by blast
    then show ?thesis using findings_clear by (auto split: option.splits prod.splits)
  qed
qed

lemma attempt_passed:
  assumes ok: "live_ok s" and run: "runAttempt en rt tk wp a s = (Returned (res, fs), t)" and passed: "ar_passed res"
  shows "commands_succeeded (task_verification tk) (new_actions s t)"
    and "\<exists>b \<in> set (st_attempts (lv_store t) (lv_runId t)). at_status b = AttemptSettled \<and> at_result b = Some res \<and>
      at_taskId b = task_id tk \<and> at_purpose b = at_purpose a"
proof -
  from run obtain st u1 u2 checks u3 changes u4 review u5 p u6 where R:
    "superviseChild en tk a s = (Returned st, u1)" "setTaskStatus en (task_id tk) TaskVerifying u1 = (Returned (), u2)"
    "runChecks en (Some (task_id tk)) (task_verification tk) u2 = (Returned checks, u3)"
    "taskChanges en rt u3 = (Returned changes, u4)" "review_if_needed en (Some (task_id tk)) checks u4 = (Returned review, u5)"
    "run_evaluate en st checks (findScopeViolations (wc_paths changes) wp) review u5 = (Returned (p, fs), u6)"
    "store_call en (\<lambda>i v. recordAttemptResult i v res) u6 = (Returned (), t)"
    "ar_passed res = p" "ar_taskId res = task_id tk" "ar_purpose res = at_purpose a"
    by (auto simp: runAttempt_def Let_def split: prod.splits)
  have a1: "advances s u1" "advances u1 u2"
    using advance_steps.keepsD [OF advance.keep_supervise R(1)] advance_steps.keepsD [OF advance_steps.keep_phases(3) R(2)] by simp_all
  have a2: "advances u2 u3" using advance_steps.keepsD [OF advance.keep_checks R(3)] by simp
  have a3: "advances u3 u4" "advances u4 u5" "advances u5 u6" "advances u6 t"
    using advance_steps.keepsD [OF advance.keep_changes R(4)] advance_steps.keepsD [OF advance.keep_reviewed R(5)]
      advance_steps.keepsD [OF advance.keep_evaluate R(6)] advance_steps.keepsD [OF advance_steps.keep_store_calls(3) R(7)] by simp_all
  have "advances s u2" "advances u3 t" using a1 a3 advances_trans by blast+
  then have "set (new_actions u2 u3) \<subseteq> set (new_actions s t)" using a2 new_actions_mono by blast
  moreover have "commands_succeeded (task_verification tk) (new_actions u2 u3)"
    using checks_results [OF R(3)] evaluate_passed(1) [OF R(6) [unfolded R(8) [symmetric] eqTrueI [OF passed]]] results_succeeded by metis
  ultimately show "commands_succeeded (task_verification tk) (new_actions s t)" using commands_succeeded_mono by blast
  have r1: "run_rel s u1" "run_rel u1 u2"
    using safe_steps.keepsD [OF safe.keep_supervise R(1)] safe_steps.keepsD [OF safe_steps.keep_phases(3) R(2)] by simp_all
  have r2: "run_rel u2 u3" "run_rel u3 u4" "run_rel u4 u5" "run_rel u5 u6"
    using safe_steps.keepsD [OF safe.keep_checks R(3)] safe_steps.keepsD [OF safe.keep_changes R(4)]
      safe_steps.keepsD [OF safe.keep_reviewed R(5)] safe_steps.keepsD [OF safe.keep_evaluate R(6)] by simp_all
  then have "run_rel s u6" using r1 run_rel_trans by blast
  then have "store_ok (lv_store u6)" using ok by (auto simp: run_rel_def live_ok_def)
  moreover obtain r where "recordAttemptResult (lv_runId u6) (rs_revision (lv_state u6)) res (lv_store u6) = Inr (r, lv_store t)"
    "lv_runId t = lv_runId u6"
    using R(7) by (auto simp: store_call_def split: sum.splits)
  ultimately show "\<exists>b \<in> set (st_attempts (lv_store t) (lv_runId t)). at_status b = AttemptSettled \<and> at_result b = Some res \<and>
      at_taskId b = task_id tk \<and> at_purpose b = at_purpose a"
    using record_recorded R(9,10) by metis
qed

lemma reserve_purpose:
  assumes "live_ok s" and "reserve en i w s = (Returned a, t)"
  shows "at_purpose a = work_kind w"
  using assms reserve_persist(2) by (auto simp: reserve_def live_ok_def split: sum.splits)

text \<open>The implementation attempts end only in a passing one.\<close>

lemma implement_round_passed:
  assumes ok: "live_ok s" and run: "implement_round en rt pp ph u s = (Returned (Inl res), t)"
  shows "ar_passed res" and "commands_succeeded (task_verification (rt_task rt)) (new_actions s t)"
    and "\<exists>b \<in> set (st_attempts (lv_store t) (lv_runId t)). at_status b = AttemptSettled \<and> at_result b = Some res \<and>
        at_taskId b = task_id (rt_task rt) \<and> at_purpose b = Implementation"
proof -
  let ?t = "rt_task rt"
  from run obtain a u1 fs where R: "reserve en (task_id ?t) (ImplementationWork pp ph ?t) s = (Returned a, u1)"
    "runAttempt en rt ?t (task_writePaths ?t) a u1 = (Returned (res, fs), t)" "ar_passed res"
    by (auto simp: implement_round_def Let_def split: prod.splits if_splits)
  have ok1: "live_ok u1" using safe_steps.keepsD [OF safe_steps.keep_reserve R(1)] ok by (auto simp: run_rel_def)
  have adv: "advances s u1" "advances u1 t"
    using advance_steps.keepsD [OF advance_steps.keep_reserve R(1)] advance_steps.keepsD [OF advance.keep_attempt R(2)] by simp_all
  show "ar_passed res" by (rule R(3))
  show "commands_succeeded (task_verification ?t) (new_actions s t)"
    using attempt_passed(1) [OF ok1 R(2,3)] new_actions_mono [OF adv advances_refl] commands_succeeded_mono by blast
  have "at_purpose a = Implementation" using reserve_purpose [OF ok R(1)] by (simp add: work_kind_def)
  then show "\<exists>b \<in> set (st_attempts (lv_store t) (lv_runId t)). at_status b = AttemptSettled \<and> at_result b = Some res \<and>
      at_taskId b = task_id ?t \<and> at_purpose b = Implementation"
    using attempt_passed(2) [OF ok1 R(2,3)] by simp
qed

lemma implement_passed:
  assumes "live_ok s" and "run_forever (implement_round en rt pp ph) () s = (Returned res, t)"
  shows "ar_passed res" and "commands_succeeded (task_verification (rt_task rt)) (new_actions s t)"
    and "\<exists>b \<in> set (st_attempts (lv_store t) (lv_runId t)). at_status b = AttemptSettled \<and> at_result b = Some res \<and>
        at_taskId b = task_id (rt_task rt) \<and> at_purpose b = Implementation"
proof -
  have inv: "live_ok v \<and> advances s v"
    if "live_ok u \<and> advances s u" "implement_round en rt pp ph x u = (Returned (Inr y), v)" for u v x y
    using that safe_steps.keepsD [OF safe.keep_implement_round that(2)]
      advance_steps.keepsD [OF advance.keep_implement_round that(2)] advances_trans by (auto simp: run_rel_def)
  obtain x u where u: "live_ok u \<and> advances s u" "implement_round en rt pp ph x u = (Returned (Inl res), t)"
    using run_forever_ended [OF assms(2), of "\<lambda>_ u. live_ok u \<and> advances s u"] assms(1) advances_refl inv by blast
  note P = implement_round_passed [OF conjunct1 [OF u(1)] u(2)]
  show "ar_passed res" by (rule P(1))
  have "advances u t" using advance_steps.keepsD [OF advance.keep_implement_round u(2)] by simp
  then show "commands_succeeded (task_verification (rt_task rt)) (new_actions s t)"
    using P(2) u(1) new_actions_mono advances_refl commands_succeeded_mono by blast
  show "\<exists>b \<in> set (st_attempts (lv_store t) (lv_runId t)). at_status b = AttemptSettled \<and> at_result b = Some res \<and>
      at_taskId b = task_id (rt_task rt) \<and> at_purpose b = Implementation" by (rule P(3))
qed

text \<open>C6. What a completed task has behind it. When the work on a task returns, the stored run holds the task as
  completed with a drift review that has no finding left, and a settled implementation attempt that passed; and every
  command check of the task was run since the work began and exited 0.\<close>

theorem task_completion_is_earned:
  assumes "live_ok s" and "implementTask en rt planPath planHash s = (Returned (), t)"
  shows "read_run (lv_store t) (lv_runId t) = Inr (lv_state t) \<and>
    list_all (\<lambda>e. ts_taskId e = task_id (rt_task rt) \<longrightarrow> ts_status e = TaskCompleted \<and>
      (\<exists>r. ts_driftReview e = Some r \<and> review_findings r = [])) (rs_tasks (lv_state t)) \<and>
    (\<exists>a \<in> set (rs_attempts (lv_state t)). at_taskId a = task_id (rt_task rt) \<and> at_purpose a = Implementation \<and>
      at_status a = AttemptSettled \<and> (\<exists>r. at_result a = Some r \<and> ar_passed r)) \<and>
    commands_succeeded (task_verification (rt_task rt)) (new_actions s t)"
proof -
  let ?t = "rt_task rt"
  from assms(2) obtain res u1 u2 u3 where R: "run_forever (implement_round en rt planPath planHash) () s = (Returned res, u1)"
    "driftGate en rt u1 = (Returned (), u2)" "cleanupTaskTemporaries en ?t u2 = (Returned (), u3)"
    "setTaskStatus en (task_id ?t) TaskCompleted u3 = (Returned (), t)"
    by (auto simp: implementTask_def)
  have cleared: "drift_cleared (task_id ?t) (rs_tasks (lv_state u2))" using R(2) by (rule drift_gate_clears)
  have removed: "\<And>v w e sc ps. remove_all en sc ps v = (Returned e, w) \<Longrightarrow> lv_state w = lv_state v"
  proof -
    fix v w e sc ps show "remove_all en sc ps v = (Returned e, w) \<Longrightarrow> lv_state w = lv_state v"
      by (induction ps arbitrary: v) (auto split: prod.splits option.splits)
  qed
  have same: "lv_state u3 = lv_state u2"
    using R(3) removed by (auto simp: cleanupTaskTemporaries_def split: option.splits)
  note set = setTask_result [OF R(4) [unfolded setTaskStatus_def]]
  have run: "run_rel s u1" "run_rel u1 u2" "run_rel u3 t"
    using safe_steps.keepsD [OF safe_steps.keep_forever [OF safe.keep_implement_round] R(1)] safe_steps.keepsD [OF safe.keep_gate R(2)]
      safe_steps.keepsD [OF safe_steps.keep_phases(3) R(4)] by simp_all
  have keep_temp: "safe_steps.keeps (cleanupTaskTemporaries en ?t)" "advance_steps.keeps (cleanupTaskTemporaries en ?t)"
    unfolding cleanupTaskTemporaries_def
    by (auto intro!: safe_steps.keep_bind safe_steps.keep_simple safe.keep_remove_all safe_steps.keep_phases
        advance_steps.keep_bind advance_steps.keep_simple advance.keep_remove_all advance_steps.keep_phases split: option.split)
  have u3: "run_rel u2 u3" using safe_steps.keepsD [OF keep_temp(1) R(3)] by simp
  have ok: "live_ok u1" "run_rel u1 t"
    using run(1) assms(1) run_rel_trans [OF run(2) run_rel_trans [OF u3 run(3)]] by (auto simp: run_rel_def)
  have adv: "advances u1 t"
    using advance_steps.keepsD [OF advance.keep_gate R(2)] advance_steps.keepsD [OF keep_temp(2) R(3)]
      advance_steps.keepsD [OF advance_steps.keep_phases(3) R(4)] advances_trans by blast
  have adv0: "advances s u1" using advance_steps.keepsD [OF advance_steps.keep_forever [OF advance.keep_implement_round] R(1)] by simp
  note P = implement_passed [OF assms(1) R(1)]
  have "commands_succeeded (task_verification ?t) (new_actions s t)"
    using P new_actions_mono [OF advances_refl adv0 adv] commands_succeeded_mono by blast
  moreover have "attempts_persist (lv_store u1) (lv_store t)" "lv_runId t = lv_runId u1"
    using ok by (auto simp: run_rel_def)
  then have "\<exists>a \<in> set (st_attempts (lv_store t) (lv_runId t)). at_taskId a = task_id ?t \<and> at_purpose a = Implementation \<and>
      at_status a = AttemptSettled \<and> (\<exists>r. at_result a = Some r \<and> ar_passed r)"
    using P by (auto simp: attempts_persist_def) 
  moreover have "rs_attempts (lv_state t) = st_attempts (lv_store t) (lv_runId t)"
    using set(2) by (auto simp: read_run_def split: option.splits dest!: sym [of "_\<lparr>rs_attempts := _\<rparr>"])
  ultimately show ?thesis using set cleared same by (auto simp: list_all_iff drift_cleared_def)
qed

section \<open>The fuel is enough\<close>

definition waits :: "live_run \<Rightarrow> nat" where
  "waits s = length (lv_script s)"

lemma await_consumes:
  assumes "run_await en pick s = (Returned x, t)"
  shows "waits t < waits s"
proof (cases "lv_script s")
  case (Cons a rest)
  have "lv_script (fold (happen en) ms v) = lv_script v" for ms v by (induction ms arbitrary: v) simp_all
  then have "lv_script t = rest"
    using assms by (auto simp: run_await_def Cons Let_def split: run_reply.splits option.splits)
  then show ?thesis by (simp add: waits_def Cons)
qed (use assms in \<open>simp add: run_await_def\<close>)

lemma waits_mono: "advance_steps.keeps m \<Longrightarrow> m s = (Returned x, t) \<Longrightarrow> waits t \<le> waits s"
  using advance_steps.keepsD [of m s "Returned x" t] by (auto simp: advances_def waits_def)

lemma bind_cong_at:
  "(\<And>x t. m s = (Returned x, t) \<Longrightarrow> f x t = g x t) \<Longrightarrow> run_bind m f s = run_bind m g s"
  by (cases "m s"; cases "fst (m s)") (auto simp: run_bind_def run_try_def)

text \<open>A body each of whose rounds waits before the next one begins.\<close>

definition round_waits :: "('a \<Rightarrow> ('b + 'a) run) \<Rightarrow> bool" where
  "round_waits body \<longleftrightarrow> (\<forall>a s a' t. body a s = (Returned (Inr a'), t) \<longrightarrow> waits t < waits s)"

lemma loop_more:
  assumes body: "round_waits body"
  shows "waits s < n \<Longrightarrow> run_loop (Suc n) body a s = run_loop n body a s"
proof (induction n arbitrary: a s)
  case (Suc n)
  have "(case r of Inl b \<Rightarrow> run_return b | Inr a' \<Rightarrow> run_loop (Suc n) body a') t =
      (case r of Inl b \<Rightarrow> run_return b | Inr a' \<Rightarrow> run_loop n body a') t" if r: "body a s = (Returned r, t)" for r t
  proof (cases r)
    case (Inr a')
    then have "waits t < n" using body r Suc.prems unfolding round_waits_def by fastforce
    then show ?thesis using Suc.IH Inr by simp
  qed simp
  then show ?case unfolding run_loop.simps(2) [of n] run_loop.simps(2) [of "Suc n"] by (rule bind_cong_at)
qed simp

lemma fuel_enough:
  "round_waits body \<Longrightarrow> run_loop (script_fuel s + k) body a s = run_forever body a s"
proof (induction k)
  case 0
  then show ?case by (simp add: run_forever_def run_bind_def run_try_def run_get_def)
next
  case (Suc k)
  then show ?case using loop_more [of body s "script_fuel s + k" a] by (simp add: waits_def script_fuel_def)
qed

lemma changes_consume:
  assumes "taskChanges en rt s = (Returned c, t)"
  shows "waits t < waits s"
proof -
  have diff: "waits v < waits u" if "diff_now en b ex u = (Returned c', v)" for b ex c' u v
    using that await_consumes by (auto simp: diff_now_def await_git_def)
  show ?thesis
  proof (cases "rt_mutating rt")
    case True
    then obtain u where "diff_now en (rt_baseline rt) [] s = (Returned c, u)" "t = add_writer_paths (wc_paths c) u"
      using assms by (auto simp: taskChanges_def)
    then show ?thesis using diff by (auto simp: add_writer_paths_def waits_def)
  next
    case False
    then obtain live u where u: "(case find rt_mutating (lv_running s) of None \<Rightarrow> run_return []
        | Some w \<Rightarrow> run_bind (diff_now en (rt_baseline w) []) (\<lambda>c. run_return (wc_paths c))) s = (Returned live, u)"
      "diff_now en (rt_baseline rt) (writer_paths_of rt u @ live) u = (Returned c, t)"
      using assms by (auto simp: taskChanges_def)
    have "advance_steps.keeps (case find rt_mutating (lv_running s) of None \<Rightarrow> run_return []
        | Some w \<Rightarrow> run_bind (diff_now en (rt_baseline w) []) (\<lambda>c. run_return (wc_paths c)))"
      by (auto intro!: advance_steps.keep_bind advance_steps.keep_simple advance.keep_diff split: option.split)
    then have "waits u \<le> waits s" using u(1) by (rule waits_mono)
    then show ?thesis using diff [OF u(2)] by simp
  qed
qed

lemma supervise_waits: "round_waits (supervise_round en tk a)"
  unfolding round_waits_def
proof (intro allI impI)
  fix x s y t assume "supervise_round en tk a x s = (Returned (Inr y), t)"
  then obtain b u where b: "run_await en (\<lambda>r. case r of AtBoundary b \<Rightarrow> Some b | _ \<Rightarrow> None) s = (Returned b, u)"
    "(case b of ChildEnded st \<Rightarrow> run_return (Inl st)
       | ChildAsks approvalId action \<Rightarrow>
           run_bind (answerApproval en (ChildApproval approvalId (at_childRunId a) (task_id tk)) action) (\<lambda>decision.
           run_bind (run_act (AnsweredChild (at_childRunId a) decision)) (\<lambda>_. run_return (Inr ())))) u = (Returned (Inr y), t)"
    unfolding supervise_round_def run_bind_Returned by blast
  then obtain i action d v where R: "b = ChildAsks i action"
    "answerApproval en (ChildApproval i (at_childRunId a) (task_id tk)) action u = (Returned d, v)"
    "t = v\<lparr>lv_trace := lv_trace v @ [AnsweredChild (at_childRunId a) d]\<rparr>"
    by (cases b) auto
  then show "waits t < waits s"
    using await_consumes [OF b(1)] waits_mono [OF advance_steps.keep_answer R(2)] by (simp add: waits_def)
qed

lemma implement_waits: "round_waits (implement_round en rt pp ph)"
  unfolding round_waits_def
proof (intro allI impI)
  fix x s y t assume "implement_round en rt pp ph x s = (Returned (Inr y), t)"
  then obtain a u1 r fs u2 u3 d where R: "reserve en (task_id (rt_task rt)) (ImplementationWork pp ph (rt_task rt)) s = (Returned a, u1)"
    "runAttempt en rt (rt_task rt) (task_writePaths (rt_task rt)) a u1 = (Returned (r, fs), u2)"
    "setTaskStatus en (task_id (rt_task rt)) TaskRetryPending u2 = (Returned (), u3)" "renderDiff en u3 = (Returned d, t)"
    by (auto simp: implement_round_def Let_def split: prod.splits if_splits)
  have "waits t < waits u3" using await_consumes R(4) by (auto simp: renderDiff_def)
  then show "waits t < waits s"
    using waits_mono [OF advance_steps.keep_reserve R(1)] waits_mono [OF advance.keep_attempt R(2)]
      waits_mono [OF advance_steps.keep_phases(3) R(3)] by simp
qed

lemma schedule_waits: "round_waits (schedule_round en plan)"
  unfolding round_waits_def
proof (intro allI impI)
  fix x s y t assume "schedule_round en plan x s = (Returned (Inr y), t)"
  then obtain pass :: schedule_pass and w u where R: "start_tasks en (sp_start pass) s = (Returned w, u)"
    "(if x @ sp_start pass = []
      then run_bind (run_get (\<lambda>s. unfinished (lv_state s))) (\<lambda>left. if left = [] then run_return (Inl ())
        else fail FBlocked (''Tasks cannot start: '' @ js_join '', '' left @ ''.''))
      else run_try (run_await en (\<lambda>r. case r of TaskSettled i \<Rightarrow> if i \<in> task_id ` set (x @ sp_start pass) then Some i else None | _ \<Rightarrow> None))
        (\<lambda>i. run_return (Inr (filter (\<lambda>t. task_id t \<noteq> i) (x @ sp_start pass))))
        (\<lambda>e. run_bind abort_children (\<lambda>_. run_bind (await_settled en) (\<lambda>_. run_throw e))))
      (u\<lparr>lv_schedule := Some (sp_schedule pass)\<rparr>) = (Returned (Inr y), t)"
    unfolding schedule_round_def Let_def run_bind_Returned run_simple_Returned run_lift_Returned
    by blast
  obtain pick i where "run_await en pick (u\<lparr>lv_schedule := Some (sp_schedule pass)\<rparr>) = (Returned (i :: string), t)"
    using R(2) by (auto simp: run_try_Returned split: if_splits)
  then have "waits t < waits (u\<lparr>lv_schedule := Some (sp_schedule pass)\<rparr>)" by (rule await_consumes)
  then show "waits t < waits s"
    using waits_mono [OF advance.keep_start_tasks R(1)] by (simp add: waits_def)
qed

lemma drift_waits: "round_waits (drift_round en rt)"
  unfolding round_waits_def
proof (intro allI impI)
  fix x s y t assume run: "drift_round en rt x s = (Returned (Inr y), t)"
  obtain fs ev where x: "x = (fs, ev)" by (cases x)
  from run obtain c u where u: "taskChanges en rt s = (Returned c, u)" unfolding drift_round_def x by auto
  have rest: "advance_steps.keeps (case (if changesNeedDriftReview (wc_paths c) then wc_digest c else None) of
       None \<Rightarrow> run_bind (drift_not_required en rt c ev) (\<lambda>_. run_return (Inl ()))
     | Some digest \<Rightarrow>
         run_bind (case ev of
             Some _ \<Rightarrow> run_return (Some fs)
           | None \<Rightarrow> drift_findings en (rt_task rt) digest (wc_paths c) fs) (\<lambda>next_findings.
         case next_findings of
           None \<Rightarrow> run_return (Inl ())
         | Some fs \<Rightarrow> run_bind (correct_drift en rt digest fs) (\<lambda>(result, findings).
             run_return (Inr (fs, if ar_passed result then None else Some (finding_text en [LF] findings))))))"
    by (auto intro!: advance_steps.keep_bind advance_steps.keep_simple advance.keep_not_required advance.keep_findings
        advance.keep_correct split: option.split)
  have "waits t \<le> waits u"
    using run u unfolding drift_round_def x prod.case by (auto intro: waits_mono [OF rest])
  then show "waits t < waits s" using changes_consume [OF u] by simp
qed


end
