(* ===== verification/Orchestrator_Run_Examples.thy ===== *)
theory Orchestrator_Run_Examples
  imports Orchestrator_Run_Properties
begin

text \<open>
  A live orchestrator run carried through: a plan of one task is proposed, approved and executed, its
  command is approved by the user and exits 0, and the run completes. The theorems about live runs are
  applied to it.
\<close>

section \<open>The run\<close>

definition example_run_plan :: orch_plan where
  "example_run_plan = \<lparr>plan_goal = ''g'', plan_constraints = [],
     plan_tasks = [(example_task ''make'' [] ''agent'' [''src/x''])\<lparr>task_readPaths := []\<rparr>],
     plan_finalVerification = [CommandCheck ''npm test'' ''.'']\<rparr>"

definition example_run_env :: run_env where
  "example_run_env = \<lparr>en_config = example_workers, en_root = [''r''], en_digest = example_digest, en_sha = example_hash,
     en_message = (\<lambda>_. ''problem''), en_remove = (\<lambda>_ _ fs. (None, fs)), en_context = None,
     en_parsePlan = (\<lambda>_. Inr (PlanReady example_run_plan)), en_parseReview = Inl, en_parseDrift = Inl,
     en_parseDecision = Inl\<rparr>"

definition example_disk :: run_disk where
  "example_disk = \<lparr>dk_files = \<lparr>fs_exists = (\<lambda>p. p \<in> {[], [''r''], [''r'', ''src''], [''r'', ''p'']}),
       fs_realpath = (\<lambda>p. if p \<in> {[], [''r''], [''r'', ''src''], [''r'', ''p'']} then Some p else None), sf_text = (\<lambda>p. if p = [''r'', ''p''] then Some ''p'' else None)\<rparr>,
     dk_scratch = \<lparr>fs_exists = (\<lambda>_. False), fs_realpath = (\<lambda>_. None), sf_symlink = (\<lambda>_. False), sf_entries = (\<lambda>_. [])\<rparr>,
     dk_tree = \<lparr>wt_status = [], wt_content = (\<lambda>_. None), wt_head = (\<lambda>_. None)\<rparr>\<rparr>"

definition example_await :: "run_reply \<Rightarrow> awaited" where
  "example_await r = \<lparr>aw_meanwhile = [], aw_reply = r\<rparr>"

definition stored_request :: orch_request where
  "stored_request = (example_request ''r'')\<lparr>rq_approval := ''off'', rq_task := None, rq_planPath := Some ''p''\<rparr>"

text \<open>A run that was stored by the given calls, and what it will wait for.\<close>

definition example_live :: "store_event list \<Rightarrow> awaited list \<Rightarrow> live_run" where
  "example_live calls script =
     (let st = run_events (store_step example_digest) calls empty_store in new_live_run 0 st (projr (read_run st 0)) example_disk script)"

definition made :: "task_status \<Rightarrow> orch_task_state" where
  "made st = \<lparr>ts_taskId = ''make'', ts_status = st, ts_driftReview = None, ts_reviewedDigests = []\<rparr>"

definition task_completes :: "nat \<Rightarrow> awaited" where
  "task_completes revision = \<lparr>aw_meanwhile = [SiblingWrite (SUpdate 0 revision
       (no_changes\<lparr>ch_tasks := Some [made TaskCompleted]\<rparr>)
       (message_only ''Task make: completed.''))],
     aw_reply = TaskSettled ''make''\<rparr>"

definition example_script :: "awaited list" where
  "example_script = map example_await [GitFinished, Granted, ModelAnswered ''plan'', Preflight []] @ [task_completes 5] @
     map example_await [Granted, CommandExited 0 ''ok'', Continued]"

section \<open>Evaluation\<close>

text \<open>One step at a time: what comes after an awaited value is looked at when the value is there.\<close>

lemma eval_try: "run_try m f h s = (case m s of (out, t) \<Rightarrow>
    (case out of Returned x \<Rightarrow> f x t | Thrown e \<Rightarrow> h e t | Waiting \<Rightarrow> (Waiting, t)))"
  by (simp add: run_try_def split: prod.split outcome.split)

lemma eval_bind: "run_bind m f s = (case m s of (out, t) \<Rightarrow>
    (case out of Returned x \<Rightarrow> f x t | Thrown e \<Rightarrow> (Thrown e, t) | Waiting \<Rightarrow> (Waiting, t)))"
  by (simp add: run_bind_def run_try_def run_throw_def split: prod.split outcome.split)

lemma eval_cong:
  "s = t \<Longrightarrow> run_bind m f s = run_bind m f t"
  "s = t \<Longrightarrow> run_try m f h s = run_try m f h t"
  "s = t \<Longrightarrow> run_get g s = run_get g t"
  by simp_all

lemmas eval_run = eval_bind eval_try run_return_def run_throw_def run_waiting_def run_get_def run_modify_def run_act_def
  run_lift_def throwIfAborted_def run_await_def run_finally_def run_catch_def await_git_def await_settled_def

lemmas eval_store = committed_def read_run_def create_run_def update_run_def mutate_def savePlan_def appendEvent_def put_row_def apply_changes_def
  no_changes_def message_only_def last_sequence_def isOrchestratorTerminalPhase_def empty_store_def bind_result_simps

lemma example_env_simps:
  "en_config example_run_env = example_workers" "en_root example_run_env = [''r'']" "en_digest example_run_env = example_digest"
  "en_context example_run_env = None" "en_parsePlan example_run_env t = Inr (PlanReady example_run_plan)"
  by (simp_all add: example_run_env_def)

lemmas eval_env = example_env_simps stored_request_def example_request_def example_await_def task_completes_def new_live_run_def
  example_script_def

definition valid_plan :: orch_plan where
  "valid_plan = projr (validateOrchestratorPlan example_run_plan example_workers (file_system.truncate (dk_files example_disk)) [''r''])"

lemma made_simps: "ts_taskId (made st) = ''make''" "ts_status (made st) = st" "(made st)\<lparr>ts_status := st'\<rparr> = made st'"
  by (simp_all add: made_def)

definition first_pass :: "schedule_pass" where "first_pass = projr (schedulePass example_workers valid_plan [made TaskPending] [])"
definition last_pass :: "schedule_pass" where "last_pass = projr (schedulePass example_workers valid_plan [made TaskCompleted] [])"

lemma plan_valid: "validateOrchestratorPlan example_run_plan example_workers (file_system.truncate (dk_files example_disk)) [''r''] = Inr valid_plan"
  unfolding valid_plan_def by (rule is_ok_projr) code_simp

lemma plan_parts: "map task_id (plan_tasks valid_plan) = [''make'']" "plan_finalVerification valid_plan = [CommandCheck ''npm test'' ''.'']"
  "planned_tasks [] valid_plan = [made TaskPending]"
  by code_simp+

lemma plan_checked: "list_all is_evidence_check (plan_checks valid_plan) = False"
  by code_simp

lemma passes:
  "schedulePass example_workers valid_plan [made TaskPending] [] = Inr first_pass"
  "schedulePass example_workers valid_plan [made TaskCompleted] [] = Inr last_pass"
  unfolding first_pass_def last_pass_def by (rule is_ok_projr, code_simp)+

definition make_task :: orch_task where
  "make_task = hd (sp_start first_pass)"

lemma passes_start: "sp_start first_pass = [make_task]" "sp_start last_pass = []" "task_id make_task = ''make''"
proof -
  have "length (sp_start first_pass) = 1" by code_simp
  then show "sp_start first_pass = [make_task]" by (cases "sp_start first_pass") (simp_all add: make_task_def)
  show "sp_start last_pass = []" "task_id make_task = ''make''" by code_simp+
qed

lemma paths: "resolveRepoScopedPath (file_system.truncate (dk_files example_disk)) [''r''] (Some ''p'') = Inr (Some \<lparr>sp_absolute = [''r'', ''p''], sp_relative = ''p''\<rparr>)"
  "resolveRepoScopedPath (file_system.truncate (dk_files example_disk)) [''r''] (Some ''.'') = Inr (Some \<lparr>sp_absolute = [''r''], sp_relative = []\<rparr>)"
  by code_simp+

lemma no_scratch: "cleanupScratch rm root dir (dk_scratch example_disk) = ([], dk_scratch example_disk)"
  by (simp add: cleanupScratch_def example_disk_def)

lemma no_changes_seen: "captureWorkspace (dk_tree example_disk) = []"
  by code_simp

lemma final_passes: "evaluateAttempt fs root WorkerCompleted [\<lparr>cr_check = CommandCheck c d, cr_executed = True, cr_exitCode = Some 0,
    cr_timedOut = False, cr_output = x\<rparr>] [] None = Inr (True, [])"
  by (simp add: evaluateAttempt_def check_findings_def command_passed_def is_evidence_check_def orchestratorCheckFailure_def expectedExitCode_def)

lemma example_files: "fs_exists (dk_files example_disk) [''r'', ''p''] = True" "sf_text (dk_files example_disk) [''r'', ''p''] = Some ''p''"
  by (simp_all add: example_disk_def)

lemmas eval_plan = preparePlan_def supplied_plan_def readSuppliedPlan_def paths example_files accept_plan_def with_lease_def
  acquireRepository_def askParent_def runContext_def PARENT_PHASE_ATTEMPTS_def eval_nat_numeral fresh_id_def run_commit_def store_call_def
  commit_phase_def parse_reply_def give_back_def plan_valid findUnrunnableChecks_def plan_checked save_plan_def plan_parts

lemmas eval_tasks = executeTasks_def run_forever_def script_fuel_def schedule_round_def passes passes_start setTaskStatus_def setTask_def
  status_text_def unfinished_def made_simps

lemmas eval_final = verifyFinal_def run_check_def checkDenial_def runVerificationCheck_def review_if_needed_def is_evidence_check_def run_evaluate_def
  final_passes TIMEOUT_EXIT_CODE_def cleanupRunScratch_def no_scratch

lemmas eval_live = example_live_def eval_run eval_env eval_store Let_def

lemma live_ok_stored:
  "is_ok (read_run (run_events (store_step example_digest) calls empty_store) 0) \<Longrightarrow> live_ok (example_live calls script)"
  using reachable_store_ok [of example_digest calls]
  by (auto simp: live_ok_def example_live_def new_live_run_def read_run_def Let_def split: option.splits)

definition created_run :: "store_event list" where
  "created_run = [SCreate stored_request]"

definition completing_run :: live_run where
  "completing_run = example_live created_run example_script"

lemma completing_ok: "live_ok completing_run"
  unfolding completing_run_def by (rule live_ok_stored) (simp add: created_run_def eval_store eval_env Let_def)

lemma completing_works: "fst (execute_work example_run_env completing_run) = Returned ()"
  by (simp add: completing_run_def created_run_def execute_work_def eval_live captureStart_def no_changes_seen
    eval_plan eval_tasks eval_final cong: eval_cong)

definition task_run :: live_run where
  "task_run = example_live (created_run @ [SSavePlan 0 0 valid_plan ''p'' ''h'']) (map example_await
     [AtBoundary (ChildEnded WorkerCompleted), CommandExited 0 ''ok'', GitFinished, GitFinished])"

definition making :: running_task where
  "making = \<lparr>rt_task = make_task, rt_mutating = True, rt_baseline = captureWorkspace (dk_tree example_disk), rt_writerPaths = []\<rparr>"

definition make_worker :: operation_preset where
  "make_worker = projr (requireOrchestratorWorkerPreset example_workers make_task)"

lemma make_parts: "task_verification make_task = [CommandCheck ''npm test'' ''.'']" "task_temporaryPaths make_task = []"
  "op_presetKind make_worker = RepoAgentKind"
  by code_simp+

lemma make_worker: "requireOrchestratorWorkerPreset example_workers make_task = Inr make_worker"
  unfolding make_worker_def by (rule is_ok_projr) code_simp

lemma nothing_changed: "diffWorkspace sha (dk_tree example_disk) [] ex = \<lparr>wc_paths = [], wc_digest = None\<rparr>"
proof -
  have "listDirtyPaths (dk_tree example_disk) = []" by code_simp
  then show ?thesis by (simp add: diffWorkspace_def Let_def)
qed

lemma nothing_to_review: "findScopeViolations [] ps = []" "changesNeedDriftReview [] = False"
  by (simp_all add: findScopeViolations_def changesNeedDriftReview_def)

lemmas eval_attempt = reserve_def reserveAttempt_def markAttemptRunning_def recordAttemptResult_def requireAttempt_def attempts_used_def
  attempt_event_def writeAttempt_def work_kind_def ORCHESTRATOR_MAX_ATTEMPTS_def implement_round_def runAttempt_def superviseChild_def
  supervise_round_def startOrchestratorChild_def make_worker make_parts taskChanges_def diff_now_def nothing_changed nothing_to_review
  add_writer_paths_def

lemmas eval_gate = driftGate_def drift_round_def drift_not_required_def cleanupTaskTemporaries_def

lemma task_works: "fst (implementTask example_run_env making ''p'' ''h'' task_run) = Returned ()"
  by (simp add: task_run_def making_def created_run_def implementTask_def eval_live no_changes_seen
    eval_plan eval_tasks eval_final eval_attempt eval_gate cong: eval_cong)

text \<open>A run whose user approves the command.\<close>

definition approving_run :: live_run where
  "approving_run = example_live [SCreate (stored_request\<lparr>rq_approval := ''interactive''\<rparr>)]
     (take 4 example_script @ [task_completes 5] @
      map example_await [Granted, Continued, UserDecided 2 Approve, CommandExited 0 ''ok'', Continued])"

lemmas eval_approval = answerApproval_def resolveApproval_def waitForUserDecision_def commit_approval_def clear_approval_def approval_id_def
  approval_task_def describeApprovalDecision_def

lemma approving_runs: "RanCommand ''npm test'' ''.'' \<in> set (lv_trace (snd (execute_work example_run_env approving_run)))"
  by (simp add: approving_run_def execute_work_def eval_live captureStart_def no_changes_seen
    eval_plan eval_tasks eval_final eval_approval cong: eval_cong)

section \<open>The theorems at this run\<close>

lemma returned_pair: "fst p = Returned () \<Longrightarrow> p = (Returned (), snd p)"
  by (cases p) simp


lemma approving_ok: "live_ok approving_run" "rq_approval (rs_request (lv_state approving_run)) = ''interactive''"
proof -
  show "live_ok approving_run" unfolding approving_run_def by (rule live_ok_stored) (simp add: eval_store eval_env Let_def)
  show "rq_approval (rs_request (lv_state approving_run)) = ''interactive''" by (simp add: approving_run_def eval_live)
qed


theorem failure_is_recorded_witness:
  "\<exists>t after. settleFailure example_run_env (OtherError ''disk full'') (Some ''Scratch cleanup also failed.'') completing_run = (Returned (), t) \<and>
     read_run (lv_store t) 0 = Inr after \<and> rs_phase after = FailedPhase \<and>
     rs_failure after = Some (failure FInternalError ''disk full Scratch cleanup also failed.'')"
proof -
  have "lv_runId completing_run = 0" "lv_abort completing_run = None"
    "rs_phase (projr (read_run (lv_store completing_run) 0)) = PreparingPlan"
    by (simp_all add: completing_run_def created_run_def eval_live)
  then show ?thesis using failure_is_recorded [OF completing_ok, of example_run_env "OtherError ''disk full''" "Some ''Scratch cleanup also failed.''"]
    by (auto simp: settled_as_def isOrchestratorTerminalPhase_def stored_failure_def failure_def with_cleanup_def)
qed

theorem run_settles_terminal_witness:
  "\<exists>t r. execute example_run_env completing_run = (Returned (), t) \<and> read_run (lv_store t) 0 = Inr r \<and> rs_phase r = Completed"
proof -
  have "lv_script (snd (execute_work example_run_env completing_run)) = [example_await Continued]" "lv_runId completing_run = 0"
    by (simp_all add: completing_run_def created_run_def execute_work_def eval_live captureStart_def no_changes_seen
      eval_plan eval_tasks eval_final cong: eval_cong)
  then show ?thesis using run_settles_terminal [OF completing_ok, of example_run_env] completing_works
    by (cases "execute example_run_env completing_run") (auto split: outcome.splits)
qed

theorem task_completion_is_earned_witness:
  "let t = snd (implementTask example_run_env making ''p'' ''h'' task_run) in
     \<exists>a \<in> set (rs_attempts (lv_state t)). at_taskId a = ''make'' \<and> at_status a = AttemptSettled \<and>
       (\<exists>r. at_result a = Some r \<and> ar_passed r) \<and> CommandEnded ''npm test'' ''.'' 0 \<in> set (new_actions task_run t)"
proof -
  have "live_ok task_run"
    unfolding task_run_def by (rule live_ok_stored) (simp add: created_run_def eval_store eval_env plan_parts Let_def)
  from task_completion_is_earned [OF this returned_pair [OF task_works]] show ?thesis
    by (auto simp: Let_def making_def passes_start make_parts commands_succeeded_def)
qed

end
