(* ===== verification/Run_State_Lease.thy ===== *)
theory Run_State_Lease
  imports Sift_Prelude
begin

text \<open>
  The lease on the state file of a repo-agent run (src/repo-agent/run-state-lease.ts): a lock file with
  the owner's process id, and a second lock file under which the lock of a dead owner is replaced.
  The lease as one operation of a process that nothing interferes with, and the same operation file
  access by file access, with any number of processes interleaved that may die between two accesses.
\<close>

section \<open>One operation\<close>

datatype lease_owner = OwnedBy nat | Unreadable

record lease_files =
  lf_lock :: "lease_owner option"
  lf_recovery :: "lease_owner option"

definition no_lease_files :: lease_files where
  "no_lease_files = \<lparr>lf_lock = None, lf_recovery = None\<rparr>"

datatype lease_error =
    TransitionActive "nat option"
  | MalformedLease
  | OwnedElsewhere nat

text \<open>\<open>openSync(path, 'wx')\<close> and the owner's id written: whether the file was created, and the file.\<close>

definition tryCreateLock :: "nat \<Rightarrow> lease_owner option \<Rightarrow> bool \<times> lease_owner option" where
  "tryCreateLock pid f = (case f of None \<Rightarrow> (True, Some (OwnedBy pid)) | Some _ \<Rightarrow> (False, f))"

definition readOwner :: "lease_owner option \<Rightarrow> lease_error + nat" where
  "readOwner f = (case f of Some (OwnedBy q) \<Rightarrow> Inr q | _ \<Rightarrow> Inl MalformedLease)"

text \<open>The outcome and the files after it, also when it throws.\<close>

definition recoverDeadOwner :: "nat \<Rightarrow> (nat \<Rightarrow> bool) \<Rightarrow> lease_files \<Rightarrow> (lease_error + unit) \<times> lease_files" where
  "recoverDeadOwner pid alive fs =
     (case tryCreateLock pid (lf_recovery fs) of
        (False, _) \<Rightarrow> (Inl (TransitionActive None), fs)
      | (True, _) \<Rightarrow>
          (case readOwner (lf_lock fs) of
             Inl e \<Rightarrow> (Inl e, fs\<lparr>lf_recovery := None\<rparr>)
           | Inr q \<Rightarrow>
               if alive q then (Inl (TransitionActive (Some q)), fs\<lparr>lf_recovery := None\<rparr>)
               else (case tryCreateLock pid None of
                   (True, f) \<Rightarrow> (Inr (), fs\<lparr>lf_lock := f, lf_recovery := None\<rparr>)
                 | (False, f) \<Rightarrow> (Inl (TransitionActive None), fs\<lparr>lf_lock := f, lf_recovery := None\<rparr>))))"

definition lease_acquire :: "nat \<Rightarrow> (nat \<Rightarrow> bool) \<Rightarrow> lease_files \<Rightarrow> (lease_error + unit) \<times> lease_files" where
  "lease_acquire pid alive fs =
     (if lf_recovery fs \<noteq> None then recoverDeadOwner pid alive fs
      else (case tryCreateLock pid (lf_lock fs) of
          (True, f) \<Rightarrow> (Inr (), fs\<lparr>lf_lock := f\<rparr>)
        | (False, _) \<Rightarrow> recoverDeadOwner pid alive fs))"

definition lease_release :: "nat \<Rightarrow> lease_files \<Rightarrow> lease_error + lease_files" where
  "lease_release pid fs = bind_result (readOwner (lf_lock fs)) (\<lambda>q.
     if q \<noteq> pid then Inl (OwnedElsewhere q) else Inr (fs\<lparr>lf_lock := None\<rparr>))"

section \<open>File access by file access\<close>

text \<open>Where a process is: outside, past the test for the recovery file, past the creation of a lock
  file whose content is not written yet, and so on; \<open>LClosing b\<close> removes the recovery file and then holds the
  lease or has thrown.\<close>

datatype lease_pc =
    LOutside
  | LTested
  | LCreated
  | LRecover
  | LRecoverCreated
  | LRecoverOwner
  | LRemove
  | LRecreate
  | LRecreated
  | LClosing bool
  | LHolding
  | LDead

record lease_world =
  lw_files :: lease_files
  lw_pc :: "nat \<Rightarrow> lease_pc"

definition goes :: "nat \<Rightarrow> lease_pc \<Rightarrow> lease_files \<Rightarrow> lease_world \<Rightarrow> lease_world" where
  "goes p c fs w = w\<lparr>lw_files := fs, lw_pc := (lw_pc w)(p := c)\<rparr>"

definition process_alive :: "lease_world \<Rightarrow> nat \<Rightarrow> bool" where
  "process_alive w q \<longleftrightarrow> lw_pc w q \<noteq> LDead"

text \<open>The next file access of a process; \<open>ok\<close> is whether writing the created file succeeds.\<close>

definition lease_advance :: "nat \<Rightarrow> bool \<Rightarrow> lease_world \<Rightarrow> lease_world" where
  "lease_advance p ok w =
     (let fs = lw_files w in
      case lw_pc w p of
        LOutside \<Rightarrow> goes p (if lf_recovery fs \<noteq> None then LRecover else LTested) fs w
      | LTested \<Rightarrow> if lf_lock fs \<noteq> None then goes p LRecover fs w else goes p LCreated (fs\<lparr>lf_lock := Some Unreadable\<rparr>) w
      | LCreated \<Rightarrow> if ok then goes p LHolding (fs\<lparr>lf_lock := Some (OwnedBy p)\<rparr>) w else goes p LOutside (fs\<lparr>lf_lock := None\<rparr>) w
      | LRecover \<Rightarrow> if lf_recovery fs \<noteq> None then goes p LOutside fs w
          else goes p LRecoverCreated (fs\<lparr>lf_recovery := Some Unreadable\<rparr>) w
      | LRecoverCreated \<Rightarrow> if ok then goes p LRecoverOwner (fs\<lparr>lf_recovery := Some (OwnedBy p)\<rparr>) w
          else goes p LOutside (fs\<lparr>lf_recovery := None\<rparr>) w
      | LRecoverOwner \<Rightarrow> (case readOwner (lf_lock fs) of
            Inl _ \<Rightarrow> goes p (LClosing False) fs w
          | Inr q \<Rightarrow> goes p (if process_alive w q then LClosing False else LRemove) fs w)
      | LRemove \<Rightarrow> if lf_lock fs = None then goes p (LClosing False) fs w else goes p LRecreate (fs\<lparr>lf_lock := None\<rparr>) w
      | LRecreate \<Rightarrow> if lf_lock fs \<noteq> None then goes p (LClosing False) fs w
          else goes p LRecreated (fs\<lparr>lf_lock := Some Unreadable\<rparr>) w
      | LRecreated \<Rightarrow> if ok then goes p (LClosing True) (fs\<lparr>lf_lock := Some (OwnedBy p)\<rparr>) w
          else goes p (LClosing False) (fs\<lparr>lf_lock := None\<rparr>) w
      | LClosing held \<Rightarrow> goes p (if held then LHolding else LOutside) (fs\<lparr>lf_recovery := None\<rparr>) w
      | LHolding \<Rightarrow> (case lease_release p fs of Inl _ \<Rightarrow> w | Inr fs' \<Rightarrow> goes p LOutside fs' w)
      | LDead \<Rightarrow> w)"

datatype lease_event = Advance nat bool | Dies nat

fun lease_step :: "lease_event \<Rightarrow> lease_world \<Rightarrow> lease_world" where
  "lease_step (Advance p ok) w = lease_advance p ok w"
| "lease_step (Dies p) w = goes p LDead (lw_files w) w"

definition no_process :: lease_world where
  "no_process = \<lparr>lw_files = no_lease_files, lw_pc = (\<lambda>_. LOutside)\<rparr>"

section \<open>Exclusion\<close>

text \<open>The processes that made the lock file, and those that made the recovery file.\<close>

definition owns_lock :: "lease_pc \<Rightarrow> bool" where
  "owns_lock c \<longleftrightarrow> c = LCreated \<or> c = LRecreated \<or> c = LClosing True \<or> c = LHolding"

definition owns_recovery :: "lease_pc \<Rightarrow> bool" where
  "owns_recovery c \<longleftrightarrow> c = LRecoverCreated \<or> c = LRecoverOwner \<or> c = LRemove \<or> c = LRecreate \<or> c = LRecreated \<or>
     (\<exists>b. c = LClosing b)"

definition lock_content :: "nat \<Rightarrow> lease_pc \<Rightarrow> lease_owner" where
  "lock_content p c = (if c = LHolding \<or> c = LClosing True then OwnedBy p else Unreadable)"

definition lease_ok :: "lease_world \<Rightarrow> bool" where
  "lease_ok w \<longleftrightarrow>
     (\<forall>p q. owns_lock (lw_pc w p) \<longrightarrow> owns_lock (lw_pc w q) \<longrightarrow> p = q) \<and>
     (\<forall>p. owns_lock (lw_pc w p) \<longrightarrow> lf_lock (lw_files w) = Some (lock_content p (lw_pc w p))) \<and>
     (\<forall>p q. owns_recovery (lw_pc w p) \<longrightarrow> owns_recovery (lw_pc w q) \<longrightarrow> p = q) \<and>
     (\<forall>p. owns_recovery (lw_pc w p) \<longrightarrow> lf_recovery (lw_files w) \<noteq> None) \<and>
     (\<forall>p. lw_pc w p = LRemove \<longrightarrow> (\<exists>q. lf_lock (lw_files w) = Some (OwnedBy q) \<and> lw_pc w q = LDead))"

lemma lease_okE:
  assumes "lease_ok w"
  shows "owns_lock (lw_pc w p) \<Longrightarrow> owns_lock (lw_pc w q) \<Longrightarrow> p = q"
    and "owns_lock (lw_pc w p) \<Longrightarrow> lf_lock (lw_files w) = Some (lock_content p (lw_pc w p))"
    and "owns_recovery (lw_pc w p) \<Longrightarrow> owns_recovery (lw_pc w q) \<Longrightarrow> p = q"
    and "owns_recovery (lw_pc w p) \<Longrightarrow> lf_recovery (lw_files w) \<noteq> None"
    and "lw_pc w p = LRemove \<Longrightarrow> \<exists>q. lf_lock (lw_files w) = Some (OwnedBy q) \<and> lw_pc w q = LDead"
  using assms unfolding lease_ok_def by blast+

text \<open>What a move of one process has to respect.\<close>

lemma goes_ok:
  assumes ok: "lease_ok w" and alive: "lw_pc w p \<noteq> LDead"
    and lock: "owns_lock c \<Longrightarrow> owns_lock (lw_pc w p) \<or> lf_lock (lw_files w) = None"
      "owns_lock c \<Longrightarrow> lf_lock fs = Some (lock_content p c)"
      "\<not> owns_lock c \<Longrightarrow> owns_lock (lw_pc w p) \<or> lf_lock fs = lf_lock (lw_files w) \<or> lw_pc w p = LRemove"
    and rec: "owns_recovery c \<Longrightarrow> owns_recovery (lw_pc w p) \<or> lf_recovery (lw_files w) = None"
      "owns_recovery c \<Longrightarrow> lf_recovery fs \<noteq> None"
      "\<not> owns_recovery c \<Longrightarrow> owns_recovery (lw_pc w p) \<or> lf_recovery fs = lf_recovery (lw_files w)"
    and remove: "c = LRemove \<Longrightarrow> lf_lock fs = lf_lock (lw_files w) \<and> (\<exists>q. lf_lock fs = Some (OwnedBy q) \<and> lw_pc w q = LDead)"
  shows "lease_ok (goes p c fs w)"
proof -
  note inv = lease_okE [OF ok]
  have other_lock: "\<not> owns_lock (lw_pc w q)" if "owns_lock c" "q \<noteq> p" for q
    using lock(1) [OF that(1)] inv(1) inv(2) [of q] that by force
  have other_rec: "\<not> owns_recovery (lw_pc w q)" if "owns_recovery c" "q \<noteq> p" for q
    using rec(1) [OF that(1)] inv(3) inv(4) [of q] that by force
  have dead_owner: "lf_lock fs = Some (lock_content q (lw_pc w q))" if "owns_lock (lw_pc w q)" "q \<noteq> p" for q
  proof -
    have "\<not> owns_lock c" using other_lock that by blast
    moreover have "\<not> owns_lock (lw_pc w p)" using inv(1) that by blast
    moreover have "lw_pc w p \<noteq> LRemove"
    proof
      assume "lw_pc w p = LRemove"
      then obtain r where "lf_lock (lw_files w) = Some (OwnedBy r)" "lw_pc w r = LDead" using inv(5) by blast
      then show False using inv(2) [OF that(1)] that(1) by (auto simp: lock_content_def owns_lock_def split: if_splits)
    qed
    ultimately show ?thesis using lock(3) inv(2) [OF that(1)] by auto
  qed
  have dead_rec: "lf_recovery fs \<noteq> None" if "owns_recovery (lw_pc w q)" "q \<noteq> p" for q
    using rec(3) other_rec [of q] that inv(3) [of p q] inv(4) [of q] by metis
  have removing: "\<exists>r. lf_lock fs = Some (OwnedBy r) \<and> lw_pc w r = LDead \<and> r \<noteq> p" if q: "lw_pc w q = LRemove" "q \<noteq> p" for q
  proof -
    obtain r where r: "lf_lock (lw_files w) = Some (OwnedBy r)" "lw_pc w r = LDead" using inv(5) [OF q(1)] by blast
    have "\<not> owns_lock (lw_pc w p)" using inv(2) [of p] r alive by (auto simp: lock_content_def owns_lock_def split: if_splits)
    moreover have "lw_pc w p \<noteq> LRemove" using inv(3) [of p q] q by (auto simp: owns_recovery_def)
    moreover have "\<not> owns_lock c" using calculation(1) lock(1) r(1) by auto
    ultimately show ?thesis using lock(3) r alive by auto
  qed
  show ?thesis
    unfolding lease_ok_def goes_def
  proof (intro conjI allI impI)
    fix q r
    let ?w = "w\<lparr>lw_files := fs, lw_pc := (lw_pc w)(p := c)\<rparr>"
    show "q = r" if "owns_lock (lw_pc ?w q)" "owns_lock (lw_pc ?w r)"
      using that other_lock inv(1) by (auto split: if_splits)
    show "lf_lock (lw_files ?w) = Some (lock_content q (lw_pc ?w q))" if "owns_lock (lw_pc ?w q)"
      using that lock(2) dead_owner by (auto split: if_splits)
    show "q = r" if "owns_recovery (lw_pc ?w q)" "owns_recovery (lw_pc ?w r)"
      using that other_rec inv(3) by (auto split: if_splits)
    show "lf_recovery (lw_files ?w) \<noteq> None" if "owns_recovery (lw_pc ?w q)"
      using that rec(2) dead_rec by (auto split: if_splits)
    show "\<exists>r. lf_lock (lw_files ?w) = Some (OwnedBy r) \<and> lw_pc ?w r = LDead" if "lw_pc ?w q = LRemove"
    proof (cases "q = p")
      case True
      then have "c = LRemove" using that by simp
      then obtain r where "lf_lock fs = Some (OwnedBy r)" "lw_pc w r = LDead" using remove by blast
      then show ?thesis using alive by (intro exI [of _ r]) auto
    next
      case False
      then have "lw_pc w q = LRemove" using that by simp
      then obtain r where "lf_lock fs = Some (OwnedBy r)" "lw_pc w r = LDead" "r \<noteq> p" using removing False by blast
      then show ?thesis by (intro exI [of _ r]) auto
    qed
  qed
qed

lemmas lease_pc_sets = owns_lock_def owns_recovery_def lock_content_def

lemma lease_advance_ok: "lease_ok w \<Longrightarrow> lease_ok (lease_advance p ok w)"
  by (cases "lw_pc w p")
    (auto simp: lease_advance_def Let_def lease_pc_sets readOwner_def lease_release_def process_alive_def
      intro!: goes_ok split: option.split lease_owner.split dest: lease_okE)

lemma lease_dies_ok: "lease_ok w \<Longrightarrow> lease_ok (goes p LDead (lw_files w) w)"
proof -
  assume "lease_ok w"
  note inv = lease_okE [OF this]
  have dead: "\<not> owns_lock LDead" "\<not> owns_recovery LDead" by (simp_all add: lease_pc_sets)
  show ?thesis
    unfolding lease_ok_def goes_def
  proof (intro conjI allI impI)
    fix q r
    let ?w = "w\<lparr>lw_files := lw_files w, lw_pc := (lw_pc w)(p := LDead)\<rparr>"
    show "q = r" if "owns_lock (lw_pc ?w q)" "owns_lock (lw_pc ?w r)"
      using that inv(1) dead by (auto split: if_splits)
    show "lf_lock (lw_files ?w) = Some (lock_content q (lw_pc ?w q))" if "owns_lock (lw_pc ?w q)"
      using that inv(2) dead by (auto split: if_splits)
    show "q = r" if "owns_recovery (lw_pc ?w q)" "owns_recovery (lw_pc ?w r)"
      using that inv(3) dead by (auto split: if_splits)
    show "lf_recovery (lw_files ?w) \<noteq> None" if "owns_recovery (lw_pc ?w q)"
      using that inv(4) dead by (auto split: if_splits)
    show "\<exists>r. lf_lock (lw_files ?w) = Some (OwnedBy r) \<and> lw_pc ?w r = LDead" if "lw_pc ?w q = LRemove"
      using that inv(5) [of q] by (auto split: if_splits)
  qed
qed

interpretation leases_machine: invariant_machine lease_step lease_ok
proof unfold_locales
  show "lease_ok w \<Longrightarrow> lease_ok (lease_step e w)" for w e
    by (cases e) (simp_all add: lease_advance_ok lease_dies_ok)
qed

lemma no_process_ok: "lease_ok no_process"
  by (simp add: lease_ok_def no_process_def lease_pc_sets)

text \<open>C34. A run's state has one writer. However processes interleave, fail to write or die between any two
  file accesses, at most one process holds the state lease, and the lock file then names it.\<close>

theorem state_lease_exclusive:
  "let w = run_events lease_step es no_process in
     (if lw_pc w p = LHolding \<and> lw_pc w q = LHolding then p = q else True) \<and>
     (if lw_pc w p = LHolding then lf_lock (lw_files w) = Some (OwnedBy p) else True)"
proof -
  have "lease_ok (run_events lease_step es no_process)" by (rule leases_machine.inv_run [OF no_process_ok])
  note inv = lease_okE [OF this, of p]
  have holds: "owns_lock LHolding" "lock_content p LHolding = OwnedBy p" by (simp_all add: owns_lock_def lock_content_def)
  show ?thesis unfolding Let_def using inv(1) [of q] inv(2) holds by simp
qed

section \<open>Recovery\<close>

text \<open>Nothing but the process that made the recovery file removes it, so one that dies in between leaves
  the lease unobtainable for good.\<close>

definition wedged :: "lease_world \<Rightarrow> bool" where
  "wedged w \<longleftrightarrow> lf_recovery (lw_files w) \<noteq> None \<and>
     (\<forall>p. lw_pc w p = LOutside \<or> lw_pc w p = LRecover \<or> lw_pc w p = LDead)"

lemma wedged_step: "wedged w \<Longrightarrow> wedged (lease_step e w)"
proof (cases e)
  case (Advance p ok)
  assume w: "wedged w"
  then have "lw_pc w p = LOutside \<or> lw_pc w p = LRecover \<or> lw_pc w p = LDead" by (simp add: wedged_def)
  then show ?thesis using w by (elim disjE) (simp_all add: Advance lease_advance_def Let_def wedged_def goes_def)
qed (auto simp: wedged_def goes_def)

interpretation wedge: invariant_machine lease_step wedged
  by unfold_locales (rule wedged_step)

text \<open>C39. A death during recovery wedges the run. Once a process died between making the recovery file and removing it,
  while no other was inside an operation, no process ever obtains the lease of that run again.\<close>

theorem dead_recovery_wedges:
  assumes "lf_recovery (lw_files w) \<noteq> None" and "list_all (\<lambda>p. lw_pc w p = LDead) dead"
    and "\<And>p. p \<notin> set dead \<Longrightarrow> lw_pc w p = LOutside"
  shows "lw_pc (run_events lease_step es w) p \<noteq> LHolding"
proof -
  have "wedged w" using assms unfolding wedged_def list_all_iff by blast
  then have "wedged (run_events lease_step es w)" by (rule wedge.inv_run)
  then show ?thesis by (auto simp: wedged_def dest: spec [of _ p])
qed

theorem dead_recovery_wedges_witness:
  "let w = run_events lease_step [Advance 1 True, Advance 1 True, Advance 1 True, Dies 1, Advance 2 True, Advance 2 True, Advance 2 True,
       Advance 2 True, Dies 2] no_process in
     lf_lock (lw_files w) = Some (OwnedBy 1) \<and> lf_recovery (lw_files w) = Some (OwnedBy 2) \<and>
     (\<forall>es. lw_pc (run_events lease_step es w) 3 \<noteq> LHolding)"
proof -
  let ?w = "run_events lease_step [Advance 1 True, Advance 1 True, Advance 1 True, Dies 1, Advance 2 True, Advance 2 True, Advance 2 True,
       Advance 2 True, Dies 2] no_process"
  have w: "?w = \<lparr>lw_files = \<lparr>lf_lock = Some (OwnedBy 1), lf_recovery = Some (OwnedBy 2)\<rparr>, lw_pc = (\<lambda>_. LOutside)(1 := LDead, 2 := LDead)\<rparr>"
    by (simp add: no_process_def no_lease_files_def lease_advance_def goes_def Let_def fun_eq_iff)
  show ?thesis unfolding Let_def w using dead_recovery_wedges [of _ "[1, 2]" _ 3] by simp
qed

section \<open>A process alone\<close>

text \<open>The file accesses of one operation of a process that is not interfered with.\<close>

fun alone :: "nat \<Rightarrow> nat \<Rightarrow> lease_world \<Rightarrow> lease_world" where
  "alone p 0 w = w"
| "alone p (Suc n) w = (let w' = lease_advance p True w in
     if lw_pc w' p = LOutside \<or> lw_pc w' p = LHolding then w' else alone p n w')"

text \<open>C52. The operation is its file accesses. A process that starts to acquire and is not interfered
  with ends, after at most nine file accesses, with the outcome and the files of the one operation: it
  holds the lease exactly when acquire does not throw, and a lock left by a dead process is replaced.\<close>

theorem lease_acquire_is_its_accesses:
  assumes "lw_pc w p = LOutside"
  shows "lw_files (alone p 9 w) = snd (lease_acquire p (process_alive w) (lw_files w)) \<and>
    lw_pc (alone p 9 w) p = (if fst (lease_acquire p (process_alive w) (lw_files w)) = Inr () then LHolding else LOutside)"
proof -
  obtain lock rec where fs: "lw_files w = \<lparr>lf_lock = lock, lf_recovery = rec\<rparr>" by (cases "lw_files w")
  show ?thesis
    using assms fs
    by (cases rec; cases lock; (cases "the lock")?)
      (auto simp: eval_nat_numeral lease_advance_def goes_def Let_def lease_acquire_def recoverDeadOwner_def tryCreateLock_def
        readOwner_def process_alive_def split: option.split lease_owner.split)
qed

end
