(* ===== verification/Agent_Run_Store.thy ===== *)
theory Agent_Run_Store
  imports Complex_Main Run_State_Lease
begin

text \<open>
  The stored state of a repo-agent run (src/repo-agent/run-schemas.ts, src/repo-agent/run-store.ts): one
  directory per run with the request, the state and the state lease. A state file is replaced
  atomically, so it holds a state or, when something else wrote it, nothing that can be parsed. Every
  operation gives its result or error and the store after it.
\<close>

section \<open>States\<close>

record repo_approval =
  ra_approvalId :: nat
  ra_toolName :: string
  ra_command :: string
  ra_reviewPayload :: "string option"

datatype agent_status =
    AgentStarting
  | AgentRunning
  | AgentApprovalRequired repo_approval
  | AgentApprovalTimeout repo_approval
  | AgentCompleted string
  | AgentFailed string "string option"
  | AgentAborted

record agent_run_state =
  ag_runId :: nat
  ag_revision :: nat
  ag_updatedAt :: nat
  ag_pid :: "nat option"
  ag_status :: agent_status

definition isTerminalStatus :: "agent_status \<Rightarrow> bool" where
  "isTerminalStatus st = (case st of AgentCompleted _ \<Rightarrow> True | AgentFailed _ _ \<Rightarrow> True | AgentAborted \<Rightarrow> True
    | AgentApprovalTimeout _ \<Rightarrow> True | _ \<Rightarrow> False)"

definition isActiveStatus :: "agent_status \<Rightarrow> bool" where
  "isActiveStatus st \<longleftrightarrow> \<not> isTerminalStatus st"

text \<open>What the schemas require beyond the types.\<close>

definition approval_parses :: "repo_approval \<Rightarrow> bool" where
  "approval_parses a \<longleftrightarrow> ra_toolName a \<noteq> [] \<and> ra_command a \<noteq> []"

definition positive_pid :: "nat option \<Rightarrow> bool" where
  "positive_pid p = (case p of None \<Rightarrow> False | Some n \<Rightarrow> n > 0)"

definition state_parses :: "agent_run_state \<Rightarrow> bool" where
  "state_parses s = (case ag_status s of
      AgentFailed e _ \<Rightarrow> e \<noteq> [] \<and> (ag_pid s = None \<or> positive_pid (ag_pid s))
    | AgentApprovalRequired a \<Rightarrow> positive_pid (ag_pid s) \<and> approval_parses a
    | AgentApprovalTimeout a \<Rightarrow> positive_pid (ag_pid s) \<and> approval_parses a
    | _ \<Rightarrow> positive_pid (ag_pid s))"

datatype agent_result =
    ResultCompleted nat string
  | ResultApprovalRequired nat repo_approval
  | ResultApprovalTimeout nat repo_approval
  | ResultFailed nat string "string option"
  | ResultAborted nat

text \<open>The commands a result offers to decide with are functions of its run.\<close>

definition buildRepoAgentDecideCommands :: "nat \<Rightarrow> string \<times> string \<times> string" where
  "buildRepoAgentDecideCommands i = (let run = ''siftkit repo-agent decide '' @ show_nat i in
     (run @ '' approve'', run @ '' deny --reason '' @ [CHR 0x22] @ ''<why>'' @ [CHR 0x22], run @ '' abort''))"

definition repoAgentStateToResult :: "agent_run_state \<Rightarrow> agent_result option" where
  "repoAgentStateToResult s = (let i = ag_runId s in case ag_status s of
      AgentCompleted out \<Rightarrow> Some (ResultCompleted i out)
    | AgentApprovalRequired a \<Rightarrow> Some (ResultApprovalRequired i a)
    | AgentApprovalTimeout a \<Rightarrow> Some (ResultApprovalTimeout i a)
    | AgentFailed e out \<Rightarrow> Some (ResultFailed i e out)
    | AgentAborted \<Rightarrow> Some (ResultAborted i)
    | _ \<Rightarrow> None)"

section \<open>The store\<close>

record agent_request =
  aq_runId :: nat
  aq_task :: string
  aq_repoRoot :: string
  aq_model :: "string option"
  aq_logFile :: "string option"
  aq_approval :: string
  aq_images :: "string list"

datatype 'a stored_file = Readable 'a | Malformed

record agent_dir =
  ad_request :: "agent_request stored_file option"
  ad_state :: "agent_run_state stored_file option"
  ad_lease :: lease_files

type_synonym agent_store = "nat \<Rightarrow> agent_dir option"

datatype agent_error =
    RunExists nat
  | RunMissing nat
  | RequestRefused
  | StateMissing nat
  | StateMalformed nat
  | StaleState nat nat
  | AlreadyTerminal nat
  | StateRefused
  | OtherRun nat
  | RevisionSkipped
  | PidChanged
  | NotRunning
  | NothingPending nat
  | LeaseRefused lease_error
  | WriteFailed
  | BadRetention

text \<open>The process an operation runs in: its id, which processes live, the time, and whether its write
  reaches the disk.\<close>

record agent_env =
  ae_pid :: nat
  ae_alive :: "nat \<Rightarrow> bool"
  ae_now :: nat
  ae_writes :: bool

type_synonym 'a store_op = "agent_store \<Rightarrow> (agent_error + 'a) \<times> agent_store"

definition request_parses :: "agent_request \<Rightarrow> bool" where
  "request_parses q \<longleftrightarrow> js_trim (aq_task q) \<noteq> [] \<and> aq_repoRoot q \<noteq> [] \<and> aq_model q \<noteq> Some [] \<and> aq_logFile q \<noteq> Some []"

definition agent_create :: "agent_env \<Rightarrow> agent_request \<Rightarrow> agent_run_state store_op" where
  "agent_create en q st =
     (if \<not> request_parses q then (Inl RequestRefused, st)
      else let i = aq_runId q in
        if st i \<noteq> None then (Inl (RunExists i), st)
        else let s = \<lparr>ag_runId = i, ag_revision = 0, ag_updatedAt = ae_now en, ag_pid = Some (ae_pid en), ag_status = AgentStarting\<rparr> in
          if \<not> ae_writes en then (Inl WriteFailed, st(i := None))
          else if \<not> state_parses s then (Inl StateRefused, st(i := None))
          else (Inr s, st(i := Some \<lparr>ad_request = Some (Readable (q\<lparr>aq_task := js_trim (aq_task q)\<rparr>)),
                 ad_state = Some (Readable s), ad_lease = no_lease_files\<rparr>)))"

definition readStateFile :: "nat \<Rightarrow> agent_dir \<Rightarrow> agent_error + agent_run_state" where
  "readStateFile i d = (case ad_state d of None \<Rightarrow> Inl (StateMissing i) | Some Malformed \<Rightarrow> Inl (StateMalformed i)
    | Some (Readable s) \<Rightarrow> Inr s)"

definition readState :: "nat \<Rightarrow> agent_store \<Rightarrow> agent_error + agent_run_state" where
  "readState i st = (case st i of None \<Rightarrow> Inl (StateMissing i) | Some d \<Rightarrow> readStateFile i d)"

definition writeState :: "agent_env \<Rightarrow> agent_run_state \<Rightarrow> agent_dir \<Rightarrow> (agent_error + agent_run_state) \<times> agent_dir" where
  "writeState en s d = (if ae_writes en then (Inr s, d\<lparr>ad_state := Some (Readable s)\<rparr>) else (Inl WriteFailed, d))"

text \<open>\<open>lease.acquire(); try { ... } finally { lease.release(); }\<close>; without the directory the lock
  file cannot be made.\<close>

definition with_state_lease ::
  "agent_env \<Rightarrow> nat \<Rightarrow> (agent_dir \<Rightarrow> (agent_error + 'a) \<times> agent_dir) \<Rightarrow> 'a store_op" where
  "with_state_lease en i body st =
     (case st i of
        None \<Rightarrow> (Inl (RunMissing i), st)
      | Some d \<Rightarrow>
          (case lease_acquire (ae_pid en) (ae_alive en) (ad_lease d) of
             (Inl e, fs) \<Rightarrow> (Inl (LeaseRefused e), st(i \<mapsto> d\<lparr>ad_lease := fs\<rparr>))
           | (Inr _, fs) \<Rightarrow>
               let (r, d') = body (d\<lparr>ad_lease := fs\<rparr>) in
               (case lease_release (ae_pid en) (ad_lease d') of
                  Inl e \<Rightarrow> (Inl (LeaseRefused e), st(i \<mapsto> d'))
                | Inr fs' \<Rightarrow> (r, st(i \<mapsto> d'\<lparr>ad_lease := fs'\<rparr>)))))"

text \<open>The read, the checks and the write of one update.\<close>

definition update_state ::
  "agent_env \<Rightarrow> nat \<Rightarrow> (agent_run_state \<Rightarrow> agent_error + agent_run_state) \<Rightarrow> agent_run_state store_op" where
  "update_state en i check = with_state_lease en i (\<lambda>d.
     case bind_result (readStateFile i d) check of Inl e \<Rightarrow> (Inl e, d) | Inr s \<Rightarrow> writeState en s d)"

definition assertCurrentRevision :: "agent_run_state \<Rightarrow> nat \<Rightarrow> agent_error + unit" where
  "assertCurrentRevision cur expected =
     (if ag_revision cur \<noteq> expected then Inl (StaleState expected (ag_revision cur)) else Inr ())"

definition assertWorkerPidPreserved :: "agent_run_state \<Rightarrow> agent_run_state \<Rightarrow> agent_error + unit" where
  "assertWorkerPidPreserved cur nxt =
     (if ag_pid cur \<noteq> None \<and> ag_pid nxt \<noteq> ag_pid cur then Inl PidChanged else Inr ())"

definition parsed :: "agent_run_state \<Rightarrow> agent_error + agent_run_state" where
  "parsed s = (if state_parses s then Inr s else Inl StateRefused)"

definition transition :: "agent_env \<Rightarrow> nat \<Rightarrow> nat \<Rightarrow> agent_run_state \<Rightarrow> agent_run_state store_op" where
  "transition en i expected nxt = update_state en i (\<lambda>cur.
     bind_result (assertCurrentRevision cur expected) (\<lambda>_.
     if isTerminalStatus (ag_status cur) then Inl (AlreadyTerminal i)
     else bind_result (parsed nxt) (\<lambda>n.
       if ag_runId n \<noteq> i then Inl (OtherRun (ag_runId n))
       else if ag_revision n \<noteq> expected + 1 then Inl RevisionSkipped
       else bind_result (assertWorkerPidPreserved cur n) (\<lambda>_. Inr n))))"

definition next_state :: "agent_env \<Rightarrow> nat \<Rightarrow> nat \<Rightarrow> nat option \<Rightarrow> agent_status \<Rightarrow> agent_run_state" where
  "next_state en i revision pid st =
     \<lparr>ag_runId = i, ag_revision = revision, ag_updatedAt = ae_now en, ag_pid = pid, ag_status = st\<rparr>"

definition publishApproval :: "agent_env \<Rightarrow> nat \<Rightarrow> nat \<Rightarrow> repo_approval \<Rightarrow> agent_run_state store_op" where
  "publishApproval en i expected a = update_state en i (\<lambda>cur.
     bind_result (assertCurrentRevision cur expected) (\<lambda>_.
     if ag_status cur \<noteq> AgentRunning then Inl NotRunning
     else if \<not> approval_parses a then Inl StateRefused
     else parsed (next_state en i (expected + 1) (ag_pid cur) (AgentApprovalRequired a))))"

datatype cleared_status = ClearedRunning | ClearedAborted | ClearedTimeout

definition clearPendingApproval :: "agent_env \<Rightarrow> nat \<Rightarrow> nat \<Rightarrow> cleared_status \<Rightarrow> agent_run_state store_op" where
  "clearPendingApproval en i expected st = update_state en i (\<lambda>cur.
     bind_result (assertCurrentRevision cur expected) (\<lambda>_.
     case ag_status cur of
       AgentApprovalRequired a \<Rightarrow>
         parsed (next_state en i (expected + 1) (ag_pid cur) (case st of
             ClearedRunning \<Rightarrow> AgentRunning
           | ClearedAborted \<Rightarrow> AgentAborted
           | ClearedTimeout \<Rightarrow> AgentApprovalTimeout (a\<lparr>ra_reviewPayload := None\<rparr>)))
     | _ \<Rightarrow> Inl (NothingPending i)))"

definition not_resumable_message :: string where
  "not_resumable_message = ''Run is not resumable: the status server restarted while the run was active and the in-memory conversation was lost. Start a new run.''"

definition markNotResumable :: "agent_env \<Rightarrow> nat \<Rightarrow> agent_run_state store_op" where
  "markNotResumable en i = with_state_lease en i (\<lambda>d.
     case readStateFile i d of
       Inl e \<Rightarrow> (Inl e, d)
     | Inr cur \<Rightarrow>
         if isTerminalStatus (ag_status cur) then (Inr cur, d)
         else (case parsed (next_state en i (ag_revision cur + 1) (ag_pid cur) (AgentFailed not_resumable_message None)) of
             Inl e \<Rightarrow> (Inl e, d) | Inr s \<Rightarrow> writeState en s d))"

definition died_message :: "nat \<Rightarrow> string" where
  "died_message pid = ''Owning server process '' @ show_nat pid @ '' died while the run was active.''"

text \<open>\<open>between\<close> is what other processes do to the store after the first read.\<close>

definition reconcile :: "agent_env \<Rightarrow> (agent_store \<Rightarrow> agent_store) \<Rightarrow> nat \<Rightarrow> agent_run_state store_op" where
  "reconcile en between i st =
     (case readState i st of
        Inl e \<Rightarrow> (Inl e, st)
      | Inr s \<Rightarrow>
          if \<not> isActiveStatus (ag_status s) then (Inr s, st)
          else (case ag_pid s of
              None \<Rightarrow> (Inr s, st)
            | Some pid \<Rightarrow>
                if ae_alive en pid then (Inr s, st)
                else (case transition en i (ag_revision s)
                        (next_state en i (ag_revision s + 1) (Some pid) (AgentFailed (died_message pid) None)) (between st) of
                    (Inr s', st') \<Rightarrow> (Inr s', st')
                  | (Inl e, st') \<Rightarrow>
                      (case readState i st' of
                         Inl _ \<Rightarrow> (Inl e, st')
                       | Inr fresh \<Rightarrow> if ag_revision fresh = ag_revision s then (Inl e, st') else (Inr fresh, st')))))"

text \<open>The directories in listing order; what cannot be read is skipped.\<close>

definition prunable :: "rat \<Rightarrow> agent_store \<Rightarrow> nat \<Rightarrow> bool" where
  "prunable cutoff st i = (case readState i st of
     Inl _ \<Rightarrow> False | Inr s \<Rightarrow> isTerminalStatus (ag_status s) \<and> of_nat (ag_updatedAt s) < cutoff)"

definition pruneTerminalRuns :: "rat \<Rightarrow> nat \<Rightarrow> nat list \<Rightarrow> nat list store_op" where
  "pruneTerminalRuns retentionDays now listing st =
     (if retentionDays < 0 then (Inl BadRetention, st)
      else let cutoff = of_nat now - retentionDays * 24 * 60 * 60 * 1000;
               pruned = filter (prunable cutoff st) listing
           in (Inr pruned, \<lambda>i. if i \<in> set pruned then None else st i))"

section \<open>What calls do to the records\<close>

definition agent_record :: "agent_store \<Rightarrow> nat \<Rightarrow> agent_run_state option" where
  "agent_record st i = (case readState i st of Inl _ \<Rightarrow> None | Inr s \<Rightarrow> Some s)"

lemma agent_record_dir:
  "agent_record st i = (case st i of None \<Rightarrow> None | Some d \<Rightarrow> (case ad_state d of Some (Readable s) \<Rightarrow> Some s | _ \<Rightarrow> None))"
  by (auto simp: agent_record_def readState_def readStateFile_def split: option.split stored_file.split)

definition agent_store_ok :: "agent_store \<Rightarrow> bool" where
  "agent_store_ok st \<longleftrightarrow> (\<forall>i s. agent_record st i = Some s \<longrightarrow> ag_runId s = i \<and> state_parses s)"

text \<open>A record stays as it is, or it was not terminal and moved to a later revision of the same run.\<close>

definition record_grows :: "agent_run_state \<Rightarrow> agent_run_state \<Rightarrow> bool" where
  "record_grows s s' \<longleftrightarrow> s' = s \<or> \<not> isTerminalStatus (ag_status s) \<and> ag_revision s < ag_revision s' \<and>
     (ag_pid s = None \<or> ag_pid s' = ag_pid s)"

definition agent_grows :: "agent_store \<Rightarrow> agent_store \<Rightarrow> bool" where
  "agent_grows st st' \<longleftrightarrow> (\<forall>i s. agent_record st i = Some s \<longrightarrow> (\<exists>s'. agent_record st' i = Some s' \<and> record_grows s s'))"

lemma record_grows_trans: "record_grows a b \<Longrightarrow> record_grows b c \<Longrightarrow> record_grows a c"
  by (auto simp: record_grows_def)

lemma agent_grows_refl: "agent_grows st st"
  by (simp add: agent_grows_def record_grows_def)

lemma agent_grows_trans: "agent_grows a b \<Longrightarrow> agent_grows b c \<Longrightarrow> agent_grows a c"
  unfolding agent_grows_def using record_grows_trans by blast

text \<open>An update reads the record, and writes at most the state its checks let through.\<close>

definition step_ok :: "nat \<Rightarrow> agent_run_state \<Rightarrow> agent_run_state \<Rightarrow> bool" where
  "step_ok i cur s \<longleftrightarrow> state_parses s \<and> ag_runId s = i \<and> record_grows cur s"

lemma leased_body:
  assumes "with_state_lease en i body st = (r, st')"
    and "\<And>d r' d'. body d = (r', d') \<Longrightarrow> ad_state d' = ad_state d \<or>
      (\<exists>cur s. ad_state d = Some (Readable cur) \<and> ad_state d' = Some (Readable s) \<and> step_ok i cur s)"
  shows "agent_grows st st' \<and> (agent_store_ok st \<longrightarrow> agent_store_ok st')"
proof (cases "st i")
  case None
  then show ?thesis using assms(1) by (simp add: with_state_lease_def agent_grows_refl)
next
  case (Some d)
  have "\<exists>d'. st' = st(i \<mapsto> d') \<and> (ad_state d' = ad_state d \<or>
      (\<exists>cur s. ad_state d = Some (Readable cur) \<and> ad_state d' = Some (Readable s) \<and> step_ok i cur s))"
  proof (cases "lease_acquire (ae_pid en) (ae_alive en) (ad_lease d)")
    case (Pair a fs)
    obtain r' d' where b: "body (d\<lparr>ad_lease := fs\<rparr>) = (r', d')" by fastforce
    show ?thesis
      using assms(1) Some Pair b assms(2) [OF b]
      by (cases a) (auto simp: with_state_lease_def split: sum.splits)
  qed
  then obtain d' where d': "st' = st(i \<mapsto> d')" "ad_state d' = ad_state d \<or>
      (\<exists>cur s. ad_state d = Some (Readable cur) \<and> ad_state d' = Some (Readable s) \<and> step_ok i cur s)" by blast
  have rec: "agent_record st' j = (if j = i then (case ad_state d' of Some (Readable s) \<Rightarrow> Some s | _ \<Rightarrow> None) else agent_record st j)" for j
    by (simp add: agent_record_dir d'(1))
  have old: "agent_record st i = (case ad_state d of Some (Readable s) \<Rightarrow> Some s | _ \<Rightarrow> None)"
    by (simp add: agent_record_dir Some)
  from d'(2) show ?thesis
  proof (elim disjE exE conjE)
    assume "ad_state d' = ad_state d"
    then have "agent_record st' = agent_record st" using rec old by auto
    then show ?thesis by (simp add: agent_grows_def agent_store_ok_def record_grows_def)
  next
    fix cur s assume "ad_state d = Some (Readable cur)" "ad_state d' = Some (Readable s)" "step_ok i cur s"
    then have "agent_record st i = Some cur" "agent_record st' = (agent_record st)(i \<mapsto> s)" "step_ok i cur s"
      using rec old by auto
    then show ?thesis by (auto simp: agent_grows_def agent_store_ok_def step_ok_def record_grows_def)
  qed
qed

lemma updated:
  assumes "update_state en i check st = (r, st')"
    and "\<And>cur s. check cur = Inr s \<Longrightarrow> step_ok i cur s"
  shows "agent_grows st st' \<and> (agent_store_ok st \<longrightarrow> agent_store_ok st')"
  by (rule leased_body [OF assms(1) [unfolded update_state_def]])
    (auto simp: readStateFile_def writeState_def assms(2) split: option.splits stored_file.splits sum.splits if_splits)

lemmas check_defs = assertCurrentRevision_def assertWorkerPidPreserved_def parsed_def step_ok_def record_grows_def

lemma transition_grows:
  "transition en i v nxt st = (r, st') \<Longrightarrow> agent_grows st st' \<and> (agent_store_ok st \<longrightarrow> agent_store_ok st')"
  unfolding transition_def by (erule updated) (auto simp: check_defs split: if_splits)

lemma publish_grows:
  "publishApproval en i v a st = (r, st') \<Longrightarrow> agent_grows st st' \<and> (agent_store_ok st \<longrightarrow> agent_store_ok st')"
  unfolding publishApproval_def by (erule updated) (auto simp: check_defs next_state_def isTerminalStatus_def split: if_splits)

lemma clear_grows:
  "clearPendingApproval en i v c st = (r, st') \<Longrightarrow> agent_grows st st' \<and> (agent_store_ok st \<longrightarrow> agent_store_ok st')"
  unfolding clearPendingApproval_def
  by (erule updated) (auto simp: check_defs next_state_def isTerminalStatus_def split: if_splits agent_status.splits)

lemma not_resumable_grows:
  "markNotResumable en i st = (r, st') \<Longrightarrow> agent_grows st st' \<and> (agent_store_ok st \<longrightarrow> agent_store_ok st')"
  unfolding markNotResumable_def
  by (erule leased_body) (auto simp: readStateFile_def writeState_def check_defs next_state_def
    split: option.splits stored_file.splits sum.splits if_splits)

lemma reconcile_grows:
  assumes "reconcile en between i st = (r, st')" and "agent_grows st (between st) \<and> (agent_store_ok st \<longrightarrow> agent_store_ok (between st))"
  shows "agent_grows st st' \<and> (agent_store_ok st \<longrightarrow> agent_store_ok st')"
proof -
  have "st' = st \<or> (\<exists>v n r'. transition en i v n (between st) = (r', st'))"
    using assms(1) by (auto simp: reconcile_def split: sum.splits if_splits option.splits prod.splits)
  then show ?thesis using assms(2) transition_grows agent_grows_refl agent_grows_trans by metis
qed

lemma create_grows:
  "agent_create en q st = (r, st') \<Longrightarrow> agent_grows st st' \<and> (agent_store_ok st \<longrightarrow> agent_store_ok st')"
  by (auto simp: agent_create_def Let_def agent_grows_def agent_store_ok_def agent_record_dir record_grows_def split: if_splits)

section \<open>Histories of calls\<close>

datatype agent_call =
    CallCreate agent_request
  | CallTransition nat nat agent_run_state
  | CallPublish nat nat repo_approval
  | CallClear nat nat cleared_status
  | CallNotResumable nat
  | CallReconcile nat

fun agent_call_step :: "agent_env \<times> agent_call \<Rightarrow> agent_store \<Rightarrow> agent_store" where
  "agent_call_step (en, CallCreate q) st = snd (agent_create en q st)"
| "agent_call_step (en, CallTransition i v n) st = snd (transition en i v n st)"
| "agent_call_step (en, CallPublish i v a) st = snd (publishApproval en i v a st)"
| "agent_call_step (en, CallClear i v c) st = snd (clearPendingApproval en i v c st)"
| "agent_call_step (en, CallNotResumable i) st = snd (markNotResumable en i st)"
| "agent_call_step (en, CallReconcile i) st = snd (reconcile en (\<lambda>st. st) i st)"

lemma call_step: "agent_grows st (agent_call_step c st) \<and> (agent_store_ok st \<longrightarrow> agent_store_ok (agent_call_step c st))"
proof (cases "(c, st)" rule: agent_call_step.cases)
  case (6 en i st)
  then show ?thesis using reconcile_grows [of en "\<lambda>st. st" i st] agent_grows_refl by (cases "reconcile en (\<lambda>st. st) i st") simp
qed (use create_grows transition_grows publish_grows clear_grows not_resumable_grows in \<open>simp, metis prod.collapse\<close>)+

interpretation agent_calls: monotone_machine agent_call_step agent_store_ok agent_grows
proof unfold_locales
  fix c st t u
  show "agent_store_ok st \<Longrightarrow> agent_store_ok (agent_call_step c st)" using call_step by blast
  show "agent_grows st st" by (rule agent_grows_refl)
  show "agent_grows st t \<Longrightarrow> agent_grows t u \<Longrightarrow> agent_grows st u" by (rule agent_grows_trans)
  show "agent_grows st (agent_call_step c st)" using call_step by blast
qed


text \<open>After an update that succeeded the lease is free again.\<close>

lemma lease_free_again:
  assumes "lease_acquire p alive fs = (Inr (), fs1)"
  shows "lease_release p fs1 = Inr no_lease_files"
  using assms
  by (cases fs) (auto simp: lease_acquire_def recoverDeadOwner_def tryCreateLock_def readOwner_def lease_release_def no_lease_files_def
    split: option.splits lease_owner.splits if_splits)

lemma update_success:
  assumes "update_state en i check st = (Inr s, st')"
  shows "\<exists>d cur. st' i = Some d \<and> ad_state d = Some (Readable s) \<and> ad_lease d = no_lease_files \<and> check cur = Inr s"
proof -
  obtain d fs where d: "st i = Some d" "lease_acquire (ae_pid en) (ae_alive en) (ad_lease d) = (Inr (), fs)"
    using assms by (auto simp: update_state_def with_state_lease_def split: option.splits prod.splits sum.splits)
  then show ?thesis
    using assms lease_free_again [OF d(2)]
    by (auto simp: update_state_def with_state_lease_def readStateFile_def writeState_def Let_def
      split: option.splits prod.splits sum.splits stored_file.splits if_splits)
qed

lemma stale_update:
  assumes "st i = Some d" and "ad_state d = Some (Readable cur)" and "ad_lease d = no_lease_files" and "check cur = Inl e"
  shows "fst (update_state en i check st) = Inl e"
  using assms by (simp add: update_state_def with_state_lease_def readStateFile_def lease_acquire_def tryCreateLock_def lease_release_def
    readOwner_def no_lease_files_def Let_def)

text \<open>Of two writers at one revision one is refused. After a transition from a revision has succeeded,
  every other transition, approval or clearing prepared at that revision, by whatever process, is refused as
  stale, so no two continuations of one state are both recorded.\<close>

theorem second_writer_refused:
  assumes "transition en i v n st = (Inr s, st')"
  shows "fst (transition en2 i v n2 st') = Inl (StaleState v (v + 1)) \<and>
    fst (publishApproval en2 i v a st') = Inl (StaleState v (v + 1)) \<and>
    fst (clearPendingApproval en2 i v c st') = Inl (StaleState v (v + 1))"
proof -
  obtain d cur where d: "st' i = Some d" "ad_state d = Some (Readable s)" "ad_lease d = no_lease_files" and
    checked: "bind_result (assertCurrentRevision cur v) (\<lambda>_.
       if isTerminalStatus (ag_status cur) then Inl (AlreadyTerminal i)
       else bind_result (parsed n) (\<lambda>n. if ag_runId n \<noteq> i then Inl (OtherRun (ag_runId n))
         else if ag_revision n \<noteq> v + 1 then Inl RevisionSkipped
         else bind_result (assertWorkerPidPreserved cur n) (\<lambda>_. Inr n))) = Inr s"
    using update_success [OF assms [unfolded transition_def]] by blast
  have "ag_revision s = v + 1" using checked by (auto simp: parsed_def split: if_splits)
  then have "assertCurrentRevision s v = Inl (StaleState v (v + 1))" by (simp add: assertCurrentRevision_def)
  then show ?thesis
    unfolding transition_def publishApproval_def clearPendingApproval_def
    by (intro conjI stale_update [where st = st' and i = i and d = d and cur = s, OF d]) simp_all
qed

section \<open>A run\<close>

definition example_agent_env :: "bool \<Rightarrow> agent_env" where
  "example_agent_env writes = \<lparr>ae_pid = 7, ae_alive = (\<lambda>p. p = 7), ae_now = 1, ae_writes = writes\<rparr>"

definition example_agent_calls :: "(agent_env \<times> agent_call) list" where
  "example_agent_calls = [
     (example_agent_env True, CallCreate \<lparr>aq_runId = 1, aq_task = '' t'', aq_repoRoot = ''r'', aq_model = None, aq_logFile = None,
        aq_approval = ''interactive'', aq_images = []\<rparr>),
     (example_agent_env True, CallTransition 1 0 (next_state (example_agent_env True) 1 1 (Some 7) AgentRunning)),
     (example_agent_env False, CallNotResumable 1),
     (example_agent_env True, CallNotResumable 1)]"

definition example_agent_store :: "nat \<Rightarrow> agent_store" where
  "example_agent_store n = run_events agent_call_step (take n example_agent_calls) (\<lambda>_. None)"

lemmas example_agent_simps = example_agent_store_def example_agent_calls_def example_agent_env_def agent_create_def request_parses_def
  state_parses_def positive_pid_def transition_def update_state_def with_state_lease_def lease_acquire_def tryCreateLock_def
  lease_release_def readOwner_def no_lease_files_def readStateFile_def writeState_def assertCurrentRevision_def parsed_def
  assertWorkerPidPreserved_def next_state_def markNotResumable_def isTerminalStatus_def agent_record_dir

lemma example_task: "js_trim '' t'' = ''t''"
  by code_simp


theorem second_writer_refused_witness:
  "let n = next_state (example_agent_env True) 1 1 (Some 7) AgentRunning; st' = snd (transition (example_agent_env True) 1 0 n (example_agent_store 1)) in
     fst (transition (example_agent_env True) 1 0 n (example_agent_store 1)) = Inr n \<and>
     fst (transition (example_agent_env True) 1 0 n st') = Inl (StaleState 0 1)"
proof -
  let ?n = "next_state (example_agent_env True) 1 1 (Some 7) AgentRunning"
  let ?t = "transition (example_agent_env True) 1 0 ?n (example_agent_store 1)"
  have first: "fst ?t = Inr ?n"
    by (simp add: example_agent_simps example_task not_resumable_message_def Let_def)
  then have "?t = (Inr ?n, snd ?t)" by (metis prod.collapse)
  from second_writer_refused [OF this, of "example_agent_env True" ?n] first show ?thesis unfolding Let_def by simp
qed

end
