(* ===== verification/Approval_Gate.thy ===== *)
theory Approval_Gate
  imports Sift_Prelude
begin

text \<open>
  The gate a run parks its tool calls at until a human decides (src/repo-search/engine/approval-gate.ts).
  The gate's own state is a record; the event loop's part of it is there too: which timers are armed,
  which abort listeners are registered and in which order, and what the promises were settled with.
  Everything the gate calls (the evidence recorder, the progress writer, the observer and the park lease)
  is a parameter over the owner's state \<open>'w\<close> and may throw.
\<close>

section \<open>The gate and what it calls\<close>

datatype gate_decision = GateApprove | GateDeny string | GateAbort string

datatype approval_mode = ModeInteractive | ModeAuto | ModeOff

text \<open>What a \<open>catch\<close> may see: an \<open>Error\<close> with its message, or any other value, as text.\<close>

datatype js_failure = JsError string | JsOther string

record approval_input =
  ai_turn :: nat
  ai_call :: bool
  ai_toolName :: string
  ai_command :: string
  ai_reviewPayload :: "string option"

datatype decision_kind = DecideApprove | DecideDeny | DecideAbort

definition CLIENT_ABORT_MESSAGE :: string where
  "CLIENT_ABORT_MESSAGE = ''Aborted by user.''"

definition toApprovalDecision :: "decision_kind \<Rightarrow> string option \<Rightarrow> gate_decision" where
  "toApprovalDecision k reason = (case k of
      DecideDeny \<Rightarrow> GateDeny (js_trim (case reason of None \<Rightarrow> [] | Some r \<Rightarrow> r))
    | DecideAbort \<Rightarrow> GateAbort CLIENT_ABORT_MESSAGE
    | DecideApprove \<Rightarrow> GateApprove)"

definition APPROVAL_EXEMPT_READ_ONLY_TOOLS :: "string list" where
  "APPROVAL_EXEMPT_READ_ONLY_TOOLS = [''read'', ''grep'', ''find'', ''ls'', ''ask_user'', ''show_image'']"

definition isApprovalExemptReadOnlyTool :: "string \<Rightarrow> bool" where
  "isApprovalExemptReadOnlyTool t \<longleftrightarrow> t \<in> set APPROVAL_EXEMPT_READ_ONLY_TOOLS"

definition DEFAULT_DECISION_TIMEOUT_MS :: nat where
  "DEFAULT_DECISION_TIMEOUT_MS = 600000"

definition buildApprovalTimeoutMessage :: "nat \<Rightarrow> string" where
  "buildApprovalTimeoutMessage ms =
     ''No approval decision was received within '' @ show_nat ms @ ''ms; the run was stopped (approval timeout).''"

definition buildObserverFailureMessage :: "js_failure \<Rightarrow> string" where
  "buildObserverFailureMessage f = (case f of
      JsError m \<Rightarrow> ''Approval observer failed: '' @ m | JsOther _ \<Rightarrow> ''Approval observer failed.'')"

text \<open>How a request's promise ends, and what the recorder of a chat run is told.\<close>

datatype request_settlement = Resolved gate_decision | Rejected js_failure

datatype approval_outcome = OutcomeApproved | OutcomeDenied | OutcomeAborted | OutcomeTimeout

datatype approval_evidence =
    ApprovalRequested nat approval_input approval_mode nat nat
  | ApprovalResolved nat approval_outcome "gate_decision option" "string option" nat

type_synonym 'w effect = "'w \<Rightarrow> (js_failure + unit) \<times> 'w"

record 'w gate_hooks =
  gh_timeout :: nat
  gh_bypass :: bool
  gh_lease :: bool
  gh_recorder :: "(approval_evidence \<Rightarrow> 'w effect) option"
  gh_write :: "nat \<Rightarrow> approval_input \<Rightarrow> 'w effect"
  gh_park :: "'w effect"
  gh_decided :: "gate_decision \<Rightarrow> 'w effect"
  gh_expired :: "'w effect"

record gate_entry =
  ge_toolName :: string
  ge_startedAt :: nat

record approval_gate =
  gt_mode :: approval_mode
  gt_next :: nat
  gt_pending :: "nat \<Rightarrow> gate_entry option"
  gt_timers :: "nat list"
  gt_listeners :: "nat list"
  gt_settled :: "(nat \<times> request_settlement) list"
  gt_aborted :: "string option"

text \<open>The constructor refuses a timeout that is not positive.\<close>

definition new_gate :: "nat \<Rightarrow> approval_mode \<Rightarrow> js_failure + approval_gate" where
  "new_gate timeout mode =
     (if timeout = 0 then Inl (JsError ''Approval decision timeout must be a positive number of milliseconds.'')
      else Inr \<lparr>gt_mode = mode, gt_next = 0, gt_pending = (\<lambda>_. None), gt_timers = [], gt_listeners = [], gt_settled = [],
        gt_aborted = None\<rparr>)"

section \<open>Operations\<close>

definition setMode :: "approval_mode \<Rightarrow> approval_gate \<Rightarrow> approval_gate" where
  "setMode m g = g\<lparr>gt_mode := m\<rparr>"

definition clearPending :: "nat \<Rightarrow> approval_gate \<Rightarrow> approval_gate" where
  "clearPending i g = (case gt_pending g i of None \<Rightarrow> g
     | Some _ \<Rightarrow> g\<lparr>gt_pending := (gt_pending g)(i := None), gt_timers := filter (\<lambda>j. j \<noteq> i) (gt_timers g),
         gt_listeners := filter (\<lambda>j. j \<noteq> i) (gt_listeners g)\<rparr>)"

definition settle_request :: "nat \<Rightarrow> request_settlement \<Rightarrow> approval_gate \<Rightarrow> approval_gate" where
  "settle_request i s g = g\<lparr>gt_settled := gt_settled g @ [(i, s)]\<rparr>"

definition record_evidence :: "'w gate_hooks \<Rightarrow> approval_evidence \<Rightarrow> 'w effect" where
  "record_evidence h e w = (case gh_recorder h of None \<Rightarrow> (Inr (), w) | Some rec \<Rightarrow> rec e w)"

definition abortListener :: "'w gate_hooks \<Rightarrow> string \<Rightarrow> nat \<Rightarrow> nat \<Rightarrow> approval_gate \<times> 'w \<Rightarrow> approval_gate \<times> 'w" where
  "abortListener h reason now i = (\<lambda>(g, w).
     case record_evidence h (ApprovalResolved i OutcomeAborted None (Some CLIENT_ABORT_MESSAGE) now) w of
       (Inl f, w') \<Rightarrow> (settle_request i (Rejected f) (clearPending i g), w')
     | (Inr _, w') \<Rightarrow> (settle_request i (Rejected (JsError reason)) (clearPending i g), w'))"

definition park :: "'w gate_hooks \<Rightarrow> approval_input \<Rightarrow> nat \<Rightarrow> approval_gate \<times> 'w \<Rightarrow> approval_gate \<times> 'w" where
  "park h x now = (\<lambda>(g0, w0).
     let i = gt_next g0; g = g0\<lparr>gt_next := Suc i\<rparr> in
     if gh_recorder h \<noteq> None \<and> \<not> ai_call x
     then (settle_request i (Rejected (JsError ''Chat approval requires its exact proposed tool identity.'')) g, w0)
     else case record_evidence h (ApprovalRequested i x (gt_mode g) now (now + gh_timeout h)) w0 of
       (Inl f, w) \<Rightarrow> (settle_request i (Rejected f) g, w)
     | (Inr _, w) \<Rightarrow>
        let g1 = g\<lparr>gt_pending := (gt_pending g)(i \<mapsto> \<lparr>ge_toolName = ai_toolName x, ge_startedAt = now\<rparr>),
                   gt_listeners := gt_listeners g @ [i]\<rparr> in
        (case gt_aborted g1 of
           Some reason \<Rightarrow> abortListener h reason now i (g1, w)
         | None \<Rightarrow>
             let g2 = g1\<lparr>gt_timers := gt_timers g1 @ [i]\<rparr> in
             (case gh_write h i x w of
                (Inl f, w1) \<Rightarrow> (settle_request i (Rejected f) (clearPending i g2), w1)
              | (Inr _, w1) \<Rightarrow>
                  (case gh_park h w1 of
                     (Inl f, w2) \<Rightarrow> (settle_request i (Rejected f) (clearPending i g2), w2)
                   | (Inr _, w2) \<Rightarrow> (g2, w2)))))"

text \<open>\<open>None\<close>: approved without parking; otherwise the number of the parked request.\<close>

definition gate_request ::
  "'w gate_hooks \<Rightarrow> approval_input \<Rightarrow> nat \<Rightarrow> approval_gate \<times> 'w \<Rightarrow> nat option \<times> approval_gate \<times> 'w" where
  "gate_request h x now gw =
     (if gh_bypass h \<and> isApprovalExemptReadOnlyTool (ai_toolName x) then (None, gw)
      else (Some (gt_next (fst gw)), park h x now gw))"

text \<open>Whether a settled request takes the lease back before the run continues.\<close>

definition request_resumes :: "'w gate_hooks \<Rightarrow> gate_decision \<Rightarrow> bool" where
  "request_resumes h d \<longleftrightarrow> gh_lease h \<and> (case d of GateAbort _ \<Rightarrow> False | _ \<Rightarrow> True)"

definition expireApproval :: "'w gate_hooks \<Rightarrow> nat \<Rightarrow> nat \<Rightarrow> approval_gate \<times> 'w \<Rightarrow> approval_gate \<times> 'w" where
  "expireApproval h now i = (\<lambda>(g, w).
     case gt_pending g i of None \<Rightarrow> (g, w)
     | Some _ \<Rightarrow>
        let reason = buildApprovalTimeoutMessage (gh_timeout h);
            failed = (\<lambda>f. settle_request i (Resolved (GateAbort (buildObserverFailureMessage f))) (clearPending i g)) in
        (case record_evidence h (ApprovalResolved i OutcomeTimeout None (Some reason) now) w of
           (Inl f, w1) \<Rightarrow> (failed f, w1)
         | (Inr _, w1) \<Rightarrow>
             (case gh_expired h w1 of
                (Inl f, w2) \<Rightarrow> (failed f, w2)
              | (Inr _, w2) \<Rightarrow> (settle_request i (Resolved (GateAbort reason)) (clearPending i g), w2))))"

definition decision_outcome :: "gate_decision \<Rightarrow> approval_outcome" where
  "decision_outcome d = (case d of GateApprove \<Rightarrow> OutcomeApproved | GateDeny _ \<Rightarrow> OutcomeDenied | GateAbort _ \<Rightarrow> OutcomeAborted)"

definition decision_reason :: "gate_decision \<Rightarrow> string option" where
  "decision_reason d = (case d of GateApprove \<Rightarrow> None | GateDeny r \<Rightarrow> Some r | GateAbort r \<Rightarrow> Some r)"

definition submit ::
  "'w gate_hooks \<Rightarrow> nat \<Rightarrow> gate_decision \<Rightarrow> nat \<Rightarrow> approval_gate \<times> 'w \<Rightarrow> (js_failure + bool) \<times> approval_gate \<times> 'w" where
  "submit h i d now = (\<lambda>(g, w).
     case gt_pending g i of None \<Rightarrow> (Inr False, g, w)
     | Some e \<Rightarrow>
        if now \<ge> ge_startedAt e + gh_timeout h then (Inr False, expireApproval h now i (g, w))
        else (case record_evidence h (ApprovalResolved i (decision_outcome d) (Some d) (decision_reason d) now) w of
           (Inl f, w1) \<Rightarrow> (Inl f, g, w1)
         | (Inr _, w1) \<Rightarrow>
             (case gh_decided h d w1 of
                (Inr _, w2) \<Rightarrow> (Inr True, settle_request i (Resolved d) (clearPending i g), w2)
              | (Inl f, w2) \<Rightarrow>
                  (Inr True, settle_request i (Resolved (GateAbort (buildObserverFailureMessage f))) (clearPending i g), w2))))"

text \<open>The event loop: an armed timer fires once; the signal aborts once and calls the listeners in the
  order of their registration.\<close>

definition timer_fires :: "'w gate_hooks \<Rightarrow> nat \<Rightarrow> nat \<Rightarrow> approval_gate \<times> 'w \<Rightarrow> approval_gate \<times> 'w" where
  "timer_fires h now i = (\<lambda>(g, w).
     if i \<in> set (gt_timers g)
     then expireApproval h now i (g\<lparr>gt_timers := filter (\<lambda>j. j \<noteq> i) (gt_timers g)\<rparr>, w) else (g, w))"

definition signal_aborts :: "'w gate_hooks \<Rightarrow> string \<Rightarrow> nat \<Rightarrow> approval_gate \<times> 'w \<Rightarrow> approval_gate \<times> 'w" where
  "signal_aborts h reason now = (\<lambda>(g, w).
     if gt_aborted g \<noteq> None then (g, w)
     else fold (abortListener h reason now) (gt_listeners g) (g\<lparr>gt_aborted := Some reason\<rparr>, w))"

section \<open>Each request is settled once\<close>

definition gate_core :: "approval_gate \<Rightarrow> bool" where
  "gate_core g \<longleftrightarrow>
     distinct (map fst (gt_settled g)) \<and>
     (\<forall>i. (i \<in> fst ` set (gt_settled g) \<or> gt_pending g i \<noteq> None) \<longleftrightarrow> i < gt_next g) \<and>
     (\<forall>i. \<not> (i \<in> fst ` set (gt_settled g) \<and> gt_pending g i \<noteq> None)) \<and>
     (\<forall>i. i \<in> set (gt_timers g) \<longleftrightarrow> gt_pending g i \<noteq> None) \<and>
     (\<forall>i. i \<in> set (gt_listeners g) \<longleftrightarrow> gt_pending g i \<noteq> None) \<and>
     distinct (gt_listeners g)"

definition gate_ok :: "approval_gate \<Rightarrow> bool" where
  "gate_ok g \<longleftrightarrow> gate_core g \<and> (gt_aborted g \<noteq> None \<longrightarrow> (\<forall>i. gt_pending g i = None))"

lemma new_gate_ok: "new_gate t m = Inr g \<Longrightarrow> gate_ok g"
  by (auto simp: new_gate_def gate_ok_def gate_core_def split: if_splits)

text \<open>Settling what is pending is what every path comes to.\<close>

definition closed :: "nat \<Rightarrow> request_settlement \<Rightarrow> approval_gate \<Rightarrow> approval_gate" where
  "closed i s g = settle_request i s (clearPending i g)"

lemma closed_core: "gate_core g \<Longrightarrow> gt_pending g i \<noteq> None \<Longrightarrow> gate_core (closed i s g)"
  unfolding gate_core_def closed_def settle_request_def clearPending_def by (auto split: option.splits)

lemma closed_fields [simp]:
  "gt_pending (closed i s g) = (gt_pending g)(i := None)"
  "gt_aborted (closed i s g) = gt_aborted g"
  "gt_settled (closed i s g) = gt_settled g @ [(i, s)]"
  "gt_next (closed i s g) = gt_next g"
  "gt_mode (closed i s g) = gt_mode g"
  by (auto simp: closed_def settle_request_def clearPending_def split: option.splits)

lemma closed_ok: "gate_ok g \<Longrightarrow> gt_pending g i \<noteq> None \<Longrightarrow> gate_ok (closed i s g)"
  using closed_core unfolding gate_ok_def by auto

lemma abortListener_closes:
  "\<exists>f w'. abortListener h reason now i (g, w) = (closed i (Rejected f) g, w')"
  by (auto simp: abortListener_def closed_def split: prod.splits sum.splits)

lemma expire_closes:
  assumes "gt_pending g i \<noteq> None"
  shows "\<exists>r w'. expireApproval h now i (g, w) = (closed i (Resolved (GateAbort r)) g, w')"
  using assms by (auto simp: expireApproval_def closed_def Let_def split: prod.splits sum.splits option.splits)

lemma expire_idle: "gt_pending g i = None \<Longrightarrow> expireApproval h now i (g, w) = (g, w)"
  by (simp add: expireApproval_def)

lemma submit_closes:
  assumes "submit h i d now (g, w) = (r, g', w')"
  shows "g' = g \<or> (\<exists>e. gt_pending g i = Some e \<and> ((\<exists>a. g' = closed i (Resolved (GateAbort a)) g) \<or>
    g' = closed i (Resolved d) g \<and> r = Inr True \<and> now < ge_startedAt e + gh_timeout h))"
proof (cases "gt_pending g i")
  case (Some e)
  show ?thesis
  proof (cases "now \<ge> ge_startedAt e + gh_timeout h")
    case True
    obtain a w2 where "expireApproval h now i (g, w) = (closed i (Resolved (GateAbort a)) g, w2)"
      using expire_closes [of g i h now w] Some by auto
    then show ?thesis using assms Some True by (auto simp: submit_def)
  next
    case False
    then show ?thesis using assms Some
      by (auto simp: submit_def closed_def split: prod.splits sum.splits)
  qed
qed (use assms in \<open>simp add: submit_def\<close>)

text \<open>A fresh request: settled at once, or parked with its timer and listener.\<close>

definition parked_gate :: "nat \<Rightarrow> gate_entry \<Rightarrow> approval_gate \<Rightarrow> approval_gate" where
  "parked_gate i e g = g\<lparr>gt_next := Suc i, gt_pending := (gt_pending g)(i \<mapsto> e), gt_timers := gt_timers g @ [i],
     gt_listeners := gt_listeners g @ [i]\<rparr>"

lemma parked_core: "gate_core g \<Longrightarrow> i = gt_next g \<Longrightarrow> gate_core (parked_gate i e g)"
  unfolding gate_core_def parked_gate_def by auto

lemma settled_fresh_ok: "gate_ok g \<Longrightarrow> i = gt_next g \<Longrightarrow> gate_ok (settle_request i s (g\<lparr>gt_next := Suc i\<rparr>))"
  unfolding gate_ok_def gate_core_def settle_request_def by auto

lemma closed_parked:
  assumes "gate_ok g" and "i = gt_next g"
  shows "closed i s (parked_gate i e g) = settle_request i s (g\<lparr>gt_next := Suc i\<rparr>)"
    and "closed i s (g\<lparr>gt_next := Suc i, gt_pending := (gt_pending g)(i \<mapsto> e), gt_listeners := gt_listeners g @ [i]\<rparr>) =
      settle_request i s (g\<lparr>gt_next := Suc i\<rparr>)"
proof -
  have "gt_pending g i = None" "i \<notin> set (gt_timers g)" "i \<notin> set (gt_listeners g)"
    using assms by (auto simp: gate_ok_def gate_core_def)
  then have "(gt_pending g)(i := None) = gt_pending g" "filter (\<lambda>j. j \<noteq> i) (gt_timers g) = gt_timers g"
    "filter (\<lambda>j. j \<noteq> i) (gt_listeners g) = gt_listeners g"
    by (auto intro: filter_True)
  then show "closed i s (parked_gate i e g) = settle_request i s (g\<lparr>gt_next := Suc i\<rparr>)"
    and "closed i s (g\<lparr>gt_next := Suc i, gt_pending := (gt_pending g)(i \<mapsto> e), gt_listeners := gt_listeners g @ [i]\<rparr>) =
      settle_request i s (g\<lparr>gt_next := Suc i\<rparr>)"
    by (simp_all add: closed_def settle_request_def clearPending_def parked_gate_def)
qed

lemma park_outcomes:
  assumes "gate_ok g" and "park h x now (g, w) = (g', w')"
  shows "(\<exists>f. g' = settle_request (gt_next g) (Rejected f) (g\<lparr>gt_next := Suc (gt_next g)\<rparr>)) \<or>
    gt_aborted g = None \<and> g' = parked_gate (gt_next g) \<lparr>ge_toolName = ai_toolName x, ge_startedAt = now\<rparr> g"
proof -
  let ?i = "gt_next g" and ?e = "\<lparr>ge_toolName = ai_toolName x, ge_startedAt = now\<rparr>"
  note c = closed_parked [OF assms(1) refl]
  show ?thesis
  proof (cases "gh_recorder h \<noteq> None \<and> \<not> ai_call x")
    case True
    then show ?thesis using assms(2) by (auto simp: park_def Let_def)
  next
    case called: False
    obtain r1 w1 where rec: "record_evidence h (ApprovalRequested ?i x (gt_mode g) now (now + gh_timeout h)) w = (r1, w1)"
      by fastforce
    show ?thesis
    proof (cases r1)
      case (Inl f)
      then show ?thesis using assms(2) called rec by (auto simp: park_def Let_def)
    next
      case (Inr u)
      show ?thesis
      proof (cases "gt_aborted g")
        case (Some reason)
        then show ?thesis using assms(2) called rec Inr
            abortListener_closes [of h reason now ?i "g\<lparr>gt_next := Suc ?i, gt_pending := (gt_pending g)(?i \<mapsto> ?e),
              gt_listeners := gt_listeners g @ [?i]\<rparr>" w1]
          by (auto simp: park_def Let_def c)
      next
        case None
        have g2: "g\<lparr>gt_next := Suc ?i, gt_pending := (gt_pending g)(?i \<mapsto> ?e), gt_listeners := gt_listeners g @ [?i],
            gt_timers := gt_timers g @ [?i]\<rparr> = parked_gate ?i ?e g" by (simp add: parked_gate_def)
        obtain r2 w2 where wr: "gh_write h ?i x w1 = (r2, w2)" by fastforce
        obtain r3 w3 where pk: "gh_park h w2 = (r3, w3)" by fastforce
        have "park h x now (g, w) = (case r2 of Inl f \<Rightarrow> (closed ?i (Rejected f) (parked_gate ?i ?e g), w2)
            | Inr _ \<Rightarrow> (case r3 of Inl f \<Rightarrow> (closed ?i (Rejected f) (parked_gate ?i ?e g), w3) | Inr _ \<Rightarrow> (parked_gate ?i ?e g, w3)))"
          using called rec Inr None wr pk by (cases r2; cases r3) (auto simp: park_def Let_def g2 closed_def)
        then show ?thesis using assms(2) None c(1) [of _ ?e] by (cases r2; cases r3) auto
      qed
    qed
  qed
qed

lemma park_ok: "gate_ok g \<Longrightarrow> park h x now (g, w) = (g', w') \<Longrightarrow> gate_ok g'"
  using park_outcomes [of g h x now w g' w'] settled_fresh_ok parked_core
  unfolding gate_ok_def by (auto simp: parked_gate_def)

lemma timer_closes:
  assumes "gate_ok g" and "timer_fires h now i (g, w) = (g', w')"
  shows "g' = g \<and> gt_pending g i = None \<or> gt_pending g i \<noteq> None \<and> (\<exists>r. g' = closed i (Resolved (GateAbort r)) g)"
proof (cases "i \<in> set (gt_timers g)")
  case True
  then have p: "gt_pending g i \<noteq> None" using assms(1) by (simp add: gate_ok_def gate_core_def)
  have same: "closed i s (g\<lparr>gt_timers := filter (\<lambda>j. j \<noteq> i) (gt_timers g)\<rparr>) = closed i s g" for s
    using p by (auto simp: closed_def settle_request_def clearPending_def)
  show ?thesis using assms(2) True p expire_closes [of "g\<lparr>gt_timers := filter (\<lambda>j. j \<noteq> i) (gt_timers g)\<rparr>" i h now w]
    by (auto simp: timer_fires_def same)
next
  case False
  then show ?thesis using assms by (auto simp: timer_fires_def gate_ok_def gate_core_def)
qed

lemma abort_fold:
  assumes "gate_core g" and "distinct js" and "\<forall>j \<in> set js. gt_pending g j \<noteq> None"
    and "fold (abortListener h reason now) js (g, w) = (g', w')"
  shows "gate_core g' \<and> gt_aborted g' = gt_aborted g \<and> (\<forall>j. gt_pending g' j = (if j \<in> set js then None else gt_pending g j)) \<and>
    (\<exists>more. gt_settled g' = gt_settled g @ more \<and> (\<forall>p \<in> set more. \<exists>f. snd p = Rejected f))"
  using assms
proof (induction js arbitrary: g w)
  case (Cons j js)
  obtain f w1 where j: "abortListener h reason now j (g, w) = (closed j (Rejected f) g, w1)"
    using abortListener_closes [of h reason now j g w] by blast
  have "gate_core (closed j (Rejected f) g)" using Cons.prems by (simp add: closed_core)
  moreover have "\<forall>k \<in> set js. gt_pending (closed j (Rejected f) g) k \<noteq> None" using Cons.prems by auto
  ultimately have "gate_core g' \<and> gt_aborted g' = gt_aborted g \<and>
      (\<forall>k. gt_pending g' k = (if k \<in> set js then None else gt_pending (closed j (Rejected f) g) k)) \<and>
      (\<exists>more. gt_settled g' = gt_settled (closed j (Rejected f) g) @ more \<and> (\<forall>p \<in> set more. \<exists>f. snd p = Rejected f))"
    using Cons.IH [of "closed j (Rejected f) g" w1] Cons.prems j by simp
  then obtain more where "gate_core g'" "gt_aborted g' = gt_aborted g"
    "\<forall>k. gt_pending g' k = (if k \<in> set js then None else gt_pending (closed j (Rejected f) g) k)"
    "gt_settled g' = gt_settled g @ ((j, Rejected f) # more)" "\<forall>p \<in> set more. \<exists>f. snd p = Rejected f" by auto
  then show ?case by (intro conjI exI [of _ "(j, Rejected f) # more"]) auto
qed auto

lemma signal_aborts_all:
  assumes "gate_ok g" and "signal_aborts h reason now (g, w) = (g', w')"
  shows "gate_ok g' \<and> (\<forall>i. gt_pending g' i = None) \<and>
    (\<exists>more. gt_settled g' = gt_settled g @ more \<and> (\<forall>p \<in> set more. \<exists>f. snd p = Rejected f))"
proof (cases "gt_aborted g")
  case None
  have core: "gate_core (g\<lparr>gt_aborted := Some reason\<rparr>)" "distinct (gt_listeners g)"
    "\<forall>j. j \<in> set (gt_listeners g) \<longleftrightarrow> gt_pending g j \<noteq> None"
    using assms(1) by (auto simp: gate_ok_def gate_core_def)
  have "fold (abortListener h reason now) (gt_listeners g) (g\<lparr>gt_aborted := Some reason\<rparr>, w) = (g', w')"
    using assms(2) None by (simp add: signal_aborts_def)
  from abort_fold [OF core(1,2) _ this] core(3) show ?thesis by (auto simp: gate_ok_def)
next
  case (Some r)
  then show ?thesis using assms by (auto simp: signal_aborts_def gate_ok_def)
qed

section \<open>What the gate does to its owner\<close>

text \<open>An owner whose callbacks keep an invariant and stay inside a transitive relation: so does every
  operation of the gate.\<close>

locale gate_owner =
  fixes h :: "'w gate_hooks" and inv :: "'w \<Rightarrow> bool" and rel :: "'w \<Rightarrow> 'w \<Rightarrow> bool"
  assumes rel_refl: "rel w w"
    and rel_trans: "rel u v \<Longrightarrow> rel v w \<Longrightarrow> rel u w"
    and recorded: "gh_recorder h = Some rec \<Longrightarrow> inv w \<Longrightarrow> rec e w = (r, w') \<Longrightarrow> inv w' \<and> rel w w'"
    and written: "inv w \<Longrightarrow> gh_write h i x w = (r, w') \<Longrightarrow> inv w' \<and> rel w w'"
    and parks: "inv w \<Longrightarrow> gh_park h w = (r, w') \<Longrightarrow> inv w' \<and> rel w w'"
    and decided: "inv w \<Longrightarrow> gh_decided h d w = (r, w') \<Longrightarrow> inv w' \<and> rel w w'"
    and expired: "inv w \<Longrightarrow> gh_expired h w = (r, w') \<Longrightarrow> inv w' \<and> rel w w'"
begin

lemma record_owner: "inv w \<Longrightarrow> record_evidence h e w = (r, w') \<Longrightarrow> inv w' \<and> rel w w'"
  using recorded rel_refl by (auto simp: record_evidence_def split: option.splits)

lemma listener_owner: "inv w \<Longrightarrow> abortListener h reason now i (g, w) = (g', w') \<Longrightarrow> inv w' \<and> rel w w'"
  by (auto simp: abortListener_def split: prod.splits sum.splits dest: record_owner)

lemma park_owner:
  assumes "inv w" and "park h x now (g, w) = (g', w')"
  shows "inv w' \<and> rel w w'"
proof (cases "gh_recorder h \<noteq> None \<and> \<not> ai_call x")
  case True
  then show ?thesis using assms by (simp add: park_def Let_def rel_refl)
next
  case called: False
  let ?i = "gt_next g"
  obtain r1 w1 where r1: "record_evidence h (ApprovalRequested ?i x (gt_mode g) now (now + gh_timeout h)) w = (r1, w1)" by fastforce
  note o1 = record_owner [OF assms(1) r1]
  obtain r2 w2 where r2: "gh_write h ?i x w1 = (r2, w2)" by fastforce
  have o2: "inv w2 \<and> rel w w2" using written [OF _ r2] o1 rel_trans by blast
  obtain r3 w3 where r3: "gh_park h w2 = (r3, w3)" by fastforce
  have o3: "inv w3 \<and> rel w w3" using parks [OF _ r3] o2 rel_trans by blast
  consider "w' = w1" | "w' = w2" | "w' = w3" | reason g1 g2 where "abortListener h reason now ?i (g1, w1) = (g2, w')"
  proof (cases r1)
    case (Inl f)
    then show ?thesis using assms(2) called r1 that(1) by (auto simp: park_def Let_def)
  next
    case (Inr u)
    show ?thesis
    proof (cases "gt_aborted g")
      case (Some reason)
      then show ?thesis using assms(2) called r1 Inr that(4) by (auto simp: park_def Let_def)
    next
      case None
      then show ?thesis using assms(2) called r1 r2 r3 Inr that(2,3)
        by (cases r2; cases r3) (auto simp: park_def Let_def)
    qed
  qed
  then show ?thesis
  proof cases
    case 4
    then show ?thesis using listener_owner o1 rel_trans by blast
  qed (use o1 o2 o3 in simp_all)
qed

lemma expire_owner:
  assumes "inv w" and "expireApproval h now i (g, w) = (g', w')"
  shows "inv w' \<and> rel w w'"
proof (cases "gt_pending g i")
  case (Some e)
  obtain r1 w1 where r1: "record_evidence h (ApprovalResolved i OutcomeTimeout None
    (Some (buildApprovalTimeoutMessage (gh_timeout h))) now) w = (r1, w1)" by fastforce
  note o1 = record_owner [OF assms(1) r1]
  obtain r2 w2 where r2: "gh_expired h w1 = (r2, w2)" by fastforce
  have o2: "inv w2 \<and> rel w w2" using expired [OF _ r2] o1 rel_trans by blast
  have "w' = w1 \<or> w' = w2"
    using assms(2) Some r1 r2 by (cases r1; cases r2) (auto simp: expireApproval_def Let_def)
  then show ?thesis using o1 o2 by auto
qed (use assms rel_refl in \<open>auto simp: expireApproval_def\<close>)

lemma submit_owner:
  assumes "inv w" and "submit h i d now (g, w) = (r, g', w')"
  shows "inv w' \<and> rel w w'"
proof (cases "gt_pending g i")
  case (Some e)
  show ?thesis
  proof (cases "now \<ge> ge_startedAt e + gh_timeout h")
    case True
    then have "expireApproval h now i (g, w) = (g', w')" using assms(2) Some by (simp add: submit_def)
    then show ?thesis using expire_owner assms(1) by blast
  next
    case False
    obtain r1 w1 where r1: "record_evidence h (ApprovalResolved i (decision_outcome d) (Some d) (decision_reason d) now) w = (r1, w1)"
      by fastforce
    note o1 = record_owner [OF assms(1) r1]
    obtain r2 w2 where r2: "gh_decided h d w1 = (r2, w2)" by fastforce
    have o2: "inv w2 \<and> rel w w2" using decided [OF _ r2] o1 rel_trans by blast
    have "w' = w1 \<or> w' = w2"
      using assms(2) Some False r1 r2 by (cases r1; cases r2) (auto simp: submit_def)
    then show ?thesis using o1 o2 by auto
  qed
qed (use assms rel_refl in \<open>auto simp: submit_def\<close>)

lemma timer_owner: "inv w \<Longrightarrow> timer_fires h now i (g, w) = (g', w') \<Longrightarrow> inv w' \<and> rel w w'"
  using expire_owner rel_refl by (auto simp: timer_fires_def split: if_splits)

lemma listeners_owner: "inv w \<Longrightarrow> fold (abortListener h reason now) js (g, w) = (g', w') \<Longrightarrow> inv w' \<and> rel w w'"
proof (induction js arbitrary: g w)
  case (Cons j js)
  obtain g1 w1 where j: "abortListener h reason now j (g, w) = (g1, w1)" by fastforce
  then show ?case using Cons.IH [of w1 g1] Cons.prems listener_owner [OF Cons.prems(1) j] rel_trans by auto
qed (simp add: rel_refl)

lemma abort_owner: "inv w \<Longrightarrow> signal_aborts h reason now (g, w) = (g', w') \<Longrightarrow> inv w' \<and> rel w w'"
  using listeners_owner rel_refl by (auto simp: signal_aborts_def split: if_splits)

end

text \<open>A request that is parked had its lease taken from it last.\<close>

lemma parked_released:
  assumes "gate_ok g" and "park h x now (g, w) = (g', w')" and "gt_pending g' (gt_next g) \<noteq> None"
  shows "\<exists>w1. gh_park h w1 = (Inr (), w')"
proof -
  let ?i = "gt_next g"
  have fresh: "gt_pending g ?i = None" using assms(1) by (auto simp: gate_ok_def gate_core_def)
  have none: "gt_aborted g = None" using park_outcomes [OF assms(1,2)] assms(3) fresh by (auto simp: settle_request_def)
  have settled: "gt_pending (settle_request ?i s gg) ?i = gt_pending gg ?i" "gt_pending (clearPending ?i gg) ?i = None" for s gg
    by (auto simp: settle_request_def clearPending_def split: option.splits)
  obtain r1 w1 where r1: "record_evidence h (ApprovalRequested ?i x (gt_mode g) now (now + gh_timeout h)) w = (r1, w1)" by fastforce
  obtain r2 w2 where r2: "gh_write h ?i x w1 = (r2, w2)" by fastforce
  obtain r3 w3 where r3: "gh_park h w2 = (r3, w3)" by fastforce
  have "r3 = Inr () \<and> w' = w3"
    using assms(2,3) none fresh r1 r2 r3
    by (cases r1; cases r2; cases r3) (auto simp: park_def Let_def settled split: if_splits)
  then show ?thesis using r3 by blast
qed

section \<open>Histories\<close>

text \<open>\<open>Owner\<close> is anything the owner of the gate does to its own state.\<close>

datatype 'w approval_event =
    Asks approval_input nat
  | Submits nat gate_decision nat
  | Fires nat nat
  | Aborts string nat
  | SetsMode approval_mode
  | Owner "'w \<Rightarrow> 'w"

fun approval_step :: "'w gate_hooks \<Rightarrow> 'w approval_event \<Rightarrow> approval_gate \<times> 'w \<Rightarrow> approval_gate \<times> 'w" where
  "approval_step h (Asks x now) gw = snd (gate_request h x now gw)"
| "approval_step h (Submits i d now) gw = snd (submit h i d now gw)"
| "approval_step h (Fires i now) gw = timer_fires h now i gw"
| "approval_step h (Aborts reason now) gw = signal_aborts h reason now gw"
| "approval_step h (SetsMode m) gw = (setMode m (fst gw), snd gw)"
| "approval_step h (Owner f) gw = (fst gw, f (snd gw))"

definition decides :: "gate_decision \<Rightarrow> bool" where
  "decides d \<longleftrightarrow> (case d of GateAbort _ \<Rightarrow> False | _ \<Rightarrow> True)"

lemma setMode_ok: "gate_ok (setMode m g) = gate_ok g"
  by (simp add: setMode_def gate_ok_def gate_core_def)

text \<open>What one event does: the invariant, and where a new decision comes from.\<close>

definition timely :: "'w gate_hooks \<Rightarrow> approval_gate \<Rightarrow> 'w approval_event \<Rightarrow> nat \<Rightarrow> gate_decision \<Rightarrow> bool" where
  "timely h g e i d = (case e of
      Submits j d' now \<Rightarrow> j = i \<and> d' = d \<and>
        (case gt_pending g i of None \<Rightarrow> False | Some en \<Rightarrow> now < ge_startedAt en + gh_timeout h)
    | _ \<Rightarrow> False)"

lemma gate_event_ok:
  assumes "gate_ok g" and "approval_step h e (g, w) = (g', w')"
  shows "gate_ok g' \<and> (\<forall>i d. (i, Resolved d) \<in> set (gt_settled g') \<longrightarrow> decides d \<longrightarrow>
    (i, Resolved d) \<in> set (gt_settled g) \<or> timely h g e i d)"
proof (cases e)
  case (Asks x now)
  then have "g' = g \<or> park h x now (g, w) = (g', w')" using assms(2) by (auto simp: gate_request_def split: if_splits)
  then show ?thesis
  proof
    assume p: "park h x now (g, w) = (g', w')"
    from park_outcomes [OF assms(1) p] have "\<forall>i d. (i, Resolved d) \<in> set (gt_settled g') \<longrightarrow> (i, Resolved d) \<in> set (gt_settled g)"
      by (auto simp: settle_request_def parked_gate_def)
    then show ?thesis using park_ok [OF assms(1) p] by blast
  qed (use assms(1) in simp)
next
  case (Submits i d now)
  then obtain r where s: "submit h i d now (g, w) = (r, g', w')" using assms(2) by (cases "submit h i d now (g, w)") auto
  from submit_closes [OF s] show ?thesis
  proof (elim disjE exE conjE)
    fix en a assume "gt_pending g i = Some en" "g' = closed i (Resolved (GateAbort a)) g"
    then show ?thesis using closed_ok [OF assms(1)] by (auto simp: decides_def)
  next
    fix en assume "gt_pending g i = Some en" "g' = closed i (Resolved d) g" "now < ge_startedAt en + gh_timeout h"
    then show ?thesis using closed_ok [OF assms(1)] Submits by (auto simp: timely_def)
  qed (use assms(1) in simp)
next
  case (Fires i now)
  then have "timer_fires h now i (g, w) = (g', w')" using assms(2) by simp
  from timer_closes [OF assms(1) this] show ?thesis
    using assms(1) closed_ok by (auto simp: decides_def)
next
  case (Aborts reason now)
  then have s: "signal_aborts h reason now (g, w) = (g', w')" using assms(2) by simp
  from signal_aborts_all [OF assms(1) s]
  obtain more where "gate_ok g'" "gt_settled g' = gt_settled g @ more" "\<forall>p \<in> set more. \<exists>f. snd p = Rejected f"
    by blast
  then show ?thesis by auto
next
  case (SetsMode m)
  then have "g' = setMode m g" using assms(2) by simp
  then show ?thesis using assms(1) by (simp add: setMode_ok) (simp add: setMode_def)
next
  case (Owner f)
  then show ?thesis using assms by auto
qed

text \<open>The machine over the gate and its owner.\<close>

interpretation gate_machine: invariant_machine "approval_step h" "\<lambda>gw :: approval_gate \<times> 'w. gate_ok (fst gw)" for h
proof unfold_locales
  fix gw :: "approval_gate \<times> 'w" and e assume "gate_ok (fst gw)"
  then show "gate_ok (fst (approval_step h e gw))"
    using gate_event_ok [of "fst gw" h e "snd gw" "fst (approval_step h e gw)" "snd (approval_step h e gw)"] by simp
qed

text \<open>A parked request is settled exactly once and never waits past its timer. Over every history of
  requests, decisions, timers, aborts and mode changes, whatever the recorder, writer, observer and lease do,
  every request handed out is either settled once or pending with its timer armed and its abort listener
  registered, never both; once its timer fires it is settled, and an abort leaves nothing pending.\<close>

theorem request_settled_once:
  "case new_gate (gh_timeout h) mode of Inl _ \<Rightarrow> gh_timeout h = 0 | Inr g0 \<Rightarrow>
     let g = fst (run_events (approval_step h) es (g0, w)) in
       distinct (map fst (gt_settled g)) \<and>
       (\<forall>i. (i < gt_next g) = (i \<in> fst ` set (gt_settled g) \<union> dom (gt_pending g))) \<and>
       (\<forall>i. if gt_pending g i \<noteq> None then i \<notin> fst ` set (gt_settled g) \<and> i \<in> set (gt_timers g) \<and> i \<in> set (gt_listeners g)
         else i \<notin> set (gt_timers g) \<and> i \<notin> set (gt_listeners g)) \<and>
       (\<forall>i now. gt_pending (fst (run_events (approval_step h) (es @ [Fires i now]) (g0, w))) i = None) \<and>
       (\<forall>i reason now. gt_pending (fst (run_events (approval_step h) (es @ [Aborts reason now]) (g0, w))) i = None)"
proof (cases "new_gate (gh_timeout h) mode")
  case (Inr g0)
  obtain g w' where g: "run_events (approval_step h) es (g0, w) = (g, w')" by fastforce
  have ok: "gate_ok g"
    using gate_machine.inv_run [of "(g0, w)" h es] new_gate_ok [OF Inr] g by simp
  have "gt_pending (fst (timer_fires h now i (g, w'))) i = None" for i now
    using timer_closes [OF ok, of h now i w'] by (cases "timer_fires h now i (g, w')") auto
  moreover have "gt_pending (fst (signal_aborts h reason now (g, w'))) i = None" for i reason now
    using signal_aborts_all [OF ok, of h reason now w'] by (cases "signal_aborts h reason now (g, w')") auto
  ultimately show ?thesis using ok Inr g by (auto simp: gate_ok_def gate_core_def Let_def)
qed (auto simp: new_gate_def split: if_splits)

text \<open>C18. A call runs only on a timely decision about it. Whenever a parked request ends in an approval or a
  denial, that very decision was submitted for it while it was pending and before its deadline; what the
  observer, the recorder or the writer do can only turn it into an abort.\<close>

theorem decision_was_submitted:
  assumes "new_gate (gh_timeout h) mode = Inr g0" and "decides d"
    and "(i, Resolved d) \<in> set (gt_settled (fst (run_events (approval_step h) es (g0, w))))"
  shows "\<exists>before now after en. es = before @ Submits i d now # after \<and>
    gt_pending (fst (run_events (approval_step h) before (g0, w))) i = Some en \<and> now < ge_startedAt en + gh_timeout h"
  using assms(3)
proof (induction es rule: rev_induct)
  case Nil
  then show ?case using assms(1) by (auto simp: new_gate_def split: if_splits)
next
  case (snoc e es)
  obtain g w1 where g: "run_events (approval_step h) es (g0, w) = (g, w1)" by fastforce
  have ok: "gate_ok g" using gate_machine.inv_run [of "(g0, w)" h es] new_gate_ok [OF assms(1)] g by simp
  obtain g' w' where e: "approval_step h e (g, w1) = (g', w')" by fastforce
  have "(i, Resolved d) \<in> set (gt_settled g) \<or> timely h g e i d"
    using gate_event_ok [OF ok e] snoc.prems assms(2) g e by auto
  then show ?case
  proof
    assume "(i, Resolved d) \<in> set (gt_settled g)"
    then obtain before now after en where "es = before @ Submits i d now # after"
      "gt_pending (fst (run_events (approval_step h) before (g0, w))) i = Some en \<and> now < ge_startedAt en + gh_timeout h"
      using snoc.IH g by auto
    then show ?thesis by (intro exI [of _ before] exI [of _ now] exI [of _ "after @ [e]"] exI [of _ en]) simp
  next
    assume "timely h g e i d"
    then obtain now en where "e = Submits i d now" "gt_pending g i = Some en" "now < ge_startedAt en + gh_timeout h"
      by (auto simp: timely_def split: approval_event.splits option.splits)
    then show ?thesis using g by (intro exI [of _ es] exI [of _ now] exI [of _ "[]"] exI [of _ en]) simp
  qed
qed

definition example_hooks :: "unit gate_hooks" where
  "example_hooks = \<lparr>gh_timeout = DEFAULT_DECISION_TIMEOUT_MS, gh_bypass = True, gh_lease = False, gh_recorder = None,
     gh_write = (\<lambda>_ _ w. (Inr (), w)), gh_park = (\<lambda>w. (Inr (), w)), gh_decided = (\<lambda>_ w. (Inr (), w)), gh_expired = (\<lambda>w. (Inr (), w))\<rparr>"

definition example_input :: "string \<Rightarrow> approval_input" where
  "example_input tool = \<lparr>ai_turn = 1, ai_call = False, ai_toolName = tool, ai_command = ''c'', ai_reviewPayload = None\<rparr>"

definition example_parked :: approval_gate where
  "example_parked = fst (approval_step example_hooks (Asks (example_input ''write'') 10) (projr (new_gate 600000 ModeInteractive), ()))"

lemmas example_gate_simps = example_parked_def example_hooks_def example_input_def DEFAULT_DECISION_TIMEOUT_MS_def new_gate_def
  gate_request_def isApprovalExemptReadOnlyTool_def APPROVAL_EXEMPT_READ_ONLY_TOOLS_def park_def record_evidence_def submit_def Let_def

theorem decision_was_submitted_witness:
  "let g = fst (approval_step example_hooks (Submits 0 GateApprove 20) (example_parked, ())) in
     gt_settled g = [(0, Resolved GateApprove)] \<and>
     (\<exists>before now after. ([Asks (example_input ''write'') 10, Submits 0 GateApprove 20] :: unit approval_event list) = before @ Submits 0 GateApprove now # after)"
proof -
  let ?start = "projr (new_gate 600000 ModeInteractive)" and ?es = "[Asks (example_input ''write'') 10, Submits 0 GateApprove 20] :: unit approval_event list"
  let ?g = "fst (approval_step example_hooks (Submits 0 GateApprove 20) (example_parked, ()))"
  have settled: "gt_settled ?g = [(0, Resolved GateApprove)]"
    by (simp add: example_gate_simps settle_request_def clearPending_def)
  have new: "new_gate (gh_timeout example_hooks) ModeInteractive = Inr ?start"
    by (simp add: example_gate_simps)
  have ran: "fst (run_events (approval_step example_hooks) ?es (?start, ())) = ?g"
    by (simp add: example_gate_simps)
  have last: "(0, Resolved GateApprove) \<in> set (gt_settled (fst (run_events (approval_step example_hooks) ?es (?start, ()))))"
    unfolding ran settled by simp
  have "decides GateApprove" by (simp add: decides_def)
  from decision_was_submitted [OF new this last] obtain before now after where "?es = before @ Submits 0 GateApprove now # after"
    by blast
  then have "\<exists>before now after. ?es = before @ Submits 0 GateApprove now # after" by (intro exI)
  with settled show ?thesis unfolding Let_def by (rule conjI)
qed

section \<open>Who answers a request\<close>

text \<open>The requester a run is given (src/repo-search/engine/approval-mode-requester.ts) reads the live mode
  for every call; in the automatic mode the model reviews the call first
  (src/repo-search/engine/llm-approval-gate.ts). \<open>Ask\<close> passes the call on to the human gate.\<close>

datatype approval_verdict = VerdictApprove | VerdictDeny | VerdictUnsure

datatype verdict_attempt = VerdictGiven approval_verdict string | VerdictFailure string

record model_response =
  mr_toolCalls :: nat
  mr_text :: string

definition FORBIDDEN_TOOL_CALL_REASON :: string where
  "FORBIDDEN_TOOL_CALL_REASON = ''approval reviewer attempted a forbidden tool call''"

text \<open>\<open>parse\<close> stands for reading the answer as JSON of the verdict's schema.\<close>

definition requestVerdictOnce ::
  "(string \<Rightarrow> string + approval_verdict \<times> string) \<Rightarrow> string + model_response \<Rightarrow> string + verdict_attempt" where
  "requestVerdictOnce parse reply = bind_result reply (\<lambda>resp.
     if mr_toolCalls resp > 0 then Inr (VerdictFailure FORBIDDEN_TOOL_CALL_REASON)
     else bind_result (parse (mr_text resp)) (\<lambda>(v, reason). Inr (VerdictGiven v reason)))"

definition requestVerdictWithRetry ::
  "(string \<Rightarrow> string + approval_verdict \<times> string) \<Rightarrow> (nat \<Rightarrow> string + model_response) \<Rightarrow> verdict_attempt" where
  "requestVerdictWithRetry parse reply = (case requestVerdictOnce parse (reply 0) of
      Inr a \<Rightarrow> a
    | Inl _ \<Rightarrow> (case requestVerdictOnce parse (reply 1) of
        Inr a \<Rightarrow> a
      | Inl m \<Rightarrow> VerdictFailure (''verdict call failed: '' @ take 200 (js_trim (collapse_space m)))))"

datatype request_answer = Answered gate_decision | Ask | Failing js_failure

record 'w reviewer =
  rv_reviewed :: "(approval_input \<Rightarrow> approval_verdict \<Rightarrow> string \<Rightarrow> 'w effect) option"
  rv_log :: "approval_input \<Rightarrow> approval_verdict \<Rightarrow> string \<Rightarrow> 'w effect"
  rv_write :: "approval_input \<Rightarrow> approval_verdict \<Rightarrow> string \<Rightarrow> 'w effect"

definition emitVerdict :: "'w reviewer \<Rightarrow> approval_input \<Rightarrow> approval_verdict \<Rightarrow> string \<Rightarrow> 'w effect" where
  "emitVerdict rv x v reason w =
     (case (case rv_reviewed rv of Some record_it \<Rightarrow> if ai_call x then record_it x v reason w else (Inr (), w) | None \<Rightarrow> (Inr (), w)) of
        (Inl f, w1) \<Rightarrow> (Inl f, w1)
      | (Inr _, w1) \<Rightarrow> (case rv_log rv x v reason w1 of
          (Inl f, w2) \<Rightarrow> (Inl f, w2) | (Inr _, w2) \<Rightarrow> rv_write rv x v reason w2))"

definition after_emit :: "'w reviewer \<Rightarrow> approval_input \<Rightarrow> approval_verdict \<Rightarrow> string \<Rightarrow> request_answer \<Rightarrow> 'w \<Rightarrow> request_answer \<times> 'w" where
  "after_emit rv x v reason a w = (case emitVerdict rv x v reason w of (Inl f, w') \<Rightarrow> (Failing f, w') | (Inr _, w') \<Rightarrow> (a, w'))"

definition llm_request ::
  "(string \<Rightarrow> string + approval_verdict \<times> string) \<Rightarrow> 'w reviewer \<Rightarrow> (nat \<Rightarrow> string + model_response) \<Rightarrow> approval_input \<Rightarrow> 'w \<Rightarrow> request_answer \<times> 'w" where
  "llm_request parse rv reply x w =
     (if isApprovalExemptReadOnlyTool (ai_toolName x) then (Answered GateApprove, w)
      else if rv_reviewed rv \<noteq> None \<and> \<not> ai_call x
      then (Failing (JsError ''Chat approval requires its exact proposed tool identity.''), w)
      else (case requestVerdictWithRetry parse reply of
          VerdictFailure reason \<Rightarrow> after_emit rv x VerdictUnsure reason Ask w
        | VerdictGiven v reason \<Rightarrow> after_emit rv x v reason
            (case v of VerdictApprove \<Rightarrow> Answered GateApprove
             | VerdictDeny \<Rightarrow> Answered (GateDeny (''auto-reviewer: '' @ reason)) | VerdictUnsure \<Rightarrow> Ask) w))"

definition mode_request ::
  "approval_mode \<Rightarrow> (string \<Rightarrow> string + approval_verdict \<times> string) \<Rightarrow> 'w reviewer \<Rightarrow> (nat \<Rightarrow> string + model_response) \<Rightarrow> approval_input \<Rightarrow>
    'w \<Rightarrow> request_answer \<times> 'w" where
  "mode_request m parse rv reply x w = (case m of
      ModeOff \<Rightarrow> (Answered GateApprove, w)
    | ModeInteractive \<Rightarrow> (Ask, w)
    | ModeAuto \<Rightarrow> llm_request parse rv reply x w)"

text \<open>What runs unattended. A call is approved without asking a human exactly when the mode is off, or in
  the automatic mode the tool only reads, or the reviewer answered without a tool call, at the first attempt
  or at the second after the first one failed, with an approval that was reported; everything else the
  reviewer does ends in a denial, a failure, or the question to the human.\<close>

theorem unattended_approvals:
  "fst (mode_request m parse rv reply x w) = Answered GateApprove \<longleftrightarrow>
     m = ModeOff \<or> m = ModeAuto \<and> (isApprovalExemptReadOnlyTool (ai_toolName x) \<or>
       (rv_reviewed rv = None \<or> ai_call x) \<and>
       (\<exists>reason. is_ok (fst (emitVerdict rv x VerdictApprove reason w)) \<and>
         (requestVerdictOnce parse (reply 0) = Inr (VerdictGiven VerdictApprove reason) \<or>
          (\<exists>m. requestVerdictOnce parse (reply 0) = Inl m) \<and> requestVerdictOnce parse (reply 1) = Inr (VerdictGiven VerdictApprove reason))))"
proof -
  have emit: "fst (after_emit rv x v reason a w) = Answered GateApprove \<longleftrightarrow> is_ok (fst (emitVerdict rv x v reason w)) \<and> a = Answered GateApprove"
    for v reason a by (cases "emitVerdict rv x v reason w"; cases "fst (emitVerdict rv x v reason w)") (auto simp: after_emit_def)
  have retry: "requestVerdictWithRetry parse reply = VerdictGiven v reason \<longleftrightarrow>
      requestVerdictOnce parse (reply 0) = Inr (VerdictGiven v reason) \<or>
      (\<exists>m. requestVerdictOnce parse (reply 0) = Inl m) \<and> requestVerdictOnce parse (reply 1) = Inr (VerdictGiven v reason)" for v reason
    by (auto simp: requestVerdictWithRetry_def split: sum.splits)
  have auto_mode: "fst (llm_request parse rv reply x w) = Answered GateApprove \<longleftrightarrow>
      isApprovalExemptReadOnlyTool (ai_toolName x) \<or> (rv_reviewed rv = None \<or> ai_call x) \<and>
        (\<exists>reason. is_ok (fst (emitVerdict rv x VerdictApprove reason w)) \<and> requestVerdictWithRetry parse reply = VerdictGiven VerdictApprove reason)"
    by (cases "requestVerdictWithRetry parse reply") (auto simp: llm_request_def emit split: approval_verdict.splits)
  show ?thesis by (cases m) (auto simp: mode_request_def auto_mode retry)
qed

end
