(* ===== verification/Run_Output.thy ===== *)
theory Run_Output
  imports Sift_Prelude
begin

text \<open>
  What a finished engine run becomes (src/repo-search/output-format.ts, src/repo-search/response-sanity.ts,
  src/repo-agent/run-output.ts): the outputs of its tasks without a repeated whole output, the check
  that refuses one, and the outcome recorded for the run. The scorecard printed as JSON is given.
\<close>

section \<open>Outputs\<close>

record result_task =
  rt_id :: string
  rt_reason :: string
  rt_finalOutput :: string
  rt_mutatedPaths :: "string list"

record engine_result =
  er_tasks :: "result_task list"
  er_failureReasons :: "string list"
  er_scorecardJson :: string

definition repeated_at :: "string list \<Rightarrow> nat \<Rightarrow> bool" where
  "repeated_at ls b = (let left = js_trim (js_join [LF] (take b ls)); right = js_trim (js_join [LF] (drop b ls)) in
     length left \<ge> 60 \<and> left = right)"

definition collapseRepeatedWholeOutput :: "string \<Rightarrow> string" where
  "collapseRepeatedWholeOutput value =
     (let text = js_trim value in
      if text = [] then []
      else let ls = split_lines text in
        if length ls < 6 \<or> length text < 120 then text
        else (case find (repeated_at ls) [1..<length ls] of
            Some b \<Rightarrow> js_trim (js_join [LF] (take b ls))
          | None \<Rightarrow> text))"

fun format_loop :: "string list \<Rightarrow> string list \<Rightarrow> string list" where
  "format_loop [] out = out"
| "format_loop (v # vs) out = (let f = collapseRepeatedWholeOutput v in
     format_loop vs (if f \<noteq> [] \<and> f \<notin> set out then out @ [f] else out))"

definition formatFinalOutputs :: "string list \<Rightarrow> string" where
  "formatFinalOutputs values = js_join [LF, LF] (format_loop values [])"

section \<open>The check before sending\<close>

fun extract_outputs :: "nat \<Rightarrow> result_task list \<Rightarrow> (string \<times> nat \<times> string) list" where
  "extract_outputs n [] = []"
| "extract_outputs n (t # ts) =
     ((if js_trim (rt_id t) \<noteq> [] then js_trim (rt_id t) else ''task-'' @ show_nat n), n, rt_finalOutput t) # extract_outputs (Suc n) ts"

definition sanity_message :: "string \<Rightarrow> nat \<Rightarrow> string" where
  "sanity_message i n = ''Repo-search response sanity check failed: task='' @ i @ '' index='' @ show_nat n @
     '' finalOutput contains a duplicated whole-output block.''"

definition assertSafeToSend :: "engine_result \<Rightarrow> string + unit" where
  "assertSafeToSend r = each_ok (\<lambda>(i, n, out).
     let original = js_trim out in
     if original = [] then Inr ()
     else if collapseRepeatedWholeOutput original \<noteq> original then Inl (sanity_message i n) else Inr ()) (extract_outputs 0 (er_tasks r))"

section \<open>The outcome\<close>

definition taskPassed :: "result_task \<Rightarrow> bool" where
  "taskPassed t \<longleftrightarrow> rt_reason t = ''finish''"

definition final_outputs :: "engine_result \<Rightarrow> string list" where
  "final_outputs r = filter (\<lambda>s. s \<noteq> []) (map (js_trim \<circ> rt_finalOutput) (er_tasks r))"

definition mutated_paths :: "engine_result \<Rightarrow> string list" where
  "mutated_paths r = js_dedupe (concat (map rt_mutatedPaths (er_tasks r)))"

definition formatRepoTaskOutput :: "engine_result \<Rightarrow> string" where
  "formatRepoTaskOutput r =
     (let formatted = formatFinalOutputs (final_outputs r) in
      if formatted = [] then er_scorecardJson r
      else if mutated_paths r = [] then formatted
      else formatted @ [LF, LF] @ js_join [LF] (''Files modified by this run:'' # map (\<lambda>p. ''- '' @ p) (mutated_paths r)))"

datatype run_outcome = OutcomeCompleted string | OutcomeFailed string string

definition classifyRepoAgentExecutionResult :: "engine_result \<Rightarrow> run_outcome" where
  "classifyRepoAgentExecutionResult r =
     (let output = formatRepoTaskOutput r;
          failures = map (\<lambda>t. rt_id t @ '': ended with reason '' @ rt_reason t) (filter (\<lambda>t. \<not> taskPassed t) (er_tasks r)) in
      if failures = [] then OutcomeCompleted output
      else OutcomeFailed (''Repo-agent execution failed: '' @
             (let details = js_join ''; '' (js_dedupe (failures @ er_failureReasons r)) in
              if details = [] then ''unknown task outcome'' else details)) output)"

section \<open>What the check lets through is shown as it is\<close>

lemma checked_tasks:
  "each_ok f (extract_outputs n ts) = Inr () \<Longrightarrow>
    (\<And>i k out. f (i, k, out) = Inr () \<Longrightarrow> P out) \<Longrightarrow> \<forall>t \<in> set ts. P (rt_finalOutput t)"
  by (induction ts arbitrary: n) (auto split: sum.splits)

lemma safe_outputs:
  assumes "assertSafeToSend r = Inr ()"
  shows "\<forall>v \<in> set (final_outputs r). v \<noteq> [] \<and> collapseRepeatedWholeOutput v = v"
proof -
  have "\<forall>t \<in> set (er_tasks r). js_trim (rt_finalOutput t) \<noteq> [] \<longrightarrow>
      collapseRepeatedWholeOutput (js_trim (rt_finalOutput t)) = js_trim (rt_finalOutput t)"
    by (rule checked_tasks [OF assms [unfolded assertSafeToSend_def]]) (auto simp: Let_def split: if_splits)
  then show ?thesis by (auto simp: final_outputs_def)
qed

lemma format_loop_fixed:
  assumes "\<forall>v \<in> set vs. v \<noteq> [] \<and> collapseRepeatedWholeOutput v = v"
  shows "format_loop vs out = out @ filter (\<lambda>v. v \<notin> set out) (js_dedupe vs)"
  using assms
proof (induction vs arbitrary: out)
  case (Cons v vs)
  have "filter (\<lambda>u. u \<notin> set (out @ [v])) (js_dedupe vs) = filter (\<lambda>u. u \<notin> set out) (filter (\<lambda>u. u \<noteq> v) (js_dedupe vs))"
    by (auto intro: filter_cong)
  moreover have "v \<in> set out \<Longrightarrow> filter (\<lambda>u. u \<notin> set out) (js_dedupe vs) =
      filter (\<lambda>u. u \<notin> set out) (filter (\<lambda>u. u \<noteq> v) (js_dedupe vs))"
    by (auto intro: filter_cong)
  ultimately show ?case using Cons by (auto simp: Let_def)
qed simp

lemma js_join_nonempty: "vs \<noteq> [] \<Longrightarrow> \<forall>v \<in> set vs. v \<noteq> [] \<Longrightarrow> js_join sep vs \<noteq> []"
  by (cases "(sep, vs)" rule: js_join.cases) auto

text \<open>An answer that may be sent is recorded verbatim. When the check before sending lets a result
  through, the text of its outcome is the tasks' trimmed non-empty outputs, each once and in their order,
  followed by the files the run modified; only a run without any output is described by its scorecard.
  The run completes exactly when each of its tasks ended by finishing.\<close>

theorem safe_result_is_verbatim:
  assumes "assertSafeToSend r = Inr ()"
  shows "formatRepoTaskOutput r =
      (if final_outputs r = [] then er_scorecardJson r
       else js_join [LF, LF] (js_dedupe (final_outputs r)) @
         (if mutated_paths r = [] then []
          else [LF, LF] @ js_join [LF] (''Files modified by this run:'' # map (\<lambda>p. ''- '' @ p) (mutated_paths r)))) \<and>
    (classifyRepoAgentExecutionResult r = OutcomeCompleted (formatRepoTaskOutput r) \<longleftrightarrow> list_all taskPassed (er_tasks r))"
proof (rule conjI)
  note fixed = safe_outputs [OF assms]
  have loop: "format_loop (final_outputs r) [] = js_dedupe (final_outputs r)"
    using format_loop_fixed [OF fixed, of "[]"] by simp
  have "js_dedupe (final_outputs r) = [] \<longleftrightarrow> final_outputs r = []" by (cases "final_outputs r") auto
  then have "js_join [LF, LF] (js_dedupe (final_outputs r)) = [] \<longleftrightarrow> final_outputs r = []"
    using js_join_nonempty [of "js_dedupe (final_outputs r)" "[LF, LF]"] fixed by auto
  then show "formatRepoTaskOutput r =
      (if final_outputs r = [] then er_scorecardJson r
       else js_join [LF, LF] (js_dedupe (final_outputs r)) @
         (if mutated_paths r = [] then []
          else [LF, LF] @ js_join [LF] (''Files modified by this run:'' # map (\<lambda>p. ''- '' @ p) (mutated_paths r))))"
    by (simp add: formatRepoTaskOutput_def formatFinalOutputs_def loop Let_def)
  show "classifyRepoAgentExecutionResult r = OutcomeCompleted (formatRepoTaskOutput r) \<longleftrightarrow> list_all taskPassed (er_tasks r)"
    by (auto simp: classifyRepoAgentExecutionResult_def Let_def list_all_iff filter_empty_conv)
qed

definition example_result :: engine_result where
  "example_result = \<lparr>er_tasks = [\<lparr>rt_id = ''a'', rt_reason = ''finish'', rt_finalOutput = '' one '', rt_mutatedPaths = [''p'', ''q'']\<rparr>,
     \<lparr>rt_id = ''b'', rt_reason = ''max_turns'', rt_finalOutput = ''one'', rt_mutatedPaths = [''p'']\<rparr>], er_failureReasons = [], er_scorecardJson = ''{}''\<rparr>"

theorem safe_result_is_verbatim_witness:
  "assertSafeToSend example_result = Inr () \<and>
   formatRepoTaskOutput example_result = ''one'' @ [LF, LF] @ ''Files modified by this run:'' @ [LF] @ ''- p'' @ [LF] @ ''- q'' \<and>
   classifyRepoAgentExecutionResult example_result \<noteq> OutcomeCompleted (formatRepoTaskOutput example_result)"
proof -
  have safe: "assertSafeToSend example_result = Inr ()" by code_simp
  have shown: "js_join [LF, LF] (js_dedupe (final_outputs example_result)) @
      (if mutated_paths example_result = [] then []
       else [LF, LF] @ js_join [LF] (''Files modified by this run:'' # map (\<lambda>p. ''- '' @ p) (mutated_paths example_result))) =
    ''one'' @ [LF, LF] @ ''Files modified by this run:'' @ [LF] @ ''- p'' @ [LF] @ ''- q''" by code_simp
  have "final_outputs example_result \<noteq> []" "\<not> list_all taskPassed (er_tasks example_result)" by code_simp+
  with safe_result_is_verbatim [OF safe] shown
  have "formatRepoTaskOutput example_result = ''one'' @ [LF, LF] @ ''Files modified by this run:'' @ [LF] @ ''- p'' @ [LF] @ ''- q'' \<and>
    classifyRepoAgentExecutionResult example_result \<noteq> OutcomeCompleted (formatRepoTaskOutput example_result)"
    unfolding if_not_P [OF \<open>final_outputs example_result \<noteq> []\<close>] by argo
  with safe show ?thesis by (rule conjI)
qed

end
