(* ===== verification/Agent_Session.thy ===== *)
theory Agent_Session
  imports Agent_Run_Store Approval_Gate Run_Output
begin

text \<open>
  A repo-agent run from its start to its settlement (src/status-server/repo-agent-sessions.ts): the
  repository and the model it holds, the engine it runs, the approvals it parks at, the state it
  mirrors in the run store and the clients that wait for its next boundary. The state is the gate's and
  the session's; every event is what one turn of the event loop does: a promise of \<open>run()\<close> settling,
  a call of the engine, a timer, an abort, a client's call, or another process writing the store.

  The engine is outside: it asks for approvals one at a time, as the task loop does, and returns or
  throws when it likes. So are the queue of the model and the gate of the repository, which answer an
  acquire in any way at any time.
\<close>

section \<open>Sessions\<close>

datatype approval_delivery = ToProgress | ToBoundary

datatype waiter_outcome = Boundary agent_result | WaitAborted

text \<open>What the engine was told when a request of it ended.\<close>

datatype engine_answer = ToldDecision gate_decision | ToldError

datatype run_point =
    NotStarted
  | TakingRepository
  | TakingModel
  | Executing
  | Parked nat
  | Resuming gate_decision
  | Finished
  | Crashed

text \<open>\<open>sf_recorder\<close> says whether recording an evidence fails, \<open>sf_error_text\<close> is the message of a store
  error.\<close>

record session_config =
  sf_runId :: nat
  sf_pid :: nat
  sf_delivery :: approval_delivery
  sf_timeout :: nat
  sf_repository :: bool
  sf_recorder :: "(approval_evidence \<Rightarrow> js_failure option) option"
  sf_error_text :: "agent_error \<Rightarrow> string"

record session_core =
  sc_state :: agent_run_state
  sc_store :: agent_store
  sc_unpersisted :: bool
  sc_lock :: "nat option"
  sc_granted :: nat
  sc_renewals :: nat
  sc_preset :: "nat option"
  sc_repo_lease :: bool
  sc_registered :: bool
  sc_aborted :: bool
  sc_marked :: "string option"
  sc_result :: "engine_result option"
  sc_frames :: "nat list"
  sc_next_waiter :: nat
  sc_waiters :: "(nat \<times> nat) list"
  sc_answers :: "(nat \<times> waiter_outcome) list"
  sc_told :: "engine_answer list"
  sc_point :: run_point

type_synonym agent_session = "approval_gate \<times> session_core"

definition session_env :: "session_config \<Rightarrow> agent_env \<Rightarrow> agent_env" where
  "session_env cfg en = en\<lparr>ae_pid := sf_pid cfg\<rparr>"

definition new_session :: "session_config \<Rightarrow> approval_mode \<Rightarrow> agent_store \<Rightarrow> js_failure + agent_session" where
  "new_session cfg mode st =
     (case readState (sf_runId cfg) st of
        Inl e \<Rightarrow> Inl (JsError (sf_error_text cfg e))
      | Inr s \<Rightarrow> bind_result (new_gate (sf_timeout cfg) mode) (\<lambda>g. Inr (g, \<lparr>sc_state = s, sc_store = st, sc_unpersisted = False,
          sc_lock = None, sc_granted = 0, sc_renewals = 0, sc_preset = None, sc_repo_lease = False, sc_registered = False,
          sc_aborted = False, sc_marked = None, sc_result = None, sc_frames = [], sc_next_waiter = 0, sc_waiters = [],
          sc_answers = [], sc_told = [], sc_point = NotStarted\<rparr>)))"

section \<open>Boundaries\<close>

definition boundaryResultFor :: "session_config \<Rightarrow> agent_run_state \<Rightarrow> nat \<Rightarrow> agent_result option" where
  "boundaryResultFor cfg s since =
     (if ag_revision s \<le> since then None
      else if isTerminalStatus (ag_status s) then repoAgentStateToResult s
      else (case ag_status s of
          AgentApprovalRequired _ \<Rightarrow> if sf_delivery cfg = ToBoundary then repoAgentStateToResult s else None
        | _ \<Rightarrow> None))"

definition flushWaiters :: "session_config \<Rightarrow> session_core \<Rightarrow> session_core" where
  "flushWaiters cfg c =
     (let ready = filter (\<lambda>w. boundaryResultFor cfg (sc_state c) (snd w) \<noteq> None) (sc_waiters c) in
      c\<lparr>sc_waiters := filter (\<lambda>w. boundaryResultFor cfg (sc_state c) (snd w) = None) (sc_waiters c),
        sc_answers := sc_answers c @ map (\<lambda>w. (fst w, Boundary (the (boundaryResultFor cfg (sc_state c) (snd w))))) ready\<rparr>)"

definition applyState :: "session_config \<Rightarrow> agent_run_state \<Rightarrow> session_core \<Rightarrow> session_core" where
  "applyState cfg s c = flushWaiters cfg (c\<lparr>sc_state := s\<rparr>)"

definition waitForBoundary :: "session_config \<Rightarrow> nat \<Rightarrow> bool \<Rightarrow> session_core \<Rightarrow> session_core" where
  "waitForBoundary cfg since aborted c0 =
     (let i = sc_next_waiter c0; c = c0\<lparr>sc_next_waiter := Suc i\<rparr> in
      case boundaryResultFor cfg (sc_state c) since of
        Some r \<Rightarrow> c\<lparr>sc_answers := sc_answers c @ [(i, Boundary r)]\<rparr>
      | None \<Rightarrow>
          if aborted then c\<lparr>sc_answers := sc_answers c @ [(i, WaitAborted)]\<rparr>
          else c\<lparr>sc_waiters := sc_waiters c @ [(i, since)]\<rparr>)"

text \<open>The signal of a waiting client aborts.\<close>

definition removeWaiter :: "nat \<Rightarrow> session_core \<Rightarrow> session_core" where
  "removeWaiter i c =
     (if i \<in> fst ` set (sc_waiters c)
      then c\<lparr>sc_waiters := filter (\<lambda>w. fst w \<noteq> i) (sc_waiters c), sc_answers := sc_answers c @ [(i, WaitAborted)]\<rparr> else c)"

section \<open>Transitions\<close>

text \<open>\<open>this.applyState(this.store.<operation>(...))\<close>.\<close>

definition store_apply :: "session_config \<Rightarrow> agent_run_state store_op \<Rightarrow> session_core effect" where
  "store_apply cfg op c =
     (case op (sc_store c) of
        (Inl e, st) \<Rightarrow> (Inl (JsError (sf_error_text cfg e)), c\<lparr>sc_store := st\<rparr>)
      | (Inr s, st) \<Rightarrow> (Inr (), applyState cfg s (c\<lparr>sc_store := st\<rparr>)))"

definition to_state :: "session_config \<Rightarrow> agent_env \<Rightarrow> nat option \<Rightarrow> agent_status \<Rightarrow> session_core \<Rightarrow> agent_run_state" where
  "to_state cfg en pid st c = next_state (session_env cfg en) (sf_runId cfg) (ag_revision (sc_state c) + 1) pid st"

definition move_to :: "session_config \<Rightarrow> agent_env \<Rightarrow> agent_run_state \<Rightarrow> session_core effect" where
  "move_to cfg en s c = store_apply cfg (transition (session_env cfg en) (sf_runId cfg) (ag_revision (sc_state c)) s) c"

definition renewOwnership :: "session_core \<Rightarrow> session_core" where
  "renewOwnership c = (case sc_lock c of None \<Rightarrow> c | Some _ \<Rightarrow> c\<lparr>sc_renewals := Suc (sc_renewals c)\<rparr>)"

definition release_lock :: "session_core \<Rightarrow> session_core" where
  "release_lock c = (case sc_lock c of None \<Rightarrow> c | Some _ \<Rightarrow> c\<lparr>sc_lock := None, sc_granted := sc_granted c - 1\<rparr>)"

text \<open>Writing a final state; when the store refuses it the session keeps it in memory. False: also the
  fallback does not parse, and \<open>run()\<close> rejects.\<close>

definition settle_to :: "session_config \<Rightarrow> agent_env \<Rightarrow> agent_run_state \<Rightarrow> session_core \<Rightarrow> bool \<times> session_core" where
  "settle_to cfg en s c =
     (case move_to cfg en s c of
        (Inr _, c') \<Rightarrow> (True, c')
      | (Inl _, c') \<Rightarrow>
          if state_parses s then (True, applyState cfg s (c'\<lparr>sc_unpersisted := True\<rparr>)) else (False, c'))"

definition normalizeFailureMessage :: "string \<Rightarrow> string" where
  "normalizeFailureMessage m =
     (if js_trim m = [] then ''Repo-agent execution failed without an error message.'' else js_trim m)"

definition settle_failure :: "session_config \<Rightarrow> agent_env \<Rightarrow> string \<Rightarrow> session_core \<Rightarrow> bool \<times> session_core" where
  "settle_failure cfg en m c0 =
     (let c = c0\<lparr>sc_marked := Some (normalizeFailureMessage m)\<rparr> in
      if isTerminalStatus (ag_status (sc_state c)) then (True, c)
      else settle_to cfg en (to_state cfg en (ag_pid (sc_state c)) (AgentFailed (normalizeFailureMessage m) None) c) c)"

definition settleAborted :: "session_config \<Rightarrow> agent_env \<Rightarrow> session_core \<Rightarrow> bool \<times> session_core" where
  "settleAborted cfg en c =
     (if isTerminalStatus (ag_status (sc_state c)) then (True, c)
      else settle_to cfg en (to_state cfg en (Some (sf_pid cfg)) AgentAborted c) c)"

text \<open>The \<open>finally\<close> and the \<open>catch\<close> of \<open>run()\<close>.\<close>

definition finish_run :: "bool \<times> session_core \<Rightarrow> session_core" where
  "finish_run r = (release_lock (snd r))\<lparr>sc_repo_lease := False, sc_registered := False, sc_point := if fst r then Finished else Crashed\<rparr>"

definition fail_run :: "session_config \<Rightarrow> agent_env \<Rightarrow> string \<Rightarrow> session_core \<Rightarrow> session_core" where
  "fail_run cfg en m c = finish_run
     (if sc_aborted c \<and> \<not> isTerminalStatus (ag_status (sc_state c)) then settleAborted cfg en c else settle_failure cfg en m c)"

definition failure_text :: "js_failure \<Rightarrow> string" where
  "failure_text f = (case f of JsError m \<Rightarrow> m | JsOther m \<Rightarrow> m)"

definition MODEL_QUEUE_TIMEOUT_MESSAGE :: string where
  "MODEL_QUEUE_TIMEOUT_MESSAGE = ''Timed out waiting for model request queue.''"

section \<open>The gate's owner\<close>

definition agent_status_text :: "agent_status \<Rightarrow> string" where
  "agent_status_text st = (case st of
      AgentStarting \<Rightarrow> ''starting''
    | AgentRunning \<Rightarrow> ''running''
    | AgentApprovalRequired _ \<Rightarrow> ''approval_required''
    | AgentApprovalTimeout _ \<Rightarrow> ''approval_timeout''
    | AgentCompleted _ \<Rightarrow> ''completed''
    | AgentFailed _ _ \<Rightarrow> ''failed''
    | AgentAborted \<Rightarrow> ''aborted'')"

definition session_publish :: "session_config \<Rightarrow> agent_env \<Rightarrow> nat \<Rightarrow> approval_input \<Rightarrow> session_core effect" where
  "session_publish cfg en i x c =
     (if ag_status (sc_state c) \<noteq> AgentRunning
      then (Inl (JsError (''Approval requested while run '' @ show_nat (sf_runId cfg) @ '' is '' @ agent_status_text (ag_status (sc_state c)) @ ''.'')), c)
      else store_apply cfg (publishApproval (session_env cfg en) (sf_runId cfg) (ag_revision (sc_state c))
        \<lparr>ra_approvalId = i, ra_toolName = ai_toolName x, ra_command = ai_command x, ra_reviewPayload = ai_reviewPayload x\<rparr>) c)"

text \<open>An approval request among the progress events; \<open>fan\<close> is whether writing to the attached clients
  throws.\<close>

definition handleProgressEvent :: "session_config \<Rightarrow> agent_env \<Rightarrow> js_failure option \<Rightarrow> nat \<Rightarrow> approval_input \<Rightarrow> session_core effect" where
  "handleProgressEvent cfg en fan i x c0 =
     (case session_publish cfg en i x (renewOwnership c0) of
        (Inl f, c) \<Rightarrow> (Inl f, c)
      | (Inr _, c) \<Rightarrow>
          if sf_delivery cfg = ToBoundary then (Inr (), c)
          else (case fan of Some f \<Rightarrow> (Inl f, c) | None \<Rightarrow> (Inr (), c\<lparr>sc_frames := sc_frames c @ [i]\<rparr>)))"

definition session_clear :: "session_config \<Rightarrow> agent_env \<Rightarrow> cleared_status \<Rightarrow> session_core effect" where
  "session_clear cfg en st c =
     (case ag_status (sc_state c) of
        AgentApprovalRequired _ \<Rightarrow>
          store_apply cfg (clearPendingApproval (session_env cfg en) (sf_runId cfg) (ag_revision (sc_state c)) st) c
      | _ \<Rightarrow> (Inr (), c))"

definition onDecision :: "session_config \<Rightarrow> agent_env \<Rightarrow> gate_decision \<Rightarrow> session_core effect" where
  "onDecision cfg en d = session_clear cfg en (case d of GateAbort _ \<Rightarrow> ClearedAborted | _ \<Rightarrow> ClearedRunning)"

definition session_hooks :: "session_config \<Rightarrow> agent_env \<Rightarrow> js_failure option \<Rightarrow> session_core gate_hooks" where
  "session_hooks cfg en fan = \<lparr>
     gh_timeout = sf_timeout cfg, gh_bypass = True, gh_lease = True,
     gh_recorder = map_option (\<lambda>fails e c. (case fails e of Some f \<Rightarrow> Inl f | None \<Rightarrow> Inr (), c)) (sf_recorder cfg),
     gh_write = handleProgressEvent cfg en fan,
     gh_park = (\<lambda>c. (Inr (), release_lock c)),
     gh_decided = onDecision cfg en,
     gh_expired = session_clear cfg en ClearedTimeout\<rparr>"

section \<open>Events\<close>

datatype lock_reply = LockGranted nat "js_failure option" | LockNone | LockFailed string

datatype session_event =
    SStart
  | SRepository "string option"
  | SModel lock_reply
  | SAsks approval_input "js_failure option"
  | SContinues
  | SResumes lock_reply
  | SReturns engine_result
  | SThrows string
  | STimer nat
  | SDecide nat decision_kind "string option"
  | SSetMode approval_mode
  | SAbort
  | SOuterAbort string
  | SWait nat bool
  | SWaitAborts nat
  | SOther agent_env agent_call

definition start_run :: "session_config \<Rightarrow> session_core \<Rightarrow> session_core" where
  "start_run cfg c = (if sc_point c \<noteq> NotStarted then c
     else c\<lparr>sc_registered := True, sc_point := if sf_repository cfg then TakingRepository else TakingModel\<rparr>)"

text \<open>The model is granted, or not; then the run is recorded as running and the engine starts.\<close>

definition admit_session :: "session_config \<Rightarrow> agent_env \<Rightarrow> lock_reply \<Rightarrow> session_core \<Rightarrow> session_core" where
  "admit_session cfg en r c =
     (case r of
        LockFailed m \<Rightarrow> fail_run cfg en m c
      | LockNone \<Rightarrow> finish_run (if sc_aborted c then settleAborted cfg en c else settle_failure cfg en MODEL_QUEUE_TIMEOUT_MESSAGE c)
      | LockGranted p recorded \<Rightarrow>
          let c1 = c\<lparr>sc_lock := Some p, sc_granted := sc_granted c + 1, sc_preset := Some p\<rparr> in
          (case recorded of
             Some f \<Rightarrow> fail_run cfg en (failure_text f) c1
           | None \<Rightarrow>
               (case move_to cfg en (to_state cfg en (Some (sf_pid cfg)) AgentRunning c1) c1 of
                  (Inl f, c2) \<Rightarrow> fail_run cfg en (failure_text f) c2
                | (Inr _, c2) \<Rightarrow> c2\<lparr>sc_point := Executing\<rparr>)))"

definition tell :: "engine_answer \<Rightarrow> session_core \<Rightarrow> session_core" where
  "tell a c = c\<lparr>sc_told := sc_told c @ [a], sc_point := Executing\<rparr>"

definition engine_asks :: "session_config \<Rightarrow> agent_env \<Rightarrow> js_failure option \<Rightarrow> approval_input \<Rightarrow> agent_session \<Rightarrow> agent_session" where
  "engine_asks cfg en fan x s =
     (case gate_request (session_hooks cfg en fan) x (ae_now en) s of
        (None, g, c) \<Rightarrow> (g, tell (ToldDecision GateApprove) c)
      | (Some i, g, c) \<Rightarrow> (g, c\<lparr>sc_point := Parked i\<rparr>))"

text \<open>The microtask after the request's promise settled: an approved or denied run takes the model back
  first.\<close>

definition engine_continues :: "agent_session \<Rightarrow> agent_session" where
  "engine_continues = (\<lambda>(g, c). case sc_point c of
      Parked i \<Rightarrow>
        (case map_of (gt_settled g) i of
           None \<Rightarrow> (g, c)
         | Some (Resolved d) \<Rightarrow> (g, case d of GateAbort _ \<Rightarrow> tell (ToldDecision d) c | _ \<Rightarrow> c\<lparr>sc_point := Resuming d\<rparr>)
         | Some (Rejected _) \<Rightarrow> (g, tell ToldError c))
    | _ \<Rightarrow> (g, c))"

definition resume_run :: "lock_reply \<Rightarrow> session_core \<Rightarrow> session_core" where
  "resume_run r c = (case sc_point c of
      Resuming d \<Rightarrow>
        (case r of
           LockGranted p _ \<Rightarrow>
             if Some p \<noteq> sc_preset c then tell ToldError c
             else tell (ToldDecision d) (c\<lparr>sc_lock := Some p, sc_granted := sc_granted c + 1\<rparr>)
         | _ \<Rightarrow> tell ToldError c)
    | _ \<Rightarrow> c)"

definition engine_returns :: "session_config \<Rightarrow> agent_env \<Rightarrow> engine_result \<Rightarrow> session_core \<Rightarrow> session_core" where
  "engine_returns cfg en r c =
     (case assertSafeToSend r of
        Inl m \<Rightarrow> fail_run cfg en m c
      | Inr _ \<Rightarrow>
          let c1 = c\<lparr>sc_result := Some r\<rparr> in
          if isTerminalStatus (ag_status (sc_state c1)) then finish_run (True, c1)
          else let st = (case classifyRepoAgentExecutionResult r of
              OutcomeCompleted out \<Rightarrow> AgentCompleted out | OutcomeFailed e out \<Rightarrow> AgentFailed e (Some out)) in
            (case move_to cfg en (to_state cfg en (Some (sf_pid cfg)) st c1) c1 of
               (Inl f, c2) \<Rightarrow> fail_run cfg en (failure_text f) c2
             | (Inr _, c2) \<Rightarrow> finish_run (True, c2)))"

definition submitDecision ::
  "session_config \<Rightarrow> agent_env \<Rightarrow> gate_decision \<Rightarrow> agent_session \<Rightarrow> (js_failure + bool) \<times> agent_session" where
  "submitDecision cfg en d s =
     (case ag_status (sc_state (snd s)) of
        AgentApprovalRequired a \<Rightarrow>
          (case submit (session_hooks cfg en None) (ra_approvalId a) d (ae_now en) s of
             (Inr True, g, c) \<Rightarrow> (Inr True, g, renewOwnership c)
           | (r, g, c) \<Rightarrow> (r, g, c))
      | _ \<Rightarrow> (Inr False, s))"

text \<open>The mode is switched; switching off also approves what is parked. The answer is the approval given.\<close>

definition setApprovalMode ::
  "session_config \<Rightarrow> agent_env \<Rightarrow> approval_mode \<Rightarrow> agent_session \<Rightarrow> (js_failure + repo_approval option) \<times> agent_session" where
  "setApprovalMode cfg en m s0 =
     (let s = (setMode m (fst s0), snd s0) in
      case ag_status (sc_state (snd s)) of
        AgentApprovalRequired a \<Rightarrow>
          if m \<noteq> ModeOff then (Inr None, s)
          else (case submitDecision cfg en GateApprove s of
              (Inl f, s') \<Rightarrow> (Inl f, s')
            | (Inr b, s') \<Rightarrow> (Inr (if b then Some a else None), s'))
      | _ \<Rightarrow> (Inr None, s))"

definition abort_session :: "session_config \<Rightarrow> agent_env \<Rightarrow> agent_session \<Rightarrow> agent_session" where
  "abort_session cfg en = (\<lambda>(g, c).
     if isTerminalStatus (ag_status (sc_state c)) then (g, c)
     else signal_aborts (session_hooks cfg en None) ''Stopped by user.'' (ae_now en) (g, c\<lparr>sc_aborted := True\<rparr>))"

fun session_step :: "session_config \<Rightarrow> agent_env \<times> session_event \<Rightarrow> agent_session \<Rightarrow> agent_session" where
  "session_step cfg (en, SStart) (g, c) = (g, start_run cfg c)"
| "session_step cfg (en, SRepository r) (g, c) = (g,
     if sc_point c \<noteq> TakingRepository then c
     else case r of Some m \<Rightarrow> fail_run cfg en m c | None \<Rightarrow> c\<lparr>sc_repo_lease := True, sc_point := TakingModel\<rparr>)"
| "session_step cfg (en, SModel r) (g, c) = (g, if sc_point c \<noteq> TakingModel then c else admit_session cfg en r c)"
| "session_step cfg (en, SAsks x fan) (g, c) = (if sc_point c \<noteq> Executing then (g, c) else engine_asks cfg en fan x (g, c))"
| "session_step cfg (en, SContinues) (g, c) = engine_continues (g, c)"
| "session_step cfg (en, SResumes r) (g, c) = (g, resume_run r c)"
| "session_step cfg (en, SReturns r) (g, c) = (g, if sc_point c \<noteq> Executing then c else engine_returns cfg en r c)"
| "session_step cfg (en, SThrows m) (g, c) = (g, if sc_point c \<noteq> Executing then c else fail_run cfg en m c)"
| "session_step cfg (en, STimer i) (g, c) = timer_fires (session_hooks cfg en None) (ae_now en) i (g, c)"
| "session_step cfg (en, SDecide i k reason) (g, c) =
     (if i \<noteq> sf_runId cfg then (g, c) else snd (submitDecision cfg en (case k of
        DecideApprove \<Rightarrow> GateApprove | DecideDeny \<Rightarrow> GateDeny (case reason of None \<Rightarrow> [] | Some t \<Rightarrow> t)
      | DecideAbort \<Rightarrow> GateAbort CLIENT_ABORT_MESSAGE) (g, c)))"
| "session_step cfg (en, SSetMode m) (g, c) = snd (setApprovalMode cfg en m (g, c))"
| "session_step cfg (en, SAbort) (g, c) = abort_session cfg en (g, c)"
| "session_step cfg (en, SOuterAbort reason) (g, c) = signal_aborts (session_hooks cfg en None) reason (ae_now en) (g, c)"
| "session_step cfg (en, SWait since aborted) (g, c) = (g, waitForBoundary cfg since aborted c)"
| "session_step cfg (en, SWaitAborts i) (g, c) = (g, removeWaiter i c)"
| "session_step cfg (en, SOther other call) (g, c) = (g, c\<lparr>sc_store := agent_call_step (other, call) (sc_store c)\<rparr>)"

end
