(* ===== verification/Session_Invariant.thy ===== *)
theory Session_Invariant
  imports Agent_Session
begin

text \<open>
  What every event keeps of a repo-agent session: the gate's invariant, the core's (the state is the
  stored one or the stored one is later, clients wait only for boundaries that have not come, at most
  one model lock), what the run holds at each of its points, and that a terminal state is final.
\<close>

section \<open>What the store commits\<close>

text \<open>An operation of the store that succeeds has written the state it returns; \<open>commits_state\<close> also keeps
  what the checks of the three operations established about the state before.\<close>

definition commits_state :: "nat \<Rightarrow> nat \<Rightarrow> (agent_run_state \<Rightarrow> bool) \<Rightarrow> agent_run_state store_op \<Rightarrow> bool" where
  "commits_state i v P op \<longleftrightarrow> (\<forall>st r st'. op st = (r, st') \<longrightarrow>
     agent_grows st st' \<and> (agent_store_ok st \<longrightarrow> agent_store_ok st') \<and>
     (case r of Inl _ \<Rightarrow> True | Inr s \<Rightarrow> agent_record st' i = Some s \<and> state_parses s \<and> ag_runId s = i \<and> ag_revision s = v + 1 \<and>
        (\<exists>cur. agent_record st i = Some cur \<and> ag_revision cur = v \<and> P cur)))"

lemma updated_record:
  assumes "update_state en i check st = (Inr s, st')"
  shows "agent_record st' i = Some s \<and> (\<exists>cur. agent_record st i = Some cur \<and> check cur = Inr s)"
proof -
  obtain d fs where d: "st i = Some d" "lease_acquire (ae_pid en) (ae_alive en) (ad_lease d) = (Inr (), fs)"
    using assms by (auto simp: update_state_def with_state_lease_def split: option.splits prod.splits sum.splits)
  then show ?thesis
    using assms lease_free_again [OF d(2)]
    by (auto simp: update_state_def with_state_lease_def readStateFile_def writeState_def Let_def agent_record_dir
      split: option.splits prod.splits sum.splits stored_file.splits if_splits)
qed

lemma committed_update:
  assumes "\<And>st r st'. update_state en i check st = (r, st') \<Longrightarrow> agent_grows st st' \<and> (agent_store_ok st \<longrightarrow> agent_store_ok st')"
    and "\<And>cur s. check cur = Inr s \<Longrightarrow> state_parses s \<and> ag_runId s = i \<and> ag_revision s = v + 1 \<and> ag_revision cur = v \<and> P cur"
  shows "commits_state i v P (update_state en i check)"
  unfolding commits_state_def
proof (intro allI impI)
  fix st r st' assume u: "update_state en i check st = (r, st')"
  show "agent_grows st st' \<and> (agent_store_ok st \<longrightarrow> agent_store_ok st') \<and>
     (case r of Inl _ \<Rightarrow> True | Inr s \<Rightarrow> agent_record st' i = Some s \<and> state_parses s \<and> ag_runId s = i \<and> ag_revision s = v + 1 \<and>
        (\<exists>cur. agent_record st i = Some cur \<and> ag_revision cur = v \<and> P cur))"
  proof (cases r)
    case (Inr s)
    then obtain cur where "agent_record st' i = Some s" "agent_record st i = Some cur" "check cur = Inr s"
      using updated_record u by blast
    then show ?thesis using assms(1) [OF u] assms(2) Inr by auto
  qed (use assms(1) [OF u] in simp)
qed

lemma transition_committed: "commits_state i v (\<lambda>cur. \<not> isTerminalStatus (ag_status cur)) (transition en i v n)"
  using transition_grows unfolding transition_def
  by (intro committed_update) (simp_all, auto simp: check_defs split: if_splits)

lemma publish_committed: "commits_state i v (\<lambda>cur. True) (publishApproval en i v a)"
  using publish_grows unfolding publishApproval_def
  by (intro committed_update) (simp_all, auto simp: check_defs next_state_def split: if_splits)

lemma clear_committed: "commits_state i v (\<lambda>cur. True) (clearPendingApproval en i v st)"
  using clear_grows unfolding clearPendingApproval_def
  by (intro committed_update) (simp_all, auto simp: check_defs next_state_def split: if_splits agent_status.splits)

section \<open>The invariant\<close>

definition mirrored :: "session_config \<Rightarrow> session_core \<Rightarrow> bool" where
  "mirrored cfg c \<longleftrightarrow> (\<exists>s. agent_record (sc_store c) (sf_runId cfg) = Some s \<and>
     (s = sc_state c \<or> ag_revision (sc_state c) < ag_revision s))"

text \<open>A client that was told an end was told the end the run has.\<close>

definition answer_ok :: "session_config \<Rightarrow> agent_run_state \<Rightarrow> waiter_outcome \<Rightarrow> bool" where
  "answer_ok cfg s a = (case a of
      WaitAborted \<Rightarrow> True
    | Boundary (ResultApprovalRequired _ _) \<Rightarrow> sf_delivery cfg = ToBoundary
    | Boundary r \<Rightarrow> isTerminalStatus (ag_status s) \<and> repoAgentStateToResult s = Some r)"

definition waiters_ok :: "session_config \<Rightarrow> session_core \<Rightarrow> bool" where
  "waiters_ok cfg c \<longleftrightarrow>
     (\<forall>w \<in> set (sc_waiters c). boundaryResultFor cfg (sc_state c) (snd w) = None) \<and>
     (\<forall>a \<in> set (sc_answers c). answer_ok cfg (sc_state c) (snd a)) \<and>
     distinct (map fst (sc_waiters c) @ map fst (sc_answers c)) \<and>
     (\<forall>i. i \<in> fst ` set (sc_waiters c) \<union> fst ` set (sc_answers c) \<longleftrightarrow> i < sc_next_waiter c)"

definition core_ok :: "session_config \<Rightarrow> session_core \<Rightarrow> bool" where
  "core_ok cfg c \<longleftrightarrow> agent_store_ok (sc_store c) \<and> state_parses (sc_state c) \<and> ag_runId (sc_state c) = sf_runId cfg \<and>
     (if sc_unpersisted c then isTerminalStatus (ag_status (sc_state c)) else mirrored cfg c) \<and>
     sc_granted c = (if sc_lock c = None then 0 else 1) \<and> waiters_ok cfg c"

text \<open>What happens to a session's core, whatever is done to it: a terminal state stays, another state
  only moves on, and a client waiting leaves the list by an answer.\<close>

definition core_grows :: "session_core \<Rightarrow> session_core \<Rightarrow> bool" where
  "core_grows c c' \<longleftrightarrow>
     (isTerminalStatus (ag_status (sc_state c)) \<longrightarrow> sc_state c' = sc_state c) \<and>
     (sc_state c' = sc_state c \<or> ag_revision (sc_state c) < ag_revision (sc_state c')) \<and>
     set (sc_answers c) \<subseteq> set (sc_answers c') \<and>
     (\<forall>w \<in> set (sc_waiters c). w \<in> set (sc_waiters c') \<or> (\<exists>a. (fst w, a) \<in> set (sc_answers c') \<and>
        (a = WaitAborted \<or> sc_state c' \<noteq> sc_state c)))"

text \<open>What the callbacks of the gate leave alone.\<close>

definition core_frame :: "session_core \<Rightarrow> session_core \<Rightarrow> bool" where
  "core_frame c c' \<longleftrightarrow> sc_point c' = sc_point c \<and> sc_repo_lease c' = sc_repo_lease c \<and> sc_registered c' = sc_registered c \<and>
     sc_aborted c' = sc_aborted c \<and> sc_unpersisted c' = sc_unpersisted c \<and> sc_told c' = sc_told c \<and> sc_preset c' = sc_preset c \<and>
     (sc_lock c' = sc_lock c \<or> sc_lock c' = None)"

lemma core_grows_refl: "core_grows c c"
  by (simp add: core_grows_def)

lemma core_growsE:
  assumes "core_grows c c'"
  shows "isTerminalStatus (ag_status (sc_state c)) \<Longrightarrow> sc_state c' = sc_state c"
    and "sc_state c' = sc_state c \<or> ag_revision (sc_state c) < ag_revision (sc_state c')"
    and "a \<in> set (sc_answers c) \<Longrightarrow> a \<in> set (sc_answers c')"
    and "w \<in> set (sc_waiters c) \<Longrightarrow> w \<in> set (sc_waiters c') \<or>
      (\<exists>x. (fst w, x) \<in> set (sc_answers c') \<and> (x = WaitAborted \<or> sc_state c' \<noteq> sc_state c))"
  using assms unfolding core_grows_def by blast+

lemma core_grows_trans:
  assumes ab: "core_grows a b" and bc: "core_grows b c"
  shows "core_grows a c"
proof -
  have undo: "sc_state b = sc_state a" if "sc_state c = sc_state a"
    using core_growsE(2) [OF ab] core_growsE(2) [OF bc] that by auto
  have waiting: "w \<in> set (sc_waiters c) \<or> (\<exists>x. (fst w, x) \<in> set (sc_answers c) \<and> (x = WaitAborted \<or> sc_state c \<noteq> sc_state a))"
    if "w \<in> set (sc_waiters a)" for w
    using core_growsE(4) [OF ab that]
  proof (elim disjE exE conjE)
    assume "w \<in> set (sc_waiters b)"
    from core_growsE(4) [OF bc this] show ?thesis using undo core_growsE(2) [OF ab] core_growsE(2) [OF bc] by force
  next
    fix x assume "(fst w, x) \<in> set (sc_answers b)" "x = WaitAborted"
    then show ?thesis using core_growsE(3) [OF bc] by blast
  next
    fix x assume "(fst w, x) \<in> set (sc_answers b)" "sc_state b \<noteq> sc_state a"
    then show ?thesis using core_growsE(3) [OF bc] undo by blast
  qed
  have "sc_state c = sc_state a" if "isTerminalStatus (ag_status (sc_state a))"
    using core_growsE(1) [OF ab that] core_growsE(1) [OF bc] that by simp
  moreover have "sc_state c = sc_state a \<or> ag_revision (sc_state a) < ag_revision (sc_state c)"
    using core_growsE(2) [OF ab] core_growsE(2) [OF bc] by auto
  moreover have "set (sc_answers a) \<subseteq> set (sc_answers c)" using core_growsE(3) [OF ab] core_growsE(3) [OF bc] by blast
  ultimately show ?thesis using waiting unfolding core_grows_def by blast
qed

lemma core_frame_refl: "core_frame c c"
  by (simp add: core_frame_def)

lemma core_frame_trans: "core_frame a b \<Longrightarrow> core_frame b c \<Longrightarrow> core_frame a c"
  unfolding core_frame_def by (elim conjE) (simp, metis)

section \<open>Applying a state\<close>

lemma boundary_answer_ok:
  "boundaryResultFor cfg s since = Some r \<Longrightarrow> answer_ok cfg s (Boundary r)"
  by (auto simp: boundaryResultFor_def answer_ok_def repoAgentStateToResult_def isTerminalStatus_def Let_def
    split: if_splits agent_status.splits agent_result.splits)

lemma flushed:
  assumes "\<forall>a \<in> set (sc_answers c). answer_ok cfg (sc_state c) (snd a)"
    and "distinct (map fst (sc_waiters c) @ map fst (sc_answers c))"
    and "\<forall>i. i \<in> fst ` set (sc_waiters c) \<union> fst ` set (sc_answers c) \<longleftrightarrow> i < sc_next_waiter c"
  shows "waiters_ok cfg (flushWaiters cfg c)"
proof -
  let ?b = "\<lambda>w. boundaryResultFor cfg (sc_state c) (snd w)"
  let ?stay = "filter (\<lambda>w. ?b w = None) (sc_waiters c)" and ?go = "filter (\<lambda>w. ?b w \<noteq> None) (sc_waiters c)"
  have "set ?stay \<union> set ?go = set (sc_waiters c)" by auto
  then have split: "fst ` set ?stay \<union> fst ` set ?go = fst ` set (sc_waiters c)" by (metis image_Un)
  have "distinct (map fst (sc_waiters c))" using assms(2) by simp
  then have parts: "distinct (map fst ?stay)" "distinct (map fst ?go)" "fst ` set ?stay \<inter> fst ` set ?go = {}"
    by (auto simp: distinct_map_filter) (metis eq_key_imp_eq_value prod.collapse option.distinct(1))
  let ?c = "flushWaiters cfg c"
  have ids: "map fst (sc_answers ?c) = map fst (sc_answers c) @ map fst ?go" "sc_waiters ?c = ?stay"
    "sc_state ?c = sc_state c" "sc_next_waiter ?c = sc_next_waiter c"
    by (simp_all add: flushWaiters_def Let_def comp_def)
  then have names: "fst ` set (sc_answers ?c) = fst ` set (sc_answers c) \<union> fst ` set ?go" by (metis set_append set_map)
  have "distinct (map fst (sc_waiters ?c) @ map fst (sc_answers ?c))"
    using assms(2) parts split by (auto simp: ids)
  moreover have "\<forall>i. i \<in> fst ` set (sc_waiters ?c) \<union> fst ` set (sc_answers ?c) \<longleftrightarrow> i < sc_next_waiter ?c"
    using assms(3) split unfolding names ids by (metis Un_commute Un_left_commute)
  moreover have "\<forall>a \<in> set (sc_answers ?c). answer_ok cfg (sc_state ?c) (snd a)"
    using assms(1) boundary_answer_ok [of cfg "sc_state c"] by (auto simp: flushWaiters_def Let_def)
  moreover have "\<forall>w \<in> set (sc_waiters ?c). boundaryResultFor cfg (sc_state ?c) (snd w) = None" by (simp add: ids)
  ultimately show ?thesis unfolding waiters_ok_def by blast
qed

lemma core_okE:
  assumes "core_ok cfg c"
  shows "agent_store_ok (sc_store c)" "state_parses (sc_state c)" "ag_runId (sc_state c) = sf_runId cfg" "waiters_ok cfg c"
    "sc_granted c = (if sc_lock c = None then 0 else 1)"
    "\<not> isTerminalStatus (ag_status (sc_state c)) \<Longrightarrow> \<not> sc_unpersisted c"
    "\<not> sc_unpersisted c \<Longrightarrow> mirrored cfg c"
  using assms unfolding core_ok_def by (auto split: if_splits)

lemma applied_fields:
  "sc_state (applyState cfg s c) = s" "sc_store (applyState cfg s c) = sc_store c"
  "sc_unpersisted (applyState cfg s c) = sc_unpersisted c" "sc_lock (applyState cfg s c) = sc_lock c"
  "sc_granted (applyState cfg s c) = sc_granted c" "sc_point (applyState cfg s c) = sc_point c"
  "sc_repo_lease (applyState cfg s c) = sc_repo_lease c" "sc_registered (applyState cfg s c) = sc_registered c"
  "sc_aborted (applyState cfg s c) = sc_aborted c" "sc_told (applyState cfg s c) = sc_told c"
  "sc_preset (applyState cfg s c) = sc_preset c"
  by (simp_all add: applyState_def flushWaiters_def Let_def)

lemma applied:
  assumes ok: "core_ok cfg c" and live: "\<not> isTerminalStatus (ag_status (sc_state c))"
    and s: "state_parses s" "ag_runId s = sf_runId cfg" "ag_revision (sc_state c) < ag_revision s"
    and st: "agent_store_ok st" "if u then isTerminalStatus (ag_status s) else agent_record st (sf_runId cfg) = Some s"
  shows "core_ok cfg (applyState cfg s (c\<lparr>sc_store := st, sc_unpersisted := u\<rparr>)) \<and>
    core_grows c (applyState cfg s (c\<lparr>sc_store := st, sc_unpersisted := u\<rparr>))"
proof
  let ?c = "c\<lparr>sc_store := st, sc_unpersisted := u, sc_state := s\<rparr>"
  have app: "applyState cfg s (c\<lparr>sc_store := st, sc_unpersisted := u\<rparr>) = flushWaiters cfg ?c" by (simp add: applyState_def)
  note w = core_okE(4) [OF ok, unfolded waiters_ok_def]
  have told: "answer_ok cfg s (snd a)" if "a \<in> set (sc_answers c)" for a
  proof -
    have "answer_ok cfg (sc_state c) (snd a)" using w that by blast
    then show ?thesis using live by (auto simp: answer_ok_def split: waiter_outcome.splits agent_result.splits)
  qed
  have "waiters_ok cfg (flushWaiters cfg ?c)" by (rule flushed) (use w told in auto)
  then show "core_ok cfg (applyState cfg s (c\<lparr>sc_store := st, sc_unpersisted := u\<rparr>))"
    using s st core_okE(5) [OF ok] unfolding core_ok_def app
    by (auto simp: flushWaiters_def Let_def mirrored_def split: if_splits)
  show "core_grows c (applyState cfg s (c\<lparr>sc_store := st, sc_unpersisted := u\<rparr>))"
    using live s(3) unfolding core_grows_def app by (force simp: flushWaiters_def Let_def)
qed

text \<open>Other writers, and updates that were refused, only let the record grow.\<close>

lemma store_grown:
  assumes ok: "core_ok cfg c" and "agent_grows (sc_store c) st \<and> (agent_store_ok (sc_store c) \<longrightarrow> agent_store_ok st)"
  shows "core_ok cfg (c\<lparr>sc_store := st\<rparr>) \<and> core_grows c (c\<lparr>sc_store := st\<rparr>) \<and> core_frame c (c\<lparr>sc_store := st\<rparr>)"
proof (intro conjI)
  have "mirrored cfg (c\<lparr>sc_store := st\<rparr>)" if m: "mirrored cfg c"
  proof -
    obtain s where s: "agent_record (sc_store c) (sf_runId cfg) = Some s" "s = sc_state c \<or> ag_revision (sc_state c) < ag_revision s"
      using m by (auto simp: mirrored_def)
    then obtain s' where "agent_record st (sf_runId cfg) = Some s'" "record_grows s s'" using assms(2) by (auto simp: agent_grows_def)
    then show ?thesis using s(2) by (auto simp: mirrored_def record_grows_def split: if_splits)
  qed
  then show "core_ok cfg (c\<lparr>sc_store := st\<rparr>)" using assms by (auto simp: core_ok_def waiters_ok_def split: if_splits)
qed (auto simp: core_grows_def core_frame_def)

lemma store_apply_ok:
  assumes ok: "core_ok cfg c" and op: "commits_state (sf_runId cfg) (ag_revision (sc_state c)) P op"
    and live: "\<not> isTerminalStatus (ag_status (sc_state c)) \<or> \<not> sc_unpersisted c \<and> P = (\<lambda>cur. \<not> isTerminalStatus (ag_status cur))"
    and run: "store_apply cfg op c = (r, c')"
  shows "core_ok cfg c' \<and> core_grows c c' \<and> core_frame c c'"
proof -
  obtain x st where x: "op (sc_store c) = (x, st)" by fastforce
  note done_op = op [unfolded commits_state_def, rule_format, OF x]
  show ?thesis
  proof (cases x)
    case (Inl e)
    then have "c' = c\<lparr>sc_store := st\<rparr>" using run x by (simp add: store_apply_def)
    then show ?thesis using store_grown [OF ok, of st] done_op by simp
  next
    case (Inr s)
    then obtain cur where cur: "agent_record (sc_store c) (sf_runId cfg) = Some cur" "ag_revision cur = ag_revision (sc_state c)" "P cur"
      and s: "agent_record st (sf_runId cfg) = Some s" "state_parses s" "ag_runId s = sf_runId cfg" "ag_revision s = ag_revision (sc_state c) + 1"
      using done_op by auto
    have alive: "\<not> isTerminalStatus (ag_status (sc_state c))"
      using live
    proof
      assume l: "\<not> sc_unpersisted c \<and> P = (\<lambda>cur. \<not> isTerminalStatus (ag_status cur))"
      then have "sc_state c = cur" using core_okE(7) [OF ok] cur(1,2) by (auto simp: mirrored_def)
      then show ?thesis using l cur(3) by simp
    qed
    have c': "c' = applyState cfg s (c\<lparr>sc_store := st, sc_unpersisted := sc_unpersisted c\<rparr>)"
      using run x Inr by (simp add: store_apply_def)
    have "core_ok cfg c' \<and> core_grows c c'"
      unfolding c' by (rule applied [OF ok alive]) (use s done_op core_okE(1) [OF ok] core_okE(6) [OF ok alive] in auto)
    then show ?thesis unfolding c' core_frame_def by (simp add: applied_fields)
  qed
qed

lemma move_ok:
  assumes "core_ok cfg c" and "\<not> sc_unpersisted c" and "move_to cfg en s c = (r, c')"
  shows "core_ok cfg c' \<and> core_grows c c' \<and> core_frame c c'"
  by (rule store_apply_ok [OF assms(1) transition_committed _ assms(3) [unfolded move_to_def]]) (use assms(2) in simp)

lemma move_result:
  assumes "move_to cfg en s c = (Inr u, c')"
  shows "sc_state c' = s"
proof -
  obtain n st where n: "transition (session_env cfg en) (sf_runId cfg) (ag_revision (sc_state c)) s (sc_store c) = (Inr n, st)"
    "c' = applyState cfg n (c\<lparr>sc_store := st\<rparr>)"
    using assms by (auto simp: move_to_def store_apply_def split: prod.splits sum.splits)
  have "n = s" using updated_record [OF n(1) [unfolded transition_def]] by (auto simp: parsed_def split: if_splits)
  then show ?thesis by (simp add: n(2) applied_fields)
qed

section \<open>The callbacks\<close>

lemma core_ok_updates [simp]:
  "core_ok cfg (c\<lparr>sc_renewals := n\<rparr>) = core_ok cfg c" "core_ok cfg (c\<lparr>sc_frames := fs\<rparr>) = core_ok cfg c"
  "core_ok cfg (c\<lparr>sc_point := q\<rparr>) = core_ok cfg c" "core_ok cfg (c\<lparr>sc_told := ts\<rparr>) = core_ok cfg c"
  "core_ok cfg (c\<lparr>sc_marked := mm\<rparr>) = core_ok cfg c" "core_ok cfg (c\<lparr>sc_result := rs\<rparr>) = core_ok cfg c"
  "core_ok cfg (c\<lparr>sc_repo_lease := b\<rparr>) = core_ok cfg c" "core_ok cfg (c\<lparr>sc_registered := b\<rparr>) = core_ok cfg c"
  "core_ok cfg (c\<lparr>sc_aborted := b\<rparr>) = core_ok cfg c" "core_ok cfg (c\<lparr>sc_preset := pp\<rparr>) = core_ok cfg c"
  by (simp_all add: core_ok_def waiters_ok_def mirrored_def)

lemma core_grows_updates [simp]:
  "core_grows a (c\<lparr>sc_renewals := n\<rparr>) = core_grows a c" "core_grows a (c\<lparr>sc_frames := fs\<rparr>) = core_grows a c"
  "core_grows a (c\<lparr>sc_point := q\<rparr>) = core_grows a c" "core_grows a (c\<lparr>sc_told := ts\<rparr>) = core_grows a c"
  "core_grows a (c\<lparr>sc_marked := mm\<rparr>) = core_grows a c" "core_grows a (c\<lparr>sc_result := rs\<rparr>) = core_grows a c"
  "core_grows a (c\<lparr>sc_repo_lease := b\<rparr>) = core_grows a c" "core_grows a (c\<lparr>sc_registered := b\<rparr>) = core_grows a c"
  "core_grows a (c\<lparr>sc_aborted := b\<rparr>) = core_grows a c" "core_grows a (c\<lparr>sc_preset := pp\<rparr>) = core_grows a c"
  "core_grows a (c\<lparr>sc_lock := l\<rparr>) = core_grows a c" "core_grows a (c\<lparr>sc_granted := n\<rparr>) = core_grows a c"
  "core_grows (c\<lparr>sc_marked := mm\<rparr>) a = core_grows c a" "core_grows (c\<lparr>sc_result := rs\<rparr>) a = core_grows c a"
  "core_grows (c\<lparr>sc_renewals := n\<rparr>) a = core_grows c a" "core_grows (c\<lparr>sc_aborted := b\<rparr>) a = core_grows c a"
  "core_grows (c\<lparr>sc_lock := l\<rparr>) a = core_grows c a" "core_grows (c\<lparr>sc_granted := n\<rparr>) a = core_grows c a"
  "core_grows (c\<lparr>sc_preset := pp\<rparr>) a = core_grows c a"
  by (simp_all add: core_grows_def)

definition core_moves :: "session_config \<Rightarrow> session_core \<Rightarrow> session_core \<Rightarrow> bool" where
  "core_moves cfg c c' \<longleftrightarrow> core_grows c c' \<and> core_frame c c'"

lemma core_moves_refl: "core_moves cfg c c"
  by (simp add: core_moves_def core_grows_refl core_frame_refl)

lemma core_moves_trans: "core_moves cfg a b \<Longrightarrow> core_moves cfg b c \<Longrightarrow> core_moves cfg a c"
  unfolding core_moves_def using core_grows_trans core_frame_trans by blast

lemma renewed: "core_ok cfg c \<Longrightarrow> core_ok cfg (renewOwnership c) \<and> core_moves cfg c (renewOwnership c)"
  by (auto simp: renewOwnership_def core_moves_def core_grows_refl core_frame_def split: option.splits)

lemma released: "core_ok cfg c \<Longrightarrow> core_ok cfg (release_lock c) \<and> core_moves cfg c (release_lock c)"
  by (auto simp: release_lock_def core_moves_def core_grows_refl core_frame_def core_ok_def waiters_ok_def mirrored_def
    split: option.splits)

lemma released_lock [simp]: "sc_lock (release_lock c) = None"
  by (auto simp: release_lock_def split: option.splits)

lemma published:
  assumes "core_ok cfg c" and "session_publish cfg en i x c = (r, c')"
  shows "core_ok cfg c' \<and> core_moves cfg c c'"
proof (cases "ag_status (sc_state c) = AgentRunning")
  case True
  then have "store_apply cfg (publishApproval (session_env cfg en) (sf_runId cfg) (ag_revision (sc_state c))
        \<lparr>ra_approvalId = i, ra_toolName = ai_toolName x, ra_command = ai_command x, ra_reviewPayload = ai_reviewPayload x\<rparr>) c = (r, c')"
    using assms(2) by (simp add: session_publish_def)
  from store_apply_ok [OF assms(1) publish_committed _ this] True show ?thesis
    by (simp add: core_moves_def isTerminalStatus_def)
qed (use assms core_moves_refl in \<open>auto simp: session_publish_def\<close>)

lemma progress_handled:
  assumes "core_ok cfg c" and "handleProgressEvent cfg en fan i x c = (r, c')"
  shows "core_ok cfg c' \<and> core_moves cfg c c'"
proof -
  note r = renewed [OF assms(1)]
  obtain x1 c1 where x1: "session_publish cfg en i x (renewOwnership c) = (x1, c1)" by fastforce
  have p: "core_ok cfg c1 \<and> core_moves cfg c c1" using published [OF _ x1] r core_moves_trans by blast
  have "c' = c1 \<or> c' = c1\<lparr>sc_frames := sc_frames c1 @ [i]\<rparr>"
    using assms(2) x1 by (auto simp: handleProgressEvent_def split: sum.splits if_splits option.splits)
  then show ?thesis using p by (auto simp: core_moves_def core_frame_def)
qed

lemma cleared:
  assumes "core_ok cfg c" and "session_clear cfg en st c = (r, c')"
  shows "core_ok cfg c' \<and> core_moves cfg c c'"
proof (cases "\<exists>a. ag_status (sc_state c) = AgentApprovalRequired a")
  case True
  then have "store_apply cfg (clearPendingApproval (session_env cfg en) (sf_runId cfg) (ag_revision (sc_state c)) st) c = (r, c')"
    using assms(2) by (auto simp: session_clear_def)
  from store_apply_ok [OF assms(1) clear_committed _ this] True show ?thesis
    by (auto simp: core_moves_def isTerminalStatus_def)
next
  case False
  then have "c' = c" using assms(2) by (auto simp: session_clear_def split: agent_status.splits)
  then show ?thesis using assms(1) core_moves_refl by simp
qed

interpretation session_owner: gate_owner "session_hooks cfg en fan" "core_ok cfg" "core_moves cfg" for cfg en fan
proof unfold_locales
  fix c c' r
  show "core_moves cfg c c" by (rule core_moves_refl)
  show "core_moves cfg a b \<Longrightarrow> core_moves cfg b d \<Longrightarrow> core_moves cfg a d" for a b d by (rule core_moves_trans)
  show "gh_recorder (session_hooks cfg en fan) = Some rec \<Longrightarrow> core_ok cfg c \<Longrightarrow> rec e c = (r, c') \<Longrightarrow> core_ok cfg c' \<and> core_moves cfg c c'"
    for rec e using core_moves_refl by (auto simp: session_hooks_def)
  show "core_ok cfg c \<Longrightarrow> gh_write (session_hooks cfg en fan) i x c = (r, c') \<Longrightarrow> core_ok cfg c' \<and> core_moves cfg c c'" for i x
    using progress_handled by (simp add: session_hooks_def)
  show "core_ok cfg c \<Longrightarrow> gh_park (session_hooks cfg en fan) c = (r, c') \<Longrightarrow> core_ok cfg c' \<and> core_moves cfg c c'"
    using released by (auto simp: session_hooks_def)
  show "core_ok cfg c \<Longrightarrow> gh_decided (session_hooks cfg en fan) d c = (r, c') \<Longrightarrow> core_ok cfg c' \<and> core_moves cfg c c'" for d
    using cleared by (simp add: session_hooks_def onDecision_def)
  show "core_ok cfg c \<Longrightarrow> gh_expired (session_hooks cfg en fan) c = (r, c') \<Longrightarrow> core_ok cfg c' \<and> core_moves cfg c c'"
    using cleared by (simp add: session_hooks_def)
qed

section \<open>The end of a run\<close>

definition run_ended :: "session_core \<Rightarrow> bool" where
  "run_ended c \<longleftrightarrow> sc_point c = Finished \<and> sc_lock c = None \<and> \<not> sc_repo_lease c \<and> \<not> sc_registered c \<and>
     isTerminalStatus (ag_status (sc_state c))"

lemma finished:
  assumes "core_ok cfg c" and "isTerminalStatus (ag_status (sc_state c))"
  shows "core_ok cfg (finish_run (True, c)) \<and> core_grows c (finish_run (True, c)) \<and> run_ended (finish_run (True, c))"
  using assms released [OF assms(1)]
  by (auto simp: finish_run_def run_ended_def core_moves_def) (auto simp: release_lock_def split: option.splits)

lemma settled_state:
  assumes "core_ok cfg c" and live: "\<not> isTerminalStatus (ag_status (sc_state c))"
    and s: "state_parses s" "ag_runId s = sf_runId cfg" "ag_revision s = ag_revision (sc_state c) + 1" "isTerminalStatus (ag_status s)"
    and run: "settle_to cfg en s c = (b, c')"
  shows "b \<and> core_ok cfg c' \<and> core_grows c c' \<and> isTerminalStatus (ag_status (sc_state c'))"
proof -
  note unp = core_okE(6) [OF assms(1) live]
  obtain r c1 where m: "move_to cfg en s c = (r, c1)" by fastforce
  note moved = move_ok [OF assms(1) unp m]
  show ?thesis
  proof (cases r)
    case (Inr u)
    then show ?thesis using run m moved move_result [of cfg en s c u c1] s(4) by (auto simp: settle_to_def)
  next
    case (Inl f)
    then have c1: "\<exists>st. c1 = c\<lparr>sc_store := st\<rparr>" using m by (auto simp: move_to_def store_apply_def split: prod.splits sum.splits)
    then have live1: "sc_state c1 = sc_state c" by auto
    have c': "b" "c' = applyState cfg s (c1\<lparr>sc_store := sc_store c1, sc_unpersisted := True\<rparr>)"
      using run m Inl s(1) by (auto simp: settle_to_def)
    have "core_ok cfg c' \<and> core_grows c1 c'"
      unfolding c' by (rule applied) (use moved live live1 s core_okE(1) in auto)
    then show ?thesis using moved core_grows_trans c' s(4) by (auto simp: applied_fields)
  qed
qed

lemma failure_message_nonempty: "normalizeFailureMessage m \<noteq> []"
  by (auto simp: normalizeFailureMessage_def)

lemma failed_settles:
  assumes "core_ok cfg c" and "settle_failure cfg en m c = (b, c')"
  shows "b \<and> core_ok cfg c' \<and> core_grows c c' \<and> isTerminalStatus (ag_status (sc_state c'))"
proof (cases "isTerminalStatus (ag_status (sc_state c))")
  case True
  then show ?thesis using assms by (auto simp: settle_failure_def core_grows_refl)
next
  case False
  let ?c = "c\<lparr>sc_marked := Some (normalizeFailureMessage m)\<rparr>"
  let ?s = "to_state cfg en (ag_pid (sc_state c)) (AgentFailed (normalizeFailureMessage m) None) ?c"
  have pid: "ag_pid (sc_state c) = None \<or> positive_pid (ag_pid (sc_state c))"
    using core_okE(2) [OF assms(1)] by (auto simp: state_parses_def split: agent_status.splits)
  have "settle_to cfg en ?s ?c = (b, c')" using assms(2) False by (simp add: settle_failure_def Let_def)
  from settled_state [OF _ _ _ _ _ _ this] show ?thesis
    using assms(1) False pid failure_message_nonempty by (simp add: to_state_def next_state_def state_parses_def isTerminalStatus_def)
qed

lemma aborted_settles:
  assumes "core_ok cfg c" and "0 < sf_pid cfg" and "settleAborted cfg en c = (b, c')"
  shows "b \<and> core_ok cfg c' \<and> core_grows c c' \<and> isTerminalStatus (ag_status (sc_state c'))"
proof (cases "isTerminalStatus (ag_status (sc_state c))")
  case False
  then have "settle_to cfg en (to_state cfg en (Some (sf_pid cfg)) AgentAborted c) c = (b, c')" using assms(3) by (simp add: settleAborted_def)
  from settled_state [OF assms(1) False _ _ _ _ this] show ?thesis
    using assms(2) by (simp add: to_state_def next_state_def state_parses_def positive_pid_def isTerminalStatus_def)
qed (use assms in \<open>auto simp: settleAborted_def core_grows_refl\<close>)

lemma failed_run:
  assumes "core_ok cfg c" and "0 < sf_pid cfg"
  shows "core_ok cfg (fail_run cfg en m c) \<and> core_grows c (fail_run cfg en m c) \<and> run_ended (fail_run cfg en m c)"
proof -
  obtain b c' where r: "(if sc_aborted c \<and> \<not> isTerminalStatus (ag_status (sc_state c)) then settleAborted cfg en c
      else settle_failure cfg en m c) = (b, c')" by fastforce
  then have "b \<and> core_ok cfg c' \<and> core_grows c c' \<and> isTerminalStatus (ag_status (sc_state c'))"
    using aborted_settles [OF assms, of en b c'] failed_settles [OF assms(1), of en m b c'] by (metis (full_types))
  then show ?thesis using finished [of cfg c'] core_grows_trans r by (auto simp: fail_run_def)
qed

section \<open>The whole session\<close>

definition point_ok :: "approval_gate \<Rightarrow> session_core \<Rightarrow> bool" where
  "point_ok g c \<longleftrightarrow> (case sc_point c of
      NotStarted \<Rightarrow> sc_lock c = None \<and> \<not> sc_repo_lease c \<and> \<not> sc_registered c
    | TakingRepository \<Rightarrow> sc_lock c = None \<and> \<not> sc_repo_lease c \<and> sc_registered c
    | TakingModel \<Rightarrow> sc_lock c = None \<and> sc_registered c
    | Executing \<Rightarrow> sc_registered c
    | Parked i \<Rightarrow> sc_registered c \<and> i < gt_next g \<and> (sc_lock c = None \<or> (\<exists>f. (i, Rejected f) \<in> set (gt_settled g)))
    | Resuming d \<Rightarrow> sc_registered c \<and> sc_lock c = None
    | Finished \<Rightarrow> run_ended c
    | Crashed \<Rightarrow> False)"

definition session_ok :: "session_config \<Rightarrow> agent_session \<Rightarrow> bool" where
  "session_ok cfg s \<longleftrightarrow> gate_ok (fst s) \<and> core_ok cfg (snd s) \<and> point_ok (fst s) (snd s) \<and>
     (\<forall>i. gt_pending (fst s) i \<noteq> None \<longrightarrow> sc_point (snd s) = Parked i) \<and>
     (sc_unpersisted (snd s) \<longrightarrow> sc_point (snd s) = Finished)"

lemma session_okE:
  assumes "session_ok cfg (g, c)"
  shows "gate_ok g" "core_ok cfg c" "point_ok g c" "gt_pending g i \<noteq> None \<Longrightarrow> sc_point c = Parked i"
    "sc_point c \<noteq> Finished \<Longrightarrow> \<not> sc_unpersisted c" "sc_point c \<noteq> Parked i \<Longrightarrow> gt_pending g i = None"
  using assms unfolding session_ok_def by auto

text \<open>An operation of the gate keeps the session: the callbacks do not move the run, and what was settled
  stays settled.\<close>

definition gate_moves :: "approval_gate \<Rightarrow> approval_gate \<Rightarrow> bool" where
  "gate_moves g g' \<longleftrightarrow> gate_ok g' \<and> gt_next g' = gt_next g \<and> set (gt_settled g) \<subseteq> set (gt_settled g') \<and>
     (\<forall>i. gt_pending g' i \<noteq> None \<longrightarrow> gt_pending g i \<noteq> None)"

lemma session_moves:
  assumes ok: "session_ok cfg (g, c)" and "gate_moves g g'" and "core_ok cfg c' \<and> core_moves cfg c c'"
  shows "session_ok cfg (g', c') \<and> core_grows c c'"
proof -
  have point: "sc_point c' = sc_point c" and frame: "core_frame c c'" using assms(3) by (simp_all add: core_moves_def core_frame_def)
  have terminal: "run_ended c \<Longrightarrow> run_ended c'"
    using assms(3) by (auto simp: run_ended_def core_moves_def core_frame_def dest: core_growsE(1))
  have "point_ok g' c'"
    using session_okE(3) [OF ok] frame assms(2) terminal unfolding point_ok_def gate_moves_def core_frame_def point
    by (auto split: run_point.splits)
  then show ?thesis
    using ok assms unfolding session_ok_def gate_moves_def core_moves_def by (auto simp: core_frame_def)
qed

lemma closed_moves: "gate_ok g \<Longrightarrow> gt_pending g i \<noteq> None \<Longrightarrow> gate_moves g (closed i s g)"
  unfolding gate_moves_def using closed_ok by auto

lemma gate_moves_refl: "gate_ok g \<Longrightarrow> gate_moves g g"
  by (simp add: gate_moves_def)

lemma submit_moves: "gate_ok g \<Longrightarrow> submit h i d now (g, w) = (r, g', w') \<Longrightarrow> gate_moves g g'"
  using submit_closes [of h i d now g w r g' w'] closed_moves gate_moves_refl by (metis option.distinct(1))

lemma timer_moves: "gate_ok g \<Longrightarrow> timer_fires h now i (g, w) = (g', w') \<Longrightarrow> gate_moves g g'"
  using timer_closes [of g h now i w g' w'] closed_moves gate_moves_refl by metis

lemma abort_next:
  "fold (abortListener h reason now) js (g, w) = (g', w') \<Longrightarrow> gt_next g' = gt_next g"
proof (induction js arbitrary: g w)
  case (Cons j js)
  obtain f w1 where "abortListener h reason now j (g, w) = (closed j (Rejected f) g, w1)"
    using abortListener_closes [of h reason now j g w] by blast
  then show ?case using Cons by simp
qed simp

lemma abort_moves: "gate_ok g \<Longrightarrow> signal_aborts h reason now (g, w) = (g', w') \<Longrightarrow> gate_moves g g'"
  using signal_aborts_all [of g h reason now w g' w'] abort_next
  by (fastforce simp: gate_moves_def signal_aborts_def split: if_splits)

text \<open>The events that only touch the core.\<close>

lemma core_event:
  assumes ok: "session_ok cfg (g, c)" and "core_ok cfg c'" and "core_grows c c'" and "point_ok g c'"
    and "sc_point c' = sc_point c \<or> (\<forall>i. sc_point c \<noteq> Parked i) \<or> (\<exists>i. sc_point c = Parked i \<and> gt_pending g i = None)"
    and "sc_unpersisted c' \<Longrightarrow> sc_point c' = Finished"
  shows "session_ok cfg (g, c') \<and> core_grows c c'"
proof -
  have "sc_point c' = Parked i" if "gt_pending g i \<noteq> None" for i
    using session_okE(4) [OF ok that] assms(5) that by auto
  then show ?thesis using assms ok by (auto simp: session_ok_def)
qed

lemma ended_ok: "run_ended c \<Longrightarrow> point_ok g c \<and> sc_point c = Finished"
  by (simp add: point_ok_def run_ended_def)

lemma failing_event:
  assumes "session_ok cfg (g, c)" and "0 < sf_pid cfg" and "\<forall>i. sc_point c \<noteq> Parked i"
    and "core_ok cfg c1" and "core_grows c c1"
  shows "session_ok cfg (g, fail_run cfg en m c1) \<and> core_grows c (fail_run cfg en m c1)"
proof -
  note f = failed_run [OF assms(4,2), of en m]
  show ?thesis
    by (rule core_event [OF assms(1)]) (use f assms(3,5) core_grows_trans ended_ok in blast)+
qed

lemma granted:
  assumes "core_ok cfg c" and "sc_lock c = None"
  shows "core_ok cfg (c\<lparr>sc_lock := Some p, sc_granted := sc_granted c + 1\<rparr>)"
  using assms by (auto simp: core_ok_def waiters_ok_def mirrored_def)

lemma admitted:
  assumes ok: "session_ok cfg (g, c)" and pid: "0 < sf_pid cfg" and at: "sc_point c = TakingModel"
  shows "session_ok cfg (g, admit_session cfg en r c) \<and> core_grows c (admit_session cfg en r c)"
proof (cases r)
  case (LockFailed m)
  then show ?thesis using failing_event [OF ok pid _ session_okE(2) [OF ok] core_grows_refl] at by (simp add: admit_session_def)
next
  case LockNone
  obtain b c' where r: "(if sc_aborted c then settleAborted cfg en c else settle_failure cfg en MODEL_QUEUE_TIMEOUT_MESSAGE c) = (b, c')"
    by fastforce
  then have "b \<and> core_ok cfg c' \<and> core_grows c c' \<and> isTerminalStatus (ag_status (sc_state c'))"
    using aborted_settles [OF session_okE(2) [OF ok] pid, of en b c'] failed_settles [OF session_okE(2) [OF ok], of en _ b c']
    by (metis (full_types))
  then have f: "core_ok cfg (finish_run (b, c')) \<and> core_grows c (finish_run (b, c')) \<and> run_ended (finish_run (b, c'))"
    using finished [of cfg c'] core_grows_trans by auto
  have "admit_session cfg en r c = finish_run (b, c')" using LockNone r by (simp add: admit_session_def)
  then show ?thesis using core_event [OF ok, of "finish_run (b, c')"] f ended_ok at by auto
next
  case (LockGranted p recorded)
  let ?c = "c\<lparr>sc_lock := Some p, sc_granted := sc_granted c + 1, sc_preset := Some p\<rparr>"
  have lock: "sc_lock c = None" and reg: "sc_registered c" using session_okE(3) [OF ok] at by (simp_all add: point_ok_def)
  have c1: "core_ok cfg ?c" using granted [OF session_okE(2) [OF ok] lock] by simp
  have grows: "core_grows c ?c" by (simp add: core_grows_refl)
  show ?thesis
  proof (cases recorded)
    case (Some f)
    then show ?thesis using failing_event [OF ok pid _ c1 grows] at LockGranted by (simp add: admit_session_def)
  next
    case None
    obtain x c2 where m: "move_to cfg en (to_state cfg en (Some (sf_pid cfg)) AgentRunning ?c) ?c = (x, c2)" by fastforce
    have "\<not> sc_unpersisted ?c" using session_okE(5) [OF ok] at by simp
    from move_ok [OF c1 this m] have c2: "core_ok cfg c2" "core_grows ?c c2" "core_frame ?c c2" by simp_all
    have g2: "core_grows c c2" using c2(2) by simp
    show ?thesis
    proof (cases x)
      case (Inl f)
      then show ?thesis using failing_event [OF ok pid _ c2(1) g2] at LockGranted None m by (simp add: admit_session_def)
    next
      case (Inr u)
      have eq: "admit_session cfg en r c = c2\<lparr>sc_point := Executing\<rparr>" using LockGranted None m Inr by (simp add: admit_session_def)
      show ?thesis unfolding eq
        by (rule core_event [OF ok]) (use c2 g2 reg at session_okE(5) [OF ok] in \<open>auto simp: point_ok_def core_frame_def\<close>)
    qed
  qed
qed

lemma returned:
  assumes ok: "session_ok cfg (g, c)" and pid: "0 < sf_pid cfg" and at: "sc_point c = Executing"
  shows "session_ok cfg (g, engine_returns cfg en r c) \<and> core_grows c (engine_returns cfg en r c)"
proof -
  let ?c = "c\<lparr>sc_result := Some r\<rparr>"
  note c = session_okE(2) [OF ok]
  note fail = failing_event [OF ok pid]
  have still: "\<forall>i. sc_point c \<noteq> Parked i" using at by simp
  consider m where "engine_returns cfg en r c = fail_run cfg en m c"
    | "isTerminalStatus (ag_status (sc_state c))" "engine_returns cfg en r c = finish_run (True, ?c)"
    | f st c2 where "move_to cfg en (to_state cfg en (Some (sf_pid cfg)) st ?c) ?c = (Inl f, c2)"
        "engine_returns cfg en r c = fail_run cfg en (failure_text f) c2"
    | u st c2 where "move_to cfg en (to_state cfg en (Some (sf_pid cfg)) st ?c) ?c = (Inr u, c2)" "isTerminalStatus st"
        "engine_returns cfg en r c = finish_run (True, c2)"
  proof (cases "assertSafeToSend r")
    case (Inl m)
    then show ?thesis using that(1) by (simp add: engine_returns_def)
  next
    case (Inr u)
    define st where "st = (case classifyRepoAgentExecutionResult r of
        OutcomeCompleted out \<Rightarrow> AgentCompleted out | OutcomeFailed e out \<Rightarrow> AgentFailed e (Some out))"
    have "isTerminalStatus st" by (simp add: st_def isTerminalStatus_def split: run_outcome.split)
    moreover obtain x c2 where mv: "move_to cfg en (to_state cfg en (Some (sf_pid cfg)) st ?c) ?c = (x, c2)" by fastforce
    moreover have "engine_returns cfg en r c = (if isTerminalStatus (ag_status (sc_state c)) then finish_run (True, ?c)
        else case x of Inl f \<Rightarrow> fail_run cfg en (failure_text f) c2 | Inr _ \<Rightarrow> finish_run (True, c2))"
      using Inr mv by (simp add: engine_returns_def st_def)
    ultimately show ?thesis using that(2-4) by (cases x; cases "isTerminalStatus (ag_status (sc_state c))") auto
  qed
  then show ?thesis
  proof cases
    case (1 m)
    then show ?thesis using fail [OF still c core_grows_refl] by simp
  next
    case 2
    have f: "core_ok cfg (finish_run (True, ?c)) \<and> core_grows c (finish_run (True, ?c)) \<and> run_ended (finish_run (True, ?c))"
      using finished [of cfg ?c] c 2 by simp
    then show ?thesis using core_event [OF ok, of "finish_run (True, ?c)"] ended_ok still 2(2) by auto
  next
    case (3 f st c2)
    have "\<not> sc_unpersisted ?c" using session_okE(5) [OF ok] at by simp
    from move_ok [OF _ this 3(1)] c show ?thesis using fail [OF still, of c2] 3(2) by simp
  next
    case (4 u st c2)
    have "\<not> sc_unpersisted ?c" using session_okE(5) [OF ok] at by simp
    from move_ok [OF _ this 4(1)] c have c2: "core_ok cfg c2" "core_grows c c2" by simp_all
    have "isTerminalStatus (ag_status (sc_state c2))"
      using move_result [OF 4(1)] 4(2) by (simp add: to_state_def next_state_def)
    then have f: "core_ok cfg (finish_run (True, c2)) \<and> core_grows c (finish_run (True, c2)) \<and> run_ended (finish_run (True, c2))"
      using finished [OF c2(1)] core_grows_trans [OF c2(2)] by blast
    then show ?thesis using core_event [OF ok, of "finish_run (True, c2)"] ended_ok still 4(3) by auto
  qed
qed

lemma asked:
  assumes ok: "session_ok cfg (g, c)" and at: "sc_point c = Executing" and run: "engine_asks cfg en fan x (g, c) = (g', c')"
  shows "session_ok cfg (g', c') \<and> core_grows c c'"
proof (cases "isApprovalExemptReadOnlyTool (ai_toolName x)")
  case True
  then have eq: "g' = g" "c' = tell (ToldDecision GateApprove) c"
    using run by (auto simp: engine_asks_def gate_request_def session_hooks_def)
  show ?thesis unfolding eq
    by (rule core_event [OF ok]) (use session_okE(2,3,5) [OF ok] at in \<open>auto simp: tell_def point_ok_def core_grows_refl\<close>)
next
  case False
  obtain g1 c1 where p: "park (session_hooks cfg en fan) x (ae_now en) (g, c) = (g1, c1)" by fastforce
  then have eq: "g' = g1" "c' = c1\<lparr>sc_point := Parked (gt_next g)\<rparr>"
    using run False by (auto simp: engine_asks_def gate_request_def)
  have gok: "gate_ok g" by (rule session_okE(1) [OF ok])
  have moved: "core_ok cfg c1 \<and> core_moves cfg c c1" by (rule session_owner.park_owner [OF session_okE(2) [OF ok] p])
  have none: "gt_pending g i = None" for i using session_okE(6) [OF ok] at by simp
  have next1: "gt_next g1 = Suc (gt_next g)" "\<And>i. gt_pending g1 i \<noteq> None \<Longrightarrow> i = gt_next g"
    using park_outcomes [OF gok p] none by (auto simp: settle_request_def parked_gate_def split: if_splits)
  have lock: "sc_lock c1 = None \<or> (\<exists>f. (gt_next g, Rejected f) \<in> set (gt_settled g1))"
  proof (cases "gt_pending g1 (gt_next g)")
    case None
    then show ?thesis using park_outcomes [OF gok p] by (auto simp: settle_request_def parked_gate_def)
  next
    case (Some e)
    then obtain w where "gh_park (session_hooks cfg en fan) w = (Inr (), c1)" using parked_released [OF gok p] by auto
    then show ?thesis by (auto simp: session_hooks_def)
  qed
  have frame: "sc_registered c1 = sc_registered c" "sc_unpersisted c1 = sc_unpersisted c" "core_grows c c1"
    using moved by (simp_all add: core_moves_def core_frame_def)
  show ?thesis
    using moved frame lock next1 park_ok [OF gok p] session_okE(3,5) [OF ok] at
    unfolding eq session_ok_def by (auto simp: point_ok_def)
qed

lemma continued:
  assumes ok: "session_ok cfg (g, c)" and run: "engine_continues (g, c) = (g', c')"
  shows "session_ok cfg (g', c') \<and> core_grows c c'"
proof (cases "g' = g \<and> c' = c")
  case False
  have "\<exists>i s. sc_point c = Parked i \<and> map_of (gt_settled g) i = Some s \<and> g' = g"
  proof (cases "sc_point c")
    case (Parked i)
    then show ?thesis using False run
      by (cases "map_of (gt_settled g) i"; cases "the (map_of (gt_settled g) i)") (auto simp: engine_continues_def)
  qed (use False run in \<open>auto simp: engine_continues_def\<close>)
  then obtain i s where at: "sc_point c = Parked i" "map_of (gt_settled g) i = Some s" and g': "g' = g" by blast
  have settled: "(i, s) \<in> set (gt_settled g)" by (rule map_of_SomeD [OF at(2)])
  have gok: "gate_ok g" by (rule session_okE(1) [OF ok])
  then have none: "gt_pending g i = None" using settled by (force simp: gate_ok_def gate_core_def)
  have once: "(i, s') \<in> set (gt_settled g) \<Longrightarrow> s' = s" for s'
    using gok settled by (auto simp: gate_ok_def gate_core_def dest: eq_key_imp_eq_value)
  have point: "sc_registered c" "sc_lock c = None \<or> (\<exists>f. (i, Rejected f) \<in> set (gt_settled g))"
    using session_okE(3) [OF ok] at by (simp_all add: point_ok_def)
  have c': "c' = (case s of Resolved d \<Rightarrow> (case d of GateAbort _ \<Rightarrow> tell (ToldDecision d) c | _ \<Rightarrow> c\<lparr>sc_point := Resuming d\<rparr>)
      | Rejected _ \<Rightarrow> tell ToldError c)"
    using run at by (auto simp: engine_continues_def split: request_settlement.splits)
  show ?thesis unfolding g'
  proof (rule core_event [OF ok])
    show "core_ok cfg c'" "core_grows c c'"
      using session_okE(2) [OF ok] by (auto simp: c' tell_def core_grows_refl split: request_settlement.split gate_decision.split)
    show "point_ok g c'" using point once
      by (auto simp: c' tell_def point_ok_def split: request_settlement.split gate_decision.split)
    show "sc_point c' = sc_point c \<or> (\<forall>i. sc_point c \<noteq> Parked i) \<or> (\<exists>i. sc_point c = Parked i \<and> gt_pending g i = None)"
      using at none by blast
    show "sc_unpersisted c' \<Longrightarrow> sc_point c' = Finished"
      using session_okE(5) [OF ok] at by (auto simp: c' tell_def split: request_settlement.splits gate_decision.splits)
  qed
qed (use ok core_grows_refl in simp)

lemma resumed:
  assumes ok: "session_ok cfg (g, c)"
  shows "session_ok cfg (g, resume_run r c) \<and> core_grows c (resume_run r c)"
proof (cases "\<exists>d. sc_point c = Resuming d")
  case True
  then obtain d where at: "sc_point c = Resuming d" by blast
  have point: "sc_registered c" "sc_lock c = None" using session_okE(3) [OF ok] at by (simp_all add: point_ok_def)
  consider a where "resume_run r c = tell a c"
    | p where "resume_run r c = tell (ToldDecision d) (c\<lparr>sc_lock := Some p, sc_granted := sc_granted c + 1\<rparr>)"
  proof (cases r)
    case (LockGranted p recorded)
    show ?thesis
    proof (cases "Some p = sc_preset c")
      case True
      have "resume_run r c = tell (ToldDecision d) (c\<lparr>sc_lock := Some p, sc_granted := sc_granted c + 1\<rparr>)"
        using at LockGranted True by (simp add: resume_run_def)
      then show ?thesis by (rule that(2))
    qed (use at LockGranted that(1) in \<open>simp add: resume_run_def\<close>)
  qed (use at that in \<open>simp_all add: resume_run_def\<close>)
  then show ?thesis
  proof cases
    case (1 a)
    show ?thesis unfolding 1
      by (rule core_event [OF ok]) (use session_okE(2,5) [OF ok] point at in \<open>auto simp: tell_def point_ok_def core_grows_refl\<close>)
  next
    case (2 p)
    show ?thesis unfolding 2
      by (rule core_event [OF ok])
        (use granted [OF session_okE(2) [OF ok] point(2)] session_okE(5) [OF ok] point at in \<open>auto simp: tell_def point_ok_def core_grows_refl\<close>)
  qed
next
  case False
  then have "resume_run r c = c" by (auto simp: resume_run_def split: run_point.splits)
  then show ?thesis using ok core_grows_refl by simp
qed

lemma decided_session:
  assumes ok: "session_ok cfg (g, c)" and run: "submitDecision cfg en d (g, c) = (r, g', c')"
  shows "session_ok cfg (g', c') \<and> core_grows c c'"
proof (cases "\<exists>a. ag_status (sc_state c) = AgentApprovalRequired a")
  case True
  then obtain a where a: "ag_status (sc_state c) = AgentApprovalRequired a" by blast
  obtain x g1 c1 where s: "submit (session_hooks cfg en None) (ra_approvalId a) d (ae_now en) (g, c) = (x, g1, c1)"
    by (metis prod.collapse)
  have moved: "core_ok cfg c1 \<and> core_moves cfg c c1" by (rule session_owner.submit_owner [OF session_okE(2) [OF ok] s])
  have "g' = g1" "c' = c1 \<or> c' = renewOwnership c1"
    using run a s by (auto simp: submitDecision_def split: sum.splits bool.splits)
  moreover have "core_ok cfg (renewOwnership c1) \<and> core_moves cfg c (renewOwnership c1)"
    using renewed moved core_moves_trans by blast
  ultimately show ?thesis using session_moves [OF ok submit_moves [OF session_okE(1) [OF ok] s]] moved by blast
next
  case False
  then have "g' = g" "c' = c" using run by (auto simp: submitDecision_def split: agent_status.splits)
  then show ?thesis using ok core_grows_refl by simp
qed

lemma mode_moves: "gate_ok g \<Longrightarrow> gate_moves g (setMode m g)"
  unfolding gate_moves_def setMode_ok by (simp add: setMode_def)

lemma mode_switched:
  assumes ok: "session_ok cfg (g, c)" and run: "setApprovalMode cfg en m (g, c) = (r, g', c')"
  shows "session_ok cfg (g', c') \<and> core_grows c c'"
proof -
  have ok1: "session_ok cfg (setMode m g, c)"
    using session_moves [OF ok mode_moves [OF session_okE(1) [OF ok]]] session_okE(2) [OF ok] core_moves_refl by blast
  have "(g', c') = (setMode m g, c) \<or> (\<exists>x. submitDecision cfg en GateApprove (setMode m g, c) = (x, g', c'))"
    using run by (auto simp: setApprovalMode_def Let_def split: agent_status.splits if_splits prod.splits sum.splits)
  then show ?thesis using ok1 decided_session [OF ok1] core_grows_refl by auto
qed

lemma aborted_session:
  assumes ok: "session_ok cfg (g, c)" and run: "abort_session cfg en (g, c) = (g', c')"
  shows "session_ok cfg (g', c') \<and> core_grows c c'"
proof (cases "isTerminalStatus (ag_status (sc_state c))")
  case False
  have ok1: "session_ok cfg (g, c\<lparr>sc_aborted := True\<rparr>)"
    using core_event [OF ok, of "c\<lparr>sc_aborted := True\<rparr>"] session_okE(2,3,5) [OF ok] core_grows_refl
    by (auto simp: point_ok_def run_ended_def split: run_point.splits)
  have s: "signal_aborts (session_hooks cfg en None) ''Stopped by user.'' (ae_now en) (g, c\<lparr>sc_aborted := True\<rparr>) = (g', c')"
    using run False by (simp add: abort_session_def)
  show ?thesis
    using session_moves [OF ok1 abort_moves [OF session_okE(1) [OF ok] s] session_owner.abort_owner [OF session_okE(2) [OF ok1] s]] by simp
qed (use ok run core_grows_refl in \<open>auto simp: abort_session_def\<close>)

lemma waiters_event:
  assumes ok: "session_ok cfg (g, c)" and c': "\<exists>n ws as. c' = c\<lparr>sc_next_waiter := n, sc_waiters := ws, sc_answers := as\<rparr>"
    and "waiters_ok cfg c'" and "core_grows c c'"
  shows "session_ok cfg (g, c') \<and> core_grows c c'"
proof -
  have "core_ok cfg c'" using assms(2,3) session_okE(2) [OF ok] by (auto simp: core_ok_def mirrored_def)
  moreover have "point_ok g c'" using c' session_okE(3) [OF ok] by (auto simp: point_ok_def run_ended_def split: run_point.splits)
  moreover have "sc_unpersisted c \<Longrightarrow> sc_point c = Finished" using session_okE(5) [OF ok] by blast
  ultimately show ?thesis using core_event [OF ok, of c'] assms(4) c' by auto
qed

lemma waited:
  assumes ok: "session_ok cfg (g, c)"
  shows "session_ok cfg (g, waitForBoundary cfg since aborted c) \<and> core_grows c (waitForBoundary cfg since aborted c)"
proof -
  let ?i = "sc_next_waiter c"
  note w = core_okE(4) [OF session_okE(2) [OF ok], unfolded waiters_ok_def]
  have fresh: "?i \<notin> fst ` set (sc_waiters c)" "?i \<notin> fst ` set (sc_answers c)" using w by (metis UnI1 UnI2 less_irrefl)+
  have names: "i < Suc ?i \<longleftrightarrow> i = ?i \<or> i \<in> fst ` set (sc_waiters c) \<union> fst ` set (sc_answers c)" for i
    unfolding less_Suc_eq using w by blast
  have answered: "session_ok cfg (g, c\<lparr>sc_next_waiter := Suc ?i, sc_answers := sc_answers c @ [(?i, a)]\<rparr>) \<and>
      core_grows c (c\<lparr>sc_next_waiter := Suc ?i, sc_answers := sc_answers c @ [(?i, a)]\<rparr>)" if "answer_ok cfg (sc_state c) a" for a
  proof (rule waiters_event [OF ok])
    show "\<exists>n ws as. c\<lparr>sc_next_waiter := Suc ?i, sc_answers := sc_answers c @ [(?i, a)]\<rparr> =
        c\<lparr>sc_next_waiter := n, sc_waiters := ws, sc_answers := as\<rparr>"
      by (intro exI [of _ "Suc ?i"] exI [of _ "sc_waiters c"] exI [of _ "sc_answers c @ [(?i, a)]"]) simp
    show "waiters_ok cfg (c\<lparr>sc_next_waiter := Suc ?i, sc_answers := sc_answers c @ [(?i, a)]\<rparr>)"
      unfolding waiters_ok_def using w fresh that by (simp add: names)
    show "core_grows c (c\<lparr>sc_next_waiter := Suc ?i, sc_answers := sc_answers c @ [(?i, a)]\<rparr>)" by (auto simp: core_grows_def)
  qed
  have waiting: "session_ok cfg (g, c\<lparr>sc_next_waiter := Suc ?i, sc_waiters := sc_waiters c @ [(?i, since)]\<rparr>) \<and>
      core_grows c (c\<lparr>sc_next_waiter := Suc ?i, sc_waiters := sc_waiters c @ [(?i, since)]\<rparr>)"
    if "boundaryResultFor cfg (sc_state c) since = None"
  proof (rule waiters_event [OF ok])
    show "\<exists>n ws as. c\<lparr>sc_next_waiter := Suc ?i, sc_waiters := sc_waiters c @ [(?i, since)]\<rparr> =
        c\<lparr>sc_next_waiter := n, sc_waiters := ws, sc_answers := as\<rparr>"
      by (intro exI [of _ "Suc ?i"] exI [of _ "sc_waiters c @ [(?i, since)]"] exI [of _ "sc_answers c"]) simp
    show "waiters_ok cfg (c\<lparr>sc_next_waiter := Suc ?i, sc_waiters := sc_waiters c @ [(?i, since)]\<rparr>)"
      unfolding waiters_ok_def using w fresh that by (simp add: names)
    show "core_grows c (c\<lparr>sc_next_waiter := Suc ?i, sc_waiters := sc_waiters c @ [(?i, since)]\<rparr>)" by (auto simp: core_grows_def)
  qed
  show ?thesis
  proof (cases "boundaryResultFor cfg (sc_state c) since")
    case None
    have "answer_ok cfg (sc_state c) WaitAborted" by (simp add: answer_ok_def)
    then show ?thesis using answered [of WaitAborted] waiting [OF None] None by (cases aborted) (simp_all add: waitForBoundary_def Let_def)
  next
    case (Some r)
    then show ?thesis using answered [OF boundary_answer_ok [OF Some]] by (simp add: waitForBoundary_def Let_def)
  qed
qed

lemma wait_removed:
  assumes ok: "session_ok cfg (g, c)"
  shows "session_ok cfg (g, removeWaiter i c) \<and> core_grows c (removeWaiter i c)"
proof (cases "i \<in> fst ` set (sc_waiters c)")
  case True
  note w = core_okE(4) [OF session_okE(2) [OF ok], unfolded waiters_ok_def]
  have eq: "removeWaiter i c = c\<lparr>sc_next_waiter := sc_next_waiter c, sc_waiters := filter (\<lambda>w. fst w \<noteq> i) (sc_waiters c),
      sc_answers := sc_answers c @ [(i, WaitAborted)]\<rparr>" using True by (simp add: removeWaiter_def)
  have names: "fst ` set (filter (\<lambda>w. fst w \<noteq> i) (sc_waiters c)) = fst ` set (sc_waiters c) - {i}" by force
  have "waiters_ok cfg (removeWaiter i c)"
    using w True unfolding waiters_ok_def eq names
    by (auto simp: names answer_ok_def distinct_map_filter)
  moreover have "core_grows c (removeWaiter i c)" unfolding eq core_grows_def by auto
  ultimately show ?thesis using waiters_event [OF ok, of "removeWaiter i c"] eq by blast
qed (use ok core_grows_refl in \<open>simp add: removeWaiter_def\<close>)

section \<open>Every event\<close>

lemma session_event_ok:
  assumes ok: "session_ok cfg s" and pid: "0 < sf_pid cfg"
  shows "session_ok cfg (session_step cfg e s) \<and> core_grows (snd s) (snd (session_step cfg e s))"
proof -
  obtain g c where s: "s = (g, c)" by fastforce
  obtain en ev where e: "e = (en, ev)" by fastforce
  have ok: "session_ok cfg (g, c)" using ok s by simp
  note gok = session_okE(1) [OF ok] and cok = session_okE(2) [OF ok] and point = session_okE(3) [OF ok]
    and unp = session_okE(5) [OF ok]
  have stay: "session_ok cfg (g, c) \<and> core_grows c c" using ok core_grows_refl by simp
  obtain g' c' where run: "session_step cfg (en, ev) (g, c) = (g', c')" by fastforce
  have "session_ok cfg (g', c') \<and> core_grows c c'"
  proof (cases ev)
    case SStart
    show ?thesis
    proof (cases "sc_point c = NotStarted")
      case True
      then have eq: "g' = g" "c' = c\<lparr>sc_registered := True, sc_point := if sf_repository cfg then TakingRepository else TakingModel\<rparr>"
        using run SStart by (auto simp: start_run_def)
      show ?thesis unfolding eq
        by (rule core_event [OF ok]) (use cok point unp True core_grows_refl in \<open>auto simp: point_ok_def\<close>)
    qed (use run SStart stay in \<open>simp add: start_run_def\<close>)
  next
    case (SRepository r)
    show ?thesis
    proof (cases "sc_point c = TakingRepository")
      case at: True
      show ?thesis
      proof (cases r)
        case None
        then have eq: "g' = g" "c' = c\<lparr>sc_repo_lease := True, sc_point := TakingModel\<rparr>" using run SRepository at by auto
        show ?thesis unfolding eq
          by (rule core_event [OF ok]) (use cok point unp at core_grows_refl in \<open>auto simp: point_ok_def\<close>)
      next
        case (Some m)
        then show ?thesis using failing_event [OF ok pid _ cok core_grows_refl] run SRepository at by auto
      qed
    qed (use run SRepository stay in simp)
  next
    case (SModel r)
    then show ?thesis using admitted [OF ok pid] stay run by (cases "sc_point c = TakingModel") auto
  next
    case (SAsks x fan)
    then show ?thesis using asked [OF ok] stay run by (cases "sc_point c = Executing") auto
  next
    case SContinues
    then show ?thesis using continued [OF ok] run by simp
  next
    case (SResumes r)
    then show ?thesis using resumed [OF ok] run by auto
  next
    case (SReturns r)
    then show ?thesis using returned [OF ok pid] stay run by (cases "sc_point c = Executing") auto
  next
    case (SThrows m)
    then show ?thesis using failing_event [OF ok pid _ cok core_grows_refl] stay run by (cases "sc_point c = Executing") auto
  next
    case (STimer i)
    then have t: "timer_fires (session_hooks cfg en None) (ae_now en) i (g, c) = (g', c')" using run by simp
    show ?thesis by (rule session_moves [OF ok timer_moves [OF gok t] session_owner.timer_owner [OF cok t]])
  next
    case (SDecide i k reason)
    show ?thesis
    proof (cases "i = sf_runId cfg")
      case True
      then obtain d r where "submitDecision cfg en d (g, c) = (r, g', c')" using run SDecide by (cases k) (auto, (metis prod.collapse)+)
      then show ?thesis by (rule decided_session [OF ok])
    qed (use run SDecide stay in simp)
  next
    case (SSetMode m)
    then obtain r where "setApprovalMode cfg en m (g, c) = (r, g', c')" using run by (metis session_step.simps(11) prod.collapse)
    then show ?thesis by (rule mode_switched [OF ok])
  next
    case SAbort
    then show ?thesis using aborted_session [OF ok] run by simp
  next
    case (SOuterAbort reason)
    then have t: "signal_aborts (session_hooks cfg en None) reason (ae_now en) (g, c) = (g', c')" using run by simp
    show ?thesis by (rule session_moves [OF ok abort_moves [OF gok t] session_owner.abort_owner [OF cok t]])
  next
    case (SWait since aborted)
    then show ?thesis using waited [OF ok] run by auto
  next
    case (SWaitAborts i)
    then show ?thesis using wait_removed [OF ok] run by auto
  next
    case (SOther other call)
    let ?c = "c\<lparr>sc_store := agent_call_step (other, call) (sc_store c)\<rparr>"
    have "core_ok cfg ?c \<and> core_moves cfg c ?c"
      using store_grown [OF cok, of "agent_call_step (other, call) (sc_store c)"] call_step core_moves_def by blast
    then show ?thesis using session_moves [OF ok gate_moves_refl [OF gok]] run SOther by auto
  qed
  then show ?thesis using run s e by simp
qed

text \<open>A session at its start, over a store any calls have led to.\<close>

lemma new_session_ok:
  assumes "new_session cfg mode st = Inr s" and "agent_store_ok st"
  shows "session_ok cfg s"
proof -
  obtain state g where st: "readState (sf_runId cfg) st = Inr state" "new_gate (sf_timeout cfg) mode = Inr g"
    and s: "s = (g, \<lparr>sc_state = state, sc_store = st, sc_unpersisted = False,
          sc_lock = None, sc_granted = 0, sc_renewals = 0, sc_preset = None, sc_repo_lease = False, sc_registered = False,
          sc_aborted = False, sc_marked = None, sc_result = None, sc_frames = [], sc_next_waiter = 0, sc_waiters = [],
          sc_answers = [], sc_told = [], sc_point = NotStarted\<rparr>)"
    using assms(1) by (auto simp: new_session_def split: sum.splits)
  have "agent_record st (sf_runId cfg) = Some state" using st(1) by (simp add: agent_record_def)
  moreover have "gt_pending g i = None" for i using st(2) by (auto simp: new_gate_def split: if_splits)
  ultimately show ?thesis
    using new_gate_ok [OF st(2)] assms(2)
    by (auto simp: s session_ok_def core_ok_def point_ok_def waiters_ok_def mirrored_def agent_store_ok_def)
qed

definition session_from ::
  "session_config \<Rightarrow> approval_mode \<Rightarrow> (agent_env \<times> agent_call) list \<Rightarrow> (agent_env \<times> session_event) list \<Rightarrow> js_failure + agent_session" where
  "session_from cfg mode calls es =
     bind_result (new_session cfg mode (run_events agent_call_step calls (\<lambda>_. None))) (\<lambda>s. Inr (run_events (session_step cfg) es s))"

interpretation sessions: monotone_machine "session_step cfg" "\<lambda>s. 0 < sf_pid cfg \<and> session_ok cfg s"
  "\<lambda>a b. core_grows (snd a) (snd b)" for cfg
  by unfold_locales (use session_event_ok core_grows_refl core_grows_trans in blast)+

lemma session_run:
  assumes "0 < sf_pid cfg" and "session_ok cfg s"
  shows "session_ok cfg (run_events (session_step cfg) es s)" and "core_grows (snd s) (snd (run_events (session_step cfg) es s))"
  using sessions.inv_run [of cfg s es] sessions.rel_run [of cfg s es] assms by simp_all

lemma session_from_ok:
  assumes "0 < sf_pid cfg" and "session_from cfg mode calls es = Inr s"
  shows "session_ok cfg s"
proof -
  have "agent_store_ok (run_events agent_call_step calls (\<lambda>_. None))"
    by (rule agent_calls.inv_run) (simp add: agent_store_ok_def agent_record_dir)
  then show ?thesis using assms session_run new_session_ok by (auto simp: session_from_def)
qed

end
