(* ===== verification/Session_Properties.thy ===== *)
theory Session_Properties
  imports Session_Invariant
begin

text \<open>
  The properties of a repo-agent session, over every history of events from its start on a store that
  any calls led to, with other processes writing the store in between, and a run that shows them.
\<close>

section \<open>What a run holds\<close>

text \<open>C14. A run gives back what it holds. At every moment a session holds at most the one model lock it
  remembers, and none while a decision about it is pending; once it has settled its state is terminal and the
  lock, the repository, the registration of its gate and every pending approval are gone; it never
  rejects.\<close>

theorem session_gives_back:
  assumes "0 < sf_pid cfg" and "session_from cfg mode calls es = Inr (g, c)"
  shows "sc_granted c = (if sc_lock c = None then 0 else 1) \<and>
    (\<forall>i. if gt_pending g i \<noteq> None then sc_granted c = 0 else True) \<and>
    sc_point c \<noteq> Crashed \<and>
    (if sc_point c = Finished
     then isTerminalStatus (ag_status (sc_state c)) \<and> sc_granted c = 0 \<and> \<not> sc_repo_lease c \<and> \<not> sc_registered c \<and> (\<forall>i. gt_pending g i = None)
     else True)"
proof -
  have ok: "session_ok cfg (g, c)" by (rule session_from_ok [OF assms])
  note core = core_okE [OF session_okE(2) [OF ok]] and point = session_okE(3) [OF ok]
  have "sc_granted c = 0" if p: "gt_pending g i \<noteq> None" for i
  proof -
    have at: "sc_point c = Parked i" by (rule session_okE(4) [OF ok p])
    have "(i, Rejected f) \<notin> set (gt_settled g)" for f
      using session_okE(1) [OF ok] p by (force simp: gate_ok_def gate_core_def)
    then show ?thesis using point at core(5) by (auto simp: point_ok_def)
  qed
  moreover have "sc_point c \<noteq> Crashed" using point by (auto simp: point_ok_def)
  moreover have "isTerminalStatus (ag_status (sc_state c)) \<and> sc_granted c = 0 \<and> \<not> sc_repo_lease c \<and> \<not> sc_registered c \<and>
      (\<forall>i. gt_pending g i = None)" if f: "sc_point c = Finished"
    using point f core(5) session_okE(6) [OF ok] by (simp add: point_ok_def run_ended_def)
  ultimately show ?thesis using core(5) by simp
qed

section \<open>What a client is told\<close>

text \<open>C24. No boundary is missed and none is told twice. Every wait of a client is pending or answered,
  never both and never twice; a pending one has no boundary after its revision yet; and a client that was told
  that the run ended was told the one end the run has.\<close>

theorem boundaries_reach_clients:
  assumes "0 < sf_pid cfg" and "session_from cfg mode calls es = Inr (g, c)"
  shows "distinct (map fst (sc_waiters c) @ map fst (sc_answers c)) \<and>
    fst ` set (sc_waiters c) \<union> fst ` set (sc_answers c) = {..<sc_next_waiter c} \<and>
    list_all (\<lambda>(i, since). boundaryResultFor cfg (sc_state c) since = None) (sc_waiters c) \<and>
    list_all (\<lambda>(i, a). case a of WaitAborted \<Rightarrow> True
      | Boundary (ResultApprovalRequired _ _) \<Rightarrow> sf_delivery cfg = ToBoundary
      | Boundary r \<Rightarrow> isTerminalStatus (ag_status (sc_state c)) \<and> repoAgentStateToResult (sc_state c) = Some r) (sc_answers c)"
proof -
  have "waiters_ok cfg c" by (rule core_okE(4) [OF session_okE(2) [OF session_from_ok [OF assms]]])
  then show ?thesis unfolding waiters_ok_def answer_ok_def list_all_iff by auto
qed

section \<open>The state and its record\<close>

lemma from_append:
  assumes "session_from cfg mode calls es = Inr s"
  shows "session_from cfg mode calls (es @ later) = Inr (run_events (session_step cfg) later s)"
  using assms by (auto simp: session_from_def)

text \<open>The state a session shows is the recorded one, and an end is final. Whatever else writes the store,
  the session's state is the stored one or an earlier one, except after an end that could not be written,
  which is kept; over all later events a terminal state never changes and another one only moves to later revisions.\<close>

theorem session_mirrors_record:
  assumes "0 < sf_pid cfg" and "session_from cfg mode calls es = Inr (g, c)"
  shows "(if sc_unpersisted c then isTerminalStatus (ag_status (sc_state c)) \<and> sc_point c = Finished
     else \<exists>s. agent_record (sc_store c) (sf_runId cfg) = Some s \<and> (s = sc_state c \<or> ag_revision (sc_state c) < ag_revision s)) \<and>
    (let c' = snd (run_events (session_step cfg) later (g, c)) in
       if isTerminalStatus (ag_status (sc_state c)) then sc_state c' = sc_state c
       else sc_state c' = sc_state c \<or> ag_revision (sc_state c) < ag_revision (sc_state c'))"
proof -
  have ok: "session_ok cfg (g, c)" by (rule session_from_ok [OF assms])
  have "core_grows c (snd (run_events (session_step cfg) later (g, c)))"
    using session_run(2) [OF assms(1) ok, of later] by simp
  then show ?thesis
    using ok core_growsE(1,2) core_okE(7) [OF session_okE(2) [OF ok]]
    by (auto simp: session_ok_def core_ok_def Let_def mirrored_def)
qed

section \<open>A decision that comes too late\<close>

text \<open>C40. A decision after the end strands who waits on. Once a run is in a terminal state, say because its
  approval expired, a decision about it is refused; a client that then waits for the next boundary from the
  current revision, which is what the supervision of an orchestrator's child does, is never answered by anything
  the run does: after every later history it still waits or its own signal was aborted.\<close>

theorem late_decision_strands_client:
  assumes "0 < sf_pid cfg" and "session_from cfg mode calls es = Inr (g, c)" and "isTerminalStatus (ag_status (sc_state c))"
  shows "submitDecision cfg en d (g, c) = (Inr False, (g, c)) \<and>
    (let c' = snd (run_events (session_step cfg) ((en, SWait (ag_revision (sc_state c)) False) # later) (g, c));
         w = (sc_next_waiter c, ag_revision (sc_state c)) in
       w \<in> set (sc_waiters c') \<or> (fst w, WaitAborted) \<in> set (sc_answers c'))"
proof
  show "submitDecision cfg en d (g, c) = (Inr False, (g, c))"
    using assms(3) by (auto simp: submitDecision_def isTerminalStatus_def split: agent_status.splits)
  let ?w = "(sc_next_waiter c, ag_revision (sc_state c))"
  have ok: "session_ok cfg (g, c)" by (rule session_from_ok [OF assms(1,2)])
  have none: "boundaryResultFor cfg (sc_state c) (ag_revision (sc_state c)) = None" by (simp add: boundaryResultFor_def)
  define c1 where "c1 = waitForBoundary cfg (ag_revision (sc_state c)) False c"
  have waits: "?w \<in> set (sc_waiters c1)" "sc_state c1 = sc_state c" by (simp_all add: c1_def waitForBoundary_def none Let_def)
  have "session_ok cfg (g, c1)" using waited [OF ok] by (simp add: c1_def)
  then have g: "core_grows c1 (snd (run_events (session_step cfg) later (g, c1)))"
    using session_run(2) [OF assms(1), of "(g, c1)" later] by simp
  have "sc_state (snd (run_events (session_step cfg) later (g, c1))) = sc_state c1"
    using core_growsE(1) [OF g] waits(2) assms(3) by simp
  with core_growsE(4) [OF g waits(1)]
  have "?w \<in> set (sc_waiters (snd (run_events (session_step cfg) later (g, c1)))) \<or>
      (fst ?w, WaitAborted) \<in> set (sc_answers (snd (run_events (session_step cfg) later (g, c1))))" by auto
  then show "let c' = snd (run_events (session_step cfg) ((en, SWait (ag_revision (sc_state c)) False) # later) (g, c)); w = ?w in
      w \<in> set (sc_waiters c') \<or> (fst w, WaitAborted) \<in> set (sc_answers c')"
    by (simp add: c1_def Let_def)
qed

section \<open>A run\<close>

text \<open>A child of an orchestrator: its approval reaches the parent as a boundary, expires while the parent
  waits for the user, and the decision comes too late.\<close>

definition example_config :: session_config where
  "example_config = \<lparr>sf_runId = 1, sf_pid = 7, sf_delivery = ToBoundary, sf_timeout = 600000, sf_repository = False,
     sf_recorder = None, sf_error_text = (\<lambda>_. ''store'')\<rparr>"

definition example_at :: "nat \<Rightarrow> session_event \<Rightarrow> agent_env \<times> session_event" where
  "example_at now ev = ((example_agent_env True)\<lparr>ae_now := now\<rparr>, ev)"

definition example_session_events :: "(agent_env \<times> session_event) list" where
  "example_session_events = [example_at 1 SStart, example_at 2 (SModel (LockGranted 3 None)), example_at 3 (SWait 0 False),
     example_at 4 (SAsks (example_input ''write'') None), example_at 600004 (STimer 0)]"

definition example_session :: agent_session where
  "example_session = projr (session_from example_config ModeInteractive (take 1 example_agent_calls) example_session_events)"

lemmas example_session_simps = example_session_def session_from_def new_session_def new_gate_def example_config_def
  example_at_def example_session_events_def start_run_def admit_session_def move_to_def to_state_def store_apply_def session_env_def
  applyState_def flushWaiters_def boundaryResultFor_def waitForBoundary_def engine_asks_def gate_request_def
  isApprovalExemptReadOnlyTool_def APPROVAL_EXEMPT_READ_ONLY_TOOLS_def park_def record_evidence_def session_hooks_def
  handleProgressEvent_def session_publish_def renewOwnership_def release_lock_def timer_fires_def expireApproval_def
  session_clear_def clearPending_def settle_request_def publishApproval_def clearPendingApproval_def approval_parses_def
  repoAgentStateToResult_def readState_def example_input_def

lemma example_pid: "0 < sf_pid example_config"
  by (simp add: example_config_def)

lemma example_session_state:
  "\<exists>s. session_from example_config ModeInteractive (take 1 example_agent_calls) example_session_events = Inr s \<and>
     (\<exists>a. ag_status (sc_state (snd s)) = AgentApprovalTimeout a) \<and> ag_revision (sc_state (snd s)) = 3 \<and>
     (\<exists>a. sc_answers (snd s) = [(0, Boundary (ResultApprovalRequired 1 a))]) \<and> gt_settled (fst s) \<noteq> [] \<and> sc_lock (snd s) = None"
  by (simp add: example_session_simps example_agent_simps example_task Let_def)

lemma example_session_reached:
  obtains g c a where "example_session = (g, c)"
    "session_from example_config ModeInteractive (take 1 example_agent_calls) example_session_events = Inr (g, c)"
    "ag_status (sc_state c) = AgentApprovalTimeout a" "ag_revision (sc_state c) = 3" "sc_lock c = None"
    "map fst (sc_answers c) = [0]"
  using example_session_state by (fastforce simp: example_session_def)

theorem session_gives_back_witness:
  "sc_granted (snd example_session) = 0 \<and> sc_point (snd example_session) \<noteq> Crashed"
proof (rule example_session_reached)
  fix g c a
  assume e: "example_session = (g, c)" "sc_lock c = None"
    "session_from example_config ModeInteractive (take 1 example_agent_calls) example_session_events = Inr (g, c)"
  show ?thesis unfolding e(1) using session_gives_back [OF example_pid e(3)] e(2) by simp
qed

theorem boundaries_reach_clients_witness:
  "map fst (sc_answers (snd example_session)) = [0] \<and>
   fst ` set (sc_waiters (snd example_session)) \<union> {0} = {..<sc_next_waiter (snd example_session)}"
proof (rule example_session_reached)
  fix g c a
  assume e: "example_session = (g, c)" "map fst (sc_answers c) = [0]"
    "session_from example_config ModeInteractive (take 1 example_agent_calls) example_session_events = Inr (g, c)"
  from e(2) have "fst ` set (sc_answers c) = {0}" by (metis list.set(1) list.simps(15) set_map)
  with boundaries_reach_clients [OF example_pid e(3)] e(2) show ?thesis unfolding e(1) by simp
qed

theorem session_mirrors_record_witness:
  "ag_revision (sc_state (snd example_session)) = 3 \<and>
   (\<forall>later. sc_state (snd (run_events (session_step example_config) later example_session)) = sc_state (snd example_session))"
proof (rule example_session_reached)
  fix g c a
  assume e: "example_session = (g, c)" "ag_status (sc_state c) = AgentApprovalTimeout a" "ag_revision (sc_state c) = 3"
    "session_from example_config ModeInteractive (take 1 example_agent_calls) example_session_events = Inr (g, c)"
  show ?thesis unfolding e(1) using session_mirrors_record [OF example_pid e(4)] e(2,3) by (simp add: isTerminalStatus_def Let_def)
qed

theorem late_decision_strands_client_witness:
  "\<exists>i. \<forall>later. fst (submitDecision example_config (fst (example_at 900000 SAbort)) GateApprove example_session) = Inr False \<and>
    (let c' = snd (run_events (session_step example_config) (example_at 900000 (SWait 3 False) # later) example_session) in
       (i, 3) \<in> set (sc_waiters c') \<or> (i, WaitAborted) \<in> set (sc_answers c'))"
proof (rule example_session_reached)
  fix g c a
  assume e: "example_session = (g, c)" "ag_status (sc_state c) = AgentApprovalTimeout a" "ag_revision (sc_state c) = 3"
    "session_from example_config ModeInteractive (take 1 example_agent_calls) example_session_events = Inr (g, c)"
  have "isTerminalStatus (ag_status (sc_state c))" using e(2) by (simp add: isTerminalStatus_def)
  note late = late_decision_strands_client [OF example_pid e(4) this, of "fst (example_at 900000 SAbort)" GateApprove]
  have at: "(fst (example_at 900000 SAbort), ev) = example_at 900000 ev" for ev by (simp add: example_at_def)
  show ?thesis unfolding e(1)
    by (rule exI [of _ "sc_next_waiter c"]) (use late in \<open>simp add: e(3) at Let_def del: session_step.simps\<close>)
qed

end
