(* ===== verification/Runtime_Coordinator.thy ===== *)
theory Runtime_Coordinator
  imports Model_Queue
begin

text \<open>
  The preset runtime coordinator (src/status-server/preset-runtime-coordinator.ts): queued and
  running preset switches, residency actions, and the admission blocker that request admission waits
  on (theory Model_Queue sees it through canGrantModelRequest).

  A method that awaits the runtime is split where it awaits: a started switch is the record
  running_switch with the stage it waits in, a started residency action is an entry of
  co_actions, and the runtime's answers are events. The runtime (an abstract class) is seen through
  its two states, its engine configuration, the loading identity key of a profile and those answers.
  An exception that would escape a finally block is the flag co_broken.
\<close>

section \<open>State\<close>

datatype switch_kind = Administrative | Requested | Restart

datatype model_state = ModelUnloaded | ModelBusy | ModelReady | ModelFailed
datatype process_state = ProcStopped | ProcStarting | ProcReady | ProcFailed

datatype error_phase = PhaseProcessStart | PhasePresetSwitch | PhaseModelLoad | PhaseModelUnload

datatype rollback_note =
    RestoredPreset string bool
  | KeptNewerSelection string bool
  | RollbackFailed string

datatype switch_stage =
    AwaitUnload
  | AwaitStop
  | AwaitReady
  | AwaitCleanupUnload
  | AwaitCleanupStop
  | AwaitRollbackReady

record running_switch =
  sw_target :: model_preset
  sw_kind :: switch_kind
  sw_expected :: sift_config
  sw_previous :: model_preset
  sw_previousEngine :: "string option"
  sw_stage :: switch_stage
  sw_cleanupFailed :: bool
  sw_restored :: bool

text \<open>What runs after the runtime's answer to a residency action.\<close>

datatype residency_action =
    UnloadAction
  | LoadAction
  | RestoreAction
  | RestoreForRequest model_preset sift_config

record coordinator_state =
  co_config :: sift_config
  co_applied :: model_preset
  co_engine :: string
  co_proc :: process_state
  co_model :: model_state
  co_active :: nat
  co_pending :: "(model_preset \<times> switch_kind) option"
  co_running :: "running_switch option"
  co_residencyFlag :: bool
  co_actions :: "residency_action list"
  co_blockers :: nat
  co_blockerOpen :: bool
  co_broken :: bool
  co_error :: "(error_phase \<times> string) option"
  co_rollback :: "rollback_note option"

datatype coordinator_error =
    ResidencyBusy
  | SwitchInProgress
  | RequestInProgress
  | ExternalServerRestart string
  | PresetMissing string
  | IdentityFailure residency_failure

datatype coordinator_outcome =
    ReadyNow
  | Queued
  | Started
  | Waiting
  | Noop
  | Skipped
  | BusySwitch
  | BusyRequests nat
  | BusyResidency
  | Failed coordinator_error

section \<open>Reading\<close>

definition findPreset :: "sift_config \<Rightarrow> string \<Rightarrow> coordinator_error + model_preset" where
  "findPreset c i = (case find_preset i (cfg_ModelPresets c) of None \<Rightarrow> Inl (PresetMissing i) | Some p \<Rightarrow> Inr p)"

definition getConfiguredPreset :: "coordinator_state \<Rightarrow> coordinator_error + model_preset" where
  "getConfiguredPreset s = findPreset (co_config s) (cfg_ActivePresetId (co_config s))"

definition hasActiveModelRequests :: "coordinator_state \<Rightarrow> bool" where
  "hasActiveModelRequests s = (co_active s > 0)"

definition canGrantModelRequest :: "coordinator_state \<Rightarrow> bool" where
  "canGrantModelRequest s = (co_pending s = None \<and> co_running s = None \<and> \<not> co_residencyFlag s)"

definition hasReadyResidency ::
  "(model_preset \<Rightarrow> residency_failure + string) \<Rightarrow> coordinator_state \<Rightarrow> model_preset \<Rightarrow> residency_failure + bool" where
  "hasReadyResidency key s target =
     (if co_model s \<noteq> ModelReady then Inr False
      else bind_result (key target) (\<lambda>a. bind_result (key (co_applied s)) (\<lambda>b. Inr (a = b))))"

section \<open>The admission blocker\<close>

definition beginAdmissionBlocker :: "coordinator_state \<Rightarrow> coordinator_state" where
  "beginAdmissionBlocker s =
     (let s1 = (if co_blockers s = 0 then s\<lparr>co_blockerOpen := True\<rparr> else s)
      in s1\<lparr>co_blockers := Suc (co_blockers s1)\<rparr>)"

definition endAdmissionBlocker :: "coordinator_state \<Rightarrow> coordinator_state" where
  "endAdmissionBlocker s =
     (if co_blockers s = 0 then s\<lparr>co_broken := True\<rparr>
      else let s1 = s\<lparr>co_blockers := co_blockers s - 1\<rparr> in
        if co_blockers s1 > 0 then s1
        else if \<not> co_blockerOpen s1 then s1\<lparr>co_broken := True\<rparr>
        else s1\<lparr>co_blockerOpen := False\<rparr>)"

text \<open>Waiting for the current blocker ends at once when a request may be granted, and otherwise
  with the blocker's promise.\<close>

definition blocker_wait_over :: "coordinator_state \<Rightarrow> bool" where
  "blocker_wait_over s = (canGrantModelRequest s \<or> \<not> co_blockerOpen s)"

definition beginResidencyAction :: "residency_action \<Rightarrow> coordinator_state \<Rightarrow> coordinator_state" where
  "beginResidencyAction a s = beginAdmissionBlocker (s\<lparr>co_residencyFlag := True, co_actions := co_actions s @ [a]\<rparr>)"

definition endResidencyAction :: "coordinator_state \<Rightarrow> coordinator_state" where
  "endResidencyAction s = endAdmissionBlocker (s\<lparr>co_residencyFlag := False\<rparr>)"

definition fail_with :: "error_phase \<Rightarrow> string \<Rightarrow> coordinator_state \<Rightarrow> coordinator_state" where
  "fail_with ph e s = s\<lparr>co_error := Some (ph, e)\<rparr>"

definition publishReadyPreset :: "model_preset \<Rightarrow> coordinator_state \<Rightarrow> coordinator_state" where
  "publishReadyPreset p s = s\<lparr>co_applied := p, co_error := None\<rparr>"

definition setPendingSwitch :: "model_preset \<Rightarrow> switch_kind \<Rightarrow> coordinator_state \<Rightarrow> coordinator_state" where
  "setPendingSwitch p k s =
     (if co_pending s = None then beginAdmissionBlocker s else s)
       \<lparr>co_pending := Some (p, k), co_error := None, co_rollback := None\<rparr>"

section \<open>A switch\<close>

text \<open>The finally block of startPendingSwitch.\<close>

definition close_switch :: "coordinator_state \<Rightarrow> coordinator_state" where
  "close_switch s = endAdmissionBlocker (s\<lparr>co_running := None, co_pending := None\<rparr>)"

definition startPendingSwitch ::
  "(model_preset \<Rightarrow> residency_failure + string) \<Rightarrow> coordinator_state \<Rightarrow> coordinator_outcome \<times> coordinator_state" where
  "startPendingSwitch key s =
     (if co_running s \<noteq> None then (Started, s)
      else (case co_pending s of
        None \<Rightarrow> (ReadyNow, s)
      | Some (target, kind) \<Rightarrow>
         (case findPreset (co_config s) (mp_id target) of
            Inl e \<Rightarrow> (Failed e, close_switch s)
          | Inr _ \<Rightarrow>
             (case (if kind = Restart then Inr False else hasReadyResidency key s target) of
                Inl e \<Rightarrow> (Failed (IdentityFailure e), close_switch s)
              | Inr reuse \<Rightarrow>
                  (Started, s\<lparr>co_running := Some
                     \<lparr>sw_target = target, sw_kind = kind, sw_expected = co_config s,
                      sw_previous = co_applied s, sw_previousEngine = None,
                      sw_stage = (if reuse then AwaitReady else AwaitUnload),
                      sw_cleanupFailed = False, sw_restored = False\<rparr>\<rparr>)))))"

definition to_stage :: "running_switch \<Rightarrow> switch_stage \<Rightarrow> coordinator_state \<Rightarrow> coordinator_state" where
  "to_stage r st s = s\<lparr>co_running := Some (r\<lparr>sw_stage := st\<rparr>)\<rparr>"

text \<open>The rollback after the cleanup: the engine configuration and the saved selection are put back,
  and the previous profile is made ready again.\<close>

definition switch_restore :: "running_switch \<Rightarrow> coordinator_state \<Rightarrow> coordinator_state" where
  "switch_restore r s =
     (let s1 = (case sw_previousEngine r of None \<Rightarrow> s | Some e \<Rightarrow> s\<lparr>co_engine := e\<rparr>);
          (restored, cfg) = restorePreviousModelSelection (sw_expected r) (sw_previous r) (Some (co_config s1))
      in to_stage (r\<lparr>sw_restored := restored\<rparr>) AwaitRollbackReady
           (s1\<lparr>co_config := (case cfg of None \<Rightarrow> co_config s1 | Some c \<Rightarrow> c)\<rparr>))"

definition switch_after_cleanup :: "running_switch \<Rightarrow> coordinator_state \<Rightarrow> coordinator_state" where
  "switch_after_cleanup r s =
     (if sw_kind r = Restart \<and> co_proc s \<noteq> ProcStopped then to_stage r AwaitCleanupStop s
      else switch_restore r s)"

definition switch_failed :: "string \<Rightarrow> running_switch \<Rightarrow> coordinator_state \<Rightarrow> coordinator_state" where
  "switch_failed e r s =
     (let s1 = fail_with PhasePresetSwitch e s in
      if co_proc s1 = ProcReady then to_stage r AwaitCleanupUnload s1 else switch_after_cleanup r s1)"

definition switch_rolled_back :: "rollback_note \<Rightarrow> coordinator_state \<Rightarrow> coordinator_state" where
  "switch_rolled_back note s = close_switch (s\<lparr>co_rollback := Some note\<rparr>)"

text \<open>The runtime's answer to the call executeSwitch waits for: None, or the error it threw.\<close>

definition switch_answer :: "string option \<Rightarrow> coordinator_state \<Rightarrow> coordinator_state" where
  "switch_answer answer s =
     (case co_running s of
        None \<Rightarrow> s
      | Some r \<Rightarrow>
         (case (sw_stage r, answer) of
            (AwaitUnload, None) \<Rightarrow> to_stage r (if sw_kind r = Restart then AwaitStop else AwaitReady) s
          | (AwaitUnload, Some e) \<Rightarrow> switch_failed e r s
          | (AwaitStop, None) \<Rightarrow>
              to_stage (r\<lparr>sw_previousEngine := Some (co_engine s)\<rparr>) AwaitReady
                (s\<lparr>co_engine := cfg_engine (sw_expected r)\<rparr>)
          | (AwaitStop, Some e) \<Rightarrow> switch_failed e r s
          | (AwaitReady, None) \<Rightarrow>
              let s1 = publishReadyPreset (sw_target r) s;
                  s2 = (if sw_kind r = Requested
                        then s1\<lparr>co_config := (case snd (persistAppliedModelSelection (sw_expected r)
                               (sw_target r) (Some (co_config s1))) of None \<Rightarrow> co_config s1 | Some c \<Rightarrow> c)\<rparr>
                        else s1)
              in close_switch s2
          | (AwaitReady, Some e) \<Rightarrow> switch_failed e r s
          | (AwaitCleanupUnload, None) \<Rightarrow> switch_after_cleanup r s
          | (AwaitCleanupUnload, Some _) \<Rightarrow> switch_after_cleanup (r\<lparr>sw_cleanupFailed := True\<rparr>) s
          | (AwaitCleanupStop, None) \<Rightarrow> switch_restore r s
          | (AwaitCleanupStop, Some e) \<Rightarrow> switch_rolled_back (RollbackFailed e) s
          | (AwaitRollbackReady, None) \<Rightarrow>
              switch_rolled_back
                ((if sw_restored r then RestoredPreset else KeptNewerSelection)
                   (mp_id (sw_previous r)) (sw_cleanupFailed r))
                (s\<lparr>co_applied := sw_previous r\<rparr>)
          | (AwaitRollbackReady, Some e) \<Rightarrow> switch_rolled_back (RollbackFailed e) s))"

section \<open>The coordinator's methods\<close>

definition applyPreset ::
  "(model_preset \<Rightarrow> residency_failure + string) \<Rightarrow> string \<Rightarrow> coordinator_state \<Rightarrow> coordinator_outcome \<times> coordinator_state" where
  "applyPreset key presetId s =
     (if co_residencyFlag s then (Failed ResidencyBusy, s)
      else (case findPreset (co_config s) presetId of
        Inl e \<Rightarrow> (Failed e, s)
      | Inr target \<Rightarrow>
          if isApplied (co_applied s) target \<and> co_pending s = None \<and> co_model s = ModelReady
          then (ReadyNow, publishReadyPreset target s)
          else if co_running s \<noteq> None then (Failed SwitchInProgress, s)
          else let s1 = setPendingSwitch target Administrative s in
            if hasActiveModelRequests s1
            then (case hasReadyResidency key s1 target of
                    Inl e \<Rightarrow> (Failed (IdentityFailure e), s1)
                  | Inr False \<Rightarrow> (Queued, s1)
                  | Inr True \<Rightarrow> startPendingSwitch key s1)
            else startPendingSwitch key s1))"

definition persist_selection :: "sift_config \<Rightarrow> model_preset \<Rightarrow> coordinator_state \<Rightarrow> coordinator_state" where
  "persist_selection expected p s =
     s\<lparr>co_config := (case snd (persistAppliedModelSelection expected p (Some (co_config s))) of
        None \<Rightarrow> co_config s | Some c \<Rightarrow> c)\<rparr>"

definition ensureRequestPresetReady ::
  "(model_preset \<Rightarrow> residency_failure + string) \<Rightarrow> model_preset \<Rightarrow> coordinator_state \<Rightarrow> coordinator_outcome \<times> coordinator_state" where
  "ensureRequestPresetReady key target s =
     (if \<not> canGrantModelRequest s then (Waiting, s)
      else (case findPreset (co_config s) (mp_id target) of
        Inl e \<Rightarrow> (Failed e, s)
      | Inr _ \<Rightarrow>
          if isApplied (co_applied s) target
          then if co_model s \<noteq> ModelReady
               then (Started, beginResidencyAction (RestoreForRequest target (co_config s)) s)
               else (ReadyNow, persist_selection (co_config s) target (publishReadyPreset target s))
          else (case (if hasActiveModelRequests s then hasReadyResidency key s target else Inr True) of
                  Inl e \<Rightarrow> (Failed (IdentityFailure e), s)
                | Inr False \<Rightarrow> (Failed RequestInProgress, s)
                | Inr True \<Rightarrow> startPendingSwitch key (setPendingSwitch target Requested s))))"

definition restartConfiguredPreset ::
  "(model_preset \<Rightarrow> residency_failure + string) \<Rightarrow> coordinator_state \<Rightarrow> coordinator_outcome \<times> coordinator_state" where
  "restartConfiguredPreset key s =
     (if co_residencyFlag s then (Failed ResidencyBusy, s)
      else if co_running s \<noteq> None then (Failed SwitchInProgress, s)
      else if hasActiveModelRequests s then (Failed RequestInProgress, s)
      else (case getConfiguredPreset s of
        Inl e \<Rightarrow> (Failed e, s)
      | Inr configured \<Rightarrow>
          if mp_ExternalServerEnabled configured
          then (Failed (ExternalServerRestart (mp_id configured)), s)
          else startPendingSwitch key (setPendingSwitch configured Restart s)))"

definition ensure_model_ready :: "coordinator_state \<Rightarrow> coordinator_outcome \<times> coordinator_state" where
  "ensure_model_ready s =
     (if co_model s = ModelReady then (ReadyNow, s\<lparr>co_error := None\<rparr>)
      else (Started, beginResidencyAction RestoreAction s))"

text \<open>One round of the loop; a caller that waits for a switch comes back with another round.\<close>

definition ensureActivePresetReady ::
  "(model_preset \<Rightarrow> residency_failure + string) \<Rightarrow> coordinator_state \<Rightarrow> coordinator_outcome \<times> coordinator_state" where
  "ensureActivePresetReady key s =
     (if co_running s \<noteq> None then (Waiting, s)
      else (case getConfiguredPreset s of
        Inl e \<Rightarrow> (Failed e, s)
      | Inr configured \<Rightarrow>
          if isApplied (co_applied s) configured then ensure_model_ready s
          else (case applyPreset key (mp_id configured) s of
                  (Queued, s1) \<Rightarrow> ensure_model_ready s1
                | r \<Rightarrow> r)))"

definition applyIdleResidencyAction :: "string \<Rightarrow> coordinator_state \<Rightarrow> coordinator_outcome \<times> coordinator_state" where
  "applyIdleResidencyAction presetId s =
     (if presetId \<noteq> mp_id (co_applied s) \<or> hasActiveModelRequests s \<or> co_pending s \<noteq> None then (Skipped, s)
      else if co_residencyFlag s then (Skipped, s)
      else if co_model s \<noteq> ModelReady then (Skipped, s)
      else (Started, beginResidencyAction UnloadAction s))"

definition refuseIfBusy :: "coordinator_state \<Rightarrow> coordinator_outcome option" where
  "refuseIfBusy s =
     (if co_running s \<noteq> None \<or> co_pending s \<noteq> None then Some BusySwitch
      else if hasActiveModelRequests s then Some (BusyRequests (co_active s))
      else if co_residencyFlag s then Some BusyResidency
      else None)"

definition unloadActivePresetNow :: "coordinator_state \<Rightarrow> coordinator_outcome \<times> coordinator_state" where
  "unloadActivePresetNow s =
     (case refuseIfBusy s of
        Some b \<Rightarrow> (b, s)
      | None \<Rightarrow> if co_model s = ModelUnloaded then (Noop, s)
                else (Started, beginResidencyAction UnloadAction s))"

definition loadActivePresetNow :: "coordinator_state \<Rightarrow> coordinator_outcome \<times> coordinator_state" where
  "loadActivePresetNow s =
     (case refuseIfBusy s of
        Some b \<Rightarrow> (b, s)
      | None \<Rightarrow> if co_model s = ModelReady then (Noop, s)
                else (Started, beginResidencyAction LoadAction s))"

definition onModelRequestReleased ::
  "(model_preset \<Rightarrow> residency_failure + string) \<Rightarrow> coordinator_state \<Rightarrow> coordinator_outcome \<times> coordinator_state" where
  "onModelRequestReleased key s =
     (if \<not> hasActiveModelRequests s \<and> co_pending s \<noteq> None then startPendingSwitch key s else (ReadyNow, s))"

text \<open>The runtime's answer to the n-th residency action in flight.\<close>

definition action_answer :: "nat \<Rightarrow> string option \<Rightarrow> coordinator_state \<Rightarrow> coordinator_state" where
  "action_answer n answer s =
     (if n \<ge> length (co_actions s) then s
      else let a = co_actions s ! n;
               s0 = s\<lparr>co_actions := take n (co_actions s) @ drop (Suc n) (co_actions s)\<rparr>
           in (case answer of
                 Some e \<Rightarrow> endResidencyAction
                   (fail_with (if a = UnloadAction then PhaseModelUnload else PhaseModelLoad) e s0)
               | None \<Rightarrow>
                  (case a of
                     UnloadAction \<Rightarrow> endResidencyAction s0
                   | LoadAction \<Rightarrow> endResidencyAction (s0\<lparr>co_error := None\<rparr>)
                   | RestoreAction \<Rightarrow> endResidencyAction (s0\<lparr>co_error := None\<rparr>)
                   | RestoreForRequest target c \<Rightarrow> persist_selection c target (publishReadyPreset target
                       (endResidencyAction (s0\<lparr>co_error := None\<rparr>))))))"

datatype coordinator_event =
    ApplyPreset string
  | EnsureRequest model_preset
  | RestartConfigured
  | EnsureActive
  | IdleAction string
  | UnloadNow
  | LoadNow
  | RequestReleased
  | SwitchAnswer "string option"
  | ActionAnswer nat "string option"
  | RuntimeState process_state model_state
  | ActiveRequests nat
  | ConfigStored sift_config

fun coordinator_step ::
  "(model_preset \<Rightarrow> residency_failure + string) \<Rightarrow> coordinator_event \<Rightarrow> coordinator_state \<Rightarrow> coordinator_state" where
  "coordinator_step key (ApplyPreset i) s = snd (applyPreset key i s)"
| "coordinator_step key (EnsureRequest p) s = snd (ensureRequestPresetReady key p s)"
| "coordinator_step key RestartConfigured s = snd (restartConfiguredPreset key s)"
| "coordinator_step key EnsureActive s = snd (ensureActivePresetReady key s)"
| "coordinator_step key (IdleAction i) s = snd (applyIdleResidencyAction i s)"
| "coordinator_step key UnloadNow s = snd (unloadActivePresetNow s)"
| "coordinator_step key LoadNow s = snd (loadActivePresetNow s)"
| "coordinator_step key RequestReleased s = snd (onModelRequestReleased key s)"
| "coordinator_step key (SwitchAnswer a) s = switch_answer a s"
| "coordinator_step key (ActionAnswer n a) s = action_answer n a s"
| "coordinator_step key (RuntimeState pr mo) s = s\<lparr>co_proc := pr, co_model := mo\<rparr>"
| "coordinator_step key (ActiveRequests n) s = s\<lparr>co_active := n\<rparr>"
| "coordinator_step key (ConfigStored c) s = s\<lparr>co_config := c\<rparr>"

definition initial_coordinator :: "sift_config \<Rightarrow> model_preset \<Rightarrow> coordinator_state" where
  "initial_coordinator c p =
     \<lparr>co_config = c, co_applied = p, co_engine = cfg_engine c, co_proc = ProcStopped, co_model = ModelUnloaded,
      co_active = 0, co_pending = None, co_running = None, co_residencyFlag = False, co_actions = [],
      co_blockers = 0, co_blockerOpen = False, co_broken = False, co_error = None, co_rollback = None\<rparr>"

section \<open>The blocker invariant\<close>

definition blocker_count :: "(model_preset \<times> switch_kind) option \<Rightarrow> residency_action list \<Rightarrow> nat" where
  "blocker_count pending actions = (if pending = None then 0 else 1) + length actions"

definition co_ok :: "coordinator_state \<Rightarrow> bool" where
  "co_ok s \<longleftrightarrow> \<not> co_broken s \<and> co_blockers s = blocker_count (co_pending s) (co_actions s) \<and>
     (co_blockerOpen s \<longleftrightarrow> co_blockers s > 0) \<and>
     (\<forall>r. co_running s = Some r \<longrightarrow> co_pending s = Some (sw_target r, sw_kind r)) \<and>
     (co_residencyFlag s \<longrightarrow> co_actions s \<noteq> [])"

named_theorems coordinator_defs

lemmas [coordinator_defs] = co_ok_def blocker_count_def beginAdmissionBlocker_def endAdmissionBlocker_def
  beginResidencyAction_def endResidencyAction_def fail_with_def publishReadyPreset_def setPendingSwitch_def
  close_switch_def to_stage_def persist_selection_def

lemma close_switch_ok: "co_ok s \<Longrightarrow> co_pending s \<noteq> None \<Longrightarrow> co_ok (close_switch s)"
  by (auto simp: coordinator_defs Let_def)

lemma begin_action_ok: "co_ok s \<Longrightarrow> co_ok (beginResidencyAction a s)"
  by (auto simp: coordinator_defs Let_def split: option.splits)

lemma set_pending_ok:
  "co_ok s \<Longrightarrow> co_running s = None \<Longrightarrow> co_ok (setPendingSwitch p k s)"
  "co_running (setPendingSwitch p k s) = co_running s" "co_pending (setPendingSwitch p k s) = Some (p, k)"
  by (auto simp: coordinator_defs Let_def)

lemma start_ok: "co_ok s \<Longrightarrow> co_ok (snd (startPendingSwitch key s))"
  using close_switch_ok [of s]
  by (auto simp: startPendingSwitch_def split: option.split sum.split)
    (auto simp: co_ok_def)

lemma to_stage_ok:
  assumes ok: "co_ok s" and run: "co_running s = Some r" and r': "sw_target r' = sw_target r" "sw_kind r' = sw_kind r"
    and s': "co_pending s' = co_pending s" "co_actions s' = co_actions s" "co_blockers s' = co_blockers s"
      "co_blockerOpen s' = co_blockerOpen s" "co_broken s' = co_broken s" "co_residencyFlag s' = co_residencyFlag s"
  shows "co_ok (to_stage r' st s')"
  using assms by (simp add: co_ok_def to_stage_def)

lemma restore_ok:
  "co_ok s \<Longrightarrow> co_running s = Some r \<Longrightarrow> sw_target r' = sw_target r \<Longrightarrow> sw_kind r' = sw_kind r \<Longrightarrow>
   co_ok (switch_restore r' s)"
  unfolding switch_restore_def Let_def case_prod_beta
  by (rule to_stage_ok [where s = s and r = r]) (simp_all split: option.split)

lemma after_cleanup_ok:
  "co_ok s \<Longrightarrow> co_running s = Some r \<Longrightarrow> sw_target r' = sw_target r \<Longrightarrow> sw_kind r' = sw_kind r \<Longrightarrow>
   co_ok (switch_after_cleanup r' s)"
  by (auto simp: switch_after_cleanup_def intro: restore_ok to_stage_ok)

lemma switch_failed_ok: "co_ok s \<Longrightarrow> co_running s = Some r \<Longrightarrow> co_ok (switch_failed e r s)"
proof -
  assume ok: "co_ok s" and r: "co_running s = Some r"
  have f: "co_ok (fail_with PhasePresetSwitch e s)" "co_running (fail_with PhasePresetSwitch e s) = Some r"
    using ok r by (simp_all add: co_ok_def fail_with_def)
  show ?thesis
    using to_stage_ok [OF f refl refl] after_cleanup_ok [OF f refl refl]
    by (simp add: switch_failed_def Let_def)
qed

lemma rolled_back_ok: "co_ok s \<Longrightarrow> co_pending s \<noteq> None \<Longrightarrow> co_ok (switch_rolled_back n s)"
  unfolding switch_rolled_back_def by (rule close_switch_ok) (simp_all add: co_ok_def)

lemma switch_answer_ok:
  assumes ok: "co_ok s"
  shows "co_ok (switch_answer a s)"
proof (cases "co_running s")
  case (Some r)
  have p: "co_pending s \<noteq> None" using ok Some by (auto simp: co_ok_def)
  have cl: "co_ok (close_switch s')" if "co_ok s'" "co_pending s' = co_pending s" for s'
    using close_switch_ok [OF that(1)] that(2) p by simp
  have same: "co_ok s'" if "co_broken s' = co_broken s" "co_blockers s' = co_blockers s" "co_pending s' = co_pending s"
     "co_actions s' = co_actions s" "co_blockerOpen s' = co_blockerOpen s" "co_running s' = co_running s"
     "co_residencyFlag s' = co_residencyFlag s" for s'
    using ok that by (simp add: co_ok_def)
  have ap: "co_ok (s\<lparr>co_applied := p\<rparr>)" "co_ok (s\<lparr>co_applied := p, co_error := x\<rparr>)" for p x
    by (rule same; simp)+
  have cf: "co_ok (s\<lparr>co_applied := p, co_error := x, co_config := c\<rparr>)" for p x c
    by (rule same) simp_all
  note st = to_stage_ok [OF ok Some]
  have rb: "co_ok (switch_rolled_back n s')" if "co_ok s'" "co_pending s' = co_pending s" for n s'
    using rolled_back_ok [OF that(1)] that(2) p by simp
  have fld: "co_ok (switch_failed e r s)" for e by (rule switch_failed_ok [OF ok Some])
  have ac: "co_ok (switch_after_cleanup r' s)" if "sw_target r' = sw_target r" "sw_kind r' = sw_kind r" for r'
    by (rule after_cleanup_ok [OF ok Some that])
  have rs: "co_ok (switch_restore r s)" by (rule restore_ok [OF ok Some]) simp_all
  show ?thesis
    unfolding switch_answer_def Some option.case
    by (cases "sw_stage r"; cases a) (simp_all add: Let_def publishReadyPreset_def fld rs st ac cl rb rb [OF ok refl] ap cf)
qed (simp add: switch_answer_def ok)

lemma action_answer_ok:
  assumes ok: "co_ok s"
  shows "co_ok (action_answer n a s)"
proof (cases "n < length (co_actions s)")
  case True
  define as where "as = take n (co_actions s) @ drop (Suc n) (co_actions s)"
  have len: "length (co_actions s) = Suc (length as)" using True by (simp add: as_def)
  have e: "co_ok (endResidencyAction s')"
    if "co_actions s' = as" "co_blockers s' = co_blockers s" "co_pending s' = co_pending s"
      "co_running s' = co_running s" "co_blockerOpen s' = co_blockerOpen s" "co_broken s' = co_broken s" for s'
  proof -
    have c: "co_blockers s = Suc (blocker_count (co_pending s) as)" "co_blockerOpen s"
      "\<not> co_broken s" "\<forall>r. co_running s = Some r \<longrightarrow> co_pending s = Some (sw_target r, sw_kind r)"
      using ok len by (simp_all add: co_ok_def blocker_count_def)
    then show ?thesis using that
      by (simp add: endResidencyAction_def endAdmissionBlocker_def co_ok_def Let_def)
  qed
  have p: "co_ok (persist_selection c t (publishReadyPreset t s'))" if "co_ok s'" for c t s'
    using that by (simp add: co_ok_def persist_selection_def publishReadyPreset_def)
  show ?thesis
    using True by (simp add: action_answer_def Let_def fail_with_def as_def [symmetric] e p split: option.split residency_action.split)
qed (simp add: action_answer_def ok)

lemma apply_ok:
  assumes ok: "co_ok s"
  shows "co_ok (snd (applyPreset key i s))"
proof -
  have pub: "co_ok (publishReadyPreset p s)" for p using ok by (simp add: co_ok_def publishReadyPreset_def)
  have set: "co_ok (setPendingSwitch p k s)" if "co_running s = None" for p k by (rule set_pending_ok(1) [OF ok that])
  show ?thesis
    using ok by (auto simp: applyPreset_def Let_def pub set start_ok split: sum.split bool.split)
qed

lemma ensure_request_ok:
  assumes ok: "co_ok s"
  shows "co_ok (snd (ensureRequestPresetReady key p s))"
proof -
  have pub: "co_ok (persist_selection c t (publishReadyPreset q s))" for c t q
    using ok by (simp add: co_ok_def publishReadyPreset_def persist_selection_def)
  have st: "co_ok (snd (startPendingSwitch key (setPendingSwitch p k s)))" if "canGrantModelRequest s" for k
    using start_ok [OF set_pending_ok(1) [OF ok]] that by (simp add: canGrantModelRequest_def)
  show ?thesis
    using ok by (simp add: ensureRequestPresetReady_def pub st begin_action_ok split: sum.split bool.split)
qed

lemma coordinator_step_ok:
  assumes ok: "co_ok s"
  shows "co_ok (coordinator_step key e s)"
proof (cases e)
  case RestartConfigured
  have "co_ok (snd (startPendingSwitch key (setPendingSwitch p k s)))" if "co_running s = None" for p k
    using start_ok [OF set_pending_ok(1) [OF ok that]] .
  then show ?thesis using ok RestartConfigured by (simp add: restartConfiguredPreset_def split: sum.split)
next
  case EnsureActive
  have r: "co_ok (snd (ensure_model_ready s'))" if "co_ok s'" for s'
    using that begin_action_ok [OF that] by (simp add: ensure_model_ready_def co_ok_def)
  have "co_ok (snd (case applyPreset key i s of (Queued, s1) \<Rightarrow> ensure_model_ready s1 | r \<Rightarrow> r))" for i
    using apply_ok [OF ok, of key i] r by (cases "applyPreset key i s") (auto split: coordinator_outcome.split)
  then show ?thesis using ok r EnsureActive by (simp add: ensureActivePresetReady_def split: sum.split)
qed (use ok in \<open>simp_all add: apply_ok ensure_request_ok switch_answer_ok action_answer_ok start_ok
    applyIdleResidencyAction_def unloadActivePresetNow_def loadActivePresetNow_def onModelRequestReleased_def
    begin_action_ok split: option.split\<close>, simp_all add: co_ok_def)

interpretation coordinator: invariant_machine "coordinator_step key" co_ok
  by unfold_locales (rule coordinator_step_ok)

lemma initial_coordinator_ok: "co_ok (initial_coordinator c p)"
  by (simp add: co_ok_def initial_coordinator_def blocker_count_def)

section \<open>How a switch ends\<close>

text \<open>A switch that started with profile P, engine E and configuration C. While it runs, P stays
  applied and the stage says what there is to undo; once it is over, either the target is applied, or
  the failure is recorded, P is still applied, and the rollback note says what was restored.\<close>

fun rollback_ok :: "model_preset \<Rightarrow> string \<Rightarrow> sift_config \<Rightarrow> string \<Rightarrow> sift_config \<Rightarrow> rollback_note \<Rightarrow> bool" where
  "rollback_ok P E C eng cfg (RestoredPreset i _) = (i = mp_id P \<and> eng = E \<and> getActiveModelPreset cfg = Inr P)"
| "rollback_ok P E C eng cfg (KeptNewerSelection i _) = (i = mp_id P \<and> eng = E \<and> cfg = C)"
| "rollback_ok P E C eng cfg (RollbackFailed _) = True"

definition switch_over ::
  "model_preset \<Rightarrow> string \<Rightarrow> sift_config \<Rightarrow> model_preset \<Rightarrow> switch_kind \<Rightarrow> coordinator_state \<Rightarrow> bool" where
  "switch_over P E C target kind s \<longleftrightarrow> co_pending s = None \<and>
     (co_applied s = target \<and> co_error s = None \<and> co_rollback s = None \<and>
        co_engine s = (if kind = Restart then cfg_engine C else E) \<and>
        cfg_ModelPresets (co_config s) = cfg_ModelPresets C \<and>
        (kind \<noteq> Requested \<longrightarrow> co_config s = C)
      \<or> co_applied s = P \<and> map_option fst (co_error s) = Some PhasePresetSwitch \<and>
        (\<exists>n. co_rollback s = Some n \<and> rollback_ok P E C (co_engine s) (co_config s) n))"

definition undo_ok :: "string \<Rightarrow> running_switch \<Rightarrow> coordinator_state \<Rightarrow> bool" where
  "undo_ok E r s \<longleftrightarrow> (sw_previousEngine r = None \<longrightarrow> co_engine s = E) \<and>
     (\<forall>e. sw_previousEngine r = Some e \<longrightarrow> e = E)"

definition switch_in_stage ::
  "string \<Rightarrow> sift_config \<Rightarrow> model_preset \<Rightarrow> running_switch \<Rightarrow> coordinator_state \<Rightarrow> bool" where
  "switch_in_stage E C P r s \<longleftrightarrow>
     (case sw_stage r of
        AwaitUnload \<Rightarrow> sw_previousEngine r = None \<and> co_engine s = E \<and> co_config s = C \<and> co_rollback s = None
      | AwaitStop \<Rightarrow> sw_kind r = Restart \<and> sw_previousEngine r = None \<and> co_engine s = E \<and> co_config s = C \<and>
          co_rollback s = None
      | AwaitReady \<Rightarrow> undo_ok E r s \<and> co_engine s = (if sw_kind r = Restart then cfg_engine C else E) \<and>
          co_config s = C \<and> co_rollback s = None
      | AwaitCleanupUnload \<Rightarrow> undo_ok E r s \<and> co_config s = C \<and> map_option fst (co_error s) = Some PhasePresetSwitch
      | AwaitCleanupStop \<Rightarrow> undo_ok E r s \<and> co_config s = C \<and> map_option fst (co_error s) = Some PhasePresetSwitch
      | AwaitRollbackReady \<Rightarrow> co_engine s = E \<and> map_option fst (co_error s) = Some PhasePresetSwitch \<and>
          (if sw_restored r then getActiveModelPreset (co_config s) = Inr P else co_config s = C))"

definition switch_track ::
  "model_preset \<Rightarrow> string \<Rightarrow> sift_config \<Rightarrow> model_preset \<Rightarrow> switch_kind \<Rightarrow> coordinator_state \<Rightarrow> bool" where
  "switch_track P E C target kind s \<longleftrightarrow>
     (case co_running s of
        None \<Rightarrow> switch_over P E C target kind s
      | Some r \<Rightarrow> sw_previous r = P \<and> sw_target r = target \<and> sw_kind r = kind \<and> sw_expected r = C \<and>
          co_applied s = P \<and> switch_in_stage E C P r s)"

lemma end_blocker_fields [simp]:
  "co_running (endAdmissionBlocker s) = co_running s" "co_pending (endAdmissionBlocker s) = co_pending s"
  "co_applied (endAdmissionBlocker s) = co_applied s" "co_engine (endAdmissionBlocker s) = co_engine s"
  "co_config (endAdmissionBlocker s) = co_config s" "co_error (endAdmissionBlocker s) = co_error s"
  "co_rollback (endAdmissionBlocker s) = co_rollback s"
  "co_actions (endAdmissionBlocker s) = co_actions s" "co_residencyFlag (endAdmissionBlocker s) = co_residencyFlag s"
  by (simp_all add: endAdmissionBlocker_def Let_def)

lemma track_restore:
  assumes r: "sw_previous r = P" "sw_target r = target" "sw_kind r = kind" "sw_expected r = C"
    and s: "co_applied s = P" "undo_ok E r s" "co_config s = C" "map_option fst (co_error s) = Some PhasePresetSwitch"
  shows "switch_track P E C target kind (switch_restore r s)"
proof -
  define s1 where "s1 = (case sw_previousEngine r of None \<Rightarrow> s | Some e \<Rightarrow> s\<lparr>co_engine := e\<rparr>)"
  have s1: "co_engine s1 = E" "co_config s1 = C" "co_applied s1 = P" "co_error s1 = co_error s"
    using s by (auto simp: s1_def undo_ok_def split: option.splits)
  obtain b db where b: "restorePreviousModelSelection C P (Some C) = (b, db)" by force
  note eff = restore_effect [OF b]
  then have db: "if b then getActiveModelPreset (the db) = Inr P \<and> db \<noteq> None else db = Some C" by auto
  have "switch_restore r s = to_stage (r\<lparr>sw_restored := b\<rparr>) AwaitRollbackReady
      (s1\<lparr>co_config := (case db of None \<Rightarrow> co_config s1 | Some c \<Rightarrow> c)\<rparr>)"
    using r b by (simp add: switch_restore_def Let_def s1_def [symmetric] s1)
  then show ?thesis
    using r s s1 db by (auto simp: switch_track_def switch_in_stage_def to_stage_def split: if_splits)
qed

lemma track_after_cleanup:
  assumes r: "sw_previous r = P" "sw_target r = target" "sw_kind r = kind" "sw_expected r = C"
    and s: "co_applied s = P" "undo_ok E r s" "co_config s = C" "map_option fst (co_error s) = Some PhasePresetSwitch"
  shows "switch_track P E C target kind (switch_after_cleanup r s)"
  using track_restore [OF assms] assms
  by (auto simp: switch_after_cleanup_def switch_track_def switch_in_stage_def to_stage_def undo_ok_def)

lemma track_failed:
  assumes r: "sw_previous r = P" "sw_target r = target" "sw_kind r = kind" "sw_expected r = C"
    and s: "co_applied s = P" "undo_ok E r s" "co_config s = C"
  shows "switch_track P E C target kind (switch_failed e r s)"
proof -
  have f: "co_applied (fail_with PhasePresetSwitch e s) = P" "undo_ok E r (fail_with PhasePresetSwitch e s)"
    "co_config (fail_with PhasePresetSwitch e s) = C"
    "map_option fst (co_error (fail_with PhasePresetSwitch e s)) = Some PhasePresetSwitch"
    using s by (simp_all add: fail_with_def undo_ok_def)
  show ?thesis
    using track_after_cleanup [OF r f] r f
    by (auto simp: switch_failed_def Let_def switch_track_def switch_in_stage_def to_stage_def undo_ok_def)
qed

lemma track_close_failed:
  assumes "co_applied s = P" "map_option fst (co_error s) = Some PhasePresetSwitch"
    and "rollback_ok P E C (co_engine s) (co_config s) note"
  shows "switch_track P E C target kind (switch_rolled_back note s)"
  using assms by (simp add: switch_rolled_back_def close_switch_def switch_track_def switch_over_def)

lemma track_step:
  assumes t: "switch_track P E C target kind s"
  shows "switch_track P E C target kind (switch_answer a s)"
proof (cases "co_running s")
  case (Some r)
  then have r: "sw_previous r = P" "sw_target r = target" "sw_kind r = kind" "sw_expected r = C"
    and ap: "co_applied s = P" and st: "switch_in_stage E C P r s"
    using t by (simp_all add: switch_track_def)
  have cfg: "cfg_ModelPresets (case snd (persistAppliedModelSelection e p (Some c)) of None \<Rightarrow> d0 | Some d \<Rightarrow> d)
      = cfg_ModelPresets c" for e p c d0
    using persist_keeps_profiles [of e p "Some c"]
    by (cases "persistAppliedModelSelection e p (Some c)") (auto split: option.splits)
  show ?thesis
  proof (cases "sw_stage r")
    case AwaitUnload
    then show ?thesis using st Some r ap track_failed [OF r ap]
      by (cases a) (auto simp: switch_answer_def switch_in_stage_def switch_track_def to_stage_def undo_ok_def)
  next
    case AwaitStop
    then show ?thesis using st Some r ap track_failed [OF r ap]
      by (cases a) (auto simp: switch_answer_def switch_in_stage_def switch_track_def to_stage_def undo_ok_def)
  next
    case AwaitReady
    then show ?thesis using st Some r ap track_failed [OF r ap] cfg
      by (cases a) (auto simp: switch_answer_def switch_in_stage_def switch_track_def switch_over_def
          close_switch_def publishReadyPreset_def Let_def)
  next
    case AwaitCleanupUnload
    have "undo_ok E (r\<lparr>sw_cleanupFailed := True\<rparr>) s" using st AwaitCleanupUnload
      by (simp add: switch_in_stage_def undo_ok_def)
    then show ?thesis using st Some r ap AwaitCleanupUnload track_after_cleanup [OF r ap]
        track_after_cleanup [of "r\<lparr>sw_cleanupFailed := True\<rparr>" P target kind C s E]
      by (cases a) (simp_all add: switch_answer_def switch_in_stage_def)
  next
    case AwaitCleanupStop
    then show ?thesis using st Some r ap track_restore [OF r ap]
      by (cases a) (auto simp: switch_answer_def switch_in_stage_def intro!: track_close_failed)
  next
    case AwaitRollbackReady
    have e: "map_option fst (co_error s) = Some PhasePresetSwitch" "co_engine s = E"
      "if sw_restored r then getActiveModelPreset (co_config s) = Inr P else co_config s = C"
      using st AwaitRollbackReady by (simp_all add: switch_in_stage_def)
    show ?thesis
    proof (cases a)
      case None
      show ?thesis using None AwaitRollbackReady Some r e
        by (auto simp: switch_answer_def intro!: track_close_failed)
    next
      case (Some x)
      then show ?thesis using AwaitRollbackReady \<open>co_running s = Some r\<close> ap e
        by (auto simp: switch_answer_def intro!: track_close_failed)
    qed
  qed
qed (simp add: switch_answer_def t)

lemma track_run: "switch_track P E C target kind s \<Longrightarrow> switch_track P E C target kind (run_events switch_answer as s)"
  by (induction as arbitrary: s) (auto simp: track_step)

lemma track_start:
  assumes "co_running s = None" "co_pending s = Some (target, kind)" "co_rollback s = None"
    and "startPendingSwitch key s = (Started, s0)"
  shows "switch_track (co_applied s) (co_engine s) (co_config s) target kind s0"
  using assms by (auto simp: startPendingSwitch_def switch_track_def switch_in_stage_def undo_ok_def
      split: sum.splits if_splits)

section \<open>Properties\<close>

text \<open>C12. Admission waits soundly. After any history of switches, residency actions, answers of the
  runtime and saved configurations, no blocker is ever closed twice, the blocker's promise is open
  exactly while something is pending or in flight, so a drain that waits for it is woken, and it is
  woken into a state in which requests may be granted.\<close>

theorem admission_blocker_sound:
  "let s = run_events (coordinator_step key) es (initial_coordinator c p) in
     \<not> co_broken s \<and>
     co_blockerOpen s = (\<not> (co_pending s = None \<and> co_actions s = [])) \<and>
     (canGrantModelRequest s \<or> co_blockerOpen s) \<and>
     \<not> (co_running s \<noteq> None \<and> co_pending s = None)"
proof -
  have "co_ok (run_events (coordinator_step key) es (initial_coordinator c p))"
    by (rule coordinator.inv_run [OF initial_coordinator_ok])
  then show ?thesis
    unfolding Let_def by (auto simp: co_ok_def canGrantModelRequest_def blocker_count_def)
qed


definition no_path_key :: "model_preset \<Rightarrow> residency_failure + string" where
  "no_path_key p = (if mp_ExternalServerEnabled p then Inl MissingModelPath else Inr (mp_id p))"

definition external_preset :: model_preset where
  "external_preset = preset_b\<lparr>mp_ExternalServerEnabled := True\<rparr>"

definition busy_coordinator :: coordinator_state where
  "busy_coordinator = (initial_coordinator (example_config\<lparr>cfg_ModelPresets := [preset_a, external_preset]\<rparr>) preset_a)
     \<lparr>co_proc := ProcReady, co_model := ModelReady, co_active := 1\<rparr>"

text \<open>A refused switch is queued all the same. With a request in flight, applying a profile whose
  loading identity cannot be derived reports the failure to its caller but has already recorded the
  switch: admission stays closed, and the switch the caller was told had failed starts as soon as the
  last request releases and runs to completion.\<close>

theorem failed_apply_still_switches:
  "let (r, s) = applyPreset no_path_key ''b'' busy_coordinator;
       idle = s\<lparr>co_active := 0, co_model := ModelFailed\<rparr>;
       (r2, s2) = onModelRequestReleased no_path_key idle
   in r = Failed (IdentityFailure MissingModelPath) \<and> \<not> canGrantModelRequest s \<and>
      co_pending s = Some (external_preset, Administrative) \<and> r2 = Started \<and>
      co_applied (run_events switch_answer [None, None] s2) = external_preset"
  by code_simp

text \<open>Overlapping residency actions reopen admission early. While an unload is in flight, a config
  read that finds the model not ready starts a restore; the restore's end clears the single
  in-progress flag, so requests may be granted although the unload is still running and the blocker
  is still open.\<close>

theorem overlapping_actions_reopen_admission:
  "let s = run_events (coordinator_step no_path_key)
       [RuntimeState ProcReady ModelReady, UnloadNow, RuntimeState ProcReady ModelBusy, EnsureActive,
        RuntimeState ProcReady ModelReady, ActionAnswer 1 None]
       (initial_coordinator example_config preset_a)
   in canGrantModelRequest s \<and> co_actions s = [UnloadAction] \<and> co_blockerOpen s"
  by code_simp


end
