(* ===== verification/Sse_Frames.thy ===== *)
theory Sse_Frames
  imports Sift_Prelude
begin

text \<open>
  The incremental parser of server-sent events (src/lib/sse-frame-parser.ts): a buffer, chunks of text
  pushed into it, and the frames each push completes.
\<close>

section \<open>The parser\<close>

record sse_frame =
  sse_event :: string
  sse_data :: string

text \<open>A match of \<open>/\\r?\\n\\r?\\n/u\<close> at the start of the text: its length.\<close>

fun line_break :: "string \<Rightarrow> nat" where
  "line_break [] = 0"
| "line_break (c # s) = (if c = LF then 1 else if c = CR \<and> s \<noteq> [] \<and> hd s = LF then 2 else 0)"

definition boundary_here :: "string \<Rightarrow> nat" where
  "boundary_here s = (let a = line_break s; b = line_break (drop a s) in if a = 0 \<or> b = 0 then 0 else a + b)"

text \<open>\<open>exec\<close>: the leftmost match, as its index and length.\<close>

fun find_boundary :: "string \<Rightarrow> (nat \<times> nat) option" where
  "find_boundary [] = None"
| "find_boundary (c # s) =
     (if boundary_here (c # s) \<noteq> 0 then Some (0, boundary_here (c # s))
      else map_option (\<lambda>(i, l). (Suc i, l)) (find_boundary s))"

text \<open>\<open>packet.split(/\\r?\\n/u)\<close>.\<close>

fun packet_lines :: "string \<Rightarrow> string list" where
  "packet_lines [] = [[]]"
| "packet_lines (c # s) =
     (if c = LF then [] # packet_lines s
      else if c = CR \<and> s \<noteq> [] \<and> hd s = LF then [] # packet_lines (tl s)
      else (case packet_lines s of [] \<Rightarrow> [[c]] | l # ls \<Rightarrow> (c # l) # ls))"

definition parse_line :: "string \<Rightarrow> string \<times> string list \<Rightarrow> string \<times> string list" where
  "parse_line raw acc =
     (let line = js_trim_end raw; (ev, data) = acc in
      if line = [] \<or> js_starts_with '':'' line then (ev, data)
      else if js_starts_with ''event:'' line then (js_trim (drop 6 line), data)
      else if js_starts_with ''data:'' line then (ev, data @ [js_trim (drop 5 line)])
      else (ev, data))"

definition parsePacket :: "string \<Rightarrow> sse_frame option" where
  "parsePacket packet =
     (let (ev, data) = fold parse_line (packet_lines packet) (''message'', []) in
      if data = [] then None else Some \<lparr>sse_event = ev, sse_data = js_join [LF] data\<rparr>)"

lemma line_break_le: "line_break s \<le> length s"
  by (cases s) (auto simp: neq_Nil_conv)

lemma boundary_here_le: "boundary_here s \<le> length s"
proof -
  have "line_break (drop (line_break s) s) \<le> length s - line_break s"
    using line_break_le [of "drop (line_break s) s"] by simp
  then show ?thesis using line_break_le [of s] unfolding boundary_here_def Let_def by auto
qed

lemma find_boundary_bounds: "find_boundary s = Some (i, l) \<Longrightarrow> 0 < l \<and> i + l \<le> length s"
proof (induction s arbitrary: i)
  case (Cons c s)
  then show ?case using boundary_here_le [of "c # s"] by (auto split: if_splits)
qed simp

text \<open>The loop of push: the frames of the packets that end in the buffer, and what is left.\<close>

function push_loop :: "string \<Rightarrow> sse_frame list \<times> string" where
  "push_loop buffer =
     (case find_boundary buffer of
        None \<Rightarrow> ([], buffer)
      | Some (i, l) \<Rightarrow>
          let (frames, rest) = push_loop (drop (i + l) buffer) in
          ((case parsePacket (take i buffer) of None \<Rightarrow> frames | Some f \<Rightarrow> f # frames), rest))"
  by pat_completeness auto
termination
  by (relation "measure length") (auto dest: find_boundary_bounds)

declare push_loop.simps [simp del]

definition sse_push :: "string \<Rightarrow> string \<Rightarrow> sse_frame list \<times> string" where
  "sse_push chunk buffer = push_loop (buffer @ chunk)"

definition pendingLength :: "string \<Rightarrow> nat" where
  "pendingLength buffer = length buffer"

text \<open>Pushing a list of chunks: all frames, and the final buffer.\<close>

fun push_all :: "string list \<Rightarrow> string \<Rightarrow> sse_frame list \<times> string" where
  "push_all [] buffer = ([], buffer)"
| "push_all (c # cs) buffer =
     (let (fs, b) = sse_push c buffer; (gs, b') = push_all cs b in (fs @ gs, b'))"

section \<open>Where the text is cut does not matter\<close>

lemma line_break_cases:
  "line_break s = 0 \<or> (\<exists>t. s = LF # t \<and> line_break s = 1) \<or> (\<exists>t. s = CR # LF # t \<and> line_break s = 2)"
  by (cases s) (auto simp: neq_Nil_conv)

lemma LF_CR [simp]: "LF \<noteq> CR" "CR \<noteq> LF"
  by (simp_all add: LF_def CR_def)

lemma line_break_append: "line_break s \<noteq> 0 \<Longrightarrow> line_break (s @ t) = line_break s"
  using line_break_cases [of s] by auto

lemma boundary_cases:
  assumes "boundary_here s \<noteq> 0"
  obtains t where "s = LF # LF # t" "boundary_here s = 2"
  | t where "s = LF # CR # LF # t" "boundary_here s = 3"
  | t where "s = CR # LF # LF # t" "boundary_here s = 3"
  | t where "s = CR # LF # CR # LF # t" "boundary_here s = 4"
proof -
  let ?u = "drop (line_break s) s"
  have nz: "line_break s \<noteq> 0" "line_break ?u \<noteq> 0" and b: "boundary_here s = line_break s + line_break ?u"
    using assms by (auto simp: boundary_here_def Let_def split: if_splits)
  from line_break_cases [of s] nz(1) show thesis
  proof (elim disjE exE conjE)
    fix t assume s: "s = LF # t" "line_break s = 1"
    from line_break_cases [of ?u] nz(2) show thesis using s b that(1,2) by auto
  next
    fix t assume s: "s = CR # LF # t" "line_break s = 2"
    from line_break_cases [of ?u] nz(2) show thesis using s b that(3,4) by auto
  qed simp
qed

lemma boundary_here_simps [simp]:
  "boundary_here (LF # LF # t) = 2" "boundary_here (LF # CR # LF # t) = 3"
  "boundary_here (CR # LF # LF # t) = 3" "boundary_here (CR # LF # CR # LF # t) = 4"
  by (simp_all add: boundary_here_def Let_def)

lemma boundary_here_append: "boundary_here s \<noteq> 0 \<Longrightarrow> boundary_here (s @ t) = boundary_here s"
  by (erule boundary_cases) auto

lemma append_eq_two: "s @ t = a # u \<Longrightarrow> s = [] \<or> (\<exists>v. s = a # v \<and> v @ t = u)"
  by (cases s) auto

lemma short_find_boundary:
  "find_boundary [] = None" "find_boundary [a] = None"
  "find_boundary [LF, CR] = None" "find_boundary [CR, LF] = None" "find_boundary [CR, LF, CR] = None"
  by (simp_all add: boundary_here_def Let_def)

text \<open>A boundary that later text completes starts where the buffer holds no boundary at all.\<close>

lemma late_boundary:
  assumes "boundary_here u = 0" "boundary_here (u @ t) \<noteq> 0"
  shows "find_boundary u = None"
  using assms(2)
proof (cases rule: boundary_cases)
  case (1 v)
  have "u = [] \<or> u = [LF]" using 1(1) assms(1) by (auto dest!: append_eq_two)
  then show ?thesis using short_find_boundary by metis
next
  case (2 v)
  have "u = [] \<or> u = [LF] \<or> u = [LF, CR]" using 2(1) assms(1) by (auto dest!: append_eq_two)
  then show ?thesis using short_find_boundary by metis
next
  case (3 v)
  have "u = [] \<or> u = [CR] \<or> u = [CR, LF]" using 3(1) assms(1) by (auto dest!: append_eq_two)
  then show ?thesis using short_find_boundary by metis
next
  case (4 v)
  have "u = [] \<or> u = [CR] \<or> u = [CR, LF] \<or> u = [CR, LF, CR]" using 4(1) assms(1)
    by (auto dest!: append_eq_two)
  then show ?thesis using short_find_boundary by metis
qed

lemma find_boundary_here: "boundary_here (c # s) \<noteq> 0 \<Longrightarrow> find_boundary (c # s) = Some (0, boundary_here (c # s))"
  "boundary_here (c # s) = 0 \<Longrightarrow> find_boundary (c # s) = map_option (\<lambda>(i, l). (Suc i, l)) (find_boundary s)"
  by simp_all

lemma find_boundary_append: "find_boundary s = Some p \<Longrightarrow> find_boundary (s @ t) = Some p"
proof (induction s arbitrary: p)
  case (Cons c s)
  show ?case
  proof (cases "boundary_here (c # s) = 0")
    case True
    have "boundary_here ((c # s) @ t) = 0"
    proof (rule ccontr)
      assume "boundary_here ((c # s) @ t) \<noteq> 0"
      then have "find_boundary (c # s) = None" by (rule late_boundary [OF True])
      then show False using Cons.prems by (simp only: option.distinct)
    qed
    then have now: "find_boundary (c # s @ t) = map_option (\<lambda>(i, l). (Suc i, l)) (find_boundary (s @ t))"
      by (simp only: append_Cons find_boundary_here)
    obtain q where q: "find_boundary s = Some q" "p = (case q of (i, l) \<Rightarrow> (Suc i, l))"
      using Cons.prems unfolding find_boundary_here(2) [OF True] by (cases "find_boundary s") simp_all
    show ?thesis unfolding append_Cons now Cons.IH [OF q(1)] by (simp add: q(2))
  next
    case False
    then have b: "boundary_here (c # s @ t) = boundary_here (c # s)"
      using boundary_here_append [OF False, of t] by simp
    have "find_boundary (c # s @ t) = Some (0, boundary_here (c # s))"
      using find_boundary_here(1) [of c "s @ t"] False unfolding b by blast
    then show ?thesis using Cons.prems unfolding append_Cons find_boundary_here(1) [OF False] by (rule trans)
  qed
qed simp

lemma push_loop_none: "find_boundary s = None \<Longrightarrow> push_loop s = ([], s)"
  by (simp add: push_loop.simps [of s])

lemma push_loop_some:
  assumes "find_boundary s = Some (i, l)"
  shows "push_loop s = ((case parsePacket (take i s) of None \<Rightarrow> [] | Some f \<Rightarrow> [f])
      @ fst (push_loop (drop (i + l) s)), snd (push_loop (drop (i + l) s)))"
  by (subst push_loop.simps)
    (cases "push_loop (drop (i + l) s)"; use assms in \<open>auto split: option.splits\<close>)

lemma push_loop_append:
  "push_loop (s @ t) =
     (fst (push_loop s) @ fst (push_loop (snd (push_loop s) @ t)), snd (push_loop (snd (push_loop s) @ t)))"
proof (induction s rule: push_loop.induct)
  case (1 s)
  show ?case
  proof (cases "find_boundary s")
    case None
    then show ?thesis by (simp add: push_loop_none)
  next
    case (Some p)
    obtain i l where p: "p = (i, l)" by (cases p)
    have le: "i + l \<le> length s" using find_boundary_bounds Some p by blast
    have f: "find_boundary (s @ t) = Some (i, l)" using find_boundary_append Some p by blast
    have "take i (s @ t) = take i s" "drop (i + l) (s @ t) = drop (i + l) s @ t" using le by simp_all
    then have "push_loop (s @ t) = ((case parsePacket (take i s) of None \<Rightarrow> [] | Some g \<Rightarrow> [g])
        @ fst (push_loop (drop (i + l) s @ t)), snd (push_loop (drop (i + l) s @ t)))"
      using push_loop_some [OF f] by (simp only:)
    then show ?thesis
      using "1.IH" [OF Some p [symmetric]] push_loop_some [of s i l] Some p by simp
  qed
qed

lemma push_loop_rest: "push_loop (snd (push_loop s)) = ([], snd (push_loop s))"
proof (induction s rule: push_loop.induct)
  case (1 s)
  show ?case
  proof (cases "find_boundary s")
    case None
    then show ?thesis by (simp add: push_loop_none)
  next
    case (Some p)
    obtain i l where p: "p = (i, l)" by (cases p)
    then show ?thesis using "1.IH" [OF Some p [symmetric]] push_loop_some [of s i l] Some by simp
  qed
qed

lemma push_all_loop:
  "push_all cs (snd (push_loop s)) = push_loop (snd (push_loop s) @ concat cs)"
proof (induction cs arbitrary: s)
  case Nil
  show ?case by (simp add: push_loop_rest)
next
  case (Cons c cs)
  let ?b = "snd (push_loop s)"
  have "push_loop (?b @ concat (c # cs)) = push_loop ((?b @ c) @ concat cs)" by simp
  also have "\<dots> = (fst (push_loop (?b @ c)) @ fst (push_loop (snd (push_loop (?b @ c)) @ concat cs)),
      snd (push_loop (snd (push_loop (?b @ c)) @ concat cs)))" by (rule push_loop_append)
  finally show ?case using Cons.IH [of "?b @ c"] by (simp add: sse_push_def split_def Let_def)
qed

text \<open>C31. The frames a stream yields do not depend on how the transport cut it into chunks: pushing
  the chunks one by one into a fresh parser gives exactly the frames, and exactly the pending buffer,
  that one push of the whole text gives, even where a chunk ends inside a CRLF or between the two line
  breaks of a boundary.\<close>

theorem chunking_is_invisible:
  "push_all chunks [] = sse_push (concat chunks) []"
  using push_all_loop [of chunks "[]"] by (simp add: sse_push_def push_loop.simps [of "[]"])

lemma parser_example:
  "push_all [''event: token'' @ [CR], [LF] @ ''data: {'' @ [LF] @ '': ping'' @ [LF, LF] @ ''da''] [] =
     ([\<lparr>sse_event = ''token'', sse_data = ''{''\<rparr>], ''da'')"
  by code_simp

end
