(* ===== verification/Token_Budget.thy ===== *)
theory Token_Budget
  imports Complex_Main Sse_Frames
begin

text \<open>
  The token budgets of a run: the context window and its compaction reserve
  (src/lib/context-token-budget.ts), the share of a turn (src/repo-search/engine/turn-budget.ts), and
  how a tool's output is cut to its share (src/tool-output-fit.ts,
  src/repo-search/engine/tool-result-budgeter.ts). A JavaScript number that may have a fraction is a
  rational; the tokenizer is an argument.
\<close>

section \<open>The context window\<close>

datatype budget_error =
    NotPositiveInteger string rat
  | NotNonNegativeInteger string rat
  | WindowFull rat rat

definition requirePositiveInteger :: "string \<Rightarrow> rat \<Rightarrow> budget_error + int" where
  "requirePositiveInteger name v =
     (if of_int \<lfloor>v\<rfloor> \<noteq> v \<or> v < 1 then Inl (NotPositiveInteger name v) else Inr \<lfloor>v\<rfloor>)"

definition requireNonNegativeInteger :: "string \<Rightarrow> rat \<Rightarrow> budget_error + int" where
  "requireNonNegativeInteger name v =
     (if of_int \<lfloor>v\<rfloor> \<noteq> v \<or> v < 0 then Inl (NotNonNegativeInteger name v) else Inr \<lfloor>v\<rfloor>)"

record context_budget =
  cb_totalContextTokens :: int
  cb_compactionReserveTokens :: int
  cb_maxPromptTokens :: int

definition PROMPT_COMPACTION_RESERVE_MAX_CONTEXT_RATIO :: rat where
  "PROMPT_COMPACTION_RESERVE_MAX_CONTEXT_RATIO = 1 / 2"

definition resolveContextTokenBudget :: "rat \<Rightarrow> rat \<Rightarrow> budget_error + context_budget" where
  "resolveContextTokenBudget totalTokens reserveTokens =
     bind_result (requirePositiveInteger ''totalContextTokens'' totalTokens) (\<lambda>total.
     bind_result (requirePositiveInteger ''compactionReserveTokens'' reserveTokens) (\<lambda>requested.
       let reserve = max 1 (min requested \<lfloor>of_int total * PROMPT_COMPACTION_RESERVE_MAX_CONTEXT_RATIO\<rfloor>) in
       Inr \<lparr>cb_totalContextTokens = total, cb_compactionReserveTokens = reserve,
            cb_maxPromptTokens = max 0 (total - reserve)\<rparr>))"

definition resolveRemainingWindowTokens :: "rat \<Rightarrow> rat \<Rightarrow> rat option \<Rightarrow> budget_error + int" where
  "resolveRemainingWindowTokens totalTokens promptTokens operationMax =
     bind_result (requirePositiveInteger ''totalContextTokens'' totalTokens) (\<lambda>total.
     bind_result (requireNonNegativeInteger ''promptTokenCount'' promptTokens) (\<lambda>prompt.
       let remaining = total - prompt in
       case operationMax of
         None \<Rightarrow> Inr remaining
       | Some limit \<Rightarrow>
           bind_result (requirePositiveInteger ''operationMaxTokens'' limit) (\<lambda>cap. Inr (min remaining cap))))"

definition resolveGenerationTokenLimit :: "rat \<Rightarrow> rat \<Rightarrow> rat option \<Rightarrow> budget_error + int" where
  "resolveGenerationTokenLimit totalTokens promptTokens operationMax =
     bind_result (resolveRemainingWindowTokens totalTokens promptTokens operationMax) (\<lambda>limit.
       if limit < 1 then Inl (WindowFull promptTokens totalTokens) else Inr limit)"

definition resolveFinalGenerationTokenLimit :: "rat \<Rightarrow> rat \<Rightarrow> budget_error + int" where
  "resolveFinalGenerationTokenLimit totalTokens promptTokens =
     bind_result (resolveRemainingWindowTokens totalTokens promptTokens None) (\<lambda>remaining. Inr (max 1 remaining))"

section \<open>The share of a turn\<close>

definition MIN_TURN_TOOL_RESULT_RATIO :: rat where
  "MIN_TURN_TOOL_RESULT_RATIO = 75 / 1000"

definition FAILED_COMMAND_TAIL_CAP_TOKENS :: int where
  "FAILED_COMMAND_TAIL_CAP_TOKENS = 1024"

record compaction_split =
  cs_totalTokens :: int
  cs_reasoningTokens :: int
  cs_outputTokens :: int

definition splitCompactionGenerationTokens :: "rat \<Rightarrow> compaction_split" where
  "splitCompactionGenerationTokens totalTokens =
     (let normalizedTotal = max 0 \<lfloor>totalTokens\<rfloor>; output = normalizedTotal div 3 in
      \<lparr>cs_totalTokens = normalizedTotal, cs_reasoningTokens = normalizedTotal - output, cs_outputTokens = output\<rparr>)"

record turn_budget =
  tb_totalContextTokens :: int
  tb_compactionReserveTokens :: int
  tb_maxPromptTokens :: int
  tb_maxTurns :: int

definition newTurnBudget :: "rat \<Rightarrow> rat \<Rightarrow> int \<Rightarrow> budget_error + turn_budget" where
  "newTurnBudget totalTokens reserveTokens maxTurns =
     bind_result (resolveContextTokenBudget totalTokens reserveTokens) (\<lambda>context.
       Inr \<lparr>tb_totalContextTokens = cb_totalContextTokens context,
            tb_compactionReserveTokens = cb_compactionReserveTokens context,
            tb_maxPromptTokens = cb_maxPromptTokens context, tb_maxTurns = max 1 maxTurns\<rparr>)"

definition perToolCapTokens :: "turn_budget \<Rightarrow> int \<Rightarrow> int \<Rightarrow> int" where
  "perToolCapTokens b completedCommandCount batchCommandCount =
     (let turnShareRatio = max MIN_TURN_TOOL_RESULT_RATIO (of_int completedCommandCount / of_int (tb_maxTurns b));
          calls = max 1 batchCommandCount in
      max 1 \<lfloor>of_int (tb_maxPromptTokens b) * turnShareRatio / of_int calls\<rfloor>)"

definition remainingToolAllowance :: "turn_budget \<Rightarrow> int \<Rightarrow> int \<Rightarrow> int" where
  "remainingToolAllowance b promptTokenCount accepted = max (tb_maxPromptTokens b - promptTokenCount - accepted) 0"

datatype tool_result_capacity = Available (perToolCap: int) (remainingAllowance: int) | Exhausted

definition resolveToolResultCapacity :: "turn_budget \<Rightarrow> int \<Rightarrow> int \<Rightarrow> int \<Rightarrow> int \<Rightarrow> tool_result_capacity" where
  "resolveToolResultCapacity b promptTokenCount accepted completedCommandCount batchCommandCount =
     (let cap = perToolCapTokens b completedCommandCount batchCommandCount;
          remaining = remainingToolAllowance b promptTokenCount accepted in
      if remaining = 0 then Exhausted else Available cap remaining)"

section \<open>Cutting a tool's output\<close>

datatype tool_output_keep = KeepHead | KeepTail

record fit_input =
  fi_headerText :: string
  fi_segments :: "string list"
  fi_separator :: string
  fi_maxTokens :: int
  fi_unit :: string
  fi_keep :: tool_output_keep

record fit_result =
  fr_visibleText :: string
  fr_returnedLineCount :: nat
  fr_truncatedLineCount :: nat
  fr_truncationReason :: "string option"

definition buildCandidate :: "fit_input \<Rightarrow> nat \<Rightarrow> string" where
  "buildCandidate i segmentCount =
     (let headerText = js_trim (fi_headerText i); total = length (fi_segments i);
          truncatedCount = total - segmentCount; keepTail = fi_keep i = KeepTail;
          kept = (if keepTail then drop (total - segmentCount) (fi_segments i) else take segmentCount (fi_segments i));
          notice = (if truncatedCount > 0
            then [show_nat truncatedCount @ '' '' @ fi_unit i @ '' truncated due to per-tool context limit.''] else []);
          body = js_trim (js_join (fi_separator i) kept) in
      js_trim (js_join (fi_separator i)
        ((if headerText = [] then [] else [headerText]) @ (if keepTail then notice else []) @
         (if body = [] then [] else [body]) @ (if keepTail then [] else notice))))"

text \<open>The binary search for the largest count of segments that fits.\<close>

function fit_search :: "(nat \<Rightarrow> bool) \<Rightarrow> int \<Rightarrow> int \<Rightarrow> nat \<Rightarrow> nat" where
  "fit_search fits low high bestCount =
     (if low \<le> high then
        let mid = (low + high) div 2 in
        if fits (nat mid) then fit_search fits (mid + 1) high (nat mid) else fit_search fits low (mid - 1) bestCount
      else bestCount)"
  by pat_completeness auto
termination
  by (relation "measure (\<lambda>(fits, low, high, best). nat (high + 1 - low))") auto

declare fit_search.simps [simp del]

definition fitSegments :: "(string \<Rightarrow> nat) \<Rightarrow> fit_input \<Rightarrow> fit_result" where
  "fitSegments count i =
     (let maxTokens = max 1 (fi_maxTokens i); totalCount = length (fi_segments i) in
      if totalCount = 0 then
        \<lparr>fr_visibleText = js_trim (fi_headerText i), fr_returnedLineCount = 0, fr_truncatedLineCount = 0,
         fr_truncationReason = None\<rparr>
      else
        let fullText = buildCandidate i totalCount in
        if int (count fullText) \<le> maxTokens then
          \<lparr>fr_visibleText = fullText, fr_returnedLineCount = totalCount, fr_truncatedLineCount = 0,
           fr_truncationReason = None\<rparr>
        else
          let target = max 1 (maxTokens div 2);
              best = fit_search (\<lambda>k. int (count (buildCandidate i k)) \<le> target) 0 (int totalCount) 0 in
          \<lparr>fr_visibleText = buildCandidate i best, fr_returnedLineCount = best,
           fr_truncatedLineCount = totalCount - best, fr_truncationReason = Some ''per-tool context limit''\<rparr>)"

record fitted_result =
  ft_resultText :: string
  ft_resultTokenCount :: nat
  ft_estimated :: bool
  ft_returnedSegmentCount :: "nat option"
  ft_rawResultTokenCount :: nat

definition maxResultTokens :: "tool_result_capacity \<Rightarrow> bool \<Rightarrow> int" where
  "maxResultTokens capacity succeeded =
     (let successBudget = min (perToolCap capacity) (remainingAllowance capacity) in
      if succeeded then successBudget else min FAILED_COMMAND_TAIL_CAP_TOKENS successBudget)"

text \<open>ToolResultBudgeter.fit; countTokens gives a count and whether it is an estimate.\<close>

definition fit_tool_result ::
  "(string \<Rightarrow> nat \<times> bool) \<Rightarrow> string \<Rightarrow> string \<Rightarrow> tool_result_capacity \<Rightarrow> bool \<Rightarrow> string \<Rightarrow> tool_output_keep \<Rightarrow> fitted_result" where
  "fit_tool_result countTokens resultText rawResultText capacity succeeded outputUnit keep =
     (let raw = fst (countTokens rawResultText); (count, estimated) = countTokens resultText;
          limit = maxResultTokens capacity succeeded in
      if int count > limit then
        let segments = filter (\<lambda>line. length line > 0) (packet_lines resultText);
            fit = fitSegments (\<lambda>t. fst (countTokens t))
              \<lparr>fi_headerText = [], fi_segments = segments, fi_separator = [LF], fi_maxTokens = limit,
               fi_unit = outputUnit, fi_keep = (if succeeded then keep else KeepTail)\<rparr>;
            (count', estimated') = countTokens (fr_visibleText fit) in
        \<lparr>ft_resultText = fr_visibleText fit, ft_resultTokenCount = count', ft_estimated = estimated',
         ft_returnedSegmentCount = Some (fr_returnedLineCount fit), ft_rawResultTokenCount = raw\<rparr>
      else
        \<lparr>ft_resultText = resultText, ft_resultTokenCount = count, ft_estimated = estimated,
         ft_returnedSegmentCount = None, ft_rawResultTokenCount = raw\<rparr>)"

section \<open>Bounds\<close>

lemma requirePositiveInteger_Inr: "requirePositiveInteger name v = Inr n \<longleftrightarrow> v = of_int n \<and> 1 \<le> n"
  by (auto simp: requirePositiveInteger_def)

lemma requireNonNegativeInteger_Inr: "requireNonNegativeInteger name v = Inr n \<longleftrightarrow> v = of_int n \<and> 0 \<le> n"
  by (auto simp: requireNonNegativeInteger_def)

lemma half_floor: "\<lfloor>of_int n * PROMPT_COMPACTION_RESERVE_MAX_CONTEXT_RATIO\<rfloor> = n div 2"
  unfolding PROMPT_COMPACTION_RESERVE_MAX_CONTEXT_RATIO_def
  using floor_divide_of_int_eq [of n 2, where 'a = rat] by simp

text \<open>The numbers the budget code accepts: integers from a least value on.\<close>

definition whole_from :: "rat \<Rightarrow> rat \<Rightarrow> bool" where
  "whole_from least v \<longleftrightarrow> of_int \<lfloor>v\<rfloor> = v \<and> least \<le> v"

lemma positive_result: "whole_from 1 v \<Longrightarrow> requirePositiveInteger name v = Inr \<lfloor>v\<rfloor>"
  "\<not> whole_from 1 v \<Longrightarrow> requirePositiveInteger name v = Inl (NotPositiveInteger name v)"
  by (auto simp: requirePositiveInteger_def whole_from_def)

lemma non_negative_result: "whole_from 0 v \<Longrightarrow> requireNonNegativeInteger name v = Inr \<lfloor>v\<rfloor>"
  "\<not> whole_from 0 v \<Longrightarrow> requireNonNegativeInteger name v = Inl (NotNonNegativeInteger name v)"
  by (auto simp: requireNonNegativeInteger_def whole_from_def)

lemma remaining_result:
  "resolveRemainingWindowTokens n p cap =
     (if \<not> whole_from 1 n then Inl (NotPositiveInteger ''totalContextTokens'' n)
      else if \<not> whole_from 0 p then Inl (NotNonNegativeInteger ''promptTokenCount'' p)
      else case cap of
        None \<Rightarrow> Inr (\<lfloor>n\<rfloor> - \<lfloor>p\<rfloor>)
      | Some c \<Rightarrow> if whole_from 1 c then Inr (min (\<lfloor>n\<rfloor> - \<lfloor>p\<rfloor>) \<lfloor>c\<rfloor>) else Inl (NotPositiveInteger ''operationMaxTokens'' c))"
  by (simp add: resolveRemainingWindowTokens_def positive_result non_negative_result split: option.split)

lemma whole_floor: "whole_from least v \<Longrightarrow> v = of_int \<lfloor>v\<rfloor>"
  unfolding whole_from_def by (elim conjE) (rule sym)

text \<open>C35. The generation limit. When a limit is returned it is at least one token, it fits into the
  window behind the prompt, and it is as large as the window and the operation's cap allow; the
  request is refused exactly when a count is not a whole number of the right sign or the prompt fills
  the window. The final answer's limit is never refused for a full window and never below one.\<close>

theorem generation_limit_exact:
  "(case resolveGenerationTokenLimit n p cap of
      Inr g \<Rightarrow> 1 \<le> g \<and> p + of_int g \<le> n \<and>
        (case cap of None \<Rightarrow> p + of_int g = n | Some c \<Rightarrow> of_int g = min (n - p) c)
    | Inl _ \<Rightarrow> \<not> (whole_from 1 n \<and> whole_from 0 p \<and> p < n \<and> (case cap of None \<Rightarrow> True | Some c \<Rightarrow> whole_from 1 c))) \<and>
   (case resolveFinalGenerationTokenLimit n p of
      Inr g \<Rightarrow> of_int g = max 1 (n - p)
    | Inl _ \<Rightarrow> \<not> (whole_from 1 n \<and> whole_from 0 p))"
proof (cases "whole_from 1 n \<and> whole_from 0 p")
  case False
  then show ?thesis
    by (auto simp: resolveGenerationTokenLimit_def resolveFinalGenerationTokenLimit_def remaining_result)
next
  case True
  then obtain a b where ab: "n = of_int a" "p = of_int b" using whole_floor by metis
  have cap: "\<exists>k. c = of_int k" if "whole_from 1 c" for c using whole_floor [OF that] by blast
  show ?thesis
  proof (cases cap)
    case None
    then show ?thesis using True
      by (auto simp: ab resolveGenerationTokenLimit_def resolveFinalGenerationTokenLimit_def remaining_result max_def)
  next
    case (Some c)
    then show ?thesis using True cap [of c]
      by (auto simp: ab resolveGenerationTokenLimit_def resolveFinalGenerationTokenLimit_def remaining_result
          max_def min_def whole_from_def)
  qed
qed

lemma budget_result:
  assumes "newTurnBudget n r turns = Inr b"
  shows "1 \<le> tb_compactionReserveTokens b"
    "2 * tb_compactionReserveTokens b \<le> max 2 (tb_totalContextTokens b)"
    "tb_compactionReserveTokens b + tb_maxPromptTokens b = tb_totalContextTokens b"
proof -
  obtain t where t': "requirePositiveInteger ''totalContextTokens'' n = Inr t"
    using assms by (cases "requirePositiveInteger ''totalContextTokens'' n")
      (simp_all only: newTurnBudget_def resolveContextTokenBudget_def bind_result_simps sum.distinct)
  obtain q where q: "requirePositiveInteger ''compactionReserveTokens'' r = Inr q"
    using assms by (cases "requirePositiveInteger ''compactionReserveTokens'' r")
      (simp_all only: newTurnBudget_def resolveContextTokenBudget_def t' bind_result_simps sum.distinct)
  have "b = \<lparr>tb_totalContextTokens = t, tb_compactionReserveTokens = max 1 (min q (t div 2)),
      tb_maxPromptTokens = max 0 (t - max 1 (min q (t div 2))), tb_maxTurns = max 1 turns\<rparr>"
    using assms unfolding newTurnBudget_def resolveContextTokenBudget_def t' q half_floor Let_def bind_result_simps
      sum.inject context_budget.simps by (rule sym)
  then have b: "tb_totalContextTokens b = t" "tb_compactionReserveTokens b = max 1 (min q (t div 2))"
      "tb_maxPromptTokens b = max 0 (t - max 1 (min q (t div 2)))"
    by (simp_all only: turn_budget.simps)
  have t: "1 \<le> t" using t' by (simp add: requirePositiveInteger_Inr)
  show "1 \<le> tb_compactionReserveTokens b" unfolding b by simp
  show "2 * tb_compactionReserveTokens b \<le> max 2 (tb_totalContextTokens b)" unfolding b by linarith
  show "tb_compactionReserveTokens b + tb_maxPromptTokens b = tb_totalContextTokens b" unfolding b using t by linarith
qed

lemma floor_share: "0 < k \<Longrightarrow> of_int k * of_int \<lfloor>x / of_int k\<rfloor> \<le> (x :: rat)"
proof -
  assume k: "0 < k"
  then have "(0 :: rat) < of_int k" by simp
  moreover have "of_int \<lfloor>x / of_int k\<rfloor> \<le> x / of_int k" by (rule of_int_floor_le)
  ultimately have "of_int \<lfloor>x / of_int k\<rfloor> * of_int k \<le> x" by (simp only: pos_le_divide_eq)
  then show ?thesis by (simp only: mult.commute)
qed

text \<open>A turn's tool results stay within the turn's share. The window is the prompt budget plus a
  reserve of at least one token and at most half the window; a batch of calls together gets at most
  the share of the prompt budget that the turn has earned (or one token per call); and a call that is
  allowed to run has room for at least one token and for no more than the prompt budget still holds,
  while a call is refused exactly when nothing is left.\<close>

theorem turn_share_is_never_exceeded:
  assumes "newTurnBudget n r turns = Inr b" and "1 \<le> batch"
  shows "1 \<le> tb_compactionReserveTokens b \<and>
    2 * tb_compactionReserveTokens b \<le> max 2 (tb_totalContextTokens b) \<and>
    tb_compactionReserveTokens b + tb_maxPromptTokens b = tb_totalContextTokens b \<and>
    of_int (batch * perToolCapTokens b completed batch) \<le>
      max (of_int batch) (of_int (tb_maxPromptTokens b)
        * max MIN_TURN_TOOL_RESULT_RATIO (of_int completed / of_int (tb_maxTurns b))) \<and>
    (case resolveToolResultCapacity b prompt accepted completed batch of
       Exhausted \<Rightarrow> tb_maxPromptTokens b \<le> prompt + accepted
     | Available cap rest \<Rightarrow> 1 \<le> min cap rest \<and> prompt + accepted + min cap rest \<le> tb_maxPromptTokens b)"
proof -
  let ?x = "of_int (tb_maxPromptTokens b) * max MIN_TURN_TOOL_RESULT_RATIO (of_int completed / of_int (tb_maxTurns b))"
  have cap: "perToolCapTokens b completed batch = max 1 \<lfloor>?x / of_int batch\<rfloor>"
    using assms(2) by (simp add: perToolCapTokens_def Let_def)
  have "of_int (batch * \<lfloor>?x / of_int batch\<rfloor>) \<le> ?x" using floor_share [of batch ?x] assms(2) by simp
  then have share: "of_int (batch * perToolCapTokens b completed batch) \<le> max (of_int batch) ?x"
    unfolding cap by (cases "1 \<le> \<lfloor>?x / of_int batch\<rfloor>") (simp_all only: max_def if_True if_False mult_1_right split: if_splits, simp_all)
  have "1 \<le> perToolCapTokens b completed batch" by (simp add: perToolCapTokens_def Let_def)
  then have "case resolveToolResultCapacity b prompt accepted completed batch of
       Exhausted \<Rightarrow> tb_maxPromptTokens b \<le> prompt + accepted
     | Available cap rest \<Rightarrow> 1 \<le> min cap rest \<and> prompt + accepted + min cap rest \<le> tb_maxPromptTokens b"
    by (auto simp: resolveToolResultCapacity_def remainingToolAllowance_def Let_def)
  then show ?thesis using budget_result [OF assms(1)] share by blast
qed

theorem turn_share_is_never_exceeded_witness:
  "case newTurnBudget 32000 15000 45 of Inl _ \<Rightarrow> False
   | Inr b \<Rightarrow> tb_maxPromptTokens b = 17000 \<and>
       of_int (3 * perToolCapTokens b 9 3) \<le> max 3 (17000 * max MIN_TURN_TOOL_RESULT_RATIO (9 / 45))"
proof -
  obtain b where b: "newTurnBudget 32000 15000 45 = Inr b" "tb_maxPromptTokens b = 17000" "tb_maxTurns b = 45"
    by (simp add: newTurnBudget_def resolveContextTokenBudget_def requirePositiveInteger_def half_floor
        PROMPT_COMPACTION_RESERVE_MAX_CONTEXT_RATIO_def)
  from turn_share_is_never_exceeded [OF b(1), of 3 9 0 0] b show ?thesis by simp
qed

section \<open>What is kept of a tool's output\<close>

lemma fit_search_fits: "fits best \<or> best = 0 \<Longrightarrow> fits (fit_search fits low high best) \<or> fit_search fits low high best = 0"
proof (induction fits low high best rule: fit_search.induct)
  case (1 fits low high best)
  then show ?case by (subst (1 2) fit_search.simps) (auto simp: Let_def)
qed

lemma fit_search_le: "0 \<le> low \<Longrightarrow> fit_search fits low high best \<le> max best (nat high)"
proof (induction fits low high best rule: fit_search.induct)
  case (1 fits low high best)
  let ?mid = "(low + high) div 2"
  show ?case
  proof (cases "low \<le> high")
    case True
    then have mid: "0 \<le> ?mid" "?mid \<le> high" using "1.prems" by linarith+
    have "fit_search fits low high best =
        (if fits (nat ?mid) then fit_search fits (?mid + 1) high (nat ?mid) else fit_search fits low (?mid - 1) best)"
      using True by (subst fit_search.simps) (simp add: Let_def)
    moreover have "fits (nat ?mid) \<Longrightarrow> fit_search fits (?mid + 1) high (nat ?mid) \<le> max (nat ?mid) (nat high)"
      using "1.IH"(1) [OF True refl] mid(1) by simp
    moreover have "\<not> fits (nat ?mid) \<Longrightarrow> fit_search fits low (?mid - 1) best \<le> max best (nat (?mid - 1))"
      using "1.IH"(2) [OF True refl] "1.prems" by simp
    moreover have "max (nat ?mid) (nat high) \<le> max best (nat high)" "max best (nat (?mid - 1)) \<le> max best (nat high)"
      using mid by auto
    ultimately show ?thesis using order_trans by (cases "fits (nat ?mid)") (simp_all only: if_True if_False, blast+)
  qed (simp add: fit_search.simps)
qed

lemma fit_search_largest:
  assumes "\<And>j k. j \<le> k \<Longrightarrow> k \<le> n \<Longrightarrow> fits k \<Longrightarrow> fits j"
    and "low = int best + 1 \<or> low = 0 \<and> best = 0"
    and "\<And>k. high < int k \<Longrightarrow> k \<le> n \<Longrightarrow> \<not> fits k"
    and "fit_search fits low high best < k" and "k \<le> n"
  shows "\<not> fits k"
  using assms
proof (induction fits low high best rule: fit_search.induct)
  case (1 fits low high best)
  let ?mid = "(low + high) div 2"
  show ?case
  proof (cases "low \<le> high")
    case False
    then have "fit_search fits low high best = best" by (simp add: fit_search.simps)
    then show ?thesis using "1.prems" False by auto
  next
    case True
    have mid: "0 \<le> ?mid" "low \<le> ?mid" "?mid \<le> high" using "1.prems"(2) True by linarith+
    show ?thesis
    proof (cases "fits (nat ?mid)")
      case fit: True
      then have "fit_search fits low high best = fit_search fits (?mid + 1) high (nat ?mid)"
        using True by (subst fit_search.simps) (simp add: Let_def)
      then show ?thesis using "1.IH"(1) [OF True refl fit "1.prems"(1)] "1.prems"(3-5) mid(1) by simp
    next
      case unfit: False
      have "\<not> fits k" if "?mid - 1 < int k" "k \<le> n" for k
        using "1.prems"(1) [of "nat ?mid" k] unfit that mid(1) by linarith
      moreover have "fit_search fits low high best = fit_search fits low (?mid - 1) best"
        using True unfit by (subst fit_search.simps) (simp add: Let_def)
      ultimately show ?thesis using "1.IH"(2) [OF True refl unfit "1.prems"(1,2)] "1.prems"(4,5) by simp
    qed
  qed
qed

lemma fitSegments_bounded:
  "int (count (fr_visibleText (fitSegments count i))) \<le> max 1 (fi_maxTokens i) \<or> fr_returnedLineCount (fitSegments count i) = 0"
proof -
  let ?n = "length (fi_segments i)"
  let ?fits = "\<lambda>k. int (count (buildCandidate i k)) \<le> max 1 (max 1 (fi_maxTokens i) div 2)"
  have "max 1 (max 1 (fi_maxTokens i) div 2) \<le> max 1 (fi_maxTokens i)" by linarith
  then have "int (count (buildCandidate i (fit_search ?fits 0 (int ?n) 0))) \<le> max 1 (fi_maxTokens i)
      \<or> fit_search ?fits 0 (int ?n) 0 = 0"
    using fit_search_fits [of ?fits 0 0 "int ?n"] by linarith
  then show ?thesis by (simp add: fitSegments_def Let_def)
qed

text \<open>What a tool call adds to the transcript. The reported count is the count of the text that is
  kept, and it is within the call's capacity (within 1,024 tokens for a failed command), unless nothing
  of the output itself is kept; an output that already fits is kept unchanged.\<close>

theorem tool_result_within_capacity:
  "let r = fit_tool_result countTokens resultText rawResultText capacity succeeded outputUnit keep in
   ft_resultTokenCount r = fst (countTokens (ft_resultText r)) \<and>
   (int (ft_resultTokenCount r) \<le> max 1 (maxResultTokens capacity succeeded) \<or> ft_returnedSegmentCount r = Some 0) \<and>
   (if int (fst (countTokens resultText)) \<le> maxResultTokens capacity succeeded
    then ft_resultText r = resultText \<and> ft_returnedSegmentCount r = None else True)"
proof -
  define i where "i = \<lparr>fi_headerText = [], fi_segments = filter (\<lambda>line. length line > 0) (packet_lines resultText),
    fi_separator = [LF], fi_maxTokens = maxResultTokens capacity succeeded, fi_unit = outputUnit,
    fi_keep = (if succeeded then keep else KeepTail)\<rparr>"
  have "fi_maxTokens i = maxResultTokens capacity succeeded" by (simp add: i_def)
  with fitSegments_bounded [of "\<lambda>t. fst (countTokens t)" i] show ?thesis
    unfolding fit_tool_result_def Let_def i_def [symmetric]
    by (auto split: prod.splits)
qed

text \<open>Truncation keeps as much as half the budget holds. When the output does not fit, and a shorter
  selection never counts more tokens than a longer one, the kept segments are the longest selection
  from the chosen end whose text, with the notice, is within half of the limit, and the notice counts
  exactly the dropped ones.\<close>

theorem truncation_keeps_the_most:
  fixes i :: fit_input
  defines "n \<equiv> length (fi_segments i)" and "target \<equiv> max 1 (max 1 (fi_maxTokens i) div 2)"
  assumes monotone: "\<And>j k. j \<le> k \<Longrightarrow> k \<le> n \<Longrightarrow> count (buildCandidate i j) \<le> count (buildCandidate i k)"
    and full: "n \<noteq> 0" "max 1 (fi_maxTokens i) < int (count (buildCandidate i n))"
  shows "let r = fitSegments count i in
    fr_visibleText r = buildCandidate i (fr_returnedLineCount r) \<and>
    fr_returnedLineCount r + fr_truncatedLineCount r = n \<and> 0 < fr_truncatedLineCount r \<and>
    (\<forall>k. fr_returnedLineCount r < k \<and> k \<le> n \<longrightarrow> target < int (count (buildCandidate i k))) \<and>
    (int (count (buildCandidate i (fr_returnedLineCount r))) \<le> target \<or> fr_returnedLineCount r = 0)"
proof -
  let ?fits = "\<lambda>k. int (count (buildCandidate i k)) \<le> target"
  let ?best = "fit_search ?fits 0 (int n) 0"
  have r: "fitSegments count i = \<lparr>fr_visibleText = buildCandidate i ?best, fr_returnedLineCount = ?best,
      fr_truncatedLineCount = n - ?best, fr_truncationReason = Some ''per-tool context limit''\<rparr>"
  proof -
    have "\<not> int (count (buildCandidate i n)) \<le> max 1 (fi_maxTokens i)" using full(2) by linarith
    then show ?thesis using full(1) unfolding fitSegments_def Let_def n_def target_def by (simp only: if_False)
  qed
  have target: "target \<le> max 1 (fi_maxTokens i)" unfolding target_def by linarith
  have largest: "\<not> ?fits k" if "?best < k" "k \<le> n" for k
    by (rule fit_search_largest [of n ?fits 0 0 "int n"])
      (use monotone that in \<open>auto intro: order_trans [OF of_nat_mono]\<close>)
  have fits: "?fits ?best \<or> ?best = 0" by (rule fit_search_fits) simp
  have "?best \<le> n" using fit_search_le [of 0 ?fits "int n" 0] by simp
  moreover have "?best \<noteq> n"
  proof
    assume b: "?best = n"
    have "?fits n" using fits full(1) unfolding b by blast
    then show False using full(2) target by linarith
  qed
  ultimately have "?best < n" by simp
  moreover have "\<forall>k. ?best < k \<and> k \<le> n \<longrightarrow> target < int (count (buildCandidate i k))"
    using largest by (simp add: not_le)
  ultimately show ?thesis using fits unfolding r Let_def by simp
qed


definition example_fit :: fit_input where
  "example_fit = \<lparr>fi_headerText = [], fi_segments = [''zz'', ''zz'', ''zz''], fi_separator = [LF], fi_maxTokens = 4,
     fi_unit = ''lines'', fi_keep = KeepTail\<rparr>"

definition count_z :: "string \<Rightarrow> nat" where
  "count_z t = length (filter (\<lambda>c. c = CHR ''z'') t)"

lemma example_counts: "k < 4 \<Longrightarrow> count_z (buildCandidate example_fit k) = 2 * k"
proof -
  have "list_all (\<lambda>k. count_z (buildCandidate example_fit k) = 2 * k) [0, 1, 2, 3]" by code_simp
  then show "k < 4 \<Longrightarrow> ?thesis" by (auto simp: less_Suc_eq numeral_eq_Suc)
qed

theorem truncation_keeps_the_most_witness:
  "fr_returnedLineCount (fitSegments count_z example_fit) + fr_truncatedLineCount (fitSegments count_z example_fit) = 3
   \<and> 0 < fr_truncatedLineCount (fitSegments count_z example_fit)"
proof -
  have n: "length (fi_segments example_fit) = 3" "fi_maxTokens example_fit = 4" by (simp_all add: example_fit_def)
  have "count_z (buildCandidate example_fit j) \<le> count_z (buildCandidate example_fit k)"
    if "j \<le> k" "k \<le> length (fi_segments example_fit)" for j k
    using that n example_counts [of j] example_counts [of k] by simp
  from truncation_keeps_the_most [of example_fit count_z, OF this] show ?thesis
    using n example_counts [of 3] by (simp add: Let_def)
qed

end
