(* ===== verification/Loop_Control.thy ===== *)
theory Loop_Control
  imports Sift_Prelude
begin

text \<open>
  What stops a run that goes in circles: the memory of repeated calls
  (src/repo-search/engine/duplicate-tracker.ts), the forced finish
  (src/repo-search/engine/forced-finish.ts) and the way a turn's tool calls drive them
  (src/repo-search/engine/tool-action-processor.ts).
\<close>

section \<open>Repeated calls\<close>

definition DUPLICATE_FORCE_THRESHOLD :: nat where
  "DUPLICATE_FORCE_THRESHOLD = 5"

record duplicate_tracker =
  dt_successfulNormalizedKeys :: "string list"
  dt_successfulFingerprints :: "string list"
  dt_replayFingerprint :: "string option"
  dt_replayCount :: nat
  dt_replayToolCallId :: "nat option"

definition new_tracker :: duplicate_tracker where
  "new_tracker = \<lparr>dt_successfulNormalizedKeys = [], dt_successfulFingerprints = [], dt_replayFingerprint = None,
     dt_replayCount = 0, dt_replayToolCallId = None\<rparr>"

definition buildDuplicateFingerprint :: "string \<Rightarrow> string \<Rightarrow> string \<Rightarrow> string" where
  "buildDuplicateFingerprint toolName normalizedKey fingerprint =
     (if fingerprint = [] then toolName @ ''|'' @ normalizedKey else fingerprint)"

record duplicate_classification =
  dc_isExactDuplicate :: bool
  dc_isSemanticDuplicate :: bool
  dc_duplicateFingerprint :: string

definition classify :: "string \<Rightarrow> string \<Rightarrow> string \<Rightarrow> bool \<Rightarrow> duplicate_tracker \<Rightarrow> duplicate_classification" where
  "classify toolName normalizedKey fingerprint rejected d =
     (let exact = normalizedKey \<in> set (dt_successfulNormalizedKeys d) in
      \<lparr>dc_isExactDuplicate = exact,
       dc_isSemanticDuplicate = (\<not> exact \<and> \<not> rejected \<and> fingerprint \<noteq> [] \<and> fingerprint \<in> set (dt_successfulFingerprints d)),
       dc_duplicateFingerprint = buildDuplicateFingerprint toolName normalizedKey fingerprint\<rparr>)"

definition registerDuplicate ::
  "string \<Rightarrow> bool \<Rightarrow> duplicate_tracker \<Rightarrow> (nat \<times> nat option) \<times> duplicate_tracker" where
  "registerDuplicate duplicateFingerprint anchorAvailable d =
     (let isActiveReplay = (dt_replayFingerprint d = Some duplicateFingerprint \<and> anchorAvailable
            \<and> dt_replayToolCallId d \<noteq> None);
          d' = d\<lparr>dt_replayFingerprint := Some duplicateFingerprint,
                 dt_replayCount := (if isActiveReplay then dt_replayCount d + 1 else 2)\<rparr> in
      ((dt_replayCount d', if isActiveReplay then dt_replayToolCallId d' else None), d'))"

definition setReplayToolCallId :: "nat \<Rightarrow> duplicate_tracker \<Rightarrow> duplicate_tracker" where
  "setReplayToolCallId toolCallId d = d\<lparr>dt_replayToolCallId := Some toolCallId\<rparr>"

definition shouldForceFinish :: "duplicate_tracker \<Rightarrow> bool" where
  "shouldForceFinish d \<longleftrightarrow> dt_replayCount d \<ge> DUPLICATE_FORCE_THRESHOLD"

definition recordSuccess :: "string \<Rightarrow> string option \<Rightarrow> duplicate_tracker \<Rightarrow> duplicate_tracker" where
  "recordSuccess normalizedKey fingerprint d =
     d\<lparr>dt_replayFingerprint := None, dt_replayCount := 0, dt_replayToolCallId := None,
       dt_successfulNormalizedKeys := List.insert normalizedKey (dt_successfulNormalizedKeys d),
       dt_successfulFingerprints :=
         (case fingerprint of
            None \<Rightarrow> dt_successfulFingerprints d
          | Some f \<Rightarrow> if f = [] then dt_successfulFingerprints d else List.insert f (dt_successfulFingerprints d))\<rparr>"

definition forgetSuccesses :: "duplicate_tracker \<Rightarrow> duplicate_tracker" where
  "forgetSuccesses d = d\<lparr>dt_successfulNormalizedKeys := [], dt_successfulFingerprints := []\<rparr>"

section \<open>The forced finish\<close>

definition ZERO_OUTPUT_FORCE_THRESHOLD :: nat where
  "ZERO_OUTPUT_FORCE_THRESHOLD = 10"

definition FORCED_FINISH_MAX_ATTEMPTS :: nat where
  "FORCED_FINISH_MAX_ATTEMPTS = 3"

record forced_finish =
  ff_zeroOutputStreak :: nat
  ff_attemptsRemaining :: nat

definition new_forced_finish :: forced_finish where
  "new_forced_finish = \<lparr>ff_zeroOutputStreak = 0, ff_attemptsRemaining = 0\<rparr>"

definition isActive :: "forced_finish \<Rightarrow> bool" where
  "isActive f \<longleftrightarrow> ff_attemptsRemaining f > 0"

definition activateFromStagnation :: "forced_finish \<Rightarrow> forced_finish" where
  "activateFromStagnation f = f\<lparr>ff_attemptsRemaining := FORCED_FINISH_MAX_ATTEMPTS\<rparr>"

record forced_finish_attempt =
  fa_attemptsRemaining :: nat
  fa_rejectionReason :: string
  fa_countdownText :: string
  fa_exhausted :: bool

definition consumeAttempt :: "forced_finish \<Rightarrow> forced_finish_attempt \<times> forced_finish" where
  "consumeAttempt f =
     (let f' = f\<lparr>ff_attemptsRemaining := ff_attemptsRemaining f - 1\<rparr>; left = show_nat (ff_attemptsRemaining f') in
      (\<lparr>fa_attemptsRemaining = ff_attemptsRemaining f',
        fa_rejectionReason = ''Forced finish mode active. Return the final answer as plain content now. Attempts remaining: '' @ left @ ''.'',
        fa_countdownText = ''Forced finish attempts remaining: '' @ left @ ''. Return the final answer as plain content now.'',
        fa_exhausted = (ff_attemptsRemaining f' = 0)\<rparr>, f'))"

record zero_output_observation =
  zo_zeroOutputStreak :: nat
  zo_remainingBeforeForce :: nat
  zo_activated :: bool

definition recordToolOutput :: "nat \<Rightarrow> forced_finish \<Rightarrow> zero_output_observation \<times> forced_finish" where
  "recordToolOutput baseOutputLength f =
     (if baseOutputLength = 0 then
        let streak = ff_zeroOutputStreak f + 1; remaining = ZERO_OUTPUT_FORCE_THRESHOLD - streak;
            activated = (remaining = 0 \<and> ff_attemptsRemaining f = 0) in
        (\<lparr>zo_zeroOutputStreak = streak, zo_remainingBeforeForce = remaining, zo_activated = activated\<rparr>,
         f\<lparr>ff_zeroOutputStreak := streak,
           ff_attemptsRemaining := (if activated then FORCED_FINISH_MAX_ATTEMPTS else ff_attemptsRemaining f)\<rparr>)
      else
        (\<lparr>zo_zeroOutputStreak = 0, zo_remainingBeforeForce = ZERO_OUTPUT_FORCE_THRESHOLD, zo_activated = False\<rparr>,
         f\<lparr>ff_zeroOutputStreak := 0\<rparr>))"

section \<open>The calls of a turn\<close>

text \<open>A proposed call: its identity for the tracker, whether a repeat of it may go on (reading on, the
  granted full retry), whether its earlier full run is already complete, whether the transcript still
  holds the anchor's result, and what running it would yield.\<close>

record tool_call =
  tc_tool :: string
  tc_key :: string
  tc_fingerprint :: string
  tc_mayAdvance :: bool
  tc_completedRun :: bool
  tc_anchorInTranscript :: bool
  tc_outputLength :: nat
  tc_exitCode :: int
  tc_mutatesTree :: bool

record loop_state =
  lp_tracker :: duplicate_tracker
  lp_finish :: forced_finish
  lp_inForcedFinishMode :: bool
  lp_batchAnchor :: "nat option"
  lp_nextCallId :: nat
  lp_stopped :: bool
  lp_executed :: nat
  lp_consumed :: nat

definition new_loop :: loop_state where
  "new_loop = \<lparr>lp_tracker = new_tracker, lp_finish = new_forced_finish, lp_inForcedFinishMode = False,
     lp_batchAnchor = None, lp_nextCallId = 0, lp_stopped = False, lp_executed = 0, lp_consumed = 0\<rparr>"

definition prepareTurn :: "loop_state \<Rightarrow> loop_state" where
  "prepareTurn s = s\<lparr>lp_inForcedFinishMode := isActive (lp_finish s), lp_batchAnchor := None\<rparr>"

definition rejectAsDuplicate :: "tool_call \<Rightarrow> string \<Rightarrow> loop_state \<Rightarrow> loop_state" where
  "rejectAsDuplicate c duplicateFingerprint s =
     (let anchor = dt_replayToolCallId (lp_tracker s);
          ((count, active), d) = registerDuplicate duplicateFingerprint (anchor \<noteq> None \<and> tc_anchorInTranscript c) (lp_tracker s);
          s1 = s\<lparr>lp_tracker := d\<rparr>;
          s2 = (if active \<noteq> None then s1
                else s1\<lparr>lp_batchAnchor := Some (lp_nextCallId s1), lp_nextCallId := Suc (lp_nextCallId s1)\<rparr>) in
      if shouldForceFinish d \<and> \<not> isActive (lp_finish s2)
      then s2\<lparr>lp_finish := activateFromStagnation (lp_finish s2)\<rparr> else s2)"

definition execute_call :: "tool_call \<Rightarrow> loop_state \<Rightarrow> loop_state" where
  "execute_call c s =
     (let f = snd (recordToolOutput (tc_outputLength c) (lp_finish s));
          d1 = (if tc_mutatesTree c then forgetSuccesses (lp_tracker s) else lp_tracker s);
          d2 = (if tc_exitCode c = 0 then recordSuccess (tc_key c) (Some (tc_fingerprint c)) d1 else d1) in
      s\<lparr>lp_finish := f, lp_tracker := d2, lp_nextCallId := Suc (lp_nextCallId s), lp_executed := Suc (lp_executed s)\<rparr>)"

definition processToolAction :: "tool_call \<Rightarrow> loop_state \<Rightarrow> loop_state" where
  "processToolAction c s =
     (if lp_stopped s then s
      else if lp_inForcedFinishMode s then
        let (attempt, f) = consumeAttempt (lp_finish s) in
        s\<lparr>lp_finish := f, lp_stopped := fa_exhausted attempt, lp_consumed := Suc (lp_consumed s)\<rparr>
      else
        let k = classify (tc_tool c) (tc_key c) (tc_fingerprint c) False (lp_tracker s) in
        if \<not> tc_mayAdvance c \<and> (tc_completedRun c \<or> dc_isExactDuplicate k \<or> dc_isSemanticDuplicate k)
        then rejectAsDuplicate c (dc_duplicateFingerprint k) s
        else execute_call c s)"

definition finishTurn :: "loop_state \<Rightarrow> loop_state" where
  "finishTurn s =
     (case lp_batchAnchor s of
        None \<Rightarrow> s
      | Some i \<Rightarrow> s\<lparr>lp_tracker := setReplayToolCallId i (lp_tracker s)\<rparr>)"

definition run_turn :: "tool_call list \<Rightarrow> loop_state \<Rightarrow> loop_state" where
  "run_turn calls s = (if lp_stopped s then s else finishTurn (fold processToolAction calls (prepareTurn s)))"

section \<open>The forced finish is final\<close>

definition loop_ok :: "loop_state \<Rightarrow> bool" where
  "loop_ok s \<longleftrightarrow>
     (if lp_stopped s then lp_consumed s = 3 \<and> ff_attemptsRemaining (lp_finish s) = 0
      else if isActive (lp_finish s) then lp_consumed s + ff_attemptsRemaining (lp_finish s) = 3
      else lp_consumed s = 0)"

text \<open>Inside a turn that did not start in forced finish mode no attempt has been consumed yet.\<close>

definition turn_ok :: "loop_state \<Rightarrow> bool" where
  "turn_ok s \<longleftrightarrow> \<not> lp_stopped s \<and> \<not> lp_inForcedFinishMode s \<and> lp_consumed s = 0 \<and>
     ff_attemptsRemaining (lp_finish s) \<in> {0, 3}"

lemma reject_turn_ok: "turn_ok s \<Longrightarrow> turn_ok (rejectAsDuplicate c fp s)"
  by (auto simp: turn_ok_def rejectAsDuplicate_def Let_def activateFromStagnation_def FORCED_FINISH_MAX_ATTEMPTS_def
      split: prod.splits)

lemma execute_turn_ok: "turn_ok s \<Longrightarrow> turn_ok (execute_call c s)"
  by (auto simp: turn_ok_def execute_call_def Let_def recordToolOutput_def FORCED_FINISH_MAX_ATTEMPTS_def)

lemma process_turn_ok: "turn_ok s \<Longrightarrow> turn_ok (processToolAction c s)"
  using reject_turn_ok execute_turn_ok by (simp add: processToolAction_def Let_def turn_ok_def)

lemma turn_ok_loop_ok: "turn_ok s \<Longrightarrow> loop_ok s"
  by (auto simp: turn_ok_def loop_ok_def isActive_def)

lemma finishTurn_same [simp]:
  "lp_finish (finishTurn s) = lp_finish s" "lp_stopped (finishTurn s) = lp_stopped s"
  "lp_consumed (finishTurn s) = lp_consumed s" "lp_executed (finishTurn s) = lp_executed s"
  by (simp_all add: finishTurn_def split: option.splits)

lemma loop_ok_finishTurn [simp]: "loop_ok (finishTurn s) = loop_ok s"
  by (simp add: loop_ok_def)

lemma fold_turn_ok: "turn_ok s \<Longrightarrow> turn_ok (fold processToolAction calls s)"
  by (induction calls arbitrary: s) (simp_all add: process_turn_ok)

lemma forced_call:
  assumes "lp_inForcedFinishMode s" "\<not> lp_stopped s"
  shows "processToolAction c s = s\<lparr>lp_finish := lp_finish s\<lparr>ff_attemptsRemaining := ff_attemptsRemaining (lp_finish s) - 1\<rparr>,
    lp_stopped := (ff_attemptsRemaining (lp_finish s) \<le> 1), lp_consumed := Suc (lp_consumed s)\<rparr>"
  using assms by (simp add: processToolAction_def consumeAttempt_def Let_def)

lemma stopped_calls: "lp_stopped s \<Longrightarrow> fold processToolAction calls s = s"
  by (induction calls) (simp_all add: processToolAction_def)

lemma forced_calls:
  assumes "lp_inForcedFinishMode s" "\<not> lp_stopped s" "ff_attemptsRemaining (lp_finish s) = n" "0 < n"
  shows "lp_stopped (fold processToolAction calls s) = (n \<le> length calls) \<and>
    ff_attemptsRemaining (lp_finish (fold processToolAction calls s)) = n - length calls \<and>
    lp_consumed (fold processToolAction calls s) = lp_consumed s + min n (length calls) \<and>
    lp_executed (fold processToolAction calls s) = lp_executed s"
  using assms
proof (induction calls arbitrary: s n)
  case (Cons c cs)
  let ?s = "processToolAction c s"
  note step = forced_call [OF Cons.prems(1,2), of c]
  show ?case
  proof (cases "n \<le> 1")
    case True
    then have "fold processToolAction (c # cs) s = ?s" using Cons.prems step by (simp add: stopped_calls)
    then show ?thesis using True Cons.prems step by simp
  next
    case False
    have "lp_inForcedFinishMode ?s" "\<not> lp_stopped ?s" "ff_attemptsRemaining (lp_finish ?s) = n - 1" "0 < n - 1"
      using False Cons.prems step by simp_all
    from Cons.IH [OF this] show ?thesis using False Cons.prems step by auto
  qed
qed simp

lemma forced_turn:
  assumes "isActive (lp_finish s)" "\<not> lp_stopped s"
  shows "lp_stopped (run_turn calls s) = (ff_attemptsRemaining (lp_finish s) \<le> length calls) \<and>
    ff_attemptsRemaining (lp_finish (run_turn calls s)) = ff_attemptsRemaining (lp_finish s) - length calls \<and>
    lp_consumed (run_turn calls s) = lp_consumed s + min (ff_attemptsRemaining (lp_finish s)) (length calls) \<and>
    lp_executed (run_turn calls s) = lp_executed s"
  using forced_calls [of "prepareTurn s" "ff_attemptsRemaining (lp_finish s)" calls] assms
  by (simp add: run_turn_def prepareTurn_def isActive_def)

lemma run_turn_ok: "loop_ok s \<Longrightarrow> loop_ok (run_turn calls s)"
proof -
  assume ok: "loop_ok s"
  consider "lp_stopped s" | "\<not> lp_stopped s" "isActive (lp_finish s)" | "\<not> lp_stopped s" "\<not> isActive (lp_finish s)" by blast
  then show ?thesis
  proof cases
    case 1
    then show ?thesis using ok by (simp add: run_turn_def)
  next
    case 2
    then show ?thesis using forced_turn [OF 2(2,1), of calls] ok by (auto simp: loop_ok_def isActive_def)
  next
    case 3
    then have "turn_ok (prepareTurn s)" using ok by (simp add: turn_ok_def prepareTurn_def loop_ok_def isActive_def)
    then show ?thesis using 3 fold_turn_ok turn_ok_loop_ok by (simp add: run_turn_def)
  qed
qed

lemma new_loop_ok: "loop_ok new_loop"
  by (simp add: loop_ok_def new_loop_def new_forced_finish_def isActive_def)

interpretation turns: invariant_machine run_turn loop_ok
  by unfold_locales (rule run_turn_ok)

lemma stopped_run: "lp_stopped s \<Longrightarrow> run_events run_turn us s = s"
  by (induction us) (simp_all add: run_turn_def)

lemma forced_run:
  assumes "isActive (lp_finish s)" "\<not> lp_stopped s"
  shows "lp_stopped (run_events run_turn us s) = (ff_attemptsRemaining (lp_finish s) \<le> length (concat us)) \<and>
    lp_executed (run_events run_turn us s) = lp_executed s"
  using assms
proof (induction us arbitrary: s)
  case Nil
  then show ?case by (simp add: isActive_def)
next
  case (Cons u us)
  let ?s = "run_turn u s"
  note step = forced_turn [OF Cons.prems, of u]
  show ?case
  proof (cases "lp_stopped ?s")
    case True
    then show ?thesis using step by (simp add: stopped_run)
  next
    case False
    then have "isActive (lp_finish ?s)" using step by (simp add: isActive_def)
    from Cons.IH [OF this False] show ?thesis using step False by (auto simp: isActive_def)
  qed
qed

text \<open>A forced finish is final. However the turns of a run go, at most three tool calls are
  refused with a forced finish attempt, and the run is stopped exactly at the third; and once a turn
  ends with the forced finish active, no tool runs any more: the run stops exactly when the model has
  made as many further calls as attempts remain.\<close>

theorem forced_finish_is_final:
  "let s = run_events run_turn ts new_loop; t = run_events run_turn us s in
     lp_consumed s \<le> 3 \<and> lp_stopped s = (lp_consumed s = 3) \<and>
     (if isActive (lp_finish s)
      then lp_executed t = lp_executed s \<and>
        lp_stopped t = (ff_attemptsRemaining (lp_finish s) \<le> length (concat us))
      else True)"
proof -
  let ?s = "run_events run_turn ts new_loop"
  have ok: "loop_ok ?s" by (rule turns.inv_run [OF new_loop_ok])
  show ?thesis
  proof (cases "isActive (lp_finish ?s)")
    case True
    then have "\<not> lp_stopped ?s" using ok by (auto simp: loop_ok_def isActive_def split: if_splits)
    from forced_run [OF True this, of us] ok True this show ?thesis
      by (auto simp: Let_def loop_ok_def isActive_def)
  next
    case False
    then show ?thesis using ok by (auto simp: Let_def loop_ok_def split: if_splits)
  qed
qed

section \<open>A repeated call stops the run\<close>

text \<open>A call that already succeeded, that may not go on, and whose rejection stays in the transcript.\<close>

definition plain_repeat :: "tool_call \<Rightarrow> loop_state \<Rightarrow> bool" where
  "plain_repeat c s \<longleftrightarrow> \<not> tc_mayAdvance c \<and> tc_anchorInTranscript c \<and>
     tc_key c \<in> set (dt_successfulNormalizedKeys (lp_tracker s))"

definition repeat_print :: "tool_call \<Rightarrow> string" where
  "repeat_print c = buildDuplicateFingerprint (tc_tool c) (tc_key c) (tc_fingerprint c)"

text \<open>The state after m rejections of the call in as many turns, the forced finish not yet active.\<close>

definition repeated :: "tool_call \<Rightarrow> nat \<Rightarrow> loop_state \<Rightarrow> bool" where
  "repeated c m s \<longleftrightarrow> plain_repeat c s \<and> \<not> lp_stopped s \<and> ff_attemptsRemaining (lp_finish s) = 0 \<and>
     (if m = 0 then dt_replayFingerprint (lp_tracker s) \<noteq> Some (repeat_print c)
      else dt_replayFingerprint (lp_tracker s) = Some (repeat_print c) \<and>
        dt_replayToolCallId (lp_tracker s) \<noteq> None \<and> dt_replayCount (lp_tracker s) = m + 1)"

lemma repeat_rejected:
  "plain_repeat c s \<Longrightarrow> \<not> lp_stopped s \<Longrightarrow> ff_attemptsRemaining (lp_finish s) = 0 \<Longrightarrow>
     run_turn [c] s = finishTurn (rejectAsDuplicate c (repeat_print c) (prepareTurn s))"
  by (simp add: run_turn_def processToolAction_def prepareTurn_def isActive_def classify_def plain_repeat_def
      repeat_print_def Let_def)

lemma repeated_step:
  assumes "repeated c m s"
  shows "if m < 3 then repeated c (Suc m) (run_turn [c] s)
    else m = 3 \<longrightarrow> ff_attemptsRemaining (lp_finish (run_turn [c] s)) = 3 \<and> \<not> lp_stopped (run_turn [c] s)"
    and "lp_executed (run_turn [c] s) = lp_executed s"
proof -
  have r: "plain_repeat c s" "\<not> lp_stopped s" "ff_attemptsRemaining (lp_finish s) = 0"
    using assms by (simp_all add: repeated_def)
  show "if m < 3 then repeated c (Suc m) (run_turn [c] s)
    else m = 3 \<longrightarrow> ff_attemptsRemaining (lp_finish (run_turn [c] s)) = 3 \<and> \<not> lp_stopped (run_turn [c] s)"
    using assms unfolding repeat_rejected [OF r]
    by (cases m) (auto simp: repeated_def plain_repeat_def rejectAsDuplicate_def registerDuplicate_def prepareTurn_def
        finishTurn_def setReplayToolCallId_def shouldForceFinish_def DUPLICATE_FORCE_THRESHOLD_def isActive_def
        activateFromStagnation_def FORCED_FINISH_MAX_ATTEMPTS_def Let_def)
  show "lp_executed (run_turn [c] s) = lp_executed s"
    unfolding repeat_rejected [OF r]
    by (auto simp: rejectAsDuplicate_def prepareTurn_def Let_def split: prod.splits)
qed

lemma repeated_turns:
  "repeated c 0 s \<Longrightarrow> n \<le> 3 \<Longrightarrow> repeated c n (run_events run_turn (replicate n [c]) s) \<and>
     lp_executed (run_events run_turn (replicate n [c]) s) = lp_executed s"
proof (induction n)
  case (Suc n)
  let ?t = "run_events run_turn (replicate n [c]) s"
  have t: "repeated c n ?t" "lp_executed ?t = lp_executed s" using Suc by auto
  have "run_events run_turn (replicate (Suc n) [c]) s = run_turn [c] ?t"
    by (simp only: replicate_Suc replicate_append_same [symmetric] run_events_simps)
  then show ?case using repeated_step [OF t(1)] t(2) Suc.prems(2) by (auto split: if_splits)
qed simp

text \<open>A model that keeps repeating one call is stopped. From any turn boundary without a forced
  finish, a call that has already succeeded and is proposed again turn after turn is never run: the
  fourth repeat starts the forced finish, three more refused calls exhaust it, and the run is stopped
  by the seventh repeat and not before.\<close>

theorem repeated_call_stops_the_run:
  assumes "repeated c 0 s"
  shows "lp_stopped (run_events run_turn (replicate n [c]) s) = (7 \<le> n) \<and>
    lp_executed (run_events run_turn (replicate n [c]) s) = lp_executed s"
proof -
  let ?r = "\<lambda>n. run_events run_turn (replicate n [c]) s"
  have low: "\<not> lp_stopped (?r n)" "lp_executed (?r n) = lp_executed s" if "n \<le> 3" for n
    using repeated_turns [OF assms that] by (auto simp: repeated_def)
  note r3 = repeated_turns [OF assms order_refl]
  let ?t = "run_turn [c] (?r 3)"
  have t: "isActive (lp_finish ?t)" "\<not> lp_stopped ?t" "ff_attemptsRemaining (lp_finish ?t) = 3"
    "lp_executed ?t = lp_executed s"
    using repeated_step [of c 3 "?r 3"] r3 by (auto simp: isActive_def)
  have late: "?r n = run_events run_turn (replicate (n - 4) [c]) ?t" if "4 \<le> n" for n
  proof -
    have "n = 3 + Suc (n - 4)" using that by simp
    then have "replicate n [c] = replicate (3 + Suc (n - 4)) [c]" by (rule arg_cong)
    also have "\<dots> = replicate 3 [c] @ [c] # replicate (n - 4) [c]" by (simp only: replicate_add) simp
    finally have "replicate n [c] = replicate 3 [c] @ [c] # replicate (n - 4) [c]" .
    then show ?thesis by simp
  qed
  have len: "length (concat (replicate k [c])) = k" for k by (induction k) auto
  show ?thesis
  proof (cases "4 \<le> n")
    case True
    then show ?thesis using forced_run [OF t(1,2), of "replicate (n - 4) [c]"] t(3,4) late [OF True] len by auto
  next
    case False
    then show ?thesis using low by simp
  qed
qed

definition example_call :: tool_call where
  "example_call = \<lparr>tc_tool = ''grep'', tc_key = ''grep x'', tc_fingerprint = [], tc_mayAdvance = False,
     tc_completedRun = False, tc_anchorInTranscript = True, tc_outputLength = 9, tc_exitCode = 0, tc_mutatesTree = False\<rparr>"

theorem repeated_call_stops_the_run_witness:
  "lp_stopped (run_events run_turn (replicate 7 [example_call]) (run_turn [example_call] new_loop)) \<and>
   \<not> lp_stopped (run_events run_turn (replicate 6 [example_call]) (run_turn [example_call] new_loop))"
proof -
  have "repeated example_call 0 (run_turn [example_call] new_loop)" by code_simp
  from repeated_call_stops_the_run [OF this, of 7] repeated_call_stops_the_run [OF this, of 6] show ?thesis by simp
qed

end
