(* ===== verification/Crc32.thy ===== *)
theory Crc32
  imports "HOL-Library.Word" Sift_Prelude
begin

text \<open>
  The checksum of the archives (src/lib/zip.ts): the table-driven CRC-32 on 32-bit words, its
  equivalence with the bitwise definition, and the fact the reader's check rests on: a change of one
  byte changes the checksum.
\<close>

unbundle bit_operations_syntax

type_synonym byte = "8 word"
type_synonym u32 = "32 word"

section \<open>The code\<close>

text \<open>One step of the loop that fills the table.\<close>

definition crc_bit :: "u32 \<Rightarrow> u32" where
  "crc_bit crc = (if crc AND 1 = 1 then 0xedb88320 XOR drop_bit 1 crc else drop_bit 1 crc)"

definition CRC_TABLE :: "u32 list" where
  "CRC_TABLE = map (\<lambda>index. (crc_bit ^^ 8) (of_nat index)) [0..<256]"

definition CRC32_SEED :: u32 where
  "CRC32_SEED = 0xffffffff"

definition crc_next :: "byte \<Rightarrow> u32 \<Rightarrow> u32" where
  "crc_next b crc = CRC_TABLE ! unat ((crc XOR ucast b) AND 0xff) XOR drop_bit 8 crc"

definition crc32Update :: "u32 \<Rightarrow> byte list \<Rightarrow> u32" where
  "crc32Update crc data = fold crc_next data crc"

definition crc32Finish :: "u32 \<Rightarrow> u32" where
  "crc32Finish crc = crc XOR 0xffffffff"

definition crc32 :: "byte list \<Rightarrow> u32" where
  "crc32 data = crc32Finish (crc32Update CRC32_SEED data)"

lemma crc32Update_append: "crc32Update crc (xs @ ys) = crc32Update (crc32Update crc xs) ys"
  by (simp add: crc32Update_def)

lemma crc32Update_concat: "fold (\<lambda>xs crc. crc32Update crc xs) xss crc = crc32Update crc (concat xss)"
  by (induction xss arbitrary: crc) (simp_all add: crc32Update_append, simp add: crc32Update_def)

section \<open>The table computes the bitwise definition\<close>

lemma and_one_eq: "(x :: u32) AND 1 = (if bit x 0 then 1 else 0)"
  by (rule bit_word_eqI) (auto simp: bit_simps intro: gr0I)

lemma crc_bit_if: "crc_bit x = (if bit x 0 then 0xedb88320 XOR drop_bit 1 x else drop_bit 1 x)"
  by (simp add: crc_bit_def and_one_eq)

lemma crc_bit_xor: "crc_bit (x XOR y) = crc_bit x XOR crc_bit y"
proof -
  have d: "drop_bit 1 (x XOR y) = drop_bit 1 x XOR drop_bit 1 y" by (rule drop_bit_xor)
  have c: "bit (x XOR y) 0 \<longleftrightarrow> bit x 0 \<noteq> bit y 0" by (simp add: bit_simps)
  show ?thesis unfolding crc_bit_if d c
    by (cases "bit x 0"; cases "bit y 0") (simp_all add: ac_simps xor.left_commute)
qed

lemma crc_bits_xor: "(crc_bit ^^ n) (x XOR y) = (crc_bit ^^ n) x XOR (crc_bit ^^ n) y"
  by (induction n) (simp_all add: crc_bit_xor)

lemma crc_bits_high: "(\<And>i. i < n \<Longrightarrow> \<not> bit x i) \<Longrightarrow> (crc_bit ^^ n) x = drop_bit n x"
proof (induction n)
  case (Suc n)
  have "(crc_bit ^^ Suc n) x = crc_bit (drop_bit n x)" using Suc by simp
  moreover have "\<not> bit (drop_bit n x) 0" using Suc.prems [of n] by (simp add: bit_simps)
  ultimately have "(crc_bit ^^ Suc n) x = drop_bit 1 (drop_bit n x)" by (simp only: crc_bit_if if_False)
  then show ?case by (simp only: drop_bit_drop_bit plus_1_eq_Suc add.commute)
qed simp

lemma low_high: "(x :: u32) = (x AND mask 8) XOR push_bit 8 (drop_bit 8 x)"
  by (rule bit_word_eqI) (auto simp: bit_simps)

lemma drop_push_drop: "drop_bit 8 (push_bit 8 (drop_bit 8 (x :: u32))) = drop_bit 8 x"
proof (rule bit_word_eqI)
  fix n
  have "bit x (8 + n) \<Longrightarrow> 8 + n < 32" using bit_imp_le_length [of x "8 + n"] by simp
  then show "bit (drop_bit 8 (push_bit 8 (drop_bit 8 x))) n = bit (drop_bit 8 x) n"
    by (auto simp: bit_simps)
qed

lemma mask_byte: "(0xff :: u32) = mask 8"
  by (simp add: mask_eq_exp_minus_1)

lemma table_entry: "CRC_TABLE ! unat ((x :: u32) AND mask 8) = (crc_bit ^^ 8) (x AND mask 8)"
proof -
  have "x AND mask 8 \<le> mask 8" by (rule word_and_le1)
  then have "unat (x AND mask 8) < 256" by (simp add: word_le_nat_alt mask_eq_exp_minus_1)
  then show ?thesis by (simp add: CRC_TABLE_def del: funpow.simps)
qed

lemma crc_next_bitwise: "crc_next b crc = (crc_bit ^^ 8) (crc XOR ucast b)"
proof -
  let ?x = "crc XOR ucast b :: u32"
  have high: "(crc_bit ^^ 8) (push_bit 8 (drop_bit 8 ?x)) = drop_bit 8 ?x"
    by (subst crc_bits_high) (simp only: bit_push_bit_iff not_le, simp, rule drop_push_drop)
  have "\<not> bit b (8 + n)" for n using bit_imp_le_length [of b "8 + n"] by auto
  then have drop: "drop_bit 8 ?x = drop_bit 8 crc"
    by (intro bit_word_eqI) (auto simp: bit_simps)
  have "(crc_bit ^^ 8) ?x = (crc_bit ^^ 8) ((?x AND mask 8) XOR push_bit 8 (drop_bit 8 ?x))"
    by (simp only: low_high [of ?x, symmetric])
  also have "\<dots> = (crc_bit ^^ 8) (?x AND mask 8) XOR drop_bit 8 crc"
    by (simp only: crc_bits_xor high) (simp only: drop flip: crc_bits_xor)
  finally show ?thesis unfolding crc_next_def mask_byte table_entry by (rule sym)
qed

text \<open>CRC-32 one bit at a time, without a table.\<close>

definition crc32_bitwise :: "byte list \<Rightarrow> u32" where
  "crc32_bitwise data = fold (\<lambda>b crc. (crc_bit ^^ 8) (crc XOR ucast b)) data 0xffffffff XOR 0xffffffff"

section \<open>One changed byte changes the checksum\<close>

lemma crc_bit_zero: "crc_bit x = 0 \<Longrightarrow> x = 0"
proof (rule ccontr)
  assume z: "crc_bit x = 0" and n: "x \<noteq> 0"
  show False
  proof (cases "bit x 0")
    case True
    then have "0xedb88320 XOR drop_bit 1 x = 0" using z by (simp only: crc_bit_if if_True)
    then have "bit (0xedb88320 XOR drop_bit 1 x) 31 = bit (0 :: u32) 31" by (simp only:)
    moreover have "\<not> bit x 32" using bit_imp_le_length [of x 32] by auto
    ultimately show False by (simp add: bit_simps)
  next
    case False
    then have d: "drop_bit 1 x = 0" using z by (simp add: crc_bit_if)
    have "x = 0"
    proof (rule bit_word_eqI)
      fix n assume "n < LENGTH(32)"
      show "bit x n = bit 0 n"
        using False arg_cong [OF d, of "\<lambda>w. bit w (n - 1)"] by (cases n) (simp_all add: bit_simps)
    qed
    then show False using n by simp
  qed
qed

lemma xor_zero_iff: "(x :: 'a::len word) XOR y = 0 \<longleftrightarrow> x = y"
  by (auto simp: bit_eq_iff bit_simps)

lemma crc_bits_inj: "(crc_bit ^^ n) x = (crc_bit ^^ n) y \<longleftrightarrow> x = y"
proof -
  have zero: "(crc_bit ^^ n) z = 0 \<Longrightarrow> z = 0" for z
    by (induction n) (auto dest: crc_bit_zero)
  have "(crc_bit ^^ n) x = (crc_bit ^^ n) y \<longleftrightarrow> (crc_bit ^^ n) (x XOR y) = 0"
    by (simp only: crc_bits_xor xor_zero_iff)
  also have "\<dots> \<longrightarrow> x = y" using zero xor_zero_iff by blast
  finally show ?thesis by blast
qed

lemma xor_cancel: "(x :: 'a::len word) XOR z = y XOR z \<longleftrightarrow> x = y" "z XOR x = z XOR y \<longleftrightarrow> x = y"
  by (auto simp: bit_eq_iff bit_simps)

lemma ucast_byte_inj: "ucast (a :: byte) = (ucast b :: u32) \<longleftrightarrow> a = b"
proof
  assume eq: "ucast a = (ucast b :: u32)"
  show "a = b"
  proof (rule bit_word_eqI)
    fix n assume "n < LENGTH(8)"
    then show "bit a n = bit b n" using arg_cong [OF eq, of "\<lambda>w. bit w n"] by (simp add: bit_simps)
  qed
qed simp

lemma crc_next_inj: "crc_next b x = crc_next b y \<longleftrightarrow> x = y"
  by (simp add: crc_next_bitwise crc_bits_inj xor_cancel del: funpow.simps)

lemma crc_next_byte: "crc_next a x = crc_next b x \<longleftrightarrow> a = b"
  by (simp add: crc_next_bitwise crc_bits_inj xor_cancel ucast_byte_inj del: funpow.simps)

lemma crc32Update_inj: "crc32Update x data = crc32Update y data \<longleftrightarrow> x = y"
  by (induction data arbitrary: x y) (simp_all add: crc32Update_def crc_next_inj)

lemma crc32_one_byte: "crc32 (xs @ a # ys) = crc32 (xs @ b # ys) \<longleftrightarrow> a = b"
  by (simp add: crc32_def crc32Finish_def xor_cancel crc32Update_append)
    (simp add: crc32Update_def crc_next_byte crc32Update_inj [unfolded crc32Update_def])

text \<open>The table-driven checksum, folded over any number of chunks, is the bitwise CRC-32 of all
  their bytes: the sums of crc32Update that the streaming reader and writer compute are the sum of
  the whole payload.\<close>

theorem chunked_crc_is_bitwise_crc:
  "crc32Finish (fold (\<lambda>chunk crc. crc32Update crc chunk) chunks CRC32_SEED) = crc32_bitwise (concat chunks)"
  unfolding crc32Update_concat
  unfolding crc32Update_def crc32_bitwise_def crc32Finish_def CRC32_SEED_def crc_next_bitwise [abs_def] ..

end
