(* ===== verification/Text_Encoding.thy ===== *)
theory Text_Encoding
  imports Crc32
begin

text \<open>
  Text files and text in archives: the encodings of src/lib/text-encoding.ts and the UTF-8 of
  Node's buffers. A JavaScript string is here the list of its 16-bit code units, surrogates
  included; a buffer is a list of bytes.
\<close>

type_synonym units = "nat list"

section \<open>UTF-8 and UTF-16\<close>

definition REPLACEMENT :: nat where
  "REPLACEMENT = 0xFFFD"

definition high_surrogate :: "nat \<Rightarrow> bool" where
  "high_surrogate u \<longleftrightarrow> 0xD800 \<le> u \<and> u < 0xDC00"

definition low_surrogate :: "nat \<Rightarrow> bool" where
  "low_surrogate u \<longleftrightarrow> 0xDC00 \<le> u \<and> u < 0xE000"

text \<open>The code points of a string; a surrogate without its pair counts as U+FFFD.\<close>

fun code_points :: "units \<Rightarrow> nat list" where
  "code_points [] = []"
| "code_points (u # us) =
     (if high_surrogate u then
        (case us of
           [] \<Rightarrow> [REPLACEMENT]
         | v # vs \<Rightarrow>
             if low_surrogate v then (0x10000 + (u - 0xD800) * 0x400 + (v - 0xDC00)) # code_points vs
             else REPLACEMENT # code_points us)
      else if low_surrogate u then REPLACEMENT # code_points us
      else u # code_points us)"

definition point_units :: "nat \<Rightarrow> units" where
  "point_units p =
     (if p < 0x10000 then [p] else [0xD800 + (p - 0x10000) div 0x400, 0xDC00 + (p - 0x10000) mod 0x400])"

definition utf8_point :: "nat \<Rightarrow> nat list" where
  "utf8_point p =
     (if p < 0x80 then [p]
      else if p < 0x800 then [0xC0 + p div 64, 0x80 + p mod 64]
      else if p < 0x10000 then [0xE0 + p div 4096, 0x80 + p div 64 mod 64, 0x80 + p mod 64]
      else [0xF0 + p div 262144, 0x80 + p div 4096 mod 64, 0x80 + p div 64 mod 64, 0x80 + p mod 64])"

definition utf8_tail :: "nat \<Rightarrow> bool" where
  "utf8_tail b \<longleftrightarrow> 0x80 \<le> b \<and> b < 0xC0"

text \<open>The second byte of a three- or four-byte sequence: no overlong form, no surrogate, nothing
  above U+10FFFF.\<close>

definition utf8_second :: "nat \<Rightarrow> nat \<Rightarrow> bool" where
  "utf8_second b c \<longleftrightarrow>
     utf8_tail c \<and> (b = 0xE0 \<longrightarrow> 0xA0 \<le> c) \<and> (b = 0xED \<longrightarrow> c < 0xA0) \<and>
     (b = 0xF0 \<longrightarrow> 0x90 \<le> c) \<and> (b = 0xF4 \<longrightarrow> c < 0x90)"

text \<open>The decoder: each longest malformed piece becomes one U+FFFD.\<close>

fun utf8_points :: "nat list \<Rightarrow> nat list" where
  "utf8_points [] = []"
| "utf8_points (b # bs) =
     (if b < 0x80 then b # utf8_points bs
      else if 0xC2 \<le> b \<and> b < 0xE0 then
        (case bs of
           c # cs \<Rightarrow> if utf8_tail c then ((b - 0xC0) * 64 + (c - 0x80)) # utf8_points cs
                     else REPLACEMENT # utf8_points bs
         | [] \<Rightarrow> [REPLACEMENT])
      else if 0xE0 \<le> b \<and> b < 0xF0 then
        (case bs of
           c # cs \<Rightarrow>
             if utf8_second b c then
               (case cs of
                  d # ds \<Rightarrow> if utf8_tail d
                             then ((b - 0xE0) * 4096 + (c - 0x80) * 64 + (d - 0x80)) # utf8_points ds
                             else REPLACEMENT # utf8_points cs
                | [] \<Rightarrow> [REPLACEMENT])
             else REPLACEMENT # utf8_points bs
         | [] \<Rightarrow> [REPLACEMENT])
      else if 0xF0 \<le> b \<and> b < 0xF5 then
        (case bs of
           c # cs \<Rightarrow>
             if utf8_second b c then
               (case cs of
                  d # ds \<Rightarrow>
                    if utf8_tail d then
                      (case ds of
                         e # es \<Rightarrow>
                           if utf8_tail e
                           then ((b - 0xF0) * 262144 + (c - 0x80) * 4096 + (d - 0x80) * 64 + (e - 0x80))
                                # utf8_points es
                           else REPLACEMENT # utf8_points ds
                       | [] \<Rightarrow> [REPLACEMENT])
                    else REPLACEMENT # utf8_points cs
                | [] \<Rightarrow> [REPLACEMENT])
             else REPLACEMENT # utf8_points bs
         | [] \<Rightarrow> [REPLACEMENT])
      else REPLACEMENT # utf8_points bs)"

definition utf8_encode :: "units \<Rightarrow> byte list" where
  "utf8_encode s = map of_nat (concat (map utf8_point (code_points s)))"

definition utf8_decode :: "byte list \<Rightarrow> units" where
  "utf8_decode bs = concat (map point_units (utf8_points (map unat bs)))"

text \<open>\<open>toString('utf16le')\<close>: a last odd byte is dropped.\<close>

fun utf16le_decode :: "byte list \<Rightarrow> units" where
  "utf16le_decode (a # b # bs) = (unat a + 256 * unat b) # utf16le_decode bs"
| "utf16le_decode _ = []"

section \<open>The reader of text files\<close>

datatype SupportedTextEncoding = Utf8 | Utf16le | Utf16be

definition null_slots :: "nat \<Rightarrow> byte list \<Rightarrow> nat" where
  "null_slots r sample = length (filter (\<lambda>(i, b). b = 0 \<and> i mod 2 = r) (enumerate 0 sample))"

definition detectEncoding :: "byte list \<Rightarrow> SupportedTextEncoding" where
  "detectEncoding buffer =
     (if take 2 buffer = [0xff, 0xfe] then Utf16le
      else if take 2 buffer = [0xfe, 0xff] then Utf16be
      else if length buffer < 8 then Utf8
      else
        let sampleLength = min (length buffer) 4096; sample = take sampleLength buffer;
            evenSlots = (sampleLength + 1) div 2; oddSlots = sampleLength div 2;
            evenNulls = null_slots 0 sample; oddNulls = null_slots 1 sample in
        if 2 * oddSlots \<le> 5 * oddNulls \<and> 10 * evenNulls \<le> evenSlots then Utf16le
        else if 2 * evenSlots \<le> 5 * evenNulls \<and> 10 * oddNulls \<le> oddSlots then Utf16be
        else Utf8)"

text \<open>The loop that swaps the bytes of big-endian text, over an even number of bytes.\<close>

fun swap_pairs :: "byte list \<Rightarrow> byte list" where
  "swap_pairs (a # b # bs) = b # a # swap_pairs bs"
| "swap_pairs _ = []"

definition decodeTextBuffer :: "byte list \<Rightarrow> units" where
  "decodeTextBuffer buffer =
     (case detectEncoding buffer of
        Utf16le \<Rightarrow> utf16le_decode (if take 2 buffer = [0xff, 0xfe] then drop 2 buffer else buffer)
      | Utf16be \<Rightarrow>
          utf16le_decode (swap_pairs (if take 2 buffer = [0xfe, 0xff] then drop 2 buffer else buffer))
      | Utf8 \<Rightarrow>
          let decoded = utf8_decode buffer in if take 1 decoded = [0xfeff] then drop 1 decoded else decoded)"

text \<open>\<open>replace(/\\r\\n/gu, '\\n')\<close>.\<close>

fun crlf_to_lf :: "units \<Rightarrow> units" where
  "crlf_to_lf [] = []"
| "crlf_to_lf (c # s) = (if c = 13 \<and> s \<noteq> [] \<and> hd s = 10 then crlf_to_lf s else c # crlf_to_lf s)"

definition readSourceText :: "byte list \<Rightarrow> units" where
  "readSourceText content = crlf_to_lf (decodeTextBuffer content)"

datatype SourceEolStyle = Lf | Crlf

text \<open>The matches of \<open>/\\r?\\n/gu\<close>: for each, whether it is a CRLF.\<close>

fun newline_matches :: "units \<Rightarrow> bool list" where
  "newline_matches [] = []"
| "newline_matches (c # s) =
     (if c = 10 then False # newline_matches s
      else if c = 13 \<and> s \<noteq> [] \<and> hd s = 10 then True # newline_matches (tl s)
      else newline_matches s)"

definition detectEolStyle :: "units \<Rightarrow> SourceEolStyle" where
  "detectEolStyle rawText =
     (let newlines = newline_matches rawText in
      if 0 < length newlines \<and> list_all (\<lambda>crlf. crlf) newlines then Crlf else Lf)"

definition applyEolStyle :: "units \<Rightarrow> SourceEolStyle \<Rightarrow> units" where
  "applyEolStyle t style =
     (let normalized = crlf_to_lf t in
      case style of
        Crlf \<Rightarrow> concat (map (\<lambda>c. if c = 10 then [13, 10] else [c]) normalized)
      | Lf \<Rightarrow> normalized)"

section \<open>UTF-8 round trip\<close>

text \<open>Well-formed strings: code units below 65536, every surrogate in a pair.\<close>

fun well_formed :: "units \<Rightarrow> bool" where
  "well_formed [] = True"
| "well_formed (u # us) =
     (if high_surrogate u then (case us of [] \<Rightarrow> False | v # vs \<Rightarrow> low_surrogate v \<and> well_formed vs)
      else u < 0x10000 \<and> \<not> low_surrogate u \<and> well_formed us)"

definition scalar :: "nat \<Rightarrow> bool" where
  "scalar p \<longleftrightarrow> p < 0x110000 \<and> \<not> high_surrogate p \<and> \<not> low_surrogate p"

lemma utf8_lead:
  "2 \<le> a \<Longrightarrow> a < 32 \<Longrightarrow> b < 64 \<Longrightarrow>
     utf8_points ((0xC0 + a) # (0x80 + b) # bs) = (a * 64 + b) # utf8_points bs"
  "a < 16 \<Longrightarrow> utf8_second (0xE0 + a) (0x80 + b) \<Longrightarrow> c < 64 \<Longrightarrow>
     utf8_points ((0xE0 + a) # (0x80 + b) # (0x80 + c) # bs) = (a * 4096 + b * 64 + c) # utf8_points bs"
  "a < 5 \<Longrightarrow> utf8_second (0xF0 + a) (0x80 + b) \<Longrightarrow> c < 64 \<Longrightarrow> d < 64 \<Longrightarrow>
     utf8_points ((0xF0 + a) # (0x80 + b) # (0x80 + c) # (0x80 + d) # bs) =
       (a * 262144 + b * 4096 + c * 64 + d) # utf8_points bs"
  by (simp_all add: utf8_tail_def)

lemma digit_split: "(p :: nat) = p div 64 * 64 + p mod 64" "p mod 64 < 64"
  by simp_all

lemma utf8_three:
  assumes "0x800 \<le> p" "p < 0x10000" "\<not> high_surrogate p" "\<not> low_surrogate p"
  shows "utf8_points (utf8_point p @ bs) = p # utf8_points bs"
proof -
  obtain a b c where d: "a = p div 4096" "b = p div 64 mod 64" "c = p mod 64" by simp
  have "p div 64 div 64 = a" unfolding d by (simp only: div_mult2_eq [symmetric]) simp
  then have p: "p = a * 4096 + b * 64 + c" and l: "b < 64" "c < 64"
    using digit_split [of p] digit_split [of "p div 64"] unfolding d(2,3) by linarith+
  have a: "a < 16" using p assms(2) by linarith
  have "utf8_second (0xE0 + a) (0x80 + b)"
    using p l assms unfolding utf8_second_def utf8_tail_def high_surrogate_def low_surrogate_def by linarith
  from utf8_lead(2) [OF a this l(2), of bs]
  show ?thesis using assms(1,2) by (simp only: utf8_point_def d p [unfolded d, symmetric]) simp
qed

lemma utf8_four:
  assumes "0x10000 \<le> p" "p < 0x110000"
  shows "utf8_points (utf8_point p @ bs) = p # utf8_points bs"
proof -
  obtain a b c e where d: "a = p div 262144" "b = p div 4096 mod 64" "c = p div 64 mod 64" "e = p mod 64" by simp
  have "p div 64 div 64 = p div 4096" "p div 4096 div 64 = a"
    unfolding d by (simp_all only: div_mult2_eq [symmetric]) simp_all
  then have p: "p = a * 262144 + b * 4096 + c * 64 + e" and l: "b < 64" "c < 64" "e < 64"
    using digit_split [of p] digit_split [of "p div 64"] digit_split [of "p div 4096"] unfolding d(2-4)
    by linarith+
  have a: "a < 5" using p assms(2) by linarith
  have "utf8_second (0xF0 + a) (0x80 + b)"
    using p l assms unfolding utf8_second_def utf8_tail_def by linarith
  from utf8_lead(3) [OF a this l(2,3), of bs]
  show ?thesis using assms by (simp only: utf8_point_def d p [unfolded d, symmetric]) simp
qed

lemma utf8_two:
  assumes "0x80 \<le> p" "p < 0x800"
  shows "utf8_points (utf8_point p @ bs) = p # utf8_points bs"
proof -
  have "2 \<le> p div 64" "p div 64 < 32" "p mod 64 < 64" using assms by auto
  from utf8_lead(1) [OF this, of bs] show ?thesis
    using assms by (simp only: utf8_point_def digit_split(1) [symmetric]) simp
qed

lemma utf8_points_point:
  assumes "scalar p"
  shows "utf8_points (utf8_point p @ bs) = p # utf8_points bs"
proof -
  consider "p < 0x80" | "0x80 \<le> p" "p < 0x800" | "0x800 \<le> p" "p < 0x10000" | "0x10000 \<le> p" by linarith
  then show ?thesis
  proof cases
    case 1
    then show ?thesis by (simp add: utf8_point_def)
  qed (use assms utf8_two utf8_three utf8_four in \<open>auto simp: scalar_def\<close>)
qed

lemma utf8_points_points: "list_all scalar ps \<Longrightarrow> utf8_points (concat (map utf8_point ps)) = ps"
  by (induction ps) (simp_all add: utf8_points_point del: utf8_points.simps, simp)

lemma utf8_point_bytes: "scalar p \<Longrightarrow> b \<in> set (utf8_point p) \<Longrightarrow> b < 256 \<and> b \<noteq> 0xFF \<and> b \<noteq> 0xFE \<and> (p \<noteq> 0 \<longrightarrow> b \<noteq> 0)"
  by (auto simp: utf8_point_def scalar_def split: if_splits)

lemma points_of_well_formed:
  "well_formed s \<Longrightarrow> list_all scalar (code_points s) \<and> concat (map point_units (code_points s)) = s"
proof (induction s rule: well_formed.induct)
  case (2 u us)
  show ?case
  proof (cases "high_surrogate u")
    case True
    then obtain v vs where us: "us = v # vs" "low_surrogate v" "well_formed vs"
      using "2.prems" by (auto split: list.splits)
    let ?p = "0x10000 + (u - 0xD800) * 0x400 + (v - 0xDC00)"
    have b: "0xD800 \<le> u" "u < 0xDC00" "0xDC00 \<le> v" "v < 0xE000"
      using True us(2) by (simp_all add: high_surrogate_def low_surrogate_def)
    then have "u = 0xD800 + (u - 0xD800)" "v = 0xDC00 + (v - 0xDC00)" "u - 0xD800 < 0x400" "v - 0xDC00 < 0x400"
      by linarith+
    then obtain x y where xy: "u = 0xD800 + x" "v = 0xDC00 + y" "x < 0x400" "y < 0x400" by blast
    then have "scalar ?p" "point_units ?p = [u, v]"
      by (auto simp: scalar_def high_surrogate_def low_surrogate_def point_units_def)
    then show ?thesis using "2.IH"(1) [OF True us(1)] True us by simp
  next
    case False
    then show ?thesis using "2.IH"(2) [OF False] "2.prems"
      by (auto simp: scalar_def point_units_def)
  qed
qed simp

lemma unat_byte: "n < 256 \<Longrightarrow> unat (of_nat n :: byte) = n"
  by (simp add: unat_of_nat)

lemma encoded_bytes:
  "list_all scalar ps \<Longrightarrow> map unat (map of_nat (concat (map utf8_point ps)) :: byte list) = concat (map utf8_point ps)"
  by (induction ps) (auto simp: unat_byte dest: utf8_point_bytes intro!: map_idI)

lemma utf8_round_trip: "well_formed s \<Longrightarrow> utf8_decode (utf8_encode s) = s"
  using points_of_well_formed [of s]
  by (simp only: utf8_decode_def utf8_encode_def encoded_bytes utf8_points_points)

lemma utf8_encode_inj: "well_formed s \<Longrightarrow> well_formed t \<Longrightarrow> utf8_encode s = utf8_encode t \<longleftrightarrow> s = t"
  using utf8_round_trip by metis


section \<open>What the reader decodes\<close>

text \<open>The bytes of a text in each encoding; the UTF-16 forms carry their byte order mark.\<close>

definition encode_text :: "SupportedTextEncoding \<Rightarrow> units \<Rightarrow> byte list" where
  "encode_text enc s =
     (case enc of
        Utf8 \<Rightarrow> utf8_encode s
      | Utf16le \<Rightarrow> [0xff, 0xfe] @ concat (map (\<lambda>u. [of_nat (u mod 256), of_nat (u div 256)]) s)
      | Utf16be \<Rightarrow> [0xfe, 0xff] @ concat (map (\<lambda>u. [of_nat (u div 256), of_nat (u mod 256)]) s))"

lemma well_formed_range: "well_formed s \<Longrightarrow> list_all (\<lambda>u. u < 0x10000) s"
  by (induction s rule: well_formed.induct)
    (auto simp: high_surrogate_def low_surrogate_def split: if_splits list.splits)

lemma utf16le_units:
  "list_all (\<lambda>u. u < 0x10000) s \<Longrightarrow>
     utf16le_decode (concat (map (\<lambda>u. [of_nat (u mod 256), of_nat (u div 256)]) s)) = s"
  by (induction s) (auto simp: unat_byte)

lemma swap_units:
  "swap_pairs (concat (map (\<lambda>u. [of_nat (u div 256), of_nat (u mod 256)]) s)) =
     concat (map (\<lambda>u. [of_nat (u mod 256), of_nat (u div 256)]) s)"
  by (induction s) auto

lemma code_points_zero: "0 \<notin> set s \<Longrightarrow> 0 \<notin> set (code_points s)"
proof (induction s rule: code_points.induct)
  case (2 u us)
  have r: "0 \<noteq> REPLACEMENT" by (simp add: REPLACEMENT_def)
  show ?case
  proof (cases "high_surrogate u \<and> us \<noteq> [] \<and> low_surrogate (hd us)")
    case True
    then obtain v vs where us: "us = v # vs" "high_surrogate u" "low_surrogate v" by (cases us) auto
    then show ?thesis using "2.IH"(1) [OF us(2,1,3)] "2.prems" by simp
  next
    case False
    then have "set (code_points (u # us)) \<subseteq> {REPLACEMENT, u} \<union> set (code_points us)"
      unfolding code_points.simps(2) [of u us] by (cases us) (simp_all del: code_points.simps(2), blast)
    moreover have "0 \<notin> set (code_points us)"
      using "2.IH" "2.prems" False by (cases "high_surrogate u"; cases us; cases "low_surrogate u") auto
    moreover have "u \<noteq> 0" using "2.prems" by auto
    ultimately show ?thesis using r by blast
  qed
qed simp

lemma utf8_bytes_plain:
  assumes "well_formed s" and "0 \<notin> set s" and "b \<in> set (utf8_encode s)"
  shows "b \<noteq> 0 \<and> b \<noteq> 0xff \<and> b \<noteq> 0xfe"
proof -
  have sc: "list_all scalar (code_points s)" using points_of_well_formed assms(1) by blast
  have z: "0 \<notin> set (code_points s)" using code_points_zero assms(2) by blast
  obtain p n where p: "p \<in> set (code_points s)" "n \<in> set (utf8_point p)" "b = of_nat n"
    using assms(3) by (auto simp: utf8_encode_def)
  then have n: "n < 256" "n \<noteq> 0xFF" "n \<noteq> 0xFE" "n \<noteq> 0"
    using utf8_point_bytes [of p n] sc z by (auto simp: list_all_iff)
  then have "unat b = n" using p(3) unat_byte by simp
  then show ?thesis using n by auto
qed

lemma no_null_slots: "0 \<notin> set sample \<Longrightarrow> null_slots r sample = 0"
  unfolding null_slots_def enumerate_eq_zip by (auto simp: filter_empty_conv dest: set_zip_rightD)

lemma detect_plain:
  assumes "\<And>b. b \<in> set buffer \<Longrightarrow> b \<noteq> 0 \<and> b \<noteq> 0xff \<and> b \<noteq> 0xfe"
  shows "detectEncoding buffer = Utf8"
proof -
  have "take 2 buffer \<noteq> [0xff, 0xfe]" "take 2 buffer \<noteq> [0xfe, 0xff]"
    using assms in_set_takeD [of _ 2 buffer] by (metis list.set_intros(1))+
  moreover have "0 \<notin> set (take n buffer)" for n using assms in_set_takeD by metis
  moreover have "length buffer < 8 \<or> 0 < (min (length buffer) 4096 + 1) div 2 \<and> 0 < min (length buffer) 4096 div 2"
    by linarith
  ultimately show ?thesis by (auto simp: detectEncoding_def no_null_slots Let_def)
qed

text \<open>A text file is read back as the text that was written, in any of the three encodings: UTF-16
  of either byte order with its mark, and UTF-8 without one, for well-formed text that has no NUL
  character and does not itself start with a mark.\<close>

theorem text_files_read_back:
  assumes "well_formed s" and "0 \<notin> set s" and "take 1 s \<noteq> [0xfeff]"
  shows "decodeTextBuffer (encode_text enc s) = s"
proof (cases enc)
  case Utf8
  have "detectEncoding (utf8_encode s) = Utf8" using utf8_bytes_plain [OF assms(1,2)] by (rule detect_plain)
  then show ?thesis using Utf8 assms by (simp add: encode_text_def decodeTextBuffer_def utf8_round_trip Let_def)
next
  case Utf16le
  then show ?thesis using utf16le_units [OF well_formed_range [OF assms(1)]]
    by (simp add: encode_text_def decodeTextBuffer_def detectEncoding_def)
next
  case Utf16be
  then show ?thesis using utf16le_units [OF well_formed_range [OF assms(1)]]
    by (simp add: encode_text_def decodeTextBuffer_def detectEncoding_def swap_units)
qed

theorem text_files_read_back_witness:
  "decodeTextBuffer (encode_text Utf8 [104, 233, 0xD83D, 0xDE00]) = [104, 233, 0xD83D, 0xDE00]"
  by (rule text_files_read_back) (simp_all add: high_surrogate_def low_surrogate_def)

section \<open>Line endings\<close>

lemma crlf_to_lf_id: "list_all Not (newline_matches s) \<Longrightarrow> crlf_to_lf s = s"
  by (induction s) (auto simp: neq_Nil_conv split: if_splits)

text \<open>No carriage return directly before a CRLF.\<close>

fun no_double_cr :: "units \<Rightarrow> bool" where
  "no_double_cr [] = True"
| "no_double_cr (c # s) = (\<not> (c = 13 \<and> take 2 s = [13, 10]) \<and> no_double_cr s)"

lemma crlf_to_lf_head: "crlf_to_lf s = 10 # t \<Longrightarrow> take 1 s = [10] \<or> take 2 s = [13, 10]"
  by (cases s) (auto simp: neq_Nil_conv split: if_splits)

lemma crlf_to_lf_clean: "no_double_cr s \<Longrightarrow> crlf_to_lf (crlf_to_lf s) = crlf_to_lf s"
proof (induction s)
  case (Cons c s)
  show ?case
  proof (cases "c = 13 \<and> take 1 s = [10]")
    case True
    then have "crlf_to_lf (c # s) = crlf_to_lf s" by (cases s) auto
    then show ?thesis using Cons by simp
  next
    case False
    then have e: "crlf_to_lf (c # s) = c # crlf_to_lf s" by (cases s) auto
    have "\<not> (c = 13 \<and> crlf_to_lf s \<noteq> [] \<and> hd (crlf_to_lf s) = 10)"
      using False Cons.prems crlf_to_lf_head [of s "tl (crlf_to_lf s)"] by (cases "crlf_to_lf s") auto
    then show ?thesis unfolding e using Cons by simp
  qed
qed simp

lemma crlf_restored:
  "list_all (\<lambda>crlf. crlf) (newline_matches s) \<Longrightarrow>
     concat (map (\<lambda>c. if c = 10 then [13, 10] else [c]) (crlf_to_lf s)) = s"
  by (induction s rule: newline_matches.induct) (auto simp: neq_Nil_conv split: if_splits)

text \<open>An edit keeps a file's line endings: when all of a file's line breaks are CRLF, or none is,
  the text the tools see, written back in the detected style, is the file's text, byte for byte.\<close>

theorem uniform_line_endings_survive:
  assumes "list_all (\<lambda>crlf. crlf) (newline_matches raw) \<or> list_all Not (newline_matches raw)"
    and "no_double_cr raw"
  shows "applyEolStyle (crlf_to_lf raw) (detectEolStyle raw) = raw"
proof (cases "list_all Not (newline_matches raw)")
  case True
  then have "detectEolStyle raw = Lf" by (cases "newline_matches raw") (auto simp: detectEolStyle_def)
  then show ?thesis using crlf_to_lf_id [OF True] by (simp add: applyEolStyle_def)
next
  case False
  then have all: "list_all (\<lambda>crlf. crlf) (newline_matches raw)" "newline_matches raw \<noteq> []"
    using assms(1) by auto
  then have "detectEolStyle raw = Crlf" by (simp add: detectEolStyle_def)
  then show ?thesis
    using crlf_restored [OF all(1)] crlf_to_lf_clean [OF assms(2)] by (simp add: applyEolStyle_def Let_def)
qed

theorem uniform_line_endings_survive_witness:
  "applyEolStyle (crlf_to_lf [97, 13, 10, 98, 13]) (detectEolStyle [97, 13, 10, 98, 13]) = [97, 13, 10, 98, 13]"
  by (rule uniform_line_endings_survive) simp_all

lemma repeated_style_not_idempotent:
  "applyEolStyle (applyEolStyle [13, 13, 10] Lf) Lf \<noteq> applyEolStyle [13, 13, 10] Lf"
  by (simp add: applyEolStyle_def)

end
