(* ===== verification/Zip_Format.thy ===== *)
theory Zip_Format
  imports Text_Encoding "HOL-Library.AList"
begin

text \<open>
  The zip container (src/lib/zip.ts): the record layouts as byte lists, their encoders and decoders.
  A number that does not fit its field makes Buffer's writer throw, an index outside the buffer makes
  its reader throw; both are RangeError.
\<close>

datatype zip_error =
    RangeError
  | EntryCorrupt
  | UnsupportedMethod units nat
  | EocdMissing
  | ArchiveFinished
  | ArchiveAborted
  | SourceMissing
  | SourceTooLarge
  | ArchiveTooLarge
  | SourceChangedSize
  | NoEntry units
  | ArchiveEnded
  | InflateFailed
  | CrcMismatch units

section \<open>Numbers in buffers\<close>

definition writeUInt16LE :: "nat \<Rightarrow> zip_error + byte list" where
  "writeUInt16LE v = (if v < 0x10000 then Inr [of_nat (v mod 256), of_nat (v div 256)] else Inl RangeError)"

definition writeUInt32LE :: "nat \<Rightarrow> zip_error + byte list" where
  "writeUInt32LE v =
     (if v < 0x100000000
      then Inr [of_nat (v mod 256), of_nat (v div 256 mod 256), of_nat (v div 65536 mod 256), of_nat (v div 16777216)]
      else Inl RangeError)"

definition readUInt16LE :: "byte list \<Rightarrow> nat \<Rightarrow> zip_error + nat" where
  "readUInt16LE buf i =
     (if i + 2 \<le> length buf then Inr (unat (buf ! i) + 256 * unat (buf ! (i + 1))) else Inl RangeError)"

definition readUInt32LE :: "byte list \<Rightarrow> nat \<Rightarrow> zip_error + nat" where
  "readUInt32LE buf i =
     (if i + 4 \<le> length buf
      then Inr (unat (buf ! i) + 256 * unat (buf ! (i + 1)) + 65536 * unat (buf ! (i + 2))
                + 16777216 * unat (buf ! (i + 3)))
      else Inl RangeError)"

text \<open>A record is written field by field into a zeroed buffer.\<close>

definition pack :: "(zip_error + byte list) list \<Rightarrow> zip_error + byte list" where
  "pack parts = bind_result (map_ok (\<lambda>f. f) parts) (\<lambda>bs. Inr (concat bs))"

section \<open>Records\<close>

definition LOCAL_HEADER :: nat where "LOCAL_HEADER = 0x04034b50"
definition CENTRAL_HEADER :: nat where "CENTRAL_HEADER = 0x02014b50"
definition EOCD :: nat where "EOCD = 0x06054b50"
definition LOCAL_HEADER_SIZE :: nat where "LOCAL_HEADER_SIZE = 30"
definition CENTRAL_HEADER_SIZE :: nat where "CENTRAL_HEADER_SIZE = 46"
definition EOCD_SIZE :: nat where "EOCD_SIZE = 22"
definition LOCAL_HEADER_CRC_OFFSET :: nat where "LOCAL_HEADER_CRC_OFFSET = 14"
definition MAX_COMMENT_LENGTH :: nat where "MAX_COMMENT_LENGTH = 65535"

record zip_fields =
  zf_name :: "byte list"
  zf_method :: nat
  zf_crc :: u32
  zf_compressed :: nat
  zf_uncompressed :: nat

definition encodeLocalHeader :: "zip_fields \<Rightarrow> zip_error + byte list" where
  "encodeLocalHeader e =
     pack [writeUInt32LE LOCAL_HEADER, writeUInt16LE 20, writeUInt16LE 0x0800, writeUInt16LE (zf_method e),
           writeUInt32LE 0, writeUInt32LE (unat (zf_crc e)), writeUInt32LE (zf_compressed e),
           writeUInt32LE (zf_uncompressed e), writeUInt16LE (length (zf_name e)), writeUInt16LE 0]"

definition encodeCentralHeader :: "zip_fields \<Rightarrow> nat \<Rightarrow> zip_error + byte list" where
  "encodeCentralHeader e localOffset =
     pack [writeUInt32LE CENTRAL_HEADER, writeUInt16LE 20, writeUInt16LE 20, writeUInt16LE 0x0800,
           writeUInt16LE (zf_method e), writeUInt32LE 0, writeUInt32LE (unat (zf_crc e)),
           writeUInt32LE (zf_compressed e), writeUInt32LE (zf_uncompressed e),
           writeUInt16LE (length (zf_name e)), Inr (replicate 12 0), writeUInt32LE localOffset]"

definition encodeEocd :: "nat \<Rightarrow> nat \<Rightarrow> nat \<Rightarrow> zip_error + byte list" where
  "encodeEocd entryCount centralSize centralStart =
     pack [writeUInt32LE EOCD, Inr (replicate 4 0), writeUInt16LE entryCount, writeUInt16LE entryCount,
           writeUInt32LE centralSize, writeUInt32LE centralStart, Inr (replicate 2 0)]"

record central_entry =
  ce_name :: units
  ce_method :: nat
  ce_crc :: nat
  ce_compressed :: nat
  ce_uncompressed :: nat
  ce_localOffset :: nat
  ce_recordLength :: nat

definition decodeCentralHeader :: "byte list \<Rightarrow> nat \<Rightarrow> zip_error + central_entry" where
  "decodeCentralHeader central cursor =
     bind_result (readUInt32LE central cursor) (\<lambda>magic.
     if magic \<noteq> CENTRAL_HEADER then Inl EntryCorrupt else
     bind_result (readUInt16LE central (cursor + 28)) (\<lambda>nameLength.
     bind_result (readUInt16LE central (cursor + 30)) (\<lambda>extraLength.
     bind_result (readUInt16LE central (cursor + 32)) (\<lambda>commentLength.
     let name = utf8_decode (take nameLength (drop (cursor + CENTRAL_HEADER_SIZE) central)) in
     bind_result (readUInt16LE central (cursor + 10)) (\<lambda>method.
     if method \<noteq> 0 \<and> method \<noteq> 8 then Inl (UnsupportedMethod name method) else
     bind_result (readUInt32LE central (cursor + 16)) (\<lambda>crc.
     bind_result (readUInt32LE central (cursor + 20)) (\<lambda>compressed.
     bind_result (readUInt32LE central (cursor + 24)) (\<lambda>uncompressed.
     bind_result (readUInt32LE central (cursor + 42)) (\<lambda>localOffset.
       Inr \<lparr>ce_name = name, ce_method = method, ce_crc = crc, ce_compressed = compressed,
            ce_uncompressed = uncompressed, ce_localOffset = localOffset,
            ce_recordLength = CENTRAL_HEADER_SIZE + nameLength + extraLength + commentLength\<rparr>)))))))))"

text \<open>The search for the end record, from the last position where it fits down to the first.\<close>

definition findEocdOffset :: "byte list \<Rightarrow> zip_error + nat" where
  "findEocdOffset tail =
     (case find (\<lambda>i. readUInt32LE tail i = Inr EOCD) (rev [0..<length tail + 1 - EOCD_SIZE]) of
        None \<Rightarrow> Inl EocdMissing
      | Some i \<Rightarrow> Inr i)"

definition localHeaderDataOffset :: "nat \<Rightarrow> byte list \<Rightarrow> zip_error + nat" where
  "localHeaderDataOffset localOffset localHeader =
     bind_result (readUInt16LE localHeader 26) (\<lambda>nameLength.
     bind_result (readUInt16LE localHeader 28) (\<lambda>extraLength.
       Inr (localOffset + LOCAL_HEADER_SIZE + nameLength + extraLength)))"

section \<open>Decoding what was encoded\<close>

lemma unat_low [simp]: "unat (of_nat (v mod 256) :: byte) = v mod 256"
  by (simp add: unat_byte)

lemma unat_16 [simp]: "v < 0x10000 \<Longrightarrow> unat (of_nat (v div 256) :: byte) = v div 256"
  by (simp add: unat_byte)

lemma unat_32 [simp]: "v < 0x100000000 \<Longrightarrow> unat (of_nat (v div 16777216) :: byte) = v div 16777216"
  by (simp add: unat_byte)

lemma bytes_16: "v mod 256 + 256 * (v div 256) = (v :: nat)"
  by simp

lemma bytes_32: "v mod 256 + 256 * (v div 256 mod 256) + 65536 * (v div 65536 mod 256) + 16777216 * (v div 16777216) = (v :: nat)"
proof -
  have "v div 65536 = v div 256 div 256" "v div 16777216 = v div 65536 div 256"
    by (simp_all add: div_mult2_eq [symmetric])
  then show ?thesis
    using div_mult_mod_eq [of v 256] div_mult_mod_eq [of "v div 256" 256] div_mult_mod_eq [of "v div 65536" 256]
    by linarith
qed

lemma nth_mid: "length pre = i \<Longrightarrow> k < length bs \<Longrightarrow> (pre @ bs @ post) ! (i + k) = bs ! k"
  by (simp add: nth_append)

lemma read_16_at:
  assumes w: "writeUInt16LE v = Inr bs" and pre: "length pre = i"
  shows "readUInt16LE (pre @ bs @ post) i = Inr v"
proof -
  have v: "v < 0x10000" and bs: "bs = [of_nat (v mod 256), of_nat (v div 256)]"
    using w by (auto simp: writeUInt16LE_def split: if_splits)
  have "i + 2 \<le> length (pre @ bs @ post)" using pre bs by simp
  then show ?thesis
    using nth_mid [OF pre, of 0 bs post] nth_mid [OF pre, of 1 bs post] v bytes_16 [of v]
    unfolding readUInt16LE_def by (simp add: bs del: mod_mult_div_eq)
qed

lemma read_32_at:
  assumes w: "writeUInt32LE v = Inr bs" and pre: "length pre = i"
  shows "readUInt32LE (pre @ bs @ post) i = Inr v"
proof -
  have v: "v < 0x100000000"
    and bs: "bs = [of_nat (v mod 256), of_nat (v div 256 mod 256), of_nat (v div 65536 mod 256), of_nat (v div 16777216)]"
    using w by (auto simp only: writeUInt32LE_def sum.inject split: if_splits)
  have len: "i + 4 \<le> length (pre @ bs @ post)" using pre bs by simp
  have n: "unat ((pre @ bs @ post) ! i) = v mod 256" "unat ((pre @ bs @ post) ! (i + 1)) = v div 256 mod 256"
    "unat ((pre @ bs @ post) ! (i + 2)) = v div 65536 mod 256"
    "unat ((pre @ bs @ post) ! (i + 3)) = v div 16777216"
    using nth_mid [OF pre, of 0 bs post] nth_mid [OF pre, of 1 bs post] nth_mid [OF pre, of 2 bs post]
      nth_mid [OF pre, of 3 bs post] unat_32 [OF v] by (simp_all only: bs) simp_all
  show ?thesis unfolding readUInt32LE_def if_P [OF len] n bytes_32 ..
qed

lemma length_written [dest]:
  "writeUInt16LE v = Inr bs \<Longrightarrow> length bs = 2 \<and> v < 0x10000"
  "writeUInt32LE v = Inr bs \<Longrightarrow> length bs = 4 \<and> v < 0x100000000"
  by (auto simp: writeUInt16LE_def writeUInt32LE_def split: if_splits)

lemma pack_Inr: "pack parts = Inr bs \<longleftrightarrow> (\<exists>fs. list_all2 (\<lambda>p f. p = Inr f) parts fs \<and> bs = concat fs)"
  by (auto simp: pack_def map_ok_Inr)

lemma write_zero: "writeUInt16LE 0 = Inr [0, 0]"
  by (simp add: writeUInt16LE_def)

lemma read_field:
  "writeUInt16LE v = Inr bs \<Longrightarrow> buf = pre @ bs @ post \<Longrightarrow> length pre = i \<Longrightarrow> readUInt16LE buf i = Inr v"
  "writeUInt32LE w = Inr cs \<Longrightarrow> buf = pre @ cs @ post \<Longrightarrow> length pre = i \<Longrightarrow> readUInt32LE buf i = Inr w"
  using read_16_at read_32_at by blast+

lemma central_length: "encodeCentralHeader e off = Inr h \<Longrightarrow> length h = CENTRAL_HEADER_SIZE"
  by (auto simp: encodeCentralHeader_def CENTRAL_HEADER_SIZE_def pack_Inr list_all2_Cons1 dest!: length_written)

lemma decode_central:
  assumes "encodeCentralHeader e off = Inr h" and "zf_method e \<in> {0, 8}" and "length pre = cursor"
  shows "decodeCentralHeader (pre @ h @ zf_name e @ post) cursor = Inr
      \<lparr>ce_name = utf8_decode (zf_name e), ce_method = zf_method e, ce_crc = unat (zf_crc e),
       ce_compressed = zf_compressed e, ce_uncompressed = zf_uncompressed e, ce_localOffset = off,
       ce_recordLength = length h + length (zf_name e)\<rparr>"
    and "length h = CENTRAL_HEADER_SIZE"
proof -
  from assms(1) obtain b1 b2 b3 b4 b5 b6 b7 b8 b9 b10 b12 where
    w: "writeUInt32LE CENTRAL_HEADER = Inr b1" "writeUInt16LE 20 = Inr b2" "writeUInt16LE 20 = Inr b3"
      "writeUInt16LE 0x0800 = Inr b4" "writeUInt16LE (zf_method e) = Inr b5" "writeUInt32LE 0 = Inr b6"
      "writeUInt32LE (unat (zf_crc e)) = Inr b7" "writeUInt32LE (zf_compressed e) = Inr b8"
      "writeUInt32LE (zf_uncompressed e) = Inr b9" "writeUInt16LE (length (zf_name e)) = Inr b10"
      "writeUInt32LE off = Inr b12"
    and h: "h = b1 @ b2 @ b3 @ b4 @ b5 @ b6 @ b7 @ b8 @ b9 @ b10 @ [0, 0] @ [0, 0] @ replicate 8 0 @ b12"
    by (auto simp: encodeCentralHeader_def pack_Inr list_all2_Cons1 numeral_eq_Suc)
  note l = length_written(2) [OF w(1)] length_written(1) [OF w(2)] length_written(1) [OF w(3)]
    length_written(1) [OF w(4)] length_written(1) [OF w(5)] length_written(2) [OF w(6)]
    length_written(2) [OF w(7)] length_written(2) [OF w(8)] length_written(2) [OF w(9)]
    length_written(1) [OF w(10)] length_written(2) [OF w(11)]
  let ?buf = "pre @ h @ zf_name e @ post"
  have r: "readUInt32LE ?buf cursor = Inr CENTRAL_HEADER"
    "readUInt16LE ?buf (cursor + 10) = Inr (zf_method e)"
    "readUInt32LE ?buf (cursor + 16) = Inr (unat (zf_crc e))"
    "readUInt32LE ?buf (cursor + 20) = Inr (zf_compressed e)"
    "readUInt32LE ?buf (cursor + 24) = Inr (zf_uncompressed e)"
    "readUInt16LE ?buf (cursor + 28) = Inr (length (zf_name e))"
    "readUInt16LE ?buf (cursor + 30) = Inr 0"
    "readUInt16LE ?buf (cursor + 32) = Inr 0"
    "readUInt32LE ?buf (cursor + 42) = Inr off"
    by ((rule read_field(2) [OF w(1), of _ pre "b2 @ b3 @ b4 @ b5 @ b6 @ b7 @ b8 @ b9 @ b10 @ [0, 0] @ [0, 0] @ replicate 8 0 @ b12 @ zf_name e @ post"]; use l assms(3) in \<open>simp add: h\<close>),
        (rule read_field(1) [OF w(5), of _ "pre @ b1 @ b2 @ b3 @ b4" "b6 @ b7 @ b8 @ b9 @ b10 @ [0, 0] @ [0, 0] @ replicate 8 0 @ b12 @ zf_name e @ post"]; use l assms(3) in \<open>simp add: h\<close>),
        (rule read_field(2) [OF w(7), of _ "pre @ b1 @ b2 @ b3 @ b4 @ b5 @ b6" "b8 @ b9 @ b10 @ [0, 0] @ [0, 0] @ replicate 8 0 @ b12 @ zf_name e @ post"]; use l assms(3) in \<open>simp add: h\<close>),
        (rule read_field(2) [OF w(8), of _ "pre @ b1 @ b2 @ b3 @ b4 @ b5 @ b6 @ b7" "b9 @ b10 @ [0, 0] @ [0, 0] @ replicate 8 0 @ b12 @ zf_name e @ post"]; use l assms(3) in \<open>simp add: h\<close>),
        (rule read_field(2) [OF w(9), of _ "pre @ b1 @ b2 @ b3 @ b4 @ b5 @ b6 @ b7 @ b8" "b10 @ [0, 0] @ [0, 0] @ replicate 8 0 @ b12 @ zf_name e @ post"]; use l assms(3) in \<open>simp add: h\<close>),
        (rule read_field(1) [OF w(10), of _ "pre @ b1 @ b2 @ b3 @ b4 @ b5 @ b6 @ b7 @ b8 @ b9" "[0, 0] @ [0, 0] @ replicate 8 0 @ b12 @ zf_name e @ post"]; use l assms(3) in \<open>simp add: h\<close>),
        (rule read_field(1) [OF write_zero, of _ "pre @ b1 @ b2 @ b3 @ b4 @ b5 @ b6 @ b7 @ b8 @ b9 @ b10" "[0, 0] @ replicate 8 0 @ b12 @ zf_name e @ post"]; use l assms(3) in \<open>simp add: h\<close>),
        (rule read_field(1) [OF write_zero, of _ "pre @ b1 @ b2 @ b3 @ b4 @ b5 @ b6 @ b7 @ b8 @ b9 @ b10 @ [0, 0]" "replicate 8 0 @ b12 @ zf_name e @ post"]; use l assms(3) in \<open>simp add: h\<close>),
        (rule read_field(2) [OF w(11), of _ "pre @ b1 @ b2 @ b3 @ b4 @ b5 @ b6 @ b7 @ b8 @ b9 @ b10 @ [0, 0] @ [0, 0] @ replicate 8 0" "zf_name e @ post"]; use l assms(3) in \<open>simp add: h\<close>))
  show len: "length h = CENTRAL_HEADER_SIZE" using l by (simp add: h CENTRAL_HEADER_SIZE_def)
  have n: "take (length (zf_name e)) (drop (cursor + CENTRAL_HEADER_SIZE) ?buf) = zf_name e"
    using len assms(3) by simp
  have m: "\<not> (zf_method e \<noteq> 0 \<and> zf_method e \<noteq> 8)" using assms(2) by auto
  show "decodeCentralHeader ?buf cursor = Inr
      \<lparr>ce_name = utf8_decode (zf_name e), ce_method = zf_method e, ce_crc = unat (zf_crc e),
       ce_compressed = zf_compressed e, ce_uncompressed = zf_uncompressed e, ce_localOffset = off,
       ce_recordLength = length h + length (zf_name e)\<rparr>"
    unfolding decodeCentralHeader_def Let_def r bind_result_simps n if_not_P [OF m] len by simp
qed

lemma local_header:
  assumes "encodeLocalHeader e = Inr h"
  shows "length h = LOCAL_HEADER_SIZE" "zf_compressed e < 0x100000000"
    "localHeaderDataOffset off h = Inr (off + LOCAL_HEADER_SIZE + length (zf_name e))"
proof -
  from assms obtain b1 b2 b3 b4 b5 b6 b7 b8 b9 where
    w: "writeUInt32LE LOCAL_HEADER = Inr b1" "writeUInt16LE 20 = Inr b2" "writeUInt16LE 0x0800 = Inr b3"
      "writeUInt16LE (zf_method e) = Inr b4" "writeUInt32LE 0 = Inr b5" "writeUInt32LE (unat (zf_crc e)) = Inr b6"
      "writeUInt32LE (zf_compressed e) = Inr b7" "writeUInt32LE (zf_uncompressed e) = Inr b8"
      "writeUInt16LE (length (zf_name e)) = Inr b9"
    and h: "h = b1 @ b2 @ b3 @ b4 @ b5 @ b6 @ b7 @ b8 @ b9 @ [0, 0]"
    by (auto simp: encodeLocalHeader_def pack_Inr list_all2_Cons1 write_zero)
  note l = length_written(2) [OF w(1)] length_written(1) [OF w(2)] length_written(1) [OF w(3)]
    length_written(1) [OF w(4)] length_written(2) [OF w(5)] length_written(2) [OF w(6)]
    length_written(2) [OF w(7)] length_written(2) [OF w(8)] length_written(1) [OF w(9)]
  show "length h = LOCAL_HEADER_SIZE" using l by (simp add: h LOCAL_HEADER_SIZE_def)
  show "zf_compressed e < 0x100000000" using l by simp
  have "readUInt16LE h 26 = Inr (length (zf_name e))" "readUInt16LE h 28 = Inr 0"
    by ((rule read_field(1) [OF w(9), of _ "b1 @ b2 @ b3 @ b4 @ b5 @ b6 @ b7 @ b8" "[0, 0]"]; use l in \<open>simp add: h\<close>),
        (rule read_field(1) [OF write_zero, of _ "b1 @ b2 @ b3 @ b4 @ b5 @ b6 @ b7 @ b8 @ b9" "[]"]; use l in \<open>simp add: h\<close>))
  then show "localHeaderDataOffset off h = Inr (off + LOCAL_HEADER_SIZE + length (zf_name e))"
    by (simp add: localHeaderDataOffset_def)
qed

lemma eocd_record:
  assumes "encodeEocd n csize start = Inr h"
  shows "length h = EOCD_SIZE" "readUInt32LE (pre @ h) (length pre) = Inr EOCD"
    "readUInt16LE (pre @ h) (length pre + 10) = Inr n" "readUInt32LE (pre @ h) (length pre + 12) = Inr csize"
    "readUInt32LE (pre @ h) (length pre + 16) = Inr start"
proof -
  from assms obtain b1 b3 b5 b6 where
    w: "writeUInt32LE EOCD = Inr b1" "writeUInt16LE n = Inr b3" "writeUInt32LE csize = Inr b5"
      "writeUInt32LE start = Inr b6"
    and h: "h = b1 @ replicate 4 0 @ b3 @ b3 @ b5 @ b6 @ [0, 0]"
    by (auto simp: encodeEocd_def pack_Inr list_all2_Cons1 numeral_2_eq_2)
  note l = length_written(2) [OF w(1)] length_written(1) [OF w(2)] length_written(2) [OF w(3)]
    length_written(2) [OF w(4)]
  show "length h = EOCD_SIZE" using l by (simp add: h EOCD_SIZE_def)
  show "readUInt32LE (pre @ h) (length pre) = Inr EOCD"
    "readUInt16LE (pre @ h) (length pre + 10) = Inr n"
    "readUInt32LE (pre @ h) (length pre + 12) = Inr csize" "readUInt32LE (pre @ h) (length pre + 16) = Inr start"
    by ((rule read_field(2) [OF w(1), of _ pre "replicate 4 0 @ b3 @ b3 @ b5 @ b6 @ [0, 0]"]; use l in \<open>simp add: h\<close>),
        (rule read_field(1) [OF w(2), of _ "pre @ b1 @ replicate 4 0 @ b3" "b5 @ b6 @ [0, 0]"]; use l in \<open>simp add: h\<close>),
        (rule read_field(2) [OF w(3), of _ "pre @ b1 @ replicate 4 0 @ b3 @ b3" "b6 @ [0, 0]"]; use l in \<open>simp add: h\<close>),
        (rule read_field(2) [OF w(4), of _ "pre @ b1 @ replicate 4 0 @ b3 @ b3 @ b5" "[0, 0]"]; use l in \<open>simp add: h\<close>))
qed

text \<open>The end record of an archive without a comment is the first position the search tries.\<close>

lemma find_eocd_last:
  assumes "encodeEocd n csize start = Inr h"
  shows "findEocdOffset (pre @ h) = Inr (length pre)"
proof -
  have "length (pre @ h) + 1 - EOCD_SIZE = Suc (length pre)" using eocd_record(1) [OF assms] by simp
  then show ?thesis using eocd_record(2) [OF assms, of pre] by (simp add: findEocdOffset_def)
qed

end
