(* ===== verification/Zip_Archive.thy ===== *)
theory Zip_Archive
  imports Zip_Format
begin

text \<open>
  The archive writer and reader (src/lib/zip-file-writer.ts, src/lib/zip-file-reader.ts). The file on
  disk is a list of bytes. A read of the operating system may return fewer bytes than were asked
  for: how many it grants at a position is an argument. zlib's deflate and inflate and the sha256 of
  node:crypto are arguments too.
\<close>

section \<open>The writer\<close>

record written_entry = zip_fields +
  we_offset :: nat

record zip_writer =
  zw_disk :: "byte list"
  zw_entries :: "written_entry list"
  zw_offset :: nat
  zw_finished :: bool
  zw_aborted :: bool
  zw_open :: bool
  zw_exists :: bool

definition new_writer :: zip_writer where
  "new_writer = \<lparr>zw_disk = [], zw_entries = [], zw_offset = 0, zw_finished = False, zw_aborted = False,
     zw_open = True, zw_exists = True\<rparr>"

text \<open>A method may throw after it has written: its result comes with the state it leaves.\<close>

type_synonym 'a writes = "zip_writer \<Rightarrow> (zip_error + 'a) \<times> zip_writer"

definition give :: "'a \<Rightarrow> 'a writes" where
  "give a w = (Inr a, w)"

definition throw :: "zip_error \<Rightarrow> 'a writes" where
  "throw e w = (Inl e, w)"

definition and_then :: "'a writes \<Rightarrow> ('a \<Rightarrow> 'b writes) \<Rightarrow> 'b writes" where
  "and_then m f w = (case m w of (Inl e, w') \<Rightarrow> (Inl e, w') | (Inr a, w') \<Rightarrow> f a w')"

definition lift_result :: "zip_error + 'a \<Rightarrow> 'a writes" where
  "lift_result r w = (r, w)"

definition modify :: "(zip_writer \<Rightarrow> zip_writer) \<Rightarrow> unit writes" where
  "modify f w = (Inr (), f w)"

definition MAX_ZIP32_BYTES :: nat where
  "MAX_ZIP32_BYTES = 0xfffffffe"

definition READ_CHUNK_BYTES :: nat where
  "READ_CHUNK_BYTES = 1024 * 1024"

definition assertWritable :: "unit writes" where
  "assertWritable w = (if zw_finished w then throw ArchiveFinished w else if zw_aborted w then throw ArchiveAborted w else give () w)"

definition assertZip32 :: "nat \<Rightarrow> zip_error \<Rightarrow> unit writes" where
  "assertZip32 v e = (if v > MAX_ZIP32_BYTES then throw e else give ())"

definition overwrite :: "nat \<Rightarrow> byte list \<Rightarrow> byte list \<Rightarrow> byte list" where
  "overwrite position data disk =
     take position disk @ replicate (position - length disk) 0 @ data @ drop (position + length data) disk"

definition writeAt :: "nat \<Rightarrow> byte list \<Rightarrow> unit writes" where
  "writeAt position data = modify (\<lambda>w. w\<lparr>zw_disk := overwrite position data (zw_disk w)\<rparr>)"

definition append_bytes :: "byte list \<Rightarrow> unit writes" where
  "append_bytes data w = and_then (writeAt (zw_offset w) data)
     (\<lambda>_. modify (\<lambda>w. w\<lparr>zw_offset := zw_offset w + length data\<rparr>)) w"

definition writeEntryHeaderAndName :: "units \<Rightarrow> u32 \<Rightarrow> nat \<Rightarrow> nat \<Rightarrow> nat \<Rightarrow> unit writes" where
  "writeEntryHeaderAndName name crc method compressed uncompressed w =
     (let fields = zip_fields.make (utf8_encode name) method crc compressed uncompressed in
      and_then (modify (\<lambda>w. w\<lparr>zw_entries := zw_entries w @ [zip_fields.extend fields \<lparr>we_offset = zw_offset w\<rparr>]\<rparr>))
        (\<lambda>_. and_then (lift_result (encodeLocalHeader fields))
        (\<lambda>h. and_then (append_bytes h)
        (\<lambda>_. append_bytes (utf8_encode name)))) w)"

definition addBuffer :: "(byte list \<Rightarrow> byte list) \<Rightarrow> units \<Rightarrow> byte list \<Rightarrow> unit writes" where
  "addBuffer deflate name data =
     and_then assertWritable (\<lambda>_.
       let deflated = deflate data; useDeflate = length deflated < length data;
           payload = (if useDeflate then deflated else data) in
       and_then (writeEntryHeaderAndName name (crc32 data) (if useDeflate then 8 else 0) (length payload) (length data))
         (\<lambda>_. append_bytes payload))"

text \<open>The copy loop: the chunks the source's reads return before the empty one.\<close>

fun copy_chunks :: "byte list list \<Rightarrow> u32 \<Rightarrow> nat \<Rightarrow> (u32 \<times> nat) writes" where
  "copy_chunks [] crc copied = give (crc, copied)"
| "copy_chunks (view # views) crc copied =
     and_then (append_bytes view) (\<lambda>_. copy_chunks views (crc32Update crc view) (copied + length view))"

definition copyFileContents :: "byte list list \<Rightarrow> nat \<Rightarrow> u32 writes" where
  "copyFileContents chunks expected =
     and_then (copy_chunks chunks CRC32_SEED 0) (\<lambda>(crc, copied).
       if copied \<noteq> expected then throw SourceChangedSize else give (crc32Finish crc))"

text \<open>A source file: its size for stat and the chunks its reads return.\<close>

definition addFile :: "units \<Rightarrow> (nat \<times> byte list list) option \<Rightarrow> unit writes" where
  "addFile name source =
     and_then assertWritable (\<lambda>_.
       case source of
         None \<Rightarrow> throw SourceMissing
       | Some (sz, chunks) \<Rightarrow>
           and_then (assertZip32 sz SourceTooLarge) (\<lambda>_ w.
             let headerOffset = zw_offset w in
             and_then (writeEntryHeaderAndName name 0 0 sz sz) (\<lambda>_.
             and_then (copyFileContents chunks sz) (\<lambda>crc.
             and_then (modify (\<lambda>w. w\<lparr>zw_entries :=
                 (case rev (zw_entries w) of [] \<Rightarrow> [] | e # es \<Rightarrow> rev (e\<lparr>zf_crc := crc\<rparr> # es))\<rparr>)) (\<lambda>_.
             and_then (lift_result (writeUInt32LE (unat crc))) (\<lambda>field.
               writeAt (headerOffset + LOCAL_HEADER_CRC_OFFSET) field)))) w))"

definition writeCentralHeader :: "written_entry \<Rightarrow> unit writes" where
  "writeCentralHeader e =
     and_then (lift_result (encodeCentralHeader (zip_fields.truncate e) (we_offset e))) (\<lambda>h.
     and_then (append_bytes h) (\<lambda>_. append_bytes (zf_name e)))"

fun write_directory :: "written_entry list \<Rightarrow> unit writes" where
  "write_directory [] = give ()"
| "write_directory (e # es) = and_then (writeCentralHeader e) (\<lambda>_. write_directory es)"

definition finish_body :: "unit writes" where
  "finish_body w =
     (let centralStart = zw_offset w in
      and_then (write_directory (zw_entries w)) (\<lambda>_ w1.
      and_then (assertZip32 (zw_offset w1) ArchiveTooLarge) (\<lambda>_.
      and_then (lift_result (encodeEocd (length (zw_entries w1)) (zw_offset w1 - centralStart) centralStart))
        append_bytes) w1) w)"

definition finish :: "unit writes" where
  "finish =
     and_then assertWritable (\<lambda>_ w.
       let (r, w') = finish_body (w\<lparr>zw_finished := True\<rparr>) in (r, w'\<lparr>zw_open := False\<rparr>))"

definition abort_archive :: "unit writes" where
  "abort_archive w =
     (Inr (), w\<lparr>zw_open := (if \<not> zw_finished w \<and> \<not> zw_aborted w then False else zw_open w),
                zw_aborted := True, zw_exists := False\<rparr>)"

section \<open>The reader\<close>

record directory_entry =
  de_method :: nat
  de_crc :: nat
  de_compressed :: nat
  de_uncompressed :: nat
  de_localOffset :: nat

record zip_reader =
  zr_file :: "byte list"
  zr_directory :: "(units \<times> directory_entry) list"

text \<open>What one read returns: at most what was asked for, nothing only at the end of the file.\<close>

definition handle_read :: "(nat \<Rightarrow> nat) \<Rightarrow> byte list \<Rightarrow> nat \<Rightarrow> nat \<Rightarrow> byte list" where
  "handle_read grant file wanted position = take (min wanted (max 1 (grant position))) (drop position file)"

function readExactly :: "(nat \<Rightarrow> nat) \<Rightarrow> byte list \<Rightarrow> nat \<Rightarrow> nat \<Rightarrow> zip_error + byte list" where
  "readExactly grant file len position =
     (if len = 0 then Inr []
      else let got = handle_read grant file len position in
        if got = [] then Inl ArchiveEnded
        else bind_result (readExactly grant file (len - length got) (position + length got)) (\<lambda>rest. Inr (got @ rest)))"
  by pat_completeness auto
termination
  by (relation "measure (\<lambda>(grant, file, len, position). len)") auto

declare readExactly.simps [simp del]

fun decode_directory ::
  "byte list \<Rightarrow> nat \<Rightarrow> nat \<Rightarrow> (units \<times> directory_entry) list \<Rightarrow> zip_error + (units \<times> directory_entry) list" where
  "decode_directory central 0 cursor dir = Inr dir"
| "decode_directory central (Suc n) cursor dir =
     bind_result (decodeCentralHeader central cursor) (\<lambda>d.
       decode_directory central n (cursor + ce_recordLength d)
         (AList.update (ce_name d)
            \<lparr>de_method = ce_method d, de_crc = ce_crc d, de_compressed = ce_compressed d,
             de_uncompressed = ce_uncompressed d, de_localOffset = ce_localOffset d\<rparr> dir))"

definition readCentralDirectory :: "(nat \<Rightarrow> nat) \<Rightarrow> byte list \<Rightarrow> zip_error + (units \<times> directory_entry) list" where
  "readCentralDirectory grant file =
     (let tailLength = min (length file) (EOCD_SIZE + MAX_COMMENT_LENGTH) in
      bind_result (readExactly grant file tailLength (length file - tailLength)) (\<lambda>tail.
      bind_result (findEocdOffset tail) (\<lambda>eocd.
      bind_result (readUInt16LE tail (eocd + 10)) (\<lambda>entryCount.
      bind_result (readUInt32LE tail (eocd + 12)) (\<lambda>centralSize.
      bind_result (readUInt32LE tail (eocd + 16)) (\<lambda>centralStart.
      bind_result (readExactly grant file centralSize centralStart) (\<lambda>central.
        decode_directory central entryCount 0 [])))))))"

definition open_archive :: "(nat \<Rightarrow> nat) \<Rightarrow> byte list \<Rightarrow> zip_error + zip_reader" where
  "open_archive grant file =
     bind_result (readCentralDirectory grant file) (\<lambda>dir. Inr \<lparr>zr_file = file, zr_directory = dir\<rparr>)"

definition entryNames :: "zip_reader \<Rightarrow> units list" where
  "entryNames r = map fst (zr_directory r)"

definition hasEntry :: "zip_reader \<Rightarrow> units \<Rightarrow> bool" where
  "hasEntry r name \<longleftrightarrow> map_of (zr_directory r) name \<noteq> None"

definition requireEntry :: "zip_reader \<Rightarrow> units \<Rightarrow> zip_error + directory_entry" where
  "requireEntry r name = (case map_of (zr_directory r) name of None \<Rightarrow> Inl (NoEntry name) | Some e \<Rightarrow> Inr e)"

definition entrySize :: "zip_reader \<Rightarrow> units \<Rightarrow> zip_error + nat" where
  "entrySize r name = bind_result (requireEntry r name) (\<lambda>e. Inr (de_uncompressed e))"

definition dataStart :: "(nat \<Rightarrow> nat) \<Rightarrow> zip_reader \<Rightarrow> directory_entry \<Rightarrow> zip_error + nat" where
  "dataStart grant r e =
     bind_result (readExactly grant (zr_file r) LOCAL_HEADER_SIZE (de_localOffset e)) (localHeaderDataOffset (de_localOffset e))"

definition readEntry ::
  "(nat \<Rightarrow> nat) \<Rightarrow> (byte list \<Rightarrow> byte list option) \<Rightarrow> zip_reader \<Rightarrow> units \<Rightarrow> zip_error + byte list" where
  "readEntry grant inflate r name =
     bind_result (requireEntry r name) (\<lambda>e.
     bind_result (dataStart grant r e) (\<lambda>start.
     bind_result (readExactly grant (zr_file r) (de_compressed e) start) (\<lambda>compressed.
     bind_result
       (if de_method e = 8 then (case inflate compressed of None \<Rightarrow> Inl InflateFailed | Some d \<Rightarrow> Inr d)
        else Inr compressed) (\<lambda>data.
       if unat (crc32 data) \<noteq> de_crc e then Inl (CrcMismatch name) else Inr data))))"

text \<open>The loop over a stored entry: the chunks written to the sink, and how it ends.\<close>

function walk_chunks ::
  "(nat \<Rightarrow> nat) \<Rightarrow> byte list \<Rightarrow> nat \<Rightarrow> nat \<Rightarrow> u32 \<Rightarrow> byte list list \<times> (zip_error + u32)" where
  "walk_chunks grant file remaining position crc =
     (if remaining = 0 then ([], Inr crc)
      else let toRead = min READ_CHUNK_BYTES remaining in
        (case readExactly grant file toRead position of
           Inl e \<Rightarrow> ([], Inl e)
         | Inr view \<Rightarrow>
             (let (views, res) = walk_chunks grant file (remaining - toRead) (position + toRead) (crc32Update crc view) in
              (view # views, res))))"
  by pat_completeness auto
termination
  by (relation "measure (\<lambda>(grant, file, remaining, position, crc). remaining)") (auto simp: READ_CHUNK_BYTES_def)

declare walk_chunks.simps [simp del]

definition walkStored ::
  "(nat \<Rightarrow> nat) \<Rightarrow> zip_reader \<Rightarrow> units \<Rightarrow> directory_entry \<Rightarrow> byte list list \<times> (zip_error + unit)" where
  "walkStored grant r name e =
     (case dataStart grant r e of
        Inl err \<Rightarrow> ([], Inl err)
      | Inr start \<Rightarrow>
          (let (views, res) = walk_chunks grant (zr_file r) (de_compressed e) start CRC32_SEED in
           (views, bind_result res (\<lambda>crc.
              if unat (crc32Finish crc) \<noteq> de_crc e then Inl (CrcMismatch name) else Inr ()))))"

definition hashEntry ::
  "(nat \<Rightarrow> nat) \<Rightarrow> (byte list \<Rightarrow> byte list option) \<Rightarrow> (byte list \<Rightarrow> string) \<Rightarrow> zip_reader \<Rightarrow> units \<Rightarrow> zip_error + string" where
  "hashEntry grant inflate sha256 r name =
     bind_result (requireEntry r name) (\<lambda>e.
       if de_method e \<noteq> 0 then bind_result (readEntry grant inflate r name) (\<lambda>data. Inr (sha256 data))
       else (let (views, res) = walkStored grant r name e in bind_result res (\<lambda>_. Inr (sha256 (concat views)))))"

text \<open>The destination of an extraction is the content of a file, or None when it does not exist.\<close>

definition extractTo ::
  "(nat \<Rightarrow> nat) \<Rightarrow> (byte list \<Rightarrow> byte list option) \<Rightarrow> zip_reader \<Rightarrow> units \<Rightarrow> byte list option
     \<Rightarrow> (zip_error + unit) \<times> byte list option" where
  "extractTo grant inflate r name destination =
     (case requireEntry r name of
        Inl err \<Rightarrow> (Inl err, destination)
      | Inr e \<Rightarrow>
          if de_method e \<noteq> 0 then
            (case readEntry grant inflate r name of
               Inl err \<Rightarrow> (Inl err, destination)
             | Inr data \<Rightarrow> (Inr (), Some data))
          else
            (case walkStored grant r name e of
               (views, Inl err) \<Rightarrow> (Inl err, None)
             | (views, Inr _) \<Rightarrow> (Inr (), Some (concat views))))"

end
