(* ===== verification/Zip_Properties.thy ===== *)
theory Zip_Properties
  imports Zip_Archive
begin

text \<open>
  What the archive code promises: an archive that was written without an error is read back entry for
  entry, the streaming readers agree with the reader in memory, and a changed byte is refused.
\<close>

section \<open>Reading\<close>

lemma take_length_take: "take (length (take k ys)) ys = take k ys"
  by (cases "k \<le> length ys") auto

lemma take_cut: "m \<le> n \<Longrightarrow> take n (drop p xs) = take m (drop p xs) @ take (n - m) (drop (p + m) xs)"
  using take_add [of m "n - m" "drop p xs"] by (simp add: add.commute)

text \<open>Short reads make no difference.\<close>

lemma readExactly_eq:
  "readExactly grant file len position =
     (if len = 0 \<or> position + len \<le> length file then Inr (take len (drop position file)) else Inl ArchiveEnded)"
proof (induction grant "file" len position rule: readExactly.induct)
  case (1 grant "file" len position)
  let ?got = "handle_read grant file len position"
  let ?k = "min len (max 1 (grant position))"
  show ?case
  proof (cases "len = 0 \<or> length file \<le> position")
    case True
    then show ?thesis by (subst readExactly.simps) (auto simp: handle_read_def)
  next
    case False
    then have got: "?got = take ?k (drop position file)" "?got \<noteq> []" and len: "len \<noteq> 0"
      by (auto simp: handle_read_def)
    have l: "length ?got = min ?k (length file - position)" by (simp add: got(1))
    have same: "take (length ?got) (drop position file) = ?got" unfolding got(1) by (rule take_length_take)
    have "length ?got \<le> len" using l by simp
    then have cut: "take len (drop position file) =
        ?got @ take (len - length ?got) (drop (position + length ?got) file)"
      using take_cut [of "length ?got" len position "file"] unfolding same by blast
    have "len - length ?got = 0 \<or> position + length ?got + (len - length ?got) \<le> length file
        \<longleftrightarrow> position + len \<le> length file" using l False by auto
    then show ?thesis
      using 1 [OF len refl got(2)] len got(2) cut by (subst readExactly.simps) (auto simp: Let_def)
  qed
qed

lemma walk_chunks_eq:
  assumes "walk_chunks grant file remaining position crc = (views, res)"
  shows "if remaining = 0 \<or> position + remaining \<le> length file
    then concat views = take remaining (drop position file) \<and>
      res = Inr (crc32Update crc (take remaining (drop position file)))
    else res = Inl ArchiveEnded"
  using assms
proof (induction grant "file" remaining position crc arbitrary: views res rule: walk_chunks.induct)
  case (1 grant "file" remaining position crc)
  let ?n = "min READ_CHUNK_BYTES remaining"
  show ?case
  proof (cases "remaining = 0")
    case True
    then show ?thesis using "1.prems" by (simp add: walk_chunks.simps crc32Update_def)
  next
    case False
    have n: "0 < ?n" using False by (simp add: READ_CHUNK_BYTES_def)
    show ?thesis
    proof (cases "position + ?n \<le> length file")
      case True
      let ?view = "take ?n (drop position file)"
      have view: "readExactly grant file ?n position = Inr ?view" using True by (simp add: readExactly_eq)
      obtain vs r where rest: "walk_chunks grant file (remaining - ?n) (position + ?n) (crc32Update crc ?view) = (vs, r)"
        by (cases "walk_chunks grant file (remaining - ?n) (position + ?n) (crc32Update crc ?view)")
      have now: "views = ?view # vs" "res = r"
        using "1.prems" False view rest by (subst (asm) walk_chunks.simps, simp add: Let_def)+
      have cut: "take remaining (drop position file) = ?view @ take (remaining - ?n) (drop (position + ?n) file)"
        by (rule take_cut) simp
      have "remaining - ?n = 0 \<or> position + ?n + (remaining - ?n) \<le> length file
          \<longleftrightarrow> position + remaining \<le> length file" using True by auto
      then show ?thesis
        using "1.IH" [OF False refl view rest] False unfolding now cut
        by (auto simp: crc32Update_append)
    next
      case False': False
      then have "readExactly grant file ?n position = Inl ArchiveEnded" using n by (simp add: readExactly_eq)
      then have "res = Inl ArchiveEnded" using "1.prems" False by (subst (asm) walk_chunks.simps) (simp add: Let_def)
      moreover have "\<not> position + remaining \<le> length file" using False' by auto
      ultimately show ?thesis using False by simp
    qed
  qed
qed

lemma walkStored_readEntry:
  assumes "requireEntry r name = Inr e" and "de_method e = 0" and "walkStored grant r name e = (views, res)"
  shows "case readEntry grant inflate r name of
      Inl err \<Rightarrow> res = Inl err | Inr data \<Rightarrow> res = Inr () \<and> concat views = data"
proof (cases "dataStart grant r e")
  case (Inl err)
  then show ?thesis using assms by (simp add: readEntry_def walkStored_def)
next
  case (Inr start)
  obtain vs rs where w: "walk_chunks grant (zr_file r) (de_compressed e) start CRC32_SEED = (vs, rs)"
    by (cases "walk_chunks grant (zr_file r) (de_compressed e) start CRC32_SEED")
  have v: "views = vs" "res = bind_result rs (\<lambda>crc.
      if unat (crc32Finish crc) \<noteq> de_crc e then Inl (CrcMismatch name) else Inr ())"
    using assms(3) Inr w by (simp_all add: walkStored_def)
  show ?thesis
    using walk_chunks_eq [OF w] assms(1,2) Inr
    by (auto simp: readEntry_def v readExactly_eq crc32_def split: if_splits)
qed

text \<open>Reading an entry in chunks is reading it whole: hashing it gives the hash of exactly the bytes
  readEntry returns, and extracting it writes exactly those bytes, whatever sizes the operating system
  returns per read; where readEntry throws, both throw the same error.\<close>

theorem streamed_entry_is_whole_entry:
  "hashEntry grant inflate sha256 r name = bind_result (readEntry grant inflate r name) (\<lambda>data. Inr (sha256 data)) \<and>
   (case readEntry grant inflate r name of
      Inl err \<Rightarrow> fst (extractTo grant inflate r name destination) = Inl err
    | Inr data \<Rightarrow> extractTo grant inflate r name destination = (Inr (), Some data))"
proof (cases "requireEntry r name")
  case (Inl err)
  then show ?thesis by (simp add: hashEntry_def extractTo_def readEntry_def)
next
  case (Inr e)
  show ?thesis
  proof (cases "de_method e = 0")
    case False
    then show ?thesis using Inr by (auto simp: hashEntry_def extractTo_def split: sum.splits)
  next
    case True
    obtain views res where w: "walkStored grant r name e = (views, res)"
      by (cases "walkStored grant r name e")
    show ?thesis using walkStored_readEntry [OF Inr True w, of inflate] Inr True w
      by (auto simp: hashEntry_def extractTo_def split: sum.splits)
  qed
qed



section \<open>Writing\<close>

lemma and_then_Inr:
  "and_then m f w = (Inr b, w'') \<longleftrightarrow> (\<exists>a w'. m w = (Inr a, w') \<and> f a w' = (Inr b, w''))"
  by (auto simp: and_then_def split: prod.splits sum.splits)

lemma steps_Inr:
  "give a w = (Inr b, w') \<longleftrightarrow> b = a \<and> w' = w"
  "\<not> throw e w = (Inr b, w')"
  "modify f w = (Inr u, w') \<longleftrightarrow> w' = f w"
  "lift_result r w = (Inr b, w') \<longleftrightarrow> r = Inr b \<and> w' = w"
  "assertWritable w = (Inr u, w') \<longleftrightarrow> \<not> zw_finished w \<and> \<not> zw_aborted w \<and> w' = w"
  "assertZip32 v e w = (Inr u, w') \<longleftrightarrow> v \<le> MAX_ZIP32_BYTES \<and> w' = w"
  by (auto simp: give_def throw_def modify_def lift_result_def assertWritable_def assertZip32_def)

text \<open>An item of an archive: the fields of its header and its payload.\<close>

type_synonym zip_item = "zip_fields \<times> byte list"

definition item_bytes :: "zip_item \<Rightarrow> byte list" where
  "item_bytes it = projr (encodeLocalHeader (fst it)) @ zf_name (fst it) @ snd it"

definition disk_image :: "zip_item list \<Rightarrow> byte list" where
  "disk_image its = concat (map item_bytes its)"

definition item_ok :: "zip_item \<Rightarrow> bool" where
  "item_ok it \<longleftrightarrow> is_ok (encodeLocalHeader (fst it)) \<and> zf_compressed (fst it) = length (snd it)"

text \<open>The writer holds exactly the items: on disk, and in its list of entries.\<close>

definition written :: "zip_item list \<Rightarrow> zip_writer \<Rightarrow> bool" where
  "written its w \<longleftrightarrow>
     zw_disk w = disk_image its \<and> zw_offset w = length (disk_image its) \<and>
     map zip_fields.truncate (zw_entries w) = map fst its \<and>
     map we_offset (zw_entries w) = map (\<lambda>i. length (disk_image (take i its))) [0..<length its] \<and>
     list_all item_ok its \<and> \<not> zw_finished w \<and> \<not> zw_aborted w"

lemma image_empty [simp]: "disk_image [] = []"
  by (simp add: disk_image_def)

lemma image_append: "disk_image (its @ its') = disk_image its @ disk_image its'"
  by (simp add: disk_image_def)

lemma image_single: "disk_image [it] = item_bytes it"
  by (simp add: disk_image_def)

lemma overwrite_end: "overwrite (length d) bs d = d @ bs"
  by (simp add: overwrite_def)

lemma append_bytes_result:
  assumes "zw_offset w = length (zw_disk w)"
  shows "append_bytes bs w = (Inr (), w\<lparr>zw_disk := zw_disk w @ bs, zw_offset := zw_offset w + length bs\<rparr>)"
  using assms by (simp add: append_bytes_def and_then_def writeAt_def modify_def overwrite_end)

lemma header_name_result:
  assumes "zw_offset w = length (zw_disk w)"
    and "writeEntryHeaderAndName name crc method c u w = (Inr (), w')"
  shows "\<exists>h. encodeLocalHeader (zip_fields.make (utf8_encode name) method crc c u) = Inr h \<and>
    w' = w\<lparr>zw_disk := zw_disk w @ h @ utf8_encode name,
           zw_offset := zw_offset w + length h + length (utf8_encode name),
           zw_entries := zw_entries w @ [zip_fields.extend (zip_fields.make (utf8_encode name) method crc c u)
             \<lparr>we_offset = zw_offset w\<rparr>]\<rparr>"
  using assms by (auto simp: writeEntryHeaderAndName_def Let_def and_then_Inr steps_Inr append_bytes_result)

lemma fields_of_entry: "zip_fields.truncate (zip_fields.extend f x) = f"
  by (simp add: zip_fields.defs)

lemma written_snoc:
  assumes "written its w" and "item_ok it" and "f = fst it"
  shows "written (its @ [it])
    (w\<lparr>zw_disk := zw_disk w @ item_bytes it, zw_offset := zw_offset w + length (item_bytes it),
       zw_entries := zw_entries w @ [zip_fields.extend f \<lparr>we_offset = zw_offset w\<rparr>]\<rparr>)"
  using assms by (auto simp: written_def image_append image_single fields_of_entry zip_fields.defs)

text \<open>What an addition must leave in the archive.\<close>

datatype zip_add = AddBuffer units "byte list" | AddFile units nat "byte list list"

fun add_name :: "zip_add \<Rightarrow> units" where
  "add_name (AddBuffer n _) = n"
| "add_name (AddFile n _ _) = n"

fun add_data :: "zip_add \<Rightarrow> byte list" where
  "add_data (AddBuffer _ d) = d"
| "add_data (AddFile _ _ chunks) = concat chunks"

fun zip_step :: "(byte list \<Rightarrow> byte list) \<Rightarrow> zip_add \<Rightarrow> unit writes" where
  "zip_step deflate (AddBuffer n d) = addBuffer deflate n d"
| "zip_step deflate (AddFile n sz chunks) = addFile n (Some (sz, chunks))"

fun write_all :: "(byte list \<Rightarrow> byte list) \<Rightarrow> zip_add list \<Rightarrow> unit writes" where
  "write_all deflate [] = give ()"
| "write_all deflate (a # as) = and_then (zip_step deflate a) (\<lambda>_. write_all deflate as)"

definition write_archive :: "(byte list \<Rightarrow> byte list) \<Rightarrow> zip_add list \<Rightarrow> unit writes" where
  "write_archive deflate adds = and_then (write_all deflate adds) (\<lambda>_. finish)"

definition item_for :: "(byte list \<Rightarrow> byte list) \<Rightarrow> zip_add \<Rightarrow> zip_item \<Rightarrow> bool" where
  "item_for deflate a it \<longleftrightarrow>
     zf_name (fst it) = utf8_encode (add_name a) \<and> zf_crc (fst it) = crc32 (add_data a) \<and>
     zf_uncompressed (fst it) = length (add_data a) \<and> length (snd it) \<le> length (add_data a) \<and>
     (zf_method (fst it) = 0 \<and> snd it = add_data a \<or> zf_method (fst it) = 8 \<and> snd it = deflate (add_data a))"

lemma make_fields [simp]:
  "zf_name (zip_fields.make n m c s u) = n" "zf_method (zip_fields.make n m c s u) = m"
  "zf_crc (zip_fields.make n m c s u) = c" "zf_compressed (zip_fields.make n m c s u) = s"
  "zf_uncompressed (zip_fields.make n m c s u) = u"
  by (simp_all add: zip_fields.defs)

lemma addBuffer_written:
  assumes w: "written its w" and run: "addBuffer deflate name data w = (Inr (), w')"
  shows "\<exists>it. written (its @ [it]) w' \<and> item_for deflate (AddBuffer name data) it"
proof -
  define z where "z = (length (deflate data) < length data)"
  define pl where "pl = (if z then deflate data else data)"
  define f where "f = zip_fields.make (utf8_encode name) (if z then 8 else 0) (crc32 data) (length pl) (length data)"
  have off: "zw_offset w = length (zw_disk w)" using w by (simp add: written_def)
  obtain w1 where h1: "writeEntryHeaderAndName name (crc32 data) (if z then 8 else 0) (length pl) (length data) w = (Inr (), w1)"
    and h2: "append_bytes pl w1 = (Inr (), w')"
    using run by (auto simp: addBuffer_def and_then_Inr steps_Inr Let_def z_def pl_def)
  from header_name_result [OF off h1] obtain h where h: "encodeLocalHeader f = Inr h"
    and w1: "w1 = w\<lparr>zw_disk := zw_disk w @ h @ utf8_encode name,
           zw_offset := zw_offset w + length h + length (utf8_encode name),
           zw_entries := zw_entries w @ [zip_fields.extend f \<lparr>we_offset = zw_offset w\<rparr>]\<rparr>"
    unfolding f_def by blast
  have bytes: "item_bytes (f, pl) = h @ utf8_encode name @ pl" by (simp add: item_bytes_def h) (simp add: f_def)
  have "zw_offset w1 = length (zw_disk w1)" using off by (simp add: w1)
  from append_bytes_result [OF this, of pl] h2
  have "w' = w\<lparr>zw_disk := zw_disk w @ item_bytes (f, pl), zw_offset := zw_offset w + length (item_bytes (f, pl)),
       zw_entries := zw_entries w @ [zip_fields.extend f \<lparr>we_offset = zw_offset w\<rparr>]\<rparr>"
    by (auto simp: w1 bytes add.assoc)
  moreover have "item_ok (f, pl)" by (simp add: item_ok_def h) (simp add: f_def)
  moreover have "item_for deflate (AddBuffer name data) (f, pl)" by (simp add: item_for_def f_def pl_def z_def)
  ultimately show ?thesis using written_snoc [OF w, of "(f, pl)" f] by auto
qed

text \<open>The patch of a header's CRC field is the header with that CRC.\<close>

lemma patched_header:
  assumes "encodeLocalHeader f = Inr h" and "writeUInt32LE (unat crc) = Inr field"
  shows "encodeLocalHeader (f\<lparr>zf_crc := crc\<rparr>) = Inr (overwrite LOCAL_HEADER_CRC_OFFSET field h)"
proof -
  from assms(1) obtain b1 b2 b3 b4 b5 b6 b7 b8 b9 where
    w: "writeUInt32LE LOCAL_HEADER = Inr b1" "writeUInt16LE 20 = Inr b2" "writeUInt16LE 0x0800 = Inr b3"
      "writeUInt16LE (zf_method f) = Inr b4" "writeUInt32LE 0 = Inr b5" "writeUInt32LE (unat (zf_crc f)) = Inr b6"
      "writeUInt32LE (zf_compressed f) = Inr b7" "writeUInt32LE (zf_uncompressed f) = Inr b8"
      "writeUInt16LE (length (zf_name f)) = Inr b9"
    and h: "h = b1 @ b2 @ b3 @ b4 @ b5 @ b6 @ b7 @ b8 @ b9 @ [0, 0]"
    by (auto simp: encodeLocalHeader_def pack_Inr list_all2_Cons1 write_zero)
  have l: "length b1 = 4" "length b2 = 2" "length b3 = 2" "length b4 = 2" "length b5 = 4" "length b6 = 4"
    "length field = 4"
    using length_written(2) [OF w(1)] length_written(1) [OF w(2)] length_written(1) [OF w(3)]
      length_written(1) [OF w(4)] length_written(2) [OF w(5)] length_written(2) [OF w(6)]
      length_written(2) [OF assms(2)] by simp_all
  have "overwrite LOCAL_HEADER_CRC_OFFSET field h = b1 @ b2 @ b3 @ b4 @ b5 @ field @ b7 @ b8 @ b9 @ [0, 0]"
    using l by (simp add: overwrite_def h LOCAL_HEADER_CRC_OFFSET_def)
  moreover have "encodeLocalHeader (f\<lparr>zf_crc := crc\<rparr>) = Inr (b1 @ b2 @ b3 @ b4 @ b5 @ field @ b7 @ b8 @ b9 @ [0, 0])"
    using w assms(2) write_zero by (simp add: encodeLocalHeader_def pack_def)
  ultimately show ?thesis by simp
qed

lemma overwrite_inside:
  "n + length bs \<le> length h \<Longrightarrow> overwrite (length d + n) bs (d @ h @ t) = d @ overwrite n bs h @ t"
  by (simp add: overwrite_def)

lemma copy_chunks_result:
  "zw_offset w = length (zw_disk w) \<Longrightarrow>
     copy_chunks chunks crc n w = (Inr (crc32Update crc (concat chunks), n + length (concat chunks)),
       w\<lparr>zw_disk := zw_disk w @ concat chunks, zw_offset := zw_offset w + length (concat chunks)\<rparr>)"
proof (induction chunks arbitrary: crc n w)
  case Nil
  then show ?case by (simp add: give_def crc32Update_def)
next
  case (Cons view views)
  have "zw_offset (w\<lparr>zw_disk := zw_disk w @ view, zw_offset := zw_offset w + length view\<rparr>)
      = length (zw_disk (w\<lparr>zw_disk := zw_disk w @ view, zw_offset := zw_offset w + length view\<rparr>))"
    using Cons.prems by simp
  from Cons.IH [OF this] Cons.prems show ?case
    by (simp add: and_then_def append_bytes_result crc32Update_append add.assoc)
qed

lemma addFile_written:
  assumes w: "written its w" and run: "addFile name (Some (sz, chunks)) w = (Inr (), w')"
  shows "\<exists>it. written (its @ [it]) w' \<and> item_for deflate (AddFile name sz chunks) it"
proof -
  define f where "f = zip_fields.make (utf8_encode name) 0 0 sz sz"
  define pl where "pl = concat chunks"
  define crc where "crc = crc32 pl"
  have off: "zw_offset w = length (zw_disk w)" using w by (simp add: written_def)
  obtain w1 w2 c w3 field where h1: "writeEntryHeaderAndName name 0 0 sz sz w = (Inr (), w1)"
    and h2: "copyFileContents chunks sz w1 = (Inr c, w2)"
    and h3: "w3 = w2\<lparr>zw_entries := (case rev (zw_entries w2) of [] \<Rightarrow> [] | e # es \<Rightarrow> rev (e\<lparr>zf_crc := c\<rparr> # es))\<rparr>"
    and h4: "writeUInt32LE (unat c) = Inr field"
    and h5: "w' = w3\<lparr>zw_disk := overwrite (zw_offset w + LOCAL_HEADER_CRC_OFFSET) field (zw_disk w3)\<rparr>"
    using run by (auto simp: addFile_def and_then_Inr steps_Inr Let_def writeAt_def)
  from header_name_result [OF off h1] obtain h where h: "encodeLocalHeader f = Inr h"
    and w1: "w1 = w\<lparr>zw_disk := zw_disk w @ h @ utf8_encode name,
           zw_offset := zw_offset w + length h + length (utf8_encode name),
           zw_entries := zw_entries w @ [zip_fields.extend f \<lparr>we_offset = zw_offset w\<rparr>]\<rparr>"
    unfolding f_def by blast
  have off1: "zw_offset w1 = length (zw_disk w1)" using off by (simp add: w1)
  have c: "c = crc" and sz: "length pl = sz"
    and w2: "w2 = w1\<lparr>zw_disk := zw_disk w1 @ pl, zw_offset := zw_offset w1 + length pl\<rparr>"
    using h2 copy_chunks_result [OF off1, of chunks CRC32_SEED 0]
    by (auto simp: copyFileContents_def and_then_Inr steps_Inr crc_def crc32_def pl_def split: if_splits)
  let ?h = "overwrite LOCAL_HEADER_CRC_OFFSET field h" and ?f = "f\<lparr>zf_crc := crc\<rparr>"
  have hp: "encodeLocalHeader ?f = Inr ?h" using patched_header [OF h h4] by (simp add: c)
  have lens: "length ?h = length h" using local_header(1) [OF h] local_header(1) [OF hp] by simp
  have bytes: "item_bytes (?f, pl) = ?h @ utf8_encode name @ pl" by (simp add: item_bytes_def hp) (simp add: f_def)
  have "LOCAL_HEADER_CRC_OFFSET + length field \<le> length h"
    using local_header(1) [OF h] length_written(2) [OF h4] by (simp add: LOCAL_HEADER_SIZE_def LOCAL_HEADER_CRC_OFFSET_def)
  then have patched: "overwrite (zw_offset w + LOCAL_HEADER_CRC_OFFSET) field (zw_disk w @ h @ utf8_encode name @ pl) =
      zw_disk w @ item_bytes (?f, pl)"
    unfolding off bytes by (rule overwrite_inside)
  have "w' = w\<lparr>zw_disk := zw_disk w @ item_bytes (?f, pl), zw_offset := zw_offset w + length (item_bytes (?f, pl)),
       zw_entries := zw_entries w @ [zip_fields.extend ?f \<lparr>we_offset = zw_offset w\<rparr>]\<rparr>"
    unfolding h5 h3 w2 w1 using patched lens by (simp add: bytes c zip_fields.defs add.assoc)
  moreover have "item_ok (?f, pl)" using sz by (simp add: item_ok_def hp) (simp add: f_def)
  moreover have "item_for deflate (AddFile name sz chunks) (?f, pl)"
    using sz by (simp add: item_for_def f_def pl_def crc_def)
  ultimately show ?thesis using written_snoc [OF w, of "(?f, pl)" ?f] by auto
qed

lemma zip_step_written:
  "written its w \<Longrightarrow> zip_step deflate a w = (Inr (), w') \<Longrightarrow> \<exists>it. written (its @ [it]) w' \<and> item_for deflate a it"
  by (cases a) (simp_all add: addBuffer_written addFile_written del: split_paired_Ex)

lemma write_all_written:
  "written its w \<Longrightarrow> write_all deflate adds w = (Inr (), w') \<Longrightarrow>
     \<exists>new. written (its @ new) w' \<and> list_all2 (item_for deflate) adds new"
proof (induction adds arbitrary: its w)
  case Nil
  then show ?case by (auto simp: steps_Inr intro: exI [of _ "[]"])
next
  case (Cons a as)
  obtain w1 where step: "zip_step deflate a w = (Inr (), w1)" and rest: "write_all deflate as w1 = (Inr (), w')"
    using Cons.prems(2) by (auto simp: and_then_Inr)
  obtain it where it: "written (its @ [it]) w1" "item_for deflate a it"
    using zip_step_written [OF Cons.prems(1) step] by blast
  obtain new where "written ((its @ [it]) @ new) w'" "list_all2 (item_for deflate) as new"
    using Cons.IH [OF it(1) rest] by blast
  then show ?case using it(2) by (auto intro!: exI [of _ "it # new"])
qed

section \<open>The directory\<close>

definition central_record :: "zip_fields \<Rightarrow> nat \<Rightarrow> byte list" where
  "central_record f off = projr (encodeCentralHeader f off) @ zf_name f"

definition central_ok :: "zip_fields \<Rightarrow> nat \<Rightarrow> bool" where
  "central_ok f off \<longleftrightarrow> is_ok (encodeCentralHeader f off)"

definition entry_of :: "zip_fields \<Rightarrow> nat \<Rightarrow> directory_entry" where
  "entry_of f off = \<lparr>de_method = zf_method f, de_crc = unat (zf_crc f), de_compressed = zf_compressed f,
     de_uncompressed = zf_uncompressed f, de_localOffset = off\<rparr>"

lemma write_directory_result:
  assumes "zw_offset w = length (zw_disk w)" and "write_directory es w = (Inr (), w')"
  shows "list_all (\<lambda>e. central_ok (zip_fields.truncate e) (we_offset e)) es \<and>
    w' = w\<lparr>zw_disk := zw_disk w @ concat (map (\<lambda>e. central_record (zip_fields.truncate e) (we_offset e)) es),
           zw_offset := zw_offset w + length (concat (map (\<lambda>e. central_record (zip_fields.truncate e) (we_offset e)) es))\<rparr>"
  using assms
proof (induction es arbitrary: w)
  case Nil
  then show ?case by (simp add: steps_Inr)
next
  case (Cons e es)
  let ?f = "zip_fields.truncate e"
  obtain w1 where s1: "writeCentralHeader e w = (Inr (), w1)" and s2: "write_directory es w1 = (Inr (), w')"
    using Cons.prems(2) by (auto simp: and_then_Inr)
  obtain h where h: "encodeCentralHeader ?f (we_offset e) = Inr h"
    and w1: "w1 = w\<lparr>zw_disk := zw_disk w @ h @ zf_name e, zw_offset := zw_offset w + length h + length (zf_name e)\<rparr>"
    using s1 Cons.prems(1) by (auto simp: writeCentralHeader_def and_then_Inr steps_Inr append_bytes_result)
  have r: "central_record ?f (we_offset e) = h @ zf_name e" 
  proof -
    have "zf_name ?f = zf_name e" by (simp add: zip_fields.defs)
    then show ?thesis by (simp add: central_record_def h)
  qed
  have ok: "central_ok ?f (we_offset e)" by (simp add: central_ok_def h)
  have "zw_offset w1 = length (zw_disk w1)" using Cons.prems(1) by (simp add: w1)
  from Cons.IH [OF this s2] show ?case using ok by (auto simp: w1 r add.assoc)
qed

lemma decode_directory_records:
  assumes "list_all (\<lambda>(f, off). central_ok f off \<and> zf_method f \<in> {0, 8}) fos"
  shows "decode_directory (pre @ concat (map (\<lambda>(f, off). central_record f off) fos)) (length fos) (length pre) dir =
    Inr (fold (\<lambda>(f, off). AList.update (utf8_decode (zf_name f)) (entry_of f off)) fos dir)"
  using assms
proof (induction fos arbitrary: pre dir)
  case (Cons fo fos)
  obtain f off where fo: "fo = (f, off)" by (cases fo)
  obtain h where h: "encodeCentralHeader f off = Inr h" "zf_method f \<in> {0, 8}"
    using Cons.prems by (auto simp: fo central_ok_def dest: is_ok_projr)
  have r: "central_record f off = h @ zf_name f" by (simp add: central_record_def h)
  let ?rest = "concat (map (\<lambda>(f, off). central_record f off) fos)"
  note d = decode_central(1) [OF h refl, where pre = pre and post = ?rest]
  have IH: "decode_directory ((pre @ h @ zf_name f) @ ?rest) (length fos) (length (pre @ h @ zf_name f)) d'
      = Inr (fold (\<lambda>(f, off). AList.update (utf8_decode (zf_name f)) (entry_of f off)) fos d')" for d'
    by (rule Cons.IH) (use Cons.prems in \<open>simp add: fo\<close>)
  show ?case using IH d decode_central(2) [OF h refl] by (simp add: fo r entry_of_def)
qed simp

lemma map_of_fold_update:
  "map_of (fold (\<lambda>x. AList.update (k x) (v x)) xs dir) name =
     (case find (\<lambda>x. k x = name) (rev xs) of Some x \<Rightarrow> Some (v x) | None \<Rightarrow> map_of dir name)"
proof (induction xs rule: rev_induct)
  case (snoc x xs)
  then show ?case by (simp add: update_conv')
qed simp

lemma finish_result:
  assumes w: "written its w" and run: "finish w = (Inr (), w')"
  shows "\<exists>es eocd. es = map (\<lambda>i. (fst (its ! i), length (disk_image (take i its)))) [0..<length its] \<and>
    list_all (\<lambda>(f, off). central_ok f off) es \<and>
    encodeEocd (length its) (length (concat (map (\<lambda>(f, off). central_record f off) es))) (length (disk_image its)) = Inr eocd \<and>
    zw_disk w' = disk_image its @ concat (map (\<lambda>(f, off). central_record f off) es) @ eocd"
proof -
  let ?es = "map (\<lambda>i. (fst (its ! i), length (disk_image (take i its)))) [0..<length its]"
  let ?w = "w\<lparr>zw_finished := True\<rparr>"
  have len: "length (zw_entries w) = length its" using w by (metis written_def length_map)
  have es: "map (\<lambda>e. (zip_fields.truncate e, we_offset e)) (zw_entries w) = ?es"
  proof (rule nth_equalityI)
    fix i assume i: "i < length (map (\<lambda>e. (zip_fields.truncate e, we_offset e)) (zw_entries w))"
    then have il: "i < length its" using len by simp
    have "map zip_fields.truncate (zw_entries w) ! i = map fst its ! i"
      "map we_offset (zw_entries w) ! i = map (\<lambda>i. length (disk_image (take i its))) [0..<length its] ! i"
      using w unfolding written_def by metis+
    then show "map (\<lambda>e. (zip_fields.truncate e, we_offset e)) (zw_entries w) ! i = ?es ! i"
      using i il by simp
  qed (simp add: len)
  have recs: "concat (map (\<lambda>e. central_record (zip_fields.truncate e) (we_offset e)) (zw_entries w)) =
      concat (map (\<lambda>(f, off). central_record f off) ?es)"
    unfolding es [symmetric] by (simp add: comp_def)
  have off: "zw_offset ?w = length (zw_disk ?w)" using w by (simp add: written_def)
  obtain w2 where body: "finish_body ?w = (Inr (), w2)" and w': "w' = w2\<lparr>zw_open := False\<rparr>"
    using run by (auto simp: finish_def and_then_Inr steps_Inr Let_def split: prod.splits)
  obtain w1 eocd where s1: "write_directory (zw_entries w) ?w = (Inr (), w1)"
    and s2: "encodeEocd (length (zw_entries w1)) (zw_offset w1 - zw_offset w) (zw_offset w) = Inr eocd"
    and s3: "append_bytes eocd w1 = (Inr (), w2)"
    using body by (auto simp: finish_body_def and_then_Inr steps_Inr Let_def)
  note d = write_directory_result [OF off s1, unfolded recs]
  have "zw_offset w1 = length (zw_disk w1)" using d off by simp
  from append_bytes_result [OF this, of eocd] s3 have disk: "zw_disk w' = zw_disk w1 @ eocd" unfolding w' by auto
  have "list_all (\<lambda>(f, off). central_ok f off) ?es" using d unfolding es [symmetric] by (simp add: list.pred_map comp_def)
  moreover have "encodeEocd (length its) (length (concat (map (\<lambda>(f, off). central_record f off) ?es)))
      (length (disk_image its)) = Inr eocd"
    using s2 d w len by (simp add: written_def)
  moreover have "zw_disk w' = disk_image its @ concat (map (\<lambda>(f, off). central_record f off) ?es) @ eocd"
    using disk d w by (simp add: written_def)
  ultimately show ?thesis by blast
qed

section \<open>The round trip\<close>

lemma find_map_comp: "find P (map f xs) = map_option f (find (P \<circ> f) xs)"
  by (induction xs) auto

lemma map_of_rev_find: "map_of (rev (map (\<lambda>a. (k a, v a)) xs)) name = map_option v (find (\<lambda>a. k a = name) (rev xs))"
  by (induction xs rule: rev_induct) auto

lemma split_at: "i < length xs \<Longrightarrow> xs = take i xs @ [xs ! i] @ drop (Suc i) xs"
  by (simp add: id_take_nth_drop)

lemma read_item:
  assumes "i < length its" and "item_ok (its ! i)"
    and r: "zr_file r = disk_image its @ rest" "de_localOffset e = length (disk_image (take i its))"
      "de_compressed e = zf_compressed (fst (its ! i))"
  shows "\<exists>start. dataStart grant r e = Inr start \<and>
    readExactly grant (zr_file r) (de_compressed e) start = Inr (snd (its ! i))"
proof -
  obtain f pl where it: "its ! i = (f, pl)" by (cases "its ! i")
  obtain h where h: "encodeLocalHeader f = Inr h" and pl: "zf_compressed f = length pl"
    using assms(2) by (auto simp: item_ok_def it dest: is_ok_projr)
  let ?pre = "disk_image (take i its)" and ?post = "disk_image (drop (Suc i) its) @ rest"
  have "its = take i its @ [its ! i] @ drop (Suc i) its" using assms(1) by (rule split_at)
  then have "disk_image its = ?pre @ disk_image [its ! i] @ disk_image (drop (Suc i) its)"
    by (metis image_append)
  then have zfile: "zr_file r = ?pre @ h @ zf_name f @ pl @ ?post"
    unfolding r(1) image_single by (simp add: it item_bytes_def h)
  have "readExactly grant (zr_file r) LOCAL_HEADER_SIZE (length ?pre) = Inr h"
    using local_header(1) [OF h] by (simp add: readExactly_eq zfile)
  then have "dataStart grant r e = Inr (length ?pre + LOCAL_HEADER_SIZE + length (zf_name f))"
    using local_header(3) [OF h] by (simp add: dataStart_def r(2))
  moreover have "readExactly grant (zr_file r) (length pl) (length ?pre + LOCAL_HEADER_SIZE + length (zf_name f)) = Inr pl"
    using local_header(1) [OF h] by (simp add: readExactly_eq zfile)
  ultimately show ?thesis using r(3) pl by (simp add: it)
qed

lemma read_directory:
  assumes eocd: "encodeEocd (length es) (length C) (length I) = Inr eocd"
    and C: "C = concat (map (\<lambda>(f, off). central_record f off) es)"
    and ok: "list_all (\<lambda>(f, off). central_ok f off \<and> zf_method f \<in> {0, 8}) es"
  shows "readCentralDirectory grant (I @ C @ eocd) =
    Inr (fold (\<lambda>(f, off). AList.update (utf8_decode (zf_name f)) (entry_of f off)) es [])"
proof -
  let ?F = "I @ C @ eocd"
  let ?n = "min (length ?F) (EOCD_SIZE + MAX_COMMENT_LENGTH)"
  let ?pre = "drop (length ?F - ?n) (I @ C)"
  note len = eocd_record(1) [OF eocd]
  have "length ?F - ?n \<le> length (I @ C)" using len by auto
  then have "drop (length ?F - ?n) ((I @ C) @ eocd) = ?pre @ eocd" by (simp only: drop_append drop_0 diff_is_0_eq')
  moreover have "length (drop (length ?F - ?n) ?F) \<le> ?n" by (simp only: length_drop)
  ultimately have tail: "take ?n (drop (length ?F - ?n) ?F) = ?pre @ eocd" by (simp only: take_all append_assoc)
  have "readExactly grant ?F ?n (length ?F - ?n) = Inr (take ?n (drop (length ?F - ?n) ?F))"
    by (simp add: readExactly_eq)
  then have t: "readExactly grant ?F ?n (length ?F - ?n) = Inr (?pre @ eocd)" unfolding tail .
  have c: "readExactly grant ?F (length C) (length I) = Inr C" by (simp add: readExactly_eq)
  have dir: "decode_directory C (length es) 0 [] =
      Inr (fold (\<lambda>(f, off). AList.update (utf8_decode (zf_name f)) (entry_of f off)) es [])"
    using decode_directory_records [OF ok, of "[]" "[]"] by (simp add: C)
  show ?thesis
    unfolding readCentralDirectory_def Let_def t bind_result_simps find_eocd_last [OF eocd]
      eocd_record(3-5) [OF eocd] c dir ..
qed

definition item_entry :: "zip_item list \<Rightarrow> nat \<Rightarrow> directory_entry" where
  "item_entry its i = entry_of (fst (its ! i)) (length (disk_image (take i its)))"

text \<open>Which addition a name stands for: the last one under it.\<close>

definition last_added :: "zip_add list \<Rightarrow> units \<Rightarrow> nat option" where
  "last_added adds name = find (\<lambda>i. add_name (adds ! i) = name) (rev [0..<length adds])"

lemma last_added_spec:
  "map_of (rev (map (\<lambda>a. (add_name a, f a)) adds)) name = map_option (\<lambda>i. f (adds ! i)) (last_added adds name)"
proof -
  have "find (\<lambda>a. add_name a = name) (rev (map ((!) adds) [0..<length adds])) =
      map_option ((!) adds) (last_added adds name)"
    unfolding last_added_def rev_map find_map_comp by (simp add: comp_def)
  then show ?thesis unfolding map_of_rev_find map_nth by (simp add: option.map_comp comp_def)
qed

lemma last_added_bound:
  assumes "last_added adds name = Some i"
  shows "i < length adds \<and> add_name (adds ! i) = name"
proof -
  obtain j where "j < length (rev [0..<length adds])" "i = rev [0..<length adds] ! j" "add_name (adds ! i) = name"
    using assms unfolding last_added_def find_Some_iff by blast
  then show ?thesis using nth_mem [of j "rev [0..<length adds]"] by simp
qed

lemma last_added_None: "last_added adds name = None \<longleftrightarrow> name \<notin> add_name ` set adds"
proof -
  have "last_added adds name = None \<longleftrightarrow> (\<forall>i < length adds. add_name (adds ! i) \<noteq> name)"
    unfolding last_added_def find_None_iff by auto
  also have "\<dots> \<longleftrightarrow> name \<notin> add_name ` set adds" by (auto simp: set_conv_nth)
  finally show ?thesis .
qed

lemma distinct_fold_update: "distinct (map fst dir) \<Longrightarrow> distinct (map fst (fold (\<lambda>x. AList.update (k x) (v x)) xs dir))"
  by (induction xs arbitrary: dir) (simp_all add: distinct_update)

lemma archive_opens:
  assumes names: "list_all (\<lambda>a. well_formed (add_name a)) adds"
    and its: "written its w1" "list_all2 (item_for deflate) adds its"
    and fin: "finish w1 = (Inr (), w)"
  obtains dir rest where "open_archive grant (zw_disk w) = Inr \<lparr>zr_file = disk_image its @ rest, zr_directory = dir\<rparr>"
    "\<And>k. map_of dir k = map_option (item_entry its) (last_added adds k)" "distinct (map fst dir)"
proof -
  define g where "g i = (fst (its ! i), length (disk_image (take i its)))" for i
  define es where "es = map g [0..<length its]"
  obtain eocd where es: "list_all (\<lambda>(f, off). central_ok f off) es"
    "encodeEocd (length its) (length (concat (map (\<lambda>(f, off). central_record f off) es))) (length (disk_image its)) = Inr eocd"
    "zw_disk w = disk_image its @ concat (map (\<lambda>(f, off). central_record f off) es) @ eocd"
    using finish_result [OF its(1) fin] unfolding es_def g_def by blast
  have n: "length adds = length its" using its(2) by (rule list_all2_lengthD)
  have item: "item_for deflate (adds ! i) (its ! i)" if "i < length its" for i
    using its(2) that n by (simp add: list_all2_conv_all_nth)
  have name_at: "utf8_decode (zf_name (fst (its ! i))) = add_name (adds ! i)" if "i < length its" for i
    using item [OF that] names n that by (simp add: item_for_def utf8_round_trip list_all_length)
  define dir where "dir = fold (\<lambda>x. AList.update (utf8_decode (zf_name (fst x))) (entry_of (fst x) (snd x))) es []"
  have "list_all (\<lambda>(f, off). zf_method f \<in> {0, 8}) es"
    using item by (auto simp: es_def g_def list_all_length item_for_def)
  with es(1) have "list_all (\<lambda>(f, off). central_ok f off \<and> zf_method f \<in> {0, 8}) es"
    by (auto simp: list_all_iff)
  from read_directory [OF _ refl this, of "disk_image its" eocd grant] es(2)
  have opened: "open_archive grant (zw_disk w) = Inr \<lparr>zr_file = zw_disk w, zr_directory = dir\<rparr>"
    by (simp add: open_archive_def es(3) dir_def split_def) (simp add: es_def)
  have "map_of dir k = map_option (item_entry its) (last_added adds k)" for k
  proof -
    have "find (\<lambda>x. utf8_decode (zf_name (fst x)) = k) (rev es) =
        map_option g (find ((\<lambda>x. utf8_decode (zf_name (fst x)) = k) \<circ> g) (rev [0..<length its]))"
      unfolding es_def rev_map find_map_comp ..
    also have "find ((\<lambda>x. utf8_decode (zf_name (fst x)) = k) \<circ> g) (rev [0..<length its]) = last_added adds k"
      unfolding last_added_def n by (rule find_cong) (auto simp: g_def name_at)
    finally show ?thesis unfolding dir_def map_of_fold_update
      by (cases "last_added adds k") (simp_all add: item_entry_def g_def)
  qed
  moreover have "distinct (map fst dir)" unfolding dir_def by (rule distinct_fold_update) simp
  moreover have "open_archive grant (zw_disk w) = Inr \<lparr>zr_file = disk_image its
      @ concat (map (\<lambda>(f, off). central_record f off) es) @ eocd, zr_directory = dir\<rparr>"
    using opened unfolding es(3) .
  ultimately show thesis using that by blast
qed

lemma read_back_item:
  assumes r: "zr_file r = disk_image its @ rest" "requireEntry r name = Inr (item_entry its i)"
    and it: "i < length its" "item_ok (its ! i)" "item_for deflate a (its ! i)"
    and codec: "\<And>d. inflate (deflate d) = Some d"
  shows "readEntry grant inflate r name = Inr (add_data a)"
proof -
  obtain start where "dataStart grant r (item_entry its i) = Inr start"
    "readExactly grant (zr_file r) (de_compressed (item_entry its i)) start = Inr (snd (its ! i))"
    using read_item [OF it(1,2) r(1), of "item_entry its i" grant] by (auto simp: item_entry_def entry_of_def)
  then show ?thesis using it(3) codec r(2)
    by (auto simp: readEntry_def item_for_def item_entry_def entry_of_def)
qed

text \<open>C23. The archive round trip. Whatever entries are added, from memory or streamed from files, when
  every addition and the final write succeeded, opening the archive succeeds, it lists exactly the
  added names, each once, and reading a name returns the bytes added last under it, deflated or stored;
  any other name is refused. Names are well-formed text and inflate undoes deflate.\<close>

theorem archive_round_trip:
  assumes names: "list_all (\<lambda>a. well_formed (add_name a)) adds"
    and codec: "\<And>d. inflate (deflate d) = Some d"
    and run: "write_archive deflate adds new_writer = (Inr (), w)"
  shows "case open_archive grant (zw_disk w) of Inl _ \<Rightarrow> False
    | Inr r \<Rightarrow> set (entryNames r) = add_name ` set adds \<and> distinct (entryNames r) \<and>
        readEntry grant inflate r name =
          (case map_of (rev (map (\<lambda>a. (add_name a, add_data a)) adds)) name of
             None \<Rightarrow> Inl (NoEntry name) | Some d \<Rightarrow> Inr d)"
proof -
  obtain w1 where all: "write_all deflate adds new_writer = (Inr (), w1)" and fin: "finish w1 = (Inr (), w)"
    using run by (auto simp: write_archive_def and_then_Inr)
  have "written [] new_writer" by (simp add: written_def new_writer_def)
  then obtain its where its: "written its w1" "list_all2 (item_for deflate) adds its"
    using write_all_written [OF _ all] by fastforce
  obtain dir rest where o: "open_archive grant (zw_disk w) = Inr \<lparr>zr_file = disk_image its @ rest, zr_directory = dir\<rparr>"
    and dir: "\<And>k. map_of dir k = map_option (item_entry its) (last_added adds k)" "distinct (map fst dir)"
    using archive_opens [OF names its fin] by blast
  let ?r = "\<lparr>zr_file = disk_image its @ rest, zr_directory = dir\<rparr>"
  have "k \<in> set (map fst dir) \<longleftrightarrow> map_of dir k \<noteq> None" for k by (auto simp: map_of_eq_None_iff)
  then have keys: "set (map fst dir) = add_name ` set adds" using last_added_None unfolding dir(1) by auto
  have "readEntry grant inflate ?r name =
      (case map_option (\<lambda>i. add_data (adds ! i)) (last_added adds name) of None \<Rightarrow> Inl (NoEntry name) | Some d \<Rightarrow> Inr d)"
  proof (cases "last_added adds name")
    case None
    then show ?thesis by (simp add: readEntry_def requireEntry_def dir)
  next
    case (Some i)
    then have i: "i < length its" using last_added_bound its(2) list_all2_lengthD by fastforce
    have "item_ok (its ! i)" "item_for deflate (adds ! i) (its ! i)"
      using its i by (simp_all add: written_def list_all_length list_all2_conv_all_nth)
    from read_back_item [OF _ _ i this codec, of ?r rest name grant] Some show ?thesis
      by (simp add: requireEntry_def dir)
  qed
  then show ?thesis using keys dir(2) by (simp add: o entryNames_def last_added_spec)
qed

section \<open>Writing succeeds within the limits of the format\<close>

lemma crc_fits: "unat (c :: u32) < 0x100000000"
  using unsigned_less [of c] by simp

lemma written_numbers:
  "v < 0x10000 \<Longrightarrow> \<exists>bs. writeUInt16LE v = Inr bs" "v < 0x100000000 \<Longrightarrow> \<exists>bs. writeUInt32LE v = Inr bs"
  "\<exists>bs. writeUInt32LE (unat (c :: u32)) = Inr bs"
  using crc_fits [of c] by (simp_all add: writeUInt16LE_def writeUInt32LE_def)

lemma pack_ok: "is_ok (pack parts) \<longleftrightarrow> list_all is_ok parts"
  by (induction parts) (auto simp: pack_def is_ok_def split: sum.splits)

lemma number_ok [simp]:
  "is_ok (writeUInt16LE v) \<longleftrightarrow> v < 0x10000" "is_ok (writeUInt32LE v) \<longleftrightarrow> v < 0x100000000"
  by (simp_all add: writeUInt16LE_def writeUInt32LE_def)

lemma headers_ok:
  "length (zf_name f) < 0x10000 \<Longrightarrow> zf_method f < 0x10000 \<Longrightarrow> zf_compressed f < 0x100000000 \<Longrightarrow>
     zf_uncompressed f < 0x100000000 \<Longrightarrow> is_ok (encodeLocalHeader f)"
  "length (zf_name f) < 0x10000 \<Longrightarrow> zf_method f < 0x10000 \<Longrightarrow> zf_compressed f < 0x100000000 \<Longrightarrow>
     zf_uncompressed f < 0x100000000 \<Longrightarrow> off < 0x100000000 \<Longrightarrow> is_ok (encodeCentralHeader f off)"
  "n < 0x10000 \<Longrightarrow> csize < 0x100000000 \<Longrightarrow> start < 0x100000000 \<Longrightarrow> is_ok (encodeEocd n csize start)"
  unfolding encodeLocalHeader_def encodeCentralHeader_def encodeEocd_def
  by (simp_all add: pack_ok LOCAL_HEADER_def CENTRAL_HEADER_def EOCD_def crc_fits)

text \<open>An addition that fits the fields of its records, and the room it takes in the archive.\<close>

fun fits :: "zip_add \<Rightarrow> bool" where
  "fits (AddBuffer n d) \<longleftrightarrow> length (utf8_encode n) < 0x10000 \<and> length d < 0x100000000"
| "fits (AddFile n sz chunks) \<longleftrightarrow>
     length (utf8_encode n) < 0x10000 \<and> sz = length (concat chunks) \<and> sz \<le> MAX_ZIP32_BYTES"

definition room :: "zip_add \<Rightarrow> nat" where
  "room a = LOCAL_HEADER_SIZE + CENTRAL_HEADER_SIZE + 2 * length (utf8_encode (add_name a)) + length (add_data a)"

lemma header_name_ok:
  assumes "zw_offset w = length (zw_disk w)" and "length (utf8_encode name) < 0x10000" and "m < 0x10000"
    and "c < 0x100000000" and "u < 0x100000000"
  shows "\<exists>w'. writeEntryHeaderAndName name crc m c u w = (Inr (), w') \<and> zw_offset w' = length (zw_disk w')"
proof -
  have "is_ok (encodeLocalHeader (zip_fields.make (utf8_encode name) m crc c u))"
    by (rule headers_ok) (use assms in simp_all)
  then obtain h where "encodeLocalHeader (zip_fields.make (utf8_encode name) m crc c u) = Inr h"
    by (auto dest: is_ok_projr)
  then show ?thesis using assms(1)
    by (simp add: writeEntryHeaderAndName_def Let_def and_then_def modify_def lift_result_def append_bytes_result)
qed

lemma zip_step_ok:
  assumes w: "written its w" and fits: "fits a"
  shows "\<exists>w'. zip_step deflate a w = (Inr (), w')"
proof -
  have off: "zw_offset w = length (zw_disk w)" and live: "\<not> zw_finished w" "\<not> zw_aborted w"
    using w by (simp_all add: written_def)
  show ?thesis
  proof (cases a)
    case (AddBuffer n d)
    let ?z = "length (deflate d) < length d"
    have "length (utf8_encode n) < 0x10000" "length (if ?z then deflate d else d) < 0x100000000" "length d < 0x100000000"
      using fits AddBuffer by auto
    note h = header_name_ok [OF off this(1) _ this(2,3), of "if ?z then 8 else 0" "crc32 d"]
    have "(if ?z then 8 else 0) < (0x10000 :: nat)" by simp
    from h [OF this] obtain w1 where
      "writeEntryHeaderAndName n (crc32 d) (if ?z then 8 else 0) (length (if ?z then deflate d else d)) (length d) w = (Inr (), w1)"
      "zw_offset w1 = length (zw_disk w1)" by blast
    then show ?thesis using live AddBuffer
      by (auto simp: addBuffer_def and_then_def assertWritable_def give_def Let_def append_bytes_result split: if_splits)
  next
    case (AddFile n sz chunks)
    then have f: "length (utf8_encode n) < 0x10000" "sz = length (concat chunks)" "sz \<le> MAX_ZIP32_BYTES" using fits by simp_all
    then have "sz < 0x100000000" by (simp add: MAX_ZIP32_BYTES_def)
    from header_name_ok [OF off f(1) _ this this, of 0 0] obtain w1 where
      "writeEntryHeaderAndName n 0 0 sz sz w = (Inr (), w1)" "zw_offset w1 = length (zw_disk w1)" by auto
    moreover obtain bs where "writeUInt32LE (unat (crc32Finish (crc32Update CRC32_SEED (concat chunks)))) = Inr bs"
      using written_numbers(3) by blast
    ultimately show ?thesis using live AddFile f(2,3)
      by (auto simp: addFile_def and_then_def assertWritable_def assertZip32_def give_def Let_def
          copyFileContents_def copy_chunks_result modify_def lift_result_def writeAt_def)
  qed
qed


lemma write_all_ok:
  "written its w \<Longrightarrow> list_all fits adds \<Longrightarrow> \<exists>w'. write_all deflate adds w = (Inr (), w')"
proof (induction adds arbitrary: its w)
  case Nil
  then show ?case by (simp add: give_def)
next
  case (Cons a as)
  obtain w1 where step: "zip_step deflate a w = (Inr (), w1)" using zip_step_ok Cons.prems by fastforce
  obtain it where "written (its @ [it]) w1" using zip_step_written [OF Cons.prems(1) step] by blast
  then show ?case using Cons.IH Cons.prems(2) step by (auto simp: and_then_def)
qed

lemma write_directory_ok:
  "zw_offset w = length (zw_disk w) \<Longrightarrow> list_all (\<lambda>e. central_ok (zip_fields.truncate e) (we_offset e)) es \<Longrightarrow>
     \<exists>w'. write_directory es w = (Inr (), w')"
proof (induction es arbitrary: w)
  case (Cons e es)
  obtain h where h: "encodeCentralHeader (zip_fields.truncate e) (we_offset e) = Inr h"
    using Cons.prems(2) by (auto simp: central_ok_def dest: is_ok_projr)
  then have s: "writeCentralHeader e w = (Inr (), w\<lparr>zw_disk := zw_disk w @ h @ zf_name e,
      zw_offset := zw_offset w + length h + length (zf_name e)\<rparr>)"
    using Cons.prems(1) by (simp add: writeCentralHeader_def and_then_def lift_result_def append_bytes_result)
  show ?case using Cons.IH Cons.prems by (simp add: and_then_def s)
qed (simp add: give_def)

lemma central_of_local:
  "is_ok (encodeLocalHeader f) \<Longrightarrow> off < 0x100000000 \<Longrightarrow> is_ok (encodeCentralHeader f off)"
  unfolding encodeLocalHeader_def encodeCentralHeader_def
  by (simp add: pack_ok CENTRAL_HEADER_def)

lemma image_take_le: "length (disk_image (take i its)) \<le> length (disk_image its)"
  using image_append [of "take i its" "drop i its"] by simp

lemma record_length: "central_ok f off \<Longrightarrow> length (central_record f off) = CENTRAL_HEADER_SIZE + length (zf_name f)"
  using central_length by (auto simp: central_record_def central_ok_def dest!: is_ok_projr)

lemma entries_central_ok:
  assumes w: "written its w" and n: "length (disk_image its) < 0x100000000"
  shows "list_all (\<lambda>e. central_ok (zip_fields.truncate e) (we_offset e)) (zw_entries w)"
proof -
  have len: "length (zw_entries w) = length its" using w by (metis written_def length_map)
  have "central_ok (zip_fields.truncate (zw_entries w ! i)) (we_offset (zw_entries w ! i))" if i: "i < length its" for i
  proof -
    have "map zip_fields.truncate (zw_entries w) ! i = map fst its ! i" using w by (simp only: written_def)
    then have f: "zip_fields.truncate (zw_entries w ! i) = fst (its ! i)" using i len by simp
    have "map we_offset (zw_entries w) ! i = map (\<lambda>i. length (disk_image (take i its))) [0..<length its] ! i"
      using w by (simp only: written_def)
    then have o: "we_offset (zw_entries w ! i) = length (disk_image (take i its))" using i len by simp
    have "is_ok (encodeLocalHeader (fst (its ! i)))" using w i by (simp add: written_def list_all_length item_ok_def)
    then show ?thesis unfolding f o central_ok_def
      by (rule central_of_local) (use image_take_le [of i its] n in linarith)
  qed
  then show ?thesis by (simp add: list_all_length len)
qed

lemma records_length:
  "list_all (\<lambda>(f, off). central_ok f off) fos \<Longrightarrow>
     length (concat (map (\<lambda>(f, off). central_record f off) fos)) =
       sum_list (map (\<lambda>fo. CENTRAL_HEADER_SIZE + length (zf_name (fst fo))) fos)"
  by (induction fos) (auto simp: record_length)

lemma finish_ok:
  assumes w: "written its w" and n: "length its < 0x10000"
    and room: "length (disk_image its) + sum_list (map (\<lambda>it. CENTRAL_HEADER_SIZE + length (zf_name (fst it))) its)
      \<le> MAX_ZIP32_BYTES"
  shows "\<exists>w'. finish w = (Inr (), w')"
proof -
  let ?w = "w\<lparr>zw_finished := True\<rparr>"
  let ?fos = "map (\<lambda>e. (zip_fields.truncate e, we_offset e)) (zw_entries w)"
  have off: "zw_offset ?w = length (zw_disk ?w)" and live: "\<not> zw_finished w" "\<not> zw_aborted w"
    and fields: "map zip_fields.truncate (zw_entries w) = map fst its"
    using w by (simp_all add: written_def)
  have small: "length (disk_image its) < 0x100000000" using room by (simp add: MAX_ZIP32_BYTES_def)
  note ok = entries_central_ok [OF w small]
  obtain w1 where w1: "write_directory (zw_entries w) ?w = (Inr (), w1)" using write_directory_ok [OF off ok] by blast
  have "length (concat (map (\<lambda>(f, off). central_record f off) ?fos)) =
      sum_list (map (\<lambda>f. CENTRAL_HEADER_SIZE + length (zf_name f)) (map zip_fields.truncate (zw_entries w)))"
    using ok by (subst records_length) (simp_all add: list.pred_map comp_def)
  then have c: "length (concat (map (\<lambda>e. central_record (zip_fields.truncate e) (we_offset e)) (zw_entries w))) =
      sum_list (map (\<lambda>it. CENTRAL_HEADER_SIZE + length (zf_name (fst it))) its)"
    unfolding fields by (simp add: comp_def)
  have o: "zw_offset w1 = length (disk_image its) + sum_list (map (\<lambda>it. CENTRAL_HEADER_SIZE + length (zf_name (fst it))) its)"
    and d: "zw_offset w1 = length (zw_disk w1)" and es: "length (zw_entries w1) = length its"
    and s: "zw_offset w = length (disk_image its)"
    using write_directory_result [OF off w1] w c off map_eq_imp_length_eq [OF fields] by (auto simp: written_def)
  have "is_ok (encodeEocd (length (zw_entries w1)) (zw_offset w1 - zw_offset w) (zw_offset w))"
    by (rule headers_ok) (use n room in \<open>simp_all add: es o s MAX_ZIP32_BYTES_def\<close>)
  then obtain h where h: "encodeEocd (length (zw_entries w1)) (zw_offset w1 - zw_offset w) (zw_offset w) = Inr h"
    by (auto dest: is_ok_projr)
  have "zw_offset w1 \<le> MAX_ZIP32_BYTES" using room o by simp
  then show ?thesis using live w1 h append_bytes_result [OF d, of h]
    by (simp add: finish_def finish_body_def and_then_def assertWritable_def assertZip32_def give_def lift_result_def Let_def)
qed

lemma item_room:
  "item_for deflate a it \<Longrightarrow> item_ok it \<Longrightarrow>
     length (item_bytes it) + (CENTRAL_HEADER_SIZE + length (zf_name (fst it))) \<le> room a"
  using local_header(1) by (auto simp: item_for_def item_ok_def item_bytes_def room_def dest!: is_ok_projr)

lemma items_room:
  "list_all2 (item_for deflate) adds its \<Longrightarrow> list_all item_ok its \<Longrightarrow>
     length (disk_image its) + sum_list (map (\<lambda>it. CENTRAL_HEADER_SIZE + length (zf_name (fst it))) its)
       \<le> sum_list (map room adds)"
proof (induction adds its rule: list_all2_induct)
  case (Cons a as it its)
  have "disk_image (it # its) = item_bytes it @ disk_image its" by (simp add: disk_image_def)
  then show ?case using Cons item_room [OF Cons.hyps(1)] by fastforce
qed simp

text \<open>Writing succeeds within the limits of the format: with fewer than 65,536 entries whose names
  are shorter than 65,536 bytes, files that do not change size while they are read, and everything
  together (payload, both headers and both copies of each name) within the 32-bit limit, no step of
  writing the archive throws.\<close>

theorem archive_within_limits_is_written:
  assumes "list_all fits adds" and "length adds < 0x10000" and "sum_list (map room adds) \<le> MAX_ZIP32_BYTES"
  shows "fst (write_archive deflate adds new_writer) = Inr ()"
proof -
  have start: "written [] new_writer" by (simp add: written_def new_writer_def)
  obtain w1 where all: "write_all deflate adds new_writer = (Inr (), w1)" using write_all_ok [OF start assms(1)] by blast
  then obtain its where its: "written its w1" "list_all2 (item_for deflate) adds its"
    using write_all_written [OF start] by fastforce
  have "list_all item_ok its" using its(1) by (simp add: written_def)
  from items_room [OF its(2) this] assms(3) obtain w' where "finish w1 = (Inr (), w')"
    using finish_ok [OF its(1)] assms(2) list_all2_lengthD [OF its(2)] by fastforce
  then show ?thesis using all by (simp add: write_archive_def and_then_def)
qed

lemma archive_within_limits_is_written_witness:
  "fst (write_archive (\<lambda>d. d) [AddBuffer [97] [1, 2], AddFile [98] 1 [[7]], AddBuffer [97] [3]] new_writer) = Inr ()"
  by (rule archive_within_limits_is_written)
    (simp_all add: utf8_encode_def utf8_point_def high_surrogate_def low_surrogate_def MAX_ZIP32_BYTES_def room_def
      LOCAL_HEADER_SIZE_def CENTRAL_HEADER_SIZE_def)

lemma archive_round_trip_witness:
  "case open_archive (\<lambda>_. 1) (zw_disk (snd (write_archive (\<lambda>d. d) [AddBuffer [97] [1, 2], AddBuffer [97] [3]] new_writer))) of
     Inl _ \<Rightarrow> False
   | Inr r \<Rightarrow> set (entryNames r) = {[97]} \<and> distinct (entryNames r) \<and> readEntry (\<lambda>_. 1) Some r [97] = Inr [3]"
proof -
  let ?adds = "[AddBuffer [97] [1, 2], AddBuffer [97] [3]]"
  have start: "written [] new_writer" by (simp add: written_def new_writer_def)
  have enc: "length (utf8_encode [97]) = 1"
    by (simp add: utf8_encode_def utf8_point_def high_surrogate_def low_surrogate_def)
  obtain w1 where all: "write_all (\<lambda>d. d) ?adds new_writer = (Inr (), w1)"
    using write_all_ok [OF start, of ?adds] enc by auto
  obtain its where its: "written its w1" "list_all2 (item_for (\<lambda>d. d)) ?adds its"
    using write_all_written [OF start all] by auto
  have "sum_list (map room ?adds) \<le> MAX_ZIP32_BYTES"
    by (simp add: enc room_def MAX_ZIP32_BYTES_def LOCAL_HEADER_SIZE_def CENTRAL_HEADER_SIZE_def)
  moreover have "list_all item_ok its" using its(1) by (simp add: written_def)
  moreover have "length its = 2" using list_all2_lengthD [OF its(2)] by simp
  ultimately obtain w' where "finish w1 = (Inr (), w')"
    using finish_ok [OF its(1)] items_room [OF its(2)] by fastforce
  then have run: "write_archive (\<lambda>d. d) ?adds new_writer = (Inr (), snd (write_archive (\<lambda>d. d) ?adds new_writer))"
    using all by (simp add: write_archive_def and_then_def)
  have names: "list_all (\<lambda>a. well_formed (add_name a)) ?adds" by (simp add: high_surrogate_def low_surrogate_def)
  show ?thesis using archive_round_trip [OF names _ run, of Some "\<lambda>_. 1" "[97]"]
    by (auto split: sum.splits)
qed

end
