(* ===== verification/Chat_Projection.thy ===== *)
theory Chat_Projection
  imports Sift_Prelude
begin

text \<open>
  The projection protocol of a chat operation: the data of \<open>packages/contracts/src/chat-projection.ts\<close>
  (cursor, capture, records) with the rows it carries, and the two record generators of
  \<open>src/status-server/chat-projection-encoder.ts\<close>, \<open>createChatSnapshotRecords\<close> and
  \<open>createChatUpdateRecords\<close>.

  The type variable stands for JSON values the protocol carries and compares but never looks into
  (telemetry values, an approval, a question, an issue, the attachments of a row). A field of a row
  that may be absent is an option; structural equality with omitted and undefined fields alike
  (\<open>same\<close>) is then equality. A map built by \<open>new Map(entries)\<close> keeps the last
  entry of a key.
\<close>

section \<open>Cursors\<close>

record event_cursor =
  ev_operation :: string
  ev_sequence :: nat

record projection_cursor =
  cur_operation :: string
  cur_sequence :: nat
  cur_revision :: nat

definition advancesChatProjectionCursor :: "projection_cursor \<Rightarrow> projection_cursor \<Rightarrow> bool" where
  "advancesChatProjectionCursor before after \<longleftrightarrow>
     cur_operation before = cur_operation after \<and>
     cur_sequence before \<le> cur_sequence after \<and> cur_revision before \<le> cur_revision after"

lemma cursor_advances_refl [simp]: "advancesChatProjectionCursor c c"
  by (simp add: advancesChatProjectionCursor_def)

lemma cursor_advances_trans:
  "advancesChatProjectionCursor a b \<Longrightarrow> advancesChatProjectionCursor b c \<Longrightarrow>
   advancesChatProjectionCursor a c"
  by (auto simp: advancesChatProjectionCursor_def)

section \<open>Transcript rows\<close>

datatype chat_role = RoleUser | RoleAssistant

datatype chat_row_kind = UserText | AssistantAnswer | AssistantThinking | AssistantToolCall
  | AssistantNarration | AssistantProgress | ToolImage | CompactionSummary | RepoAgentApproval

text \<open>\<open>ChatTextRowKindSchema\<close>: the only rows a text suffix may extend.\<close>

definition text_row_kind :: "chat_row_kind \<Rightarrow> bool" where
  "text_row_kind k = (case k of AssistantThinking \<Rightarrow> True | AssistantNarration \<Rightarrow> True
     | AssistantProgress \<Rightarrow> True | AssistantAnswer \<Rightarrow> True | _ \<Rightarrow> False)"

text \<open>The fields of \<open>ChatTextRowMetadataSchema\<close>, in the order of the schema: the
  first three are required, the others optional.\<close>

record 'x row_metadata =
  inputTokensEstimate :: 'x
  outputTokensEstimate :: 'x
  thinkingTokens :: 'x
  inputTokensEstimated :: "'x option"
  outputTokensEstimated :: "'x option"
  thinkingTokensEstimated :: "'x option"
  promptCacheTokens :: "'x option"
  promptEvalTokens :: "'x option"
  promptTokensPerSecond :: "'x option"
  generationTokensPerSecond :: "'x option"
  requestDurationMs :: "'x option"
  promptEvalDurationMs :: "'x option"
  generationDurationMs :: "'x option"
  requestStartedAtUtc :: "'x option"
  thinkingStartedAtUtc :: "'x option"
  thinkingEndedAtUtc :: "'x option"
  answerStartedAtUtc :: "'x option"
  answerEndedAtUtc :: "'x option"
  speculativeAcceptedTokens :: "'x option"
  speculativeGeneratedTokens :: "'x option"
  row_throughput :: "'x option"
  groundingStatus :: "'x option"
  runTerminalCause :: "'x option"
  runTerminalDetail :: "'x option"

record 'x chat_row =
  row_id :: string
  row_role :: chat_role
  row_kind :: chat_row_kind
  row_content :: string
  row_meta :: "'x row_metadata"
  row_rest :: 'x

text \<open>What an append record carries: the kind and the metadata fields.\<close>

type_synonym 'x text_metadata = "chat_row_kind \<times> 'x row_metadata"

text \<open>The spread \<open>{ ...a, ...b }\<close> at one optional field: an absent field of the second
  leaves the first.\<close>

definition over :: "'a option \<Rightarrow> 'a option \<Rightarrow> 'a option" where
  "over a b = (case b of None \<Rightarrow> a | Some v \<Rightarrow> Some v)"

definition merge_metadata :: "'x row_metadata \<Rightarrow> 'x row_metadata \<Rightarrow> 'x row_metadata" where
  "merge_metadata a b = \<lparr>
     inputTokensEstimate = inputTokensEstimate b,
     outputTokensEstimate = outputTokensEstimate b,
     thinkingTokens = thinkingTokens b,
     inputTokensEstimated = over (inputTokensEstimated a) (inputTokensEstimated b),
     outputTokensEstimated = over (outputTokensEstimated a) (outputTokensEstimated b),
     thinkingTokensEstimated = over (thinkingTokensEstimated a) (thinkingTokensEstimated b),
     promptCacheTokens = over (promptCacheTokens a) (promptCacheTokens b),
     promptEvalTokens = over (promptEvalTokens a) (promptEvalTokens b),
     promptTokensPerSecond = over (promptTokensPerSecond a) (promptTokensPerSecond b),
     generationTokensPerSecond = over (generationTokensPerSecond a) (generationTokensPerSecond b),
     requestDurationMs = over (requestDurationMs a) (requestDurationMs b),
     promptEvalDurationMs = over (promptEvalDurationMs a) (promptEvalDurationMs b),
     generationDurationMs = over (generationDurationMs a) (generationDurationMs b),
     requestStartedAtUtc = over (requestStartedAtUtc a) (requestStartedAtUtc b),
     thinkingStartedAtUtc = over (thinkingStartedAtUtc a) (thinkingStartedAtUtc b),
     thinkingEndedAtUtc = over (thinkingEndedAtUtc a) (thinkingEndedAtUtc b),
     answerStartedAtUtc = over (answerStartedAtUtc a) (answerStartedAtUtc b),
     answerEndedAtUtc = over (answerEndedAtUtc a) (answerEndedAtUtc b),
     speculativeAcceptedTokens = over (speculativeAcceptedTokens a) (speculativeAcceptedTokens b),
     speculativeGeneratedTokens = over (speculativeGeneratedTokens a) (speculativeGeneratedTokens b),
     row_throughput = over (row_throughput a) (row_throughput b),
     groundingStatus = over (groundingStatus a) (groundingStatus b),
     runTerminalCause = over (runTerminalCause a) (runTerminalCause b),
     runTerminalDetail = over (runTerminalDetail a) (runTerminalDetail b)\<rparr>"

section \<open>Tools, turns, snapshots, captures\<close>

datatype tool_execution = ToolProposed | ToolPendingApproval | ToolExecuting | ToolCompleted
  | ToolRejected | ToolNotStarted | ToolUncertain

datatype tool_status = CallRunning | CallDone | CallStopped

record recovered_tool =
  rt_call :: string
  rt_message :: string
  rt_execution :: tool_execution
  rt_status :: tool_status

record 'x token_turn =
  tt_turn :: nat
  tt_prompt :: "'x option"
  tt_usage :: "'x option"

text \<open>\<open>ChatProjectionStateSchema\<close>: the run state that is no collection, identity,
  approval or cursor. Only its terminal cause is read by the protocol.\<close>

record 'x projection_state =
  ps_terminal_cause :: "'x option"
  ps_rest :: 'x

record 'x operation_snapshot =
  sn_session :: string
  sn_operation :: string
  sn_state :: "'x projection_state"
  sn_cursor :: event_cursor
  sn_messages :: "'x chat_row list"
  sn_tools :: "recovered_tool list"
  sn_approval :: "'x option"
  sn_question :: "'x option"
  sn_turns :: "'x token_turn list"
  sn_warnings :: "string list"
  sn_issues :: "'x list"

record 'x message_queue_state =
  mq_session :: string
  mq_rest :: 'x

record 'x projection_capture =
  cap_snapshot :: "'x operation_snapshot"
  cap_cursor :: projection_cursor
  cap_queue :: "'x message_queue_state"

section \<open>Records\<close>

datatype transfer_mode = SnapshotMode | UpdateMode

record 'x begin_record =
  bg_mode :: transfer_mode
  bg_session :: string
  bg_operation :: string
  bg_after :: "projection_cursor option"
  bg_cursor :: projection_cursor
  bg_state :: "'x projection_state"

record commit_counts =
  ct_messages :: nat
  ct_tools :: nat
  ct_turns :: nat
  ct_warnings :: nat
  ct_issues :: nat

datatype 'x projection_record =
    BeginRecord "'x begin_record"
  | MessageRecord "'x chat_row" "string option"
  | AppendTextRecord string nat string "'x text_metadata"
  | RemoveMessageRecord string
  | MoveMessageRecord string "string option"
  | ToolRecord recovered_tool
  | TokenTurnRecord "'x token_turn"
  | WarningRecord nat string
  | IssueRecord nat 'x
  | ApprovalRecord "'x option"
  | QuestionRecord "'x option"
  | QueueRecord "'x message_queue_state"
  | CommitRecord projection_cursor commit_counts
  | TerminalRecord projection_cursor 'x "'x option"
  | ErrorRecord 'x

section \<open>A complete transfer\<close>

definition commitCounts :: "'x operation_snapshot \<Rightarrow> commit_counts" where
  "commitCounts s = \<lparr>ct_messages = length (sn_messages s), ct_tools = length (sn_tools s),
     ct_turns = length (sn_turns s), ct_warnings = length (sn_warnings s),
     ct_issues = length (sn_issues s)\<rparr>"

fun message_records :: "string option \<Rightarrow> 'x chat_row list \<Rightarrow> 'x projection_record list" where
  "message_records previous [] = []"
| "message_records previous (m # ms) = MessageRecord m previous # message_records (Some (row_id m)) ms"

definition createChatSnapshotRecords :: "'x projection_capture \<Rightarrow> 'x projection_record list" where
  "createChatSnapshotRecords capture = (let s = cap_snapshot capture; cursor = cap_cursor capture in
     [BeginRecord \<lparr>bg_mode = SnapshotMode, bg_session = sn_session s, bg_operation = sn_operation s,
        bg_after = None, bg_cursor = cursor, bg_state = sn_state s\<rparr>]
     @ message_records None (sn_messages s)
     @ map ToolRecord (sn_tools s)
     @ map TokenTurnRecord (sn_turns s)
     @ map (\<lambda>(i, w). WarningRecord i w) (enumerate 0 (sn_warnings s))
     @ map (\<lambda>(i, x). IssueRecord i x) (enumerate 0 (sn_issues s))
     @ [ApprovalRecord (sn_approval s), QuestionRecord (sn_question s), QueueRecord (cap_queue capture),
        CommitRecord cursor (commitCounts s)])"

section \<open>An update\<close>

definition isPrefix :: "'a list \<Rightarrow> 'a list \<Rightarrow> bool" where
  "isPrefix before after \<longleftrightarrow> length before \<le> length after \<and> take (length before) after = before"

text \<open>\<open>{ ...before, ...metadata, content: '' }\<close>, and the row the metadata gives.\<close>

definition merge_row :: "'x chat_row \<Rightarrow> 'x text_metadata \<Rightarrow> 'x chat_row" where
  "merge_row row md = row\<lparr>row_kind := fst md, row_meta := merge_metadata (row_meta row) (snd md)\<rparr>"

definition row_metadata_of :: "'x chat_row \<Rightarrow> 'x text_metadata" where
  "row_metadata_of row = (row_kind row, row_meta row)"

definition textSuffix :: "'x chat_row \<Rightarrow> 'x chat_row \<Rightarrow> (string \<times> 'x text_metadata) option" where
  "textSuffix before after =
     (if \<not> text_row_kind (row_kind after) \<or> \<not> text_row_kind (row_kind before) then None
      else if length (row_content after) < length (row_content before)
           \<or> \<not> js_starts_with (row_content before) (row_content after) then None
      else let metadata = row_metadata_of after in
        if (merge_row before metadata)\<lparr>row_content := []\<rparr> \<noteq> after\<lparr>row_content := []\<rparr> then None
        else if length (row_content after) = length (row_content before)
                \<and> row_metadata_of before = metadata then None
        else Some (drop (length (row_content before)) (row_content after), metadata))"

text \<open>\<open>beforeById\<close>: a row of the earlier capture with its index.\<close>

definition indexed_rows :: "'x chat_row list \<Rightarrow> string \<Rightarrow> (nat \<times> 'x chat_row) option" where
  "indexed_rows rows = map_of (rev (map (\<lambda>(i, m). (row_id m, (i, m))) (enumerate 0 rows)))"

text \<open>The loop over the rows of the later capture: a row that kept its place relative to the
  kept rows before it stays put, any other row is placed after its new predecessor.
  \<open>highestKeptIndex\<close> starts at -1.\<close>

definition row_update ::
  "(string \<Rightarrow> (nat \<times> 'x chat_row) option) \<Rightarrow> string option \<Rightarrow> int \<Rightarrow> 'x chat_row \<Rightarrow> 'x projection_record list" where
  "row_update by_id previous highest m =
     (case by_id (row_id m) of
        None \<Rightarrow> [MessageRecord m previous]
      | Some (i, e) \<Rightarrow>
          (let moved = int i < highest in
           if e \<noteq> m then
             (case (if moved then None else textSuffix e m) of
                Some (text, md) \<Rightarrow> [AppendTextRecord (row_id m) (length (row_content e)) text md]
              | None \<Rightarrow> [MessageRecord m previous])
           else if moved then [MoveMessageRecord (row_id m) previous]
           else []))"

definition kept_index ::
  "(string \<Rightarrow> (nat \<times> 'x chat_row) option) \<Rightarrow> int \<Rightarrow> 'x chat_row \<Rightarrow> int" where
  "kept_index by_id highest m =
     (case by_id (row_id m) of
        None \<Rightarrow> highest
      | Some (i, e) \<Rightarrow> if int i < highest then highest else int i)"

fun row_updates ::
  "(string \<Rightarrow> (nat \<times> 'x chat_row) option) \<Rightarrow> string option \<Rightarrow> int \<Rightarrow> 'x chat_row list
   \<Rightarrow> 'x projection_record list" where
  "row_updates by_id previous highest [] = []"
| "row_updates by_id previous highest (m # ms) =
     row_update by_id previous highest m
     @ row_updates by_id (Some (row_id m)) (kept_index by_id highest m) ms"

definition turn_of :: "'x token_turn list \<Rightarrow> nat \<Rightarrow> 'x token_turn option" where
  "turn_of turns = map_of (rev (map (\<lambda>t. (tt_turn t, t)) turns))"

definition tool_of :: "recovered_tool list \<Rightarrow> string \<Rightarrow> recovered_tool option" where
  "tool_of tools = map_of (rev (map (\<lambda>t. (rt_message t, t)) tools))"

text \<open>Whether the records can turn the one view into the other: collections without a removal
  record only grow.\<close>

definition expressible :: "'x operation_snapshot \<Rightarrow> 'x operation_snapshot \<Rightarrow> bool" where
  "expressible before after \<longleftrightarrow>
     isPrefix (sn_warnings before) (sn_warnings after) \<and> isPrefix (sn_issues before) (sn_issues after)
     \<and> length (remdups (map tt_turn (sn_turns before))) \<le> length (sn_turns after)
     \<and> list_all (\<lambda>t. tt_turn t \<in> set (map tt_turn (sn_turns after))) (sn_turns before)
     \<and> list_all (\<lambda>t. rt_message t \<in> set (map row_id (sn_messages after)) \<longrightarrow>
          rt_message t \<in> set (map rt_message (sn_tools after))) (sn_tools before)"

definition removed_records :: "'x chat_row list \<Rightarrow> 'x chat_row list \<Rightarrow> 'x projection_record list" where
  "removed_records before after =
     map (\<lambda>m. RemoveMessageRecord (row_id m))
       (filter (\<lambda>m. row_id m \<notin> set (map row_id after)) before)"

definition update_records :: "'x projection_capture \<Rightarrow> 'x projection_capture \<Rightarrow> 'x projection_record list" where
  "update_records before after =
     (let b = cap_snapshot before; a = cap_snapshot after in
     [BeginRecord \<lparr>bg_mode = UpdateMode, bg_session = sn_session a, bg_operation = sn_operation a,
        bg_after = Some (cap_cursor before), bg_cursor = cap_cursor after, bg_state = sn_state a\<rparr>]
     @ removed_records (sn_messages b) (sn_messages a)
     @ row_updates (indexed_rows (sn_messages b)) None (- 1) (sn_messages a)
     @ map ToolRecord (filter (\<lambda>t. tool_of (sn_tools b) (rt_message t) \<noteq> Some t) (sn_tools a))
     @ map TokenTurnRecord (filter (\<lambda>t. turn_of (sn_turns b) (tt_turn t) \<noteq> Some t) (sn_turns a))
     @ map (\<lambda>(i, w). WarningRecord i w)
         (drop (length (sn_warnings b)) (enumerate 0 (sn_warnings a)))
     @ map (\<lambda>(i, x). IssueRecord i x) (drop (length (sn_issues b)) (enumerate 0 (sn_issues a)))
     @ (if sn_approval b \<noteq> sn_approval a then [ApprovalRecord (sn_approval a)] else [])
     @ (if sn_question b \<noteq> sn_question a then [QuestionRecord (sn_question a)] else [])
     @ (if cap_queue before \<noteq> cap_queue after then [QueueRecord (cap_queue after)] else [])
     @ [CommitRecord (cap_cursor after) (commitCounts a)])"

definition createChatUpdateRecords ::
  "'x projection_capture \<Rightarrow> 'x projection_capture \<Rightarrow> string + 'x projection_record list" where
  "createChatUpdateRecords before after =
     (let b = cap_snapshot before; a = cap_snapshot after in
      if sn_operation b \<noteq> sn_operation a \<or> sn_session b \<noteq> sn_session a then
        Inl ''Chat projection update operation mismatch.''
      else if \<not> advancesChatProjectionCursor (cap_cursor before) (cap_cursor after) then
        Inl ''Chat projection cursor moved backwards.''
      else if \<not> expressible b a then Inr (createChatSnapshotRecords after)
      else Inr (update_records before after))"

end
