(* ===== verification/Projection_Client.thy ===== *)
theory Projection_Client
  imports Chat_Projection "HOL-Library.AList"
begin

text \<open>
  The receiver of the projection protocol, \<open>dashboard/src/lib/chat-operation-projection.ts\<close>:
  frames are collected into records, records are staged over the last committed view, and a commit
  record makes the staged view readable. A throw of \<open>fail\<close> is \<open>Inl\<close> with its
  detail; the caller abandons the projection then, so no state goes with it.

  A JavaScript map is an association list in insertion order. The text of a frame is a list of
  units; \<open>parse\<close> stands for parsing and validating the joined text of a record
  (\<open>JSON.parse\<close> and the schema).
\<close>

section \<open>State\<close>

record 'x staged_view =
  st_transfer :: string
  st_next :: nat
  st_begin :: "'x begin_record"
  st_messages :: "'x chat_row list"
  st_tools :: "(string \<times> recovered_tool) list"
  st_turns :: "(nat \<times> 'x token_turn) list"
  st_warnings :: "string list"
  st_issues :: "'x list"
  st_approval :: "'x option"
  st_question :: "'x option"
  st_queue :: "'x message_queue_state option"

record 'c pending_record =
  pn_transfer :: string
  pn_record :: nat
  pn_chunk :: nat
  pn_parts :: "'c list list"

record 'c projection_frame =
  fr_transfer :: string
  fr_record :: nat
  fr_chunk :: nat
  fr_final :: bool
  fr_data :: "'c list"

record ('c, 'x) projection_client =
  pc_session :: string
  pc_pending :: "'c pending_record option"
  pc_staged :: "'x staged_view option"
  pc_committed :: "('x operation_snapshot \<times> projection_cursor) option"
  pc_finished :: "string list"

datatype 'x projection_delivery =
    ViewDelivery "'x operation_snapshot" "'x message_queue_state option"
  | TerminalDelivery projection_cursor 'x "'x option"
  | FailureDelivery 'x

definition new_projection :: "string \<Rightarrow> ('c, 'x) projection_client" where
  "new_projection session = \<lparr>pc_session = session, pc_pending = None, pc_staged = None,
     pc_committed = None, pc_finished = []\<rparr>"

section \<open>Rows\<close>

definition appendTextRow :: "'x chat_row \<Rightarrow> string \<Rightarrow> 'x text_metadata \<Rightarrow> string + 'x chat_row" where
  "appendTextRow existing text md =
     (if \<not> text_row_kind (row_kind existing) then Inl ''append to a non-text row''
      else let content = row_content existing @ text in
        if fst md = AssistantNarration \<or> fst md = AssistantProgress then
          if row_role existing \<noteq> RoleAssistant then Inl ''append re-kinds a non-assistant row''
          else Inr ((merge_row existing md)\<lparr>row_role := RoleAssistant, row_content := content\<rparr>)
        else Inr ((merge_row existing md)\<lparr>row_content := content\<rparr>))"

definition has_row :: "string \<Rightarrow> 'x chat_row list \<Rightarrow> bool" where
  "has_row i rows \<longleftrightarrow> i \<in> set (map row_id rows)"

definition removeMessage :: "string \<Rightarrow> 'x chat_row list \<Rightarrow> 'x chat_row list" where
  "removeMessage i rows = remove_first (\<lambda>m. row_id m = i) rows"

fun splice_after :: "string \<Rightarrow> 'x chat_row \<Rightarrow> 'x chat_row list \<Rightarrow> string + 'x chat_row list" where
  "splice_after anchor m [] = Inl ''anchor is not staged''"
| "splice_after anchor m (r # rows) =
     (if row_id r = anchor then Inr (r # m # rows)
      else bind_result (splice_after anchor m rows) (\<lambda>rest. Inr (r # rest)))"

definition insertAfter :: "'x chat_row \<Rightarrow> string option \<Rightarrow> 'x chat_row list \<Rightarrow> string + 'x chat_row list" where
  "insertAfter m anchor rows = (case anchor of
      None \<Rightarrow> Inr (m # rows)
    | Some a \<Rightarrow> if rows \<noteq> [] \<and> row_id (last rows) = a then Inr (rows @ [m])
                else splice_after a m rows)"

fun append_at :: "string \<Rightarrow> nat \<Rightarrow> string \<Rightarrow> 'x text_metadata \<Rightarrow> 'x chat_row list \<Rightarrow> string + 'x chat_row list" where
  "append_at i offset text md [] = Inl ''append to an unknown message''"
| "append_at i offset text md (r # rows) =
     (if row_id r = i then
        if offset \<noteq> length (row_content r) then Inl ''append offset mismatch''
        else bind_result (appendTextRow r text md) (\<lambda>r'. Inr (r' # rows))
      else bind_result (append_at i offset text md rows) (\<lambda>rest. Inr (r # rest)))"

section \<open>Staging\<close>

definition stage_base :: "('x operation_snapshot \<times> projection_cursor) option \<Rightarrow> 'x begin_record
    \<Rightarrow> string + 'x operation_snapshot option" where
  "stage_base committed bg = (case bg_mode bg of
     UpdateMode \<Rightarrow> (case committed of
        None \<Rightarrow> Inl ''update before a committed view''
      | Some (snapshot, cursor) \<Rightarrow>
          if bg_operation bg \<noteq> sn_operation snapshot then Inl ''update for another operation''
          else if bg_after bg \<noteq> Some cursor then Inl ''update cursor gap''
          else Inr (Some snapshot))
   | SnapshotMode \<Rightarrow> (case committed of
        None \<Rightarrow> Inr None
      | Some (snapshot, cursor) \<Rightarrow>
          if sn_operation snapshot = bg_operation bg \<and> \<not> advancesChatProjectionCursor cursor (bg_cursor bg)
          then Inl ''snapshot cursor regressed'' else Inr None))"

definition staged_from :: "'x operation_snapshot option \<Rightarrow> 'x begin_record \<Rightarrow> string \<Rightarrow> 'x staged_view" where
  "staged_from base bg transfer = (case base of
     None \<Rightarrow> \<lparr>st_transfer = transfer, st_next = 1, st_begin = bg, st_messages = [], st_tools = [],
       st_turns = [], st_warnings = [], st_issues = [], st_approval = None, st_question = None, st_queue = None\<rparr>
   | Some s \<Rightarrow> \<lparr>st_transfer = transfer, st_next = 1, st_begin = bg, st_messages = sn_messages s,
       st_tools = fold (\<lambda>t. AList.update (rt_message t) t) (sn_tools s) [],
       st_turns = fold (\<lambda>t. AList.update (tt_turn t) t) (sn_turns s) [],
       st_warnings = sn_warnings s, st_issues = sn_issues s, st_approval = sn_approval s,
       st_question = sn_question s, st_queue = None\<rparr>)"

definition stage :: "('c, 'x) projection_client \<Rightarrow> 'x begin_record \<Rightarrow> string \<Rightarrow> string + 'x staged_view" where
  "stage c bg transfer =
     (if bg_session bg \<noteq> pc_session c then Inl ''session mismatch''
      else bind_result (stage_base (pc_committed c) bg) (\<lambda>base. Inr (staged_from base bg transfer)))"

definition set_rows :: "'x staged_view \<Rightarrow> string + 'x chat_row list \<Rightarrow> string + 'x staged_view" where
  "set_rows st r = bind_result r (\<lambda>rows. Inr (st\<lparr>st_messages := rows\<rparr>))"

definition stageRecord :: "string \<Rightarrow> 'x staged_view \<Rightarrow> 'x projection_record \<Rightarrow> string + 'x staged_view" where
  "stageRecord session st r = (case r of
     MessageRecord m anchor \<Rightarrow>
       (if bg_mode (st_begin st) = SnapshotMode \<and> has_row (row_id m) (st_messages st)
        then Inl ''duplicate message id in snapshot''
        else set_rows st (insertAfter m anchor (removeMessage (row_id m) (st_messages st))))
   | AppendTextRecord i offset text md \<Rightarrow> set_rows st (append_at i offset text md (st_messages st))
   | RemoveMessageRecord i \<Rightarrow>
       (if \<not> has_row i (st_messages st) then Inl ''removal of an unknown message''
        else Inr (st\<lparr>st_messages := removeMessage i (st_messages st),
                     st_tools := AList.delete i (st_tools st)\<rparr>))
   | MoveMessageRecord i anchor \<Rightarrow>
       (case find (\<lambda>m. row_id m = i) (st_messages st) of
          None \<Rightarrow> Inl ''move of an unknown message''
        | Some m \<Rightarrow> set_rows st (insertAfter m anchor (removeMessage i (st_messages st))))
   | ToolRecord t \<Rightarrow> Inr (st\<lparr>st_tools := AList.update (rt_message t) t (st_tools st)\<rparr>)
   | TokenTurnRecord t \<Rightarrow> Inr (st\<lparr>st_turns := AList.update (tt_turn t) t (st_turns st)\<rparr>)
   | WarningRecord i w \<Rightarrow>
       (if i \<noteq> length (st_warnings st) then Inl ''warning index gap''
        else Inr (st\<lparr>st_warnings := st_warnings st @ [w]\<rparr>))
   | IssueRecord i x \<Rightarrow>
       (if i \<noteq> length (st_issues st) then Inl ''issue index gap''
        else Inr (st\<lparr>st_issues := st_issues st @ [x]\<rparr>))
   | ApprovalRecord a \<Rightarrow> Inr (st\<lparr>st_approval := a\<rparr>)
   | QuestionRecord q \<Rightarrow> Inr (st\<lparr>st_question := q\<rparr>)
   | QueueRecord q \<Rightarrow>
       (if mq_session q \<noteq> session then Inl ''queue session mismatch''
        else Inr (st\<lparr>st_queue := Some q\<rparr>))
   | _ \<Rightarrow> Inr st)"

section \<open>Commit\<close>

definition staged_counts :: "'x staged_view \<Rightarrow> commit_counts" where
  "staged_counts st = \<lparr>ct_messages = length (st_messages st), ct_tools = length (st_tools st),
     ct_turns = length (st_turns st), ct_warnings = length (st_warnings st),
     ct_issues = length (st_issues st)\<rparr>"

definition tools_in_row_order :: "'x staged_view \<Rightarrow> recovered_tool list" where
  "tools_in_row_order st =
     List.map_filter (\<lambda>m. map_of (st_tools st) (row_id m)) (st_messages st)"

definition staged_snapshot :: "'x staged_view \<Rightarrow> 'x operation_snapshot" where
  "staged_snapshot st = \<lparr>sn_session = bg_session (st_begin st), sn_operation = bg_operation (st_begin st),
     sn_state = bg_state (st_begin st),
     sn_cursor = \<lparr>ev_operation = cur_operation (bg_cursor (st_begin st)),
                  ev_sequence = cur_sequence (bg_cursor (st_begin st))\<rparr>,
     sn_messages = st_messages st, sn_tools = tools_in_row_order st, sn_approval = st_approval st,
     sn_question = st_question st, sn_turns = sort_key tt_turn (map snd (st_turns st)),
     sn_warnings = st_warnings st, sn_issues = st_issues st\<rparr>"

definition commit_view :: "('c, 'x) projection_client \<Rightarrow> 'x staged_view \<Rightarrow> projection_cursor \<Rightarrow> commit_counts
    \<Rightarrow> string + 'x projection_delivery \<times> ('c, 'x) projection_client" where
  "commit_view c st cursor counts =
     (if cursor \<noteq> bg_cursor (st_begin st) then Inl ''commit cursor mismatch''
      else if counts \<noteq> staged_counts st then Inl ''commit counts mismatch''
      else if \<not> list_all (\<lambda>(i, t). has_row i (st_messages st)) (st_tools st) then Inl ''tool without its message''
      else Inr (ViewDelivery (staged_snapshot st) (st_queue st),
                c\<lparr>pc_committed := Some (staged_snapshot st, bg_cursor (st_begin st)),
                  pc_staged := None, pc_finished := st_transfer st # pc_finished c\<rparr>))"

definition applyRecord :: "('c, 'x) projection_client \<Rightarrow> 'x projection_record \<Rightarrow> string
    \<Rightarrow> string + 'x projection_delivery option \<times> ('c, 'x) projection_client" where
  "applyRecord c r transfer = (case r of
     ErrorRecord failure \<Rightarrow>
       Inr (Some (FailureDelivery failure), c\<lparr>pc_staged := None, pc_finished := transfer # pc_finished c\<rparr>)
   | TerminalRecord cursor cause issue \<Rightarrow>
       (if pc_staged c \<noteq> None then Inl ''terminal inside an open transfer''
        else case pc_committed c of
          None \<Rightarrow> Inl ''terminal before any committed view''
        | Some (snapshot, committed) \<Rightarrow>
            if committed \<noteq> cursor then Inl ''terminal cursor mismatch''
            else if ps_terminal_cause (sn_state snapshot) \<noteq> Some cause then Inl ''terminal cause mismatch''
            else Inr (Some (TerminalDelivery cursor cause issue), c\<lparr>pc_finished := transfer # pc_finished c\<rparr>))
   | BeginRecord bg \<Rightarrow>
       (if pc_staged c \<noteq> None then Inl ''begin inside an open transfer''
        else bind_result (stage c bg transfer) (\<lambda>st. Inr (None, c\<lparr>pc_staged := Some st\<rparr>)))
   | _ \<Rightarrow>
       (case pc_staged c of
          None \<Rightarrow> Inl ''record outside a transfer''
        | Some st0 \<Rightarrow> let st = st0\<lparr>st_next := Suc (st_next st0)\<rparr> in
            (case r of
               CommitRecord cursor counts \<Rightarrow>
                 bind_result (commit_view c st cursor counts) (\<lambda>(d, c'). Inr (Some d, c'))
             | _ \<Rightarrow> bind_result (stageRecord (pc_session c) st r) (\<lambda>st'. Inr (None, c\<lparr>pc_staged := Some st'\<rparr>)))))"

section \<open>Frames\<close>

definition collect_frame :: "('c, 'x) projection_client \<Rightarrow> 'c projection_frame
    \<Rightarrow> string + 'c pending_record \<times> ('c, 'x) projection_client" where
  "collect_frame c f = (case pc_pending c of
     Some p \<Rightarrow>
       (if fr_transfer f \<noteq> pn_transfer p \<or> fr_record f \<noteq> pn_record p then Inl ''fragment of another record''
        else if fr_chunk f \<noteq> Suc (pn_chunk p) then Inl ''fragment out of order''
        else Inr (p\<lparr>pn_chunk := fr_chunk f, pn_parts := pn_parts p @ [fr_data f]\<rparr>, c))
   | None \<Rightarrow>
       (if fr_chunk f \<noteq> 0 then Inl ''record starts mid-fragment''
        else if fr_transfer f \<in> set (pc_finished c) then Inl ''finished transfer reused''
        else let staged = (case pc_staged c of None \<Rightarrow> None
                           | Some st \<Rightarrow> if fr_transfer f \<noteq> st_transfer st then None else Some st);
                 expected = (case staged of None \<Rightarrow> 0 | Some st \<Rightarrow> st_next st) in
          if fr_record f \<noteq> expected then Inl ''record out of order''
          else Inr (\<lparr>pn_transfer = fr_transfer f, pn_record = fr_record f, pn_chunk = 0,
                      pn_parts = [fr_data f]\<rparr>, c\<lparr>pc_staged := staged\<rparr>)))"

definition acceptFrame :: "('c list \<Rightarrow> 'x projection_record option) \<Rightarrow> ('c, 'x) projection_client
    \<Rightarrow> 'c projection_frame \<Rightarrow> string + 'x projection_delivery option \<times> ('c, 'x) projection_client" where
  "acceptFrame parse c f = bind_result (collect_frame c f) (\<lambda>(p, c').
     if \<not> fr_final f then Inr (None, c'\<lparr>pc_pending := Some p\<rparr>)
     else case parse (concat (pn_parts p)) of
            None \<Rightarrow> Inl ''malformed record''
          | Some r \<Rightarrow> applyRecord (c'\<lparr>pc_pending := None\<rparr>) r (pn_transfer p))"

end
