(* ===== verification/Projection_Rows.thy ===== *)
theory Projection_Rows
  imports Projection_Client
begin

text \<open>
  The row part of an update, between the generator and the receiver: applying the row records of
  \<open>createChatUpdateRecords\<close> to the rows of the earlier capture (those the later one still
  has) gives exactly the rows of the later capture, in their order.

  The invariant of the loop splits the staged rows into a settled part, which ends with the last row
  that was processed and holds the processed rows in the order of the later capture, and a rest
  without processed rows in which the rows that kept their place are still in the order of the
  earlier capture.
\<close>

section \<open>Applying row records to a list of rows\<close>

definition row_apply :: "'x chat_row list \<Rightarrow> 'x projection_record \<Rightarrow> string + 'x chat_row list" where
  "row_apply rows r = (case r of
     MessageRecord m anchor \<Rightarrow> insertAfter m anchor (removeMessage (row_id m) rows)
   | AppendTextRecord i offset text md \<Rightarrow> append_at i offset text md rows
   | MoveMessageRecord i anchor \<Rightarrow>
       (case find (\<lambda>m. row_id m = i) rows of
          None \<Rightarrow> Inl ''move of an unknown message''
        | Some m \<Rightarrow> insertAfter m anchor (removeMessage i rows))
   | _ \<Rightarrow> Inl ''no row record'')"

fun rows_apply :: "'x chat_row list \<Rightarrow> 'x projection_record list \<Rightarrow> string + 'x chat_row list" where
  "rows_apply rows [] = Inr rows"
| "rows_apply rows (r # rs) = bind_result (row_apply rows r) (\<lambda>rows'. rows_apply rows' rs)"

lemma rows_apply_append:
  "rows_apply rows (rs @ ss) = bind_result (rows_apply rows rs) (\<lambda>rows'. rows_apply rows' ss)"
  by (induction rs arbitrary: rows) (auto simp: bind_result_def split: sum.splits)

section \<open>Removing, finding, inserting\<close>

lemma removeMessage_filter:
  "distinct (map row_id rows) \<Longrightarrow> removeMessage i rows = filter (\<lambda>r. row_id r \<noteq> i) rows"
  unfolding removeMessage_def
proof (induction rows)
  case (Cons r rows)
  then show ?case by (auto simp: image_iff intro!: filter_True [symmetric])
qed simp

lemma removeMessage_absent: "i \<notin> row_id ` set rows \<Longrightarrow> removeMessage i rows = rows"
  unfolding removeMessage_def by (rule remove_first_none) auto

lemma splice_after_last:
  "i \<notin> row_id ` set xs \<Longrightarrow> splice_after i m (xs @ r # ys) =
    (if row_id r = i then Inr (xs @ r # m # ys)
     else bind_result (splice_after i m (r # ys)) (\<lambda>rest. Inr (xs @ rest)))"
  by (induction xs) (auto simp: bind_result_def split: sum.splits)

lemma insertAfter_split:
  assumes "distinct (map row_id (xs @ ys))" and "xs \<noteq> []" and "row_id (last xs) = i"
  shows "insertAfter m (Some i) (xs @ ys) = Inr (xs @ m # ys)"
proof (cases "ys = []")
  case True
  then show ?thesis using assms by (simp add: insertAfter_def)
next
  case False
  obtain zs r where xs: "xs = zs @ [r]" using assms(2) by (cases xs rule: rev_cases) auto
  have "row_id (last ys) \<in> row_id ` set ys" using False by simp
  then have "row_id (last ys) \<noteq> i" using assms by (auto simp: xs)
  moreover have "i \<notin> row_id ` set zs" using assms by (auto simp: xs)
  ultimately show ?thesis using False assms(3) splice_after_last [of i zs m r ys]
    by (simp add: insertAfter_def xs)
qed

lemma find_row:
  "distinct (map row_id rows) \<Longrightarrow> r \<in> set rows \<Longrightarrow> find (\<lambda>m. row_id m = row_id r) rows = Some r"
  by (induction rows) auto

lemma append_at_split:
  "i \<notin> row_id ` set xs \<Longrightarrow> row_id r = i \<Longrightarrow> appendTextRow r text md = Inr r' \<Longrightarrow>
   append_at i (length (row_content r)) text md (xs @ r # ys) = Inr (xs @ r' # ys)"
  by (induction xs) auto

section \<open>An appended row\<close>

definition wf_row :: "'x chat_row \<Rightarrow> bool" where
  "wf_row r \<longleftrightarrow> (row_kind r = AssistantNarration \<or> row_kind r = AssistantProgress \<longrightarrow> row_role r = RoleAssistant)"

text \<open>What the generator put into an append record turns the earlier row into the later one.\<close>

lemma appendTextRow_textSuffix:
  assumes suffix: "textSuffix e m = Some (text, md)" and wf: "wf_row m"
  shows "appendTextRow e text md = Inr m"
proof -
  from suffix have kinds: "text_row_kind (row_kind e)" and
    content: "js_starts_with (row_content e) (row_content m)" and
    merged: "(merge_row e (row_metadata_of m))\<lparr>row_content := []\<rparr> = m\<lparr>row_content := []\<rparr>" and
    md: "md = row_metadata_of m" and tail: "text = drop (length (row_content e)) (row_content m)"
    by (simp_all add: textSuffix_def Let_def split: if_splits)
  have c: "row_content e @ text = row_content m"
    using content unfolding tail js_starts_with_def by (metis append_take_drop_id)
  have role: "row_role e = row_role m" using arg_cong [OF merged, of row_role] by (simp add: merge_row_def)
  have full: "(merge_row e md)\<lparr>row_content := row_content m\<rparr> = m"
    using arg_cong [OF merged, of "\<lambda>r. r\<lparr>row_content := row_content m\<rparr>"] by (simp add: md)
  have "fst md = row_kind m" by (simp add: md row_metadata_of_def)
  show ?thesis
  proof (cases "row_kind m = AssistantNarration \<or> row_kind m = AssistantProgress")
    case True
    then have "row_role m = RoleAssistant" using wf by (simp add: wf_row_def)
    moreover from this have "row_role e = RoleAssistant" using role by simp
    then have "(merge_row e md)\<lparr>row_role := RoleAssistant\<rparr> = merge_row e md"
      by (cases e) (simp add: merge_row_def)
    then have "(merge_row e md)\<lparr>row_role := RoleAssistant, row_content := row_content m\<rparr> = m"
      using full by simp
    ultimately show ?thesis using True kinds role c \<open>fst md = row_kind m\<close>
      by (simp add: appendTextRow_def Let_def)
  next
    case False
    then show ?thesis using kinds c full \<open>fst md = row_kind m\<close> by (auto simp: appendTextRow_def Let_def)
  qed
qed

lemma textSuffix_id: "textSuffix e m = Some t \<Longrightarrow> row_id e = row_id m"
proof -
  assume "textSuffix e m = Some t"
  then have "(merge_row e (row_metadata_of m))\<lparr>row_content := []\<rparr> = m\<lparr>row_content := []\<rparr>"
    by (simp add: textSuffix_def Let_def split: if_splits)
  from arg_cong [OF this, of row_id] show ?thesis by (simp add: merge_row_def)
qed

section \<open>The loop invariant\<close>

definition row_index :: "(string \<Rightarrow> (nat \<times> 'x chat_row) option) \<Rightarrow> 'x chat_row \<Rightarrow> int" where
  "row_index by_id r = (case by_id (row_id r) of None \<Rightarrow> - 1 | Some (i, _) \<Rightarrow> int i)"

definition ids :: "'x chat_row list \<Rightarrow> string set" where
  "ids rows = row_id ` set rows"

lemma ids_simps [simp]: "ids [] = {}" "ids (r # rows) = insert (row_id r) (ids rows)"
  "ids (xs @ ys) = ids xs \<union> ids ys"
  by (auto simp: ids_def)

lemma mem_ids: "r \<in> set rows \<Longrightarrow> row_id r \<in> ids rows"
  by (simp add: ids_def)

definition last_id :: "'x chat_row list \<Rightarrow> string option" where
  "last_id rows = (if rows = [] then None else Some (row_id (last rows)))"

definition row_split ::
  "('x chat_row \<Rightarrow> int) \<Rightarrow> 'x chat_row list \<Rightarrow> 'x chat_row list \<Rightarrow> int \<Rightarrow> 'x chat_row list
   \<Rightarrow> 'x chat_row list \<Rightarrow> bool" where
  "row_split idx kept processed hk A B \<longleftrightarrow>
     distinct (map row_id (A @ B))
     \<and> filter (\<lambda>r. row_id r \<in> ids processed) A = processed
     \<and> last_id A = last_id processed
     \<and> ids B \<inter> ids processed = {}
     \<and> filter (\<lambda>r. hk < idx r) B = filter (\<lambda>r. hk < idx r) kept
     \<and> (\<forall>r. row_id r \<notin> ids processed \<longrightarrow> r \<in> set (A @ B) \<longleftrightarrow> r \<in> set kept)"

lemma last_id_filter:
  assumes "last_id A = last_id P" and "x \<notin> ids P"
  shows "last_id (filter (\<lambda>r. row_id r \<noteq> x) A) = last_id P"
proof (cases A rule: rev_cases)
  case Nil
  then show ?thesis using assms by simp
next
  case (snoc A' a)
  then have P: "P \<noteq> []" "row_id a = row_id (last P)" using assms(1) by (auto simp: last_id_def split: if_splits)
  then have "row_id a \<noteq> x" using assms(2) mem_ids [of "last P" P] by auto
  then show ?thesis using P by (simp add: snoc last_id_def)
qed

text \<open>A row placed after the last processed row.\<close>

lemma row_split_place:
  assumes split: "row_split idx kept processed hk A B" and new: "row_id m \<notin> ids processed"
    and hk: "hk \<le> hk'" and idx: "\<And>r. row_id r = row_id m \<Longrightarrow> idx r \<le> hk'"
  defines "A' \<equiv> filter (\<lambda>r. row_id r \<noteq> row_id m) A @ [m]"
    and "B' \<equiv> filter (\<lambda>r. row_id r \<noteq> row_id m) B"
  shows "insertAfter m (last_id processed) (removeMessage (row_id m) (A @ B)) = Inr (A' @ B')"
    and "row_split idx kept (processed @ [m]) hk' A' B'"
proof -
  let ?A = "filter (\<lambda>r. row_id r \<noteq> row_id m) A"
  have d: "distinct (map row_id (A @ B))" and fA: "filter (\<lambda>r. row_id r \<in> ids processed) A = processed"
    and l: "last_id A = last_id processed" and dj: "ids B \<inter> ids processed = {}"
    and fB: "filter (\<lambda>r. hk < idx r) B = filter (\<lambda>r. hk < idx r) kept"
    and un: "\<And>r. row_id r \<notin> ids processed \<Longrightarrow> r \<in> set (A @ B) \<longleftrightarrow> r \<in> set kept"
    using split by (auto simp: row_split_def)
  have d': "distinct (map row_id (?A @ B'))" using d
    unfolding B'_def by (auto simp: distinct_map_filter)
  have lA: "last_id ?A = last_id processed" using l new by (rule last_id_filter)
  have rm: "removeMessage (row_id m) (A @ B) = ?A @ B'"
    using removeMessage_filter [OF d] by (simp add: B'_def)
  show "insertAfter m (last_id processed) (removeMessage (row_id m) (A @ B)) = Inr (A' @ B')"
  proof (cases "processed = []")
    case True
    then have "?A = []" using lA by (auto simp: last_id_def split: if_splits)
    then show ?thesis using True rm by (simp add: A'_def last_id_def insertAfter_def)
  next
    case False
    then have "?A \<noteq> []" and "row_id (last ?A) = row_id (last processed)"
      using lA by (auto simp: last_id_def split: if_splits)
    from insertAfter_split [OF d' this] show ?thesis using False rm by (simp add: A'_def last_id_def)
  qed
  have fA': "filter (\<lambda>r. row_id r \<in> ids (processed @ [m])) A' = processed @ [m]"
  proof -
    have "filter (\<lambda>r. row_id r \<in> ids (processed @ [m])) ?A = filter (\<lambda>r. row_id r \<in> ids processed) A"
      using new by (auto intro!: filter_cong simp: filter_filter)
    then show ?thesis using fA by (simp add: A'_def)
  qed
  have "filter (\<lambda>r. hk' < idx r) B' = filter (\<lambda>r. hk' < idx r) B"
    using idx by (auto simp: B'_def filter_filter intro!: filter_cong dest: leD)
  also have "\<dots> = filter (\<lambda>r. hk' < idx r) (filter (\<lambda>r. hk < idx r) B)"
    using hk by (auto simp: filter_filter intro!: filter_cong)
  also have "\<dots> = filter (\<lambda>r. hk' < idx r) kept"
    unfolding fB using hk by (auto simp: filter_filter intro!: filter_cong)
  finally have fB': "filter (\<lambda>r. hk' < idx r) B' = filter (\<lambda>r. hk' < idx r) kept" .
  have "distinct (map row_id (A' @ B'))" using d' by (auto simp: A'_def B'_def)
  moreover have "ids B' \<inter> ids (processed @ [m]) = {}" using dj by (auto simp: B'_def ids_def)
  moreover have "last_id A' = last_id (processed @ [m])" by (simp add: A'_def last_id_def)
  moreover have "r \<in> set (A' @ B') \<longleftrightarrow> r \<in> set kept" if "row_id r \<notin> ids (processed @ [m])" for r
    using un [of r] that by (auto simp: A'_def B'_def)
  ultimately show "row_split idx kept (processed @ [m]) hk' A' B'"
    using fA' fB' by (auto simp: row_split_def)
qed

text \<open>A row that keeps its place: everything up to it becomes settled.\<close>

lemma row_split_stay:
  assumes split: "row_split idx kept processed hk A B" and new: "row_id m \<notin> ids processed"
    and r: "r \<in> set kept" "row_id r = row_id m" and hk: "hk < idx r"
    and sorted: "sorted_wrt (\<lambda>a b. idx a < idx b) kept"
  obtains B1 B2 where "B = B1 @ r # B2"
    and "row_split idx kept (processed @ [m]) (idx r) (A @ B1 @ [m]) B2"
proof -
  have d: "distinct (map row_id (A @ B))" and fA: "filter (\<lambda>r. row_id r \<in> ids processed) A = processed"
    and dj: "ids B \<inter> ids processed = {}"
    and fB: "filter (\<lambda>r. hk < idx r) B = filter (\<lambda>r. hk < idx r) kept"
    and un: "\<And>r. row_id r \<notin> ids processed \<Longrightarrow> r \<in> set (A @ B) \<longleftrightarrow> r \<in> set kept"
    using split by (auto simp: row_split_def)
  have "r \<in> set (filter (\<lambda>r. hk < idx r) B)" unfolding fB using r hk by simp
  then have "r \<in> set B" by simp
  then obtain B1 B2 where B: "B = B1 @ r # B2" by (meson split_list)
  have "sorted_wrt (\<lambda>a b. idx a < idx b) (filter (\<lambda>r. hk < idx r) B)"
    unfolding fB using sorted by (rule sorted_wrt_filter)
  then have before: "idx a < idx r" if "a \<in> set B1" "hk < idx a" for a
    using that hk by (auto simp: B sorted_wrt_append)
  have "filter (\<lambda>a. idx r < idx a) B = filter (\<lambda>a. idx r < idx a) (filter (\<lambda>a. hk < idx a) B)"
    using hk by (auto simp: filter_filter intro!: filter_cong)
  also have "\<dots> = filter (\<lambda>a. idx r < idx a) kept"
    unfolding fB using hk by (auto simp: filter_filter intro!: filter_cong)
  finally have f: "filter (\<lambda>a. idx r < idx a) B = filter (\<lambda>a. idx r < idx a) kept" .
  have none: "filter (\<lambda>a. idx r < idx a) B1 = []"
  proof (rule filter_False, rule ballI)
    fix a assume "a \<in> set B1"
    with before [of a] hk show "\<not> idx r < idx a" by (cases "hk < idx a") auto
  qed
  have f2: "filter (\<lambda>a. idx r < idx a) B2 = filter (\<lambda>a. idx r < idx a) kept"
    using f none by (simp add: B)
  have B1: "ids B1 \<inter> ids (processed @ [m]) = {}" using dj d r(2) by (auto simp: B ids_def)
  have mA: "row_id m \<notin> ids A" using d r(2) by (auto simp: B ids_def)
  have fA1: "filter (\<lambda>r. row_id r \<in> ids (processed @ [m])) A = processed"
  proof -
    have "filter (\<lambda>r. row_id r \<in> ids (processed @ [m])) A = filter (\<lambda>r. row_id r \<in> ids processed) A"
    proof (rule filter_cong [OF refl])
      fix a assume "a \<in> set A"
      then have "row_id a \<noteq> row_id m" using mA mem_ids [of a A] by auto
      then show "row_id a \<in> ids (processed @ [m]) \<longleftrightarrow> row_id a \<in> ids processed" by simp
    qed
    then show ?thesis using fA by simp
  qed
  have fB1: "filter (\<lambda>r. row_id r \<in> ids (processed @ [m])) B1 = []"
    using B1 mem_ids by (intro filter_False) blast
  have fA': "filter (\<lambda>r. row_id r \<in> ids (processed @ [m])) (A @ B1 @ [m]) = processed @ [m]"
    using fA1 fB1 by simp
  have "distinct (map row_id ((A @ B1 @ [m]) @ B2))" using d r(2) by (simp add: B)
  moreover have "ids B2 \<inter> ids (processed @ [m]) = {}" using dj d r(2) by (auto simp: B ids_def)
  moreover have "last_id (A @ B1 @ [m]) = last_id (processed @ [m])" by (simp add: last_id_def)
  moreover have "a \<in> set ((A @ B1 @ [m]) @ B2) \<longleftrightarrow> a \<in> set kept" if a: "row_id a \<notin> ids (processed @ [m])" for a
  proof -
    have "a \<noteq> r" and "a \<noteq> m" and "row_id a \<notin> ids processed" using a r(2) by auto
    then show ?thesis using un [of a] by (simp add: B)
  qed
  ultimately have "row_split idx kept (processed @ [m]) (idx r) (A @ B1 @ [m]) B2"
    using fA' f2 by (simp add: row_split_def)
  with B show ?thesis by (rule that)
qed

section \<open>The earlier rows by their identifier\<close>

lemma map_of_enumerate:
  assumes "distinct (map row_id rows)"
  shows "indexed_rows rows i = Some (n, r) \<longleftrightarrow> n < length rows \<and> rows ! n = r \<and> row_id r = i"
proof -
  let ?al = "map (\<lambda>(i, m). (row_id m, (i, m))) (enumerate 0 rows)"
  have keys: "map fst ?al = map row_id rows"
    by (intro nth_equalityI) (simp_all add: nth_enumerate_eq)
  then have d: "distinct (map fst (rev ?al))" using assms by (simp add: rev_map [symmetric])
  have "indexed_rows rows i = Some (n, r) \<longleftrightarrow> (i, (n, r)) \<in> set ?al"
    unfolding indexed_rows_def using map_of_eq_Some_iff [OF d] by simp
  also have "\<dots> \<longleftrightarrow> (n, r) \<in> set (enumerate 0 rows) \<and> row_id r = i"
    by (force simp: image_iff split: prod.splits)
  also have "\<dots> \<longleftrightarrow> n < length rows \<and> rows ! n = r \<and> row_id r = i"
    by (auto simp: in_set_enumerate_eq)
  finally show ?thesis .
qed

lemma indexed_rows_None:
  assumes "distinct (map row_id rows)"
  shows "indexed_rows rows i = None \<longleftrightarrow> i \<notin> ids rows"
proof
  assume none: "indexed_rows rows i = None"
  show "i \<notin> ids rows"
  proof
    assume "i \<in> ids rows"
    then obtain n where "n < length rows" "row_id (rows ! n) = i" by (auto simp: ids_def in_set_conv_nth)
    then have "indexed_rows rows i = Some (n, rows ! n)" using map_of_enumerate [OF assms] by simp
    with none show False by simp
  qed
next
  assume i: "i \<notin> ids rows"
  show "indexed_rows rows i = None"
  proof (cases "indexed_rows rows i")
    case (Some p)
    then obtain n r where "indexed_rows rows i = Some (n, r)" by (cases p) simp
    then have "n < length rows \<and> rows ! n = r \<and> row_id r = i" using map_of_enumerate [OF assms] by simp
    then have "i \<in> ids rows" by (auto simp: ids_def)
    with i show ?thesis by simp
  qed simp
qed

lemma row_index_nth:
  assumes "distinct (map row_id rows)" and "n < length rows"
  shows "row_index (indexed_rows rows) (rows ! n) = int n"
proof -
  have "indexed_rows rows (row_id (rows ! n)) = Some (n, rows ! n)"
    using map_of_enumerate [OF assms(1)] assms(2) by simp
  then show ?thesis by (simp add: row_index_def)
qed

lemma row_index_sorted:
  assumes "distinct (map row_id rows)"
  shows "sorted_wrt (\<lambda>a b. row_index (indexed_rows rows) a < row_index (indexed_rows rows) b) rows"
  by (simp add: sorted_wrt_iff_nth_less row_index_nth [OF assms])

lemma kept_index_gap:
  assumes d: "distinct (map row_id before)"
    and gap: "\<And>r. r \<in> set before \<Longrightarrow> row_id r \<notin> ids processed \<Longrightarrow> row_index (indexed_rows before) r \<noteq> hk"
    and r: "r \<in> set before" "row_id r \<notin> ids (processed @ [m])"
  shows "row_index (indexed_rows before) r \<noteq> kept_index (indexed_rows before) hk m"
proof (cases "indexed_rows before (row_id m)")
  case None
  then show ?thesis using gap [OF r(1)] r(2) by (simp add: kept_index_def)
next
  case (Some p)
  then obtain i e where e: "indexed_rows before (row_id m) = Some (i, e)" by (cases p) auto
  then have i: "i < length before" "before ! i = e" "row_id e = row_id m" using map_of_enumerate [OF d] by auto
  obtain n where n: "n < length before" "r = before ! n" using r(1) by (auto simp: in_set_conv_nth)
  have "n \<noteq> i" using n i r(2) by auto
  then show ?thesis using gap [OF r(1)] r(2) e row_index_nth [OF d n(1)] n(2) by (simp add: kept_index_def)
qed

section \<open>The loop\<close>

lemma row_update_step:
  fixes before :: "'x chat_row list"
  defines "by_id \<equiv> indexed_rows before"
  assumes d: "distinct (map row_id before)"
    and split: "row_split (row_index by_id) (filter keep before) processed hk A B"
    and new: "row_id m \<notin> ids processed" and keep: "\<And>r. row_id r = row_id m \<Longrightarrow> keep r"
    and hk: "- 1 \<le> hk" and wf: "wf_row m"
    and gap: "\<And>r. r \<in> set before \<Longrightarrow> row_id r \<notin> ids processed \<Longrightarrow> row_index by_id r \<noteq> hk"
  shows "\<exists>A' B'. rows_apply (A @ B) (row_update by_id (last_id processed) hk m) = Inr (A' @ B')
    \<and> row_split (row_index by_id) (filter keep before) (processed @ [m]) (kept_index by_id hk m) A' B'"
proof (cases "by_id (row_id m)")
  case None
  then have kept: "kept_index by_id hk m = hk" and
    recs: "row_update by_id (last_id processed) hk m = [MessageRecord m (last_id processed)]"
    by (simp_all add: kept_index_def row_update_def)
  have "row_index by_id r \<le> hk" if "row_id r = row_id m" for r
    using None that hk by (simp add: row_index_def)
  note row_split_place [OF split new order_refl this]
  then have "\<exists>A' B'. insertAfter m (last_id processed) (removeMessage (row_id m) (A @ B)) = Inr (A' @ B')
      \<and> row_split (row_index by_id) (filter keep before) (processed @ [m]) hk A' B'"
    by blast
  then show ?thesis unfolding kept recs by (simp add: row_apply_def)
next
  case (Some p)
  then obtain i e where e: "by_id (row_id m) = Some (i, e)" by (cases p) auto
  then have i: "i < length before" "before ! i = e" "row_id e = row_id m"
    using map_of_enumerate [OF d] by (auto simp: by_id_def)
  have idx: "row_index by_id r = int i" if "row_id r = row_id m" for r
    using that e by (simp add: row_index_def)
  have ein: "e \<in> set (filter keep before)" using i keep [of e] by auto
  let ?hk = "kept_index by_id hk m"
  have hk': "hk \<le> ?hk" "int i \<le> ?hk" using e by (auto simp: kept_index_def)
  have eM: "e \<in> set (A @ B)" using split ein new i(3) by (auto simp: row_split_def)
  have dM: "distinct (map row_id (A @ B))" using split by (simp add: row_split_def)
  have place: "\<exists>A' B'. insertAfter m (last_id processed) (removeMessage (row_id m) (A @ B)) = Inr (A' @ B')
      \<and> row_split (row_index by_id) (filter keep before) (processed @ [m]) ?hk A' B'"
  proof -
    have le: "row_index by_id r \<le> ?hk" if "row_id r = row_id m" for r using idx [OF that] hk'(2) by simp
    note row_split_place [OF split new hk'(1) le]
    then show ?thesis by blast
  qed
  show ?thesis
  proof (cases "int i < hk")
    case moved: True
    show ?thesis
    proof (cases "e = m")
      case True
      have "find (\<lambda>r. row_id r = row_id m) (A @ B) = Some m" using find_row [OF dM eM] True by simp
      then show ?thesis using place moved True e by (simp add: row_update_def Let_def row_apply_def)
    next
      case False
      then show ?thesis using place moved e by (simp add: row_update_def Let_def row_apply_def)
    qed
  next
    case stays: False
    then have kept: "?hk = int i" using e by (simp add: kept_index_def)
    have changed: ?thesis if "e \<noteq> m" "textSuffix e m = None"
      using place that stays e by (simp add: row_update_def Let_def row_apply_def)
    have "row_index by_id e \<noteq> hk" using gap [of e] ein new i(3) by simp
    then have less: "hk < row_index by_id e" using stays idx [OF i(3)] by simp
    have sorted: "sorted_wrt (\<lambda>a b. row_index by_id a < row_index by_id b) (filter keep before)"
      unfolding by_id_def by (rule sorted_wrt_filter [OF row_index_sorted [OF d]])
    obtain B1 B2 where B: "B = B1 @ e # B2" and
      split': "row_split (row_index by_id) (filter keep before) (processed @ [m]) (row_index by_id e) (A @ B1 @ [m]) B2"
      by (rule row_split_stay [OF split new ein i(3) less sorted])
    have split'': "row_split (row_index by_id) (filter keep before) (processed @ [m]) ?hk (A @ B1 @ [m]) B2"
      using split' kept idx [OF i(3)] by simp
    show ?thesis
    proof (cases "e = m")
      case True
      then have "row_update by_id (last_id processed) hk m = []"
        using stays e by (simp add: row_update_def Let_def)
      then show ?thesis using split'' True by (intro exI [of _ "A @ B1 @ [m]"] exI [of _ B2]) (simp add: B)
    next
      case False
      show ?thesis
      proof (cases "textSuffix e m")
        case None
        then show ?thesis using changed False by simp
      next
        case (Some t)
        obtain tail md where t: "t = (tail, md)" by (cases t)
        have "row_id m \<notin> row_id ` set (A @ B1)" using dM i(3) by (auto simp: B)
        from append_at_split [OF this i(3) appendTextRow_textSuffix [OF Some [unfolded t] wf]]
        have "append_at (row_id m) (length (row_content e)) tail md ((A @ B1) @ e # B2) = Inr ((A @ B1) @ m # B2)" .
        then have "rows_apply (A @ B) (row_update by_id (last_id processed) hk m) = Inr ((A @ B1 @ [m]) @ B2)"
          using stays e False Some t by (simp add: row_update_def Let_def row_apply_def B)
        with split'' show ?thesis by blast
      qed
    qed
  qed
qed

lemma row_updates_run:
  fixes before :: "'x chat_row list"
  assumes d: "distinct (map row_id before)"
    and split: "row_split (row_index (indexed_rows before)) (filter keep before) processed hk A B"
    and rest: "distinct (map row_id (processed @ rest))" "\<forall>m \<in> set rest. wf_row m"
      "\<forall>m \<in> set rest. \<forall>r. row_id r = row_id m \<longrightarrow> keep r"
    and hk: "- 1 \<le> hk"
    and gap: "\<forall>r \<in> set before. row_id r \<notin> ids processed \<longrightarrow> row_index (indexed_rows before) r \<noteq> hk"
  shows "\<exists>A' B' hk'. rows_apply (A @ B) (row_updates (indexed_rows before) (last_id processed) hk rest) = Inr (A' @ B')
    \<and> row_split (row_index (indexed_rows before)) (filter keep before) (processed @ rest) hk' A' B'"
  using split rest hk gap
proof (induction rest arbitrary: processed hk A B)
  case Nil
  then show ?case by auto
next
  case (Cons m rest)
  have new: "row_id m \<notin> ids processed" and wf: "wf_row m" and km: "\<And>r. row_id r = row_id m \<Longrightarrow> keep r"
    using Cons.prems(2,3,4) by (auto simp: ids_def)
  have gap: "\<And>r. r \<in> set before \<Longrightarrow> row_id r \<notin> ids processed \<Longrightarrow> row_index (indexed_rows before) r \<noteq> hk"
    using Cons.prems(6) by simp
  obtain A1 B1 where step: "rows_apply (A @ B) (row_update (indexed_rows before) (last_id processed) hk m) = Inr (A1 @ B1)"
    and split1: "row_split (row_index (indexed_rows before)) (filter keep before) (processed @ [m])
      (kept_index (indexed_rows before) hk m) A1 B1"
    using row_update_step [OF d Cons.prems(1) new km Cons.prems(5) wf gap] by blast
  have hk1: "- 1 \<le> kept_index (indexed_rows before) hk m"
    using Cons.prems(5) by (auto simp: kept_index_def split: option.splits)
  have gap1: "\<forall>r \<in> set before. row_id r \<notin> ids (processed @ [m]) \<longrightarrow>
      row_index (indexed_rows before) r \<noteq> kept_index (indexed_rows before) hk m"
    using kept_index_gap [OF d gap] by simp
  have d1: "distinct (map row_id ((processed @ [m]) @ rest))" using Cons.prems(2) by simp
  have wf1: "\<forall>m \<in> set rest. wf_row m" and k1: "\<forall>m \<in> set rest. \<forall>r. row_id r = row_id m \<longrightarrow> keep r"
    using Cons.prems(3,4) by auto
  obtain A2 B2 hk2 where
    "rows_apply (A1 @ B1) (row_updates (indexed_rows before) (last_id (processed @ [m]))
       (kept_index (indexed_rows before) hk m) rest) = Inr (A2 @ B2)"
    and "row_split (row_index (indexed_rows before)) (filter keep before) ((processed @ [m]) @ rest) hk2 A2 B2"
    using Cons.IH [OF split1 d1 wf1 k1 hk1 gap1] by blast
  moreover have "last_id (processed @ [m]) = Some (row_id m)" by (simp add: last_id_def)
  ultimately show ?case using step by (auto simp: rows_apply_append)
qed

text \<open>From the earlier rows without the removed ones, the row records give the later rows.\<close>

lemma row_updates_deliver:
  assumes d: "distinct (map row_id before)" and d': "distinct (map row_id after)"
    and wf: "\<forall>m \<in> set after. wf_row m"
  shows "rows_apply (filter (\<lambda>r. row_id r \<in> ids after) before)
    (row_updates (indexed_rows before) None (- 1) after) = Inr after"
proof -
  let ?keep = "\<lambda>r. row_id r \<in> ids after" and ?idx = "row_index (indexed_rows before)"
  let ?kept = "filter ?keep before"
  have pos: "- 1 < ?idx r" if "r \<in> set before" for r
    using that row_index_nth [OF d] by (auto simp: in_set_conv_nth)
  have "distinct (map row_id ?kept)" using d by (simp add: distinct_map_filter)
  moreover have "filter (\<lambda>r. - 1 < ?idx r) ?kept = ?kept" using pos by (intro filter_True) auto
  ultimately have "row_split ?idx ?kept [] (- 1) [] ?kept"
    by (simp add: row_split_def last_id_def)
  from row_updates_run [OF d this, of after] pos wf d' obtain A B hk where
    run: "rows_apply ?kept (row_updates (indexed_rows before) None (- 1) after) = Inr (A @ B)" and
    split: "row_split ?idx ?kept after hk A B"
    by (fastforce simp: last_id_def ids_def)
  have un: "r \<in> set (A @ B) \<Longrightarrow> row_id r \<in> ids after" for r
    using split by (auto simp: row_split_def)
  have "B = []"
  proof (rule ccontr)
    assume "B \<noteq> []"
    then obtain r where "r \<in> set B" by (cases B) auto
    then have "row_id r \<in> ids B \<inter> ids after" using un [of r] by (simp add: mem_ids)
    then show False using split by (auto simp: row_split_def)
  qed
  moreover have "filter (\<lambda>r. row_id r \<in> ids after) A = A" using un by (intro filter_True) simp
  ultimately show ?thesis using run split by (auto simp: row_split_def)
qed

end
