(* ===== verification/Projection_Transfer.thy ===== *)
theory Projection_Transfer
  imports Projection_Rows "HOL-Library.Multiset"
begin

text \<open>
  One transfer of the projection protocol, record by record: what the receiver has staged after each
  group of records of \<open>createChatSnapshotRecords\<close> and \<open>createChatUpdateRecords\<close>,
  and what it delivers at the commit.
\<close>

section \<open>Well-formed captures\<close>

text \<open>
  What \<open>ChatOperationSnapshotReader.capture\<close> and the schemas guarantee of a capture: one row
  per identifier, one recovered tool per tool call row in the order of the rows, token turns sorted
  by turn without repetition, the snapshot bound to the cursor of the capture and the queue to its
  session.
\<close>

definition tool_row :: "'x chat_row \<Rightarrow> bool" where
  "tool_row r \<longleftrightarrow> row_kind r = AssistantToolCall"

definition wf_snapshot :: "'x operation_snapshot \<Rightarrow> bool" where
  "wf_snapshot s \<longleftrightarrow> distinct (map row_id (sn_messages s)) \<and> list_all wf_row (sn_messages s)
     \<and> map rt_message (sn_tools s) = map row_id (filter tool_row (sn_messages s))
     \<and> sorted_wrt (<) (map tt_turn (sn_turns s))"

definition wf_capture :: "'x projection_capture \<Rightarrow> bool" where
  "wf_capture c \<longleftrightarrow> wf_snapshot (cap_snapshot c)
     \<and> cur_operation (cap_cursor c) = sn_operation (cap_snapshot c)
     \<and> sn_cursor (cap_snapshot c) = \<lparr>ev_operation = sn_operation (cap_snapshot c),
          ev_sequence = cur_sequence (cap_cursor c)\<rparr>
     \<and> mq_session (cap_queue c) = sn_session (cap_snapshot c)"

section \<open>Staging a list of records\<close>

fun stage_run :: "string \<Rightarrow> 'x staged_view \<Rightarrow> 'x projection_record list \<Rightarrow> string + 'x staged_view" where
  "stage_run session st [] = Inr st"
| "stage_run session st (r # rs) = bind_result (stageRecord session st r) (\<lambda>st'. stage_run session st' rs)"

lemma stage_run_append:
  "stage_run session st (rs @ ss) = bind_result (stage_run session st rs) (\<lambda>st'. stage_run session st' ss)"
  by (induction rs arbitrary: st) (auto simp: bind_result_def split: sum.splits)

lemma stage_run_rows:
  assumes "bg_mode (st_begin st) = UpdateMode" and "rows_apply (st_messages st) rs = Inr rows"
  shows "stage_run session st rs = Inr (st\<lparr>st_messages := rows\<rparr>)"
  using assms
proof (induction rs arbitrary: st)
  case Nil
  then show ?case by simp
next
  case (Cons r rs)
  from Cons.prems(2) obtain rows1 where r: "row_apply (st_messages st) r = Inr rows1"
    and rs: "rows_apply rows1 rs = Inr rows" by auto
  have "stageRecord session st r = Inr (st\<lparr>st_messages := rows1\<rparr>)"
  proof (cases r)
    case (MoveMessageRecord i anchor)
    then show ?thesis using r
      by (cases "find (\<lambda>m. row_id m = i) (st_messages st)")
        (simp_all add: row_apply_def stageRecord_def set_rows_def)
  qed (use r Cons.prems(1) in \<open>simp_all add: row_apply_def stageRecord_def set_rows_def\<close>)
  then show ?case using Cons.IH [of "st\<lparr>st_messages := rows1\<rparr>"] Cons.prems(1) rs by simp
qed

lemma stage_run_messages:
  assumes "distinct (map row_id (st_messages st @ ms))" and "previous = last_id (st_messages st)"
  shows "stage_run session st (message_records previous ms) = Inr (st\<lparr>st_messages := st_messages st @ ms\<rparr>)"
  using assms
proof (induction ms arbitrary: st previous)
  case Nil
  then show ?case by simp
next
  case (Cons m ms)
  have new: "row_id m \<notin> row_id ` set (st_messages st)" using Cons.prems(1) by simp
  have "insertAfter m previous (st_messages st) = Inr (st_messages st @ [m])"
    by (simp add: Cons.prems(2) last_id_def insertAfter_def)
  then have "stageRecord session st (MessageRecord m previous) = Inr (st\<lparr>st_messages := st_messages st @ [m]\<rparr>)"
    using new by (simp add: stageRecord_def has_row_def set_rows_def removeMessage_absent)
  then show ?case
    using Cons.IH [of "st\<lparr>st_messages := st_messages st @ [m]\<rparr>" "Some (row_id m)"] Cons.prems(1)
    by (simp add: last_id_def)
qed

text \<open>Removals take the rows and their tools with them.\<close>

lemma AList_delete_filter: "AList.delete k al = filter (\<lambda>(i, _). i \<noteq> k) al"
  by (simp add: AList.delete_eq eq_commute)

lemma stage_run_removals:
  assumes "distinct (map row_id (st_messages st))" and "\<forall>m \<in> set ms. row_id m \<in> ids (st_messages st)"
    and "distinct (map row_id ms)"
  shows "stage_run session st (map (\<lambda>m. RemoveMessageRecord (row_id m)) ms) =
    Inr (st\<lparr>st_messages := filter (\<lambda>r. row_id r \<notin> ids ms) (st_messages st),
           st_tools := filter (\<lambda>(i, _). i \<notin> ids ms) (st_tools st)\<rparr>)"
  using assms
proof (induction ms arbitrary: st)
  case Nil
  then show ?case by (simp add: case_prod_beta)
next
  case (Cons m ms)
  let ?st = "st\<lparr>st_messages := filter (\<lambda>r. row_id r \<noteq> row_id m) (st_messages st),
      st_tools := AList.delete (row_id m) (st_tools st)\<rparr>"
  have step: "stageRecord session st (RemoveMessageRecord (row_id m)) = Inr ?st"
    using Cons.prems(1,2) removeMessage_filter [of "st_messages st" "row_id m"]
    by (simp add: stageRecord_def has_row_def ids_def)
  have "\<forall>r \<in> set ms. row_id r \<in> ids (st_messages ?st)"
  proof
    fix r assume r: "r \<in> set ms"
    then obtain x where "x \<in> set (st_messages st)" "row_id x = row_id r" using Cons.prems(2) by (auto simp: ids_def)
    moreover have "row_id r \<noteq> row_id m"
      using imageI [OF r, of row_id] Cons.prems(3) by (intro notI) simp
    ultimately show "row_id r \<in> ids (st_messages ?st)" using mem_ids [of x "st_messages ?st"] by simp
  qed
  from Cons.IH [OF _ this] Cons.prems(1,3) step show ?case
    by (simp add: distinct_map_filter filter_filter AList_delete_filter case_prod_beta conj_commute)
qed

lemma stage_run_tools:
  "stage_run session st (map ToolRecord ts) =
     Inr (st\<lparr>st_tools := fold (\<lambda>t. AList.update (rt_message t) t) ts (st_tools st)\<rparr>)"
  by (induction ts arbitrary: st) (simp_all add: stageRecord_def)

lemma stage_run_turns:
  "stage_run session st (map TokenTurnRecord ts) =
     Inr (st\<lparr>st_turns := fold (\<lambda>t. AList.update (tt_turn t) t) ts (st_turns st)\<rparr>)"
  by (induction ts arbitrary: st) (simp_all add: stageRecord_def)

lemma stage_run_warnings:
  "n = length (st_warnings st) \<Longrightarrow> stage_run session st (map (\<lambda>(i, w). WarningRecord i w) (enumerate n ws)) =
     Inr (st\<lparr>st_warnings := st_warnings st @ ws\<rparr>)"
proof (induction ws arbitrary: st n)
  case (Cons w ws)
  then show ?case using Cons.IH [of "Suc n" "st\<lparr>st_warnings := st_warnings st @ [w]\<rparr>"]
    by (simp add: stageRecord_def)
qed simp

lemma stage_run_issues:
  "n = length (st_issues st) \<Longrightarrow> stage_run session st (map (\<lambda>(i, x). IssueRecord i x) (enumerate n xs)) =
     Inr (st\<lparr>st_issues := st_issues st @ xs\<rparr>)"
proof (induction xs arbitrary: st n)
  case (Cons x xs)
  then show ?case using Cons.IH [of "Suc n" "st\<lparr>st_issues := st_issues st @ [x]\<rparr>"]
    by (simp add: stageRecord_def)
qed simp

lemma drop_enumerate: "drop k (enumerate n xs) = enumerate (n + k) (drop k xs)"
  by (induction xs arbitrary: n k) (auto simp: drop_Cons split: nat.splits)

lemma isPrefix_drop: "isPrefix xs ys \<Longrightarrow> xs @ drop (length xs) ys = ys"
  unfolding isPrefix_def by (metis append_take_drop_id)

section \<open>Keyed collections\<close>

text \<open>A collection kept under a key: setting the entries that differ from the earlier ones leaves
  a map with exactly the later entries, when no earlier key is gone.\<close>

definition keyed :: "('a \<Rightarrow> 'k) \<Rightarrow> ('k \<times> 'a) list \<Rightarrow> 'a list \<Rightarrow> bool" where
  "keyed key al xs \<longleftrightarrow> distinct (map fst al) \<and> map_of al = map_of (map (\<lambda>x. (key x, x)) xs)"

definition set_all :: "('a \<Rightarrow> 'k) \<Rightarrow> 'a list \<Rightarrow> ('k \<times> 'a) list \<Rightarrow> ('k \<times> 'a) list" where
  "set_all key xs al = fold (\<lambda>x. AList.update (key x) x) xs al"

lemma set_all_simps [simp]: "set_all key [] al = al"
  "set_all key (x # xs) al = set_all key xs (AList.update (key x) x al)"
  by (simp_all add: set_all_def)

lemma distinct_set_all: "distinct (map fst al) \<Longrightarrow> distinct (map fst (set_all key xs al))"
  by (induction xs arbitrary: al) (simp_all add: distinct_update)

lemma map_of_set_all:
  "map_of (set_all key xs al) k =
     (case map_of (rev (map (\<lambda>x. (key x, x)) xs)) k of None \<Rightarrow> map_of al k | Some x \<Rightarrow> Some x)"
  by (induction xs arbitrary: al) (auto simp: map_of_append map_add_def update_conv' split: option.splits)

lemma map_of_key_distinct:
  "distinct (map key xs) \<Longrightarrow> map_of (map (\<lambda>x. (key x, x)) xs) k = Some x \<longleftrightarrow> x \<in> set xs \<and> key x = k"
  by (subst map_of_eq_Some_iff) (auto simp: comp_def)

lemma map_of_key_None: "map_of (map (\<lambda>x. (key x, x)) xs) k = None \<longleftrightarrow> k \<notin> key ` set xs"
  by (auto simp: map_of_eq_None_iff image_iff)

lemma map_of_rev_key:
  "distinct (map key xs) \<Longrightarrow> map_of (rev (map (\<lambda>x. (key x, x)) xs)) = map_of (map (\<lambda>x. (key x, x)) xs)"
proof
  fix k assume d: "distinct (map key xs)"
  have "map_of (rev (map (\<lambda>x. (key x, x)) xs)) k = Some x \<longleftrightarrow>
      map_of (map (\<lambda>x. (key x, x)) xs) k = Some x" for x
    using d by (simp add: map_of_eq_Some_iff comp_def rev_map [symmetric])
  then show "map_of (rev (map (\<lambda>x. (key x, x)) xs)) k = map_of (map (\<lambda>x. (key x, x)) xs) k"
    by (metis option.exhaust)
qed

lemma keyed_length:
  assumes "keyed key al xs" and "distinct (map key xs)"
  shows "length al = length xs"
proof -
  have "set (map fst al) = dom (map_of al)" by (simp add: dom_map_of_conv_image_fst)
  also have "\<dots> = set (map key xs)" using assms(1)
    by (simp add: keyed_def dom_map_of_conv_image_fst image_image)
  finally have "card (set (map fst al)) = card (set (map key xs))" by simp
  then show ?thesis using assms distinct_card [of "map fst al"] distinct_card [of "map key xs"]
    by (simp add: keyed_def)
qed

lemma keyed_initial: "distinct (map key xs) \<Longrightarrow> keyed key (set_all key xs []) xs"
  unfolding keyed_def by (auto simp: distinct_set_all fun_eq_iff map_of_set_all map_of_rev_key split: option.splits)

lemma keyed_update:
  assumes al: "keyed key al before" and b: "distinct (map key before)" and a: "distinct (map key after)"
    and sub: "key ` set before \<subseteq> key ` set after"
    and changed: "changed = filter (\<lambda>x. map_of (rev (map (\<lambda>x. (key x, x)) before)) (key x) \<noteq> Some x) after"
  shows "keyed key (set_all key changed al) after"
proof -
  have dc: "distinct (map key changed)" unfolding changed using a by (rule distinct_map_filter)
  have "map_of (set_all key changed al) k = map_of (map (\<lambda>x. (key x, x)) after) k" for k
  proof (cases "map_of (map (\<lambda>x. (key x, x)) after) k")
    case None
    then have k: "k \<notin> key ` set after" by (simp add: map_of_key_None)
    then have "k \<notin> key ` set changed" "k \<notin> key ` set before" using sub by (auto simp: changed)
    then have "map_of (map (\<lambda>x. (key x, x)) changed) k = None" "map_of (map (\<lambda>x. (key x, x)) before) k = None"
      by (simp_all add: map_of_key_None)
    then show ?thesis using al None by (simp add: map_of_set_all map_of_rev_key [OF dc] keyed_def)
  next
    case (Some x)
    then have x: "x \<in> set after" "key x = k" using map_of_key_distinct [OF a] by auto
    show ?thesis
    proof (cases "map_of (map (\<lambda>x. (key x, x)) before) k = Some x")
      case True
      have "k \<notin> key ` set changed"
      proof
        assume "k \<in> key ` set changed"
        then obtain y where y: "y \<in> set after" "key y = k" "map_of (map (\<lambda>x. (key x, x)) before) k \<noteq> Some y"
          by (auto simp: changed map_of_rev_key [OF b])
        then have "y = x" using a x by (auto simp: distinct_map inj_on_def)
        with y True show False by simp
      qed
      then have "map_of (map (\<lambda>x. (key x, x)) changed) k = None" by (simp add: map_of_key_None)
      then show ?thesis using al True Some by (simp add: map_of_set_all map_of_rev_key [OF dc] keyed_def)
    next
      case False
      then have "x \<in> set changed" using x by (simp add: changed map_of_rev_key [OF b])
      then have "map_of (map (\<lambda>x. (key x, x)) changed) k = Some x" using map_of_key_distinct [OF dc] x(2) by simp
      then show ?thesis using Some by (simp add: map_of_set_all map_of_rev_key [OF dc])
    qed
  qed
  moreover have "distinct (map fst (set_all key changed al))" using al by (simp add: keyed_def distinct_set_all)
  ultimately show ?thesis by (simp add: keyed_def fun_eq_iff)
qed

lemma keyed_entry:
  assumes "keyed key al xs" and "distinct (map key xs)" and "(k, x) \<in> set al"
  shows "key x = k" and "x \<in> set xs"
proof -
  have "map_of al k = Some x" using assms(1,3) by (intro map_of_is_SomeI) (simp_all add: keyed_def)
  then have "map_of (map (\<lambda>x. (key x, x)) xs) k = Some x" using assms(1) by (simp add: keyed_def)
  then show "key x = k" and "x \<in> set xs" using map_of_key_distinct [OF assms(2)] by auto
qed

lemma keyed_mset:
  assumes k: "keyed key al xs" and d: "distinct (map key xs)"
  shows "mset (map snd al) = mset xs"
proof -
  have "map fst al = map key (map snd al)"
    using keyed_entry [OF k d] by (auto intro!: map_cong)
  moreover have "distinct (map fst al)" using k by (simp add: keyed_def)
  ultimately have "distinct (map key (map snd al))" by metis
  then have "distinct (map snd al)" by (simp only: distinct_map)
  moreover have "distinct xs" using d by (simp add: distinct_map)
  moreover have "set (map snd al) = set xs"
  proof (intro equalityI subsetI)
    fix x assume "x \<in> set (map snd al)"
    then show "x \<in> set xs" using keyed_entry(2) [OF k d] by auto
  next
    fix x assume "x \<in> set xs"
    then have "map_of (map (\<lambda>x. (key x, x)) xs) (key x) = Some x" using map_of_key_distinct [OF d] by simp
    then have "map_of al (key x) = Some x" using k by (simp add: keyed_def)
    then show "x \<in> set (map snd al)" by (force dest: map_of_SomeD)
  qed
  ultimately show ?thesis by (simp only: set_eq_iff_mset_eq_distinct)
qed

lemma keyed_sort:
  assumes "keyed key al xs" and "sorted_wrt (<) (map (key :: 'a \<Rightarrow> nat) xs)"
  shows "sort_key key (map snd al) = xs"
proof (rule sort_key_inj_key_eq)
  have s: "sorted (map key xs)" "distinct (map key xs)" using assms(2) by (simp_all add: strict_sorted_iff)
  then show "mset (map snd al) = mset xs" using keyed_mset [OF assms(1)] by simp
  then have "set (map snd al) = set xs" by (rule mset_eq_setD)
  then show "inj_on key (set (map snd al))" using s(2) by (simp add: distinct_map)
  show "sorted (map key xs)" by (rule s(1))
qed

lemma map_filter_eq:
  "(\<And>x. x \<in> set xs \<Longrightarrow> f x = g x) \<Longrightarrow> List.map_filter f xs = List.map_filter g xs"
  by (induction xs) (auto simp: List.map_filter_simps split: option.splits)

text \<open>One tool per tool call row: reading the map of tools along the rows gives the tools back.\<close>

lemma tools_along_rows:
  "distinct (map row_id ms) \<Longrightarrow> map rt_message ts = map row_id (filter p ms) \<Longrightarrow>
   List.map_filter (\<lambda>m. map_of (map (\<lambda>t. (rt_message t, t)) ts) (row_id m)) ms = ts"
proof (induction ms arbitrary: ts)
  case Nil
  then show ?case by (simp add: List.map_filter_def)
next
  case (Cons m ms)
  show ?case
  proof (cases "p m")
    case True
    then obtain t ts' where ts: "ts = t # ts'" "rt_message t = row_id m"
      "map rt_message ts' = map row_id (filter p ms)" using Cons.prems(2) by (cases ts) auto
    have ne: "row_id x \<noteq> row_id m" if "x \<in> set ms" for x
      using imageI [OF that, of row_id] Cons.prems(1) by (intro notI) simp
    have "List.map_filter (\<lambda>m. map_of (map (\<lambda>t. (rt_message t, t)) ts) (row_id m)) ms =
        List.map_filter (\<lambda>m. map_of (map (\<lambda>t. (rt_message t, t)) ts') (row_id m)) ms"
      by (intro map_filter_eq) (simp add: ts(1) ts(2) ne)
    then show ?thesis using Cons.IH [OF _ ts(3)] Cons.prems(1) ts by (simp add: List.map_filter_simps)
  next
    case False
    have "set (map rt_message ts) \<subseteq> set (map row_id ms)" using Cons.prems(2) False by auto
    then have "row_id m \<notin> rt_message ` set ts" using Cons.prems(1) by auto
    then have "map_of (map (\<lambda>t. (rt_message t, t)) ts) (row_id m) = None" by (simp add: map_of_key_None)
    then show ?thesis using Cons.IH [of ts] Cons.prems False by (simp add: List.map_filter_simps)
  qed
qed

section \<open>What a commit delivers\<close>

text \<open>The staged view carries the snapshot: every collection, keyed collections as maps.\<close>

definition carries :: "'x staged_view \<Rightarrow> 'x operation_snapshot \<Rightarrow> bool" where
  "carries st s \<longleftrightarrow> st_messages st = sn_messages s \<and> keyed rt_message (st_tools st) (sn_tools s)
     \<and> keyed tt_turn (st_turns st) (sn_turns s) \<and> st_warnings st = sn_warnings s
     \<and> st_issues st = sn_issues s \<and> st_approval st = sn_approval s \<and> st_question st = sn_question s"

definition begins :: "'x begin_record \<Rightarrow> 'x projection_capture \<Rightarrow> bool" where
  "begins bg c \<longleftrightarrow> bg_session bg = sn_session (cap_snapshot c) \<and> bg_operation bg = sn_operation (cap_snapshot c)
     \<and> bg_cursor bg = cap_cursor c \<and> bg_state bg = sn_state (cap_snapshot c)"

lemma wf_tools_distinct:
  "wf_snapshot s \<Longrightarrow> distinct (map rt_message (sn_tools s))"
  by (simp add: wf_snapshot_def distinct_map_filter)

lemma wf_turns_distinct:
  "wf_snapshot s \<Longrightarrow> distinct (map tt_turn (sn_turns s))"
  by (simp add: wf_snapshot_def strict_sorted_iff)

lemma carries_counts:
  assumes "wf_snapshot s" and "carries st s"
  shows "staged_counts st = commitCounts s"
  using assms keyed_length [OF _ wf_tools_distinct [OF assms(1)], of "st_tools st"]
    keyed_length [OF _ wf_turns_distinct [OF assms(1)], of "st_turns st"]
  by (simp add: staged_counts_def commitCounts_def carries_def)

lemma carries_tools:
  assumes "wf_snapshot s" and "carries st s"
  shows "tools_in_row_order st = sn_tools s"
  using assms tools_along_rows [of "sn_messages s" "sn_tools s" tool_row]
  by (simp add: tools_in_row_order_def carries_def wf_snapshot_def keyed_def)

lemma carries_tool_rows:
  assumes wf: "wf_snapshot s" and st: "carries st s"
  shows "list_all (\<lambda>(i, t). has_row i (st_messages st)) (st_tools st)"
proof -
  have "has_row i (st_messages st)" if "(i, t) \<in> set (st_tools st)" for i t
  proof -
    have "rt_message t = i" and "t \<in> set (sn_tools s)"
      using keyed_entry [OF _ wf_tools_distinct [OF wf] that] st by (auto simp: carries_def)
    then have "i \<in> set (map rt_message (sn_tools s))" by auto
    moreover have "map rt_message (sn_tools s) = map row_id (filter tool_row (sn_messages s))"
      using wf by (simp add: wf_snapshot_def)
    ultimately have "i \<in> set (map row_id (sn_messages s))" by auto
    then show ?thesis using st by (auto simp: carries_def has_row_def)
  qed
  then show ?thesis by (auto simp: list_all_iff)
qed

lemma commit_delivers:
  assumes wf: "wf_capture cap" and st: "carries st (cap_snapshot cap)" and bg: "begins (st_begin st) cap"
  shows "commit_view c st (cap_cursor cap) (commitCounts (cap_snapshot cap)) =
    Inr (ViewDelivery (cap_snapshot cap) (st_queue st),
      c\<lparr>pc_committed := Some (cap_snapshot cap, cap_cursor cap), pc_staged := None,
        pc_finished := st_transfer st # pc_finished c\<rparr>)"
proof -
  have s: "wf_snapshot (cap_snapshot cap)" using wf by (simp add: wf_capture_def)
  have "sort_key tt_turn (map snd (st_turns st)) = sn_turns (cap_snapshot cap)"
    using keyed_sort [of tt_turn "st_turns st"] st s by (simp add: carries_def wf_snapshot_def)
  then have "staged_snapshot st = cap_snapshot cap"
    using st bg wf carries_tools [OF s st]
    by (cases "cap_snapshot cap") (simp add: staged_snapshot_def carries_def begins_def wf_capture_def)
  then show ?thesis
    using carries_counts [OF s st] carries_tool_rows [OF s st] bg by (simp add: commit_view_def begins_def)
qed

section \<open>A whole transfer\<close>

text \<open>The records of a transfer between its begin and its commit.\<close>

definition staging :: "'x projection_record \<Rightarrow> bool" where
  "staging r = (case r of BeginRecord _ \<Rightarrow> False | CommitRecord _ _ \<Rightarrow> False
     | TerminalRecord _ _ _ \<Rightarrow> False | ErrorRecord _ \<Rightarrow> False | _ \<Rightarrow> True)"

lemma staging_simps [simp]:
  "\<not> staging (BeginRecord bg)" "\<not> staging (CommitRecord cursor counts)"
  "\<not> staging (TerminalRecord cursor cause issue)" "\<not> staging (ErrorRecord x)"
  "staging (MessageRecord m anchor)" "staging (AppendTextRecord i n text md)" "staging (RemoveMessageRecord i)"
  "staging (MoveMessageRecord i anchor)" "staging (ToolRecord tool)" "staging (TokenTurnRecord turn)"
  "staging (WarningRecord n w)" "staging (IssueRecord n x)" "staging (ApprovalRecord a)"
  "staging (QuestionRecord q)" "staging (QueueRecord queue)"
  by (simp_all add: staging_def)

lemma staging_map: "(\<And>x. staging (f x)) \<Longrightarrow> list_all staging (map f xs)"
  by (simp add: list_all_iff)

fun apply_records :: "('c, 'x) projection_client \<Rightarrow> string \<Rightarrow> 'x projection_record list
    \<Rightarrow> string + 'x projection_delivery list \<times> ('c, 'x) projection_client" where
  "apply_records c t [] = Inr ([], c)"
| "apply_records c t (r # rs) = bind_result (applyRecord c r t) (\<lambda>(d, c').
     bind_result (apply_records c' t rs) (\<lambda>(ds, c''). Inr (case d of None \<Rightarrow> ds | Some x \<Rightarrow> x # ds, c'')))"

lemma stageRecord_next:
  "stageRecord session (st\<lparr>st_next := n\<rparr>) r =
     bind_result (stageRecord session st r) (\<lambda>st'. Inr (st'\<lparr>st_next := n\<rparr>))"
  by (cases r) (simp_all add: stageRecord_def set_rows_def bind_result_def split: option.splits sum.splits)

lemma stageRecord_frame:
  "stageRecord session st r = Inr st' \<Longrightarrow>
     st_transfer st' = st_transfer st \<and> st_next st' = st_next st \<and> st_begin st' = st_begin st"
  by (cases r) (auto simp: stageRecord_def set_rows_def split: option.splits if_splits)

lemma stage_run_frame:
  "stage_run session st rs = Inr st' \<Longrightarrow>
     st_transfer st' = st_transfer st \<and> st_next st' = st_next st \<and> st_begin st' = st_begin st"
  by (induction rs arbitrary: st) (auto dest!: stageRecord_frame)

lemma stage_run_next:
  "stage_run session (st\<lparr>st_next := n\<rparr>) rs =
     bind_result (stage_run session st rs) (\<lambda>st'. Inr (st'\<lparr>st_next := n\<rparr>))"
proof (induction rs arbitrary: st)
  case (Cons r rs)
  then show ?case
    by (cases "stageRecord session st r") (simp_all add: stageRecord_next)
qed simp

lemma applyRecord_staging:
  "staging r \<Longrightarrow> pc_staged c = Some st \<Longrightarrow> applyRecord c r t =
     bind_result (stageRecord (pc_session c) st r)
       (\<lambda>st'. Inr (None, c\<lparr>pc_staged := Some (st'\<lparr>st_next := Suc (st_next st)\<rparr>)\<rparr>))"
  by (cases r) (simp_all add: staging_def applyRecord_def Let_def stageRecord_next bind_result_def split: sum.splits)

lemma apply_staging:
  assumes "list_all staging rs" and "pc_staged c = Some st" and "stage_run (pc_session c) st rs = Inr st'"
  shows "apply_records c t rs = Inr ([], c\<lparr>pc_staged := Some (st'\<lparr>st_next := st_next st + length rs\<rparr>)\<rparr>)"
  using assms
proof (induction rs arbitrary: c st st')
  case Nil
  then show ?case by (cases c) simp
next
  case (Cons r rs)
  from Cons.prems(3) obtain st1 where 1: "stageRecord (pc_session c) st r = Inr st1"
    and 2: "stage_run (pc_session c) st1 rs = Inr st'" by auto
  let ?st = "st1\<lparr>st_next := Suc (st_next st)\<rparr>"
  let ?c = "c\<lparr>pc_staged := Some ?st\<rparr>"
  have r: "applyRecord c r t = Inr (None, ?c)" using applyRecord_staging [of r c st t] Cons.prems 1 by simp
  have "stage_run (pc_session ?c) ?st rs = Inr (st'\<lparr>st_next := Suc (st_next st)\<rparr>)"
    using stage_run_next [of "pc_session c" "Suc (st_next st)" st1 rs] 2 by simp
  then have "apply_records ?c t rs = Inr ([], ?c\<lparr>pc_staged :=
      Some (st'\<lparr>st_next := Suc (st_next st)\<rparr>\<lparr>st_next := st_next ?st + length rs\<rparr>)\<rparr>)"
    using Cons.prems(1) by (intro Cons.IH [of ?c ?st]) simp_all
  then show ?case using r by simp
qed

lemma apply_records_append:
  "apply_records c t rs = Inr (ds, c') \<Longrightarrow> apply_records c t (rs @ ss) =
     bind_result (apply_records c' t ss) (\<lambda>(es, c''). Inr (ds @ es, c''))"
proof (induction rs arbitrary: c ds)
  case Nil
  then show ?case by (auto simp: bind_result_def split: sum.splits)
next
  case (Cons r rs)
  then obtain d c1 ds1 where 1: "applyRecord c r t = Inr (d, c1)" "apply_records c1 t rs = Inr (ds1, c')"
    "ds = (case d of None \<Rightarrow> ds1 | Some x \<Rightarrow> x # ds1)" by auto
  show ?case using Cons.IH [OF 1(2)] 1
    by (auto simp: bind_result_def split: sum.splits option.splits)
qed

lemma commit_view_next: "commit_view c (st\<lparr>st_next := n\<rparr>) = commit_view c st"
  by (rule ext)+ (simp add: commit_view_def staged_counts_def staged_snapshot_def tools_in_row_order_def)

lemma apply_transfer:
  assumes bgn: "applyRecord c (BeginRecord bg) t = Inr (None, c\<lparr>pc_staged := Some st\<rparr>)"
    and rs: "list_all staging rs" "stage_run (pc_session c) st rs = Inr st'"
    and wf: "wf_capture cap" and st: "carries st' (cap_snapshot cap)" and bg: "begins (st_begin st) cap"
    and t: "st_transfer st = t"
  shows "apply_records c t (BeginRecord bg # rs @ [CommitRecord (cap_cursor cap) (commitCounts (cap_snapshot cap))]) =
    Inr ([ViewDelivery (cap_snapshot cap) (st_queue st')],
      c\<lparr>pc_committed := Some (cap_snapshot cap, cap_cursor cap), pc_staged := None, pc_finished := t # pc_finished c\<rparr>)"
proof -
  let ?c = "c\<lparr>pc_staged := Some st\<rparr>"
  let ?c' = "?c\<lparr>pc_staged := Some (st'\<lparr>st_next := st_next st + length rs\<rparr>)\<rparr>"
  have f: "st_transfer st' = t" "st_begin st' = st_begin st" using stage_run_frame [OF rs(2)] t by simp_all
  have "apply_records ?c t rs = Inr ([], ?c')" using apply_staging [of rs ?c st st' t] rs by simp
  moreover have "applyRecord ?c' (CommitRecord (cap_cursor cap) (commitCounts (cap_snapshot cap))) t =
    Inr (Some (ViewDelivery (cap_snapshot cap) (st_queue st')),
      c\<lparr>pc_committed := Some (cap_snapshot cap, cap_cursor cap), pc_staged := None, pc_finished := t # pc_finished c\<rparr>)"
    using commit_delivers [OF wf st, of ?c'] bg f
    by (simp add: applyRecord_def Let_def commit_view_next)
  ultimately show ?thesis using bgn
    by (simp add: apply_records_append [of ?c t rs "[]" ?c'])
qed

lemma removed_records_ids: "removed_records before after =
    map (\<lambda>m. RemoveMessageRecord (row_id m)) (filter (\<lambda>m. row_id m \<notin> ids after) before)"
  by (simp add: removed_records_def ids_def)

lemma message_records_staging: "list_all staging (message_records previous ms)"
  by (induction ms arbitrary: previous) simp_all

lemma row_updates_staging: "list_all staging (row_updates by_id previous hk ms)"
proof (induction ms arbitrary: previous hk)
  case (Cons m ms)
  have "list_all staging (row_update by_id previous hk m)"
    by (simp add: row_update_def Let_def split: option.splits)
  then show ?case using Cons by simp
qed simp

lemma keyed_filter:
  "keyed key al xs \<Longrightarrow> keyed key (filter (\<lambda>(k, _). P k) al) (filter (\<lambda>x. P (key x)) xs)"
proof -
  have al: "map_of (filter (\<lambda>(k, _). P k) al) k = (if P k then map_of al k else None)" for k
    by (induction al) auto
  have xs: "map_of (map (\<lambda>x. (key x, x)) (filter (\<lambda>x. P (key x)) xs)) k =
      (if P k then map_of (map (\<lambda>x. (key x, x)) xs) k else None)" for k
    by (induction xs) auto
  assume "keyed key al xs"
  then show ?thesis by (simp add: keyed_def fun_eq_iff al xs distinct_map_filter)
qed

text \<open>The tools of the rows that stay, updated with the tools that changed.\<close>

lemma kept_tools_keyed:
  assumes b: "wf_snapshot b" and a: "wf_snapshot a" and ex: "expressible b a"
  defines "gone \<equiv> filter (\<lambda>m. row_id m \<notin> ids (sn_messages a)) (sn_messages b)"
  shows "keyed rt_message
    (set_all rt_message (filter (\<lambda>t. tool_of (sn_tools b) (rt_message t) \<noteq> Some t) (sn_tools a))
      (filter (\<lambda>(i, _). i \<notin> ids gone) (set_all rt_message (sn_tools b) []))) (sn_tools a)"
proof (rule keyed_update)
  let ?before = "filter (\<lambda>t. rt_message t \<notin> ids gone) (sn_tools b)"
  have rows: "set (map rt_message (sn_tools s)) \<subseteq> ids (sn_messages s)" if "wf_snapshot s" for s :: "'a operation_snapshot"
  proof -
    have "map rt_message (sn_tools s) = map row_id (filter tool_row (sn_messages s))"
      using that by (simp add: wf_snapshot_def)
    then show ?thesis by (auto simp: ids_def)
  qed
  show "keyed rt_message (filter (\<lambda>(i, _). i \<notin> ids gone) (set_all rt_message (sn_tools b) [])) ?before"
    by (rule keyed_filter [OF keyed_initial [OF wf_tools_distinct [OF b]]])
  show db: "distinct (map rt_message ?before)" using wf_tools_distinct [OF b] by (rule distinct_map_filter)
  show "distinct (map rt_message (sn_tools a))" using a by (rule wf_tools_distinct)
  show "rt_message ` set ?before \<subseteq> rt_message ` set (sn_tools a)"
  proof
    fix i assume "i \<in> rt_message ` set ?before"
    then obtain t where t: "t \<in> set (sn_tools b)" "rt_message t = i" "i \<notin> ids gone" by auto
    then have "i \<in> ids (sn_messages b)" using rows [OF b] by auto
    then have "i \<in> ids (sn_messages a)" using t(3) by (auto simp: gone_def ids_def)
    then show "i \<in> rt_message ` set (sn_tools a)"
      using ex t by (auto simp: expressible_def list_all_iff ids_def)
  qed
  show "filter (\<lambda>t. tool_of (sn_tools b) (rt_message t) \<noteq> Some t) (sn_tools a) =
    filter (\<lambda>t. map_of (rev (map (\<lambda>x. (rt_message x, x)) ?before)) (rt_message t) \<noteq> Some t) (sn_tools a)"
  proof (rule filter_cong [OF refl])
    fix t assume "t \<in> set (sn_tools a)"
    then have "rt_message t \<in> ids (sn_messages a)" using rows [OF a] by auto
    then have "rt_message t \<notin> ids gone" by (auto simp: gone_def ids_def)
    then have "map_of (map (\<lambda>x. (rt_message x, x)) ?before) (rt_message t) = Some t \<longleftrightarrow>
        map_of (map (\<lambda>x. (rt_message x, x)) (sn_tools b)) (rt_message t) = Some t"
      using map_of_key_distinct [OF db] map_of_key_distinct [OF wf_tools_distinct [OF b]] by auto
    then show "tool_of (sn_tools b) (rt_message t) \<noteq> Some t \<longleftrightarrow>
        map_of (rev (map (\<lambda>x. (rt_message x, x)) ?before)) (rt_message t) \<noteq> Some t"
      by (simp add: tool_of_def map_of_rev_key [OF db] map_of_rev_key [OF wf_tools_distinct [OF b]])
  qed
qed

text \<open>A snapshot transfer delivers its capture, whatever was committed before, provided the
  cursor of the operation does not go back.\<close>

definition snapshot_ready :: "('c, 'x) projection_client \<Rightarrow> 'x projection_capture \<Rightarrow> bool" where
  "snapshot_ready c cap \<longleftrightarrow> pc_staged c = None \<and> pc_session c = sn_session (cap_snapshot cap)
     \<and> (case pc_committed c of None \<Rightarrow> True | Some (s, cursor) \<Rightarrow>
          sn_operation s = sn_operation (cap_snapshot cap) \<longrightarrow> advancesChatProjectionCursor cursor (cap_cursor cap))"

definition committed_client :: "('c, 'x) projection_client \<Rightarrow> string \<Rightarrow> 'x projection_capture \<Rightarrow> ('c, 'x) projection_client" where
  "committed_client c t cap = c\<lparr>pc_committed := Some (cap_snapshot cap, cap_cursor cap), pc_staged := None,
     pc_finished := t # pc_finished c\<rparr>"

lemma snapshot_transfer:
  assumes wf: "wf_capture cap" and ready: "snapshot_ready c cap"
  shows "apply_records c t (createChatSnapshotRecords cap) =
    Inr ([ViewDelivery (cap_snapshot cap) (Some (cap_queue cap))], committed_client c t cap)"
proof -
  let ?s = "cap_snapshot cap"
  let ?bg = "\<lparr>bg_mode = SnapshotMode, bg_session = sn_session ?s, bg_operation = sn_operation ?s,
        bg_after = None, bg_cursor = cap_cursor cap, bg_state = sn_state ?s\<rparr>"
  let ?st = "staged_from None ?bg t"
  let ?rs = "message_records None (sn_messages ?s) @ map ToolRecord (sn_tools ?s)
     @ map TokenTurnRecord (sn_turns ?s)
     @ map (\<lambda>(i, w). WarningRecord i w) (enumerate 0 (sn_warnings ?s))
     @ map (\<lambda>(i, x). IssueRecord i x) (enumerate 0 (sn_issues ?s))
     @ [ApprovalRecord (sn_approval ?s), QuestionRecord (sn_question ?s), QueueRecord (cap_queue cap)]"
  let ?st' = "?st\<lparr>st_messages := sn_messages ?s, st_tools := set_all rt_message (sn_tools ?s) [],
     st_turns := set_all tt_turn (sn_turns ?s) [], st_warnings := sn_warnings ?s, st_issues := sn_issues ?s,
     st_approval := sn_approval ?s, st_question := sn_question ?s, st_queue := Some (cap_queue cap)\<rparr>"
  have s: "wf_snapshot ?s" and q: "mq_session (cap_queue cap) = pc_session c"
    using wf ready by (simp_all add: wf_capture_def snapshot_ready_def)
  have "stage_base (pc_committed c) ?bg = Inr None"
    using ready by (auto simp: stage_base_def snapshot_ready_def split: option.splits prod.splits)
  then have bgn: "applyRecord c (BeginRecord ?bg) t = Inr (None, c\<lparr>pc_staged := Some ?st\<rparr>)"
    using ready by (simp add: applyRecord_def stage_def snapshot_ready_def)
  have staging: "list_all staging ?rs"
    by (simp add: message_records_staging staging_map case_prod_beta)
  have run: "stage_run (pc_session c) ?st ?rs = Inr ?st'"
    using s q stage_run_messages [of ?st "sn_messages ?s" None "pc_session c"]
    by (simp add: wf_snapshot_def staged_from_def last_id_def stage_run_append stage_run_tools stage_run_turns
        stage_run_warnings stage_run_issues stageRecord_def set_all_def)
  have "carries ?st' ?s"
    using keyed_initial [OF wf_tools_distinct [OF s]] keyed_initial [OF wf_turns_distinct [OF s]]
    by (simp add: carries_def)
  from apply_transfer [OF bgn staging run wf this] show ?thesis
    by (simp add: createChatSnapshotRecords_def Let_def begins_def staged_from_def committed_client_def)
qed

text \<open>An update transfer on top of the earlier capture delivers the later one.\<close>

definition update_ready :: "('c, 'x) projection_client \<Rightarrow> 'x projection_capture \<Rightarrow> bool" where
  "update_ready c before \<longleftrightarrow> pc_staged c = None \<and> pc_session c = sn_session (cap_snapshot before)
     \<and> pc_committed c = Some (cap_snapshot before, cap_cursor before)"

text \<open>The queue comes with a view only when it changed.\<close>

definition sent_queue :: "'x projection_capture \<Rightarrow> 'x projection_capture \<Rightarrow> 'x message_queue_state option" where
  "sent_queue before after =
     (if expressible (cap_snapshot before) (cap_snapshot after) \<and> cap_queue before = cap_queue after then None
      else Some (cap_queue after))"

lemma update_transfer:
  assumes wb: "wf_capture before" and wa: "wf_capture after"
    and ready: "update_ready c before"
    and same: "sn_operation (cap_snapshot before) = sn_operation (cap_snapshot after)"
      "sn_session (cap_snapshot before) = sn_session (cap_snapshot after)"
    and ex: "expressible (cap_snapshot before) (cap_snapshot after)"
  shows "apply_records c t (update_records before after) =
    Inr ([ViewDelivery (cap_snapshot after) (sent_queue before after)], committed_client c t after)"
proof -
  let ?b = "cap_snapshot before" and ?a = "cap_snapshot after"
  let ?bg = "\<lparr>bg_mode = UpdateMode, bg_session = sn_session ?a, bg_operation = sn_operation ?a,
        bg_after = Some (cap_cursor before), bg_cursor = cap_cursor after, bg_state = sn_state ?a\<rparr>"
  let ?st = "staged_from (Some ?b) ?bg t"
  let ?tools = "filter (\<lambda>t. tool_of (sn_tools ?b) (rt_message t) \<noteq> Some t) (sn_tools ?a)"
  let ?turns = "filter (\<lambda>t. turn_of (sn_turns ?b) (tt_turn t) \<noteq> Some t) (sn_turns ?a)"
  let ?rest = "map ToolRecord ?tools @ map TokenTurnRecord ?turns
     @ map (\<lambda>(i, w). WarningRecord i w) (drop (length (sn_warnings ?b)) (enumerate 0 (sn_warnings ?a)))
     @ map (\<lambda>(i, x). IssueRecord i x) (drop (length (sn_issues ?b)) (enumerate 0 (sn_issues ?a)))
     @ (if sn_approval ?b \<noteq> sn_approval ?a then [ApprovalRecord (sn_approval ?a)] else [])
     @ (if sn_question ?b \<noteq> sn_question ?a then [QuestionRecord (sn_question ?a)] else [])
     @ (if cap_queue before \<noteq> cap_queue after then [QueueRecord (cap_queue after)] else [])"
  let ?rs = "removed_records (sn_messages ?b) (sn_messages ?a)
     @ row_updates (indexed_rows (sn_messages ?b)) None (- 1) (sn_messages ?a) @ ?rest"
  let ?gone = "filter (\<lambda>m. row_id m \<notin> ids (sn_messages ?a)) (sn_messages ?b)"
  let ?kept_tools = "filter (\<lambda>(i, _). i \<notin> ids ?gone) (set_all rt_message (sn_tools ?b) [])"
  let ?st' = "?st\<lparr>st_messages := sn_messages ?a, st_tools := set_all rt_message ?tools ?kept_tools,
     st_turns := set_all tt_turn ?turns (set_all tt_turn (sn_turns ?b) []),
     st_warnings := sn_warnings ?a, st_issues := sn_issues ?a,
     st_approval := sn_approval ?a, st_question := sn_question ?a, st_queue := sent_queue before after\<rparr>"
  have sb: "wf_snapshot ?b" and sa: "wf_snapshot ?a" and q: "mq_session (cap_queue after) = pc_session c"
    using wb wa ready same by (simp_all add: wf_capture_def update_ready_def)
  have db: "distinct (map row_id (sn_messages ?b))" and da: "distinct (map row_id (sn_messages ?a))"
    and wfa: "\<forall>m \<in> set (sn_messages ?a). wf_row m"
    using sb sa by (simp_all add: wf_snapshot_def list_all_iff)
  have bgn: "applyRecord c (BeginRecord ?bg) t = Inr (None, c\<lparr>pc_staged := Some ?st\<rparr>)"
    using ready same by (simp add: applyRecord_def stage_def stage_base_def update_ready_def)
  have staging: "list_all staging ?rs"
    by (simp add: row_updates_staging removed_records_def staging_map case_prod_beta)
  have st0: "st_messages ?st = sn_messages ?b" "st_tools ?st = set_all rt_message (sn_tools ?b) []"
    "st_turns ?st = set_all tt_turn (sn_turns ?b) []" "st_warnings ?st = sn_warnings ?b"
    "st_issues ?st = sn_issues ?b" "st_approval ?st = sn_approval ?b" "st_question ?st = sn_question ?b"
    "st_queue ?st = None" "st_begin ?st = ?bg"
    by (simp_all add: staged_from_def set_all_def)
  have kept: "filter (\<lambda>r. row_id r \<notin> ids ?gone) (sn_messages ?b) =
      filter (\<lambda>r. row_id r \<in> ids (sn_messages ?a)) (sn_messages ?b)"
    by (intro filter_cong) (auto simp: ids_def)
  have dg: "distinct (map row_id ?gone)" using db by (rule distinct_map_filter)
  have gone: "stage_run (pc_session c) ?st (removed_records (sn_messages ?b) (sn_messages ?a)) =
      Inr (?st\<lparr>st_messages := filter (\<lambda>r. row_id r \<in> ids (sn_messages ?a)) (sn_messages ?b), st_tools := ?kept_tools\<rparr>)"
    using stage_run_removals [of ?st ?gone "pc_session c"] db dg mem_ids [of _ "sn_messages ?b"]
    by (simp add: removed_records_ids st0 kept)
  have rows: "stage_run (pc_session c)
      (?st\<lparr>st_messages := filter (\<lambda>r. row_id r \<in> ids (sn_messages ?a)) (sn_messages ?b), st_tools := ?kept_tools\<rparr>)
      (row_updates (indexed_rows (sn_messages ?b)) None (- 1) (sn_messages ?a)) =
      Inr (?st\<lparr>st_messages := sn_messages ?a, st_tools := ?kept_tools\<rparr>)"
    using row_updates_deliver [OF db da wfa] by (subst stage_run_rows) (simp_all add: staged_from_def)
  have pre: "isPrefix (sn_warnings ?b) (sn_warnings ?a)" "isPrefix (sn_issues ?b) (sn_issues ?a)"
    using ex by (simp_all add: expressible_def)
  have rest: "stage_run (pc_session c) (?st\<lparr>st_messages := sn_messages ?a, st_tools := ?kept_tools\<rparr>) ?rest = Inr ?st'"
    using q ex by (simp add: staged_from_def stage_run_append stage_run_tools stage_run_turns drop_enumerate
        stage_run_warnings stage_run_issues isPrefix_drop [OF pre(1)] isPrefix_drop [OF pre(2)]
        stageRecord_def sent_queue_def set_all_def)
  have run: "stage_run (pc_session c) ?st ?rs = Inr ?st'"
    by (subst stage_run_append, simp only: gone bind_result_simps, subst stage_run_append,
        simp only: rows rest bind_result_simps)
  have tools: "keyed rt_message (set_all rt_message ?tools ?kept_tools) (sn_tools ?a)"
    by (rule kept_tools_keyed [OF sb sa ex])
  have turns: "keyed tt_turn (set_all tt_turn ?turns (set_all tt_turn (sn_turns ?b) [])) (sn_turns ?a)"
  proof (rule keyed_update [OF keyed_initial])
    show "tt_turn ` set (sn_turns ?b) \<subseteq> tt_turn ` set (sn_turns ?a)"
      using ex by (auto simp: expressible_def list_all_iff)
  qed (simp_all add: wf_turns_distinct sb sa turn_of_def)
  have "carries ?st' ?a" using tools turns by (simp add: carries_def)
  from apply_transfer [OF bgn staging run wa this] show ?thesis
    by (simp add: update_records_def Let_def begins_def staged_from_def committed_client_def)
qed

end
