(* ===== verification/Projection_Frames.thy ===== *)
theory Projection_Frames
  imports Projection_Client Text_Encoding
begin

text \<open>
  From a record to frames: the first half of \<open>src/status-server/chat-projection-encoder.ts\<close>.
  \<open>jsonSegments\<close> prints a JSON value over an explicit stack, in bounded pieces;
  \<open>encodeChatProjectionRecord\<close> packs the pieces into frames whose server-sent event stays
  within a budget of bytes. Strings are lists of 16-bit code units here.

  \<open>JSON.stringify\<close> is the reference: \<open>json_text\<close> below, with the escapes of the
  language standard (a surrogate without its pair is escaped). A finite number carries the text
  \<open>JSON.stringify\<close> gives it.
\<close>

section \<open>JSON text\<close>

definition units_of :: "string \<Rightarrow> units" where
  "units_of s = map of_char s"

definition hex_unit :: "nat \<Rightarrow> nat" where
  "hex_unit d = (if d < 10 then 48 + d else 87 + d)"

definition unicode_escape :: "nat \<Rightarrow> units" where
  "unicode_escape u = [92, 117, hex_unit (u div 4096 mod 16), hex_unit (u div 256 mod 16),
     hex_unit (u div 16 mod 16), hex_unit (u mod 16)]"

definition escape_unit :: "nat \<Rightarrow> units" where
  "escape_unit u =
     (if u = 34 then [92, 34] else if u = 92 then [92, 92] else if u = 8 then [92, 98]
      else if u = 12 then [92, 102] else if u = 10 then [92, 110] else if u = 13 then [92, 114]
      else if u = 9 then [92, 116] else if u < 32 then unicode_escape u else [u])"

text \<open>The body of \<open>JSON.stringify(text)\<close>, without its quotes.\<close>

fun json_escape :: "units \<Rightarrow> units" where
  "json_escape [] = []"
| "json_escape (u # us) =
     (if high_surrogate u then
        (case us of
           [] \<Rightarrow> unicode_escape u
         | v # vs \<Rightarrow> if low_surrogate v then u # v # json_escape vs
                     else unicode_escape u @ json_escape us)
      else if low_surrogate u then unicode_escape u @ json_escape us
      else escape_unit u @ json_escape us)"

datatype json_value = JUndefined | JNull | JBool bool | JNumber string | JNotFinite
  | JString units | JArray "json_value list" | JObject "(units \<times> json_value) list"

definition json_quote :: "units \<Rightarrow> units" where
  "json_quote s = [34] @ json_escape s @ [34]"

fun units_join :: "units list \<Rightarrow> units" where
  "units_join [] = []"
| "units_join [x] = x"
| "units_join (x # y # xs) = x @ [44] @ units_join (y # xs)"

definition is_undefined :: "json_value \<Rightarrow> bool" where
  "is_undefined v = (case v of JUndefined \<Rightarrow> True | _ \<Rightarrow> False)"

function json_text :: "json_value \<Rightarrow> units" where
  "json_text JUndefined = units_of ''null''"
| "json_text JNull = units_of ''null''"
| "json_text (JBool b) = units_of (if b then ''true'' else ''false'')"
| "json_text (JNumber n) = units_of n"
| "json_text JNotFinite = units_of ''null''"
| "json_text (JString s) = json_quote s"
| "json_text (JArray xs) = [91] @ units_join (map json_text xs) @ [93]"
| "json_text (JObject es) =
     [123] @ units_join (map (\<lambda>(k, v). json_quote k @ [58] @ json_text v)
       (filter (\<lambda>(k, v). \<not> is_undefined v) es)) @ [125]"
  by pat_completeness auto
termination
proof (relation "measure size")
  fix es :: "(units \<times> json_value) list" and p k v
  assume "p \<in> set (filter (\<lambda>(k, v). \<not> is_undefined v) es)" and "(k, v) = p"
  then have "(k, v) \<in> set es" by auto
  then have "size_prod (\<lambda>_. 0) size (k, v) < Suc (size_list (size_prod (\<lambda>_. 0) size) es)"
    by (rule le_imp_less_Suc [OF size_list_estimation' [OF _ order_refl]])
  then show "(v, JObject es) \<in> measure size" by simp
qed (auto intro!: le_imp_less_Suc size_list_estimation' [OF _ order_refl])

section \<open>Segments\<close>

definition STRING_SEGMENT_CODE_UNITS :: nat where
  "STRING_SEGMENT_CODE_UNITS = 4096"

text \<open>Where the slice that starts a text ends; a pair of surrogates is never split.\<close>

definition slice_end :: "units \<Rightarrow> nat" where
  "slice_end s = (let e = min STRING_SEGMENT_CODE_UNITS (length s) in
     if e < length s \<and> high_surrogate (s ! (e - 1)) then e - 1 else e)"

lemma slice_end_pos: "s \<noteq> [] \<Longrightarrow> 0 < slice_end s"
  by (cases s) (auto simp: slice_end_def Let_def STRING_SEGMENT_CODE_UNITS_def)

function string_slices :: "units \<Rightarrow> units list" where
  "string_slices s = (if s = [] then [] else
     json_escape (take (slice_end s) s) # string_slices (drop (slice_end s) s))"
  by pat_completeness auto
termination by (relation "measure length") (auto simp: slice_end_pos)

declare string_slices.simps [simp del]

definition stringSegments :: "units \<Rightarrow> units list" where
  "stringSegments s = [[34]] @ string_slices s @ [[34]]"

datatype json_frame = ArrayFrame "json_value list" nat | ObjectFrame "(units \<times> json_value) list" nat

fun openValue :: "json_value \<Rightarrow> json_frame list \<Rightarrow> units list \<times> json_frame list" where
  "openValue (JString s) stack = (stringSegments s, stack)"
| "openValue JNull stack = ([units_of ''null''], stack)"
| "openValue JUndefined stack = ([units_of ''null''], stack)"
| "openValue (JNumber n) stack = ([units_of n], stack)"
| "openValue JNotFinite stack = ([units_of ''null''], stack)"
| "openValue (JBool b) stack = ([units_of (if b then ''true'' else ''false'')], stack)"
| "openValue (JArray xs) stack = ([[91]], ArrayFrame xs 0 # stack)"
| "openValue (JObject es) stack =
     ([[123]], ObjectFrame (filter (\<lambda>(k, v). \<not> is_undefined v) es) 0 # stack)"

text \<open>One turn of the loop over a stack that is not empty.\<close>

fun segment_step :: "json_frame \<Rightarrow> json_frame list \<Rightarrow> units list \<times> json_frame list" where
  "segment_step (ArrayFrame xs i) stack =
     (if length xs \<le> i then ([[93]], stack)
      else let (segs, stack') = openValue (xs ! i) (ArrayFrame xs (Suc i) # stack)
           in ((if 0 < i then [[44]] else []) @ segs, stack'))"
| "segment_step (ObjectFrame es i) stack =
     (if length es \<le> i then ([[125]], stack)
      else let (k, v) = es ! i; (segs, stack') = openValue v (ObjectFrame es (Suc i) # stack)
           in ((if 0 < i then [[44]] else []) @ [json_quote k @ [58]] @ segs, stack'))"

text \<open>What is left to print: every value left counts its size.\<close>

fun frame_work :: "json_frame \<Rightarrow> nat" where
  "frame_work (ArrayFrame xs i) = Suc (sum_list (map (\<lambda>v. 2 + 2 * size v) (drop i xs)))"
| "frame_work (ObjectFrame es i) = Suc (sum_list (map (\<lambda>(k, v). 2 + 2 * size v) (drop i es)))"

definition stack_work :: "json_frame list \<Rightarrow> nat" where
  "stack_work stack = sum_list (map frame_work stack)"

lemma stack_work_simps [simp]: "stack_work [] = 0" "stack_work (f # stack) = frame_work f + stack_work stack"
  by (simp_all add: stack_work_def)

lemma list_work: "sum_list (map (\<lambda>v. Suc (Suc (2 * size v))) xs) = 2 * size_list size xs"
  by (induction xs) simp_all

lemma entries_work:
  "sum_list (map (\<lambda>(k, v). 2 + 2 * size v) (filter P es)) \<le> 2 * size_list (size_prod (\<lambda>_. 0) size) es"
  by (induction es) auto

lemma openValue_work: "stack_work (snd (openValue v stack)) < 2 + 2 * size v + stack_work stack"
proof (cases v)
  case (JObject es)
  then show ?thesis using entries_work [of "\<lambda>(k, v). \<not> is_undefined v" es] by simp
qed (simp_all add: list_work)

lemma frame_work_step:
  "i < length xs \<Longrightarrow> frame_work (ArrayFrame xs i) = 2 + 2 * size (xs ! i) + frame_work (ArrayFrame xs (Suc i))"
  "i < length es \<Longrightarrow> frame_work (ObjectFrame es i) = 2 + 2 * size (snd (es ! i)) + frame_work (ObjectFrame es (Suc i))"
  by (simp_all add: Cons_nth_drop_Suc [symmetric] case_prod_beta)

lemma segment_step_work: "stack_work (snd (segment_step f stack)) < stack_work (f # stack)"
proof (cases f)
  case (ArrayFrame xs i)
  show ?thesis
  proof (cases "i < length xs")
    case True
    then show ?thesis using openValue_work [of "xs ! i" "ArrayFrame xs (Suc i) # stack"]
        frame_work_step(1) [OF True]
      by (simp add: ArrayFrame Let_def case_prod_beta del: frame_work.simps)
  qed (simp add: ArrayFrame)
next
  case (ObjectFrame es i)
  show ?thesis
  proof (cases "i < length es")
    case True
    then show ?thesis using openValue_work [of "snd (es ! i)" "ObjectFrame es (Suc i) # stack"]
        frame_work_step(2) [OF True]
      by (simp add: ObjectFrame Let_def case_prod_beta del: frame_work.simps)
  qed (simp add: ObjectFrame)
qed

function segment_loop :: "json_frame list \<Rightarrow> units list" where
  "segment_loop [] = []"
| "segment_loop (f # stack) =
     (let (segs, stack') = segment_step f stack in segs @ segment_loop stack')"
  by pat_completeness auto
termination
proof (relation "measure stack_work")
  fix f stack p segs stack'
  assume "p = segment_step f stack" and "(segs, stack') = p"
  then have "stack' = snd (segment_step f stack)" by (metis snd_conv)
  then show "(stack', f # stack) \<in> measure stack_work" using segment_step_work by simp
qed simp

definition jsonSegments :: "json_value \<Rightarrow> units list" where
  "jsonSegments root = (let (segs, stack) = openValue root [] in segs @ segment_loop stack)"

section \<open>The segments spell the JSON text\<close>

definition splits_pair :: "nat \<Rightarrow> units \<Rightarrow> bool" where
  "splits_pair n s \<longleftrightarrow> 0 < n \<and> n < length s \<and> high_surrogate (s ! (n - 1)) \<and> low_surrogate (s ! n)"

lemma surrogates_disjoint: "high_surrogate u \<Longrightarrow> \<not> low_surrogate u"
  by (simp add: high_surrogate_def low_surrogate_def)

lemma json_escape_append:
  "\<not> (s \<noteq> [] \<and> t \<noteq> [] \<and> high_surrogate (last s) \<and> low_surrogate (hd t)) \<Longrightarrow>
   json_escape (s @ t) = json_escape s @ json_escape t"
proof (induction s rule: json_escape.induct)
  case 1
  then show ?case by simp
next
  case (2 u us)
  show ?case
  proof (cases us)
    case Nil
    then show ?thesis using "2.prems" by (cases t) (auto simp: surrogates_disjoint)
  next
    case (Cons v vs)
    have tail: "\<not> (us \<noteq> [] \<and> t \<noteq> [] \<and> high_surrogate (last us) \<and> low_surrogate (hd t))"
      using "2.prems" Cons by simp
    show ?thesis
    proof (cases "high_surrogate u \<and> low_surrogate v")
      case True
      have "\<not> (vs \<noteq> [] \<and> t \<noteq> [] \<and> high_surrogate (last vs) \<and> low_surrogate (hd t))"
        using tail Cons by auto
      from "2.IH"(1) [OF _ Cons _ this] True show ?thesis by (simp add: Cons)
    next
      case False
      then show ?thesis
        using "2.IH"(2) [OF _ Cons _ tail] "2.IH"(3) [OF _ _ tail] "2.IH"(4) [OF _ _ tail]
        by (auto simp: Cons)
    qed
  qed
qed

lemma slice_end_le: "slice_end s \<le> length s"
  by (auto simp: slice_end_def Let_def min_def)

lemma slice_keeps_pairs: "\<not> splits_pair (slice_end s) s"
proof -
  let ?e = "min STRING_SEGMENT_CODE_UNITS (length s)"
  show ?thesis
  proof (cases "?e < length s \<and> high_surrogate (s ! (?e - 1))")
    case True
    then have "slice_end s = ?e - 1" by (simp add: slice_end_def Let_def)
    moreover have "\<not> low_surrogate (s ! (?e - 1))" using True surrogates_disjoint by blast
    ultimately show ?thesis by (simp add: splits_pair_def)
  next
    case False
    then have "slice_end s = ?e" by (auto simp: slice_end_def Let_def)
    then show ?thesis using False by (auto simp: splits_pair_def)
  qed
qed

lemma json_escape_take_drop:
  assumes "\<not> splits_pair n s"
  shows "json_escape (take n s) @ json_escape (drop n s) = json_escape s"
proof -
  have "\<not> (take n s \<noteq> [] \<and> drop n s \<noteq> [] \<and> high_surrogate (last (take n s)) \<and> low_surrogate (hd (drop n s)))"
    using assms by (auto simp: splits_pair_def last_conv_nth hd_drop_conv_nth min_def split: if_splits)
  from json_escape_append [OF this] show ?thesis by simp
qed

lemma string_slices_text: "concat (string_slices s) = json_escape s"
proof (induction s rule: string_slices.induct)
  case (1 s)
  show ?case
  proof (cases "s = []")
    case True
    then show ?thesis by (simp add: string_slices.simps)
  next
    case False
    then show ?thesis using "1.IH" json_escape_take_drop [OF slice_keeps_pairs]
      by (subst string_slices.simps) simp
  qed
qed

fun rest_values :: "bool \<Rightarrow> json_value list \<Rightarrow> units" where
  "rest_values first [] = [93]"
| "rest_values first (v # vs) = (if first then [] else [44]) @ json_text v @ rest_values False vs"

fun rest_entries :: "bool \<Rightarrow> (units \<times> json_value) list \<Rightarrow> units" where
  "rest_entries first [] = [125]"
| "rest_entries first ((k, v) # es) =
     (if first then [] else [44]) @ json_quote k @ [58] @ json_text v @ rest_entries False es"

lemma units_join_Cons: "units_join (x # xs) = x @ concat (map (\<lambda>y. [44] @ y) xs)"
  by (induction xs arbitrary: x) simp_all

lemma rest_values_False: "rest_values False vs = concat (map (\<lambda>v. [44] @ json_text v) vs) @ [93]"
  by (induction vs) simp_all

lemma rest_values_True: "rest_values True vs = units_join (map json_text vs) @ [93]"
  by (cases vs) (simp_all add: units_join_Cons rest_values_False comp_def)

lemma rest_entries_False:
  "rest_entries False es = concat (map (\<lambda>(k, v). [44] @ json_quote k @ [58] @ json_text v) es) @ [125]"
  by (induction es) auto

lemma rest_entries_True:
  "rest_entries True es = units_join (map (\<lambda>(k, v). json_quote k @ [58] @ json_text v) es) @ [125]"
proof (cases es)
  case (Cons e es')
  then show ?thesis
    by (cases e) (simp add: units_join_Cons rest_entries_False comp_def case_prod_beta')
qed simp

fun frame_text :: "json_frame \<Rightarrow> units" where
  "frame_text (ArrayFrame xs i) = rest_values (i = 0) (drop i xs)"
| "frame_text (ObjectFrame es i) = rest_entries (i = 0) (drop i es)"

definition stack_text :: "json_frame list \<Rightarrow> units" where
  "stack_text stack = concat (map frame_text stack)"

lemma openValue_text:
  "openValue v stack = (segs, stack') \<Longrightarrow> concat segs @ stack_text stack' = json_text v @ stack_text stack"
  by (cases v) (auto simp: stringSegments_def string_slices_text json_quote_def stack_text_def
      rest_values_True rest_entries_True)

lemma segment_step_text:
  "segment_step f stack = (segs, stack') \<Longrightarrow> concat segs @ stack_text stack' = stack_text (f # stack)"
proof (cases f)
  case (ArrayFrame xs i)
  assume step: "segment_step f stack = (segs, stack')"
  show ?thesis
  proof (cases "i < length xs")
    case True
    obtain os st where o: "openValue (xs ! i) (ArrayFrame xs (Suc i) # stack) = (os, st)" by fastforce
    have "drop i xs = xs ! i # drop (Suc i) xs" using True by (simp add: Cons_nth_drop_Suc)
    then show ?thesis using step True o openValue_text [OF o] by (auto simp: ArrayFrame stack_text_def)
  next
    case False
    then show ?thesis using step by (auto simp: ArrayFrame stack_text_def)
  qed
next
  case (ObjectFrame es i)
  assume step: "segment_step f stack = (segs, stack')"
  show ?thesis
  proof (cases "i < length es")
    case True
    obtain k v where e: "es ! i = (k, v)" by fastforce
    obtain os st where o: "openValue v (ObjectFrame es (Suc i) # stack) = (os, st)" by fastforce
    have "drop i es = (k, v) # drop (Suc i) es" using True e by (metis Cons_nth_drop_Suc)
    then show ?thesis using step True o e openValue_text [OF o] by (auto simp: ObjectFrame stack_text_def)
  next
    case False
    then show ?thesis using step by (auto simp: ObjectFrame stack_text_def)
  qed
qed

lemma segment_loop_text: "concat (segment_loop stack) = stack_text stack"
proof (induction stack rule: segment_loop.induct)
  case 1
  then show ?case by (simp add: stack_text_def)
next
  case (2 f stack)
  obtain segs stack' where s: "segment_step f stack = (segs, stack')" by fastforce
  then show ?case using "2.IH" [OF s [symmetric] refl] segment_step_text [OF s] by simp
qed

lemma jsonSegments_text: "concat (jsonSegments v) = json_text v"
proof -
  obtain segs stack where o: "openValue v [] = (segs, stack)" by fastforce
  then show ?thesis using openValue_text [OF o] segment_loop_text [of stack]
    by (simp add: jsonSegments_def stack_text_def)
qed

section \<open>Packing segments into frames\<close>

definition CHAT_PROJECTION_PROTOCOL_VERSION :: nat where
  "CHAT_PROJECTION_PROTOCOL_VERSION = 3"

definition CHAT_PROJECTION_MAX_FRAME_BYTES :: nat where
  "CHAT_PROJECTION_MAX_FRAME_BYTES = 64 * 1024"

type_synonym frame = "nat projection_frame"

text \<open>\<open>Buffer.byteLength(text, 'utf8')\<close>\<close>

definition byte_length :: "units \<Rightarrow> nat" where
  "byte_length s = length (utf8_encode s)"

definition frame_json :: "frame \<Rightarrow> json_value" where
  "frame_json f = JObject
     [(units_of ''version'', JNumber (show_nat CHAT_PROJECTION_PROTOCOL_VERSION)),
      (units_of ''transferId'', JString (units_of (fr_transfer f))),
      (units_of ''recordIndex'', JNumber (show_nat (fr_record f))),
      (units_of ''chunkIndex'', JNumber (show_nat (fr_chunk f))),
      (units_of ''finalChunk'', JBool (fr_final f)),
      (units_of ''data'', JString (fr_data f))]"

definition serializeChatProjectionFrame :: "frame \<Rightarrow> units" where
  "serializeChatProjectionFrame f =
     units_of ''event: chat_projection'' @ [10] @ units_of ''data: '' @ json_text (frame_json f) @ [10, 10]"

definition frameOf :: "string \<Rightarrow> nat \<Rightarrow> nat \<Rightarrow> bool \<Rightarrow> units \<Rightarrow> frame" where
  "frameOf transfer r k final d =
     \<lparr>fr_transfer = transfer, fr_record = r, fr_chunk = k, fr_final = final, fr_data = d\<rparr>"

definition escapedBytes :: "units \<Rightarrow> nat" where
  "escapedBytes segment = byte_length (json_quote segment) - 2"

text \<open>The bytes a fragment may take; negative when the frame alone exceeds the limit.\<close>

definition frame_budget :: "nat \<Rightarrow> string \<Rightarrow> nat \<Rightarrow> nat \<Rightarrow> int" where
  "frame_budget limit transfer r k =
     int limit - int (byte_length (serializeChatProjectionFrame (frameOf transfer r k False [])))"

fun encode_segments :: "nat \<Rightarrow> string \<Rightarrow> nat \<Rightarrow> nat \<Rightarrow> units \<Rightarrow> nat \<Rightarrow> units list \<Rightarrow> string + frame list" where
  "encode_segments limit transfer r k d used [] = Inr [frameOf transfer r k True d]"
| "encode_segments limit transfer r k d used (s # ss) =
     (let bytes = escapedBytes s in
      if frame_budget limit transfer r k < int used + int bytes \<and> 0 < used then
        if frame_budget limit transfer r (Suc k) < int bytes then Inl ''segment exceeds the frame budget''
        else bind_result (encode_segments limit transfer r (Suc k) s bytes ss)
               (\<lambda>fs. Inr (frameOf transfer r k False d # fs))
      else if frame_budget limit transfer r k < int bytes then Inl ''segment exceeds the frame budget''
      else encode_segments limit transfer r k (d @ s) (used + bytes) ss)"

definition encodeChatProjectionRecord :: "nat \<Rightarrow> json_value \<Rightarrow> string \<Rightarrow> nat \<Rightarrow> string + frame list" where
  "encodeChatProjectionRecord limit record transfer r =
     encode_segments limit transfer r 0 [] 0 (jsonSegments record)"

text \<open>Fragments of one record: numbered from some chunk on, the last one final.\<close>

fun fragments :: "string \<Rightarrow> nat \<Rightarrow> nat \<Rightarrow> frame list \<Rightarrow> bool" where
  "fragments transfer r k [] = False"
| "fragments transfer r k [f] \<longleftrightarrow> fr_transfer f = transfer \<and> fr_record f = r \<and> fr_chunk f = k \<and> fr_final f"
| "fragments transfer r k (f # g # fs) \<longleftrightarrow> fr_transfer f = transfer \<and> fr_record f = r \<and> fr_chunk f = k
     \<and> \<not> fr_final f \<and> fragments transfer r (Suc k) (g # fs)"

lemma fragments_Cons:
  "fs \<noteq> [] \<Longrightarrow> fragments transfer r k (f # fs) \<longleftrightarrow> fr_transfer f = transfer \<and> fr_record f = r \<and> fr_chunk f = k
     \<and> \<not> fr_final f \<and> fragments transfer r (Suc k) fs"
  by (cases fs) simp_all

lemma fragments_not_Nil: "fragments transfer r k fs \<Longrightarrow> fs \<noteq> []"
  by auto

lemma encode_segments_fragments:
  "encode_segments limit transfer r k d used segs = Inr fs \<Longrightarrow>
   fragments transfer r k fs \<and> concat (map fr_data fs) = d @ concat segs"
proof (induction segs arbitrary: k d used fs)
  case Nil
  then show ?case by (auto simp: frameOf_def)
next
  case (Cons s ss)
  show ?case
  proof (cases "frame_budget limit transfer r k < int used + int (escapedBytes s) \<and> 0 < used")
    case True
    then obtain gs where gs: "encode_segments limit transfer r (Suc k) s (escapedBytes s) ss = Inr gs"
      "fs = frameOf transfer r k False d # gs"
      using Cons.prems by (auto simp: Let_def split: if_splits)
    from Cons.IH [OF gs(1)] have "fragments transfer r (Suc k) gs" "concat (map fr_data gs) = s @ concat ss"
      by simp_all
    moreover from this have "gs \<noteq> []" by auto
    ultimately show ?thesis by (simp add: gs(2) fragments_Cons frameOf_def)
  next
    case False
    then have "encode_segments limit transfer r k (d @ s) (used + escapedBytes s) ss = Inr fs"
      using Cons.prems by (auto simp: Let_def split: if_splits)
    from Cons.IH [OF this] show ?thesis by simp
  qed
qed

lemma encode_record_fragments:
  assumes "encodeChatProjectionRecord limit record transfer r = Inr fs"
  shows "fragments transfer r 0 fs" and "concat (map fr_data fs) = json_text record"
  using encode_segments_fragments [OF assms [unfolded encodeChatProjectionRecord_def]] jsonSegments_text
  by simp_all

section \<open>The bytes of a frame\<close>

lemma well_formed_append: "well_formed s \<Longrightarrow> well_formed t \<Longrightarrow> well_formed (s @ t)"
proof (induction s rule: well_formed.induct)
  case (2 u us)
  then show ?case by (auto split: list.splits if_splits)
qed simp

lemma well_formed_last: "well_formed s \<Longrightarrow> s \<noteq> [] \<Longrightarrow> \<not> high_surrogate (last s)"
proof (induction s rule: well_formed.induct)
  case (2 u us)
  then show ?case by (auto simp: surrogates_disjoint split: list.splits if_splits)
qed simp

lemma well_formed_concat: "list_all well_formed ss \<Longrightarrow> well_formed (concat ss)"
  by (induction ss) (simp_all add: well_formed_append)

lemma json_escape_well_formed_append: "well_formed s \<Longrightarrow> json_escape (s @ t) = json_escape s @ json_escape t"
  using well_formed_last [of s] by (intro json_escape_append) auto

lemma code_points_append: "well_formed s \<Longrightarrow> code_points (s @ t) = code_points s @ code_points t"
proof (induction s rule: well_formed.induct)
  case (2 u us)
  show ?case
  proof (cases "high_surrogate u")
    case True
    then obtain v vs where us: "us = v # vs" "low_surrogate v" "well_formed vs"
      using "2.prems" by (auto split: list.splits)
    then show ?thesis using "2.IH"(1) [OF True us(1)] True by simp
  next
    case False
    then have "\<not> low_surrogate u" "well_formed us" using "2.prems" by simp_all
    then show ?thesis using "2.IH"(2) [OF False] False by simp
  qed
qed simp

lemma byte_length_append: "well_formed s \<Longrightarrow> byte_length (s @ t) = byte_length s + byte_length t"
  by (simp add: byte_length_def utf8_encode_def code_points_append)

lemma small_no_surrogate [simp]: "u < 0xD800 \<Longrightarrow> \<not> high_surrogate u" "u < 0xD800 \<Longrightarrow> \<not> low_surrogate u"
  by (simp_all add: high_surrogate_def low_surrogate_def)

lemma small_units: "list_all (\<lambda>u. u < 0xD800) s \<Longrightarrow> well_formed s"
  by (induction s) (auto simp: high_surrogate_def low_surrogate_def)

lemma units_of_well_formed [simp]: "well_formed (units_of s)"
proof (rule small_units)
  have "of_char c < (0xD800 :: nat)" for c :: char
  proof -
    have "of_char c mod 256 < (256 :: nat)" by (rule mod_less_divisor) simp
    then have "of_char c < (256 :: nat)" by (simp only: of_char_mod_256)
    then show ?thesis by linarith
  qed
  then show "list_all (\<lambda>u. u < 0xD800) (units_of s)" by (simp add: units_of_def list_all_iff)
qed

lemma hex_unit_small: "d < 16 \<Longrightarrow> hex_unit d < 0xD800"
  by (simp add: hex_unit_def)

lemma unicode_escape_well_formed [simp]: "well_formed (unicode_escape u)"
  by (rule small_units) (simp add: unicode_escape_def hex_unit_small)

lemma escape_unit_well_formed:
  assumes "\<not> high_surrogate u" and "\<not> low_surrogate u" and "u < 0x10000"
  shows "well_formed (escape_unit u)"
proof (cases "escape_unit u = [u]")
  case True
  then show ?thesis using assms by simp
next
  case False
  then have "u < 93" by (simp add: escape_unit_def split: if_splits)
  then show ?thesis by (intro small_units) (simp add: escape_unit_def unicode_escape_def hex_unit_small)
qed

lemma json_escape_well_formed: "list_all (\<lambda>u. u < 0x10000) s \<Longrightarrow> well_formed (json_escape s)"
proof (induction s rule: json_escape.induct)
  case (2 u us)
  show ?case
  proof (cases "high_surrogate u")
    case True
    show ?thesis
    proof (cases us)
      case Nil
      then show ?thesis using True by simp
    next
      case (Cons v vs)
      show ?thesis
      proof (cases "low_surrogate v")
        case low: True
        then show ?thesis using "2.IH"(1) [OF True Cons low] "2.prems" True by (simp add: Cons)
      next
        case low: False
        then have "well_formed (json_escape us)" using "2.IH"(2) [OF True Cons low] "2.prems" by simp
        then show ?thesis using True low well_formed_append [OF unicode_escape_well_formed]
          by (simp add: Cons)
      qed
    qed
  next
    case high: False
    show ?thesis
    proof (cases "low_surrogate u")
      case True
      then have "well_formed (json_escape us)" using "2.IH"(3) [OF high] "2.prems" by simp
      then show ?thesis using high True by (simp add: well_formed_append)
    next
      case False
      then have "well_formed (json_escape us)" using "2.IH"(4) [OF high] "2.prems" by simp
      then show ?thesis using high False escape_unit_well_formed [OF high False] "2.prems"
        by (simp add: well_formed_append)
    qed
  qed
qed simp

text \<open>JSON values whose strings are made of 16-bit units, with keys and number texts of at most
  4000 units, as those of every record are.\<close>

definition units16 :: "units \<Rightarrow> bool" where
  "units16 s \<longleftrightarrow> list_all (\<lambda>u. u < 0x10000) s"

fun json_bounded :: "json_value \<Rightarrow> bool" where
  "json_bounded (JString s) = units16 s"
| "json_bounded (JArray xs) = (\<forall>v \<in> set xs. json_bounded v)"
| "json_bounded (JObject es) =
     (\<forall>e \<in> set es. units16 (fst e) \<and> length (fst e) \<le> 4000 \<and> json_bounded (snd e))"
| "json_bounded (JNumber n) = (length n \<le> 4000)"
| "json_bounded _ = True"

fun frame_bounded :: "json_frame \<Rightarrow> bool" where
  "frame_bounded (ArrayFrame xs i) = json_bounded (JArray xs)"
| "frame_bounded (ObjectFrame es i) = json_bounded (JObject es)"

lemma one_unit_well_formed: "u < 0xD800 \<Longrightarrow> well_formed [u]"
  by (simp add: small_units)

lemma jsonSegments_not_Nil: "jsonSegments v \<noteq> []"
  by (cases v) (simp_all add: jsonSegments_def stringSegments_def)

text \<open>The event around the data of a frame.\<close>

definition frame_head :: "frame \<Rightarrow> units" where
  "frame_head f =
     units_of ''event: chat_projection'' @ [10] @ units_of ''data: '' @ [123]
     @ json_quote (units_of ''version'') @ [58] @ units_of (show_nat CHAT_PROJECTION_PROTOCOL_VERSION) @ [44]
     @ json_quote (units_of ''transferId'') @ [58] @ json_quote (units_of (fr_transfer f)) @ [44]
     @ json_quote (units_of ''recordIndex'') @ [58] @ units_of (show_nat (fr_record f)) @ [44]
     @ json_quote (units_of ''chunkIndex'') @ [58] @ units_of (show_nat (fr_chunk f)) @ [44]
     @ json_quote (units_of ''finalChunk'') @ [58] @ units_of (if fr_final f then ''true'' else ''false'') @ [44]
     @ json_quote (units_of ''data'') @ [58, 34]"

lemma serialize_split:
  "serializeChatProjectionFrame f = frame_head f @ json_escape (fr_data f) @ [34, 125, 10, 10]"
  by (simp add: serializeChatProjectionFrame_def frame_json_def frame_head_def is_undefined_def json_quote_def)

lemma units16_units_of [simp]: "units16 (units_of s)"
proof -
  have "of_char c < (0x10000 :: nat)" for c :: char
  proof -
    have "of_char c mod 256 < (256 :: nat)" by (rule mod_less_divisor) simp
    then have "of_char c < (256 :: nat)" by (simp only: of_char_mod_256)
    then show ?thesis by linarith
  qed
  then show ?thesis by (simp add: units16_def units_of_def list_all_iff)
qed

lemma quote_well_formed: "units16 s \<Longrightarrow> well_formed (json_quote s)"
  using json_escape_well_formed [of s] well_formed_append [of "json_escape s" "[34]"]
  by (simp add: json_quote_def units16_def high_surrogate_def low_surrogate_def)

lemmas byte_length_pieces = byte_length_append well_formed_append quote_well_formed one_unit_well_formed

lemma byte_length_one [simp]: "u < 0x80 \<Longrightarrow> byte_length [u] = 1"
  by (simp add: byte_length_def utf8_encode_def utf8_point_def high_surrogate_def low_surrogate_def)

lemma byte_length_Cons: "u < 0x80 \<Longrightarrow> byte_length (u # s) = Suc (byte_length s)"
  using byte_length_append [of "[u]" s] by (simp add: one_unit_well_formed)

lemma frame_head_well_formed: "well_formed (frame_head f)"
  unfolding frame_head_def by (intro well_formed_append quote_well_formed units_of_well_formed units16_units_of)
    (simp_all add: small_units)

lemma byte_length_ascii: "list_all (\<lambda>u. u < 0x80) s \<Longrightarrow> byte_length s = length s"
proof (induction s)
  case (Cons u s)
  then show ?case using byte_length_append [of "[u]" s] by (simp add: one_unit_well_formed)
qed (simp add: byte_length_def utf8_encode_def)

lemma escapedBytes_escape: "units16 s \<Longrightarrow> escapedBytes s = byte_length (json_escape s)"
proof -
  assume "units16 s"
  then have w: "well_formed (json_escape s)" by (simp add: json_escape_well_formed units16_def)
  have "byte_length (json_quote s) = byte_length ([34] @ json_escape s @ [34])" by (simp add: json_quote_def)
  also have "\<dots> = Suc (byte_length (json_escape s) + 1)"
    using w by (subst byte_length_append, simp, subst byte_length_append, simp_all)
  finally show ?thesis by (simp add: escapedBytes_def)
qed

lemma well_formed_units16: "well_formed s \<Longrightarrow> units16 s"
  by (simp add: units16_def well_formed_range)

lemma serialized_bytes:
  assumes "units16 (fr_data f)"
  shows "byte_length (serializeChatProjectionFrame f) =
    byte_length (frame_head f) + byte_length (json_escape (fr_data f)) + 4"
proof -
  have w: "well_formed (json_escape (fr_data f))" using assms by (simp add: json_escape_well_formed units16_def)
  have "byte_length [34, 125, 10, 10] = 4" by (simp add: byte_length_ascii)
  then show ?thesis
    by (simp add: serialize_split byte_length_append frame_head_well_formed w)
qed

definition head_start :: "frame \<Rightarrow> units" where
  "head_start f =
     units_of ''event: chat_projection'' @ [10] @ units_of ''data: '' @ [123]
     @ json_quote (units_of ''version'') @ [58] @ units_of (show_nat CHAT_PROJECTION_PROTOCOL_VERSION) @ [44]
     @ json_quote (units_of ''transferId'') @ [58] @ json_quote (units_of (fr_transfer f)) @ [44]
     @ json_quote (units_of ''recordIndex'') @ [58] @ units_of (show_nat (fr_record f)) @ [44]
     @ json_quote (units_of ''chunkIndex'') @ [58] @ units_of (show_nat (fr_chunk f)) @ [44]
     @ json_quote (units_of ''finalChunk'') @ [58]"

lemma head_start_well_formed: "well_formed (head_start f)"
  unfolding head_start_def by (intro well_formed_append quote_well_formed units_of_well_formed units16_units_of)
    (simp_all add: small_units)

lemma head_bytes:
  "byte_length (frame_head f) = byte_length (head_start f)
     + byte_length (units_of (if fr_final f then ''true'' else ''false'')) + byte_length ([44] @ json_quote (units_of ''data'') @ [58, 34])"
proof -
  have "frame_head f = head_start f @ units_of (if fr_final f then ''true'' else ''false'')
      @ [44] @ json_quote (units_of ''data'') @ [58, 34]"
    by (simp add: frame_head_def head_start_def)
  then show ?thesis by (simp only: byte_length_append head_start_well_formed units_of_well_formed)
qed

lemma bool_bytes: "byte_length (units_of (if b then ''true'' else ''false'')) = (if b then 4 else 5)"
  by (simp add: byte_length_ascii units_of_def)

lemma frame_within:
  assumes "units16 d" and "int (byte_length (json_escape d)) \<le> frame_budget limit t r k"
  shows "byte_length (serializeChatProjectionFrame (frameOf t r k final d)) \<le> limit"
proof -
  have start: "head_start (frameOf t r k final d) = head_start (frameOf t r k False [])"
    by (simp add: head_start_def frameOf_def)
  have fin: "fr_final (frameOf t r k b e) = b" for b e by (simp add: frameOf_def)
  have "byte_length (frame_head (frameOf t r k final d)) \<le> byte_length (frame_head (frameOf t r k False []))"
    unfolding head_bytes start fin bool_bytes by simp
  moreover have "byte_length (serializeChatProjectionFrame (frameOf t r k False [])) =
      byte_length (frame_head (frameOf t r k False [])) + 4"
    using serialized_bytes [of "frameOf t r k False []"]
    by (simp add: frameOf_def units16_def byte_length_def utf8_encode_def)
  moreover have "byte_length (serializeChatProjectionFrame (frameOf t r k final d)) =
      byte_length (frame_head (frameOf t r k final d)) + byte_length (json_escape d) + 4"
    using serialized_bytes [of "frameOf t r k final d"] assms(1) by (simp add: frameOf_def)
  ultimately show ?thesis using assms(2) by (simp add: frame_budget_def)
qed

lemma encode_segments_within:
  assumes "list_all well_formed segs" and "well_formed d" and "used = byte_length (json_escape d)"
    and "segs = [] \<or> 0 < used \<Longrightarrow> int used \<le> frame_budget limit t r k"
    and "encode_segments limit t r k d used segs = Inr fs"
  shows "list_all (\<lambda>f. byte_length (serializeChatProjectionFrame f) \<le> limit) fs"
  using assms
proof (induction segs arbitrary: k d used fs)
  case Nil
  then show ?case using frame_within [of d limit t r k True] by (auto simp: well_formed_units16)
next
  case (Cons s ss)
  have ws: "well_formed s" "list_all well_formed ss" using Cons.prems(1) by simp_all
  have bytes: "escapedBytes s = byte_length (json_escape s)"
    using escapedBytes_escape [OF well_formed_units16 [OF ws(1)]] .
  show ?case
  proof (cases "frame_budget limit t r k < int used + int (escapedBytes s) \<and> 0 < used")
    case True
    then obtain gs where fits: "int (escapedBytes s) \<le> frame_budget limit t r (Suc k)"
      and gs: "encode_segments limit t r (Suc k) s (escapedBytes s) ss = Inr gs" "fs = frameOf t r k False d # gs"
      using Cons.prems(5) by (auto simp: Let_def split: if_splits)
    have "list_all (\<lambda>f. byte_length (serializeChatProjectionFrame f) \<le> limit) gs"
      by (rule Cons.IH [OF ws(2) ws(1) bytes _ gs(1)]) (rule fits)
    moreover have "byte_length (serializeChatProjectionFrame (frameOf t r k False d)) \<le> limit"
      using True Cons.prems(3,4) by (intro frame_within well_formed_units16 Cons.prems(2)) simp
    ultimately show ?thesis by (simp add: gs(2))
  next
    case False
    then have fits: "int (escapedBytes s) \<le> frame_budget limit t r k"
      and rest: "encode_segments limit t r k (d @ s) (used + escapedBytes s) ss = Inr fs"
      using Cons.prems(5) by (auto simp: Let_def split: if_splits)
    have wd: "well_formed (d @ s)" using Cons.prems(2) ws(1) by (rule well_formed_append)
    have ud: "used + escapedBytes s = byte_length (json_escape (d @ s))"
    proof -
      have "well_formed (json_escape d)"
        using well_formed_units16 [OF Cons.prems(2)] by (simp add: json_escape_well_formed units16_def)
      then show ?thesis
        by (simp add: json_escape_well_formed_append [OF Cons.prems(2)] byte_length_append bytes Cons.prems(3))
    qed
    have "int (used + escapedBytes s) \<le> frame_budget limit t r k" using False fits by (cases "0 < used") auto
    then show ?thesis by (rule Cons.IH [OF ws(2) wd ud _ rest])
  qed
qed

section \<open>No segment is too large\<close>

lemma show_nat_length: "n < 10 ^ Suc d \<Longrightarrow> length (show_nat n) \<le> Suc d"
proof (induction d arbitrary: n)
  case 0
  then show ?case by (subst show_nat.simps) simp
next
  case (Suc d)
  show ?case
  proof (cases "n < 10")
    case True
    then show ?thesis by (subst show_nat.simps) simp
  next
    case False
    have "n div 10 < 10 ^ Suc d" using Suc.prems by (simp add: less_mult_imp_div_less mult.commute)
    from Suc.IH [OF this] False show ?thesis by (subst show_nat.simps) simp
  qed
qed

lemma byte_length_Nil [simp]: "byte_length [] = 0"
  by (simp add: byte_length_def utf8_encode_def)

lemma byte_length_unit: "\<not> high_surrogate u \<Longrightarrow> \<not> low_surrogate u \<Longrightarrow> u < 0x10000 \<Longrightarrow> byte_length [u] \<le> 3"
  by (simp add: byte_length_def utf8_encode_def utf8_point_def)

lemma byte_length_pair: "high_surrogate u \<Longrightarrow> low_surrogate v \<Longrightarrow> byte_length [u, v] = 4"
  by (simp add: byte_length_def utf8_encode_def utf8_point_def high_surrogate_def low_surrogate_def)

lemma well_formed_pair: "high_surrogate u \<Longrightarrow> low_surrogate v \<Longrightarrow> well_formed [u, v]"
  by simp

text \<open>Escaped, a code unit takes at most six bytes; escaped twice, at most seven.\<close>

definition escaped_pieces :: "units \<Rightarrow> units list \<Rightarrow> bool" where
  "escaped_pieces s ps \<longleftrightarrow> concat ps = json_escape s \<and> list_all well_formed ps
     \<and> list_all (\<lambda>p. byte_length p \<le> 6 \<and> byte_length (json_escape p) \<le> 7) ps \<and> length ps \<le> length s"

lemma json_escape_plain:
  "32 \<le> u \<Longrightarrow> u < 128 \<Longrightarrow> u \<noteq> 34 \<Longrightarrow> u \<noteq> 92 \<Longrightarrow> json_escape (u # us) = u # json_escape us"
  by (simp add: escape_unit_def)

lemma json_escape_backslash: "json_escape (92 # us) = 92 # 92 # json_escape us"
  by (simp add: escape_unit_def)

lemma hex_unit_plain:
  "d < 16 \<Longrightarrow> hex_unit d < 128" "d < 16 \<Longrightarrow> 32 \<le> hex_unit d"
  "d < 16 \<Longrightarrow> hex_unit d \<noteq> 34" "d < 16 \<Longrightarrow> hex_unit d \<noteq> 92"
  by (simp_all add: hex_unit_def)

lemma piece_unicode: "byte_length (unicode_escape u) \<le> 6" "byte_length (json_escape (unicode_escape u)) \<le> 7"
proof -
  show "byte_length (unicode_escape u) \<le> 6"
    by (subst byte_length_ascii) (simp_all add: unicode_escape_def hex_unit_plain)
  have e: "json_escape (unicode_escape u) = 92 # unicode_escape u"
    unfolding unicode_escape_def json_escape_backslash
    by (simp del: json_escape.simps(2) add: json_escape_plain hex_unit_plain)
  show "byte_length (json_escape (unicode_escape u)) \<le> 7"
    unfolding e by (subst byte_length_ascii) (simp_all add: unicode_escape_def hex_unit_plain)
qed

lemma piece_unit:
  assumes "\<not> high_surrogate u" "\<not> low_surrogate u" "u < 0x10000"
  shows "byte_length (escape_unit u) \<le> 6 \<and> byte_length (json_escape (escape_unit u)) \<le> 7"
proof (cases "escape_unit u = [u]")
  case True
  then show ?thesis using assms byte_length_unit [OF assms] by simp
next
  case False
  show ?thesis
  proof (cases "escape_unit u = unicode_escape u")
    case True
    then show ?thesis using piece_unicode [of u] by simp
  next
    case nu: False
    have "u \<in> {34, 92, 8, 12, 10, 13, 9}" using False nu by (auto simp: escape_unit_def split: if_splits)
    then show ?thesis by (auto simp: escape_unit_def byte_length_ascii)
  qed
qed

lemma escaped_pieces_exist: "units16 s \<Longrightarrow> \<exists>ps. escaped_pieces s ps"
proof (induction s rule: json_escape.induct)
  case 1
  show ?case by (rule exI [of _ "[]"]) (simp add: escaped_pieces_def)
next
  case (2 u us)
  have cons: "\<exists>ps. escaped_pieces (u # us) ps"
    if "escaped_pieces r ps" "json_escape (u # us) = p @ json_escape r" "well_formed p"
      "byte_length p \<le> 6" "byte_length (json_escape p) \<le> 7" "length r \<le> length us" for p r ps
    using that by (intro exI [of _ "p # ps"]) (simp add: escaped_pieces_def)
  have us: "units16 us" and u: "u < 0x10000" using "2.prems" by (simp_all add: units16_def)
  show ?case
  proof (cases "high_surrogate u")
    case high: True
    show ?thesis
    proof (cases us)
      case Nil
      have "escaped_pieces [] []" by (simp add: escaped_pieces_def)
      then show ?thesis by (rule cons [where p = "unicode_escape u"]) (simp_all add: Nil high piece_unicode)
    next
      case (Cons v vs)
      show ?thesis
      proof (cases "low_surrogate v")
        case low: True
        have "units16 vs" using us by (simp add: Cons units16_def)
        then obtain ps where "escaped_pieces vs ps" using "2.IH"(1) [OF high Cons low] by blast
        then show ?thesis
          by (rule cons [where p = "[u, v]"]) (simp_all add: Cons high low byte_length_pair)
      next
        case low: False
        then obtain ps where "escaped_pieces us ps" using "2.IH"(2) [OF high Cons low us] by blast
        then show ?thesis by (rule cons [where p = "unicode_escape u"]) (simp_all add: Cons high low piece_unicode)
      qed
    qed
  next
    case high: False
    show ?thesis
    proof (cases "low_surrogate u")
      case low: True
      then obtain ps where "escaped_pieces us ps" using "2.IH"(3) [OF high low us] by blast
      then show ?thesis by (rule cons [where p = "unicode_escape u"]) (simp_all add: high low piece_unicode)
    next
      case low: False
      then obtain ps where ps: "escaped_pieces us ps" using "2.IH"(4) [OF high low us] by blast
      show ?thesis using piece_unit [OF high low u]
        by (intro cons [OF ps, where p = "escape_unit u"]) (simp_all add: high low escape_unit_well_formed u)
    qed
  qed
qed

lemma json_escape_concat: "list_all well_formed ps \<Longrightarrow> json_escape (concat ps) = concat (map json_escape ps)"
  by (induction ps) (simp_all add: json_escape_well_formed_append)

lemma byte_length_concat: "list_all well_formed ps \<Longrightarrow> byte_length (concat ps) = sum_list (map byte_length ps)"
  by (induction ps) (simp_all add: byte_length_append)

lemma sum_bound: "list_all (\<lambda>p. f p \<le> (n :: nat)) ps \<Longrightarrow> sum_list (map f ps) \<le> n * length ps"
  by (induction ps) simp_all

lemma escape_bytes:
  assumes "units16 s"
  shows "byte_length (json_escape s) \<le> 6 * length s"
    and "byte_length (json_escape (json_escape s)) \<le> 7 * length s"
proof -
  obtain ps where ps: "escaped_pieces s ps" using escaped_pieces_exist [OF assms] by blast
  then have w: "list_all well_formed ps" and c: "json_escape s = concat ps" and l: "length ps \<le> length s"
    and b: "list_all (\<lambda>p. byte_length p \<le> 6) ps" "list_all (\<lambda>p. byte_length (json_escape p) \<le> 7) ps"
    by (auto simp: escaped_pieces_def list_all_iff)
  show "byte_length (json_escape s) \<le> 6 * length s"
    using sum_bound [OF b(1)] l by (simp add: c byte_length_concat [OF w])
  have "list_all well_formed (map json_escape ps)"
    using w by (auto simp: list_all_iff json_escape_well_formed units16_def dest!: well_formed_units16)
  then have "byte_length (json_escape (json_escape s)) = sum_list (map (\<lambda>p. byte_length (json_escape p)) ps)"
    by (simp add: c json_escape_concat [OF w] byte_length_concat comp_def)
  then show "byte_length (json_escape (json_escape s)) \<le> 7 * length s"
    using sum_bound [OF b(2)] l by simp
qed

text \<open>What every segment is: complete pairs of surrogates, and at most 7 * 4096 bytes once escaped
  into the data of a frame.\<close>

definition SEGMENT_BYTES :: nat where
  "SEGMENT_BYTES = 7 * STRING_SEGMENT_CODE_UNITS"

definition segment_ok :: "units \<Rightarrow> bool" where
  "segment_ok s \<longleftrightarrow> well_formed s \<and> escapedBytes s \<le> SEGMENT_BYTES"

lemma segment_bytes: "SEGMENT_BYTES = 28672"
  by (simp add: SEGMENT_BYTES_def STRING_SEGMENT_CODE_UNITS_def)

lemma short_segment: "well_formed s \<Longrightarrow> length s \<le> 4000 \<Longrightarrow> segment_ok s"
  using escape_bytes(1) [of s] well_formed_units16 [of s] escapedBytes_escape [of s]
  by (simp add: segment_ok_def segment_bytes)

lemma units_of_segment: "length n \<le> 4000 \<Longrightarrow> segment_ok (units_of n)"
  by (rule short_segment) (simp_all add: units_of_def [symmetric], simp add: units_of_def)

lemma slice_end_limit: "slice_end s \<le> STRING_SEGMENT_CODE_UNITS"
  by (auto simp: slice_end_def Let_def min_def)

lemma slice_segment:
  assumes "units16 s" and "length s \<le> STRING_SEGMENT_CODE_UNITS"
  shows "segment_ok (json_escape s)"
proof -
  have w: "well_formed (json_escape s)" using assms(1) by (simp add: json_escape_well_formed units16_def)
  then have "escapedBytes (json_escape s) = byte_length (json_escape (json_escape s))"
    by (intro escapedBytes_escape well_formed_units16)
  then show ?thesis using w escape_bytes(2) [OF assms(1)] assms(2)
    by (simp add: segment_ok_def segment_bytes STRING_SEGMENT_CODE_UNITS_def)
qed

lemma string_slices_ok: "units16 s \<Longrightarrow> list_all segment_ok (string_slices s)"
proof (induction s rule: string_slices.induct)
  case (1 s)
  show ?case
  proof (cases "s = []")
    case True
    then show ?thesis by (simp add: string_slices.simps)
  next
    case False
    have "units16 (take (slice_end s) s)" "units16 (drop (slice_end s) s)"
      using "1.prems" by (auto simp: units16_def list_all_iff dest: in_set_takeD in_set_dropD)
    then show ?thesis using "1.IH" False slice_segment [of "take (slice_end s) s"] slice_end_limit [of s]
      by (subst string_slices.simps) simp
  qed
qed

lemma key_segment:
  assumes "units16 k" and "length k \<le> 4000"
  shows "segment_ok (json_quote k @ [58])"
proof -
  have w: "well_formed (json_escape k)" using assms(1) by (simp add: json_escape_well_formed units16_def)
  have wk: "well_formed (json_quote k @ [58])"
    by (intro well_formed_append quote_well_formed assms(1) one_unit_well_formed) simp
  have e: "json_escape [34] = [92, 34]" "json_escape [34, 58] = [92, 34, 58]"
    by (simp_all add: escape_unit_def)
  have "json_escape (json_quote k @ [58]) = json_escape ([34] @ json_escape k @ [34, 58])"
    by (simp add: json_quote_def)
  also have "\<dots> = json_escape [34] @ json_escape (json_escape k) @ json_escape [34, 58]"
    using w by (simp only: json_escape_well_formed_append one_unit_well_formed)
  finally have "json_escape (json_quote k @ [58]) = [92, 34] @ json_escape (json_escape k) @ [92, 34, 58]"
    by (simp only: e)
  moreover have "well_formed (json_escape (json_escape k))"
    using well_formed_units16 [OF w] by (simp add: json_escape_well_formed units16_def)
  ultimately have "byte_length (json_escape (json_quote k @ [58])) = 2 + byte_length (json_escape (json_escape k)) + 3"
    by (simp add: byte_length_append byte_length_Cons)
  then show ?thesis using wk escape_bytes(2) [OF assms(1)] assms(2)
      escapedBytes_escape [OF well_formed_units16 [OF wk]]
    by (simp add: segment_ok_def segment_bytes)
qed

lemma punctuation_segment: "u < 0xD800 \<Longrightarrow> segment_ok [u]"
  by (rule short_segment) (simp_all add: one_unit_well_formed)

lemma word_segments: "segment_ok (units_of ''null'')" "segment_ok (units_of (if b then ''true'' else ''false''))"
  by (rule units_of_segment, simp)+

lemma openValue_ok:
  "json_bounded v \<Longrightarrow> list_all frame_bounded stack \<Longrightarrow> openValue v stack = (segs, stack') \<Longrightarrow>
   list_all segment_ok segs \<and> list_all frame_bounded stack'"
  by (cases v) (auto simp: stringSegments_def string_slices_ok units_of_segment word_segments punctuation_segment)

lemma segment_step_ok:
  assumes ok: "frame_bounded f" "list_all frame_bounded stack" and step: "segment_step f stack = (segs, stack')"
  shows "list_all segment_ok segs \<and> list_all frame_bounded stack'"
proof (cases f)
  case (ArrayFrame xs i)
  show ?thesis
  proof (cases "i < length xs")
    case True
    obtain os st where o: "openValue (xs ! i) (ArrayFrame xs (Suc i) # stack) = (os, st)" by fastforce
    have "json_bounded (xs ! i)" using ok(1) True by (simp add: ArrayFrame)
    from openValue_ok [OF this _ o] ok ArrayFrame step True o show ?thesis
      by (auto simp: punctuation_segment)
  next
    case False
    then show ?thesis using step ok by (auto simp: ArrayFrame punctuation_segment)
  qed
next
  case (ObjectFrame es i)
  show ?thesis
  proof (cases "i < length es")
    case True
    obtain k v where e: "es ! i = (k, v)" by fastforce
    obtain os st where o: "openValue v (ObjectFrame es (Suc i) # stack) = (os, st)" by fastforce
    have "(k, v) \<in> set es" using True e by (metis nth_mem)
    then have "units16 k" "length k \<le> 4000" "json_bounded v" using ok(1) by (auto simp: ObjectFrame)
    with openValue_ok [OF this(3) _ o] key_segment [OF this(1,2)] ok ObjectFrame step True o e
    show ?thesis by (auto simp: punctuation_segment)
  next
    case False
    then show ?thesis using step ok by (auto simp: ObjectFrame punctuation_segment)
  qed
qed

lemma segment_loop_ok: "list_all frame_bounded stack \<Longrightarrow> list_all segment_ok (segment_loop stack)"
proof (induction stack rule: segment_loop.induct)
  case (2 f stack)
  obtain segs stack' where s: "segment_step f stack = (segs, stack')" by fastforce
  have "list_all segment_ok segs \<and> list_all frame_bounded stack'"
    using segment_step_ok [OF _ _ s] "2.prems" by simp
  then show ?case using "2.IH" [OF s [symmetric] refl] s by simp
qed simp

lemma jsonSegments_ok:
  assumes "json_bounded v"
  shows "list_all segment_ok (jsonSegments v)"
proof -
  obtain segs stack where o: "openValue v [] = (segs, stack)" by fastforce
  from openValue_ok [OF assms _ o] show ?thesis
    by (simp add: jsonSegments_def o segment_loop_ok)
qed


lemma encode_record_within:
  assumes "json_bounded v" and "encodeChatProjectionRecord limit v t r = Inr fs"
  shows "list_all (\<lambda>f. byte_length (serializeChatProjectionFrame f) \<le> limit) fs"
proof (rule encode_segments_within [OF _ _ _ _ assms(2) [unfolded encodeChatProjectionRecord_def]])
  show "list_all well_formed (jsonSegments v)" using jsonSegments_ok [OF assms(1)]
    by (simp add: list_all_iff segment_ok_def)
qed (simp_all add: jsonSegments_not_Nil)

text \<open>The event around the data leaves room for the largest segment.\<close>

lemma encode_segments_total:
  assumes "list_all segment_ok segs" and "\<forall>j \<le> k + length segs. int SEGMENT_BYTES \<le> frame_budget limit t r j"
  shows "\<exists>fs. encode_segments limit t r k d used segs = Inr fs"
  using assms
proof (induction segs arbitrary: k d used)
  case (Cons s ss)
  have s: "int (escapedBytes s) \<le> frame_budget limit t r k" "int (escapedBytes s) \<le> frame_budget limit t r (Suc k)"
    using Cons.prems(1) Cons.prems(2) [rule_format, of k] Cons.prems(2) [rule_format, of "Suc k"]
    by (simp_all add: segment_ok_def)
  have "\<exists>fs. encode_segments limit t r (Suc k) s (escapedBytes s) ss = Inr fs"
    "\<exists>fs. encode_segments limit t r k (d @ s) (used + escapedBytes s) ss = Inr fs"
    using Cons.prems by (auto intro!: Cons.IH)
  then show ?case using s by (auto simp: Let_def)
qed simp

lemma byte_length_latin: "u < 256 \<Longrightarrow> byte_length [u] \<le> 2"
  by (simp add: byte_length_def utf8_encode_def utf8_point_def)

lemma units_bytes: "byte_length (units_of s) \<le> 2 * length s"
proof (induction s)
  case (Cons c s)
  have "of_char c mod 256 < (256 :: nat)" by (rule mod_less_divisor) simp
  then have c: "of_char c < (256 :: nat)" by (simp only: of_char_mod_256)
  then have "byte_length [of_char c] \<le> 2" by (rule byte_length_latin)
  moreover have "byte_length (units_of (c # s)) = byte_length [of_char c] + byte_length (units_of s)"
  proof -
    have "well_formed [of_char c :: nat]" using c by (intro one_unit_well_formed) linarith
    from byte_length_append [OF this, of "units_of s"] show ?thesis by (simp add: units_of_def)
  qed
  ultimately show ?case using Cons by simp
qed (simp add: units_of_def)

lemma quote_bytes: "units16 s \<Longrightarrow> byte_length (json_quote s) \<le> 6 * length s + 2"
  using escape_bytes(1) [of s] by (simp add: json_quote_def byte_length_append json_escape_well_formed
      units16_def byte_length_Cons)

lemma quote_of_bytes: "byte_length (json_quote (units_of s)) \<le> 6 * length s + 2"
proof -
  have "length (units_of s) = length s" by (simp add: units_of_def)
  then show ?thesis using quote_bytes [OF units16_units_of, of s] by simp
qed

lemma frame_room:
  assumes "length t \<le> 36" and "r < 10 ^ 15" and "k < 10 ^ 15"
  shows "int SEGMENT_BYTES \<le> frame_budget CHAT_PROJECTION_MAX_FRAME_BYTES t r k"
proof -
  let ?f = "frameOf t r k False []"
  have digits: "length (show_nat r) \<le> 15" "length (show_nat k) \<le> 15"
    using show_nat_length [of r 14] show_nat_length [of k 14] assms(2,3) by simp_all
  have parts: "byte_length (units_of ''event: chat_projection'') \<le> 46" "byte_length (units_of ''data: '') \<le> 12"
    "byte_length (json_quote (units_of ''version'')) \<le> 44"
    "byte_length (units_of (show_nat CHAT_PROJECTION_PROTOCOL_VERSION)) \<le> 2"
    "byte_length (json_quote (units_of ''transferId'')) \<le> 62"
    "byte_length (json_quote (units_of t)) \<le> 218"
    "byte_length (json_quote (units_of ''recordIndex'')) \<le> 68"
    "byte_length (json_quote (units_of ''chunkIndex'')) \<le> 62"
    "byte_length (json_quote (units_of ''finalChunk'')) \<le> 62"
    "byte_length (json_quote (units_of ''data'')) \<le> 26"
    "byte_length (units_of (show_nat r)) \<le> 30" "byte_length (units_of (show_nat k)) \<le> 30"
    "byte_length (units_of ''false'') \<le> 10"
    using assms(1) digits show_nat_length [of 3 0]
      units_bytes [of "''event: chat_projection''"] units_bytes [of "''data: ''"]
      units_bytes [of "show_nat CHAT_PROJECTION_PROTOCOL_VERSION"] units_bytes [of "''false''"]
      units_bytes [of "show_nat r"] units_bytes [of "show_nat k"]
      quote_of_bytes [of "''version''"] quote_of_bytes [of "''transferId''"]
      quote_of_bytes [of "t"] quote_of_bytes [of "''recordIndex''"]
      quote_of_bytes [of "''chunkIndex''"] quote_of_bytes [of "''finalChunk''"]
      quote_of_bytes [of "''data''"]
    by (simp_all add: CHAT_PROJECTION_PROTOCOL_VERSION_def)
  have "byte_length (frame_head ?f) \<le> 1000"
    using parts unfolding frame_head_def
    by (simp add: byte_length_append byte_length_Cons quote_well_formed frameOf_def)
  moreover have "byte_length (serializeChatProjectionFrame ?f) = byte_length (frame_head ?f) + 4"
    using serialized_bytes [of ?f] by (simp add: frameOf_def units16_def)
  ultimately show ?thesis
    by (simp add: frame_budget_def segment_bytes CHAT_PROJECTION_MAX_FRAME_BYTES_def)
qed

lemma encode_record_total:
  assumes "json_bounded v" and "length t \<le> 36" and "r < 10 ^ 15" and "length (jsonSegments v) < 10 ^ 15"
  shows "\<exists>fs. encodeChatProjectionRecord CHAT_PROJECTION_MAX_FRAME_BYTES v t r = Inr fs"
  unfolding encodeChatProjectionRecord_def
proof (rule encode_segments_total [OF jsonSegments_ok [OF assms(1)]])
  show "\<forall>j \<le> 0 + length (jsonSegments v). int SEGMENT_BYTES \<le> frame_budget CHAT_PROJECTION_MAX_FRAME_BYTES t r j"
    using frame_room [OF assms(2,3)] assms(4) by auto
qed

end
