(* ===== verification/Projection_Stream.thy ===== *)
theory Projection_Stream
  imports Projection_Transfer Projection_Frames
begin

text \<open>
  A subscription from end to end: the subscriber of
  \<open>src/status-server/chat-operation-sse-subscriber.ts\<close>, which sends one transfer per capture,
  the frames of its records, and the receiver on the other side. A history revision during a
  transfer ends it before its commit; the next transfer then starts from nothing.

  The client connection is a reliable ordered stream; \<open>to_json\<close> is the JSON value of a
  record and \<open>parse\<close> the parsing and validation of its text.
\<close>

section \<open>The subscriber\<close>

text \<open>\<open>ChatOperationClosure\<close>: a failure when the run did not end by itself.\<close>

datatype 'x subscriber_event = Published | HistoryRevised | Closed "'x option"

record 'x sse_subscriber =
  sb_committed :: "'x projection_capture option"
  sb_dirty :: bool
  sb_revised :: bool
  sb_closure :: "'x option option"

definition new_subscriber :: "'x sse_subscriber" where
  "new_subscriber = \<lparr>sb_committed = None, sb_dirty = True, sb_revised = False, sb_closure = None\<rparr>"

fun on_event :: "'x subscriber_event \<Rightarrow> 'x sse_subscriber \<Rightarrow> 'x sse_subscriber" where
  "on_event Published s = s\<lparr>sb_dirty := True\<rparr>"
| "on_event HistoryRevised s = s\<lparr>sb_revised := True, sb_dirty := True\<rparr>"
| "on_event (Closed failure) s = s\<lparr>sb_closure := Some failure, sb_dirty := True\<rparr>"

text \<open>One turn of \<open>pump\<close>: the capture it takes, the identifier of its transfer, the events
  that arrive before the commit record is due and those that arrive while it drains.\<close>

record 'x pump_turn =
  tn_next :: "'x projection_capture"
  tn_transfer :: string
  tn_during :: "'x subscriber_event list"
  tn_after :: "'x subscriber_event list"

definition is_commit :: "'x projection_record \<Rightarrow> bool" where
  "is_commit r = (case r of CommitRecord _ _ \<Rightarrow> True | _ \<Rightarrow> False)"

definition transfer_records :: "'x projection_capture option \<Rightarrow> 'x projection_capture
    \<Rightarrow> string + 'x projection_record list" where
  "transfer_records committed next = (case committed of
     Some before \<Rightarrow> createChatUpdateRecords before next
   | None \<Rightarrow> Inr (createChatSnapshotRecords next))"

definition pump_once :: "string \<Rightarrow> 'x sse_subscriber \<Rightarrow> 'x pump_turn
    \<Rightarrow> string + 'x projection_record list \<times> 'x sse_subscriber" where
  "pump_once session s turn =
     (let s1 = s\<lparr>sb_dirty := False, sb_revised := False\<rparr> in
      if sn_session (cap_snapshot (tn_next turn)) \<noteq> session then Inl ''Chat subscription session mismatch.''
      else bind_result (transfer_records (sb_committed s1) (tn_next turn)) (\<lambda>records.
        let s2 = fold on_event (tn_during turn) s1 in
        if sb_revised s2 then Inr (takeWhile (\<lambda>r. \<not> is_commit r) records, s2\<lparr>sb_committed := None, sb_dirty := True\<rparr>)
        else Inr (records, (fold on_event (tn_after turn) s2)\<lparr>sb_committed := Some (tn_next turn)\<rparr>)))"

text \<open>The end of \<open>pump\<close>, once nothing is dirty and the operation closed: a failure record,
  or the terminal record of the committed view.\<close>

definition close_record :: "(string \<Rightarrow> 'x) \<Rightarrow> 'x sse_subscriber \<Rightarrow> 'x projection_record option" where
  "close_record issue s = (case sb_closure s of
     None \<Rightarrow> None
   | Some (Some failure) \<Rightarrow> Some (ErrorRecord failure)
   | Some None \<Rightarrow>
       (case sb_committed s of
          None \<Rightarrow> Some (ErrorRecord (issue ''Chat operation closed before its journal finished.''))
        | Some c \<Rightarrow>
            (case ps_terminal_cause (sn_state (cap_snapshot c)) of
               None \<Rightarrow> Some (ErrorRecord (issue ''Chat operation closed before its journal finished.''))
             | Some cause \<Rightarrow> Some (TerminalRecord (cap_cursor c) cause
                 (case sn_issues (cap_snapshot c) of [] \<Rightarrow> None | i # _ \<Rightarrow> Some i)))))"

text \<open>The frames of the records of one transfer.\<close>

fun encode_records :: "('x projection_record \<Rightarrow> json_value) \<Rightarrow> nat \<Rightarrow> string \<Rightarrow> nat
    \<Rightarrow> 'x projection_record list \<Rightarrow> string + frame list" where
  "encode_records to_json limit t k [] = Inr []"
| "encode_records to_json limit t k (r # rs) =
     bind_result (encodeChatProjectionRecord limit (to_json r) t k) (\<lambda>fs.
       bind_result (encode_records to_json limit t (Suc k) rs) (\<lambda>gs. Inr (fs @ gs)))"

fun accept_frames :: "(units \<Rightarrow> 'x projection_record option) \<Rightarrow> (nat, 'x) projection_client
    \<Rightarrow> frame list \<Rightarrow> string + 'x projection_delivery list \<times> (nat, 'x) projection_client" where
  "accept_frames parse c [] = Inr ([], c)"
| "accept_frames parse c (f # fs) = bind_result (acceptFrame parse c f) (\<lambda>(d, c').
     bind_result (accept_frames parse c' fs) (\<lambda>(ds, c''). Inr (case d of None \<Rightarrow> ds | Some x \<Rightarrow> x # ds, c'')))"

text \<open>A run of the subscriber: each turn's records as frames, into the receiver.\<close>

fun run_turns :: "('x projection_record \<Rightarrow> json_value) \<Rightarrow> nat \<Rightarrow> string \<Rightarrow> 'x sse_subscriber
    \<Rightarrow> 'x pump_turn list \<Rightarrow> string + frame list \<times> 'x sse_subscriber" where
  "run_turns to_json limit session s [] = Inr ([], s)"
| "run_turns to_json limit session s (turn # turns) =
     bind_result (pump_once session s turn) (\<lambda>(records, s').
       bind_result (encode_records to_json limit (tn_transfer turn) 0 records) (\<lambda>fs.
         bind_result (run_turns to_json limit session s' turns) (\<lambda>(gs, s''). Inr (fs @ gs, s''))))"

section \<open>Frames of one record\<close>

lemma accept_frames_append:
  "accept_frames parse c fs = Inr (ds, c') \<Longrightarrow> accept_frames parse c (fs @ gs) =
     bind_result (accept_frames parse c' gs) (\<lambda>(es, c''). Inr (ds @ es, c''))"
proof (induction fs arbitrary: c ds)
  case Nil
  then show ?case by (auto simp: bind_result_def split: sum.splits)
next
  case (Cons f fs)
  then obtain d c1 ds1 where 1: "acceptFrame parse c f = Inr (d, c1)" "accept_frames parse c1 fs = Inr (ds1, c')"
    "ds = (case d of None \<Rightarrow> ds1 | Some x \<Rightarrow> x # ds1)" by auto
  show ?case using Cons.IH [OF 1(2)] 1
    by (auto simp: bind_result_def split: sum.splits option.splits)
qed

definition one_delivery :: "string + 'x projection_delivery option \<times> ('c, 'x) projection_client
    \<Rightarrow> string + 'x projection_delivery list \<times> ('c, 'x) projection_client" where
  "one_delivery res = bind_result res (\<lambda>(d, c'). Inr (case d of None \<Rightarrow> [] | Some x \<Rightarrow> [x], c'))"

lemma accept_rest_of_record:
  assumes "fragments t k (Suc j) fs" and "pc_pending c = Some p"
    and "pn_transfer p = t" "pn_record p = k" "pn_chunk p = j"
    and "parse (concat (pn_parts p) @ concat (map fr_data fs)) = Some r"
  shows "accept_frames parse c fs = one_delivery (applyRecord (c\<lparr>pc_pending := None\<rparr>) r t)"
  using assms
proof (induction fs arbitrary: c j p)
  case (Cons f fs)
  show ?case
  proof (cases "fs = []")
    case True
    then show ?thesis using Cons.prems
      by (auto simp: acceptFrame_def collect_frame_def one_delivery_def bind_result_def split: sum.splits)
  next
    case False
    then have f: "fr_transfer f = t" "fr_record f = k" "fr_chunk f = Suc j" "\<not> fr_final f"
      and fs: "fragments t k (Suc (Suc j)) fs" using Cons.prems(1) by (auto simp: fragments_Cons)
    let ?p = "p\<lparr>pn_chunk := Suc j, pn_parts := pn_parts p @ [fr_data f]\<rparr>"
    have "acceptFrame parse c f = Inr (None, c\<lparr>pc_pending := Some ?p\<rparr>)"
      using f Cons.prems by (simp add: acceptFrame_def collect_frame_def)
    moreover have "accept_frames parse (c\<lparr>pc_pending := Some ?p\<rparr>) fs =
        one_delivery (applyRecord (c\<lparr>pc_pending := Some ?p\<rparr>\<lparr>pc_pending := None\<rparr>) r t)"
      using Cons.prems by (intro Cons.IH [OF fs, where p = ?p]) simp_all
    ultimately show ?thesis by (simp add: one_delivery_def bind_result_def split: sum.splits)
  qed
qed simp

text \<open>The open transfer a first fragment continues; a transfer of another identifier was abandoned.\<close>

definition open_transfer :: "('c, 'x) projection_client \<Rightarrow> string \<Rightarrow> 'x staged_view option" where
  "open_transfer c t = (case pc_staged c of None \<Rightarrow> None
     | Some st \<Rightarrow> if t \<noteq> st_transfer st then None else Some st)"

lemma accept_record:
  assumes fs: "fragments t k 0 fs" and parse: "parse (concat (map fr_data fs)) = Some r"
    and c: "pc_pending c = None" "t \<notin> set (pc_finished c)"
    and k: "k = (case open_transfer c t of None \<Rightarrow> 0 | Some st \<Rightarrow> st_next st)"
  shows "accept_frames parse c fs = one_delivery (applyRecord (c\<lparr>pc_staged := open_transfer c t\<rparr>) r t)"
proof -
  obtain f gs where f: "fs = f # gs" using fs by (cases fs) auto
  let ?p = "\<lparr>pn_transfer = t, pn_record = k, pn_chunk = 0, pn_parts = [fr_data f]\<rparr>"
  let ?c = "c\<lparr>pc_staged := open_transfer c t\<rparr>"
  have head: "fr_transfer f = t" "fr_record f = k" "fr_chunk f = 0" using fs by (cases gs; simp add: f)+
  have collect: "collect_frame c f = Inr (?p, ?c)"
    using head c k by (cases "pc_staged c") (simp_all add: collect_frame_def Let_def open_transfer_def)
  have same: "?c\<lparr>pc_pending := None\<rparr> = ?c" using c(1) by (cases c) simp
  show ?thesis
  proof (cases "gs = []")
    case True
    then have "fr_final f" using fs f by simp
    then show ?thesis using parse collect same
      by (auto simp: f True acceptFrame_def one_delivery_def bind_result_def split: sum.splits)
  next
    case False
    then have rest: "fragments t k (Suc 0) gs" "\<not> fr_final f" using fs f by (simp_all add: fragments_Cons)
    have "acceptFrame parse c f = Inr (None, ?c\<lparr>pc_pending := Some ?p\<rparr>)"
      using rest collect by (simp add: acceptFrame_def)
    moreover have "accept_frames parse (?c\<lparr>pc_pending := Some ?p\<rparr>) gs =
        one_delivery (applyRecord (?c\<lparr>pc_pending := Some ?p\<rparr>\<lparr>pc_pending := None\<rparr>) r t)"
      using parse by (intro accept_rest_of_record [OF rest(1), where p = ?p]) (simp_all add: f)
    ultimately show ?thesis using same by (simp add: f one_delivery_def bind_result_def split: sum.splits)
  qed
qed

section \<open>Frames of one transfer\<close>

definition opens :: "'x projection_record \<Rightarrow> bool" where
  "opens r \<longleftrightarrow> staging r \<or> (case r of BeginRecord _ \<Rightarrow> True | _ \<Rightarrow> False)"

lemma applyRecord_opens:
  assumes r: "opens r" and ok: "applyRecord c r t = Inr (d, c')"
    and t: "\<And>st. pc_staged c = Some st \<Longrightarrow> st_transfer st = t"
  shows "d = None \<and> (\<exists>st. c' = c\<lparr>pc_staged := Some st\<rparr> \<and> st_transfer st = t
    \<and> st_next st = Suc (case pc_staged c of None \<Rightarrow> 0 | Some st0 \<Rightarrow> st_next st0))"
proof (cases "staging r")
  case True
  then obtain st0 where st0: "pc_staged c = Some st0"
    using ok by (cases "pc_staged c"; cases r) (simp_all add: applyRecord_def)
  obtain st1 where st1: "stageRecord (pc_session c) st0 r = Inr st1" and
    d: "d = None" "c' = c\<lparr>pc_staged := Some (st1\<lparr>st_next := Suc (st_next st0)\<rparr>)\<rparr>"
    using ok applyRecord_staging [OF True st0, of t] by auto
  have "st_transfer st1 = t" using stageRecord_frame [OF st1] t [OF st0] by simp
  then show ?thesis using d st0 by (intro conjI exI [of _ "st1\<lparr>st_next := Suc (st_next st0)\<rparr>"]) simp_all
next
  case False
  then obtain bg where bg: "r = BeginRecord bg" using r by (cases r) (simp_all add: opens_def)
  then have none: "pc_staged c = None" using ok by (auto simp: applyRecord_def split: if_splits)
  obtain st where st: "stage c bg t = Inr st" and d: "d = None" "c' = c\<lparr>pc_staged := Some st\<rparr>"
    using ok none by (auto simp: bg applyRecord_def)
  obtain base where "st = staged_from base bg t" using st by (auto simp: stage_def split: if_splits)
  then have "st_transfer st = t" "st_next st = 1" by (auto simp: staged_from_def split: option.splits)
  then show ?thesis using d none by auto
qed

lemma accept_transfer:
  assumes "encode_records to_json limit t k rs = Inr fs" and "rs \<noteq> []"
    and "\<forall>r \<in> set rs. parse (json_text (to_json r)) = Some r"
    and "pc_pending c = None" and "t \<notin> set (pc_finished c)"
    and "k = (case open_transfer c t of None \<Rightarrow> 0 | Some st \<Rightarrow> st_next st)"
    and "list_all opens (butlast rs)"
    and "apply_records (c\<lparr>pc_staged := open_transfer c t\<rparr>) t rs = Inr (ds, c')"
  shows "accept_frames parse c fs = Inr (ds, c')"
  using assms
proof (induction rs arbitrary: c k fs ds)
  case Nil
  then show ?case by simp
next
  case (Cons r rs)
  let ?c = "c\<lparr>pc_staged := open_transfer c t\<rparr>"
  obtain f1 f2 where f: "encodeChatProjectionRecord limit (to_json r) t k = Inr f1"
    "encode_records to_json limit t (Suc k) rs = Inr f2" "fs = f1 @ f2" using Cons.prems(1) by auto
  obtain d c1 ds1 where a: "applyRecord ?c r t = Inr (d, c1)" "apply_records c1 t rs = Inr (ds1, c')"
    "ds = (case d of None \<Rightarrow> ds1 | Some x \<Rightarrow> x # ds1)" using Cons.prems(8) by auto
  have "accept_frames parse c f1 = one_delivery (applyRecord ?c r t)"
    using Cons.prems encode_record_fragments [OF f(1)] by (intro accept_record) simp_all
  then have first: "accept_frames parse c f1 = Inr (case d of None \<Rightarrow> [] | Some x \<Rightarrow> [x], c1)"
    by (simp add: a(1) one_delivery_def)
  show ?case
  proof (cases "rs = []")
    case True
    then have "fs = f1" "c' = c1" "ds = (case d of None \<Rightarrow> [] | Some x \<Rightarrow> [x])"
      using f a by (auto split: option.splits)
    then show ?thesis using first by simp
  next
    case False
    then have r: "opens r" and rest: "list_all opens (butlast rs)" using Cons.prems(7) by simp_all
    have "\<And>st. pc_staged ?c = Some st \<Longrightarrow> st_transfer st = t"
      by (auto simp: open_transfer_def split: option.splits if_splits)
    from applyRecord_opens [OF r a(1) this] obtain st where d: "d = None" and
      c1: "c1 = ?c\<lparr>pc_staged := Some st\<rparr>" "st_transfer st = t" "st_next st = Suc k"
      using Cons.prems(6) by auto
    have open1: "open_transfer c1 t = Some st" using c1 by (simp add: open_transfer_def)
    have "c1\<lparr>pc_staged := open_transfer c1 t\<rparr> = c1" using c1 open1 by simp
    then have "accept_frames parse c1 f2 = Inr (ds1, c')"
      using Cons.prems c1 open1 a(2) rest False by (intro Cons.IH [OF f(2)]) simp_all
    then show ?thesis using accept_frames_append [OF first] a(3) d by (simp add: f(3))
  qed
qed

lemma apply_prefix:
  "apply_records c t (rs @ ss) = Inr (ds, c') \<Longrightarrow> \<exists>es c1. apply_records c t rs = Inr (es, c1)"
  by (induction rs arbitrary: c ds) (fastforce simp: bind_result_def split: sum.splits)+

text \<open>A transfer abandoned before its commit leaves nothing but a staged view.\<close>

lemma apply_opens:
  assumes "list_all opens rs" and "apply_records c t rs = Inr (ds, c')"
    and "\<And>st. pc_staged c = Some st \<Longrightarrow> st_transfer st = t"
  shows "ds = [] \<and> (\<exists>st. c' = c\<lparr>pc_staged := st\<rparr> \<and> (\<forall>x. st = Some x \<longrightarrow> st_transfer x = t))"
  using assms
proof (induction rs arbitrary: c ds)
  case Nil
  then show ?case by (auto intro!: exI [of _ "pc_staged c"])
next
  case (Cons r rs)
  obtain d c1 ds1 where a: "applyRecord c r t = Inr (d, c1)" "apply_records c1 t rs = Inr (ds1, c')"
    "ds = (case d of None \<Rightarrow> ds1 | Some x \<Rightarrow> x # ds1)" using Cons.prems(2) by auto
  from applyRecord_opens [OF _ a(1) Cons.prems(3)] Cons.prems(1) obtain st where d: "d = None"
    and c1: "c1 = c\<lparr>pc_staged := Some st\<rparr>" "st_transfer st = t" by auto
  have "ds1 = [] \<and> (\<exists>st. c' = c1\<lparr>pc_staged := st\<rparr> \<and> (\<forall>x. st = Some x \<longrightarrow> st_transfer x = t))"
    using Cons.prems(1) c1 by (intro Cons.IH [OF _ a(2)]) auto
  then show ?case using a(3) d c1(1) by auto
qed

lemma opens_not_commit: "opens r \<Longrightarrow> \<not> is_commit r"
  by (cases r) (simp_all add: opens_def is_commit_def)

lemma staging_opens: "list_all staging rs \<Longrightarrow> list_all opens rs"
  by (simp add: list_all_iff opens_def)

definition transfer_shape :: "'x projection_record list \<Rightarrow> bool" where
  "transfer_shape records \<longleftrightarrow>
     (\<exists>p cursor counts. records = p @ [CommitRecord cursor counts] \<and> p \<noteq> [] \<and> list_all opens p)"

lemma snapshot_records_shape: "transfer_shape (createChatSnapshotRecords cap)"
proof -
  let ?s = "cap_snapshot cap"
  let ?rs = "message_records None (sn_messages ?s) @ map ToolRecord (sn_tools ?s)
     @ map TokenTurnRecord (sn_turns ?s)
     @ map (\<lambda>(i, w). WarningRecord i w) (enumerate 0 (sn_warnings ?s))
     @ map (\<lambda>(i, x). IssueRecord i x) (enumerate 0 (sn_issues ?s))
     @ [ApprovalRecord (sn_approval ?s), QuestionRecord (sn_question ?s), QueueRecord (cap_queue cap)]"
  have "list_all staging ?rs" by (simp add: message_records_staging staging_map case_prod_beta)
  then have "list_all opens ?rs" by (rule staging_opens)
  moreover obtain bg where "createChatSnapshotRecords cap =
      (BeginRecord bg # ?rs) @ [CommitRecord (cap_cursor cap) (commitCounts ?s)]"
    by (simp add: createChatSnapshotRecords_def Let_def)
  ultimately show ?thesis unfolding transfer_shape_def
    by (intro exI [of _ "BeginRecord bg # ?rs"] exI [of _ "cap_cursor cap"] exI [of _ "commitCounts ?s"])
      (simp add: opens_def)
qed

lemma update_records_shape: "transfer_shape (update_records b a)"
proof -
  let ?b = "cap_snapshot b" and ?a = "cap_snapshot a"
  let ?rs = "removed_records (sn_messages ?b) (sn_messages ?a)
     @ row_updates (indexed_rows (sn_messages ?b)) None (- 1) (sn_messages ?a)
     @ map ToolRecord (filter (\<lambda>t. tool_of (sn_tools ?b) (rt_message t) \<noteq> Some t) (sn_tools ?a))
     @ map TokenTurnRecord (filter (\<lambda>t. turn_of (sn_turns ?b) (tt_turn t) \<noteq> Some t) (sn_turns ?a))
     @ map (\<lambda>(i, w). WarningRecord i w) (drop (length (sn_warnings ?b)) (enumerate 0 (sn_warnings ?a)))
     @ map (\<lambda>(i, x). IssueRecord i x) (drop (length (sn_issues ?b)) (enumerate 0 (sn_issues ?a)))
     @ (if sn_approval ?b \<noteq> sn_approval ?a then [ApprovalRecord (sn_approval ?a)] else [])
     @ (if sn_question ?b \<noteq> sn_question ?a then [QuestionRecord (sn_question ?a)] else [])
     @ (if cap_queue b \<noteq> cap_queue a then [QueueRecord (cap_queue a)] else [])"
  have "list_all staging ?rs"
    by (simp add: row_updates_staging removed_records_def staging_map case_prod_beta)
  then have "list_all opens ?rs" by (rule staging_opens)
  moreover obtain bg where "update_records b a =
      (BeginRecord bg # ?rs) @ [CommitRecord (cap_cursor a) (commitCounts ?a)]"
    by (simp add: update_records_def Let_def)
  ultimately show ?thesis unfolding transfer_shape_def
    by (intro exI [of _ "BeginRecord bg # ?rs"] exI [of _ "cap_cursor a"] exI [of _ "commitCounts ?a"])
      (simp add: opens_def)
qed

lemma transfer_records_shape: "transfer_records committed cap = Inr records \<Longrightarrow> transfer_shape records"
  using snapshot_records_shape [of cap] update_records_shape
  by (auto simp: transfer_records_def createChatUpdateRecords_def Let_def split: option.splits if_splits)

lemma takeWhile_shape:
  assumes "records = p @ [CommitRecord cursor counts]" and "list_all opens p"
  shows "takeWhile (\<lambda>r. \<not> is_commit r) records = p"
proof -
  have "takeWhile (\<lambda>r. \<not> is_commit r) (p @ [CommitRecord cursor counts]) = p"
    using assms(2) opens_not_commit by (induction p) (auto simp: is_commit_def)
  then show ?thesis by (simp add: assms(1))
qed

section \<open>One turn of the subscriber against the receiver\<close>

text \<open>What the receiver has committed, and what the subscriber believes it has: the same capture,
  or nothing after a revision.\<close>

definition linked :: "string \<Rightarrow> 'x sse_subscriber \<Rightarrow> ('c, 'x) projection_client \<Rightarrow> 'x projection_capture option \<Rightarrow> bool" where
  "linked session s c shown \<longleftrightarrow> pc_pending c = None \<and> pc_session c = session
     \<and> pc_committed c = map_option (\<lambda>b. (cap_snapshot b, cap_cursor b)) shown
     \<and> (sb_committed s = None \<or> sb_committed s = shown)"

definition fresh_transfer :: "('c, 'x) projection_client \<Rightarrow> string \<Rightarrow> bool" where
  "fresh_transfer c t \<longleftrightarrow> t \<notin> set (pc_finished c) \<and> open_transfer c t = None"

text \<open>A capture that may follow the one shown.\<close>

definition follows :: "'x projection_capture option \<Rightarrow> 'x projection_capture \<Rightarrow> bool" where
  "follows shown cap = (case shown of None \<Rightarrow> True
     | Some b \<Rightarrow> wf_capture b \<and> sn_operation (cap_snapshot b) = sn_operation (cap_snapshot cap)
         \<and> sn_session (cap_snapshot b) = sn_session (cap_snapshot cap)
         \<and> advancesChatProjectionCursor (cap_cursor b) (cap_cursor cap))"

text \<open>The queue that travels with the view.\<close>

definition turn_queue :: "'x projection_capture option \<Rightarrow> 'x projection_capture \<Rightarrow> 'x message_queue_state option" where
  "turn_queue committed cap = (case committed of None \<Rightarrow> Some (cap_queue cap) | Some b \<Rightarrow> sent_queue b cap)"

lemma transfer_applies:
  assumes link: "linked session s c shown" and open': "pc_staged c = None"
    and wf: "wf_capture cap" and session: "sn_session (cap_snapshot cap) = session" and follows: "follows shown cap"
  shows "\<exists>records. transfer_records (sb_committed s) cap = Inr records \<and>
    apply_records c t records = Inr ([ViewDelivery (cap_snapshot cap) (turn_queue (sb_committed s) cap)], committed_client c t cap)"
proof (cases "sb_committed s")
  case None
  have "snapshot_ready c cap"
    using link open' session follows
    by (cases shown) (auto simp: snapshot_ready_def linked_def follows_def)
  then show ?thesis using snapshot_transfer [OF wf] None by (simp add: transfer_records_def turn_queue_def)
next
  case (Some b)
  then have b: "shown = Some b" using link by (simp add: linked_def)
  then have f: "wf_capture b" "sn_operation (cap_snapshot b) = sn_operation (cap_snapshot cap)"
    "sn_session (cap_snapshot b) = sn_session (cap_snapshot cap)"
    "advancesChatProjectionCursor (cap_cursor b) (cap_cursor cap)"
    using follows by (simp_all add: follows_def)
  show ?thesis
  proof (cases "expressible (cap_snapshot b) (cap_snapshot cap)")
    case True
    have "update_ready c b" using link open' b f session by (simp add: update_ready_def linked_def)
    from update_transfer [OF f(1) wf this f(2,3) True] show ?thesis
      using f True Some by (simp add: transfer_records_def createChatUpdateRecords_def Let_def update_records_def
          turn_queue_def)
  next
    case False
    have "snapshot_ready c cap" using link open' b f session by (simp add: snapshot_ready_def linked_def)
    then show ?thesis using snapshot_transfer [OF wf] f False Some
      by (simp add: transfer_records_def createChatUpdateRecords_def Let_def turn_queue_def sent_queue_def)
  qed
qed

lemma fold_on_event_committed [simp]: "sb_committed (fold on_event es s) = sb_committed s"
proof (induction es arbitrary: s)
  case (Cons e es)
  then show ?case by (cases e) simp_all
qed simp

text \<open>Whether a revision ends the transfer before its commit.\<close>

definition revised_during :: "'x pump_turn \<Rightarrow> bool" where
  "revised_during turn \<longleftrightarrow> HistoryRevised \<in> set (tn_during turn)"

lemma fold_on_event_revised: "sb_revised (fold on_event es s) \<longleftrightarrow> sb_revised s \<or> HistoryRevised \<in> set es"
proof (induction es arbitrary: s)
  case (Cons e es)
  then show ?case by (cases e) simp_all
qed simp

definition sendable :: "('x projection_record \<Rightarrow> json_value) \<Rightarrow> (units \<Rightarrow> 'x projection_record option)
    \<Rightarrow> 'x projection_record \<Rightarrow> bool" where
  "sendable to_json parse r \<longleftrightarrow> parse (json_text (to_json r)) = Some r \<and> json_bounded (to_json r)
     \<and> length (jsonSegments (to_json r)) < 10 ^ 15"

lemma encode_records_total:
  "\<forall>r \<in> set rs. sendable to_json parse r \<Longrightarrow> length t \<le> 36 \<Longrightarrow> k + length rs \<le> 10 ^ 15 \<Longrightarrow>
   \<exists>fs. encode_records to_json CHAT_PROJECTION_MAX_FRAME_BYTES t k rs = Inr fs"
proof (induction rs arbitrary: k)
  case (Cons r rs)
  have "\<exists>f1. encodeChatProjectionRecord CHAT_PROJECTION_MAX_FRAME_BYTES (to_json r) t k = Inr f1"
    using Cons.prems by (intro encode_record_total) (simp_all add: sendable_def)
  moreover have "\<exists>f2. encode_records to_json CHAT_PROJECTION_MAX_FRAME_BYTES t (Suc k) rs = Inr f2"
    using Cons.prems by (intro Cons.IH) simp_all
  ultimately show ?case by auto
qed simp

lemma turn_step:
  fixes c :: "(nat, 'x) projection_client"
  assumes link: "linked session s c shown" and fresh: "fresh_transfer c (tn_transfer turn)"
    and wf: "wf_capture (tn_next turn)" and session: "sn_session (cap_snapshot (tn_next turn)) = session"
    and follows: "follows shown (tn_next turn)" and id: "length (tn_transfer turn) \<le> 36"
    and send: "\<forall>records s'. pump_once session s turn = Inr (records, s') \<longrightarrow>
      (\<forall>r \<in> set records. sendable to_json parse r) \<and> length records \<le> 10 ^ 15"
  shows "\<exists>records s' fs c'. pump_once session s turn = Inr (records, s')
    \<and> encode_records to_json CHAT_PROJECTION_MAX_FRAME_BYTES (tn_transfer turn) 0 records = Inr fs
    \<and> accept_frames parse c fs = Inr (if revised_during turn then []
        else [ViewDelivery (cap_snapshot (tn_next turn)) (turn_queue (sb_committed s) (tn_next turn))], c')
    \<and> sb_committed s' = (if revised_during turn then None else Some (tn_next turn))
    \<and> linked session s' c' (if revised_during turn then shown else Some (tn_next turn))
    \<and> set (pc_finished c') \<subseteq> insert (tn_transfer turn) (set (pc_finished c))
    \<and> (\<forall>st. pc_staged c' = Some st \<longrightarrow> st_transfer st = tn_transfer turn)"
proof -
  let ?t = "tn_transfer turn" and ?cap = "tn_next turn"
  let ?c = "c\<lparr>pc_staged := None\<rparr>" and ?view = "[ViewDelivery (cap_snapshot ?cap) (turn_queue (sb_committed s) ?cap)]"
  let ?s1 = "s\<lparr>sb_dirty := False, sb_revised := False\<rparr>"
  let ?s2 = "fold on_event (tn_during turn) ?s1"
  have link': "linked session s ?c shown" using link by (simp add: linked_def)
  obtain all where all: "transfer_records (sb_committed s) ?cap = Inr all"
    and applied: "apply_records ?c ?t all = Inr (?view, committed_client ?c ?t ?cap)"
    using transfer_applies [OF link' _ wf session follows, of ?t] by auto
  obtain p cursor counts where p: "all = p @ [CommitRecord cursor counts]" "p \<noteq> []" "list_all opens p"
    using transfer_records_shape [OF all] by (auto simp: transfer_shape_def)
  have rev: "sb_revised ?s2 \<longleftrightarrow> revised_during turn" by (simp add: fold_on_event_revised revised_during_def)
  have c: "pc_pending c = None" "?t \<notin> set (pc_finished c)" "open_transfer c ?t = None"
    using link fresh by (simp_all add: linked_def fresh_transfer_def)
  show ?thesis
  proof (cases "revised_during turn")
    case True
    let ?s' = "?s2\<lparr>sb_committed := None, sb_dirty := True\<rparr>"
    have turn: "pump_once session s turn = Inr (p, ?s')"
      using all session rev True takeWhile_shape [OF p(1,3)] by (simp add: pump_once_def Let_def)
    from send [rule_format, OF turn] have s: "\<forall>r \<in> set p. sendable to_json parse r" "length p \<le> 10 ^ 15" by simp_all
    obtain fs where fs: "encode_records to_json CHAT_PROJECTION_MAX_FRAME_BYTES ?t 0 p = Inr fs"
      using encode_records_total [OF s(1) id, of 0] s(2) by auto
    obtain es c1 where e: "apply_records ?c ?t p = Inr (es, c1)" using apply_prefix [OF applied [unfolded p(1)]] by blast
    from apply_opens [OF p(3) e] obtain st where es: "es = []" "c1 = ?c\<lparr>pc_staged := st\<rparr>"
      "\<forall>x. st = Some x \<longrightarrow> st_transfer x = ?t" by auto
    have "list_all opens (butlast p)" using p(3) by (auto simp: list_all_iff dest: in_set_butlastD)
    then have "accept_frames parse c fs = Inr (es, c1)"
      using accept_transfer [OF fs p(2) _ c(1,2), of parse es c1] s(1) c(3) e by (simp add: sendable_def)
    moreover have "linked session ?s' c1 shown" using link es by (simp add: linked_def)
    ultimately show ?thesis using turn fs es True by auto
  next
    case False
    let ?s' = "(fold on_event (tn_after turn) ?s2)\<lparr>sb_committed := Some ?cap\<rparr>"
    have turn: "pump_once session s turn = Inr (all, ?s')"
      using all session rev False by (simp add: pump_once_def Let_def)
    from send [rule_format, OF turn] have s: "\<forall>r \<in> set all. sendable to_json parse r" "length all \<le> 10 ^ 15" by simp_all
    obtain fs where fs: "encode_records to_json CHAT_PROJECTION_MAX_FRAME_BYTES ?t 0 all = Inr fs"
      using encode_records_total [OF s(1) id, of 0] s(2) by auto
    have "all \<noteq> []" "list_all opens (butlast all)" using p by simp_all
    then have "accept_frames parse c fs = Inr (?view, committed_client ?c ?t ?cap)"
      using accept_transfer [OF fs _ _ c(1,2), of parse ?view] s(1) c(3) applied by (simp add: sendable_def)
    moreover have "linked session ?s' (committed_client ?c ?t ?cap) (Some ?cap)"
      using link by (simp add: linked_def committed_client_def)
    ultimately show ?thesis using turn fs False by (auto simp: committed_client_def)
  qed
qed

section \<open>A run of turns\<close>

fun sent_records :: "string \<Rightarrow> 'x sse_subscriber \<Rightarrow> 'x pump_turn list \<Rightarrow> 'x projection_record list" where
  "sent_records session s [] = []"
| "sent_records session s (turn # turns) = (case pump_once session s turn of
     Inl _ \<Rightarrow> [] | Inr (records, s') \<Rightarrow> records @ sent_records session s' turns)"

text \<open>Turns of one subscription: well-formed captures of one session and operation, cursors that
  do not go back, identifiers drawn by \<open>randomUUID\<close>.\<close>

definition wf_turns :: "string \<Rightarrow> string \<Rightarrow> 'x pump_turn list \<Rightarrow> bool" where
  "wf_turns session operation turns \<longleftrightarrow>
     list_all (\<lambda>turn. wf_capture (tn_next turn) \<and> sn_session (cap_snapshot (tn_next turn)) = session
       \<and> sn_operation (cap_snapshot (tn_next turn)) = operation \<and> length (tn_transfer turn) \<le> 36) turns
     \<and> distinct (map tn_transfer turns)
     \<and> sorted_wrt advancesChatProjectionCursor (map (\<lambda>turn. cap_cursor (tn_next turn)) turns)"

text \<open>What the receiver shows in the end, and the queue it holds.\<close>

definition committed_turns :: "'x pump_turn list \<Rightarrow> 'x projection_capture list" where
  "committed_turns turns = map tn_next (filter (\<lambda>turn. \<not> revised_during turn) turns)"

definition shown_after :: "'x projection_capture option \<Rightarrow> 'x projection_capture list \<Rightarrow> 'x projection_capture option" where
  "shown_after shown caps = (if caps = [] then shown else Some (last caps))"

lemma shown_after_simps [simp]: "shown_after shown [] = shown"
  "shown_after shown (c # caps) = shown_after (Some c) caps"
  by (simp_all add: shown_after_def)

definition delivered_view :: "'x projection_delivery \<Rightarrow> 'x operation_snapshot option" where
  "delivered_view d = (case d of ViewDelivery s _ \<Rightarrow> Some s | _ \<Rightarrow> None)"

definition keep_queue :: "'x projection_delivery \<Rightarrow> 'x message_queue_state option \<Rightarrow> 'x message_queue_state option" where
  "keep_queue d q = (case d of ViewDelivery _ (Some q') \<Rightarrow> Some q' | _ \<Rightarrow> q)"

lemma keep_turn_queue:
  "committed = None \<or> committed = shown \<Longrightarrow>
   keep_queue (ViewDelivery v (turn_queue committed cap)) (map_option cap_queue shown) = Some (cap_queue cap)"
  by (auto simp: keep_queue_def turn_queue_def sent_queue_def split: option.splits)

lemma run_step:
  fixes c :: "(nat, 'x) projection_client"
  assumes "linked session s c shown"
    and "wf_turns session operation turns"
    and "\<forall>turn \<in> set turns. follows shown (tn_next turn) \<and> fresh_transfer c (tn_transfer turn)"
    and "\<forall>r \<in> set (sent_records session s turns). sendable to_json parse r"
    and "length (sent_records session s turns) \<le> 10 ^ 15"
  shows "\<exists>fs s' ds c'. run_turns to_json CHAT_PROJECTION_MAX_FRAME_BYTES session s turns = Inr (fs, s')
    \<and> accept_frames parse c fs = Inr (ds, c')
    \<and> map delivered_view ds = map (\<lambda>cap. Some (cap_snapshot cap)) (committed_turns turns)
    \<and> linked session s' c' (shown_after shown (committed_turns turns))
    \<and> (turns \<noteq> [] \<and> \<not> revised_during (last turns) \<longrightarrow> sb_committed s' = Some (tn_next (last turns)))
    \<and> fold keep_queue ds (map_option cap_queue shown) =
        map_option cap_queue (shown_after shown (committed_turns turns))
    \<and> set (pc_finished c') \<subseteq> set (pc_finished c) \<union> tn_transfer ` set turns
    \<and> (\<forall>st. pc_staged c' = Some st \<longrightarrow> pc_staged c' = pc_staged c \<or> st_transfer st \<in> tn_transfer ` set turns)"
  using assms
proof (induction turns arbitrary: s c shown)
  case Nil
  then show ?case by (simp add: committed_turns_def)
next
  case (Cons turn turns)
  let ?shown = "if revised_during turn then shown else Some (tn_next turn)"
  have turn: "wf_capture (tn_next turn)" "sn_session (cap_snapshot (tn_next turn)) = session"
    "length (tn_transfer turn) \<le> 36" "follows shown (tn_next turn)" "fresh_transfer c (tn_transfer turn)"
    using Cons.prems(2,3) by (simp_all add: wf_turns_def)
  have send: "\<forall>records s'. pump_once session s turn = Inr (records, s') \<longrightarrow>
      (\<forall>r \<in> set records. sendable to_json parse r) \<and> length records \<le> 10 ^ 15"
  proof (intro allI impI)
    fix records s' assume "pump_once session s turn = Inr (records, s')"
    then show "(\<forall>r \<in> set records. sendable to_json parse r) \<and> length records \<le> 10 ^ 15"
      using Cons.prems(4,5) by simp
  qed
  obtain records s1 f1 c1 where 1: "pump_once session s turn = Inr (records, s1)"
    "encode_records to_json CHAT_PROJECTION_MAX_FRAME_BYTES (tn_transfer turn) 0 records = Inr f1"
    "accept_frames parse c f1 = Inr (if revised_during turn then []
        else [ViewDelivery (cap_snapshot (tn_next turn)) (turn_queue (sb_committed s) (tn_next turn))], c1)"
    "sb_committed s1 = (if revised_during turn then None else Some (tn_next turn))"
    "linked session s1 c1 ?shown" "set (pc_finished c1) \<subseteq> insert (tn_transfer turn) (set (pc_finished c))"
    "\<forall>st. pc_staged c1 = Some st \<longrightarrow> st_transfer st = tn_transfer turn"
    using turn_step [OF Cons.prems(1) turn(5,1,2,4,3) send] by blast
  have wf: "wf_turns session operation turns" using Cons.prems(2) by (simp add: wf_turns_def)
  have next': "follows ?shown (tn_next u) \<and> fresh_transfer c1 (tn_transfer u)" if u: "u \<in> set turns" for u
  proof
    show "follows ?shown (tn_next u)"
      using Cons.prems(2,3) u by (auto simp: follows_def wf_turns_def list_all_iff)
    have "tn_transfer turn \<notin> tn_transfer ` set turns" using Cons.prems(2) by (simp add: wf_turns_def)
    then have "tn_transfer u \<noteq> tn_transfer turn" using imageI [OF u, of tn_transfer] by metis
    moreover have "fresh_transfer c (tn_transfer u)" using Cons.prems(3) u by simp
    ultimately show "fresh_transfer c1 (tn_transfer u)"
      using 1(6,7) by (auto simp: fresh_transfer_def open_transfer_def split: option.splits)
  qed
  have "\<forall>r \<in> set (sent_records session s1 turns). sendable to_json parse r"
    "length (sent_records session s1 turns) \<le> 10 ^ 15" using Cons.prems(4,5) 1(1) by simp_all
  from Cons.IH [OF 1(5) wf _ this] next' obtain f2 s' ds2 c' where 2:
    "run_turns to_json CHAT_PROJECTION_MAX_FRAME_BYTES session s1 turns = Inr (f2, s')"
    "accept_frames parse c1 f2 = Inr (ds2, c')"
    "map delivered_view ds2 = map (\<lambda>cap. Some (cap_snapshot cap)) (committed_turns turns)"
    "linked session s' c' (shown_after ?shown (committed_turns turns))"
    "turns \<noteq> [] \<and> \<not> revised_during (last turns) \<longrightarrow> sb_committed s' = Some (tn_next (last turns))"
    "fold keep_queue ds2 (map_option cap_queue ?shown) = map_option cap_queue (shown_after ?shown (committed_turns turns))"
    "set (pc_finished c') \<subseteq> set (pc_finished c1) \<union> tn_transfer ` set turns"
    "\<forall>st. pc_staged c' = Some st \<longrightarrow> pc_staged c' = pc_staged c1 \<or> st_transfer st \<in> tn_transfer ` set turns"
    by blast
  let ?d = "if revised_during turn then []
    else [ViewDelivery (cap_snapshot (tn_next turn)) (turn_queue (sb_committed s) (tn_next turn))]"
  have run: "run_turns to_json CHAT_PROJECTION_MAX_FRAME_BYTES session s (turn # turns) = Inr (f1 @ f2, s')"
    using 1 2 by simp
  have acc: "accept_frames parse c (f1 @ f2) = Inr (?d @ ds2, c')"
    using accept_frames_append [OF 1(3)] 2(2) by simp
  have caps: "committed_turns (turn # turns) =
      (if revised_during turn then committed_turns turns else tn_next turn # committed_turns turns)"
    by (simp add: committed_turns_def)
  have views: "map delivered_view (?d @ ds2) = map (\<lambda>cap. Some (cap_snapshot cap)) (committed_turns (turn # turns))"
    using 2(3) by (simp add: caps delivered_view_def)
  have shown: "shown_after shown (committed_turns (turn # turns)) = shown_after ?shown (committed_turns turns)"
    by (simp add: caps)
  have "sb_committed s = None \<or> sb_committed s = shown" using Cons.prems(1) by (simp add: linked_def)
  then have queue: "fold keep_queue (?d @ ds2) (map_option cap_queue shown) =
      map_option cap_queue (shown_after shown (committed_turns (turn # turns)))"
    using 2(6) keep_turn_queue [of "sb_committed s" shown "cap_snapshot (tn_next turn)" "tn_next turn"]
    by (cases "revised_during turn") (simp_all add: shown)
  have fin: "set (pc_finished c') \<subseteq> set (pc_finished c) \<union> tn_transfer ` set (turn # turns)"
    using 1(6) 2(7) by auto
  have st: "\<forall>st. pc_staged c' = Some st \<longrightarrow> pc_staged c' = pc_staged c \<or> st_transfer st \<in> tn_transfer ` set (turn # turns)"
    using 1(7) 2(8) by fastforce
  have last': "\<not> revised_during (last (turn # turns)) \<longrightarrow> sb_committed s' = Some (tn_next (last (turn # turns)))"
    using 1(4) 2(1,5) by (cases "turns = []") auto
  show ?case
    using run acc views 2(4) shown queue fin st last' by (intro exI conjI) (assumption | simp)+
qed

end
