(* ===== verification/Projection_Properties.thy ===== *)
theory Projection_Properties
  imports Projection_Stream
begin

text \<open>
  The properties of the chat projection: what a receiver shows after any run of a subscription, what
  one update transfer delivers, and that the frames of a record respect the limit and spell its JSON.
\<close>

section \<open>A serialisation for the examples\<close>

text \<open>Finitely many records, each sent as the number of its first place in the list.\<close>

definition table_json :: "'x projection_record list \<Rightarrow> 'x projection_record \<Rightarrow> json_value" where
  "table_json R r = JNumber (show_nat (length (takeWhile (\<lambda>x. x \<noteq> r) R)))"

definition table_parse :: "'x projection_record list \<Rightarrow> units \<Rightarrow> 'x projection_record option" where
  "table_parse R u = find (\<lambda>r. json_text (table_json R r) = u) R"

lemma units_of_inj: "units_of s = units_of t \<longleftrightarrow> s = t"
proof -
  have "inj (of_char :: char \<Rightarrow> nat)" by (intro injI) (metis char_of_char)
  then show ?thesis by (simp add: units_of_def inj_map_eq_map)
qed

lemma table_sendable:
  assumes "r \<in> set R" and "length R \<le> 10 ^ 15"
  shows "sendable (table_json R) (table_parse R) r"
proof -
  let ?i = "\<lambda>r. length (takeWhile (\<lambda>x. x \<noteq> r) R)"
  have at: "?i q < length R \<and> R ! ?i q = q" if "q \<in> set R" for q
    using that by (induction R) auto
  have "find (\<lambda>q. json_text (table_json R q) = json_text (table_json R r)) R = Some r"
  proof -
    have eq: "json_text (table_json R q) = json_text (table_json R r) \<longleftrightarrow> q = r" if "q \<in> set R" for q
    proof
      assume "json_text (table_json R q) = json_text (table_json R r)"
      then have "show_nat (?i q) = show_nat (?i r)" by (simp add: table_json_def units_of_inj)
      then have i: "?i q = ?i r" by (rule show_nat_inj)
      have "q = R ! ?i q" "R ! ?i r = r" using at [OF that] at [OF assms(1)] by simp_all
      then show "q = r" by (simp only: i)
    qed simp
    have "find (\<lambda>q. q = r) R = Some r" using assms(1) by (induction R) auto
    moreover have "find (\<lambda>q. json_text (table_json R q) = json_text (table_json R r)) R = find (\<lambda>q. q = r) R"
      using eq by (intro find_cong) auto
    ultimately show ?thesis by simp
  qed
  moreover have "length (show_nat (?i r)) \<le> 4000"
    using show_nat_length [of "?i r" 14] at [OF assms(1)] assms(2) by simp
  ultimately show ?thesis by (simp add: sendable_def table_parse_def table_json_def jsonSegments_def)
qed

section \<open>The receiver shows what was captured\<close>

lemma run_from_start:
  fixes turns :: "'x pump_turn list"
  assumes "wf_turns session operation turns"
    and "\<forall>r \<in> set (sent_records session new_subscriber turns). sendable to_json parse r"
    and "length (sent_records session new_subscriber turns) \<le> 10 ^ 15"
  shows "\<exists>fs s ds (c :: (nat, 'x) projection_client).
    run_turns to_json CHAT_PROJECTION_MAX_FRAME_BYTES session new_subscriber turns = Inr (fs, s)
    \<and> accept_frames parse (new_projection session) fs = Inr (ds, c)
    \<and> map delivered_view ds = map (\<lambda>cap. Some (cap_snapshot cap)) (committed_turns turns)
    \<and> linked session s c (shown_after None (committed_turns turns))
    \<and> (turns \<noteq> [] \<and> \<not> revised_during (last turns) \<longrightarrow> sb_committed s = Some (tn_next (last turns)))
    \<and> fold keep_queue ds None = map_option cap_queue (shown_after None (committed_turns turns))
    \<and> set (pc_finished c) \<subseteq> tn_transfer ` set turns
    \<and> (\<forall>st. pc_staged c = Some st \<longrightarrow> st_transfer st \<in> tn_transfer ` set turns)"
proof -
  let ?c = "new_projection session :: (nat, 'x) projection_client"
  have link: "linked session new_subscriber ?c None"
    by (simp add: linked_def new_subscriber_def new_projection_def)
  have fresh: "\<forall>turn \<in> set turns. follows None (tn_next turn) \<and> fresh_transfer ?c (tn_transfer turn)"
    by (simp add: follows_def fresh_transfer_def open_transfer_def new_projection_def)
  have empty': "pc_finished ?c = []" "pc_staged ?c = None" by (simp_all add: new_projection_def)
  from run_step [OF link assms(1) fresh assms(2,3)] show ?thesis
    unfolding empty' by (elim exE conjE, intro exI conjI) (assumption | simp | fastforce)+
qed

text \<open>C7. A subscription never goes out of step. Whatever captures the subscriber takes, with
  history revisions that abandon transfers midway, every record fits its frames, the receiver accepts
  every frame, it delivers exactly the views of the transfers that were committed, in order, and it
  ends up showing the last of them, with the queue captured with it.\<close>

theorem subscription_delivers:
  assumes "wf_turns session operation turns"
    and "list_all (sendable to_json parse) (sent_records session new_subscriber turns)"
    and "length (sent_records session new_subscriber turns) \<le> 10 ^ 15"
  shows "\<exists>fs s ds c. run_turns to_json CHAT_PROJECTION_MAX_FRAME_BYTES session new_subscriber turns = Inr (fs, s)
    \<and> accept_frames parse (new_projection session) fs = Inr (ds, c)
    \<and> map delivered_view ds = map (\<lambda>cap. Some (cap_snapshot cap)) (committed_turns turns)
    \<and> pc_committed c = map_option (\<lambda>cap. (cap_snapshot cap, cap_cursor cap)) (shown_after None (committed_turns turns))
    \<and> fold keep_queue ds None = map_option cap_queue (shown_after None (committed_turns turns))"
  using run_from_start [OF assms(1) _ assms(3), of to_json parse] assms(2)
  by (fastforce simp: list_all_iff linked_def)

text \<open>An example: a streamed thought and a tool call; then the thought has grown, an answer was
  inserted before the tool call, and the tool has finished.\<close>

definition ex_meta :: "nat row_metadata" where
  "ex_meta = \<lparr>inputTokensEstimate = 0, outputTokensEstimate = 1, thinkingTokens = 2,
     inputTokensEstimated = None, outputTokensEstimated = None, thinkingTokensEstimated = None,
     promptCacheTokens = None, promptEvalTokens = None, promptTokensPerSecond = None,
     generationTokensPerSecond = None, requestDurationMs = None, promptEvalDurationMs = None,
     generationDurationMs = None, requestStartedAtUtc = None, thinkingStartedAtUtc = Some 5,
     thinkingEndedAtUtc = None, answerStartedAtUtc = None, answerEndedAtUtc = None,
     speculativeAcceptedTokens = None, speculativeGeneratedTokens = None, row_throughput = None,
     groundingStatus = None, runTerminalCause = None, runTerminalDetail = None\<rparr>"

definition ex_row :: "string \<Rightarrow> chat_row_kind \<Rightarrow> string \<Rightarrow> nat chat_row" where
  "ex_row i k body = \<lparr>row_id = i, row_role = RoleAssistant, row_kind = k, row_content = body,
     row_meta = ex_meta, row_rest = 0\<rparr>"

definition ex_tool :: "tool_execution \<Rightarrow> tool_status \<Rightarrow> recovered_tool" where
  "ex_tool e d = \<lparr>rt_call = ''call'', rt_message = ''t'', rt_execution = e, rt_status = d\<rparr>"

definition ex_capture :: "nat \<Rightarrow> nat option \<Rightarrow> nat chat_row list \<Rightarrow> recovered_tool \<Rightarrow> nat projection_capture" where
  "ex_capture n cause rows tool = \<lparr>cap_snapshot = \<lparr>sn_session = ''s'', sn_operation = ''o'',
       sn_state = \<lparr>ps_terminal_cause = cause, ps_rest = n\<rparr>,
       sn_cursor = \<lparr>ev_operation = ''o'', ev_sequence = n\<rparr>, sn_messages = rows, sn_tools = [tool],
       sn_approval = None, sn_question = None, sn_turns = [\<lparr>tt_turn = 1, tt_prompt = Some n, tt_usage = None\<rparr>],
       sn_warnings = [''slow''], sn_issues = []\<rparr>,
     cap_cursor = \<lparr>cur_operation = ''o'', cur_sequence = n, cur_revision = 0\<rparr>,
     cap_queue = \<lparr>mq_session = ''s'', mq_rest = 7\<rparr>\<rparr>"

definition ex_before :: "nat projection_capture" where
  "ex_before = ex_capture 3 None [ex_row ''a'' AssistantThinking ''He'', ex_row ''n'' AssistantNarration ''x'',
     ex_row ''t'' AssistantToolCall []] (ex_tool ToolExecuting CallRunning)"

definition ex_after :: "nat projection_capture" where
  "ex_after = ex_capture 9 (Some 1) [ex_row ''a'' AssistantThinking ''Hello'', ex_row ''t'' AssistantToolCall [],
     ex_row ''q'' AssistantAnswer ''!'', ex_row ''n'' AssistantNarration ''x''] (ex_tool ToolCompleted CallDone)"

definition ex_turns :: "nat pump_turn list" where
  "ex_turns = [\<lparr>tn_next = ex_before, tn_transfer = ''1'', tn_during = [HistoryRevised], tn_after = []\<rparr>,
     \<lparr>tn_next = ex_before, tn_transfer = ''2'', tn_during = [Published], tn_after = [Published]\<rparr>,
     \<lparr>tn_next = ex_after, tn_transfer = ''3'', tn_during = [], tn_after = [Closed None]\<rparr>]"

definition ex_sent :: "nat projection_record list" where
  "ex_sent = sent_records ''s'' new_subscriber ex_turns"

lemmas ex_defs = ex_before_def ex_after_def ex_capture_def ex_row_def ex_tool_def ex_meta_def

lemma ex_wf: "wf_capture ex_before" "wf_capture ex_after"
  by (simp_all add: ex_defs wf_capture_def wf_snapshot_def wf_row_def tool_row_def)

lemma ex_wf_turns: "wf_turns ''s'' ''o'' ex_turns"
  using ex_wf by (simp add: wf_turns_def ex_turns_def) (simp add: ex_defs advancesChatProjectionCursor_def)

lemma ex_expressible: "expressible (cap_snapshot ex_before) (cap_snapshot ex_after)"
  by (simp add: ex_defs expressible_def isPrefix_def)

lemma ex_update: "createChatUpdateRecords ex_before ex_after = Inr (update_records ex_before ex_after)"
  using ex_expressible
  by (simp add: createChatUpdateRecords_def Let_def) (simp add: ex_defs advancesChatProjectionCursor_def)

lemma ex_lengths: "length (createChatSnapshotRecords ex_before) < 100" "length (update_records ex_before ex_after) < 100"
  by (simp add: createChatSnapshotRecords_def Let_def ex_defs)
    (simp add: update_records_def removed_records_def row_update_def kept_index_def indexed_rows_def Let_def ex_defs
      textSuffix_def)

lemma ex_sent_short: "length ex_sent < 300"
proof -
  have "length (takeWhile (\<lambda>r. \<not> is_commit r) (createChatSnapshotRecords ex_before)) < 100"
    using ex_lengths(1) length_takeWhile_le [of _ "createChatSnapshotRecords ex_before"] by (rule order_le_less_trans [rotated])
  moreover have "sn_session (cap_snapshot ex_before) = ''s''" "sn_session (cap_snapshot ex_after) = ''s''"
    by (simp_all add: ex_defs)
  ultimately show ?thesis
    using ex_lengths ex_update
    by (simp add: ex_sent_def ex_turns_def pump_once_def Let_def transfer_records_def new_subscriber_def)
qed

lemma ex_sent_length: "length ex_sent \<le> 10 ^ 15"
  using ex_sent_short by simp

lemma ex_sendable: "list_all (sendable (table_json ex_sent) (table_parse ex_sent)) ex_sent"
  using ex_sent_length by (simp add: list_all_iff table_sendable)

theorem subscription_delivers_witness:
  "\<exists>fs s ds c. run_turns (table_json ex_sent) CHAT_PROJECTION_MAX_FRAME_BYTES ''s'' new_subscriber ex_turns = Inr (fs, s)
    \<and> accept_frames (table_parse ex_sent) (new_projection ''s'') fs = Inr (ds, c)
    \<and> map delivered_view ds = [Some (cap_snapshot ex_before), Some (cap_snapshot ex_after)]
    \<and> pc_committed c = Some (cap_snapshot ex_after, cap_cursor ex_after)
    \<and> fold keep_queue ds None = Some (cap_queue ex_after)"
proof -
  have caps: "committed_turns ex_turns = [ex_before, ex_after]"
    by (simp add: committed_turns_def ex_turns_def revised_during_def)
  show ?thesis
    using subscription_delivers [OF ex_wf_turns, of "table_json ex_sent" "table_parse ex_sent"]
      ex_sendable ex_sent_length
    by (simp add: ex_sent_def [symmetric] caps)
qed

section \<open>One update\<close>

text \<open>C11. An update is exact: over the view of the earlier capture, the records of
  createChatUpdateRecords make the receiver deliver the snapshot of the later one, rows, tools,
  token turns, warnings, issues, approval and question in their order, whichever rows were added,
  removed, moved, rewritten or extended, and commit it at the later cursor.\<close>

theorem update_is_exact:
  assumes "wf_capture before" and "wf_capture after" and "update_ready c before"
    and "createChatUpdateRecords before after = Inr records"
  shows "\<exists>queue. apply_records c t records =
    Inr ([ViewDelivery (cap_snapshot after) queue], committed_client c t after)"
proof -
  have same: "sn_operation (cap_snapshot before) = sn_operation (cap_snapshot after)"
    "sn_session (cap_snapshot before) = sn_session (cap_snapshot after)"
    "advancesChatProjectionCursor (cap_cursor before) (cap_cursor after)"
    using assms(4) by (simp_all add: createChatUpdateRecords_def Let_def split: if_splits)
  show ?thesis
  proof (cases "expressible (cap_snapshot before) (cap_snapshot after)")
    case True
    then have "records = update_records before after" using assms(4) same
      by (simp add: createChatUpdateRecords_def Let_def)
    then show ?thesis using update_transfer [OF assms(1-3) same(1,2) True] by blast
  next
    case False
    then have "records = createChatSnapshotRecords after" using assms(4) same
      by (simp add: createChatUpdateRecords_def Let_def)
    moreover have "snapshot_ready c after"
      using assms(3) same by (simp add: snapshot_ready_def update_ready_def)
    ultimately show ?thesis using snapshot_transfer [OF assms(2)] by blast
  qed
qed

definition ex_client :: "(nat, nat) projection_client" where
  "ex_client = committed_client (new_projection ''s'') ''1'' ex_before"

theorem update_is_exact_witness:
  "\<exists>queue. apply_records ex_client ''2'' (update_records ex_before ex_after) =
    Inr ([ViewDelivery (cap_snapshot ex_after) queue], committed_client ex_client ''2'' ex_after)"
proof (rule update_is_exact [OF ex_wf _ ex_update])
  show "update_ready ex_client ex_before"
    by (simp add: update_ready_def ex_client_def committed_client_def new_projection_def) (simp add: ex_defs)
qed

section \<open>Frames\<close>

text \<open>C30. The stack printer is JSON.stringify: its segments, joined, are the JSON text of the value,
  with no pair of surrogates split between two slices of a string.\<close>

theorem segments_are_json: "concat (jsonSegments v) = json_text v"
  by (rule jsonSegments_text)



section \<open>The end of a stream\<close>

definition ended :: "'x projection_record \<Rightarrow> 'x projection_delivery option" where
  "ended r = (case r of TerminalRecord cursor cause issue \<Rightarrow> Some (TerminalDelivery cursor cause issue)
     | ErrorRecord failure \<Rightarrow> Some (FailureDelivery failure) | _ \<Rightarrow> None)"

lemma close_record_applies:
  assumes close: "close_record issue s = Some r" and link: "linked session s c shown"
    and committed: "sb_committed s = Some cap" and staged: "pc_staged c = None"
  shows "\<exists>d c'. ended r = Some d \<and> applyRecord c r t = Inr (Some d, c')"
proof -
  have c: "pc_committed c = Some (cap_snapshot cap, cap_cursor cap)"
  proof -
    have "shown = Some cap" using link committed by (simp add: linked_def)
    then show ?thesis using link by (simp add: linked_def)
  qed
  show ?thesis using close committed c staged
    by (auto simp: close_record_def ended_def applyRecord_def split: option.splits)
qed

text \<open>A receiver always learns how the operation ended: after any run of the subscription whose
  last transfer was committed, the closing record, the terminal record of the committed view or a
  failure, fits its frames and is accepted and delivered; the receiver never rejects it for its cursor,
  its cause or an open transfer.\<close>

theorem receiver_learns_the_end:
  assumes "wf_turns session operation turns"
    and "list_all (sendable to_json parse) (r # sent_records session new_subscriber turns)"
    and "length (sent_records session new_subscriber turns) \<le> 10 ^ 15"
    and "run_turns to_json CHAT_PROJECTION_MAX_FRAME_BYTES session new_subscriber turns = Inr (fs, s)"
    and "turns \<noteq> []" and "\<not> revised_during (last turns)" and "close_record issue s = Some r"
    and "t \<notin> tn_transfer ` set turns" and "length t \<le> 36"
  shows "\<exists>ds c gs d c'. accept_frames parse (new_projection session) fs = Inr (ds, c)
    \<and> encode_records to_json CHAT_PROJECTION_MAX_FRAME_BYTES t 0 [r] = Inr gs
    \<and> ended r = Some d \<and> accept_frames parse c gs = Inr ([d], c')"
proof -
  have send: "\<forall>r \<in> set (sent_records session new_subscriber turns). sendable to_json parse r"
    and r: "\<forall>q \<in> set [r]. sendable to_json parse q"
    using assms(2) by (simp_all add: list_all_iff)
  from run_from_start [OF assms(1) send assms(3)] obtain ds c where
    acc: "accept_frames parse (new_projection session) fs = Inr (ds, c)" and
    link: "linked session s c (shown_after None (committed_turns turns))" and
    com: "sb_committed s = Some (tn_next (last turns))" and
    fin: "set (pc_finished c) \<subseteq> tn_transfer ` set turns" and
    st: "\<forall>st. pc_staged c = Some st \<longrightarrow> st_transfer st \<in> tn_transfer ` set turns"
    using assms(4-6) by auto
  have c: "pc_pending c = None" "t \<notin> set (pc_finished c)" "open_transfer c t = None"
    using link fin st assms(8) by (auto simp: linked_def open_transfer_def split: option.splits)
  obtain gs where gs: "encode_records to_json CHAT_PROJECTION_MAX_FRAME_BYTES t 0 [r] = Inr gs"
    using encode_records_total [OF r assms(9), of 0] by auto
  have "linked session s (c\<lparr>pc_staged := None\<rparr>) (shown_after None (committed_turns turns))"
    using link by (simp add: linked_def)
  from close_record_applies [OF assms(7) this com, of t] obtain d c' where
    d: "ended r = Some d" "applyRecord (c\<lparr>pc_staged := None\<rparr>) r t = Inr (Some d, c')" by auto
  have "accept_frames parse c gs = Inr ([d], c')"
    using accept_transfer [OF gs _ _ c(1,2), of parse "[d]" c'] r c(3) d(2) by (simp add: sendable_def)
  with acc gs d(1) show ?thesis by blast
qed

definition ex_terminal :: "nat projection_record" where
  "ex_terminal = TerminalRecord (cap_cursor ex_after) 1 None"

definition ex_all :: "nat projection_record list" where
  "ex_all = ex_terminal # ex_sent"

lemma ex_run_closes:
  "run_turns to_json limit ''s'' new_subscriber ex_turns = Inr (fs, s) \<Longrightarrow>
   close_record issue s = Some ex_terminal"
proof -
  assume run: "run_turns to_json limit ''s'' new_subscriber ex_turns = Inr (fs, s)"
  have "sn_session (cap_snapshot ex_before) = ''s''" "sn_session (cap_snapshot ex_after) = ''s''"
    by (simp_all add: ex_defs)
  then have "sb_closure s = Some None \<and> sb_committed s = Some ex_after"
    using run ex_update
    by (auto simp: ex_turns_def pump_once_def Let_def transfer_records_def new_subscriber_def)
  then show ?thesis by (simp add: close_record_def ex_terminal_def) (simp add: ex_defs)
qed

theorem receiver_learns_the_end_witness:
  "\<exists>fs s ds c gs d c'.
    run_turns (table_json ex_all) CHAT_PROJECTION_MAX_FRAME_BYTES ''s'' new_subscriber ex_turns = Inr (fs, s)
    \<and> accept_frames (table_parse ex_all) (new_projection ''s'') fs = Inr (ds, c)
    \<and> encode_records (table_json ex_all) CHAT_PROJECTION_MAX_FRAME_BYTES ''4'' 0 [ex_terminal] = Inr gs
    \<and> ended ex_terminal = Some d \<and> accept_frames (table_parse ex_all) c gs = Inr ([d], c')"
proof -
  have length: "length ex_all \<le> 10 ^ 15"
    using ex_sent_short by (simp add: ex_all_def)
  have send: "list_all (sendable (table_json ex_all) (table_parse ex_all)) (ex_terminal # ex_sent)"
    using length by (simp add: list_all_iff table_sendable ex_all_def)
  then have send': "\<forall>r \<in> set (sent_records ''s'' new_subscriber ex_turns).
      sendable (table_json ex_all) (table_parse ex_all) r"
    by (simp add: list_all_iff ex_sent_def)
  obtain fs s where run: "run_turns (table_json ex_all) CHAT_PROJECTION_MAX_FRAME_BYTES ''s'' new_subscriber ex_turns = Inr (fs, s)"
    using run_from_start [OF ex_wf_turns send' ex_sent_length [unfolded ex_sent_def]] by blast
  have "ex_turns \<noteq> []" "\<not> revised_during (last ex_turns)" "''4'' \<notin> tn_transfer ` set ex_turns"
    by (simp_all add: ex_turns_def revised_during_def)
  from receiver_learns_the_end [OF ex_wf_turns send [unfolded ex_sent_def] ex_sent_length [unfolded ex_sent_def]
      run this(1,2) ex_run_closes [OF run] this(3)] run
  show ?thesis by auto
qed

end
