(* ===== verification/Assistant_Jobs.thy ===== *)
theory Assistant_Jobs
  imports Sift_Prelude
begin

text \<open>
  The job table of the assistant, \<open>src/assistant/storage/job-store.ts\<close>: one row per job, every
  method one or two SQL statements. A statement is a map or a filter over the rows; the unique index
  on the live rows of an owner and key rejects a write, which then leaves the table as it was.
  Identifiers come from a counter, times are milliseconds, and one call reads the clock once.
\<close>

section \<open>Rows\<close>

datatype job_type = ConversationIngestion | CandidateConsolidation | ProjectionMaintenance
  | QuestionAnswerIngestion | QuestionPlanning | ProjectionSummarization | ImageExtraction
  | CaptureRetention

definition isModelBackedJobType :: "job_type \<Rightarrow> bool" where
  "isModelBackedJobType t \<longleftrightarrow> t \<noteq> ProjectionMaintenance \<and> t \<noteq> CaptureRetention"

text \<open>The payloads: an ingested conversation and its session, the candidates to consolidate, a
  question and its answer, the projection to summarise, the evidence of an image, a reason.\<close>

datatype job_payload = ConversationPayload string string | ConsolidationPayload "string list"
  | AnswerPayload string string | ProjectionPayload string | ImagePayload string | ReasonPayload string

datatype job_status = JobQueued | JobRunning | JobPaused | JobCompleted | JobFailed | JobCancelled
  | JobDeadLetter

record job_row =
  jb_id :: nat
  jb_owner :: string
  jb_type :: job_type
  jb_priority :: int
  jb_payload :: job_payload
  jb_key :: string
  jb_status :: job_status
  jb_attempts :: nat
  jb_max_attempts :: nat
  jb_available :: nat
  jb_lease_owner :: "string option"
  jb_lease_expires :: "nat option"
  jb_last_error :: "string option"
  jb_created :: nat
  jb_updated :: nat

definition live_status :: "job_status \<Rightarrow> bool" where
  "live_status s \<longleftrightarrow> s = JobQueued \<or> s = JobRunning \<or> s = JobPaused"

record job_store =
  js_rows :: "job_row list"
  js_next :: nat

definition no_jobs :: job_store where
  "no_jobs = \<lparr>js_rows = [], js_next = 0\<rparr>"

text \<open>The unique index \<open>assistant_jobs_pending_idempotency_uq\<close>.\<close>

definition live_slots :: "job_row list \<Rightarrow> (string \<times> string) list" where
  "live_slots rows = map (\<lambda>r. (jb_owner r, jb_key r)) (filter (\<lambda>r. live_status (jb_status r)) rows)"

definition write_rows :: "job_row list \<Rightarrow> job_store \<Rightarrow> string + job_store" where
  "write_rows rows s =
     (if distinct (live_slots rows) then Inr (s\<lparr>js_rows := rows\<rparr>)
      else Inl ''UNIQUE constraint failed: assistant_jobs.owner_id, assistant_jobs.idempotency_key'')"

definition update_where :: "(job_row \<Rightarrow> bool) \<Rightarrow> (job_row \<Rightarrow> job_row) \<Rightarrow> job_store \<Rightarrow> string + job_store" where
  "update_where p f s = write_rows (map (\<lambda>r. if p r then f r else r) (js_rows s)) s"

definition getJob :: "nat \<Rightarrow> job_store \<Rightarrow> job_row option" where
  "getJob i s = find (\<lambda>r. jb_id r = i) (js_rows s)"

definition requireJob :: "nat \<Rightarrow> job_store \<Rightarrow> string + job_row" where
  "requireJob i s = (case getJob i s of None \<Rightarrow> Inl ''Unknown assistant job'' | Some r \<Rightarrow> Inr r)"

section \<open>Enqueueing\<close>

record job_input =
  in_owner :: string
  in_type :: job_type
  in_payload :: job_payload
  in_key :: string

definition DEFAULT_MAX_ATTEMPTS :: nat where
  "DEFAULT_MAX_ATTEMPTS = 3"

definition RETRY_BACKOFF_MS :: nat where
  "RETRY_BACKOFF_MS = 30 * 1000"

definition findLiveByIdempotencyKey :: "string \<Rightarrow> string \<Rightarrow> job_store \<Rightarrow> job_row option" where
  "findLiveByIdempotencyKey owner key s =
     find (\<lambda>r. jb_owner r = owner \<and> jb_key r = key \<and> live_status (jb_status r)) (js_rows s)"

definition new_job :: "job_input \<Rightarrow> int \<Rightarrow> nat \<Rightarrow> nat \<Rightarrow> job_row" where
  "new_job input priority now i = \<lparr>jb_id = i, jb_owner = in_owner input, jb_type = in_type input,
     jb_priority = priority, jb_payload = in_payload input, jb_key = in_key input, jb_status = JobQueued,
     jb_attempts = 0, jb_max_attempts = DEFAULT_MAX_ATTEMPTS, jb_available = now, jb_lease_owner = None,
     jb_lease_expires = None, jb_last_error = None, jb_created = now, jb_updated = now\<rparr>"

definition enqueue :: "job_input \<Rightarrow> int \<Rightarrow> nat \<Rightarrow> job_store \<Rightarrow> string + job_row option \<times> job_store" where
  "enqueue input priority now s =
     (if findLiveByIdempotencyKey (in_owner input) (in_key input) s \<noteq> None then Inr (None, s)
      else let job = new_job input priority now (js_next s) in
        bind_result (write_rows (js_rows s @ [job]) (s\<lparr>js_next := Suc (js_next s)\<rparr>)) (\<lambda>s'. Inr (Some job, s')))"

definition cancel_queued :: "string \<Rightarrow> job_type \<Rightarrow> nat \<Rightarrow> job_store \<Rightarrow> string + job_store" where
  "cancel_queued owner t now = update_where
     (\<lambda>r. jb_owner r = owner \<and> jb_type r = t \<and> jb_status r = JobQueued)
     (\<lambda>r. r\<lparr>jb_status := JobCancelled, jb_updated := now\<rparr>)"

definition enqueueSuperseding :: "job_input \<Rightarrow> int \<Rightarrow> nat \<Rightarrow> job_store \<Rightarrow> string + job_row option \<times> job_store" where
  "enqueueSuperseding input priority now s =
     bind_result (cancel_queued (in_owner input) (in_type input) now s) (enqueue input priority now)"

section \<open>Claiming\<close>

text \<open>\<open>ORDER BY priority DESC, available_at_utc ASC, created_at_utc ASC, id ASC\<close>\<close>

definition claim_before :: "job_row \<Rightarrow> job_row \<Rightarrow> bool" where
  "claim_before a b \<longleftrightarrow> jb_priority b < jb_priority a
     \<or> jb_priority a = jb_priority b \<and> (jb_available a < jb_available b
     \<or> jb_available a = jb_available b \<and> (jb_created a < jb_created b
     \<or> jb_created a = jb_created b \<and> jb_id a < jb_id b))"

fun first_claim :: "job_row list \<Rightarrow> job_row option" where
  "first_claim [] = None"
| "first_claim (r # rows) = (case first_claim rows of None \<Rightarrow> Some r
     | Some b \<Rightarrow> if claim_before b r then Some b else Some r)"

record claim_input =
  ci_owner :: string
  ci_lease_owner :: string
  ci_lease_ms :: nat
  ci_model_work :: bool

definition claimable :: "claim_input \<Rightarrow> nat \<Rightarrow> job_row \<Rightarrow> bool" where
  "claimable input now r \<longleftrightarrow> jb_owner r = ci_owner input \<and> jb_status r = JobQueued \<and> jb_available r \<le> now
     \<and> (ci_model_work input \<or> \<not> isModelBackedJobType (jb_type r))"

definition claim_row :: "claim_input \<Rightarrow> nat \<Rightarrow> job_row \<Rightarrow> job_row" where
  "claim_row input now r = r\<lparr>jb_status := JobRunning, jb_attempts := Suc (jb_attempts r),
     jb_lease_owner := Some (ci_lease_owner input), jb_lease_expires := Some (now + ci_lease_ms input),
     jb_updated := now\<rparr>"

definition claimNext :: "claim_input \<Rightarrow> nat \<Rightarrow> job_store \<Rightarrow> string + job_row option \<times> job_store" where
  "claimNext input now s = (case first_claim (filter (claimable input now) (js_rows s)) of
     None \<Rightarrow> Inr (None, s)
   | Some c \<Rightarrow>
       bind_result (update_where (\<lambda>r. jb_id r = jb_id c \<and> jb_status r = JobQueued) (claim_row input now) s)
         (\<lambda>s'. bind_result (requireJob (jb_id c) s') (\<lambda>r. Inr (Some r, s'))))"

section \<open>Ending a claim\<close>

definition setTerminal :: "nat \<Rightarrow> job_status \<Rightarrow> string option \<Rightarrow> nat \<Rightarrow> job_store \<Rightarrow> string + job_store" where
  "setTerminal i status err now = update_where (\<lambda>r. jb_id r = i)
     (\<lambda>r. r\<lparr>jb_status := status, jb_lease_owner := None, jb_lease_expires := None, jb_last_error := err,
           jb_updated := now\<rparr>)"

definition returning :: "nat \<Rightarrow> string + job_store \<Rightarrow> string + job_row \<times> job_store" where
  "returning i res = bind_result res (\<lambda>s. bind_result (requireJob i s) (\<lambda>r. Inr (r, s)))"

definition complete_job :: "nat \<Rightarrow> nat \<Rightarrow> job_store \<Rightarrow> string + job_row \<times> job_store" where
  "complete_job i now s = returning i (setTerminal i JobCompleted None now s)"

definition cancel_job :: "nat \<Rightarrow> nat \<Rightarrow> job_store \<Rightarrow> string + job_row \<times> job_store" where
  "cancel_job i now s = returning i (setTerminal i JobCancelled None now s)"

definition fail_job :: "nat \<Rightarrow> string \<Rightarrow> nat \<Rightarrow> job_store \<Rightarrow> string + job_row \<times> job_store" where
  "fail_job i err now s = bind_result (requireJob i s) (\<lambda>job.
     if jb_max_attempts job \<le> jb_attempts job then returning i (setTerminal i JobDeadLetter (Some err) now s)
     else returning i (update_where (\<lambda>r. jb_id r = i)
       (\<lambda>r. r\<lparr>jb_status := JobQueued, jb_lease_owner := None, jb_lease_expires := None,
             jb_available := now + jb_attempts job * RETRY_BACKOFF_MS, jb_last_error := Some err,
             jb_updated := now\<rparr>) s))"

definition requeuePreempted :: "nat \<Rightarrow> nat \<Rightarrow> job_store \<Rightarrow> string + job_row \<times> job_store" where
  "requeuePreempted i now s = returning i (update_where (\<lambda>r. jb_id r = i)
     (\<lambda>r. r\<lparr>jb_status := JobQueued, jb_attempts := jb_attempts r - 1, jb_lease_owner := None,
           jb_lease_expires := None, jb_available := now, jb_updated := now\<rparr>) s)"

definition lease_expired :: "string \<Rightarrow> nat \<Rightarrow> job_row \<Rightarrow> bool" where
  "lease_expired owner now r \<longleftrightarrow> jb_owner r = owner \<and> jb_status r = JobRunning
     \<and> (case jb_lease_expires r of None \<Rightarrow> False | Some t \<Rightarrow> t < now)"

definition recoverExpiredLeases :: "string \<Rightarrow> nat \<Rightarrow> job_store \<Rightarrow> string + nat \<times> job_store" where
  "recoverExpiredLeases owner now s =
     bind_result (update_where (lease_expired owner now)
       (\<lambda>r. r\<lparr>jb_status := JobQueued, jb_lease_owner := None, jb_lease_expires := None,
             jb_available := now, jb_updated := now\<rparr>) s)
       (\<lambda>s'. Inr (length (filter (lease_expired owner now) (js_rows s)), s'))"

definition pruned :: "string \<Rightarrow> nat \<Rightarrow> job_row \<Rightarrow> bool" where
  "pruned owner before r \<longleftrightarrow> jb_owner r = owner \<and> \<not> live_status (jb_status r) \<and> jb_updated r < before"

definition pruneTerminal :: "string \<Rightarrow> nat \<Rightarrow> job_store \<Rightarrow> nat \<times> job_store" where
  "pruneTerminal owner before s = (length (filter (pruned owner before) (js_rows s)),
     s\<lparr>js_rows := filter (\<lambda>r. \<not> pruned owner before r) (js_rows s)\<rparr>)"

definition countByStatus :: "string \<Rightarrow> job_status \<Rightarrow> job_store \<Rightarrow> nat" where
  "countByStatus owner status s = length (filter (\<lambda>r. jb_owner r = owner \<and> jb_status r = status) (js_rows s))"

section \<open>The table\<close>

text \<open>What the schema promises of every table: distinct identifiers, all of them handed out, and
  one live row at most for an owner and a key.\<close>

definition table_ok :: "job_store \<Rightarrow> bool" where
  "table_ok s \<longleftrightarrow> distinct (map jb_id (js_rows s)) \<and> (\<forall>r \<in> set (js_rows s). jb_id r < js_next s)
     \<and> distinct (live_slots (js_rows s))"

text \<open>A settled row stays as it is until it is deleted, and no identifier is used twice.\<close>

definition settled_jobs_kept :: "job_store \<Rightarrow> job_store \<Rightarrow> bool" where
  "settled_jobs_kept s s' \<longleftrightarrow> js_next s \<le> js_next s'
     \<and> (\<forall>r' \<in> set (js_rows s'). jb_id r' < js_next s \<longrightarrow>
          (\<exists>r \<in> set (js_rows s). jb_id r = jb_id r' \<and> (live_status (jb_status r) \<or> r' = r)))"

definition advanced :: "job_store \<Rightarrow> job_store \<Rightarrow> bool" where
  "advanced s s' \<longleftrightarrow> table_ok s' \<and> settled_jobs_kept s s'"

lemma table_ok_no_jobs: "table_ok no_jobs"
  by (simp add: table_ok_def no_jobs_def live_slots_def)

lemma settled_jobs_kept_refl: "settled_jobs_kept s s"
  unfolding settled_jobs_kept_def by blast

lemma settled_jobs_kept_trans:
  assumes st: "settled_jobs_kept s t" and tu: "settled_jobs_kept t u"
  shows "settled_jobs_kept s u"
  unfolding settled_jobs_kept_def
proof (intro conjI ballI impI)
  show "js_next s \<le> js_next u" using st tu by (auto simp: settled_jobs_kept_def)
  fix r'
  assume "r' \<in> set (js_rows u)" and old: "jb_id r' < js_next s"
  moreover have "jb_id r' < js_next t" using old st by (auto simp: settled_jobs_kept_def)
  ultimately obtain r where r: "r \<in> set (js_rows t)" "jb_id r = jb_id r'" "live_status (jb_status r) \<or> r' = r"
    using tu unfolding settled_jobs_kept_def by blast
  then obtain q where "q \<in> set (js_rows s)" "jb_id q = jb_id r" "live_status (jb_status q) \<or> r = q"
    using st old unfolding settled_jobs_kept_def by metis
  then show "\<exists>q \<in> set (js_rows s). jb_id q = jb_id r' \<and> (live_status (jb_status q) \<or> r' = q)"
    using r by metis
qed

lemma advanced_refl: "table_ok s \<Longrightarrow> advanced s s"
  by (simp add: advanced_def settled_jobs_kept_refl)

lemma advanced_trans: "advanced s t \<Longrightarrow> advanced t u \<Longrightarrow> advanced s u"
  unfolding advanced_def by (blast intro: settled_jobs_kept_trans)

lemma same_id_same_row:
  "table_ok s \<Longrightarrow> r \<in> set (js_rows s) \<Longrightarrow> r' \<in> set (js_rows s) \<Longrightarrow> jb_id r = jb_id r' \<Longrightarrow> r = r'"
  by (auto simp: table_ok_def distinct_map inj_on_def)

lemma find_by_id:
  "distinct (map jb_id rows) \<Longrightarrow> r \<in> set rows \<Longrightarrow> find (\<lambda>x. jb_id x = jb_id r) rows = Some r"
  by (induction rows) auto

lemma getJob_row: "table_ok s \<Longrightarrow> r \<in> set (js_rows s) \<Longrightarrow> getJob (jb_id r) s = Some r"
  by (simp add: getJob_def table_ok_def find_by_id)

lemma requireJob_row: "table_ok s \<Longrightarrow> r \<in> set (js_rows s) \<Longrightarrow> requireJob (jb_id r) s = Inr r"
  by (simp add: requireJob_def getJob_row)

lemma live_slots_simps [simp]:
  "live_slots [] = []"
  "live_slots (r # rows) = (if live_status (jb_status r) then (jb_owner r, jb_key r) # live_slots rows
     else live_slots rows)"
  "live_slots (rows @ rows') = live_slots rows @ live_slots rows'"
  by (simp_all add: live_slots_def)

lemma live_slots_filter: "set (live_slots (filter q rows)) \<subseteq> set (live_slots rows)"
  by (auto simp: live_slots_def)

lemma distinct_live_slots_filter: "distinct (live_slots rows) \<Longrightarrow> distinct (live_slots (filter q rows))"
proof (induction rows)
  case (Cons r rows)
  then show ?case using live_slots_filter [of q rows] by (auto split: if_splits)
qed simp

text \<open>An update that keeps who a row belongs to and its key, and revives no settled row.\<close>

definition keeps_slot :: "(job_row \<Rightarrow> job_row) \<Rightarrow> job_row \<Rightarrow> bool" where
  "keeps_slot g r \<longleftrightarrow> jb_id (g r) = jb_id r \<and> jb_owner (g r) = jb_owner r \<and> jb_key (g r) = jb_key r
     \<and> (live_status (jb_status (g r)) \<longrightarrow> live_status (jb_status r))"

lemma live_slots_map: "\<forall>r \<in> set rows. keeps_slot g r \<Longrightarrow> set (live_slots (map g rows)) \<subseteq> set (live_slots rows)"
  by (induction rows) (auto simp: keeps_slot_def split: if_splits)

lemma distinct_live_slots_map:
  "\<forall>r \<in> set rows. keeps_slot g r \<Longrightarrow> distinct (live_slots rows) \<Longrightarrow> distinct (live_slots (map g rows))"
proof (induction rows)
  case (Cons r rows)
  then show ?case using live_slots_map [of rows g] by (auto simp: keeps_slot_def split: if_splits)
qed simp

text \<open>An update of live rows is never rejected.\<close>

lemma update_live:
  assumes ok: "table_ok s"
    and live: "\<forall>r \<in> set (js_rows s). p r \<longrightarrow> live_status (jb_status r)"
    and same: "\<forall>r. jb_id (f r) = jb_id r \<and> jb_owner (f r) = jb_owner r \<and> jb_key (f r) = jb_key r"
  shows "update_where p f s = Inr (s\<lparr>js_rows := map (\<lambda>r. if p r then f r else r) (js_rows s)\<rparr>)"
    and "advanced s (s\<lparr>js_rows := map (\<lambda>r. if p r then f r else r) (js_rows s)\<rparr>)"
proof -
  let ?g = "\<lambda>r. if p r then f r else r"
  have keeps: "\<forall>r \<in> set (js_rows s). keeps_slot ?g r" using live same by (auto simp: keeps_slot_def)
  have ids: "map jb_id (map ?g (js_rows s)) = map jb_id (js_rows s)" using same by auto
  have d: "distinct (live_slots (map ?g (js_rows s)))"
    using ok by (intro distinct_live_slots_map [OF keeps]) (simp add: table_ok_def)
  show "update_where p f s = Inr (s\<lparr>js_rows := map ?g (js_rows s)\<rparr>)"
    using d by (simp add: update_where_def write_rows_def)
  have "\<forall>r \<in> set (map ?g (js_rows s)). jb_id r < js_next s" using ok same by (auto simp: table_ok_def)
  then have "table_ok (s\<lparr>js_rows := map ?g (js_rows s)\<rparr>)"
    using ok d ids by (simp add: table_ok_def del: map_map set_map)
  moreover have "settled_jobs_kept s (s\<lparr>js_rows := map ?g (js_rows s)\<rparr>)"
    using live same by (auto simp: settled_jobs_kept_def)
  ultimately show "advanced s (s\<lparr>js_rows := map ?g (js_rows s)\<rparr>)" by (simp add: advanced_def)
qed

section \<open>No statement is rejected\<close>

text \<open>Rows that run stay where they are.\<close>

definition running_kept :: "job_store \<Rightarrow> job_store \<Rightarrow> bool" where
  "running_kept s s' \<longleftrightarrow> (\<forall>r \<in> set (js_rows s). jb_status r = JobRunning \<longrightarrow> r \<in> set (js_rows s'))"

lemma running_kept_refl: "running_kept s s"
  by (simp add: running_kept_def)

lemma running_kept_trans: "running_kept s t \<Longrightarrow> running_kept t u \<Longrightarrow> running_kept s u"
  by (simp add: running_kept_def)

lemma enqueue_ok:
  assumes ok: "table_ok s"
  shows "\<exists>j s'. enqueue input priority now s = Inr (j, s') \<and> advanced s s' \<and> running_kept s s'"
proof (cases "findLiveByIdempotencyKey (in_owner input) (in_key input) s")
  case None
  let ?s = "s\<lparr>js_rows := js_rows s @ [new_job input priority now (js_next s)], js_next := Suc (js_next s)\<rparr>"
  have "(in_owner input, in_key input) \<notin> set (live_slots (js_rows s))"
    using None by (auto simp: findLiveByIdempotencyKey_def find_None_iff live_slots_def)
  then have d: "distinct (live_slots (js_rows ?s))" and "table_ok ?s"
    using ok by (auto simp: table_ok_def new_job_def less_Suc_eq)
  moreover have "settled_jobs_kept s ?s" by (auto simp: settled_jobs_kept_def new_job_def)
  moreover have "enqueue input priority now s = Inr (Some (new_job input priority now (js_next s)), ?s)"
    using None d by (simp add: enqueue_def write_rows_def Let_def)
  ultimately show ?thesis by (simp add: advanced_def running_kept_def)
next
  case (Some r)
  then show ?thesis using ok by (simp add: enqueue_def advanced_refl running_kept_refl)
qed

lemma cancel_queued_ok:
  assumes ok: "table_ok s"
  shows "\<exists>s'. cancel_queued owner t now s = Inr s' \<and> advanced s s' \<and> running_kept s s'"
proof -
  let ?p = "\<lambda>r. jb_owner r = owner \<and> jb_type r = t \<and> jb_status r = JobQueued"
  let ?f = "\<lambda>r. r\<lparr>jb_status := JobCancelled, jb_updated := now\<rparr>"
  have "update_where ?p ?f s = Inr (s\<lparr>js_rows := map (\<lambda>r. if ?p r then ?f r else r) (js_rows s)\<rparr>)"
    and "advanced s (s\<lparr>js_rows := map (\<lambda>r. if ?p r then ?f r else r) (js_rows s)\<rparr>)"
    by (rule update_live [OF ok, of ?p ?f]; auto simp: live_status_def)+
  moreover have "running_kept s (s\<lparr>js_rows := map (\<lambda>r. if ?p r then ?f r else r) (js_rows s)\<rparr>)"
    by (auto simp: running_kept_def image_iff intro!: bexI)
  ultimately show ?thesis unfolding cancel_queued_def by blast
qed

lemma enqueueSuperseding_ok:
  assumes ok: "table_ok s"
  shows "\<exists>j s'. enqueueSuperseding input priority now s = Inr (j, s') \<and> advanced s s' \<and> running_kept s s'"
proof -
  obtain t where t: "cancel_queued (in_owner input) (in_type input) now s = Inr t" "advanced s t" "running_kept s t"
    using cancel_queued_ok [OF ok] by blast
  then have "table_ok t" by (simp add: advanced_def)
  from enqueue_ok [OF this] obtain j u where "enqueue input priority now t = Inr (j, u)" "advanced t u" "running_kept t u"
    by blast
  then show ?thesis using t unfolding enqueueSuperseding_def
    by (auto intro: advanced_trans running_kept_trans)
qed

text \<open>Writing one live row.\<close>

lemma returning_live:
  assumes ok: "table_ok s" and r: "r \<in> set (js_rows s)" "live_status (jb_status r)"
    and same: "\<forall>x. jb_id (f x) = jb_id x \<and> jb_owner (f x) = jb_owner x \<and> jb_key (f x) = jb_key x"
  shows "\<exists>s'. returning (jb_id r) (update_where (\<lambda>x. jb_id x = jb_id r) f s) = Inr (f r, s') \<and> advanced s s'
    \<and> f r \<in> set (js_rows s')"
proof -
  let ?s = "s\<lparr>js_rows := map (\<lambda>x. if jb_id x = jb_id r then f x else x) (js_rows s)\<rparr>"
  have live: "\<forall>x \<in> set (js_rows s). jb_id x = jb_id r \<longrightarrow> live_status (jb_status x)"
    using r same_id_same_row [OF ok _ r(1)] by auto
  have u: "update_where (\<lambda>x. jb_id x = jb_id r) f s = Inr ?s" and adv: "advanced s ?s"
    by (rule update_live [OF ok live same])+
  have fr: "f r \<in> set (js_rows ?s)" using r(1) by (auto simp: image_iff)
  have "table_ok ?s" using adv by (simp add: advanced_def)
  from requireJob_row [OF this fr] have "requireJob (jb_id r) ?s = Inr (f r)" using same by simp
  then show ?thesis using u adv fr by (simp add: returning_def)
qed

lemma complete_ok:
  assumes ok: "table_ok s" and r: "r \<in> set (js_rows s)" "live_status (jb_status r)"
  shows "\<exists>r' s'. complete_job (jb_id r) now s = Inr (r', s') \<and> advanced s s'"
  unfolding complete_job_def setTerminal_def
  by (rule exE [OF returning_live [OF ok r, of "\<lambda>r. r\<lparr>jb_status := JobCompleted, jb_lease_owner := None,
      jb_lease_expires := None, jb_last_error := None, jb_updated := now\<rparr>"]]) auto

lemma requeue_ok:
  assumes ok: "table_ok s" and r: "r \<in> set (js_rows s)" "live_status (jb_status r)"
  shows "\<exists>r' s'. requeuePreempted (jb_id r) now s = Inr (r', s') \<and> advanced s s' \<and> r' \<in> set (js_rows s')
    \<and> jb_id r' = jb_id r \<and> jb_status r' = JobQueued \<and> jb_attempts r' = jb_attempts r - 1"
  unfolding requeuePreempted_def
  by (rule exE [OF returning_live [OF ok r, of "\<lambda>r. r\<lparr>jb_status := JobQueued, jb_attempts := jb_attempts r - 1,
      jb_lease_owner := None, jb_lease_expires := None, jb_available := now, jb_updated := now\<rparr>"]]) auto

lemma fail_ok:
  assumes ok: "table_ok s" and r: "r \<in> set (js_rows s)" "live_status (jb_status r)"
  shows "\<exists>r' s'. fail_job (jb_id r) err now s = Inr (r', s') \<and> advanced s s'"
proof (cases "jb_max_attempts r \<le> jb_attempts r")
  case True
  then show ?thesis unfolding fail_job_def setTerminal_def
    by (simp add: requireJob_row [OF ok r(1)])
       (rule exE [OF returning_live [OF ok r, of "\<lambda>r. r\<lparr>jb_status := JobDeadLetter, jb_lease_owner := None,
          jb_lease_expires := None, jb_last_error := Some err, jb_updated := now\<rparr>"]], auto)
next
  case False
  then show ?thesis unfolding fail_job_def
    by (simp add: requireJob_row [OF ok r(1)])
       (rule exE [OF returning_live [OF ok r, of "\<lambda>x. x\<lparr>jb_status := JobQueued, jb_lease_owner := None,
          jb_lease_expires := None, jb_available := now + jb_attempts r * RETRY_BACKOFF_MS,
          jb_last_error := Some err, jb_updated := now\<rparr>"]], auto)
qed

lemma recover_ok:
  assumes ok: "table_ok s"
  shows "\<exists>n s'. recoverExpiredLeases owner now s = Inr (n, s') \<and> advanced s s'"
  unfolding recoverExpiredLeases_def
  by (subst update_live(1) [OF ok], (auto simp: lease_expired_def live_status_def)[2], simp,
      rule update_live(2) [OF ok], auto simp: lease_expired_def live_status_def)

lemma prune_ok:
  assumes ok: "table_ok s"
  shows "advanced s (snd (pruneTerminal owner before s))" "running_kept s (snd (pruneTerminal owner before s))"
  using ok by (auto simp: advanced_def table_ok_def settled_jobs_kept_def running_kept_def pruneTerminal_def pruned_def
      live_status_def distinct_map_filter intro: distinct_live_slots_filter)

section \<open>The claim\<close>

lemma claim_before_trans: "claim_before a b \<Longrightarrow> claim_before b c \<Longrightarrow> claim_before a c"
  unfolding claim_before_def by linarith

lemma claim_not_before_trans: "\<not> claim_before a b \<Longrightarrow> \<not> claim_before b c \<Longrightarrow> \<not> claim_before a c"
  unfolding claim_before_def by linarith

text \<open>The row claimed is the first of the order.\<close>

lemma first_claim_None [simp]: "first_claim rows = None \<longleftrightarrow> rows = []"
  by (cases rows) (auto split: option.splits)

lemma first_claim_first:
  "first_claim rows = Some b \<Longrightarrow> b \<in> set rows \<and> (\<forall>r \<in> set rows. \<not> claim_before r b)"
proof (induction rows arbitrary: b)
  case (Cons r rows)
  have irrefl: "\<not> claim_before x x" for x by (simp add: claim_before_def)
  show ?case
  proof (cases "first_claim rows")
    case None
    then show ?thesis using Cons.prems irrefl by simp
  next
    case (Some c)
    then have c: "c \<in> set rows" "\<forall>x \<in> set rows. \<not> claim_before x c" using Cons.IH by auto
    show ?thesis
    proof (cases "claim_before c r")
      case True
      then have "b = c" using Cons.prems Some by simp
      moreover have "\<not> claim_before r c" using True claim_before_trans irrefl by blast
      ultimately show ?thesis using c by simp
    next
      case False
      then have b: "b = r" using Cons.prems Some by simp
      have "\<not> claim_before x r" if "x \<in> set rows" for x
        using claim_not_before_trans [of x c r] False c that by simp
      then show ?thesis using b irrefl by simp
    qed
  qed
qed simp

lemma claimNext_none:
  "filter (claimable input now) (js_rows s) = [] \<Longrightarrow> claimNext input now s = Inr (None, s)"
  by (simp add: claimNext_def)

lemma claimNext_row:
  assumes ok: "table_ok s" and c: "first_claim (filter (claimable input now) (js_rows s)) = Some c"
  shows "\<exists>s'. claimNext input now s = Inr (Some (claim_row input now c), s') \<and> advanced s s'
    \<and> claim_row input now c \<in> set (js_rows s')"
proof -
  let ?p = "\<lambda>r. jb_id r = jb_id c \<and> jb_status r = JobQueued"
  let ?s = "s\<lparr>js_rows := map (\<lambda>r. if ?p r then claim_row input now r else r) (js_rows s)\<rparr>"
  have in_c: "c \<in> set (js_rows s)" "jb_status c = JobQueued"
    using first_claim_first [OF c] by (auto simp: claimable_def)
  have u: "update_where ?p (claim_row input now) s = Inr ?s" and adv: "advanced s ?s"
    by (rule update_live [OF ok, of ?p "claim_row input now"]; auto simp: live_status_def claim_row_def)+
  have r: "claim_row input now c \<in> set (js_rows ?s)" using in_c by (auto simp: image_iff intro!: bexI)
  have "table_ok ?s" using adv by (simp add: advanced_def)
  from requireJob_row [OF this r] have "requireJob (jb_id c) ?s = Inr (claim_row input now c)"
    by (simp add: claim_row_def)
  then show ?thesis using c u adv r by (simp add: claimNext_def)
qed

lemma claimNext_ok:
  assumes ok: "table_ok s"
  obtains s' where "claimNext input now s = Inr (None, s')" "s' = s"
  | c s' where "claimNext input now s = Inr (Some (claim_row input now c), s')" "advanced s s'"
      "claim_row input now c \<in> set (js_rows s')" "claimable input now c" "c \<in> set (js_rows s)"
proof (cases "first_claim (filter (claimable input now) (js_rows s))")
  case None
  then show thesis using that(1) by (simp add: claimNext_none)
next
  case (Some c)
  then show thesis using that(2) claimNext_row [OF ok Some] first_claim_first [OF Some] by auto
qed

end
