(* ===== verification/Assistant_Runner.thy ===== *)
theory Assistant_Runner
  imports Assistant_Jobs
begin

text \<open>
  The runner of the assistant's jobs (\<open>src/assistant/jobs/job-runner.ts\<close>) and the part of
  \<open>src/assistant/assistant-service.ts\<close> that starts and stops its drains. The runner does
  everything between two awaits at once, and the only await is the execution of the claimed job, so an
  event is a tick of the host, the end of an execution with the answers the gates then give, something
  that happens meanwhile, or the death of the process, which leaves the table as it is.

  The services a job calls (extraction, consolidation, projections, questions, images, retention) are
  their answers; what the gates and the clock say is given with each event.
\<close>

section \<open>State\<close>

record drain_summary =
  ds_claimed :: nat
  ds_completed :: nat
  ds_failed :: nat
  ds_preempted :: nat
  ds_recovered :: nat

text \<open>A drain that waits for the execution of its job.\<close>

record active_drain =
  ad_owner :: string
  ad_max :: int
  ad_job :: job_row
  ad_summary :: drain_summary

record runner_config =
  rc_owner :: string
  rc_lease_owner :: string
  rc_lease_ms :: nat
  rc_max_jobs :: int
  rc_priority :: "job_type \<Rightarrow> int"

text \<open>A maintenance operation is queued, has preempted the drain and waits for it, or works.\<close>

datatype maintenance_phase = MaintenanceQueued | MaintenanceWaiting | MaintenanceWorking

record assistant_state =
  as_store :: job_store
  as_preempt :: bool
  as_drain :: "active_drain option"
  as_decisions :: "(string \<times> string) list"
  as_blockers :: nat
  as_chain :: "maintenance_phase list"
  as_residency :: nat
  as_enabled :: bool
  as_last :: "drain_summary option"

definition start_assistant :: "job_store \<Rightarrow> (string \<times> string) list \<Rightarrow> bool \<Rightarrow> assistant_state" where
  "start_assistant s decisions enabled = \<lparr>as_store = s, as_preempt = False, as_drain = None,
     as_decisions = decisions, as_blockers = 0, as_chain = [], as_residency = 0, as_enabled = enabled,
     as_last = None\<rparr>"

text \<open>What the gates answer in one turn of the loop; \<open>None\<close> is allowed. The decision on
  model work is asked twice, and residency once more when an execution failed.\<close>

record gate_answers =
  ga_now :: nat
  ga_idle :: "string option"
  ga_background :: "string option"
  ga_model :: "string option"
  ga_model_again :: "string option"
  ga_resident :: bool
  ga_captures :: nat

section \<open>Recorded decisions\<close>

definition HISTORY_LIMIT :: nat where
  "HISTORY_LIMIT = 100"

text \<open>\<open>BackgroundWorkDecisionStore.record\<close>: a reason is kept only while something waits, and
  only the last hundred.\<close>

definition record_block :: "string \<Rightarrow> nat \<Rightarrow> string \<Rightarrow> assistant_state \<Rightarrow> assistant_state" where
  "record_block owner captures reason s =
     (if countByStatus owner JobQueued (as_store s) = 0 \<and> captures = 0 then s
      else let mine = filter (\<lambda>(o', _). o' = owner) (as_decisions s) @ [(owner, reason)] in
        s\<lparr>as_decisions := filter (\<lambda>(o', _). o' \<noteq> owner) (as_decisions s)
            @ drop (length mine - HISTORY_LIMIT) mine\<rparr>)"

section \<open>Executing a job\<close>

text \<open>The answer of the service a job calls: the candidates found, an image that was processed or
  not, nothing, or a throw (a payload that does not parse included).\<close>

datatype service_answer = FoundCandidates "string list" | ImageProcessed bool | ServiceDone | ServiceThrew string

definition maintenance_input :: "string \<Rightarrow> string \<Rightarrow> job_input" where
  "maintenance_input owner version = \<lparr>in_owner = owner, in_type = ProjectionMaintenance,
     in_payload = ReasonPayload ''graph_changed'', in_key = ''projection_maintenance:'' @ version\<rparr>"

definition enqueueProjectionMaintenance ::
  "runner_config \<Rightarrow> string \<Rightarrow> string \<Rightarrow> nat \<Rightarrow> job_store \<Rightarrow> string + job_store" where
  "enqueueProjectionMaintenance cfg owner version now s =
     bind_result (enqueueSuperseding (maintenance_input owner version) (rc_priority cfg ProjectionMaintenance) now s)
       (\<lambda>(_, s'). Inr s')"

definition consolidation_input :: "string \<Rightarrow> string \<Rightarrow> string list \<Rightarrow> job_input" where
  "consolidation_input owner evidence ids = \<lparr>in_owner = owner, in_type = CandidateConsolidation,
     in_payload = ConsolidationPayload ids, in_key = ''candidate_consolidation:'' @ evidence\<rparr>"

definition JobPreempted :: string where
  "JobPreempted = ''Assistant job preempted by interactive work.''"

text \<open>Each kind of job reads its payload first; maintenance of the projections reads none.\<close>

definition payload_reads :: "job_type \<Rightarrow> job_payload \<Rightarrow> bool" where
  "payload_reads t p = (case t of
     ConversationIngestion \<Rightarrow> (case p of ConversationPayload _ _ \<Rightarrow> True | _ \<Rightarrow> False)
   | CandidateConsolidation \<Rightarrow> (case p of ConsolidationPayload ids \<Rightarrow> ids \<noteq> [] | _ \<Rightarrow> False)
   | ProjectionMaintenance \<Rightarrow> True
   | QuestionPlanning \<Rightarrow> p \<in> {ReasonPayload ''startup'', ReasonPayload ''graph_changed'', ReasonPayload ''schedule''}
   | QuestionAnswerIngestion \<Rightarrow> (case p of AnswerPayload _ _ \<Rightarrow> True | _ \<Rightarrow> False)
   | ProjectionSummarization \<Rightarrow> (case p of ProjectionPayload _ \<Rightarrow> True | _ \<Rightarrow> False)
   | ImageExtraction \<Rightarrow> (case p of ImagePayload _ \<Rightarrow> True | _ \<Rightarrow> False)
   | CaptureRetention \<Rightarrow> p \<in> {ReasonPayload ''schedule'', ReasonPayload ''capacity''})"

text \<open>\<open>execute\<close> after its service answered: the jobs it enqueues, or its throw. A service
  that answers something else than its kind does counts as one that found nothing.\<close>

definition execute_job :: "runner_config \<Rightarrow> bool \<Rightarrow> string \<Rightarrow> string \<Rightarrow> nat \<Rightarrow> job_row \<Rightarrow> service_answer \<Rightarrow> job_store
    \<Rightarrow> string + job_store" where
  "execute_job cfg preempted owner version now job answer s =
     (if \<not> payload_reads (jb_type job) (jb_payload job) then Inl ''Invalid payload''
      else case answer of ServiceThrew e \<Rightarrow> Inl e
      | _ \<Rightarrow>
        (case jb_type job of
           ConversationIngestion \<Rightarrow>
             (if preempted then Inl JobPreempted
              else case (answer, jb_payload job) of
                (FoundCandidates ids, ConversationPayload evidence _) \<Rightarrow>
                  if 1 < length ids then
                    bind_result (enqueue (consolidation_input owner evidence ids) (rc_priority cfg CandidateConsolidation) now s)
                      (\<lambda>(_, s'). Inr s')
                  else enqueueProjectionMaintenance cfg owner version now s
              | _ \<Rightarrow> enqueueProjectionMaintenance cfg owner version now s)
         | CandidateConsolidation \<Rightarrow>
             (if preempted then Inl JobPreempted else enqueueProjectionMaintenance cfg owner version now s)
         | ProjectionMaintenance \<Rightarrow> Inr s
         | QuestionPlanning \<Rightarrow> (if preempted then Inl JobPreempted else Inr s)
         | QuestionAnswerIngestion \<Rightarrow>
             (if preempted then Inl JobPreempted else enqueueProjectionMaintenance cfg owner version now s)
         | ProjectionSummarization \<Rightarrow> (if preempted then Inl JobPreempted else Inr s)
         | ImageExtraction \<Rightarrow>
             (if preempted then Inl JobPreempted
              else if answer = ImageProcessed True then enqueueProjectionMaintenance cfg owner version now s
              else Inr s)
         | CaptureRetention \<Rightarrow> Inr s))"

section \<open>The drain\<close>

definition end_drain :: "drain_summary \<Rightarrow> assistant_state \<Rightarrow> assistant_state" where
  "end_drain sm s = s\<lparr>as_drain := None, as_last := Some sm\<rparr>"

definition claim_request :: "runner_config \<Rightarrow> string \<Rightarrow> bool \<Rightarrow> claim_input" where
  "claim_request cfg owner model_work = \<lparr>ci_owner = owner, ci_lease_owner = rc_lease_owner cfg,
     ci_lease_ms = rc_lease_ms cfg, ci_model_work = model_work\<rparr>"

text \<open>One turn of the loop of \<open>drain\<close>, up to the await of \<open>execute\<close>.\<close>

definition drain_turn :: "runner_config \<Rightarrow> gate_answers \<Rightarrow> string \<Rightarrow> int \<Rightarrow> drain_summary \<Rightarrow> assistant_state
    \<Rightarrow> string + assistant_state" where
  "drain_turn cfg g owner maxJobs sm s =
     (let blocked = (\<lambda>reason s. end_drain sm (record_block owner (ga_captures g) reason s)) in
      if 0 \<le> maxJobs \<and> maxJobs \<le> int (ds_claimed sm) then Inr (end_drain sm s)
      else if as_preempt s then Inr (blocked ''preemption_requested'' s)
      else case ga_idle g of Some reason \<Rightarrow> Inr (blocked reason s)
      | None \<Rightarrow> (case ga_background g of Some reason \<Rightarrow> Inr (blocked reason s)
      | None \<Rightarrow>
        bind_result (claimNext (claim_request cfg owner (ga_model g = None)) (ga_now g) (as_store s)) (\<lambda>(claimed, store).
          let s1 = s\<lparr>as_store := store\<rparr> in
          case claimed of
            None \<Rightarrow>
              (if countByStatus owner JobQueued store = 0 then Inr (end_drain sm s1)
               else Inr (blocked (case ga_model g of Some reason \<Rightarrow> reason | None \<Rightarrow> ''no_claimable_job'') s1))
          | Some job \<Rightarrow>
              let sm1 = sm\<lparr>ds_claimed := Suc (ds_claimed sm)\<rparr> in
              (case (if isModelBackedJobType (jb_type job) then ga_model_again g else None) of
                 Some reason \<Rightarrow>
                   bind_result (requeuePreempted (jb_id job) (ga_now g) store) (\<lambda>(_, store').
                     Inr (end_drain sm1 (record_block owner (ga_captures g) reason (s1\<lparr>as_store := store'\<rparr>))))
               | None \<Rightarrow> Inr (s1\<lparr>as_drain := Some \<lparr>ad_owner = owner, ad_max = maxJobs, ad_job = job,
                    ad_summary = sm1\<rparr>\<rparr>)))))"

text \<open>The start of a drain, and what follows the end of an execution.\<close>

definition start_drain :: "runner_config \<Rightarrow> gate_answers \<Rightarrow> string \<Rightarrow> int \<Rightarrow> assistant_state \<Rightarrow> string + assistant_state" where
  "start_drain cfg g owner maxJobs s =
     bind_result (recoverExpiredLeases owner (ga_now g) (as_store s)) (\<lambda>(n, store).
       drain_turn cfg g owner maxJobs
         \<lparr>ds_claimed = 0, ds_completed = 0, ds_failed = 0, ds_preempted = 0, ds_recovered = n\<rparr>
         (s\<lparr>as_preempt := False, as_store := store\<rparr>))"

definition job_ended :: "runner_config \<Rightarrow> gate_answers \<Rightarrow> string \<Rightarrow> service_answer \<Rightarrow> active_drain \<Rightarrow> assistant_state
    \<Rightarrow> string + assistant_state" where
  "job_ended cfg g version answer d s =
     (let job = ad_job d; owner = ad_owner d; sm = ad_summary d; now = ga_now g;
          preempted = (\<lambda>reason.
            bind_result (requeuePreempted (jb_id job) now (as_store s)) (\<lambda>(_, store).
              Inr (end_drain (sm\<lparr>ds_preempted := Suc (ds_preempted sm)\<rparr>)
                (record_block owner (ga_captures g) reason (s\<lparr>as_store := store\<rparr>))))) in
      case bind_result (execute_job cfg (as_preempt s) owner version now job answer (as_store s))
             (\<lambda>store. complete_job (jb_id job) now store) of
        Inr (_, store) \<Rightarrow>
          drain_turn cfg g owner (ad_max d) (sm\<lparr>ds_completed := Suc (ds_completed sm)\<rparr>)
            (s\<lparr>as_store := store, as_drain := None\<rparr>)
      | Inl e \<Rightarrow>
          if as_preempt s \<or> e = JobPreempted then preempted ''preemption_requested''
          else if isModelBackedJobType (jb_type job) \<and> \<not> ga_resident g then preempted ''model_not_resident''
          else bind_result (fail_job (jb_id job) e now (as_store s)) (\<lambda>(_, store).
            drain_turn cfg g owner (ad_max d) (sm\<lparr>ds_failed := Suc (ds_failed sm)\<rparr>)
              (s\<lparr>as_store := store, as_drain := None\<rparr>)))"

section \<open>What a turn does\<close>

text \<open>What a drain does not touch, and what holds of the job a drain waits for.\<close>

definition same_control :: "assistant_state \<Rightarrow> assistant_state \<Rightarrow> bool" where
  "same_control s s' \<longleftrightarrow> as_blockers s' = as_blockers s \<and> as_chain s' = as_chain s
     \<and> as_residency s' = as_residency s \<and> as_enabled s' = as_enabled s"

definition in_flight :: "assistant_state \<Rightarrow> bool" where
  "in_flight s = (case as_drain s of None \<Rightarrow> True
     | Some d \<Rightarrow> ad_job d \<in> set (js_rows (as_store s)) \<and> jb_status (ad_job d) = JobRunning)"

text \<open>The gates that let a job start.\<close>

definition gates_open :: "gate_answers \<Rightarrow> job_row \<Rightarrow> bool" where
  "gates_open g job \<longleftrightarrow> ga_idle g = None \<and> ga_background g = None
     \<and> (\<not> isModelBackedJobType (jb_type job) \<or> ga_model g = None \<and> ga_model_again g = None)"

definition drain_within :: "active_drain \<Rightarrow> bool" where
  "drain_within d \<longleftrightarrow> ad_max d < 0 \<or> int (ds_claimed (ad_summary d)) \<le> ad_max d"

definition started_by :: "gate_answers \<Rightarrow> string \<Rightarrow> drain_summary \<Rightarrow> active_drain \<Rightarrow> bool" where
  "started_by g owner sm d \<longleftrightarrow> gates_open g (ad_job d) \<and> drain_within d
     \<and> ds_claimed (ad_summary d) = Suc (ds_claimed sm) \<and> jb_owner (ad_job d) = owner"

definition turn_post :: "gate_answers \<Rightarrow> string \<Rightarrow> drain_summary \<Rightarrow> assistant_state \<Rightarrow> assistant_state \<Rightarrow> bool" where
  "turn_post g owner sm s s' \<longleftrightarrow> advanced (as_store s) (as_store s') \<and> same_control s s'
     \<and> as_preempt s' = as_preempt s \<and> in_flight s'
     \<and> (case as_drain s' of None \<Rightarrow> True | Some d \<Rightarrow> \<not> as_preempt s \<and> started_by g owner sm d)"

lemma record_block_simps [simp]:
  "as_store (record_block owner n reason s) = as_store s" "as_preempt (record_block owner n reason s) = as_preempt s"
  "as_drain (record_block owner n reason s) = as_drain s" "as_blockers (record_block owner n reason s) = as_blockers s"
  "as_chain (record_block owner n reason s) = as_chain s" "as_residency (record_block owner n reason s) = as_residency s"
  "as_enabled (record_block owner n reason s) = as_enabled s"
  by (simp_all add: record_block_def Let_def)

lemma turn_post_ended:
  "advanced (as_store s) store \<Longrightarrow> turn_post g owner sm s (end_drain sm' (s\<lparr>as_store := store\<rparr>))"
  "advanced (as_store s) store \<Longrightarrow>
     turn_post g owner sm s (end_drain sm' (record_block owner' n reason (s\<lparr>as_store := store\<rparr>)))"
  by (simp_all add: turn_post_def end_drain_def same_control_def in_flight_def)

lemma turn_post_stays:
  "table_ok (as_store s) \<Longrightarrow> turn_post g owner sm s (end_drain sm' s)"
  "table_ok (as_store s) \<Longrightarrow> turn_post g owner sm s (end_drain sm' (record_block owner' n reason s))"
  by (simp_all add: turn_post_def end_drain_def same_control_def in_flight_def advanced_refl)

lemma drain_turn_ok:
  assumes ok: "table_ok (as_store s)"
  shows "\<exists>s'. drain_turn cfg g owner maxJobs sm s = Inr s' \<and> turn_post g owner sm s s'"
proof -
  consider "0 \<le> maxJobs \<and> maxJobs \<le> int (ds_claimed sm)" | "as_preempt s" | r where "ga_idle g = Some r"
    | r where "ga_background g = Some r"
    | "\<not> (0 \<le> maxJobs \<and> maxJobs \<le> int (ds_claimed sm))" "\<not> as_preempt s" "ga_idle g = None" "ga_background g = None"
    by (cases "ga_idle g"; cases "ga_background g") blast+
  then show ?thesis
  proof cases
    case 5
    let ?claim = "claimNext (claim_request cfg owner (ga_model g = None)) (ga_now g) (as_store s)"
    let ?c = "claim_row (claim_request cfg owner (ga_model g = None)) (ga_now g)"
    show ?thesis
    proof (cases rule: claimNext_ok [OF ok, of "claim_request cfg owner (ga_model g = None)" "ga_now g"])
      case (1 store)
      then show ?thesis using 5 ok turn_post_stays [OF ok, of g owner sm sm] by (simp add: drain_turn_def Let_def)
    next
      case (2 c store)
      have row: "jb_type (?c c) = jb_type c" "jb_owner (?c c) = owner" "jb_status (?c c) = JobRunning"
        using 2(4) by (simp_all add: claim_row_def claimable_def claim_request_def)
      have okt: "table_ok store" using 2(2) by (simp add: advanced_def)
      show ?thesis
      proof (cases "if isModelBackedJobType (jb_type (?c c)) then ga_model_again g else None")
        case None
        then have "gates_open g (?c c)"
          using 5 2(4) row(1) by (auto simp: gates_open_def claimable_def claim_request_def split: if_splits)
        then show ?thesis using 5 2 None row
          by (auto simp: drain_turn_def turn_post_def same_control_def in_flight_def started_by_def drain_within_def)
      next
        case (Some reason)
        obtain r' t where "requeuePreempted (jb_id (?c c)) (ga_now g) store = Inr (r', t)" "advanced store t"
          using requeue_ok [OF okt 2(3), of "ga_now g"] row(3) by (auto simp: live_status_def)
        then show ?thesis using 5 2 Some turn_post_ended(2) [OF advanced_trans [OF 2(2), of t]]
          by (simp add: drain_turn_def Let_def turn_post_stays [OF ok])
      qed
    qed
  qed (use ok in \<open>auto simp: drain_turn_def Let_def turn_post_stays split: option.splits\<close>)
qed


section \<open>What the end of a job does\<close>

lemma enqueueProjectionMaintenance_ok:
  assumes ok: "table_ok s"
  shows "\<exists>s'. enqueueProjectionMaintenance cfg owner version now s = Inr s' \<and> advanced s s' \<and> running_kept s s'"
  using enqueueSuperseding_ok [OF ok, of "maintenance_input owner version" "rc_priority cfg ProjectionMaintenance" now]
  by (auto simp: enqueueProjectionMaintenance_def)

lemma execute_job_ok:
  assumes ok: "table_ok s"
  shows "(\<exists>s'. execute_job cfg preempted owner version now job answer s = Inr s' \<and> advanced s s' \<and> running_kept s s')
    \<or> (\<exists>e. execute_job cfg preempted owner version now job answer s = Inl e)"
proof -
  obtain m where m: "enqueueProjectionMaintenance cfg owner version now s = Inr m" "advanced s m" "running_kept s m"
    using enqueueProjectionMaintenance_ok [OF ok] by blast
  have c: "\<exists>j c. enqueue (consolidation_input owner e ids) (rc_priority cfg CandidateConsolidation) now s = Inr (j, c)
      \<and> advanced s c \<and> running_kept s c" for e ids
    using enqueue_ok [OF ok] .
  show ?thesis
  proof (cases "execute_job cfg preempted owner version now job answer s")
    case (Inr s')
    then have "s' = s \<or> s' = m \<or> (\<exists>e ids j. enqueue (consolidation_input owner e ids) (rc_priority cfg CandidateConsolidation) now s = Inr (j, s'))"
      using m(1) by (auto simp: execute_job_def split: service_answer.splits job_type.splits job_payload.splits if_splits)
    then show ?thesis using Inr m c advanced_refl [OF ok] running_kept_refl [of s] by (metis Inr_inject Pair_inject)
  qed simp
qed

text \<open>A drain that ended, or one that goes on with another job.\<close>

definition ended_post :: "gate_answers \<Rightarrow> active_drain \<Rightarrow> assistant_state \<Rightarrow> assistant_state \<Rightarrow> bool" where
  "ended_post g d s s' \<longleftrightarrow> advanced (as_store s) (as_store s') \<and> same_control s s'
     \<and> as_preempt s' = as_preempt s \<and> in_flight s'
     \<and> (case as_drain s' of None \<Rightarrow> True | Some d' \<Rightarrow> \<not> as_preempt s \<and> started_by g (ad_owner d) (ad_summary d) d')"

lemma ended_post_turn:
  assumes adv: "advanced (as_store s) store" and sm: "ds_claimed sm = ds_claimed (ad_summary d)"
  shows "\<exists>s'. drain_turn cfg g (ad_owner d) maxJobs sm (s\<lparr>as_store := store, as_drain := None\<rparr>) = Inr s'
    \<and> ended_post g d s s'"
proof -
  let ?s = "s\<lparr>as_store := store, as_drain := None\<rparr>"
  have "table_ok (as_store ?s)" using adv by (simp add: advanced_def)
  from drain_turn_ok [OF this] obtain s' where s': "drain_turn cfg g (ad_owner d) maxJobs sm ?s = Inr s'"
    "turn_post g (ad_owner d) sm ?s s'" by blast
  then have "ended_post g d s s'" using adv sm
    by (auto simp: turn_post_def ended_post_def same_control_def started_by_def split: option.splits
        intro: advanced_trans)
  with s'(1) show ?thesis by blast
qed

lemma ended_post_gave_back:
  "advanced (as_store s) store \<Longrightarrow>
     ended_post g d s (end_drain sm (record_block owner n reason (s\<lparr>as_store := store\<rparr>)))"
  by (simp add: ended_post_def end_drain_def same_control_def in_flight_def)

lemma job_ended_ok:
  assumes ok: "table_ok (as_store s)" and d: "as_drain s = Some d" and fl: "in_flight s"
  shows "\<exists>s'. job_ended cfg g version answer d s = Inr s' \<and> ended_post g d s s'"
proof -
  let ?job = "ad_job d"
  have job: "?job \<in> set (js_rows (as_store s))" "live_status (jb_status ?job)" "jb_status ?job = JobRunning"
    using fl d by (simp_all add: in_flight_def live_status_def)
  obtain r1 t1 where re: "requeuePreempted (jb_id ?job) (ga_now g) (as_store s) = Inr (r1, t1)" "advanced (as_store s) t1"
    using requeue_ok [OF ok job(1,2)] by blast
  show ?thesis
  proof (cases "execute_job cfg (as_preempt s) (ad_owner d) version (ga_now g) ?job answer (as_store s)")
    case (Inr t)
    then have t: "advanced (as_store s) t" "?job \<in> set (js_rows t)" "table_ok t"
      using execute_job_ok [OF ok, of cfg "as_preempt s" "ad_owner d" version "ga_now g" ?job answer] job(1,3)
      by (auto simp: running_kept_def advanced_def)
    obtain r2 t2 where c: "complete_job (jb_id ?job) (ga_now g) t = Inr (r2, t2)" "advanced t t2"
      using complete_ok [OF t(3,2) job(2)] by blast
    show ?thesis using Inr c ended_post_turn [OF advanced_trans [OF t(1) c(2)]] by (simp add: job_ended_def Let_def)
  next
    case (Inl e)
    obtain r3 t3 where f: "fail_job (jb_id ?job) e (ga_now g) (as_store s) = Inr (r3, t3)" "advanced (as_store s) t3"
      using fail_ok [OF ok job(1,2)] by blast
    show ?thesis using Inl re f ended_post_turn [OF f(2)] ended_post_gave_back [OF re(2)]
      by (simp add: job_ended_def Let_def)
  qed
qed

text \<open>A drain that was asked to stop ends with the job it waits for, and gives its attempt back.\<close>

lemma job_ended_preempted:
  assumes ok: "table_ok (as_store s)" and d: "as_drain s = Some d" and fl: "in_flight s" and p: "as_preempt s"
  shows "\<exists>s' r. job_ended cfg g version answer d s = Inr s' \<and> as_drain s' = None
    \<and> r \<in> set (js_rows (as_store s')) \<and> jb_id r = jb_id (ad_job d)
    \<and> (jb_status r = JobCompleted \<or> jb_status r = JobQueued \<and> jb_attempts r = jb_attempts (ad_job d) - 1)"
proof -
  let ?job = "ad_job d"
  have job: "?job \<in> set (js_rows (as_store s))" "live_status (jb_status ?job)" "jb_status ?job = JobRunning"
    using fl d by (simp_all add: in_flight_def live_status_def)
  show ?thesis
  proof (cases "execute_job cfg (as_preempt s) (ad_owner d) version (ga_now g) ?job answer (as_store s)")
    case (Inr t)
    then have t: "?job \<in> set (js_rows t)" "table_ok t"
      using execute_job_ok [OF ok, of cfg "as_preempt s" "ad_owner d" version "ga_now g" ?job answer] job(1,3)
      by (auto simp: running_kept_def advanced_def)
    obtain r2 t2 where c: "complete_job (jb_id ?job) (ga_now g) t = Inr (r2, t2)" "r2 \<in> set (js_rows t2)"
      "jb_id r2 = jb_id ?job" "jb_status r2 = JobCompleted"
      using returning_live [OF t(2,1) job(2), of "\<lambda>r. r\<lparr>jb_status := JobCompleted, jb_lease_owner := None,
        jb_lease_expires := None, jb_last_error := None, jb_updated := ga_now g\<rparr>"]
      by (auto simp: complete_job_def setTerminal_def)
    then show ?thesis using Inr p by (auto simp: job_ended_def Let_def drain_turn_def end_drain_def)
  next
    case (Inl e)
    obtain r1 t1 where "requeuePreempted (jb_id ?job) (ga_now g) (as_store s) = Inr (r1, t1)" "r1 \<in> set (js_rows t1)"
      "jb_id r1 = jb_id ?job" "jb_status r1 = JobQueued" "jb_attempts r1 = jb_attempts ?job - 1"
      using requeue_ok [OF ok job(1,2)] by blast
    then show ?thesis using Inl p by (auto simp: job_ended_def Let_def end_drain_def)
  qed
qed

end
