(* ===== verification/Assistant_Service.thy ===== *)
theory Assistant_Service
  imports Assistant_Runner
begin

text \<open>
  The drains of \<open>src/assistant/assistant-service.ts\<close>: \<open>drainJobs\<close>, the preemption by
  interactive work, the changes of model residency and the chain of maintenance operations, as one
  machine over the events of the host. The drain, the maintenance operations and the residency changes
  wait only for each other, so each wait is an event that does nothing before what it waits for.
\<close>

section \<open>Starting a drain\<close>

definition JOB_RETENTION_DAYS :: nat where
  "JOB_RETENTION_DAYS = 7"

definition MAX_SAFE_JOBS :: int where
  "MAX_SAFE_JOBS = 2 ^ 53 - 1"

definition retention_input :: "string \<Rightarrow> job_input" where
  "retention_input owner = \<lparr>in_owner = owner, in_type = CaptureRetention, in_payload = ReasonPayload ''schedule'',
     in_key = ''capture_retention:schedule''\<rparr>"

definition image_input :: "string \<Rightarrow> string \<Rightarrow> job_input" where
  "image_input owner evidence = \<lparr>in_owner = owner, in_type = ImageExtraction, in_payload = ImagePayload evidence,
     in_key = ''image_extraction:'' @ evidence\<rparr>"

text \<open>The rows of one capture state, oldest first, then those of the next, within one budget.\<close>

fun enqueue_captures :: "runner_config \<Rightarrow> nat \<Rightarrow> string list \<Rightarrow> job_store \<Rightarrow> string + job_store" where
  "enqueue_captures cfg now [] s = Inr s"
| "enqueue_captures cfg now (e # es) s =
     bind_result (enqueue (image_input (rc_owner cfg) e) (rc_priority cfg ImageExtraction) now s)
       (\<lambda>(_, s'). enqueue_captures cfg now es s')"

fun enqueue_states :: "runner_config \<Rightarrow> nat \<Rightarrow> int \<Rightarrow> string list list \<Rightarrow> job_store \<Rightarrow> string + job_store" where
  "enqueue_states cfg now remaining [] s = Inr s"
| "enqueue_states cfg now remaining (rows # states) s =
     (if remaining \<le> 0 then Inr s
      else let batch = take (nat remaining) rows in
        bind_result (enqueue_captures cfg now batch s)
          (enqueue_states cfg now (remaining - int (length batch)) states))"

text \<open>The captures that wait, by state, when the runtime can read images.\<close>

definition enqueueWaitingCaptures ::
  "runner_config \<Rightarrow> gate_answers \<Rightarrow> string list list option \<Rightarrow> assistant_state \<Rightarrow> string + assistant_state" where
  "enqueueWaitingCaptures cfg g captures s =
     (case captures of
        None \<Rightarrow> Inr (if 0 < ga_captures g
                    then record_block (rc_owner cfg) (ga_captures g) ''image_capability_unavailable'' s else s)
      | Some states \<Rightarrow>
          bind_result (enqueue_states cfg (ga_now g) (if rc_max_jobs cfg < 0 then MAX_SAFE_JOBS else rc_max_jobs cfg)
              states (as_store s))
            (\<lambda>store. Inr (s\<lparr>as_store := store\<rparr>)))"

definition performDrain ::
  "runner_config \<Rightarrow> gate_answers \<Rightarrow> string list list option \<Rightarrow> assistant_state \<Rightarrow> string + assistant_state" where
  "performDrain cfg g captures s =
     (let cutoff = ga_now g - JOB_RETENTION_DAYS * 86400000;
          store = snd (pruneTerminal (rc_owner cfg) cutoff (as_store s)) in
      bind_result (enqueue (retention_input (rc_owner cfg)) (rc_priority cfg CaptureRetention) (ga_now g) store)
        (\<lambda>(_, store'). bind_result (enqueueWaitingCaptures cfg g captures (s\<lparr>as_store := store'\<rparr>))
          (start_drain cfg g (rc_owner cfg) (rc_max_jobs cfg))))"

definition drainJobs ::
  "runner_config \<Rightarrow> gate_answers \<Rightarrow> string list list option \<Rightarrow> assistant_state \<Rightarrow> string + assistant_state" where
  "drainJobs cfg g captures s =
     (let refuse = (\<lambda>reason. Inr (record_block (rc_owner cfg) (ga_captures g) reason s)) in
      if 0 < as_blockers s then refuse ''drain_blocked''
      else if \<not> as_enabled s then refuse ''assistant_disabled''
      else if as_drain s \<noteq> None then refuse ''drain_already_running''
      else performDrain cfg g captures s)"

section \<open>Events\<close>

text \<open>A maintenance operation that replaced the database leaves another table and other
  recorded decisions.\<close>

datatype assistant_event =
    Tick gate_answers "string list list option"
  | JobEnded gate_answers string service_answer
  | InteractiveRequest
  | MaintenanceRequested
  | MaintenanceTurn
  | MaintenanceWork
  | MaintenanceEnded "(job_store \<times> (string \<times> string) list) option"
  | ResidencyChanging
  | ResidencyMayChange
  | JobRequested job_input int nat
  | JobSuperseded job_input int nat
  | AssistantEnabled bool
  | ProcessRestarted

definition onInteractiveRequest :: "assistant_state \<Rightarrow> assistant_state" where
  "onInteractiveRequest s = (if as_enabled s then s\<lparr>as_preempt := True\<rparr> else s)"

definition runMaintenance :: "assistant_state \<Rightarrow> assistant_state" where
  "runMaintenance s = s\<lparr>as_blockers := Suc (as_blockers s), as_chain := as_chain s @ [MaintenanceQueued]\<rparr>"

text \<open>The chain reached the operation: it stops the drain and waits for it.\<close>

definition maintenance_turn :: "assistant_state \<Rightarrow> assistant_state" where
  "maintenance_turn s = (case as_chain s of
     MaintenanceQueued # later \<Rightarrow> s\<lparr>as_chain := MaintenanceWaiting # later, as_preempt := True\<rparr>
   | _ \<Rightarrow> s)"

definition maintenance_work :: "assistant_state \<Rightarrow> assistant_state" where
  "maintenance_work s = (case as_chain s of
     MaintenanceWaiting # later \<Rightarrow>
       (if as_drain s = None then s\<lparr>as_chain := MaintenanceWorking # later\<rparr> else s)
   | _ \<Rightarrow> s)"

text \<open>The schema holds of a table that was put in place; its identifiers are never handed out again.\<close>

definition restore_table :: "(job_store \<times> (string \<times> string) list) option \<Rightarrow> assistant_state \<Rightarrow> assistant_state" where
  "restore_table restored s = (case restored of
     Some (t, decisions) \<Rightarrow>
       (if table_ok t then s\<lparr>as_store := t\<lparr>js_next := max (js_next t) (js_next (as_store s))\<rparr>, as_decisions := decisions\<rparr> else s)
   | None \<Rightarrow> s)"

definition maintenance_ended :: "(job_store \<times> (string \<times> string) list) option \<Rightarrow> assistant_state \<Rightarrow> assistant_state" where
  "maintenance_ended restored s = (case as_chain s of
     MaintenanceWorking # later \<Rightarrow> restore_table restored (s\<lparr>as_chain := later, as_blockers := as_blockers s - 1\<rparr>)
   | _ \<Rightarrow> s)"

definition onModelResidencyChanging :: "assistant_state \<Rightarrow> assistant_state" where
  "onModelResidencyChanging s = s\<lparr>as_blockers := Suc (as_blockers s), as_residency := Suc (as_residency s),
     as_preempt := True\<rparr>"

definition residency_may_change :: "assistant_state \<Rightarrow> assistant_state" where
  "residency_may_change s = (if 0 < as_residency s \<and> as_drain s = None
     then s\<lparr>as_blockers := as_blockers s - 1, as_residency := as_residency s - 1\<rparr> else s)"

definition on_store :: "(job_store \<Rightarrow> string + 'a \<times> job_store) \<Rightarrow> assistant_state \<Rightarrow> string + assistant_state" where
  "on_store f s = bind_result (f (as_store s)) (\<lambda>(_, store). Inr (s\<lparr>as_store := store\<rparr>))"

fun assistant_step :: "runner_config \<Rightarrow> assistant_event \<Rightarrow> assistant_state \<Rightarrow> string + assistant_state" where
  "assistant_step cfg (Tick g captures) s = drainJobs cfg g captures s"
| "assistant_step cfg (JobEnded g version answer) s = (case as_drain s of
     None \<Rightarrow> Inr s | Some d \<Rightarrow> job_ended cfg g version answer d s)"
| "assistant_step cfg InteractiveRequest s = Inr (onInteractiveRequest s)"
| "assistant_step cfg MaintenanceRequested s = Inr (runMaintenance s)"
| "assistant_step cfg MaintenanceTurn s = Inr (maintenance_turn s)"
| "assistant_step cfg MaintenanceWork s = Inr (maintenance_work s)"
| "assistant_step cfg (MaintenanceEnded restored) s = Inr (maintenance_ended restored s)"
| "assistant_step cfg ResidencyChanging s = Inr (onModelResidencyChanging s)"
| "assistant_step cfg ResidencyMayChange s = Inr (residency_may_change s)"
| "assistant_step cfg (JobRequested input priority now) s = on_store (enqueue input priority now) s"
| "assistant_step cfg (JobSuperseded input priority now) s = on_store (enqueueSuperseding input priority now) s"
| "assistant_step cfg (AssistantEnabled b) s = Inr (s\<lparr>as_enabled := b\<rparr>)"
| "assistant_step cfg ProcessRestarted s = Inr (start_assistant (as_store s) (as_decisions s) (as_enabled s))"

text \<open>A statement the database rejects ends the run.\<close>

definition assistant_next :: "runner_config \<Rightarrow> assistant_event \<Rightarrow> string + assistant_state \<Rightarrow> string + assistant_state" where
  "assistant_next cfg e r = bind_result r (assistant_step cfg e)"

definition run_assistant :: "runner_config \<Rightarrow> assistant_event list \<Rightarrow> string + assistant_state \<Rightarrow> string + assistant_state" where
  "run_assistant cfg = run_events (assistant_next cfg)"

section \<open>The invariant\<close>

text \<open>The table is one the schema allows, the job of the drain is one of its running rows, each
  blocker is a pending operation, only the head of the chain acts, it works only when there is no
  drain, and a drain someone waits for was told to stop.\<close>

definition chain_ok :: "assistant_state \<Rightarrow> bool" where
  "chain_ok s \<longleftrightarrow> as_blockers s = length (as_chain s) + as_residency s
     \<and> (\<forall>p \<in> set (tl (as_chain s)). p = MaintenanceQueued)
     \<and> (as_drain s = None \<or> (as_chain s = [] \<or> hd (as_chain s) \<noteq> MaintenanceWorking)
          \<and> (as_residency s = 0 \<and> (as_chain s = [] \<or> hd (as_chain s) = MaintenanceQueued) \<or> as_preempt s))"

definition assistant_ok :: "assistant_state \<Rightarrow> bool" where
  "assistant_ok s \<longleftrightarrow> table_ok (as_store s) \<and> in_flight s \<and> chain_ok s"

definition assistant_run_ok :: "string + assistant_state \<Rightarrow> bool" where
  "assistant_run_ok r = (case r of Inl _ \<Rightarrow> False | Inr s \<Rightarrow> assistant_ok s)"

section \<open>Every step is accepted\<close>

definition replaces_table :: "assistant_event \<Rightarrow> bool" where
  "replaces_table e = (case e of MaintenanceEnded (Some _) \<Rightarrow> True | _ \<Rightarrow> False)"

text \<open>What the start of a drain leaves: another table, and a drain only as the gates allow.\<close>

definition tick_post :: "runner_config \<Rightarrow> gate_answers \<Rightarrow> assistant_state \<Rightarrow> assistant_state \<Rightarrow> bool" where
  "tick_post cfg g s s' \<longleftrightarrow> advanced (as_store s) (as_store s') \<and> same_control s s' \<and> in_flight s'
     \<and> (case as_drain s' of None \<Rightarrow> True | Some d \<Rightarrow> as_drain s = Some d
          \<or> as_blockers s = 0 \<and> as_enabled s \<and> as_drain s = None
            \<and> gates_open g (ad_job d) \<and> drain_within d \<and> jb_owner (ad_job d) = rc_owner cfg)"

lemma enqueue_captures_ok:
  "table_ok s \<Longrightarrow> \<exists>s'. enqueue_captures cfg now es s = Inr s' \<and> advanced s s'"
proof (induction es arbitrary: s)
  case (Cons e es)
  obtain j t where t: "enqueue (image_input (rc_owner cfg) e) (rc_priority cfg ImageExtraction) now s = Inr (j, t)"
    "advanced s t" using enqueue_ok [OF Cons.prems] by blast
  then have "table_ok t" by (simp add: advanced_def)
  from Cons.IH [OF this] show ?case using t by (auto intro: advanced_trans)
qed (simp add: advanced_refl)

lemma enqueue_states_ok:
  "table_ok s \<Longrightarrow> \<exists>s'. enqueue_states cfg now remaining states s = Inr s' \<and> advanced s s'"
proof (induction states arbitrary: s remaining)
  case (Cons rows states)
  obtain t where t: "enqueue_captures cfg now (take (nat remaining) rows) s = Inr t" "advanced s t"
    using enqueue_captures_ok [OF Cons.prems] by blast
  then have "table_ok t" by (simp add: advanced_def)
  from Cons.IH [OF this] show ?case using t advanced_refl [OF Cons.prems]
    by (auto simp: Let_def intro: advanced_trans)
qed (simp add: advanced_refl)

lemma enqueueWaitingCaptures_ok:
  assumes ok: "table_ok (as_store s)"
  shows "\<exists>s'. enqueueWaitingCaptures cfg g captures s = Inr s' \<and> advanced (as_store s) (as_store s')
    \<and> same_control s s' \<and> as_drain s' = as_drain s"
proof (cases captures)
  case None
  then show ?thesis using ok by (simp add: enqueueWaitingCaptures_def same_control_def advanced_refl)
next
  case (Some states)
  obtain t where "enqueue_states cfg (ga_now g) (if rc_max_jobs cfg < 0 then MAX_SAFE_JOBS else rc_max_jobs cfg)
      states (as_store s) = Inr t" "advanced (as_store s) t" using enqueue_states_ok [OF ok] by blast
  then show ?thesis using Some by (simp add: enqueueWaitingCaptures_def same_control_def)
qed

lemma start_drain_ok:
  assumes ok: "table_ok (as_store s)"
  shows "\<exists>s'. start_drain cfg g owner maxJobs s = Inr s' \<and> advanced (as_store s) (as_store s')
    \<and> same_control s s' \<and> in_flight s'
    \<and> (case as_drain s' of None \<Rightarrow> True
       | Some d \<Rightarrow> gates_open g (ad_job d) \<and> drain_within d \<and> jb_owner (ad_job d) = owner)"
proof -
  obtain n t where t: "recoverExpiredLeases owner (ga_now g) (as_store s) = Inr (n, t)" "advanced (as_store s) t"
    using recover_ok [OF ok] by blast
  let ?sm = "\<lparr>ds_claimed = 0, ds_completed = 0, ds_failed = 0, ds_preempted = 0, ds_recovered = n\<rparr>"
  let ?s = "s\<lparr>as_preempt := False, as_store := t\<rparr>"
  have "table_ok (as_store ?s)" using t by (simp add: advanced_def)
  from drain_turn_ok [OF this] obtain s' where "drain_turn cfg g owner maxJobs ?sm ?s = Inr s'"
    "turn_post g owner ?sm ?s s'" by blast
  then show ?thesis using t
    by (auto simp: start_drain_def turn_post_def same_control_def started_by_def split: option.splits
        intro: advanced_trans)
qed

lemma drainJobs_ok:
  assumes ok: "table_ok (as_store s)" and fl: "in_flight s"
  shows "\<exists>s'. drainJobs cfg g captures s = Inr s' \<and> tick_post cfg g s s'
    \<and> (as_drain s \<noteq> None \<longrightarrow> as_drain s' = as_drain s \<and> as_preempt s' = as_preempt s)"
proof (cases "0 < as_blockers s \<or> \<not> as_enabled s \<or> as_drain s \<noteq> None")
  case True
  then show ?thesis using ok fl
    by (auto simp: drainJobs_def Let_def tick_post_def same_control_def in_flight_def advanced_refl split: option.splits)
next
  case False
  define a where "a = snd (pruneTerminal (rc_owner cfg) (ga_now g - JOB_RETENTION_DAYS * 86400000) (as_store s))"
  have a: "advanced (as_store s) a" unfolding a_def using prune_ok(1) [OF ok] .
  then obtain j b where b: "enqueue (retention_input (rc_owner cfg)) (rc_priority cfg CaptureRetention) (ga_now g) a
      = Inr (j, b)" "advanced a b" using enqueue_ok by (meson advanced_def)
  then obtain c where c: "enqueueWaitingCaptures cfg g captures (s\<lparr>as_store := b\<rparr>) = Inr c" "advanced b (as_store c)"
      "same_control s c"
    using enqueueWaitingCaptures_ok [of "s\<lparr>as_store := b\<rparr>" cfg g captures] by (auto simp: advanced_def same_control_def)
  then have "table_ok (as_store c)" by (simp add: advanced_def)
  from start_drain_ok [OF this, of cfg g "rc_owner cfg" "rc_max_jobs cfg"] obtain s' where s':
    "start_drain cfg g (rc_owner cfg) (rc_max_jobs cfg) c = Inr s'" "advanced (as_store c) (as_store s')"
    "same_control c s'" "in_flight s'"
    "case as_drain s' of None \<Rightarrow> True
     | Some d \<Rightarrow> gates_open g (ad_job d) \<and> drain_within d \<and> jb_owner (ad_job d) = rc_owner cfg" by blast
  have "drainJobs cfg g captures s = Inr s'"
    using False b c s' by (simp add: drainJobs_def performDrain_def Let_def a_def [symmetric])
  moreover have "advanced (as_store s) (as_store s')"
    using a b c s' by (meson advanced_trans)
  ultimately show ?thesis using False c s'
    by (auto simp: tick_post_def same_control_def split: option.splits)
qed

lemma chain_kept:
  assumes "chain_ok s" "same_control s s'"
    and "as_drain s' = None \<or> as_drain s \<noteq> None \<and> as_preempt s' = as_preempt s \<or> as_blockers s = 0"
  shows "chain_ok s'"
  using assms unfolding chain_ok_def same_control_def by (elim disjE) auto

lemma drainJobs_step:
  assumes ok: "assistant_ok s"
  shows "\<exists>s'. drainJobs cfg g captures s = Inr s' \<and> assistant_ok s' \<and> advanced (as_store s) (as_store s')"
proof -
  have "table_ok (as_store s)" "in_flight s" "chain_ok s" using ok by (simp_all add: assistant_ok_def)
  from drainJobs_ok [OF this(1,2)] obtain s' where s': "drainJobs cfg g captures s = Inr s'" "tick_post cfg g s s'"
    "as_drain s \<noteq> None \<longrightarrow> as_drain s' = as_drain s \<and> as_preempt s' = as_preempt s" by blast
  have "as_drain s' = None \<or> as_drain s \<noteq> None \<and> as_preempt s' = as_preempt s \<or> as_blockers s = 0"
    using s' by (cases "as_drain s'") (auto simp: tick_post_def)
  then have "chain_ok s'" using chain_kept [OF \<open>chain_ok s\<close>] s'(2) by (simp add: tick_post_def)
  then show ?thesis using s' by (simp add: assistant_ok_def tick_post_def advanced_def)
qed

lemma job_ended_step:
  assumes ok: "assistant_ok s" and d: "as_drain s = Some d"
  shows "\<exists>s'. job_ended cfg g version answer d s = Inr s' \<and> assistant_ok s' \<and> advanced (as_store s) (as_store s')"
proof -
  have "table_ok (as_store s)" "in_flight s" "chain_ok s" using ok by (simp_all add: assistant_ok_def)
  from job_ended_ok [OF this(1) d this(2)] obtain s' where s': "job_ended cfg g version answer d s = Inr s'"
    "ended_post g d s s'" by blast
  then have "chain_ok s'" using chain_kept [OF \<open>chain_ok s\<close>, of s'] d by (simp add: ended_post_def)
  then show ?thesis using s' by (simp add: assistant_ok_def ended_post_def advanced_def)
qed

text \<open>The operations that only move the chain and the blockers.\<close>

lemma control_step:
  assumes ok: "assistant_ok s" and "as_store s' = as_store s" "as_drain s' = as_drain s" "chain_ok s'"
  shows "assistant_ok s' \<and> advanced (as_store s) (as_store s')"
  using assms by (simp add: assistant_ok_def in_flight_def advanced_refl cong: option.case_cong)

lemma on_store_step:
  assumes ok: "assistant_ok s"
    and f: "\<exists>j t. f (as_store s) = Inr (j, t) \<and> advanced (as_store s) t \<and> running_kept (as_store s) t"
  shows "\<exists>s'. on_store f s = Inr s' \<and> assistant_ok s' \<and> advanced (as_store s) (as_store s')"
  using assms
  by (auto simp: on_store_def assistant_ok_def in_flight_def chain_ok_def advanced_def running_kept_def
      split: option.splits)

lemma chain_ok_moves:
  assumes ok: "chain_ok s"
  shows "chain_ok (onInteractiveRequest s)" "chain_ok (runMaintenance s)" "chain_ok (maintenance_turn s)"
    "chain_ok (maintenance_work s)" "chain_ok (onModelResidencyChanging s)" "chain_ok (residency_may_change s)"
    "chain_ok (s\<lparr>as_enabled := b\<rparr>)"
proof -
  show "chain_ok (onInteractiveRequest s)" using ok by (auto simp: onInteractiveRequest_def chain_ok_def)
  show "chain_ok (runMaintenance s)" using ok
    by (cases "as_chain s") (auto simp: runMaintenance_def chain_ok_def)
  show "chain_ok (maintenance_turn s)" using ok
    by (auto simp: maintenance_turn_def chain_ok_def split: list.splits maintenance_phase.splits)
  show "chain_ok (maintenance_work s)" using ok
    by (auto simp: maintenance_work_def chain_ok_def split: list.splits maintenance_phase.splits)
  show "chain_ok (onModelResidencyChanging s)" using ok by (auto simp: onModelResidencyChanging_def chain_ok_def)
  show "chain_ok (residency_may_change s)" using ok by (auto simp: residency_may_change_def chain_ok_def)
  show "chain_ok (s\<lparr>as_enabled := b\<rparr>)" using ok by (simp add: chain_ok_def)
qed

lemma moves_keep [simp]:
  "as_store (onInteractiveRequest s) = as_store s" "as_drain (onInteractiveRequest s) = as_drain s"
  "as_store (runMaintenance s) = as_store s" "as_drain (runMaintenance s) = as_drain s"
  "as_store (maintenance_turn s) = as_store s" "as_drain (maintenance_turn s) = as_drain s"
  "as_store (maintenance_work s) = as_store s" "as_drain (maintenance_work s) = as_drain s"
  "as_store (onModelResidencyChanging s) = as_store s" "as_drain (onModelResidencyChanging s) = as_drain s"
  "as_store (residency_may_change s) = as_store s" "as_drain (residency_may_change s) = as_drain s"
  by (simp_all add: onInteractiveRequest_def runMaintenance_def maintenance_turn_def maintenance_work_def
      onModelResidencyChanging_def residency_may_change_def split: list.splits maintenance_phase.splits)

lemma table_ok_later: "table_ok t \<Longrightarrow> table_ok (t\<lparr>js_next := max (js_next t) n\<rparr>)"
  by (auto simp: table_ok_def)

lemma maintenance_ended_step:
  assumes ok: "assistant_ok s"
  shows "assistant_ok (maintenance_ended restored s)"
    and "restored = None \<Longrightarrow> as_store (maintenance_ended restored s) = as_store s"
proof -
  show "assistant_ok (maintenance_ended restored s)"
  proof (cases "\<exists>later. as_chain s = MaintenanceWorking # later")
    case True
    then obtain later where l: "as_chain s = MaintenanceWorking # later" by blast
    then have n: "as_drain s = None" using ok by (simp add: assistant_ok_def chain_ok_def)
    have "\<forall>p \<in> set (tl later). p = MaintenanceQueued"
      using ok l by (cases later) (auto simp: assistant_ok_def chain_ok_def)
    then show ?thesis using ok l n
      by (auto simp: maintenance_ended_def restore_table_def assistant_ok_def chain_ok_def in_flight_def table_ok_later
          split: option.splits)
  next
    case False
    then have "maintenance_ended restored s = s"
      by (auto simp: maintenance_ended_def split: list.splits maintenance_phase.splits)
    then show ?thesis using ok by simp
  qed
  show "restored = None \<Longrightarrow> as_store (maintenance_ended restored s) = as_store s"
    by (simp add: maintenance_ended_def restore_table_def split: list.splits maintenance_phase.splits)
qed

lemma start_assistant_ok: "table_ok t \<Longrightarrow> assistant_ok (start_assistant t decisions enabled)"
  by (simp add: assistant_ok_def start_assistant_def in_flight_def chain_ok_def)

lemma assistant_step_ok:
  assumes ok: "assistant_ok s"
  shows "\<exists>s'. assistant_step cfg e s = Inr s' \<and> assistant_ok s'
    \<and> (\<not> replaces_table e \<longrightarrow> advanced (as_store s) (as_store s'))"
proof -
  have t: "table_ok (as_store s)" and c: "chain_ok s" using ok by (simp_all add: assistant_ok_def)
  note control = control_step [OF ok]
  show ?thesis
  proof (cases e)
    case (Tick g captures)
    then show ?thesis using drainJobs_step [OF ok] by simp blast
  next
    case (JobEnded g version answer)
    then show ?thesis using job_ended_step [OF ok] ok advanced_refl [OF t] by (cases "as_drain s") (simp, simp, blast)
  next
    case (MaintenanceEnded restored)
    then show ?thesis using maintenance_ended_step [OF ok] advanced_refl [OF t]
      by (cases restored) (simp_all add: replaces_table_def)
  next
    case (JobRequested input priority now)
    then show ?thesis using on_store_step [of s "enqueue input priority now", OF ok enqueue_ok [OF t]] by simp blast
  next
    case (JobSuperseded input priority now)
    then show ?thesis using on_store_step [of s "enqueueSuperseding input priority now", OF ok enqueueSuperseding_ok [OF t]] by simp blast
  next
    case ProcessRestarted
    then show ?thesis using start_assistant_ok [OF t] advanced_refl [OF t] by (simp add: start_assistant_def)
  qed (simp_all add: control chain_ok_moves [OF c] advanced_refl [OF t])
qed

interpretation assistant: invariant_machine "assistant_next cfg" assistant_run_ok
proof
  fix r e
  assume "assistant_run_ok r"
  then obtain s where "r = Inr s" "assistant_ok s" by (auto simp: assistant_run_ok_def split: sum.splits)
  with assistant_step_ok [OF this(2), of cfg e] show "assistant_run_ok (assistant_next cfg e r)"
    by (auto simp: assistant_run_ok_def assistant_next_def)
qed

lemma run_assistant_ok:
  assumes "assistant_ok s"
  shows "\<exists>s'. run_assistant cfg es (Inr s) = Inr s' \<and> assistant_ok s'"
  using assistant.inv_run [of "Inr s" cfg es] assms by (auto simp: run_assistant_def assistant_run_ok_def split: sum.splits)

end
