(* ===== verification/Assistant_Properties.thy ===== *)
theory Assistant_Properties
  imports Assistant_Service
begin

text \<open>
  What the job queue of the assistant promises: no statement is ever rejected and a settled job is
  final, a job starts only as the gates allow, maintenance gets its turn and works alone, and a job
  whose process keeps dying is claimed for ever.
\<close>

section \<open>Jobs\<close>

lemma run_advances:
  assumes "assistant_ok s"
  shows "\<exists>s'. run_assistant cfg (filter (\<lambda>e. \<not> replaces_table e) es) (Inr s) = Inr s' \<and> assistant_ok s'
    \<and> advanced (as_store s) (as_store s')"
  using assms
proof (induction es arbitrary: s)
  case Nil
  then show ?case by (simp add: run_assistant_def assistant_ok_def advanced_refl)
next
  case (Cons e es)
  obtain t where t: "assistant_step cfg e s = Inr t" "assistant_ok t"
    "\<not> replaces_table e \<longrightarrow> advanced (as_store s) (as_store t)"
    using assistant_step_ok [OF Cons.prems] by blast
  then show ?case using Cons.IH [OF t(2)] Cons.IH [OF Cons.prems]
    by (auto simp: run_assistant_def assistant_next_def intro: advanced_trans)
qed

text \<open>C19. Whatever happens to the assistant, its ticks, ends of executions, preemptions, crashes,
  maintenance and other requests for jobs, no statement of the job table is ever rejected: identifiers
  stay distinct, an owner and key have one live job at most, and a drain waits for a job whose row is
  running. From then on, until a maintenance operation puts another table in place, a completed,
  cancelled or abandoned job never changes, and no identifier is used again.\<close>

theorem jobs_are_settled_once:
  "\<exists>s s'. run_assistant cfg es (Inr (start_assistant no_jobs decisions enabled)) = Inr s
     \<and> run_assistant cfg (filter (\<lambda>e. \<not> replaces_table e) later) (Inr s) = Inr s'
     \<and> table_ok (as_store s) \<and> in_flight s \<and> table_ok (as_store s') \<and> in_flight s'
     \<and> settled_jobs_kept (as_store s) (as_store s')"
proof -
  obtain s where s: "run_assistant cfg es (Inr (start_assistant no_jobs decisions enabled)) = Inr s" "assistant_ok s"
    using run_assistant_ok [OF start_assistant_ok [OF table_ok_no_jobs]] by blast
  from run_advances [OF s(2), of cfg later] show ?thesis
    using s by (auto simp: advanced_def assistant_ok_def)
qed

section \<open>Gates\<close>

definition started_under :: "runner_config \<Rightarrow> gate_answers \<Rightarrow> assistant_event \<Rightarrow> assistant_state \<Rightarrow> active_drain \<Rightarrow> bool" where
  "started_under cfg g e s d \<longleftrightarrow>
     (case e of
        Tick g' _ \<Rightarrow> g' = g \<and> as_blockers s = 0 \<and> as_enabled s \<and> as_drain s = None \<and> jb_owner (ad_job d) = rc_owner cfg
      | JobEnded g' _ _ \<Rightarrow> g' = g \<and> \<not> as_preempt s
          \<and> (case as_drain s of None \<Rightarrow> False | Some d0 \<Rightarrow>
               jb_owner (ad_job d) = ad_owner d0 \<and> ds_claimed (ad_summary d) = Suc (ds_claimed (ad_summary d0)))
      | _ \<Rightarrow> False)"

text \<open>C21. A job starts only in a tick that finds the assistant enabled, no blocker and no drain, or
  at the end of the previous job of a drain nobody asked to stop; only when the idle gate and the
  resource policy allow background work; a job that needs the model only when model work is allowed
  both times it is asked; and within the limit of jobs of its drain. Its row is then running.\<close>

theorem jobs_start_as_gates_allow:
  assumes run: "run_assistant cfg es (Inr (start_assistant no_jobs decisions enabled)) = Inr s"
    and step: "assistant_step cfg e s = Inr s'"
    and started: "as_drain s' = Some d" "as_drain s \<noteq> Some d"
  shows "\<exists>g. started_under cfg g e s d \<and> gates_open g (ad_job d) \<and> drain_within d
    \<and> ad_job d \<in> set (js_rows (as_store s')) \<and> jb_status (ad_job d) = JobRunning"
proof -
  have ok: "assistant_ok s"
    using run run_assistant_ok [OF start_assistant_ok [OF table_ok_no_jobs, of decisions enabled], of cfg es] by auto
  have fl: "in_flight s'" using assistant_step_ok [OF ok, of cfg e] step by (auto simp: assistant_ok_def)
  have t: "table_ok (as_store s)" "in_flight s" using ok by (simp_all add: assistant_ok_def)
  have row: "ad_job d \<in> set (js_rows (as_store s'))" "jb_status (ad_job d) = JobRunning"
    using fl started by (simp_all add: in_flight_def)
  show ?thesis
  proof (cases e)
    case (Tick g captures)
    then have "tick_post cfg g s s'" using drainJobs_ok [OF t, of cfg g captures] step by auto
    then show ?thesis using Tick started row by (auto simp: tick_post_def started_under_def)
  next
    case (JobEnded g version answer)
    obtain d0 where d0: "as_drain s = Some d0"
      using JobEnded step started by (cases "as_drain s") auto
    then have "ended_post g d0 s s'" using job_ended_ok [OF t(1) d0 t(2), of cfg g version answer] JobEnded step by auto
    then show ?thesis using JobEnded started row d0 by (auto simp: ended_post_def started_under_def started_by_def)
  next
    case (JobRequested input priority now)
    then show ?thesis using step started by (auto simp: on_store_def)
  next
    case (JobSuperseded input priority now)
    then show ?thesis using step started by (auto simp: on_store_def)
  next
    case (MaintenanceEnded restored)
    then show ?thesis using step started
      by (auto simp: maintenance_ended_def restore_table_def split: list.splits maintenance_phase.splits option.splits if_splits)
  qed (use step started in \<open>auto simp: start_assistant_def\<close>)
qed

definition allowing_gates :: "nat \<Rightarrow> gate_answers" where
  "allowing_gates now = \<lparr>ga_now = now, ga_idle = None, ga_background = None, ga_model = None, ga_model_again = None,
     ga_resident = True, ga_captures = 0\<rparr>"

definition demo_assistant :: runner_config where
  "demo_assistant = \<lparr>rc_owner = ''me'', rc_lease_owner = ''worker'', rc_lease_ms = 1000, rc_max_jobs = 2,
     rc_priority = (\<lambda>t. if t = CaptureRetention then 1 else 5)\<rparr>"

lemmas assistant_eval = run_assistant_def assistant_next_def start_assistant_def no_jobs_def on_store_def
  enqueue_def findLiveByIdempotencyKey_def write_rows_def new_job_def image_input_def demo_assistant_def allowing_gates_def
  drainJobs_def performDrain_def pruneTerminal_def pruned_def retention_input_def enqueueWaitingCaptures_def
  start_drain_def recoverExpiredLeases_def lease_expired_def update_where_def drain_turn_def claimNext_def
  claim_request_def claimable_def claim_before_def claim_row_def requireJob_def getJob_def live_status_def
  isModelBackedJobType_def Let_def

theorem jobs_start_as_gates_allow_witness:
  "\<exists>s' d. assistant_step demo_assistant (Tick (allowing_gates 10) None)
       (start_assistant \<lparr>js_rows = [new_job (image_input ''me'' ''e1'') 5 7 0], js_next = 1\<rparr> [] True) = Inr s'
     \<and> as_drain s' = Some d \<and> jb_key (ad_job d) = ''image_extraction:e1'' \<and> gates_open (allowing_gates 10) (ad_job d)"
proof -
  let ?s = "start_assistant \<lparr>js_rows = [new_job (image_input ''me'' ''e1'') 5 7 0], js_next = 1\<rparr> [] True"
  have run: "run_assistant demo_assistant [JobRequested (image_input ''me'' ''e1'') 5 7]
      (Inr (start_assistant no_jobs [] True)) = Inr ?s"
    by (simp add: assistant_eval)
  obtain s' d where s': "assistant_step demo_assistant (Tick (allowing_gates 10) None) ?s = Inr s'"
    "as_drain s' = Some d" "jb_key (ad_job d) = ''image_extraction:e1''"
    by (simp add: assistant_eval JOB_RETENTION_DAYS_def DEFAULT_MAX_ATTEMPTS_def)
  have "as_drain ?s \<noteq> Some d" by (simp add: start_assistant_def)
  from jobs_start_as_gates_allow [OF run s'(1,2) this] show ?thesis using s'
    by (auto simp: started_under_def)
qed

section \<open>Maintenance\<close>

definition ends_work :: "assistant_event \<Rightarrow> bool" where
  "ends_work e = (case e of MaintenanceEnded _ \<Rightarrow> True | ProcessRestarted \<Rightarrow> True | _ \<Rightarrow> False)"

lemma work_step:
  assumes ok: "assistant_ok s" and w: "as_chain s = MaintenanceWorking # later" and e: "\<not> ends_work e"
  shows "\<exists>s' more. assistant_step cfg e s = Inr s' \<and> assistant_ok s' \<and> as_chain s' = MaintenanceWorking # later @ more"
proof -
  obtain s' where s': "assistant_step cfg e s = Inr s'" "assistant_ok s'" using assistant_step_ok [OF ok] by blast
  have "0 < as_blockers s" "as_drain s = None" using ok w by (auto simp: assistant_ok_def chain_ok_def)
  then have "\<exists>more. as_chain s' = MaintenanceWorking # later @ more" using s'(1) w e
    by (cases e) (auto simp: drainJobs_def ends_work_def onInteractiveRequest_def runMaintenance_def
        maintenance_turn_def maintenance_work_def onModelResidencyChanging_def residency_may_change_def on_store_def)
  then show ?thesis using s' by blast
qed

lemma work_run:
  "assistant_ok s \<Longrightarrow> as_chain s = MaintenanceWorking # later \<Longrightarrow>
     \<exists>s' more. run_assistant cfg (filter (\<lambda>e. \<not> ends_work e) es) (Inr s) = Inr s' \<and> assistant_ok s'
       \<and> as_chain s' = MaintenanceWorking # later @ more"
proof (induction es arbitrary: s later)
  case (Cons e es)
  show ?case
  proof (cases "ends_work e")
    case False
    obtain t more where t: "assistant_step cfg e s = Inr t" "assistant_ok t" "as_chain t = MaintenanceWorking # later @ more"
      using work_step [OF Cons.prems False] by blast
    from Cons.IH [OF t(2,3)] show ?thesis using False t(1) by (auto simp: run_assistant_def assistant_next_def)
  qed (use Cons in simp)
qed (auto simp: run_assistant_def)

lemma working_no_drain: "assistant_ok s \<Longrightarrow> as_chain s = MaintenanceWorking # later \<Longrightarrow> as_drain s = None"
  by (auto simp: assistant_ok_def chain_ok_def)

text \<open>The job the drain of a state waits for was completed, or waits again with its attempt back.\<close>

definition given_back :: "assistant_state \<Rightarrow> job_store \<Rightarrow> bool" where
  "given_back s store = (case as_drain s of None \<Rightarrow> True
     | Some d \<Rightarrow> (\<exists>r \<in> set (js_rows store). jb_id r = jb_id (ad_job d)
          \<and> (jb_status r = JobCompleted \<or> jb_status r = JobQueued \<and> jb_attempts r = jb_attempts (ad_job d) - 1)))"

lemma moved_ok:
  assumes ok: "assistant_ok s"
  shows "assistant_ok (maintenance_turn s)" "assistant_ok (maintenance_work s)"
proof -
  have c: "chain_ok s" using ok by (simp add: assistant_ok_def)
  show "assistant_ok (maintenance_turn s)" using control_step [OF ok _ _ chain_ok_moves(3) [OF c]] by simp
  show "assistant_ok (maintenance_work s)" using control_step [OF ok _ _ chain_ok_moves(4) [OF c]] by simp
qed



section \<open>Crashes\<close>

text \<open>A process that ticks when the lease of the process before it has run out, and dies.\<close>

definition crash_events :: "runner_config \<Rightarrow> nat \<Rightarrow> nat \<Rightarrow> assistant_event list" where
  "crash_events cfg now n =
     concat (map (\<lambda>k. [Tick (allowing_gates (now + k * Suc (rc_lease_ms cfg))) None, ProcessRestarted]) [0..<n])"

definition waiting_retention :: "runner_config \<Rightarrow> nat \<Rightarrow> nat \<Rightarrow> job_row" where
  "waiting_retention cfg now i = new_job (retention_input (rc_owner cfg)) (rc_priority cfg CaptureRetention) now i"

text \<open>The row of a job that a dead process holds.\<close>

definition held_since :: "runner_config \<Rightarrow> nat \<Rightarrow> nat \<Rightarrow> job_row \<Rightarrow> job_row" where
  "held_since cfg t n j = j\<lparr>jb_status := JobRunning, jb_attempts := jb_attempts j + n, jb_available := t,
     jb_lease_owner := Some (rc_lease_owner cfg), jb_lease_expires := Some (t + rc_lease_ms cfg), jb_updated := t\<rparr>"

definition crash_assumed :: "runner_config \<Rightarrow> nat \<Rightarrow> job_row \<Rightarrow> bool" where
  "crash_assumed cfg now j \<longleftrightarrow> jb_owner j = rc_owner cfg \<and> jb_status j = JobQueued \<and> jb_available j = now
     \<and> jb_key j \<noteq> ''capture_retention:schedule'' \<and> rc_priority cfg CaptureRetention < jb_priority j
     \<and> (rc_max_jobs cfg < 0 \<or> 0 < rc_max_jobs cfg)"

definition after_crashes :: "runner_config \<Rightarrow> nat \<Rightarrow> job_row \<Rightarrow> nat \<Rightarrow> assistant_state" where
  "after_crashes cfg now j n = start_assistant
     (if n = 0 then \<lparr>js_rows = [j], js_next = Suc (jb_id j)\<rparr>
      else \<lparr>js_rows = [held_since cfg (now + (n - 1) * Suc (rc_lease_ms cfg)) n j, waiting_retention cfg now (Suc (jb_id j))],
             js_next = Suc (Suc (jb_id j))\<rparr>) [] True"

lemma first_crash:
  assumes "crash_assumed cfg now j"
  shows "run_assistant cfg [Tick (allowing_gates now) None, ProcessRestarted] (Inr (after_crashes cfg now j 0))
    = Inr (after_crashes cfg now j 1)"
proof -
  have "rc_max_jobs cfg < 0 \<or> 0 < rc_max_jobs cfg" using assms by (simp add: crash_assumed_def)
  then show ?thesis using assms
    by (cases j; elim disjE)
       (simp_all add: assistant_eval crash_assumed_def held_since_def waiting_retention_def after_crashes_def)
qed

lemma next_crash:
  assumes "crash_assumed cfg now j"
  shows "run_assistant cfg [Tick (allowing_gates (now + Suc n * Suc (rc_lease_ms cfg))) None, ProcessRestarted]
      (Inr (after_crashes cfg now j (Suc n)))
    = Inr (after_crashes cfg now j (Suc (Suc n)))"
proof -
  define t where "t = now + n * Suc (rc_lease_ms cfg)"
  have t: "now + Suc n * Suc (rc_lease_ms cfg) = t + Suc (rc_lease_ms cfg)" "now \<le> t" by (simp_all add: t_def)
  have "rc_max_jobs cfg < 0 \<or> 0 < rc_max_jobs cfg" using assms by (simp add: crash_assumed_def)
  then show ?thesis using assms t(2) unfolding after_crashes_def diff_Suc_1 t(1) t_def [symmetric]
    by (cases j; elim disjE)
       (simp_all add: assistant_eval crash_assumed_def held_since_def waiting_retention_def)
qed

lemma crash_events_Suc:
  "crash_events cfg now (Suc n) = crash_events cfg now n
     @ [Tick (allowing_gates (now + n * Suc (rc_lease_ms cfg))) None, ProcessRestarted]"
  by (simp add: crash_events_def)

lemma crashes:
  assumes "crash_assumed cfg now j"
  shows "run_assistant cfg (crash_events cfg now n) (Inr (after_crashes cfg now j 0)) = Inr (after_crashes cfg now j n)"
proof (induction n)
  case 0
  then show ?case by (simp add: crash_events_def run_assistant_def)
next
  case (Suc n)
  have "run_assistant cfg (crash_events cfg now (Suc n)) (Inr (after_crashes cfg now j 0))
      = run_assistant cfg [Tick (allowing_gates (now + n * Suc (rc_lease_ms cfg))) None, ProcessRestarted]
          (run_assistant cfg (crash_events cfg now n) (Inr (after_crashes cfg now j 0)))"
    unfolding crash_events_Suc by (simp add: run_assistant_def)
  then show ?case unfolding Suc.IH using first_crash [OF assms] next_crash [OF assms] by (cases n) auto
qed

text \<open>C38. A job whose process dies while it executes is claimed again by the next process, with one
  attempt more, however many attempts it is allowed: after any number of crashes its row is running,
  has been tried once for every crash, and is never abandoned.\<close>

theorem crashed_job_never_abandoned:
  assumes "jb_owner j = rc_owner cfg" "jb_status j = JobQueued" "jb_available j = now"
    and "jb_key j \<noteq> ''capture_retention:schedule''" "rc_priority cfg CaptureRetention < jb_priority j"
    and "rc_max_jobs cfg < 0 \<or> 0 < rc_max_jobs cfg"
  shows "\<exists>s r. run_assistant cfg (crash_events cfg now (Suc n))
       (Inr (start_assistant \<lparr>js_rows = [j], js_next = Suc (jb_id j)\<rparr> [] True)) = Inr s
     \<and> r \<in> set (js_rows (as_store s)) \<and> jb_id r = jb_id j \<and> jb_status r = JobRunning
     \<and> jb_attempts r = jb_attempts j + Suc n \<and> jb_max_attempts r = jb_max_attempts j"
proof -
  have "crash_assumed cfg now j" using assms by (simp add: crash_assumed_def)
  from crashes [OF this, of "Suc n"] show ?thesis
    by (auto simp: after_crashes_def start_assistant_def held_since_def)
qed

theorem crashed_job_never_abandoned_witness:
  "\<exists>s r. run_assistant demo_assistant (crash_events demo_assistant 7 10)
       (Inr (start_assistant \<lparr>js_rows = [new_job (image_input ''me'' ''e1'') 5 7 0], js_next = 1\<rparr> [] True)) = Inr s
     \<and> r \<in> set (js_rows (as_store s)) \<and> jb_attempts r = 10 \<and> jb_max_attempts r = 3 \<and> jb_status r = JobRunning"
  using crashed_job_never_abandoned [of "new_job (image_input ''me'' ''e1'') 5 7 0" demo_assistant 7 9]
  by (force simp: new_job_def image_input_def demo_assistant_def DEFAULT_MAX_ATTEMPTS_def)

end
