(* ===== verification/Spec2Isabelle.thy ===== *)
theory Spec2Isabelle
  imports Read_Window Queue_Properties Orchestrator_Run_Examples Agent_Run_Store Session_Properties Runtime_Coordinator Repo_Gate Orchestrator_Scheduler Orchestrator_Store
    Orchestrator_Review Sse_Frames Token_Budget Loop_Control Zip_Properties Projection_Properties Assistant_Properties
begin

text \<open>
  SiftKit is a server and command line program that runs coding tasks on local language models. This
  library models the parts of it that decide: who may use the model and the checkout, what a tool call
  may return, when a run must stop, which plans, attempts and reviews are accepted, and what is stored
  and read back. Paths below are relative to the repository.

  The parts and how they interact. A request for the model enters the queue of the status server
  (src/status-server/server-ops.ts); the preset runtime coordinator
  (src/status-server/preset-runtime-coordinator.ts) blocks admission while it switches the loaded
  preset or changes residency, and the queue's drain asks it for readiness. Inside a run the engine
  (src/repo-search/engine) plans reads over windows of a file, keeps tool results within the turn's
  token budget and stops a model that repeats itself. An orchestrator run (src/orchestrator) prepares a
  plan, schedules its tasks on model and writer slots, takes leases on the repository from the gate
  (src/status-server/orchestrator-runs.ts), evaluates attempts and drift reviews, and records every
  transition in its store. Its children are repo-agent sessions: each keeps its record in a run store
  under a lease and parks on an approval gate. A chat operation is projected to the dashboard as
  transfers of records over a stream of server-sent events. The personal assistant (src/assistant) works
  through a table of jobs in the background, whenever interactive work, the model and maintenance leave
  it room. Server-sent events, text files and archives are the formats at the edges.

  Theories.
  \<^item> Sift_Prelude: results of code that may throw, JavaScript list and string operations, and the
    locales of a machine with an invariant and of a machine that stays inside a relation; every step
    machine below interprets them.
  \<^item> Read_Window: the read ranges of a file (src/repo-search/engine/read-overlap.ts,
    read-window-governor.ts, the planning part of repo-tools.ts, findContiguousUnreadRange of
    src/tool-output-fit.ts). Lemmas: merged ranges are exactly the lines read, a planned read returns
    no line twice, the counters count lines.
  \<^item> Model_Config: the part of the configuration the queue reads, and how a request is resolved to a
    preset (src/status-server/model-request-context.ts, config-store.ts, src/config/getters.ts).
  \<^item> Model_Queue, Queue_Invariants, Queue_Progress, Queue_Properties: the queue of model requests. The
    server record holds the waiters, the active locks, the timers and the phase of the asynchronous
    drain, and each callback, timer and await continuation of the code is one event of queue_step.
    Invariants: queue, waiters and locks agree. Progress: a waiter that can be served is never left
    without a pending drain, with the one exception that a failed preset transition leaves (a finding).
  \<^item> Runtime_Coordinator: preset switches, rollback and residency actions, with the answers of the
    runtime as events. Lemmas: the admission blocker is open exactly while something is pending or in
    flight; a switch that ends has applied its target or recorded the failure.
  \<^item> Repo_Gate: shared and exclusive leases per checkout (the gate of orchestrator-runs.ts), granted in
    order, compatible with each other, handed on when released or aborted.
  \<^item> Repo_Paths: resolution of a path a model names (src/repo-search/engine/repo-paths.ts); an accepted
    path lies inside the repository, symlinks resolved.
  \<^item> Orchestrator_Data, Orchestrator_Plan, Orchestrator_Scheduler, Orchestrator_Store,
    Orchestrator_Review: the contracts (packages/contracts/src/orchestrator.ts), validation of a plan
    (plan.ts; the depth-first search accepts exactly the acyclic dependency graphs), one scheduling pass
    (scheduler.ts), the run store (run-store.ts; records stay consistent, finished runs never change, a
    stale caller is refused, and the tables refine an append-only history), and the evaluation of
    attempts and drift reviews (verification.ts, drift-review.ts).
  \<^item> Orchestrator_Workspace: what a run reads of and does to its checkout (workspace.ts) and the Markdown
    form of a plan: the changes found are exactly the edits, and only run-owned scratch is deleted.
  \<^item> Orchestrator_Effects, Orchestrator_Run, Orchestrator_Tasks, Orchestrator_Lifecycle: a live run
    (run.ts, workers.ts), method by method. A method is a function from the live run to an outcome
    (returned, thrown, still waiting) and the live run after it; the script of the live run holds what
    each await answers and what happens meanwhile, the steps of the tasks running beside it included,
    and the trace holds what the run did. Questions to the parent model, approvals and checks are in
    Orchestrator_Run, one attempt, the drift gate and a task in Orchestrator_Tasks, the plan, the
    scheduling, the final verification and the settling in Orchestrator_Lifecycle.
  \<^item> Orchestrator_Relations: the locale of a relation that every method of a run stays inside, given its
    primitive steps; it is interpreted for the leases, the trace, the store and the approvals.
  \<^item> Attempt_Records: attempts that settled stay in the store as they are.
  \<^item> Orchestrator_Run_Properties, Orchestrator_Run_Examples: a run completes only on verified work, a
    completed task earned it, no command runs unapproved, leases are returned on every path, every
    failure is recorded and a run that returns is in a terminal phase; and a run carried through.
  \<^item> Run_State_Lease: the lock file and the recovery file around a run directory
    (src/repo-agent/run-state-lease.ts), file access by file access, with interleaved processes that may
    die in between. Lemmas: one holder at a time; a death during recovery wedges the lease (a finding).
  \<^item> Agent_Run_Store: the records of a repo-agent run (src/repo-agent/run-store.ts, run-schemas.ts),
    every operation under the lease; a record parses, moves only to later revisions, and a terminal one
    never changes.
  \<^item> Approval_Gate: the gate that parks a run on a human decision, the gate that asks a reviewing model
    and the requester that switches between them (src/repo-search/engine/approval-gate.ts,
    llm-approval-gate.ts, approval-mode-requester.ts, src/repo-search/approval-verdict.ts). The locale
    gate_owner is what the gate asks of the run that owns it (park and resume); the session interprets it.
  \<^item> Run_Output: how the outputs of a run's tasks become its result (src/repo-search/output-format.ts,
    response-sanity.ts, src/repo-agent/run-output.ts).
  \<^item> Agent_Session, Session_Invariant, Session_Properties: a repo-agent session of the status server
    (src/status-server/repo-agent-sessions.ts) as a machine of events over the run store and the gate:
    admission, approvals, the clients waiting for a boundary, cancellation, settlement. A session gives
    its model lock back, mirrors the stored record, and answers every waiting client; a decision that
    comes too late strands one (a finding).
  \<^item> Chat_Projection, Projection_Client: the projection of a chat operation. The first holds the records
    (packages/contracts/src/chat-projection.ts) and the generators of full and update transfers
    (src/status-server/chat-projection-encoder.ts), the second the receiver
    (dashboard/src/lib/chat-operation-projection.ts). Projection_Rows relates the two on the rows (moves,
    insertions, suffixes), Projection_Transfer on a whole transfer.
  \<^item> Projection_Frames: the printer of JSON over an explicit stack and the packing of records into frames
    of at most 65536 bytes; the segments spell the JSON text, and no segment is too large.
  \<^item> Projection_Stream, Projection_Properties: the subscriber
    (src/status-server/chat-operation-sse-subscriber.ts), whose transfers a history revision may abandon,
    against the receiver: what is shown is what was captured, to the end of the stream.
  \<^item> Assistant_Jobs, Assistant_Runner, Assistant_Service, Assistant_Properties: the job table
    (src/assistant/storage/job-store.ts) with its unique index, the drain loop
    (src/assistant/jobs/job-runner.ts) cut at its one await, and the ticks, preemptions, residency changes
    and maintenance chain of src/assistant/assistant-service.ts as a machine over events. No statement is
    rejected, a settled job is final, jobs start only as the gates allow, maintenance gets its turn and
    works alone; a job whose process dies is claimed again for ever (a finding).
  \<^item> Sse_Frames: the incremental parser of server-sent events (src/lib/sse-frame-parser.ts); how the
    stream is cut into chunks makes no difference.
  \<^item> Token_Budget: the context window, the share of a turn and the cutting of tool output
    (src/lib/context-token-budget.ts, src/repo-search/engine/turn-budget.ts, tool-result-budgeter.ts,
    src/tool-output-fit.ts); bounds, and that truncation keeps the longest selection.
  \<^item> Loop_Control: repeated calls and the forced finish (duplicate-tracker.ts, forced-finish.ts, and
    the parts of tool-action-processor.ts that drive them); the forced finish is final and a repeated
    call stops the run.
  \<^item> Crc32, Text_Encoding, Zip_Format, Zip_Archive, Zip_Properties: the checksum on 32-bit words,
    text encodings and line endings (src/lib/text-encoding.ts), the archive records (src/lib/zip.ts),
    and the archive writer and reader (zip-file-writer.ts, zip-file-reader.ts); an archive written
    within the limits of the format is read back entry for entry and a changed byte is refused.

  How the code is represented. A class is a record and a method a function that returns the updated
  record; a method that may throw returns a sum, and where it may throw after it has changed its object
  the changed object comes with the error. Asynchronous code is a step function over explicit events,
  one for each point where the code awaits, so every interleaving of callbacks is a list of events.
  Strings are lists of characters below code unit 256, except in the encoding, archive and frame
  theories, where they are lists of 16-bit code units. Times and counts are natural numbers or integers, CRCs are
  words, and ratios are rationals where the code has doubles. Random identifiers come from a counter.

  Parameters. Code outside the repository is an argument: the tokenizer, zlib, sha256, the file system
  answers, the runtime of the inference engine, how many bytes a read returns. What a property needs
  of them is a hypothesis of that property, with a witness.

  Bounds and fuel. Loops are structural or have a termination proof (the dependency search by the tasks
  not on its trail, the binary search by its interval, the parsers and readers by the text or bytes
  left, the JSON printer by the sizes on its stack), except the four endless loops of a live run (child supervision, implementation attempts, drift
  gate, scheduling). Their fuel is one more than the answers left in the script; every round that goes
  on consumes an answer, so more fuel changes nothing, and that is proved.

  Not modelled. The prompts of the orchestrator and the inference of its parent model and children,
  whose answers are arbitrary; the turn loop with its transcript and compaction, the question gate,
  the prompt of the reviewing model, the map of the session manager and the progress events other than
  approvals, the fold of the chat journal into a capture (captures are given, well-formed), the summary
  pipeline, the memory graph, ingestion and captures of the assistant (a job's service is its answer), the database schema and the configuration parser.
  Inference providers, web tools, the command line, HTTP routes and the dashboard are input and output
  around the modelled parts. Within the modelled files, logging, timing records and the wording
  of most messages are left out; the manifest says per part what is missing.
\<close>

end
